(* ===== verification/Prelude.thy ===== *)
theory Prelude
  imports Complex_Main
begin

text \<open>
  Shared vocabulary of the development: Python exceptions as values, the sequencing of
  computations that may raise, indexing, insertion-ordered dictionaries, the few string
  operations the sources use, and time.

  \<^item> A computation that may raise is a value of \<open>'a res\<close>: \<open>Inl e\<close> is the exception,
    \<open>Inr x\<close> the result. \<open>rbind\<close> is the sequencing of two statements.
  \<^item> A timezone-aware \<open>datetime\<close> is the number of microseconds since the Unix epoch, the
    resolution of Python's \<open>datetime\<close>; a \<open>timedelta\<close> is a number of microseconds. The range
    limits of \<open>datetime\<close> (years 1 to 9999) are not modelled. Where the source inspects
    \<open>tzinfo\<close>, the argument is a \<open>py_time\<close>, which tells aware and naive values apart.
  \<^item> A \<open>dict\<close> whose iteration order matters is an association list with the keys in
    insertion order (\<open>od_put\<close> overwrites in place, as Python does).
\<close>

named_theorems res_simps \<open>evaluation of computations that may raise\<close>
named_theorems py_defs \<open>definitions unfolded when a witness is evaluated\<close>

section \<open>Exceptions as values\<close>

datatype py_exn =
    ValueError string
  | KeyError string
  | IndexError
  | TypeError string
  | RuntimeError string
  | DivisionByZero
  | InvalidOperation

type_synonym 'a res = "py_exn + 'a"

definition rbind :: "'a res \<Rightarrow> ('a \<Rightarrow> 'b res) \<Rightarrow> 'b res" where
  "rbind m f = (case m of Inl e \<Rightarrow> Inl e | Inr x \<Rightarrow> f x)"

definition rmap :: "('a \<Rightarrow> 'b) \<Rightarrow> 'a res \<Rightarrow> 'b res" where
  "rmap f m = (case m of Inl e \<Rightarrow> Inl e | Inr x \<Rightarrow> Inr (f x))"

definition raise_if :: "bool \<Rightarrow> py_exn \<Rightarrow> unit res" where
  "raise_if b e = (if b then Inl e else Inr ())"

definition returns :: "'a res \<Rightarrow> bool" where
  "returns m = (case m of Inl _ \<Rightarrow> False | Inr _ \<Rightarrow> True)"

lemma rbind_Inl [simp, res_simps]: "rbind (Inl e) f = Inl e"
  by (simp add: rbind_def)

lemma rbind_Inr [simp, res_simps]: "rbind (Inr x) f = f x"
  by (simp add: rbind_def)

lemma rbind_eq_Inr [simp]: "rbind m f = Inr y \<longleftrightarrow> (\<exists>x. m = Inr x \<and> f x = Inr y)"
  by (cases m) auto

lemma rbind_eq_Inl: "rbind m f = Inl e \<longleftrightarrow> m = Inl e \<or> (\<exists>x. m = Inr x \<and> f x = Inl e)"
  by (cases m) auto

lemma rbind_assoc: "rbind (rbind m f) g = rbind m (\<lambda>x. rbind (f x) g)"
  by (cases m) simp_all

lemma rbind_cong [fundef_cong]:
  "m = m' \<Longrightarrow> (\<And>x. m' = Inr x \<Longrightarrow> f x = f' x) \<Longrightarrow> rbind m f = rbind m' f'"
  by (cases m') simp_all

lemma rmap_Inl [simp, res_simps]: "rmap f (Inl e) = Inl e"
  by (simp add: rmap_def)

lemma rmap_Inr [simp, res_simps]: "rmap f (Inr x) = Inr (f x)"
  by (simp add: rmap_def)

lemma rmap_eq_Inr [simp]: "rmap f m = Inr y \<longleftrightarrow> (\<exists>x. m = Inr x \<and> y = f x)"
  by (cases m) auto

lemma rmap_eq_Inl [simp]: "rmap f m = Inl e \<longleftrightarrow> m = Inl e"
  by (cases m) auto

lemma raise_if_True [simp, res_simps]: "raise_if True e = Inl e"
  by (simp add: raise_if_def)

lemma raise_if_False [simp, res_simps]: "raise_if False e = Inr ()"
  by (simp add: raise_if_def)

lemma raise_if_eq_Inr [simp]: "raise_if b e = Inr u \<longleftrightarrow> \<not> b"
  by (simp add: raise_if_def)

lemma raise_if_eq_Inl [simp]: "raise_if b e = Inl e' \<longleftrightarrow> b \<and> e' = e"
  by (auto simp add: raise_if_def)

lemma returns_simps [simp, res_simps]: "returns (Inr x)" "\<not> returns (Inl e)"
  by (simp_all add: returns_def)

lemma returns_iff: "returns m \<longleftrightarrow> (\<exists>x. m = Inr x)"
  by (cases m) simp_all

text \<open>A \<open>for\<close> loop whose body may raise and appends one result per element.\<close>

fun traverse :: "('a \<Rightarrow> 'b res) \<Rightarrow> 'a list \<Rightarrow> 'b list res" where
  "traverse f [] = Inr []"
| "traverse f (x # xs) = rbind (f x) (\<lambda>y. rbind (traverse f xs) (\<lambda>ys. Inr (y # ys)))"

text \<open>A \<open>for\<close> loop over an accumulator whose body may raise.\<close>

fun foldM :: "('s \<Rightarrow> 'a \<Rightarrow> 's res) \<Rightarrow> 's \<Rightarrow> 'a list \<Rightarrow> 's res" where
  "foldM f s [] = Inr s"
| "foldM f s (x # xs) = rbind (f s x) (\<lambda>s'. foldM f s' xs)"

lemma foldM_append: "foldM f s (xs @ ys) = rbind (foldM f s xs) (\<lambda>s'. foldM f s' ys)"
  by (induction xs arbitrary: s) (simp_all add: rbind_assoc)

lemma foldM_invariant:
  assumes "foldM f s xs = Inr t" "P s"
    and "\<And>s x s'. x \<in> set xs \<Longrightarrow> P s \<Longrightarrow> f s x = Inr s' \<Longrightarrow> P s'"
  shows "P t"
  using assms by (induction xs arbitrary: s) auto

lemma foldM_total:
  assumes "P s"
    and "\<And>s x. x \<in> set xs \<Longrightarrow> P s \<Longrightarrow> \<exists>s'. f s x = Inr s' \<and> P s'"
  shows "\<exists>t. foldM f s xs = Inr t \<and> P t"
  using assms
proof (induction xs arbitrary: s)
  case Nil
  then show ?case by simp
next
  case (Cons x xs)
  then obtain s' where "f s x = Inr s'" "P s'" by (metis list.set_intros(1))
  with Cons show ?case by auto
qed

lemma traverse_length: "traverse f xs = Inr ys \<Longrightarrow> length ys = length xs"
  by (induction xs arbitrary: ys) auto

lemma traverse_total: "(\<And>x. x \<in> set xs \<Longrightarrow> \<exists>y. f x = Inr y) \<Longrightarrow> \<exists>ys. traverse f xs = Inr ys"
  by (induction xs) fastforce+

lemma traverse_set: "traverse f xs = Inr ys \<Longrightarrow> y \<in> set ys \<Longrightarrow> \<exists>x \<in> set xs. f x = Inr y"
  by (induction xs arbitrary: ys) auto

section \<open>Sequences\<close>

definition py_nth :: "'a list \<Rightarrow> nat \<Rightarrow> 'a res" where
  "py_nth xs i = (if i < length xs then Inr (xs ! i) else Inl IndexError)"

lemma py_nth_in [simp]: "i < length xs \<Longrightarrow> py_nth xs i = Inr (xs ! i)"
  by (simp add: py_nth_def)

lemma py_nth_eq_Inr [simp]: "py_nth xs i = Inr x \<longleftrightarrow> i < length xs \<and> x = xs ! i"
  by (auto simp: py_nth_def)

definition enumerate0 :: "'a list \<Rightarrow> (nat \<times> 'a) list" where
  "enumerate0 xs = List.enumerate 0 xs"

lemma in_enumerate0 [simp]: "(i, x) \<in> set (enumerate0 xs) \<longleftrightarrow> i < length xs \<and> x = xs ! i"
  by (auto simp: enumerate0_def in_set_enumerate_eq)

definition pairwise_list :: "'a list \<Rightarrow> ('a \<times> 'a) list" where
  "pairwise_list xs = zip xs (tl xs)"

lemma in_pairwise_list:
  "(x, y) \<in> set (pairwise_list xs) \<longleftrightarrow> (\<exists>i. Suc i < length xs \<and> x = xs ! i \<and> y = xs ! Suc i)"
  by (force simp: pairwise_list_def set_zip nth_tl)

text \<open>\<open>next((x for x in reversed(xs) if p x), None)\<close>.\<close>

definition find_last :: "('a \<Rightarrow> bool) \<Rightarrow> 'a list \<Rightarrow> 'a option" where
  "find_last p xs = List.find p (rev xs)"

lemma find_last_Some: "find_last p xs = Some x \<Longrightarrow> x \<in> set xs \<and> p x"
  by (auto simp: find_last_def find_Some_iff) (metis length_rev nth_mem set_rev)

lemma find_last_None: "find_last p xs = None \<longleftrightarrow> (\<forall>x \<in> set xs. \<not> p x)"
  by (auto simp: find_last_def find_None_iff)

lemma find_append:
  "List.find p (xs @ ys) = (case List.find p xs of None \<Rightarrow> List.find p ys | Some x \<Rightarrow> Some x)"
  by (induction xs) auto

lemma find_update:
  "f x = k \<Longrightarrow> List.find (\<lambda>r. f r = i) (map (\<lambda>r. if f r = k then x else r) xs) =
    (if i = k \<and> List.find (\<lambda>r. f r = i) xs \<noteq> None then Some x else List.find (\<lambda>r. f r = i) xs)"
  by (induction xs) auto

text \<open>\<open>max(xs, key=f, default=None)\<close>: the first element with the greatest key.\<close>

fun first_max :: "('a \<Rightarrow> 'k::linorder) \<Rightarrow> 'a list \<Rightarrow> 'a option" where
  "first_max f [] = None"
| "first_max f (x # xs) =
     Some (foldl (\<lambda>best y. if f best < f y then y else best) x xs)"

lemma foldl_best_in: "foldl (\<lambda>b y. if f b < f y then y else b) x xs \<in> insert x (set xs)"
  by (induction xs arbitrary: x) auto

lemma foldl_best_ge:
  "y \<in> insert x (set xs) \<Longrightarrow> (f y :: 'k::linorder) \<le> f (foldl (\<lambda>b y. if f b < f y then y else b) x xs)"
proof (induction xs arbitrary: x y)
  case Nil
  then show ?case by simp
next
  case (Cons z zs)
  let ?b = "if f x < f z then z else x"
  have b: "f ?b \<le> f (foldl (\<lambda>b y. if f b < f y then y else b) ?b zs)"
    by (rule Cons.IH) simp
  from Cons.prems consider "y = x" | "y = z" | "y \<in> set zs" by auto
  then show ?case
  proof cases
    case 3
    then show ?thesis using Cons.IH [of y ?b] by simp
  qed (use b in \<open>auto split: if_splits\<close>)
qed

lemma first_max_Some:
  "first_max f xs = Some m \<Longrightarrow> m \<in> set xs \<and> (\<forall>y \<in> set xs. f y \<le> f m)"
proof (cases xs)
  case (Cons x ys)
  assume "first_max f xs = Some m"
  with Cons have "m = foldl (\<lambda>b y. if f b < f y then y else b) x ys" by simp
  with Cons foldl_best_in [of f x ys] foldl_best_ge [of _ x ys f] show ?thesis by simp
qed simp

lemma first_max_None [simp]: "first_max f xs = None \<longleftrightarrow> xs = []"
  by (cases xs) auto

text \<open>\<open>list(dict.fromkeys(xs))\<close>: the elements in order of first occurrence.\<close>

fun dedup :: "'a list \<Rightarrow> 'a list" where
  "dedup [] = []"
| "dedup (x # xs) = x # filter (\<lambda>y. y \<noteq> x) (dedup xs)"

lemma set_dedup [simp]: "set (dedup xs) = set xs"
  by (induction xs) auto

lemma distinct_dedup [simp]: "distinct (dedup xs)"
  by (induction xs) auto

lemma dedup_Nil [simp]: "dedup xs = [] \<longleftrightarrow> xs = []"
  by (cases xs) auto

section \<open>Insertion-ordered dictionaries\<close>

fun od_put :: "'k \<Rightarrow> 'v \<Rightarrow> ('k \<times> 'v) list \<Rightarrow> ('k \<times> 'v) list" where
  "od_put k v [] = [(k, v)]"
| "od_put k v ((k', v') # d) = (if k = k' then (k, v) # d else (k', v') # od_put k v d)"

lemma od_put_lookup [simp]: "map_of (od_put k v d) k' = (if k' = k then Some v else map_of d k')"
  by (induction d) auto

lemma od_put_keys: "fst ` set (od_put k v d) = insert k (fst ` set d)"
  by (induction k v d rule: od_put.induct) auto

lemma od_put_distinct: "distinct (map fst d) \<Longrightarrow> distinct (map fst (od_put k v d))"
proof (induction d)
  case (Cons kv d)
  obtain k' v' where kv: "kv = (k', v')" by fastforce
  from Cons have "distinct (map fst (od_put k v d))" by simp
  with Cons.prems kv show ?case
    using od_put_keys [of k v d] by (auto simp: image_iff)
qed simp

lemma od_put_values: "snd ` set (od_put k v d) \<subseteq> insert v (snd ` set d)"
  by (induction k v d rule: od_put.induct) auto

definition od_pop :: "'k \<Rightarrow> ('k \<times> 'v) list \<Rightarrow> ('k \<times> 'v) list" where
  "od_pop k d = filter (\<lambda>kv. fst kv \<noteq> k) d"

lemma od_pop_lookup [simp]: "map_of (od_pop k d) k' = (if k' = k then None else map_of d k')"
  by (induction d) (auto simp: od_pop_def)

lemma od_pop_distinct: "distinct (map fst d) \<Longrightarrow> distinct (map fst (od_pop k d))"
  by (induction d) (auto simp: od_pop_def)

lemma od_pop_set [simp]: "set (od_pop k d) = {kv \<in> set d. fst kv \<noteq> k}"
  by (auto simp: od_pop_def)

section \<open>Strings\<close>

text \<open>ASCII case mapping, which is what \<open>str.upper\<close> and \<open>str.lower\<close> do on the ASCII
  identifiers the sources apply them to.\<close>

definition upper_char :: "char \<Rightarrow> char" where
  "upper_char c = (let n = of_char c :: nat in
     if 97 \<le> n \<and> n \<le> 122 then char_of (n - 32) else c)"

definition lower_char :: "char \<Rightarrow> char" where
  "lower_char c = (let n = of_char c :: nat in
     if 65 \<le> n \<and> n \<le> 90 then char_of (n + 32) else c)"

definition py_upper :: "string \<Rightarrow> string" where
  "py_upper s = map upper_char s"

definition py_lower :: "string \<Rightarrow> string" where
  "py_lower s = map lower_char s"

definition starts_with :: "string \<Rightarrow> string \<Rightarrow> bool" where
  "starts_with p s \<longleftrightarrow> take (length p) s = p"

definition ends_with :: "string \<Rightarrow> string \<Rightarrow> bool" where
  "ends_with p s \<longleftrightarrow> starts_with (rev p) (rev s)"

fun contains_str :: "string \<Rightarrow> string \<Rightarrow> bool" where
  "contains_str p [] \<longleftrightarrow> p = []"
| "contains_str p (c # s) \<longleftrightarrow> starts_with p (c # s) \<or> contains_str p s"

text \<open>\<open>str(n)\<close> of an integer.\<close>

fun show_nat :: "nat \<Rightarrow> string" where
  "show_nat n = (if n < 10 then [char_of (48 + n)] else show_nat (n div 10) @ [char_of (48 + n mod 10)])"

declare show_nat.simps [simp del]

definition show_int :: "int \<Rightarrow> string" where
  "show_int i = (if i < 0 then ''-'' @ show_nat (nat (- i)) else show_nat (nat i))"

lemma show_nat_digits: "c \<in> set (show_nat n) \<Longrightarrow> 48 \<le> (of_char c :: nat) \<and> (of_char c :: nat) \<le> 57"
proof (induction n rule: show_nat.induct)
  case (1 n)
  have "(of_char (char_of (48 + d) :: char) :: nat) = 48 + d" if "d < 10" for d :: nat
    using that by simp
  with 1 show ?case by (subst (asm) (2) show_nat.simps) (auto split: if_splits)
qed

lemma show_nat_inj: "show_nat a = show_nat b \<Longrightarrow> a = b"
proof (induction a arbitrary: b rule: less_induct)
  case (less a)
  have digit: "(char_of (48 + d) :: char) = char_of (48 + e) \<longleftrightarrow> d = e" if "d < 10" "e < 10" for d e :: nat
    using that arg_cong [of "char_of (48 + d)" "char_of (48 + e)" "of_char :: char \<Rightarrow> nat"] by auto
  have ne: "show_nat n \<noteq> []" for n by (subst show_nat.simps) simp
  show ?case
  proof (cases "a < 10"; cases "b < 10")
    assume "a < 10" "b < 10"
    with less.prems digit [of a b] show ?thesis by (simp add: show_nat.simps [of a] show_nat.simps [of b])
  next
    assume "a < 10" "\<not> b < 10"
    with less.prems ne ne [symmetric] show ?thesis by (simp add: show_nat.simps [of a] show_nat.simps [of b])
  next
    assume "\<not> a < 10" "b < 10"
    with less.prems ne ne [symmetric] show ?thesis by (simp add: show_nat.simps [of a] show_nat.simps [of b])
  next
    assume ab: "\<not> a < 10" "\<not> b < 10"
    with less.prems digit [of "a mod 10" "b mod 10"]
    have "show_nat (a div 10) = show_nat (b div 10)" "a mod 10 = b mod 10"
      by (simp_all add: show_nat.simps [of a] show_nat.simps [of b])
    with less.IH [of "a div 10" "b div 10"] ab have "a div 10 = b div 10" "a mod 10 = b mod 10" by simp_all
    then show ?thesis by (metis div_mult_mod_eq)
  qed
qed

lemma show_int_inj: "show_int a = show_int b \<longleftrightarrow> a = b"
proof
  assume e: "show_int a = show_int b"
  have ne: "show_nat n \<noteq> ''-'' @ xs" for n xs
  proof
    assume "show_nat n = ''-'' @ xs"
    then have "CHR ''-'' \<in> set (show_nat n)" by simp
    from show_nat_digits [OF this] show False by simp
  qed
  from e ne ne [symmetric] show "a = b"
    by (auto simp: show_int_def split: if_splits dest!: show_nat_inj)
qed simp

section \<open>Time\<close>

type_synonym instant = int

datatype py_time = Aware instant | Naive int

definition microseconds :: "int \<Rightarrow> int" where "microseconds n = n"
definition seconds :: "int \<Rightarrow> int" where "seconds n = n * 1000000"
definition minutes :: "int \<Rightarrow> int" where "minutes n = n * 60000000"
definition hours :: "int \<Rightarrow> int" where "hours n = n * 3600000000"
definition days :: "int \<Rightarrow> int" where "days n = n * 86400000000"

abbreviation one_minute :: int where "one_minute \<equiv> minutes 1"

text \<open>\<open>int(t.timestamp())\<close> and \<open>t.replace(second=0, microsecond=0)\<close>.\<close>

definition epoch_seconds :: "instant \<Rightarrow> int" where
  "epoch_seconds t = (if 0 \<le> t then t div 1000000 else - ((- t) div 1000000))"

definition epoch_millis :: "instant \<Rightarrow> int" where
  "epoch_millis t = (if 0 \<le> t then t div 1000 else - ((- t) div 1000))"

definition minute_floor :: "instant \<Rightarrow> instant" where
  "minute_floor t = t - t mod minutes 1"

lemmas time_defs = microseconds_def seconds_def minutes_def hours_def days_def

lemma minutes_mono [simp]: "minutes a \<le> minutes b \<longleftrightarrow> a \<le> b" "minutes a < minutes b \<longleftrightarrow> a < b"
  by (simp_all add: minutes_def)

lemma minutes_pos [simp]: "0 < minutes a \<longleftrightarrow> 0 < a" "0 \<le> minutes a \<longleftrightarrow> 0 \<le> a"
  by (simp_all add: minutes_def zero_less_mult_iff zero_le_mult_iff)

end
