(* ===== verification/Py_Decimal.thy ===== *)
theory Py_Decimal
  imports Prelude
begin

text \<open>
  Python's \<open>decimal.Decimal\<close> under the default context, which the sources never change:
  28 significant digits, rounding half to even. A finite \<open>Decimal\<close> is modelled by its
  value, a rational number; construction from a literal or an integer and all comparisons
  are exact, and every arithmetic operation (also unary minus and \<open>abs\<close>) computes the exact
  result and rounds it with \<open>rnd\<close>. Division by zero raises. Not modelled: NaN and the
  infinities (the sources reject them where values enter), the exponent limits of the
  context, and the number of trailing zeros, which only printing shows.

  The rounding function enters the proofs through the locale \<open>rounding\<close> alone, whose
  laws are monotonicity, oddness, idempotence and the fixed points; \<open>rnd\<close> is proved to be
  an instance at the end of the first section.
\<close>

named_theorems dec_defs \<open>the arithmetic of the decimal module\<close>

type_synonym dec = rat

section \<open>The rounding of the decimal module\<close>

fun ndigits :: "nat \<Rightarrow> nat" where
  "ndigits n = (if n < 10 then 1 else Suc (ndigits (n div 10)))"

declare ndigits.simps [simp del]

lemma ndigits_pos [simp]: "0 < ndigits n"
  by (subst ndigits.simps) simp

lemma ndigits_bounds: "0 < n \<Longrightarrow> 10 ^ (ndigits n - 1) \<le> n \<and> n < 10 ^ ndigits n"
proof (induction n rule: ndigits.induct)
  case (1 n)
  show ?case
  proof (cases "n < 10")
    case True
    with "1.prems" show ?thesis by (simp add: ndigits.simps [of n])
  next
    case False
    let ?m = "n div 10"
    from False have "0 < ?m" by simp
    with False "1.IH" have IH: "10 ^ (ndigits ?m - 1) \<le> ?m" "?m < 10 ^ ndigits ?m" by auto
    have e: "ndigits n = Suc (ndigits ?m)" using False by (simp add: ndigits.simps [of n])
    obtain k where k: "ndigits ?m = Suc k" using ndigits_pos gr0_conv_Suc by blast
    from IH k have "10 * 10 ^ k \<le> n" by simp
    moreover from IH(2) have "Suc ?m \<le> 10 ^ ndigits ?m" by simp
    then have "n < 10 * 10 ^ ndigits ?m" by linarith
    ultimately show ?thesis using e k by simp
  qed
qed

text \<open>The exponent of the leading digit of a positive number: \<open>floor (log10 x)\<close>.\<close>

definition lead_exp :: "rat \<Rightarrow> int" where
  "lead_exp x = (case quotient_of x of (n, d) \<Rightarrow>
     let g = int (ndigits (nat n)) - int (ndigits (nat d))
     in if 10 powi g \<le> x then g else g - 1)"

lemma powi_10_pos [simp]: "0 < (10::rat) powi e"
  by (rule zero_less_power_int) simp

lemma powi_10_nonneg [simp]: "0 \<le> (10::rat) powi e"
  using powi_10_pos [of e] by linarith

lemma powi_10_neq [simp]: "(10::rat) powi e \<noteq> 0"
  using powi_10_pos [of e] by linarith

lemma powi_10_mono: "(10::rat) powi a \<le> 10 powi b \<longleftrightarrow> a \<le> b"
proof
  assume "(10::rat) powi a \<le> 10 powi b"
  moreover have "b < a \<Longrightarrow> (10::rat) powi b < 10 powi a" by (rule power_int_strict_increasing) simp_all
  ultimately show "a \<le> b" by (metis not_le)
qed (simp add: power_int_increasing)

lemma powi_10_strict_mono: "(10::rat) powi a < 10 powi b \<longleftrightarrow> a < b"
  by (simp add: powi_10_mono flip: not_le)

lemma powi_10_add: "(10::rat) powi (a + b) = 10 powi a * 10 powi b"
  by (simp add: power_int_add)

lemma powi_10_diff: "(10::rat) powi (a - b) = 10 powi a / 10 powi b"
  by (simp add: power_int_diff)

lemma lead_exp_bounds:
  assumes "0 < x"
  shows "10 powi lead_exp x \<le> x" and "x < 10 powi (lead_exp x + 1)"
proof -
  obtain n d where q: "quotient_of x = (n, d)" by fastforce
  have d: "0 < d" by (rule quotient_of_denom_pos [OF q])
  have x: "x = of_int n / of_int d" by (rule quotient_of_div [OF q])
  with assms d have n: "0 < n" by (simp add: zero_less_divide_iff)
  let ?a = "int (ndigits (nat n))" and ?b = "int (ndigits (nat d))"
  have nb: "(10::rat) powi (?a - 1) \<le> of_int n" "(of_int n::rat) < 10 powi ?a"
    and db: "(10::rat) powi (?b - 1) \<le> of_int d" "(of_int d::rat) < 10 powi ?b"
  proof -
    have *: "(10::rat) powi (int (ndigits (nat m)) - 1) \<le> of_int m \<and> of_int m < (10::rat) powi int (ndigits (nat m))"
      if "0 < m" for m :: int
    proof -
      let ?k = "ndigits (nat m)"
      from that have "0 < nat m" by simp
      from ndigits_bounds [OF this] have b: "10 ^ (?k - 1) \<le> nat m" "nat m < 10 ^ ?k" by auto
      have le: "(of_nat (10 ^ (?k - 1)) :: rat) \<le> of_nat (nat m)"
        using b(1) by (simp only: of_nat_le_iff)
      have lt: "(of_nat (nat m) :: rat) < of_nat (10 ^ ?k)" using b(2) by (simp only: of_nat_less_iff)
      have "int ?k - 1 = int (?k - 1)" using ndigits_pos [of "nat m"] by linarith
      then have e1: "(10::rat) powi (int ?k - 1) = of_nat (10 ^ (?k - 1))"
        by (simp only: power_int_of_nat of_nat_power of_nat_numeral)
      have e2: "(10::rat) powi int ?k = of_nat (10 ^ ?k)" by simp
      have e3: "(of_int m :: rat) = of_nat (nat m)" using that by simp
      show ?thesis unfolding e1 e2 e3 using le lt by blast
    qed
    from * [OF n] * [OF d]
    show "(10::rat) powi (?a - 1) \<le> of_int n" "(of_int n::rat) < 10 powi ?a"
      "(10::rat) powi (?b - 1) \<le> of_int d" "(of_int d::rat) < 10 powi ?b" by auto
  qed
  have dr: "0 < (of_int d :: rat)" using d by simp
  have up: "x < 10 powi (?a - ?b + 1)"
  proof -
    have "x * 10 powi (?b - 1) \<le> x * of_int d" using assms db(1) by simp
    also have "\<dots> = of_int n" using x dr by simp
    also have "\<dots> < 10 powi ?a" by (rule nb(2))
    finally have "x < 10 powi ?a / 10 powi (?b - 1)" by (simp add: field_simps)
    also have "\<dots> = 10 powi (?a - (?b - 1))" by (simp only: powi_10_diff)
    also have "?a - (?b - 1) = ?a - ?b + 1" by simp
    finally show ?thesis .
  qed
  have low: "10 powi (?a - ?b - 1) \<le> x"
  proof -
    have "10 powi (?a - 1) \<le> (of_int n :: rat)" by (rule nb(1))
    also have "\<dots> = x * of_int d" using x dr by simp
    also have "\<dots> \<le> x * 10 powi ?b" using assms db(2) by simp
    finally have "10 powi (?a - 1) / 10 powi ?b \<le> x" by (simp add: field_simps)
    then have "10 powi (?a - 1 - ?b) \<le> x" by (simp only: powi_10_diff)
    moreover have "?a - 1 - ?b = ?a - ?b - 1" by simp
    ultimately show ?thesis by (simp only:)
  qed
  show "10 powi lead_exp x \<le> x" and "x < 10 powi (lead_exp x + 1)"
    using up low by (auto simp: lead_exp_def q Let_def)
qed

lemma lead_exp_mono:
  assumes "0 < x" "x \<le> y"
  shows "lead_exp x \<le> lead_exp y"
proof -
  have "10 powi lead_exp x \<le> x" by (rule lead_exp_bounds(1) [OF assms(1)])
  also have "\<dots> \<le> y" by (rule assms(2))
  also have "\<dots> < 10 powi (lead_exp y + 1)" using assms by (intro lead_exp_bounds(2)) simp
  finally show ?thesis by (simp add: powi_10_strict_mono)
qed

lemma lead_exp_unique:
  assumes "0 < x" "10 powi e \<le> x" "x < 10 powi (e + 1)"
  shows "lead_exp x = e"
proof -
  have "10 powi e < (10::rat) powi (lead_exp x + 1)"
    using assms(2) lead_exp_bounds(2) [OF assms(1)] by linarith
  moreover have "(10::rat) powi lead_exp x < 10 powi (e + 1)"
    using assms(3) lead_exp_bounds(1) [OF assms(1)] by linarith
  ultimately show ?thesis by (simp add: powi_10_strict_mono)
qed

text \<open>\<open>ROUND_HALF_EVEN\<close> of a coefficient.\<close>

definition half_even :: "rat \<Rightarrow> int" where
  "half_even y = (let f = floor y; r = y - of_int f in
     if r < 1/2 then f else if r > 1/2 then f + 1 else if even f then f else f + 1)"

lemma half_even_of_int [simp]: "half_even (of_int n) = n"
  by (simp add: half_even_def)

lemma half_even_bounds: "floor y \<le> half_even y" "half_even y \<le> floor y + 1"
  by (simp_all add: half_even_def Let_def)

lemma half_even_error: "\<bar>of_int (half_even y) - y\<bar> \<le> 1/2"
  using floor_correct [of y] by (auto simp: half_even_def Let_def)

lemma half_even_mono: "x \<le> y \<Longrightarrow> half_even x \<le> half_even y"
proof -
  assume le: "x \<le> y"
  then have f: "floor x \<le> floor y" by (rule floor_mono)
  show ?thesis
  proof (cases "floor x = floor y")
    case True
    with le show ?thesis by (auto simp: half_even_def Let_def)
  next
    case False
    with f have "floor x + 1 \<le> floor y" by simp
    with half_even_bounds(2) [of x] half_even_bounds(1) [of y] show ?thesis by linarith
  qed
qed

lemma half_even_ge: "of_int n \<le> y \<Longrightarrow> n \<le> half_even y"
  using half_even_mono [of "of_int n" y] by simp

lemma half_even_le: "y \<le> of_int n \<Longrightarrow> half_even y \<le> n"
  using half_even_mono [of y "of_int n"] by simp

text \<open>The context's precision.\<close>

definition prec :: int where "prec = 28"

definition rnd_pos :: "rat \<Rightarrow> rat" where
  "rnd_pos x = (let u = 10 powi (lead_exp x - (prec - 1)) in of_int (half_even (x / u)) * u)"

definition rnd :: "rat \<Rightarrow> rat" where
  "rnd x = (if x = 0 then 0 else if 0 < x then rnd_pos x else - rnd_pos (- x))"

lemma powi_10_prec: "(10::rat) powi (prec - 1) = of_int (10 ^ 27)"
  by (simp add: prec_def power_int_def)

lemma rnd_pos_ge:
  assumes "0 < x" shows "10 powi lead_exp x \<le> rnd_pos x"
proof -
  let ?u = "(10::rat) powi (lead_exp x - (prec - 1))"
  have e: "10 powi lead_exp x = 10 powi (prec - 1) * ?u" by (simp flip: powi_10_add)
  have "10 powi (prec - 1) \<le> x / ?u"
    using lead_exp_bounds(1) [OF assms] e by (simp add: field_simps)
  then have "10 ^ 27 \<le> half_even (x / ?u)" by (intro half_even_ge) (simp add: powi_10_prec)
  then have "(10::rat) powi (prec - 1) \<le> of_int (half_even (x / ?u))"
    unfolding powi_10_prec by (simp only: of_int_le_iff)
  then show ?thesis unfolding rnd_pos_def Let_def e by (rule mult_right_mono) simp
qed

lemma rnd_pos_le:
  assumes "0 < x" shows "rnd_pos x \<le> 10 powi (lead_exp x + 1)"
proof -
  let ?u = "(10::rat) powi (lead_exp x - (prec - 1))"
  have e: "10 powi (lead_exp x + 1) = 10 powi prec * ?u" by (simp flip: powi_10_add)
  have p: "(10::rat) powi prec = of_int (10 ^ 28)" by (simp add: prec_def power_int_def)
  have "x / ?u \<le> 10 powi prec"
    using lead_exp_bounds(2) [OF assms] e by (simp add: field_simps)
  then have "half_even (x / ?u) \<le> 10 ^ 28" by (intro half_even_le) (simp add: p)
  then have "of_int (half_even (x / ?u)) \<le> (10::rat) powi prec"
    unfolding p by (simp only: of_int_le_iff)
  then show ?thesis unfolding rnd_pos_def Let_def e by (rule mult_right_mono) simp
qed

lemma rnd_pos_pos: "0 < x \<Longrightarrow> 0 < rnd_pos x"
  using rnd_pos_ge [of x] powi_10_pos [of "lead_exp x"] by linarith

lemma rnd_pos_mono:
  assumes "0 < x" "x \<le> y" shows "rnd_pos x \<le> rnd_pos y"
proof (cases "lead_exp x = lead_exp y")
  case True
  have "half_even (x / u) \<le> half_even (y / u)" if "0 < u" for u
    using assms that by (intro half_even_mono divide_right_mono) auto
  then show ?thesis
    unfolding rnd_pos_def Let_def True by (intro mult_right_mono) simp_all
next
  case False
  with lead_exp_mono [OF assms] have "lead_exp x + 1 \<le> lead_exp y" by simp
  then have "(10::rat) powi (lead_exp x + 1) \<le> 10 powi lead_exp y" by (simp add: powi_10_mono)
  moreover have "0 < y" using assms by simp
  ultimately show ?thesis
    using rnd_pos_le [OF assms(1)] rnd_pos_ge [of y] by linarith
qed

text \<open>A value with at most 28 significant digits: a 28-digit coefficient times a power of ten.\<close>

definition representable :: "rat \<Rightarrow> bool" where
  "representable x \<longleftrightarrow> (\<exists>m e. \<bar>m\<bar> \<le> 10 ^ 28 \<and> x = of_int m * 10 powi e)"

lemma rnd_pos_fix:
  assumes "0 < x" "\<bar>m\<bar> \<le> 10 ^ 28" "x = of_int m * 10 powi e"
  shows "rnd_pos x = x"
proof (cases "x = 10 powi (prec + e)")
  case True
  then have "lead_exp x = prec + e"
    using assms(1) by (intro lead_exp_unique) (simp_all add: powi_10_strict_mono)
  then have "rnd_pos x = of_int (half_even (x / 10 powi (e + 1))) * 10 powi (e + 1)"
    by (simp add: rnd_pos_def Let_def prec_def algebra_simps)
  moreover have "x / 10 powi (e + 1) = of_int (10 ^ 27)"
    using True powi_10_prec by (simp flip: powi_10_diff add: algebra_simps)
  ultimately have "rnd_pos x = of_int (10 ^ 27) * 10 powi (e + 1)"
    by (simp only: half_even_of_int)
  also have "\<dots> = 10 powi (prec + e)"
    unfolding powi_10_prec [symmetric] by (simp flip: powi_10_add)
  finally show ?thesis using True by simp
next
  case False
  let ?l = "lead_exp x"
  let ?u = "(10::rat) powi (?l - (prec - 1))"
  have m: "of_int m \<le> (10::rat) powi prec"
  proof -
    have "of_int m \<le> (of_int (10 ^ 28) :: rat)" using assms(2) by (simp only: of_int_le_iff)
    then show ?thesis by (simp add: prec_def power_int_def)
  qed
  then have "x \<le> 10 powi (prec + e)" using assms(3) by (simp add: powi_10_add)
  with False have "x < 10 powi (prec + e)" by simp
  with lead_exp_bounds(1) [OF assms(1)] have "(10::rat) powi ?l < 10 powi (prec + e)" by linarith
  then have "?l < prec + e" by (simp add: powi_10_strict_mono)
  then obtain k where k: "e = ?l - (prec - 1) + int k"
    by (metis add_diff_cancel_left' diff_add_cancel less_diff_eq zle_iff_zadd
        zless_add1_eq zle_add1_eq_le add.commute diff_diff_eq2)
  have "(10::rat) powi e = of_int (10 ^ k) * ?u"
    by (simp add: k powi_10_add)
  then have q: "x / ?u = of_int (m * 10 ^ k)" using assms(3) by (simp add: field_simps)
  have "rnd_pos x = of_int (m * 10 ^ k) * ?u"
    unfolding rnd_pos_def Let_def q half_even_of_int ..
  also have "\<dots> = x" unfolding q [symmetric] by simp
  finally show ?thesis .
qed

lemma rnd_pos_error:
  assumes "0 < x" shows "\<bar>rnd_pos x - x\<bar> \<le> x * (5 / 10 ^ 28)"
proof -
  let ?u = "(10::rat) powi (lead_exp x - (prec - 1))"
  have "rnd_pos x - x = (of_int (half_even (x / ?u)) - x / ?u) * ?u"
    by (simp add: rnd_pos_def Let_def left_diff_distrib)
  then have "\<bar>rnd_pos x - x\<bar> = \<bar>of_int (half_even (x / ?u)) - x / ?u\<bar> * ?u"
    by (simp add: abs_mult)
  also have "\<dots> \<le> 1/2 * ?u" by (rule mult_right_mono [OF half_even_error]) simp
  also have "?u = 10 powi lead_exp x / 10 ^ 27"
    unfolding powi_10_diff [of "lead_exp x"] powi_10_prec by simp
  also have "1/2 * (10 powi lead_exp x / 10 ^ 27) \<le> 1/2 * (x / 10 ^ 27)"
    using lead_exp_bounds(1) [OF assms] by (simp add: divide_right_mono)
  finally show ?thesis by simp
qed

lemma representableI: "\<bar>m\<bar> \<le> 10 ^ 28 \<Longrightarrow> x = of_int m * 10 powi e \<Longrightarrow> representable x"
  by (auto simp: representable_def)

lemma representable_of_int: "\<bar>m\<bar> \<le> 10 ^ 28 \<Longrightarrow> representable (of_int m)"
  by (rule representableI [of m _ 0]) simp_all

lemma representable_minus [simp]: "representable (- x) \<longleftrightarrow> representable x"
proof -
  have "representable (- y)" if "representable y" for y
  proof -
    from that obtain m e where "\<bar>m\<bar> \<le> 10 ^ 28" "y = of_int m * 10 powi e"
      by (auto simp: representable_def)
    then show ?thesis by (intro representableI [of "- m" _ e]) simp_all
  qed
  from this [of x] this [of "- x"] show ?thesis by auto
qed

lemma rnd_fix: "representable x \<Longrightarrow> rnd x = x"
proof -
  have pos: "rnd_pos y = y" if "0 < y" "representable y" for y
    using that rnd_pos_fix by (auto simp: representable_def)
  assume "representable x"
  with pos [of x] pos [of "- x"] show ?thesis by (simp add: rnd_def)
qed

lemma representable_rnd: "representable (rnd x)"
proof -
  have pos: "representable (rnd_pos y)" if "0 < y" for y
  proof -
    let ?l = "lead_exp y" and ?e = "lead_exp y - (prec - 1)"
    let ?m = "half_even (y / 10 powi ?e)"
    have eq: "rnd_pos y = of_int ?m * 10 powi ?e" by (simp add: rnd_pos_def Let_def)
    have "of_int ?m * 10 powi ?e \<le> (10::rat) powi (?l + 1)" using rnd_pos_le [OF that] eq by simp
    also have "(10::rat) powi (?l + 1) = 10 powi prec * 10 powi ?e" by (simp flip: powi_10_add)
    finally have "of_int ?m \<le> (10::rat) powi prec" by simp
    also have "(10::rat) powi prec = of_int (10 ^ 28)" by (simp add: prec_def power_int_def)
    finally have "?m \<le> 10 ^ 28" by (simp only: of_int_le_iff)
    moreover have "0 \<le> ?m" using that by (intro half_even_ge) simp
    ultimately show ?thesis using eq by (intro representableI) simp_all
  qed
  have "representable 0" using representable_of_int [of 0] by simp
  with pos [of x] pos [of "- x"] show ?thesis by (simp add: rnd_def)
qed

lemma rnd_mono: "x \<le> y \<Longrightarrow> rnd x \<le> rnd y"
proof -
  assume le: "x \<le> y"
  consider "0 < x" | "x \<le> 0" "0 \<le> y" | "y < 0" by linarith
  then show ?thesis
  proof cases
    case 1
    with le show ?thesis by (simp add: rnd_def rnd_pos_mono)
  next
    case 2
    then have "rnd x \<le> 0" using rnd_pos_pos [of "- x"] by (auto simp: rnd_def)
    moreover have "0 \<le> rnd y" using 2 rnd_pos_pos [of y] by (auto simp: rnd_def)
    ultimately show ?thesis by simp
  next
    case 3
    with le have "rnd_pos (- y) \<le> rnd_pos (- x)" by (intro rnd_pos_mono) simp_all
    with 3 le show ?thesis by (simp add: rnd_def)
  qed
qed

lemma rnd_error: "\<bar>rnd x - x\<bar> \<le> \<bar>x\<bar> * (5 / 10 ^ 28)"
proof -
  consider "0 < x" | "x = 0" | "0 < - x" by linarith
  then show ?thesis
  proof cases
    case 3
    then have "\<bar>rnd x - x\<bar> = \<bar>rnd_pos (- x) - (- x)\<bar>" by (simp add: rnd_def)
    then show ?thesis using rnd_pos_error [OF 3] 3 by simp
  qed (use rnd_pos_error [of x] in \<open>simp_all add: rnd_def\<close>)
qed

text \<open>The laws the proofs of the components use.\<close>

locale rounding =
  fixes r :: "rat \<Rightarrow> rat"
  assumes r_mono: "x \<le> y \<Longrightarrow> r x \<le> r y"
    and r_zero: "r 0 = 0"
    and r_minus: "r (- x) = - r x"
    and r_idem: "r (r x) = r x"
    and r_strict: "0 < x \<Longrightarrow> 0 < r x"
begin

lemma r_pos_iff: "0 < r x \<longleftrightarrow> 0 < x"
  using r_strict r_mono [of x 0] r_zero by (metis not_le)

lemma r_neg_iff: "r x < 0 \<longleftrightarrow> x < 0"
  using r_pos_iff [of "- x"] by (simp add: r_minus)

lemma r_nonneg_iff: "0 \<le> r x \<longleftrightarrow> 0 \<le> x"
  using r_neg_iff [of x] by (simp flip: not_less)

lemma r_nonpos_iff: "r x \<le> 0 \<longleftrightarrow> x \<le> 0"
  using r_pos_iff [of x] by (simp flip: not_less)

lemma r_eq_0_iff: "r x = 0 \<longleftrightarrow> x = 0"
  using r_nonneg_iff [of x] r_nonpos_iff [of x] by auto

lemma r_le_fix: "x \<le> y \<Longrightarrow> r y = y \<Longrightarrow> r x \<le> y"
  using r_mono [of x y] by simp

lemma r_ge_fix: "y \<le> x \<Longrightarrow> r y = y \<Longrightarrow> y \<le> r x"
  using r_mono [of y x] by simp

lemma r_between: "a \<le> x \<Longrightarrow> x \<le> b \<Longrightarrow> r a = a \<Longrightarrow> r b = b \<Longrightarrow> a \<le> r x \<and> r x \<le> b"
  by (simp add: r_ge_fix r_le_fix)

end

interpretation ctx: rounding rnd
proof
  show "rnd x \<le> rnd y" if "x \<le> y" for x y using that by (rule rnd_mono)
  show "rnd 0 = 0" by (simp add: rnd_def)
  show "rnd (- x) = - rnd x" for x by (simp add: rnd_def)
  show "rnd (rnd x) = rnd x" for x by (rule rnd_fix [OF representable_rnd])
  show "0 < rnd x" if "0 < x" for x using that rnd_pos_pos by (simp add: rnd_def)
qed

lemmas rnd_sign [simp] =
  ctx.r_pos_iff ctx.r_neg_iff ctx.r_nonneg_iff ctx.r_nonpos_iff ctx.r_eq_0_iff

lemmas rnd_simps [simp] = ctx.r_zero ctx.r_idem

text \<open>Closed terms: integers of at most 28 digits, and numbers with at most nine decimal
  places, are left alone.\<close>

lemma rnd_of_int: "\<bar>m\<bar> \<le> 10 ^ 28 \<Longrightarrow> rnd (of_int m) = of_int m"
  by (rule rnd_fix [OF representable_of_int])

lemma rnd_numeral [simp]: "(numeral n :: int) \<le> 10 ^ 28 \<Longrightarrow> rnd (numeral n) = numeral n"
  using rnd_of_int [of "numeral n"] by simp

lemma rnd_neg_numeral [simp]: "(numeral n :: int) \<le> 10 ^ 28 \<Longrightarrow> rnd (- numeral n) = - numeral n"
  using rnd_numeral [of n] by (simp add: ctx.r_minus)

lemma rnd_one [simp]: "rnd 1 = 1"
  using rnd_of_int [of 1] by simp

lemma rnd_neg_one [simp]: "rnd (- 1) = - 1"
  using rnd_one by (simp add: ctx.r_minus)

lemma rnd_decimal:
  assumes "\<bar>m\<bar> \<le> 10 ^ 28" "x * 10 ^ k = of_int m"
  shows "rnd x = x"
proof (rule rnd_fix, rule representableI [OF assms(1)])
  have "x = of_int m / 10 ^ k" using assms(2) by (simp add: field_simps)
  then show "x = of_int m * 10 powi (- int k)" by (simp add: power_int_minus field_simps)
qed

text \<open>Evaluation: a number with few decimal places is recognised as its own rounding.\<close>

definition exact_at :: "int \<Rightarrow> int \<Rightarrow> nat \<Rightarrow> bool" where
  "exact_at n d k \<longleftrightarrow> 10 ^ k mod d = 0 \<and> \<bar>n * (10 ^ k div d)\<bar> \<le> 10 ^ 28"

lemma rnd_exact_at:
  assumes "quotient_of x = (n, d)" "exact_at n d k" shows "rnd x = x"
proof (rule rnd_decimal)
  show "\<bar>n * (10 ^ k div d)\<bar> \<le> 10 ^ 28" using assms(2) by (simp add: exact_at_def)
  have d: "0 < d" by (rule quotient_of_denom_pos [OF assms(1)])
  have "d * (10 ^ k div d) = 10 ^ k" using assms(2) by (simp add: exact_at_def mod_0_imp_dvd)
  then have k: "(10 :: rat) ^ k = of_int d * of_int (10 ^ k div d)"
    by (metis of_int_mult of_int_numeral of_int_power)
  show "x * 10 ^ k = of_int (n * (10 ^ k div d))"
    using d quotient_of_div [OF assms(1)] by (simp add: k)
qed

lemma rnd_code [code]:
  "rnd x = (case quotient_of x of (n, d) \<Rightarrow>
     if list_ex (exact_at n d) [0, 4, 8, 12, 16, 20, 24, 26, 27, 28] then x
     else if x = 0 then 0 else if 0 < x then rnd_pos x else - rnd_pos (- x))"
proof (cases "quotient_of x")
  case (Pair n d)
  show ?thesis
    using rnd_exact_at [OF Pair] by (auto simp: Pair rnd_def list_ex_iff)
qed

lemma rnd_frac [simp]:
  assumes "(numeral b :: int) dvd 10 ^ 9" "(numeral a :: int) \<le> 10 ^ 19"
  shows "rnd (numeral a / numeral b) = numeral a / numeral b"
proof -
  obtain c :: int where c: "10 ^ 9 = numeral b * c" using assms(1) by (rule dvdE)
  then have cb: "0 < c" "c \<le> 10 ^ 9"
  proof -
    have "0 < numeral b * c" using c by (metis zero_less_numeral zero_less_power)
    then show "0 < c" by (simp add: zero_less_mult_iff)
    then have "1 * c \<le> numeral b * c" by (intro mult_right_mono) simp_all
    then show "c \<le> 10 ^ 9" using c by linarith
  qed
  have "numeral a / numeral b * (10::rat) ^ 9 = of_int (numeral a * c)"
  proof -
    have "(10::rat) ^ 9 = of_int (10 ^ 9)" by simp
    also have "\<dots> = numeral b * of_int c" by (simp only: c of_int_mult of_int_numeral)
    finally have e: "(10::rat) ^ 9 = numeral b * of_int c" .
    show ?thesis unfolding e by simp
  qed
  moreover have "\<bar>numeral a * c\<bar> \<le> 10 ^ 28"
  proof -
    have "numeral a * c \<le> 10 ^ 19 * 10 ^ 9" by (rule mult_mono) (use assms(2) cb in simp_all)
    then show ?thesis using cb(1) by (simp add: abs_mult)
  qed
  ultimately show ?thesis by (rule rnd_decimal [rotated])
qed

lemma rnd_unit_frac [simp]:
  "(numeral b :: int) dvd 10 ^ 9 \<Longrightarrow> rnd (1 / numeral b) = 1 / numeral b"
  using rnd_frac [of b num.One] by simp

lemma rnd_neg_frac [simp]:
  "(numeral b :: int) dvd 10 ^ 9 \<Longrightarrow> (numeral a :: int) \<le> 10 ^ 19 \<Longrightarrow>
    rnd (- (numeral a / numeral b)) = - (numeral a / numeral b)"
  by (simp add: ctx.r_minus)

section \<open>The operations\<close>

definition dadd :: "dec \<Rightarrow> dec \<Rightarrow> dec" where [dec_defs]: "dadd x y = rnd (x + y)"
definition dsub :: "dec \<Rightarrow> dec \<Rightarrow> dec" where [dec_defs]: "dsub x y = rnd (x - y)"
definition dmul :: "dec \<Rightarrow> dec \<Rightarrow> dec" where [dec_defs]: "dmul x y = rnd (x * y)"
definition dneg :: "dec \<Rightarrow> dec" where [dec_defs]: "dneg x = rnd (- x)"
definition dabs :: "dec \<Rightarrow> dec" where [dec_defs]: "dabs x = rnd \<bar>x\<bar>"

text \<open>\<open>x / y\<close> raises \<open>DivisionByZero\<close>, and \<open>0 / 0\<close> \<open>InvalidOperation\<close>.\<close>

definition ddiv :: "dec \<Rightarrow> dec \<Rightarrow> dec res" where [dec_defs]:
  "ddiv x y = (if y = 0 then Inl (if x = 0 then InvalidOperation else DivisionByZero)
     else Inr (rnd (x / y)))"

text \<open>Division by a divisor that is never zero where the source divides by it.\<close>

definition ddivn :: "dec \<Rightarrow> dec \<Rightarrow> dec" where [dec_defs]: "ddivn x y = rnd (x / y)"

definition dhalf :: "dec \<Rightarrow> dec" where [dec_defs]: "dhalf x = ddivn x 2"

text \<open>\<open>sum(xs, Decimal(0))\<close>.\<close>

definition dsum :: "dec list \<Rightarrow> dec" where [dec_defs]: "dsum xs = foldl dadd 0 xs"

text \<open>\<open>to_integral_value(rounding=ROUND_DOWN)\<close> and \<open>quantize(Decimal("0.01"), ROUND_DOWN)\<close>;
  the latter raises when the result needs more than 28 digits.\<close>

definition trunc0 :: "rat \<Rightarrow> int" where
  "trunc0 x = (if 0 \<le> x then floor x else - floor (- x))"

definition to_integral_down :: "dec \<Rightarrow> dec" where [dec_defs]:
  "to_integral_down x = of_int (trunc0 x)"

definition quantize_cents_down :: "dec \<Rightarrow> dec res" where [dec_defs]:
  "quantize_cents_down x = (let c = trunc0 (x * 100) in
     if \<bar>c\<bar> < 10 ^ 28 then Inr (of_int c / 100) else Inl InvalidOperation)"

lemma ddiv_ok: "y \<noteq> 0 \<Longrightarrow> ddiv x y = Inr (ddivn x y)"
  by (simp add: ddiv_def ddivn_def)

lemma ddiv_eq_Inr [simp]: "ddiv x y = Inr q \<longleftrightarrow> y \<noteq> 0 \<and> q = ddivn x y"
  by (auto simp: ddiv_def ddivn_def)

lemma dsub_sign [simp]:
  "0 < dsub x y \<longleftrightarrow> y < x" "dsub x y < 0 \<longleftrightarrow> x < y" "0 \<le> dsub x y \<longleftrightarrow> y \<le> x"
  "dsub x y \<le> 0 \<longleftrightarrow> x \<le> y" "dsub x y = 0 \<longleftrightarrow> x = y"
  by (simp_all add: dsub_def)

lemma dmul_pos: "0 < x \<Longrightarrow> 0 < y \<Longrightarrow> 0 < dmul x y"
  by (simp add: dmul_def)

lemma dmul_nonneg: "0 \<le> x \<Longrightarrow> 0 \<le> y \<Longrightarrow> 0 \<le> dmul x y"
  by (simp add: dmul_def)

lemma dadd_nonneg: "0 \<le> x \<Longrightarrow> 0 \<le> y \<Longrightarrow> 0 \<le> dadd x y"
  by (simp add: dadd_def)

lemma dadd_pos: "0 < x \<Longrightarrow> 0 \<le> y \<Longrightarrow> 0 < dadd x y"
  by (simp add: dadd_def)

lemma ddivn_nonneg: "0 \<le> x \<Longrightarrow> 0 < y \<Longrightarrow> 0 \<le> ddivn x y"
  by (simp add: ddivn_def)

lemma ddivn_pos: "0 < x \<Longrightarrow> 0 < y \<Longrightarrow> 0 < ddivn x y"
  by (simp add: ddivn_def)

lemma dabs_nonneg [simp]: "0 \<le> dabs x"
  by (simp add: dabs_def)

lemma dmul_mono: "0 \<le> a \<Longrightarrow> x \<le> y \<Longrightarrow> dmul a x \<le> dmul a y"
  unfolding dmul_def by (intro rnd_mono mult_left_mono)

lemma ddivn_mono: "x \<le> y \<Longrightarrow> 0 < a \<Longrightarrow> ddivn x a \<le> ddivn y a"
  unfolding ddivn_def by (intro rnd_mono divide_right_mono) simp_all

lemma dadd_mono: "x \<le> x' \<Longrightarrow> y \<le> y' \<Longrightarrow> dadd x y \<le> dadd x' y'"
  unfolding dadd_def by (intro rnd_mono add_mono)

lemma dsub_mono: "x \<le> x' \<Longrightarrow> y' \<le> y \<Longrightarrow> dsub x y \<le> dsub x' y'"
  unfolding dsub_def by (intro rnd_mono diff_mono)

lemma dsum_nonneg: "(\<And>x. x \<in> set xs \<Longrightarrow> 0 \<le> x) \<Longrightarrow> 0 \<le> dsum xs"
proof -
  assume nn: "\<And>x. x \<in> set xs \<Longrightarrow> 0 \<le> x"
  have "0 \<le> a \<Longrightarrow> 0 \<le> foldl dadd a xs" for a
    using nn by (induction xs arbitrary: a) (simp_all add: dadd_nonneg)
  then show ?thesis by (simp add: dsum_def)
qed

text \<open>The relative error of one operation, and what it means for a non-negative result.\<close>

definition half_ulp :: rat where "half_ulp = 5 / 10 ^ 28"

lemma half_ulp_bounds: "0 < half_ulp" "half_ulp < 1"
  by (simp_all add: half_ulp_def)

lemma rnd_scale:
  assumes "0 \<le> x"
  shows "rnd x \<le> (1 + half_ulp) * x" and "(1 - half_ulp) * x \<le> rnd x"
proof -
  have "\<bar>rnd x - x\<bar> \<le> x * half_ulp"
    using rnd_error [of x] assms by (simp add: half_ulp_def)
  then show "rnd x \<le> (1 + half_ulp) * x" and "(1 - half_ulp) * x \<le> rnd x"
    by (simp_all add: algebra_simps abs_le_iff)
qed

lemma trunc0_le: "0 \<le> x \<Longrightarrow> of_int (trunc0 x) \<le> x" and trunc0_nonneg: "0 \<le> x \<Longrightarrow> 0 \<le> trunc0 x"
  by (simp_all add: trunc0_def)

lemma to_integral_down_le: "0 \<le> x \<Longrightarrow> to_integral_down x \<le> x"
  and to_integral_down_nonneg: "0 \<le> x \<Longrightarrow> 0 \<le> to_integral_down x"
  by (simp_all add: to_integral_down_def trunc0_le trunc0_nonneg)

lemma quantize_cents_down_le: "0 \<le> x \<Longrightarrow> quantize_cents_down x = Inr q \<Longrightarrow> q \<le> x"
  using trunc0_le [of "x * 100"] by (auto simp: quantize_cents_down_def Let_def split: if_splits)

text \<open>Adding or subtracting a non-negative amount to a number that is a result itself.\<close>

lemma dadd_ge: "rnd x = x \<Longrightarrow> 0 \<le> y \<Longrightarrow> x \<le> dadd x y"
  unfolding dadd_def by (rule ctx.r_ge_fix) simp_all

lemma dsub_le: "rnd x = x \<Longrightarrow> 0 \<le> y \<Longrightarrow> dsub x y \<le> x"
  unfolding dsub_def by (rule ctx.r_le_fix) simp_all

lemma rnd_of_op [simp]:
  "rnd (dadd x y) = dadd x y" "rnd (dsub x y) = dsub x y" "rnd (dmul x y) = dmul x y"
  "rnd (ddivn x y) = ddivn x y" "rnd (dhalf x) = dhalf x"
  by (simp_all add: dec_defs)

text \<open>The midpoint of an interval stays inside it when the sum of the bounds needs at most
  28 digits (for longer sums it need not).\<close>

lemma midpoint_between:
  assumes "rnd a = a" "rnd b = b" "rnd (a + b) = a + b" "a \<le> b"
  shows "a \<le> dhalf (dadd a b)" and "dhalf (dadd a b) \<le> b"
  using ctx.r_between [of a "(a + b) / 2" b] assms
  by (simp_all add: dhalf_def ddivn_def dadd_def)

section \<open>A calculus of relative error\<close>

text \<open>\<open>near n x y\<close>: two non-negative numbers whose quotient, both ways, is at most \<open>drift ^ n\<close>.
  Each rounded operation costs one \<open>drift\<close>, and products, quotients and sums of near numbers
  are near.\<close>

definition drift :: rat where "drift = (1 + half_ulp) / (1 - half_ulp)"

definition near :: "nat \<Rightarrow> rat \<Rightarrow> rat \<Rightarrow> bool" where
  "near n x y \<longleftrightarrow> 0 \<le> x \<and> 0 \<le> y \<and> x \<le> drift ^ n * y \<and> y \<le> drift ^ n * x"

lemma drift_ge: "1 + half_ulp \<le> drift" "1 \<le> drift * (1 - half_ulp)" "1 < drift"
  using half_ulp_bounds by (simp_all add: drift_def field_simps)

lemma drift_pos: "0 < drift" "0 < drift ^ n" "1 \<le> drift ^ n"
  using drift_ge(3) by (simp_all add: one_le_power)

lemma near_refl: "0 \<le> x \<Longrightarrow> near n x x"
  using mult_right_mono [OF drift_pos(3) [of n], of x] by (simp add: near_def)

lemma near_sym: "near n x y \<Longrightarrow> near n y x"
  by (auto simp: near_def)

lemma near_nonneg: "near n x y \<Longrightarrow> 0 \<le> x" "near n x y \<Longrightarrow> 0 \<le> y"
  by (simp_all add: near_def)

lemma near_trans:
  assumes "near m x y" "near n y z"
  shows "near (m + n) x z"
proof -
  have "x \<le> drift ^ m * (drift ^ n * z)" "z \<le> drift ^ n * (drift ^ m * x)"
    using assms drift_pos(2) by (auto simp: near_def intro: order_trans mult_left_mono less_imp_le)
  with assms show ?thesis by (simp add: near_def power_add mult.assoc mult.left_commute)
qed

lemma near_weaken:
  assumes "near m x y" "m \<le> n"
  shows "near n x y"
  using near_trans [OF assms(1), of "n - m" y] near_refl near_nonneg(2) [OF assms(1)] assms(2) by simp

lemma near_rnd: "0 \<le> x \<Longrightarrow> near 1 (rnd x) x"
proof -
  assume x: "0 \<le> x"
  have "rnd x \<le> drift * x"
    using rnd_scale(1) [OF x] mult_right_mono [OF drift_ge(1) x] by linarith
  moreover have "drift * ((1 - half_ulp) * x) \<le> drift * rnd x"
    using rnd_scale(2) [OF x] drift_pos(1) by (intro mult_left_mono) simp_all
  then have "x \<le> drift * rnd x"
    using mult_right_mono [OF drift_ge(2) x] by (simp add: mult.assoc)
  ultimately show ?thesis using x by (simp add: near_def)
qed

lemma near_mult:
  assumes "near m a b" "near n c d"
  shows "near (m + n) (a * c) (b * d)"
proof -
  have "a * c \<le> (drift ^ m * b) * (drift ^ n * d)" "b * d \<le> (drift ^ m * a) * (drift ^ n * c)"
    using assms drift_pos(2) by (auto simp: near_def intro!: mult_mono)
  with assms show ?thesis by (simp add: near_def power_add ac_simps)
qed

lemma near_inverse:
  assumes "near n a b" "0 < a" "0 < b"
  shows "near n (1 / a) (1 / b)"
  using assms by (simp add: near_def field_simps)

lemma near_divide:
  assumes "near m a b" "near n c d" "0 < c" "0 < d"
  shows "near (m + n) (a / c) (b / d)"
  using near_mult [OF assms(1) near_inverse [OF assms(2-4)]] by simp

lemma near_add:
  assumes "near n a b" "near n c d"
  shows "near n (a + c) (b + d)"
  using assms by (auto simp: near_def distrib_left)

lemma near_dadd: "near n a b \<Longrightarrow> near n c d \<Longrightarrow> near (Suc n) (dadd a c) (b + d)"
  using near_trans [OF near_rnd near_add] by (simp add: dadd_def near_nonneg)

lemma near_dmul: "near m a b \<Longrightarrow> near n c d \<Longrightarrow> near (Suc (m + n)) (dmul a c) (b * d)"
  using near_trans [OF near_rnd near_mult] by (simp add: dmul_def near_nonneg)

lemma near_ddivn: "near m a b \<Longrightarrow> near n c d \<Longrightarrow> 0 < c \<Longrightarrow> 0 < d \<Longrightarrow> near (Suc (m + n)) (ddivn a c) (b / d)"
  using near_trans [OF near_rnd near_divide] by (simp add: ddivn_def near_nonneg)

lemma near_dsub: "b \<le> a \<Longrightarrow> near 1 (dsub a b) (a - b)"
  using near_rnd [of "a - b"] by (simp add: dsub_def)

end
