(* ===== verification/Candles.thy ===== *)
theory Candles
  imports Py_Decimal
begin

text \<open>
  The data model of \<open>src/src/smc_core\<close>: \<open>models.py\<close> (the candle and the records the detectors
  emit), \<open>config.py\<close> (\<open>SMCConfig\<close> with its validation), \<open>validation.py\<close>
  (\<open>validate_candle_series\<close>) and \<open>statistics.py\<close> (rolling mean, true range, Wilder's average
  true range). A frozen dataclass is a record; its \<open>__post_init__\<close> is the \<open>mk_\<dots>\<close> function
  that builds the record or raises. Indices that the code obtains by enumeration are \<open>nat\<close>,
  configuration integers are \<open>int\<close>.
\<close>

section \<open>models.py\<close>

datatype timeframe = TF_5m | TF_15m | TF_1h | TF_4h
datatype direction = Bullish | Bearish
datatype swing_kind = High | Low
datatype break_kind = Bos | Choch
datatype zone_status = Zone_Open | Partially_Filled | Filled | Invalidated
datatype price_location = Discount | Equilibrium | Premium

record candle =
  c_symbol :: string
  c_timeframe :: timeframe
  c_open_time :: instant
  c_close_time :: instant
  c_open :: dec
  c_high :: dec
  c_low :: dec
  c_close :: dec
  c_volume :: dec

definition mk_candle ::
  "string \<Rightarrow> timeframe \<Rightarrow> py_time \<Rightarrow> py_time \<Rightarrow> dec \<Rightarrow> dec \<Rightarrow> dec \<Rightarrow> dec \<Rightarrow> dec \<Rightarrow> candle res" where
  "mk_candle symb tf opens closes op hi lo cl vol =
     (case (opens, closes) of
        (Aware ot, Aware ct) \<Rightarrow>
          rbind (raise_if (ct \<le> ot) (ValueError ''Candle close_time must be after open_time'')) (\<lambda>_.
          rbind (raise_if (lo > hi) (ValueError ''Candle low_price cannot exceed high_price'')) (\<lambda>_.
          rbind (raise_if (\<not> lo \<le> min op cl) (ValueError ''Candle body cannot be below low_price'')) (\<lambda>_.
          rbind (raise_if (\<not> hi \<ge> max op cl) (ValueError ''Candle body cannot be above high_price'')) (\<lambda>_.
          rbind (raise_if (vol < 0) (ValueError ''Candle volume cannot be negative'')) (\<lambda>_.
          Inr \<lparr>c_symbol = symb, c_timeframe = tf, c_open_time = ot, c_close_time = ct,
            c_open = op, c_high = hi, c_low = lo, c_close = cl, c_volume = vol\<rparr>)))))
      | _ \<Rightarrow> Inl (ValueError ''Candle timestamps must be timezone-aware''))"

definition body_size :: "candle \<Rightarrow> dec" where
  "body_size c = dabs (dsub (c_close c) (c_open c))"

definition range_size :: "candle \<Rightarrow> dec" where
  "range_size c = dsub (c_high c) (c_low c)"

definition candle_direction :: "candle \<Rightarrow> direction option" where
  "candle_direction c =
     (if c_close c > c_open c then Some Bullish
      else if c_close c < c_open c then Some Bearish else None)"

record swing =
  sw_kind :: swing_kind
  sw_index :: nat
  sw_confirmation_index :: nat
  sw_time :: instant
  sw_price :: dec

record structure_break =
  sb_kind :: break_kind
  sb_direction :: direction
  sb_index :: nat
  sb_time :: instant
  sb_close_price :: dec
  sb_broken_swing :: swing
  sb_prior_trend :: "direction option"

record liquidity_sweep =
  ls_direction :: direction
  ls_index :: nat
  ls_time :: instant
  ls_level :: dec
  ls_extreme_price :: dec
  ls_swept_swing :: swing

record equal_level =
  el_kind :: swing_kind
  el_first_swing :: swing
  el_second_swing :: swing
  el_price :: dec
  el_tolerance :: dec

record displacement =
  dp_direction :: direction
  dp_index :: nat
  dp_time :: instant
  dp_body_size :: dec
  dp_range_size :: dec
  dp_atr :: dec
  dp_average_range :: dec

record fair_value_gap =
  fvg_direction :: direction
  fvg_start_index :: nat
  fvg_created_index :: nat
  fvg_created_at :: instant
  fvg_lower :: dec
  fvg_upper :: dec
  fvg_status :: zone_status
  fvg_first_touch :: "nat option"
  fvg_resolved :: "nat option"

definition fvg_size :: "fair_value_gap \<Rightarrow> dec" where
  "fvg_size g = dsub (fvg_upper g) (fvg_lower g)"

record order_block =
  ob_direction :: direction
  ob_candle_index :: nat
  ob_created_index :: nat
  ob_created_at :: instant
  ob_lower :: dec
  ob_upper :: dec
  ob_break_event :: structure_break
  ob_status :: zone_status
  ob_first_touch :: "nat option"
  ob_invalidated :: "nat option"

record dealing_range =
  dr_low_swing :: swing
  dr_high_swing :: swing
  dr_low :: dec
  dr_high :: dec
  dr_midpoint :: dec

record smc_analysis =
  an_symbol :: string
  an_timeframe :: timeframe
  an_candle_count :: nat
  an_atr :: "dec option list"
  an_swings :: "swing list"
  an_structure_breaks :: "structure_break list"
  an_liquidity_sweeps :: "liquidity_sweep list"
  an_equal_levels :: "equal_level list"
  an_displacements :: "displacement list"
  an_fair_value_gaps :: "fair_value_gap list"
  an_order_blocks :: "order_block list"
  an_dealing_range :: "dealing_range option"
  an_price_location :: "price_location option"

text \<open>What every candle that exists satisfies.\<close>

definition candle_wf :: "candle \<Rightarrow> bool" where
  "candle_wf c \<longleftrightarrow> c_open_time c < c_close_time c \<and> c_low c \<le> min (c_open c) (c_close c) \<and>
     max (c_open c) (c_close c) \<le> c_high c \<and> 0 \<le> c_volume c"

lemma mk_candle_wf: "mk_candle symb tf ot ct op hi lo cl vol = Inr c \<Longrightarrow> candle_wf c"
  by (auto simp: mk_candle_def candle_wf_def split: py_time.splits)

lemma mk_candle_ok_iff:
  "returns (mk_candle symb tf ot ct op hi lo cl vol) \<longleftrightarrow>
     (\<exists>o' c'. ot = Aware o' \<and> ct = Aware c' \<and> o' < c') \<and>
     lo \<le> op \<and> lo \<le> cl \<and> op \<le> hi \<and> cl \<le> hi \<and> 0 \<le> vol"
  by (cases ot; cases ct) (auto simp: mk_candle_def returns_iff)

lemma candle_wf_range [simp]: "candle_wf c \<Longrightarrow> 0 \<le> range_size c"
  by (auto simp: candle_wf_def range_size_def)

lemma body_size_nonneg [simp]: "0 \<le> body_size c"
  by (simp add: body_size_def)

lemma body_le_range: "candle_wf c \<Longrightarrow> body_size c \<le> range_size c"
proof -
  assume wf: "candle_wf c"
  then have "\<bar>c_close c - c_open c\<bar> \<le> c_high c - c_low c"
    by (auto simp: candle_wf_def)
  then have "rnd \<bar>c_close c - c_open c\<bar> \<le> rnd (c_high c - c_low c)" by (rule rnd_mono)
  moreover have "rnd \<bar>rnd x\<bar> = rnd \<bar>x\<bar>" for x
    by (cases "0 \<le> x") (simp_all add: abs_if ctx.r_minus)
  ultimately show ?thesis by (simp add: body_size_def range_size_def dabs_def dsub_def)
qed

section \<open>config.py\<close>

record smc_config =
  atr_period :: int
  range_average_period :: int
  swing_lookback_5m :: int
  swing_lookback_15m :: int
  swing_lookback_1h :: int
  swing_lookback_4h :: int
  equal_level_atr_tolerance :: dec
  equal_level_max_separation :: int
  fvg_min_atr_ratio :: dec
  displacement_body_atr_ratio :: dec
  displacement_range_average_ratio :: dec
  displacement_close_fraction :: dec
  order_block_search_lookback :: int

definition default_smc_config :: smc_config where
  "default_smc_config = \<lparr>atr_period = 14, range_average_period = 20,
     swing_lookback_5m = 3, swing_lookback_15m = 3, swing_lookback_1h = 1, swing_lookback_4h = 1,
     equal_level_atr_tolerance = 10/100, equal_level_max_separation = 100,
     fvg_min_atr_ratio = 10/100, displacement_body_atr_ratio = 1,
     displacement_range_average_ratio = 15/10, displacement_close_fraction = 70/100,
     order_block_search_lookback = 20\<rparr>"

definition mk_smc_config :: "smc_config \<Rightarrow> smc_config res" where
  "mk_smc_config k =
     rbind (raise_if (atr_period k < 1) (ValueError ''atr_period must be positive'')) (\<lambda>_.
     rbind (raise_if (range_average_period k < 1) (ValueError ''range_average_period must be positive'')) (\<lambda>_.
     rbind (raise_if (\<exists>v \<in> set [swing_lookback_5m k, swing_lookback_15m k, swing_lookback_1h k, swing_lookback_4h k]. v < 1)
       (ValueError ''swing lookbacks must be positive'')) (\<lambda>_.
     rbind (raise_if (equal_level_atr_tolerance k < 0) (ValueError ''equal_level_atr_tolerance cannot be negative'')) (\<lambda>_.
     rbind (raise_if (equal_level_max_separation k < 1) (ValueError ''equal_level_max_separation must be positive'')) (\<lambda>_.
     rbind (raise_if (fvg_min_atr_ratio k < 0) (ValueError ''fvg_min_atr_ratio cannot be negative'')) (\<lambda>_.
     rbind (raise_if (displacement_body_atr_ratio k < 0) (ValueError ''displacement_body_atr_ratio cannot be negative'')) (\<lambda>_.
     rbind (raise_if (displacement_range_average_ratio k < 0) (ValueError ''displacement_range_average_ratio cannot be negative'')) (\<lambda>_.
     rbind (raise_if (\<not> (0 \<le> displacement_close_fraction k \<and> displacement_close_fraction k \<le> 1))
       (ValueError ''displacement_close_fraction must be between zero and one'')) (\<lambda>_.
     rbind (raise_if (order_block_search_lookback k < 1) (ValueError ''order_block_search_lookback must be positive'')) (\<lambda>_.
     Inr k))))))))))"

fun swing_lookback :: "smc_config \<Rightarrow> timeframe \<Rightarrow> int" where
  "swing_lookback k TF_5m = swing_lookback_5m k"
| "swing_lookback k TF_15m = swing_lookback_15m k"
| "swing_lookback k TF_1h = swing_lookback_1h k"
| "swing_lookback k TF_4h = swing_lookback_4h k"

definition smc_config_wf :: "smc_config \<Rightarrow> bool" where
  "smc_config_wf k \<longleftrightarrow> mk_smc_config k = Inr k"

lemma smc_config_wfD:
  assumes "smc_config_wf k"
  shows "1 \<le> atr_period k" "1 \<le> range_average_period k" "1 \<le> swing_lookback k tf"
    "0 \<le> equal_level_atr_tolerance k" "1 \<le> equal_level_max_separation k" "0 \<le> fvg_min_atr_ratio k"
    "0 \<le> displacement_body_atr_ratio k" "0 \<le> displacement_range_average_ratio k"
    "1 \<le> order_block_search_lookback k"
  using assms by (cases tf; auto simp: smc_config_wf_def mk_smc_config_def)+

lemma default_smc_config_wf: "smc_config_wf default_smc_config"
  by (simp add: smc_config_wf_def mk_smc_config_def default_smc_config_def)

section \<open>validation.py\<close>

definition validate_candle_series :: "candle list \<Rightarrow> unit res" where
  "validate_candle_series cs =
     (case cs of
        [] \<Rightarrow> Inl (ValueError ''At least one candle is required'')
      | first # _ \<Rightarrow> foldM (\<lambda>_ (previous, c).
          rbind (raise_if (c_symbol c \<noteq> c_symbol first) (ValueError ''All candles must have the same symbol'')) (\<lambda>_.
          rbind (raise_if (c_timeframe c \<noteq> c_timeframe first) (ValueError ''All candles must have the same timeframe'')) (\<lambda>_.
          raise_if (c_open_time c \<le> c_open_time previous)
            (ValueError ''Candles must be strictly ordered by open_time''))))
          () (pairwise_list cs))"

definition series_wf :: "candle list \<Rightarrow> bool" where
  "series_wf cs \<longleftrightarrow> cs \<noteq> [] \<and> sorted_wrt (<) (map c_open_time cs) \<and>
     (\<forall>c \<in> set cs. c_symbol c = c_symbol (hd cs) \<and> c_timeframe c = c_timeframe (hd cs))"

lemma foldM_unit: "foldM (\<lambda>_ x. f x) () xs = Inr () \<longleftrightarrow> (\<forall>x \<in> set xs. f x = Inr ())"
  by (induction xs) auto

lemma pairs_sorted_wrt:
  assumes "\<And>x y z. P x y \<Longrightarrow> P y z \<Longrightarrow> P x z"
  shows "(\<forall>(x, y) \<in> set (pairwise_list xs). P x y) \<longleftrightarrow> sorted_wrt P xs"
proof (induction xs)
  case Nil
  then show ?case by (simp add: pairwise_list_def)
next
  case (Cons x xs)
  show ?case
  proof (cases xs)
    case Nil
    then show ?thesis by (simp add: pairwise_list_def)
  next
    case (Cons y ys)
    then have "pairwise_list (x # xs) = (x, y) # pairwise_list xs"
      by (simp add: pairwise_list_def)
    then show ?thesis using Cons.IH Cons assms by auto
  qed
qed

lemma pairwise_snd: "snd ` set (pairwise_list xs) = set (tl xs)"
proof -
  have "map snd (pairwise_list xs) = tl xs" by (simp add: pairwise_list_def map_snd_zip_take)
  then show ?thesis by (metis list.set_map)
qed

text \<open>The validation accepts exactly the series of one instrument and timeframe in strictly
  increasing time order: comparing neighbours is enough.\<close>

lemma validate_candle_series_iff: "validate_candle_series cs = Inr () \<longleftrightarrow> series_wf cs"
proof (cases cs)
  case Nil
  then show ?thesis by (simp add: validate_candle_series_def series_wf_def)
next
  case (Cons c0 rest)
  let ?P = "pairwise_list cs"
  have "validate_candle_series cs = Inr () \<longleftrightarrow>
      (\<forall>(p, c) \<in> set ?P. c_symbol c = c_symbol c0 \<and> c_timeframe c = c_timeframe c0 \<and>
         c_open_time p < c_open_time c)"
    unfolding validate_candle_series_def using Cons
    by (simp add: foldM_unit case_prod_unfold not_le)
  also have "\<dots> \<longleftrightarrow> (\<forall>c \<in> snd ` set ?P. c_symbol c = c_symbol c0 \<and> c_timeframe c = c_timeframe c0) \<and>
      (\<forall>(p, c) \<in> set ?P. c_open_time p < c_open_time c)"
    by auto
  also have "(\<forall>(p, c) \<in> set ?P. c_open_time p < c_open_time c) \<longleftrightarrow>
      sorted_wrt (\<lambda>a b. c_open_time a < c_open_time b) cs"
    by (rule pairs_sorted_wrt) simp
  finally show ?thesis
    using Cons by (simp add: pairwise_snd series_wf_def sorted_wrt_map) blast
qed

lemma series_wf_take:
  assumes "series_wf cs" "0 < n" shows "series_wf (take n cs)"
proof -
  have "hd (take n cs) = hd cs" "take n cs \<noteq> []"
    using assms by (auto simp: series_wf_def)
  moreover have "sorted_wrt (<) (map c_open_time (take n cs))"
    using assms(1) by (simp add: series_wf_def sorted_wrt_take flip: take_map)
  moreover have "\<forall>c \<in> set (take n cs). c_symbol c = c_symbol (hd cs) \<and> c_timeframe c = c_timeframe (hd cs)"
    using assms(1) in_set_takeD [of _ n cs] unfolding series_wf_def by blast
  ultimately show ?thesis by (simp add: series_wf_def)
qed

section \<open>statistics.py\<close>

text \<open>The loop of \<open>rolling_mean\<close>: \<open>i\<close> is the index of the next value, \<open>acc\<close> the running
  total, \<open>vs\<close> the whole sequence.\<close>

fun rolling_loop :: "dec list \<Rightarrow> nat \<Rightarrow> dec \<Rightarrow> nat \<Rightarrow> dec list \<Rightarrow> dec option list" where
  "rolling_loop vs p acc i [] = []"
| "rolling_loop vs p acc i (v # rest) =
     (let added = dadd acc v;
          acc' = (if i \<ge> p then dsub added (vs ! (i - p)) else added)
      in (if i + 1 \<ge> p then Some (ddivn acc' (of_nat p)) else None)
         # rolling_loop vs p acc' (Suc i) rest)"

definition rolling_mean :: "dec list \<Rightarrow> int \<Rightarrow> dec option list res" where
  "rolling_mean vs period =
     rbind (raise_if (period < 1) (ValueError ''period must be positive'')) (\<lambda>_.
     Inr (rolling_loop vs (nat period) 0 0 vs))"

definition true_ranges :: "candle list \<Rightarrow> dec list" where
  "true_ranges cs =
     (case cs of
        [] \<Rightarrow> []
      | c # _ \<Rightarrow> range_size c # map (\<lambda>(previous, c).
          max (max (range_size c) (dabs (dsub (c_high c) (c_close previous))))
            (dabs (dsub (c_low c) (c_close previous)))) (pairwise_list cs))"

text \<open>The smoothing loop of \<open>average_true_range\<close> after the first average.\<close>

fun wilder_loop :: "nat \<Rightarrow> dec \<Rightarrow> dec list \<Rightarrow> dec option list" where
  "wilder_loop p current [] = []"
| "wilder_loop p current (tr # rest) =
     (let current' = ddivn (dadd (dmul current (of_nat (p - 1))) tr) (of_nat p)
      in Some current' # wilder_loop p current' rest)"

definition average_true_range :: "candle list \<Rightarrow> int \<Rightarrow> dec option list res" where
  "average_true_range cs period =
     rbind (raise_if (period < 1) (ValueError ''period must be positive'')) (\<lambda>_.
     let p = nat period; ranges = true_ranges cs in
     Inr (if cs = [] then []
       else if length ranges < p then replicate (length ranges) None
       else let current = ddivn (dsum (take p ranges)) (of_nat p)
            in replicate (p - 1) None @ Some current # wilder_loop p current (drop p ranges)))"

lemma length_rolling_loop [simp]: "length (rolling_loop vs p t i xs) = length xs"
  by (induction xs arbitrary: t i) (simp_all add: Let_def)

lemma length_wilder_loop [simp]: "length (wilder_loop p c xs) = length xs"
  by (induction xs arbitrary: c) (simp_all add: Let_def)

lemma length_true_ranges [simp]: "length (true_ranges cs) = length cs"
  by (cases cs) (simp_all add: true_ranges_def pairwise_list_def)

lemma rolling_mean_length: "rolling_mean vs p = Inr ms \<Longrightarrow> length ms = length vs"
  by (auto simp: rolling_mean_def)

lemma average_true_range_length: "average_true_range cs p = Inr ms \<Longrightarrow> length ms = length cs"
  by (auto simp: average_true_range_def Let_def split: if_splits)

lemma true_ranges_nonneg:
  assumes "\<forall>c \<in> set cs. candle_wf c" "t \<in> set (true_ranges cs)"
  shows "0 \<le> t"
  using assms by (cases cs) (auto simp: true_ranges_def le_max_iff_disj)

text \<open>Every defined average lies between zero and the largest true range, when the multiples
  of that bound the smoothing forms are exact.\<close>

lemma wilder_step_bounds:
  assumes "0 \<le> c" "c \<le> M" "0 \<le> t" "t \<le> M" "0 < p"
    and exact: "rnd (M * of_nat (p - 1)) = M * of_nat (p - 1)"
      "rnd (M * of_nat p) = M * of_nat p" "rnd M = M"
  shows "0 \<le> ddivn (dadd (dmul c (of_nat (p - 1))) t) (of_nat p)"
    and "ddivn (dadd (dmul c (of_nat (p - 1))) t) (of_nat p) \<le> M"
proof -
  have p: "(of_nat p :: rat) = of_nat (p - 1) + 1" using \<open>0 < p\<close> by simp
  show "0 \<le> ddivn (dadd (dmul c (of_nat (p - 1))) t) (of_nat p)"
    using assms by (intro ddivn_nonneg dadd_nonneg dmul_nonneg) simp_all
  have "dmul c (of_nat (p - 1)) \<le> M * of_nat (p - 1)"
    unfolding dmul_def using exact(1) assms(2) by (intro ctx.r_le_fix mult_right_mono) simp_all
  with assms(4) have "dmul c (of_nat (p - 1)) + t \<le> M * of_nat p"
    by (simp add: p distrib_left)
  then have "dadd (dmul c (of_nat (p - 1))) t \<le> M * of_nat p"
    unfolding dadd_def using exact(2) by (rule ctx.r_le_fix)
  then have "dadd (dmul c (of_nat (p - 1))) t / of_nat p \<le> M"
    using \<open>0 < p\<close> by (simp add: divide_le_eq)
  then show "ddivn (dadd (dmul c (of_nat (p - 1))) t) (of_nat p) \<le> M"
    unfolding ddivn_def using exact(3) by (rule ctx.r_le_fix)
qed

lemma wilder_loop_bounds:
  assumes "0 \<le> c" "c \<le> M" "\<forall>t \<in> set ts. 0 \<le> t \<and> t \<le> M" "0 < p"
    and exact: "rnd (M * of_nat (p - 1)) = M * of_nat (p - 1)"
      "rnd (M * of_nat p) = M * of_nat p" "rnd M = M"
    and "Some a \<in> set (wilder_loop p c ts)"
  shows "0 \<le> a \<and> a \<le> M"
  using assms
proof (induction ts arbitrary: c)
  case (Cons t ts)
  note step = wilder_step_bounds [OF Cons.prems(1,2) _ _ Cons.prems(4) exact, of t]
  from Cons.prems(3) step have new: "0 \<le> ddivn (dadd (dmul c (of_nat (p - 1))) t) (of_nat p)"
    "ddivn (dadd (dmul c (of_nat (p - 1))) t) (of_nat p) \<le> M" by auto
  then show ?case using Cons.IH [OF new] Cons.prems by (auto simp: Let_def)
qed simp

lemma dsum_le:
  assumes "\<forall>x \<in> set xs. 0 \<le> x \<and> x \<le> M"
    and "\<And>k. k \<le> length xs \<Longrightarrow> rnd (M * of_nat k) = M * of_nat k"
  shows "dsum xs \<le> M * of_nat (length xs)"
  using assms
proof (induction xs rule: rev_induct)
  case Nil
  then show ?case by (simp add: dsum_def)
next
  case (snoc x xs)
  have IH: "dsum xs \<le> M * of_nat (length xs)" using snoc by simp
  have "dsum (xs @ [x]) = dadd (dsum xs) x" by (simp add: dsum_def)
  also have "dsum xs + x \<le> M * of_nat (Suc (length xs))"
    using IH snoc.prems(1) by (simp add: distrib_left add.commute add_mono)
  then have "dadd (dsum xs) x \<le> M * of_nat (Suc (length xs))"
    unfolding dadd_def by (rule ctx.r_le_fix) (use snoc.prems(2) [of "Suc (length xs)"] in simp)
  finally show ?case by simp
qed

lemma average_true_range_bounds:
  assumes "\<forall>t \<in> set (true_ranges cs). 0 \<le> t \<and> t \<le> M"
    and exact: "\<And>k. int k \<le> period \<Longrightarrow> rnd (M * of_nat k) = M * of_nat k"
    and "average_true_range cs period = Inr as" "Some a \<in> set as"
  shows "0 \<le> a \<and> a \<le> M"
proof -
  define p where "p = nat period"
  define ts where "ts = true_ranges cs"
  define c where "c = ddivn (dsum (take p ts)) (of_nat p)"
  have period: "1 \<le> period" using assms(3) by (auto simp: average_true_range_def)
  then have p: "0 < p" "int p = period" by (simp_all add: p_def)
  have len: "p \<le> length ts" and as: "as = replicate (p - 1) None @ Some c # wilder_loop p c (drop p ts)"
    using assms(3,4) by (auto simp: average_true_range_def Let_def c_def p_def ts_def split: if_splits)
  have b: "\<forall>t \<in> set ts. 0 \<le> t \<and> t \<le> M" using assms(1) by (simp add: ts_def)
  have ex: "rnd (M * of_nat k) = M * of_nat k" if "k \<le> p" for k
    using exact [of k] that p by simp
  have s0: "0 \<le> dsum (take p ts)" using b by (intro dsum_nonneg) (auto dest: in_set_takeD)
  have "dsum (take p ts) \<le> M * of_nat (length (take p ts))"
    using b ex by (intro dsum_le) (auto dest: in_set_takeD)
  then have "dsum (take p ts) / of_nat p \<le> M" using len p by (simp add: divide_le_eq)
  moreover have M: "rnd M = M" using ex [of 1] p by simp
  ultimately have c: "0 \<le> c" "c \<le> M"
    using s0 p unfolding c_def by (auto simp: ddivn_def intro: ctx.r_le_fix)
  have "Some a \<in> set (wilder_loop p c (drop p ts)) \<Longrightarrow> 0 \<le> a \<and> a \<le> M"
    by (rule wilder_loop_bounds [OF c _ p(1) ex ex M]) (use b in \<open>auto dest: in_set_dropD\<close>)
  then show ?thesis using assms(4) c by (auto simp: as)
qed

text \<open>The averages of a prefix are the prefix of the averages: no value looks ahead.\<close>

lemma pairwise_list_take: "pairwise_list (take (Suc n) xs) = take n (pairwise_list xs)"
  by (rule nth_equalityI) (auto simp: pairwise_list_def nth_tl)

lemma true_ranges_take: "true_ranges (take n cs) = take n (true_ranges cs)"
proof (cases n)
  case (Suc m)
  then show ?thesis
    using pairwise_list_take [of m cs] by (cases cs) (simp_all add: true_ranges_def take_map)
qed (simp add: true_ranges_def)

lemma wilder_loop_take: "wilder_loop p c (take n ts) = take n (wilder_loop p c ts)"
  by (induction ts arbitrary: c n) (auto simp: Let_def take_Cons split: nat.splits)

lemma average_true_range_take:
  assumes "average_true_range cs period = Inr as"
  shows "average_true_range (take n cs) period = Inr (take n as)"
proof -
  have 1: "1 \<le> period" using assms by (auto simp: average_true_range_def)
  define p where "p = nat period"
  define rs where "rs = true_ranges cs"
  have p: "0 < p" using 1 by (simp add: p_def)
  have len: "length rs = length cs" by (simp add: rs_def)
  have as: "as = (if cs = [] then [] else if length rs < p then replicate (length rs) None
     else replicate (p - 1) None @ Some (ddivn (dsum (take p rs)) (of_nat p))
       # wilder_loop p (ddivn (dsum (take p rs)) (of_nat p)) (drop p rs))"
    using assms 1 by (auto simp add: average_true_range_def Let_def simp flip: p_def rs_def)
  have "average_true_range (take n cs) period =
     Inr (if take n cs = [] then [] else if length (take n rs) < p then replicate (length (take n rs)) None
     else replicate (p - 1) None @ Some (ddivn (dsum (take p (take n rs))) (of_nat p))
       # wilder_loop p (ddivn (dsum (take p (take n rs))) (of_nat p)) (drop p (take n rs)))"
    using 1 by (simp add: average_true_range_def Let_def true_ranges_take flip: p_def rs_def)
  also have "\<dots> = Inr (take n as)"
  proof (cases "n < p \<or> length rs < p")
    case True
    then have "take n as = (if take n cs = [] then [] else replicate (length (take n rs)) None)"
      using len p by (auto simp: as min_def)
    with True show ?thesis by auto
  next
    case False
    then have "take p (take n rs) = take p rs" "drop p (take n rs) = take (n - p) (drop p rs)"
      "n - (p - 1) = Suc (n - p)" "cs \<noteq> []" "0 < n" "\<not> length (take n rs) < p"
      using p len by (auto simp: drop_take min_def)
    with False p show ?thesis
      by (simp add: as wilder_loop_take)
  qed
  finally show ?thesis .
qed

section \<open>Samples and properties\<close>

text \<open>A 15-minute candle of a sample series, by position and prices.\<close>

definition sample_candle :: "nat \<Rightarrow> dec \<Rightarrow> dec \<Rightarrow> dec \<Rightarrow> dec \<Rightarrow> candle" where
  "sample_candle i op hi lo cl = \<lparr>c_symbol = ''BTCUSDT'', c_timeframe = TF_15m,
     c_open_time = minutes (15 * int i), c_close_time = minutes (15 * int i + 15),
     c_open = op, c_high = hi, c_low = lo, c_close = cl, c_volume = 1\<rparr>"

definition sample_series :: "candle list" where
  "sample_series = [sample_candle 0 10 11 9 10, sample_candle 1 10 12 10 11, sample_candle 2 11 11 8 9,
     sample_candle 3 9 10 8 9, sample_candle 4 9 16 9 15, sample_candle 5 15 17 14 16,
     sample_candle 6 16 16 13 14, sample_candle 7 14 15 13 14]"

lemmas sample_series_defs = sample_series_def sample_candle_def minutes_def

lemma sample_series_wf: "series_wf sample_series"
proof -
  have "returns (validate_candle_series sample_series)" unfolding sample_series_def by code_simp
  then show ?thesis by (auto simp: returns_iff validate_candle_series_iff)
qed

text \<open>\<open>validate_candle_series\<close> accepts exactly the non-empty series of one symbol and one timeframe
  whose open times strictly increase; every other series raises.\<close>

theorem series_accepted_iff:
  "returns (validate_candle_series cs) \<longleftrightarrow> cs \<noteq> [] \<and> sorted_wrt (<) (map c_open_time cs) \<and>
     list_all (\<lambda>c. c_symbol c = c_symbol (hd cs) \<and> c_timeframe c = c_timeframe (hd cs)) cs"
  using validate_candle_series_iff [of cs]
  by (auto simp: returns_iff series_wf_def list_all_iff)

text \<open>Wilder's average true range stays between zero and every bound of the true ranges, provided
  the multiples of that bound up to the period are representable in 28 digits.\<close>

theorem atr_within_true_ranges:
  assumes "list_all (\<lambda>t. 0 \<le> t \<and> t \<le> M) (true_ranges cs)"
    and "\<And>k. int k \<le> period \<Longrightarrow> rnd (M * of_nat k) = M * of_nat k"
    and "average_true_range cs period = Inr as" "Some a \<in> set as"
  shows "0 \<le> a \<and> a \<le> M"
  using average_true_range_bounds [of cs M period as a] assms by (simp add: list_all_iff)


lemma atr_within_true_ranges_witness:
  "\<exists>as. average_true_range sample_series 2 = Inr as \<and> Some (37/8) \<in> set as \<and> 0 \<le> (37/8 :: dec) \<and> (37/8 :: dec) \<le> 7"
proof -
  have tr: "true_ranges sample_series = [2, 2, 3, 2, 7, 3, 3, 2]"
    unfolding sample_series_def by code_simp
  have "rmap (take 5) (average_true_range sample_series 2) = Inr [None, Some 2, Some (5/2), Some (9/4), Some (37/8)]"
    unfolding average_true_range_def Let_def tr unfolding sample_series_def by code_simp
  then obtain as where as: "average_true_range sample_series 2 = Inr as"
      "take 5 as = [None, Some 2, Some (5/2), Some (9/4), Some (37/8)]"
    by (cases "average_true_range sample_series 2") auto
  then have "Some (37/8) \<in> set as" by (metis in_set_takeD list.set_intros)
  moreover have "rnd (7 * of_nat k) = 7 * of_nat k" if "int k \<le> 2" for k
  proof -
    have "rnd (of_int (7 * int k)) = of_int (7 * int k)" using that by (intro rnd_of_int) simp
    then show ?thesis by simp
  qed
  ultimately show ?thesis
    using atr_within_true_ranges [of 7 sample_series 2 as "37/8"] as(1) tr by auto
qed

end
