(* ===== verification/Scan.thy ===== *)
theory Scan
  imports Candles "HOL-Library.Sublist"
begin

text \<open>
  The shape the detectors of \<open>src/src/smc_core\<close> share. \<open>scan\<close> is the loop
  \<open>for index, candle in enumerate(candles)\<close> over a mutable state whose body appends events.
  The locale \<open>causal_detector\<close> is the contract every detector is to meet: the events of a
  prefix of the series are exactly the events of the whole series dated inside the prefix,
  in the same order. Live evaluation on the candles closed so far then agrees with a
  historical evaluation, and an event is never withdrawn or changed afterwards.
\<close>

fun scan :: "(nat \<Rightarrow> 's \<Rightarrow> 'c \<Rightarrow> 's \<times> 'e list) \<Rightarrow> nat \<Rightarrow> 's \<Rightarrow> 'c list \<Rightarrow> 'e list" where
  "scan f i s [] = []"
| "scan f i s (c # cs) = (case f i s c of (s', es) \<Rightarrow> es @ scan f (Suc i) s' cs)"

text \<open>The state of the loop before it reaches index \<open>i + n\<close>.\<close>

fun scan_state :: "(nat \<Rightarrow> 's \<Rightarrow> 'c \<Rightarrow> 's \<times> 'e list) \<Rightarrow> nat \<Rightarrow> 's \<Rightarrow> 'c list \<Rightarrow> 's" where
  "scan_state f i s [] = s"
| "scan_state f i s (c # cs) = scan_state f (Suc i) (fst (f i s c)) cs"

lemma scan_append:
  "scan f i s (xs @ ys) = scan f i s xs @ scan f (i + length xs) (scan_state f i s xs) ys"
  by (induction xs arbitrary: i s) (auto split: prod.splits)

lemma scan_cong:
  assumes "\<And>j s c. i \<le> j \<Longrightarrow> j < i + length cs \<Longrightarrow> f j s c = g j s c"
  shows "scan f i s cs = scan g i s cs"
  using assms
proof (induction cs arbitrary: i s)
  case (Cons c cs)
  have "scan f (Suc i) s' cs = scan g (Suc i) s' cs" for s'
    using Cons.prems by (intro Cons.IH) simp
  moreover have "f i s c = g i s c" using Cons.prems by simp
  ultimately show ?case by (simp split: prod.splits)
qed simp

lemma scan_dates:
  assumes "\<And>j s c e. e \<in> set (snd (f j s c)) \<Longrightarrow> date e = j" "e \<in> set (scan f i s cs)"
  shows "i \<le> date e \<and> date e < i + length cs"
  using assms(2)
proof (induction cs arbitrary: i s)
  case (Cons c cs)
  obtain s' es where fc: "f i s c = (s', es)" by fastforce
  from Cons.prems fc consider "e \<in> set es" | "e \<in> set (scan f (Suc i) s' cs)" by auto
  then show ?case
  proof cases
    case 1
    then show ?thesis using assms(1) [of e i s c] fc by simp
  next
    case 2
    then show ?thesis using Cons.IH [of "Suc i" s'] by simp
  qed
qed simp

lemma scan_take:
  assumes "\<And>j s c e. e \<in> set (snd (f j s c)) \<Longrightarrow> date e = j"
  shows "scan f i s (take n cs) = filter (\<lambda>e. date e < i + n) (scan f i s cs)"
proof -
  have split: "scan f i s cs = scan f i s (take n cs) @
      scan f (i + length (take n cs)) (scan_state f i s (take n cs)) (drop n cs)"
    by (subst scan_append [symmetric]) simp
  have 1: "filter (\<lambda>e. date e < i + n) (scan f i s (take n cs)) = scan f i s (take n cs)"
    using scan_dates [where f = f and date = date and i = i and s = s and cs = "take n cs", OF assms] by (intro filter_True) fastforce
  have 2: "filter (\<lambda>e. date e < i + n)
      (scan f (i + length (take n cs)) (scan_state f i s (take n cs)) (drop n cs)) = []"
  proof (cases "n \<le> length cs")
    case True
    then have len: "length (take n cs) = n" by simp
    show ?thesis unfolding len
      using scan_dates [where f = f and date = date and i = "i + n"
          and s = "scan_state f i s (take n cs)" and cs = "drop n cs", OF assms]
      by (intro filter_False) fastforce
  next
    case False
    then have "drop n cs = []" by simp
    then show ?thesis by (simp only: scan.simps filter.simps)
  qed
  show ?thesis by (subst split) (simp only: filter_append 1 2 append_Nil2)
qed

lemma scan_sorted:
  assumes "\<And>j s c e. e \<in> set (snd (f j s c)) \<Longrightarrow> date e = j"
  shows "sorted (map date (scan f i s cs))"
proof (induction cs arbitrary: i s)
  case (Cons c cs)
  obtain s' es where fc: "f i s c = (s', es)" by fastforce
  have es: "\<forall>e \<in> set es. date e = i" using assms fc by (metis snd_conv)
  then have "map date es = replicate (length es) i" by (auto intro: map_idI simp: map_replicate_const list_eq_iff_nth_eq)
  moreover have "\<forall>e \<in> set (scan f (Suc i) s' cs). i \<le> date e"
    using scan_dates [where f = f and date = date and i = "Suc i" and s = s' and cs = cs, OF assms] by fastforce
  ultimately show ?case using Cons.IH [of "Suc i" s'] fc es
    by (auto simp: sorted_append)
qed simp

section \<open>The contract of a detector\<close>

locale causal_detector =
  fixes detect :: "candle list \<Rightarrow> 'e list"
    and date :: "'e \<Rightarrow> nat"
  assumes causal: "detect (take n cs) = filter (\<lambda>e. date e < n) (detect cs)"
    and dates_sorted: "sorted (map date (detect cs))"
begin

lemma no_events: "detect [] = []"
  using causal [of 0] by simp

lemma dated_inside: "e \<in> set (detect cs) \<Longrightarrow> date e < length cs"
proof -
  assume "e \<in> set (detect cs)"
  moreover have "detect cs = filter (\<lambda>e. date e < length cs) (detect cs)"
    using causal [of "length cs" cs] by simp
  ultimately have "e \<in> set (filter (\<lambda>e. date e < length cs) (detect cs))" by (rule subst [rotated])
  then show ?thesis by simp
qed

lemma never_withdrawn: "e \<in> set (detect (take n cs)) \<Longrightarrow> e \<in> set (detect cs)"
  by (simp add: causal)

lemma live_prefix_of_history: "prefix (detect (take n cs)) (detect cs)"
proof -
  have "filter (\<lambda>e. date e < n) xs = takeWhile (\<lambda>e. date e < n) xs" if "sorted (map date xs)" for xs
    using that
  proof (induction xs)
    case (Cons x xs)
    then show ?case
    proof (cases "date x < n")
      case False
      with Cons.prems have "\<forall>y \<in> set (x # xs). \<not> date y < n" by auto
      with False show ?thesis by (simp add: filter_empty_conv)
    qed simp
  qed simp
  then show ?thesis by (simp add: causal dates_sorted takeWhile_is_prefix)
qed

lemma appending_keeps_events: "detect cs = filter (\<lambda>e. date e < length cs) (detect (cs @ later))"
  using causal [of "length cs" "cs @ later"] by simp

lemma closed_candle_events:
  "detect (take (Suc n) cs) = detect (take n cs) @ filter (\<lambda>e. date e = n) (detect cs)"
proof -
  have "filter (\<lambda>e. date e < Suc n) xs = filter (\<lambda>e. date e < n) xs @ filter (\<lambda>e. date e = n) xs"
    if "sorted (map date xs)" for xs
    using that
  proof (induction xs)
    case (Cons x xs)
    then show ?case
      by (auto simp: less_Suc_eq not_less intro!: filter_False [symmetric])
  qed simp
  then show ?thesis by (simp add: causal dates_sorted)
qed

end

end
