(* ===== verification/Swings.thy ===== *)
theory Swings
  imports Scan "HOL-Library.Product_Lexorder"
begin

text \<open>
  \<open>src/src/smc_core/swings.py\<close>: \<open>detect_swings\<close>, and \<open>ranges.py\<close>: the active dealing range
  and the location of a price in it. A swing is confirmed \<open>lookback\<close> candles after its own
  index. The lemmas show which swings are found, that the final sort leaves the emitted order
  alone, and that the detector is causal in the confirmation index.
\<close>

text \<open>The order of the kinds \<open>"high" < "low"\<close>, as the strings compare.\<close>

instantiation swing_kind :: linorder
begin

definition less_eq_swing_kind :: "swing_kind \<Rightarrow> swing_kind \<Rightarrow> bool" where
  "less_eq_swing_kind a b \<longleftrightarrow> a = High \<or> b = Low"

definition less_swing_kind :: "swing_kind \<Rightarrow> swing_kind \<Rightarrow> bool" where
  "less_swing_kind a b \<longleftrightarrow> a = High \<and> b = Low"

instance
proof
  fix a b c :: swing_kind
  show "(a < b) = (a \<le> b \<and> \<not> b \<le> a)"
    by (cases a; cases b) (simp_all add: less_eq_swing_kind_def less_swing_kind_def)
  show "a \<le> a" by (cases a) (simp_all add: less_eq_swing_kind_def)
  show "a \<le> b \<Longrightarrow> b \<le> c \<Longrightarrow> a \<le> c"
    by (cases a; cases b; cases c) (simp_all add: less_eq_swing_kind_def)
  show "a \<le> b \<Longrightarrow> b \<le> a \<Longrightarrow> a = b"
    by (cases a; cases b) (simp_all add: less_eq_swing_kind_def)
  show "a \<le> b \<or> b \<le> a" by (cases a; cases b) (simp_all add: less_eq_swing_kind_def)
qed

end

section \<open>swings.py\<close>

definition slice :: "nat \<Rightarrow> nat \<Rightarrow> 'a list \<Rightarrow> 'a list" where
  "slice i j xs = take (j - i) (drop i xs)"

definition neighbours :: "candle list \<Rightarrow> nat \<Rightarrow> nat \<Rightarrow> candle list" where
  "neighbours cs k index =
     slice (index - k) index cs @ slice (index + 1) (index + k + 1) cs"

definition high_swing :: "candle list \<Rightarrow> nat \<Rightarrow> nat \<Rightarrow> swing" where
  "high_swing cs k index = \<lparr>sw_kind = High, sw_index = index, sw_confirmation_index = index + k,
     sw_time = c_open_time (cs ! index), sw_price = c_high (cs ! index)\<rparr>"

definition low_swing :: "candle list \<Rightarrow> nat \<Rightarrow> nat \<Rightarrow> swing" where
  "low_swing cs k index = \<lparr>sw_kind = Low, sw_index = index, sw_confirmation_index = index + k,
     sw_time = c_open_time (cs ! index), sw_price = c_low (cs ! index)\<rparr>"

definition swings_at :: "candle list \<Rightarrow> nat \<Rightarrow> nat \<Rightarrow> swing list" where
  "swings_at cs k index =
     (let c = cs ! index; ns = neighbours cs k index
      in (if \<forall>n \<in> set ns. c_high c > c_high n then [high_swing cs k index] else [])
       @ (if \<forall>n \<in> set ns. c_low c < c_low n then [low_swing cs k index] else []))"

definition swing_key :: "swing \<Rightarrow> nat \<times> nat \<times> swing_kind" where
  "swing_key s = (sw_confirmation_index s, sw_index s, sw_kind s)"

definition detect_swings :: "candle list \<Rightarrow> int \<Rightarrow> swing list res" where
  "detect_swings cs lookback =
     rbind (raise_if (lookback < 1) (ValueError ''lookback must be positive'')) (\<lambda>_.
     let k = nat lookback in
     if length cs < k * 2 + 1 then Inr []
     else Inr (sort_key swing_key (concat (map (swings_at cs k) [k..<length cs - k]))))"

lemma length_slice: "j \<le> length xs \<Longrightarrow> length (slice i j xs) = j - i"
  by (simp add: slice_def)

lemma in_slice: "j \<le> length xs \<Longrightarrow> x \<in> set (slice i j xs) \<longleftrightarrow> (\<exists>m. i \<le> m \<and> m < j \<and> x = xs ! m)"
proof
  assume j: "j \<le> length xs"
  {
    assume "x \<in> set (slice i j xs)"
    then obtain m where "m < j - i" "x = slice i j xs ! m" using j
      by (auto simp: in_set_conv_nth length_slice)
    then show "\<exists>m. i \<le> m \<and> m < j \<and> x = xs ! m"
      using j by (intro exI [of _ "i + m"]) (simp add: slice_def)
  }
  assume "\<exists>m. i \<le> m \<and> m < j \<and> x = xs ! m"
  then obtain m where m: "i \<le> m" "m < j" "x = xs ! m" by auto
  then have "slice i j xs ! (m - i) = x" "m - i < length (slice i j xs)"
    using j by (simp_all add: slice_def)
  then show "x \<in> set (slice i j xs)" by (metis nth_mem)
qed

lemma slice_take: "j \<le> n \<Longrightarrow> slice i j (take n xs) = slice i j xs"
  by (simp add: slice_def drop_take min_def)

lemma in_neighbours:
  assumes "k \<le> i" "i + k < length cs"
  shows "x \<in> set (neighbours cs k i) \<longleftrightarrow> (\<exists>m. i - k \<le> m \<and> m \<le> i + k \<and> m \<noteq> i \<and> x = cs ! m)"
proof -
  have "x \<in> set (neighbours cs k i) \<longleftrightarrow>
      (\<exists>m. i - k \<le> m \<and> m < i \<and> x = cs ! m) \<or> (\<exists>m. i + 1 \<le> m \<and> m < i + k + 1 \<and> x = cs ! m)"
    using assms by (simp add: neighbours_def in_slice)
  also have "\<dots> \<longleftrightarrow> (\<exists>m. (i - k \<le> m \<and> m < i \<or> i + 1 \<le> m \<and> m < i + k + 1) \<and> x = cs ! m)"
    by blast
  also have "\<dots> \<longleftrightarrow> (\<exists>m. (i - k \<le> m \<and> m \<le> i + k \<and> m \<noteq> i) \<and> x = cs ! m)"
  proof -
    have "(i - k \<le> m \<and> m < i \<or> i + 1 \<le> m \<and> m < i + k + 1) \<longleftrightarrow>
        (i - k \<le> m \<and> m \<le> i + k \<and> m \<noteq> i)" for m by arith
    then show ?thesis by (simp only:)
  qed
  finally show ?thesis by simp
qed

lemma swings_at_take: "i + k < n \<Longrightarrow> n \<le> length cs \<Longrightarrow> swings_at (take n cs) k i = swings_at cs k i"
  by (simp add: swings_at_def neighbours_def slice_take high_swing_def low_swing_def Let_def)

lemma in_swings_at:
  "s \<in> set (swings_at cs k i) \<Longrightarrow> sw_index s = i \<and> sw_confirmation_index s = i + k \<and>
     sw_time s = c_open_time (cs ! i)"
  by (auto simp: swings_at_def high_swing_def low_swing_def Let_def split: if_splits)

lemma sorted_swings_at: "sorted (map swing_key (swings_at cs k i))"
  by (auto simp: swings_at_def swing_key_def high_swing_def low_swing_def Let_def
      less_eq_swing_kind_def)

lemma sorted_swings: "sorted (map swing_key (concat (map (swings_at cs k) [a..<b])))"
proof (induction b)
  case (Suc b)
  show ?case
  proof (cases "a \<le> b")
    case True
    have "swing_key s \<le> swing_key t"
      if "s \<in> set (concat (map (swings_at cs k) [a..<b]))" "t \<in> set (swings_at cs k b)" for s t
      using that by (auto dest!: in_swings_at simp: swing_key_def)
    with True Suc sorted_swings_at [of cs k b] show ?thesis
      by (auto simp: sorted_append)
  qed simp
qed simp

lemma detect_swings_eq:
  assumes "1 \<le> lookback"
  shows "detect_swings cs lookback =
    Inr (concat (map (swings_at cs (nat lookback)) [nat lookback..<length cs - nat lookback]))"
  using assms by (auto simp: detect_swings_def Let_def sort_key_id_if_sorted sorted_swings)

definition found_swings :: "nat \<Rightarrow> candle list \<Rightarrow> swing list" where
  "found_swings k cs = concat (map (swings_at cs k) [k..<length cs - k])"

lemma detect_swings_found:
  "1 \<le> lookback \<Longrightarrow> detect_swings cs lookback = Inr (found_swings (nat lookback) cs)"
  by (simp add: detect_swings_eq found_swings_def)

text \<open>Which swings are found: exactly the strict local extrema over the window.\<close>

definition local_high :: "candle list \<Rightarrow> nat \<Rightarrow> nat \<Rightarrow> bool" where
  "local_high cs k i \<longleftrightarrow> k \<le> i \<and> i + k < length cs \<and>
     (\<forall>m. i - k \<le> m \<and> m \<le> i + k \<and> m \<noteq> i \<longrightarrow> c_high (cs ! m) < c_high (cs ! i))"

definition local_low :: "candle list \<Rightarrow> nat \<Rightarrow> nat \<Rightarrow> bool" where
  "local_low cs k i \<longleftrightarrow> k \<le> i \<and> i + k < length cs \<and>
     (\<forall>m. i - k \<le> m \<and> m \<le> i + k \<and> m \<noteq> i \<longrightarrow> c_low (cs ! i) < c_low (cs ! m))"

lemma in_found_swings:
  "s \<in> set (found_swings k cs) \<longleftrightarrow>
     (\<exists>i. s = high_swing cs k i \<and> local_high cs k i \<or> s = low_swing cs k i \<and> local_low cs k i)"
proof -
  have at: "s \<in> set (swings_at cs k i) \<longleftrightarrow>
      s = high_swing cs k i \<and> local_high cs k i \<or> s = low_swing cs k i \<and> local_low cs k i"
    if "k \<le> i" "i + k < length cs" for i
  proof -
    have all: "(\<forall>n \<in> set (neighbours cs k i). P n) \<longleftrightarrow>
        (\<forall>m. i - k \<le> m \<and> m \<le> i + k \<and> m \<noteq> i \<longrightarrow> P (cs ! m))" for P
      unfolding Ball_def in_neighbours [OF that] by metis
    have "s \<in> set (swings_at cs k i) \<longleftrightarrow>
        s = high_swing cs k i \<and> (\<forall>n \<in> set (neighbours cs k i). c_high n < c_high (cs ! i)) \<or>
        s = low_swing cs k i \<and> (\<forall>n \<in> set (neighbours cs k i). c_low (cs ! i) < c_low n)"
      by (simp add: swings_at_def Let_def)
    then show ?thesis using that unfolding local_high_def local_low_def all by simp
  qed
  have "s \<in> set (found_swings k cs) \<longleftrightarrow> (\<exists>i. k \<le> i \<and> i + k < length cs \<and> s \<in> set (swings_at cs k i))"
    by (auto simp: found_swings_def less_diff_conv)
  also have "\<dots> \<longleftrightarrow>
      (\<exists>i. s = high_swing cs k i \<and> local_high cs k i \<or> s = low_swing cs k i \<and> local_low cs k i)"
    using at by (metis local_high_def local_low_def)
  finally show ?thesis .
qed

lemma found_swings_take:
  "found_swings k (take n cs) = filter (\<lambda>s. sw_confirmation_index s < n) (found_swings k cs)"
proof (cases "n \<le> length cs")
  case False
  then have "\<forall>s \<in> set (found_swings k cs). sw_confirmation_index s < n"
    by (auto simp: in_found_swings local_high_def local_low_def high_swing_def low_swing_def)
  with False show ?thesis by simp
next
  case True
  let ?L = "length cs"
  have split: "[k..<?L - k] = [k..<n - k] @ [max k (n - k)..<?L - k]"
  proof (cases "k \<le> n - k")
    case True
    then show ?thesis using \<open>n \<le> ?L\<close> upt_add_eq_append [of k "n - k" "?L - k - (n - k)"] by simp
  qed simp
  have 1: "map (swings_at (take n cs) k) [k..<n - k] = map (swings_at cs k) [k..<n - k]"
    using True by (intro map_cong refl swings_at_take) auto
  have 2: "filter (\<lambda>s. sw_confirmation_index s < n) (concat (map (swings_at cs k) [k..<n - k])) =
      concat (map (swings_at cs k) [k..<n - k])"
    by (intro filter_True) (auto dest!: in_swings_at)
  have 3: "filter (\<lambda>s. sw_confirmation_index s < n)
      (concat (map (swings_at cs k) [max k (n - k)..<?L - k])) = []"
    by (intro filter_False) (auto dest!: in_swings_at)
  show ?thesis
    using True by (simp add: found_swings_def split 1 2 3)
qed

lemma found_swings_sorted: "sorted (map swing_key (found_swings k cs))"
  unfolding found_swings_def by (rule sorted_swings)

lemma swing_key_sorted_dates:
  "sorted (map swing_key ss) \<Longrightarrow> sorted (map sw_confirmation_index ss)"
  by (induction ss) (auto simp: swing_key_def)

interpretation swings: causal_detector "found_swings k" sw_confirmation_index for k
  by unfold_locales
    (rule found_swings_take, rule swing_key_sorted_dates [OF found_swings_sorted])

section \<open>ranges.py\<close>

definition recency :: "swing \<Rightarrow> nat \<times> nat" where
  "recency s = (sw_confirmation_index s, sw_index s)"

definition active_dealing_range :: "swing list \<Rightarrow> dealing_range option" where
  "active_dealing_range ss =
     (case (first_max recency (filter (\<lambda>s. sw_kind s = High) ss),
            first_max recency (filter (\<lambda>s. sw_kind s = Low) ss)) of
        (Some hi, Some lo) \<Rightarrow>
          if sw_price lo \<ge> sw_price hi then None
          else Some \<lparr>dr_low_swing = lo, dr_high_swing = hi, dr_low = sw_price lo,
                 dr_high = sw_price hi, dr_midpoint = dhalf (dadd (sw_price lo) (sw_price hi))\<rparr>
      | _ \<Rightarrow> None)"

definition classify_price :: "dec \<Rightarrow> dealing_range \<Rightarrow> price_location" where
  "classify_price price r =
     (if price < dr_midpoint r then Discount
      else if price > dr_midpoint r then Premium else Equilibrium)"

lemma active_dealing_range_Some:
  assumes "active_dealing_range ss = Some r"
  shows "dr_low_swing r \<in> set ss" "sw_kind (dr_low_swing r) = Low"
    "dr_high_swing r \<in> set ss" "sw_kind (dr_high_swing r) = High"
    "dr_low r = sw_price (dr_low_swing r)" "dr_high r = sw_price (dr_high_swing r)"
    "dr_low r < dr_high r"
    "\<And>s. s \<in> set ss \<Longrightarrow> sw_kind s = Low \<Longrightarrow> recency s \<le> recency (dr_low_swing r)"
    "\<And>s. s \<in> set ss \<Longrightarrow> sw_kind s = High \<Longrightarrow> recency s \<le> recency (dr_high_swing r)"
  using assms
  by (auto simp: active_dealing_range_def split: option.splits if_splits dest!: first_max_Some)

lemma dealing_range_midpoint:
  assumes "active_dealing_range ss = Some r"
    and "rnd (dr_low r) = dr_low r" "rnd (dr_high r) = dr_high r"
      "rnd (dr_low r + dr_high r) = dr_low r + dr_high r"
  shows "dr_low r \<le> dr_midpoint r" "dr_midpoint r \<le> dr_high r"
proof -
  have "dr_midpoint r = dhalf (dadd (dr_low r) (dr_high r))"
    using assms(1) by (auto simp: active_dealing_range_def split: option.splits if_splits)
  moreover have "dr_low r \<le> dr_high r" using active_dealing_range_Some(7) [OF assms(1)] by simp
  ultimately show "dr_low r \<le> dr_midpoint r" "dr_midpoint r \<le> dr_high r"
    using midpoint_between [OF assms(2-4)] by simp_all
qed

section \<open>Properties\<close>

text \<open>Swing detection is sound and complete: what \<open>detect_swings\<close> returns are exactly the swings of
  the strict local extrema, the candles whose high exceeds (whose low is below) that of each of the
  \<open>lookback\<close> neighbours on both sides, in the order of their confirmation.\<close>

theorem swings_are_local_extrema:
  assumes "detect_swings cs lookback = Inr ss"
  shows "(s \<in> set ss \<longleftrightarrow> (\<exists>i. s = high_swing cs (nat lookback) i \<and> local_high cs (nat lookback) i \<or>
      s = low_swing cs (nat lookback) i \<and> local_low cs (nat lookback) i)) \<and>
    sorted (map sw_confirmation_index ss)"
proof -
  have "1 \<le> lookback" using assms by (auto simp: detect_swings_def)
  from detect_swings_found [OF this, of cs] assms have "ss = found_swings (nat lookback) cs" by simp
  then show ?thesis using in_found_swings swings.dates_sorted by simp
qed

lemma swings_are_local_extrema_witness:
  "\<exists>ss. detect_swings sample_series 1 = Inr ss \<and> high_swing sample_series 1 5 \<in> set ss \<and>
     high_swing sample_series 1 1 \<in> set ss \<and> sorted (map sw_confirmation_index ss)"
proof -
  obtain ss where ss: "detect_swings sample_series 1 = Inr ss" using detect_swings_found [of 1] by auto
  have "local_high sample_series 1 5" "local_high sample_series 1 1"
    unfolding local_high_def
    by (auto simp: sample_series_defs le_Suc_eq numeral_eq_Suc)
  then show ?thesis using swings_are_local_extrema [OF ss] ss by auto
qed

end
