(* ===== verification/Structure.thy ===== *)
theory Structure
  imports Swings
begin

text \<open>
  \<open>src/src/smc_core/structure.py\<close> (breaks of structure), the sweeps of \<open>liquidity.py\<close> and
  \<open>displacement.py\<close>. The two swing consumers share their bookkeeping: a dictionary that makes a
  swing available on the candle after its confirmation, and the latest unconsumed high and low.
  That bookkeeping is \<open>tracked_step\<close>, parametrised by what a detector does with a candle;
  the locale \<open>swing_consumer\<close> states what such a body must keep, proves what follows for any
  of them, and is interpreted on the bodies of the two detectors.
\<close>

section \<open>Tracking the latest swings\<close>

text \<open>\<open>available.setdefault(swing.confirmation_index + 1, []).append(swing)\<close>.\<close>

definition available_at :: "(nat \<times> swing list) list \<Rightarrow> nat \<Rightarrow> swing list" where
  "available_at d i = (case map_of d i of None \<Rightarrow> [] | Some ss \<Rightarrow> ss)"

definition available_by :: "swing list \<Rightarrow> (nat \<times> swing list) list" where
  "available_by ss =
     foldl (\<lambda>d s. od_put (Suc (sw_confirmation_index s))
       (available_at d (Suc (sw_confirmation_index s)) @ [s]) d) [] ss"

type_synonym latest = "swing option \<times> swing option"

fun note_swing :: "latest \<Rightarrow> swing \<Rightarrow> latest" where
  "note_swing (hi, lo) s = (if sw_kind s = High then (Some s, lo) else (hi, Some s))"

definition seen :: "(nat \<times> swing list) list \<Rightarrow> nat \<Rightarrow> latest \<Rightarrow> latest" where
  "seen avail i l = foldl note_swing l (available_at avail i)"

definition tracked_step ::
  "(nat \<Rightarrow> 't \<Rightarrow> latest \<Rightarrow> candle \<Rightarrow> ('t \<times> latest) \<times> 'e list) \<Rightarrow> (nat \<times> swing list) list \<Rightarrow>
   nat \<Rightarrow> 't \<times> latest \<Rightarrow> candle \<Rightarrow> ('t \<times> latest) \<times> 'e list" where
  "tracked_step body avail i st c =
     body i (fst st) (seen avail i (snd st)) c"

lemma available_at_by: "available_at (available_by ss) i = filter (\<lambda>s. Suc (sw_confirmation_index s) = i) ss"
proof (induction ss rule: rev_induct)
  case Nil
  then show ?case by (simp add: available_by_def available_at_def)
next
  case (snoc s ss)
  let ?d = "available_by ss" and ?k = "Suc (sw_confirmation_index s)"
  have "available_by (ss @ [s]) = od_put ?k (available_at ?d ?k @ [s]) ?d"
    by (simp add: available_by_def)
  then show ?case using snoc by (auto simp: available_at_def)
qed

text \<open>The latest swings hold a high and a low confirmed before the current candle.\<close>

definition latest_ok :: "swing list \<Rightarrow> nat \<Rightarrow> latest \<Rightarrow> bool" where
  "latest_ok ss i l \<longleftrightarrow>
     (\<forall>s. fst l = Some s \<longrightarrow> s \<in> set ss \<and> sw_kind s = High \<and> sw_confirmation_index s < i) \<and>
     (\<forall>s. snd l = Some s \<longrightarrow> s \<in> set ss \<and> sw_kind s = Low \<and> sw_confirmation_index s < i)"

lemma latest_ok_none [simp]: "latest_ok ss i (None, None)"
  by (simp add: latest_ok_def)

lemma latest_ok_mono: "latest_ok ss i l \<Longrightarrow> i \<le> j \<Longrightarrow> latest_ok ss j l"
  by (auto simp: latest_ok_def)

lemma latest_ok_note:
  "latest_ok ss i l \<Longrightarrow> s \<in> set ss \<Longrightarrow> sw_confirmation_index s < i \<Longrightarrow> latest_ok ss i (note_swing l s)"
  by (cases l; cases "sw_kind s") (auto simp: latest_ok_def)

lemma latest_ok_foldl:
  "latest_ok ss i l \<Longrightarrow> \<forall>s \<in> set xs. s \<in> set ss \<and> sw_confirmation_index s < i \<Longrightarrow>
     latest_ok ss i (foldl note_swing l xs)"
  by (induction xs arbitrary: l) (simp_all add: latest_ok_note)

lemma latest_ok_seen: "latest_ok ss i l \<Longrightarrow> latest_ok ss i (seen (available_by ss) i l)"
  unfolding seen_def by (rule latest_ok_foldl) (auto simp: available_at_by)

lemma note_from:
  "fst (note_swing l x) = Some s \<Longrightarrow> fst l = Some s \<or> s = x"
  "snd (note_swing l x) = Some s \<Longrightarrow> snd l = Some s \<or> s = x"
  by (cases l; auto split: if_splits)+

lemma foldl_note_from:
  "fst (foldl note_swing l xs) = Some s \<or> snd (foldl note_swing l xs) = Some s \<Longrightarrow>
     fst l = Some s \<or> snd l = Some s \<or> s \<in> set xs"
proof (induction xs arbitrary: l)
  case (Cons x xs)
  from Cons.IH [of "note_swing l x"] Cons.prems
  have "fst (note_swing l x) = Some s \<or> snd (note_swing l x) = Some s \<or> s \<in> set xs" by simp
  then show ?case using note_from [of l x s] by auto
qed simp

lemma seen_from:
  assumes "fst (seen (available_by ss) i l) = Some s \<or> snd (seen (available_by ss) i l) = Some s"
  shows "fst l = Some s \<or> snd l = Some s \<or> s \<in> set ss \<and> Suc (sw_confirmation_index s) = i"
  using foldl_note_from [OF assms [unfolded seen_def]] by (simp add: available_at_by)

locale swing_consumer =
  fixes body :: "nat \<Rightarrow> 't \<Rightarrow> latest \<Rightarrow> candle \<Rightarrow> ('t \<times> latest) \<times> 'e list"
    and used :: "'e \<Rightarrow> swing"
    and date :: "'e \<Rightarrow> nat"
  assumes body_date: "e \<in> set (snd (body i t l c)) \<Longrightarrow> date e = i"
    and body_keeps: "body i t l c = ((t', l'), es) \<Longrightarrow>
      fst l' \<in> {fst l, None} \<and> snd l' \<in> {snd l, None}"
    and body_uses: "body i t l c = ((t', l'), es) \<Longrightarrow> e \<in> set es \<Longrightarrow>
      fst l = Some (used e) \<and> fst l' = None \<or> snd l = Some (used e) \<and> snd l' = None"
    and body_once: "(\<And>a b. fst l = Some a \<Longrightarrow> snd l = Some b \<Longrightarrow> a \<noteq> b) \<Longrightarrow>
      distinct (map used (snd (body i t l c)))"
begin

definition track :: "swing list \<Rightarrow> 't \<Rightarrow> candle list \<Rightarrow> 'e list" where
  "track ss t cs = scan (tracked_step body (available_by ss)) 0 (t, None, None) cs"

lemma step_date: "e \<in> set (snd (tracked_step body d i st c)) \<Longrightarrow> date e = i"
  by (simp add: tracked_step_def body_date)

lemma step_effect:
  assumes "tracked_step body d i st c = (st', es)"
  shows "fst (snd st') \<in> {fst (seen d i (snd st)), None}"
    and "snd (snd st') \<in> {snd (seen d i (snd st)), None}"
    and "e \<in> set es \<Longrightarrow> fst (seen d i (snd st)) = Some (used e) \<and> fst (snd st') = None \<or>
      snd (seen d i (snd st)) = Some (used e) \<and> snd (snd st') = None"
    and "e \<in> set es \<Longrightarrow> date e = i"
  using assms body_keeps [of i "fst st" "seen d i (snd st)" c "fst st'" "snd st'" es]
    body_uses [of i "fst st" "seen d i (snd st)" c "fst st'" "snd st'" es e]
    step_date [of e d i st c]
  by (simp_all add: tracked_step_def)

lemma step_latest_ok:
  assumes "latest_ok ss i (snd st)" "tracked_step body (available_by ss) i st c = (st', es)"
  shows "latest_ok ss (Suc i) (snd st')"
  using latest_ok_seen [OF assms(1)] step_effect(1,2) [OF assms(2)]
  by (auto simp: latest_ok_def less_Suc_eq)

text \<open>Every event consumes a swing of the input confirmed before the event's candle.\<close>

lemma scan_used:
  assumes "latest_ok ss i (snd st)" "e \<in> set (scan (tracked_step body (available_by ss)) i st cs)"
  shows "used e \<in> set ss \<and> sw_confirmation_index (used e) < date e"
  using assms
proof (induction cs arbitrary: i st)
  case (Cons c cs)
  obtain st' es where step: "tracked_step body (available_by ss) i st c = (st', es)" by fastforce
  from Cons.prems(2) step consider "e \<in> set es"
    | "e \<in> set (scan (tracked_step body (available_by ss)) (Suc i) st' cs)" by auto
  then show ?case
  proof cases
    case 1
    with step_effect(3,4) [OF step] latest_ok_seen [OF Cons.prems(1)] show ?thesis
      unfolding latest_ok_def by blast
  qed (rule Cons.IH [OF step_latest_ok [OF Cons.prems(1) step]])
qed simp

lemma track_used:
  "e \<in> set (track ss t cs) \<Longrightarrow> used e \<in> set ss \<and> sw_confirmation_index (used e) < date e"
  unfolding track_def by (rule scan_used) simp_all

text \<open>No swing is consumed twice: what a later event can use is still pending.\<close>

lemma scan_pool:
  assumes "e \<in> set (scan (tracked_step body (available_by ss)) i st cs)"
  shows "fst (snd st) = Some (used e) \<or> snd (snd st) = Some (used e) \<or> i \<le> Suc (sw_confirmation_index (used e))"
  using assms
proof (induction cs arbitrary: i st)
  case (Cons c cs)
  obtain st' es where step: "tracked_step body (available_by ss) i st c = (st', es)" by fastforce
  let ?l = "seen (available_by ss) i (snd st)"
  from Cons.prems step consider "e \<in> set es"
    | "e \<in> set (scan (tracked_step body (available_by ss)) (Suc i) st' cs)" by auto
  then have "fst ?l = Some (used e) \<or> snd ?l = Some (used e) \<or> i \<le> Suc (sw_confirmation_index (used e))"
  proof cases
    case 1
    then show ?thesis using step_effect(3) [OF step] by blast
  next
    case 2
    then show ?thesis using Cons.IH step_effect(1,2) [OF step] by fastforce
  qed
  then show ?case using seen_from [of ss i "snd st" "used e"] by fastforce
qed simp

lemma scan_once:
  assumes "latest_ok ss i (snd st)"
  shows "distinct (map used (scan (tracked_step body (available_by ss)) i st cs))"
  using assms
proof (induction cs arbitrary: i st)
  case (Cons c cs)
  let ?l = "seen (available_by ss) i (snd st)"
  let ?rest = "\<lambda>st'. scan (tracked_step body (available_by ss)) (Suc i) st' cs"
  obtain st' es where step: "tracked_step body (available_by ss) i st c = (st', es)" by fastforce
  have ok: "latest_ok ss i ?l" by (rule latest_ok_seen [OF Cons.prems])
  then have "a \<noteq> b" if "fst ?l = Some a" "snd ?l = Some b" for a b
    using that by (auto simp: latest_ok_def)
  then have "distinct (map used es)"
    using body_once [of ?l i "fst st" c] step by (simp add: tracked_step_def)
  moreover have "used e \<noteq> used e'" if "e \<in> set es" "e' \<in> set (?rest st')" for e e'
  proof
    assume "used e = used e'"
    with scan_pool [OF that(2)] have pool: "fst (snd st') = Some (used e) \<or>
      snd (snd st') = Some (used e) \<or> i \<le> sw_confirmation_index (used e)" by auto
    from step_effect(3) [OF step that(1)] ok have "sw_confirmation_index (used e) < i"
      by (auto simp: latest_ok_def)
    with pool step_effect(1-3) [OF step] that(1) ok show False
      by (fastforce simp: latest_ok_def)
  qed
  then have "used ` set es \<inter> used ` set (?rest st') = {}" by blast
  ultimately show ?case using Cons.IH [OF step_latest_ok [OF Cons.prems step]] step by simp
qed simp

lemma track_once: "distinct (map used (track ss t cs))"
  unfolding track_def by (rule scan_once) simp

lemma track_sorted: "sorted (map date (track ss t cs))"
  unfolding track_def by (rule scan_sorted) (rule step_date)

text \<open>The events dated before \<open>n\<close> depend on the first \<open>n\<close> candles and on the swings confirmed
  before \<open>n\<close> only.\<close>

lemma track_take:
  "track (filter (\<lambda>s. sw_confirmation_index s < n) ss) t (take n cs) =
     filter (\<lambda>e. date e < n) (track ss t cs)"
proof -
  have "track (filter (\<lambda>s. sw_confirmation_index s < n) ss) t (take n cs) = track ss t (take n cs)"
    unfolding track_def
  proof (rule scan_cong)
    fix j st c assume "j < 0 + length (take n cs)"
    then have "filter (\<lambda>s. Suc (sw_confirmation_index s) = j) (filter (\<lambda>s. sw_confirmation_index s < n) ss) =
        filter (\<lambda>s. Suc (sw_confirmation_index s) = j) ss"
      unfolding filter_filter by (intro filter_cong) auto
    then show "tracked_step body (available_by (filter (\<lambda>s. sw_confirmation_index s < n) ss)) j st c =
        tracked_step body (available_by ss) j st c"
      by (simp only: tracked_step_def seen_def available_at_by)
  qed
  also have "\<dots> = filter (\<lambda>e. date e < 0 + n) (track ss t cs)"
    unfolding track_def by (rule scan_take) (rule step_date)
  finally show ?thesis by simp
qed

lemma track_causal:
  assumes "causal_detector found sw_confirmation_index"
  shows "causal_detector (\<lambda>cs. track (found cs) t cs) date"
proof
  fix n cs
  have "found (take n cs) = filter (\<lambda>s. sw_confirmation_index s < n) (found cs)"
    by (rule causal_detector.causal [OF assms])
  then show "track (found (take n cs)) t (take n cs) = filter (\<lambda>e. date e < n) (track (found cs) t cs)"
    by (simp add: track_take)
  show "sorted (map date (track (found cs) t cs))" by (rule track_sorted)
qed

end

section \<open>structure.py\<close>

definition break_event ::
  "direction option \<Rightarrow> direction \<Rightarrow> nat \<Rightarrow> candle \<Rightarrow> swing \<Rightarrow> structure_break" where
  "break_event trend dir i c target =
     \<lparr>sb_kind = (if trend \<noteq> None \<and> trend \<noteq> Some dir then Choch else Bos), sb_direction = dir,
      sb_index = i, sb_time = c_close_time c, sb_close_price = c_close c,
      sb_broken_swing = target, sb_prior_trend = trend\<rparr>"

text \<open>One iteration after the swings have been noted: the trend and the latest swings.\<close>

fun structure_body ::
  "nat \<Rightarrow> direction option \<Rightarrow> latest \<Rightarrow> candle \<Rightarrow> (direction option \<times> latest) \<times> structure_break list" where
  "structure_body i trend (hi, lo) c =
     (case hi of
        Some h \<Rightarrow>
          if c_close c > sw_price h
          then ((Some Bullish, None, lo), [break_event trend Bullish i c h])
          else (case lo of
             Some l \<Rightarrow> if c_close c < sw_price l
               then ((Some Bearish, hi, None), [break_event trend Bearish i c l])
               else ((trend, hi, lo), [])
           | None \<Rightarrow> ((trend, hi, lo), []))
      | None \<Rightarrow> (case lo of
             Some l \<Rightarrow> if c_close c < sw_price l
               then ((Some Bearish, hi, None), [break_event trend Bearish i c l])
               else ((trend, hi, lo), [])
           | None \<Rightarrow> ((trend, hi, lo), [])))"

definition detect_structure_breaks :: "candle list \<Rightarrow> swing list \<Rightarrow> structure_break list" where
  "detect_structure_breaks cs ss =
     scan (tracked_step structure_body (available_by ss)) 0 (None, None, None) cs"

interpretation breaks: swing_consumer structure_body sb_broken_swing sb_index
proof
  fix i t and l l' :: latest and c t' es and e :: structure_break
  obtain hi lo where l: "l = (hi, lo)" by fastforce
  show "e \<in> set (snd (structure_body i t l c)) \<Longrightarrow> sb_index e = i"
    by (auto simp: l break_event_def split: option.splits if_splits)
  show "distinct (map sb_broken_swing (snd (structure_body i t l c)))"
    by (auto simp: l split: option.splits)
  assume r: "structure_body i t l c = ((t', l'), es)"
  then show "fst l' \<in> {fst l, None} \<and> snd l' \<in> {snd l, None}"
    by (auto simp: l split: option.splits if_splits)
  assume "e \<in> set es"
  with r show "fst l = Some (sb_broken_swing e) \<and> fst l' = None \<or>
      snd l = Some (sb_broken_swing e) \<and> snd l' = None"
    by (auto simp: l break_event_def split: option.splits if_splits)
qed

lemma detect_structure_breaks_track: "detect_structure_breaks cs ss = breaks.track ss None cs"
  by (simp add: detect_structure_breaks_def breaks.track_def)

text \<open>What a reported break means: a swing of the input, confirmed on an earlier candle, and the
  close beyond its price.\<close>

definition break_justified :: "candle list \<Rightarrow> swing list \<Rightarrow> structure_break \<Rightarrow> bool" where
  "break_justified cs ss e \<longleftrightarrow> sb_index e < length cs \<and>
     sb_broken_swing e \<in> set ss \<and> sw_confirmation_index (sb_broken_swing e) < sb_index e \<and>
     sb_time e = c_close_time (cs ! sb_index e) \<and> sb_close_price e = c_close (cs ! sb_index e) \<and>
     (case sb_direction e of
        Bullish \<Rightarrow> sw_kind (sb_broken_swing e) = High \<and> sb_close_price e > sw_price (sb_broken_swing e)
      | Bearish \<Rightarrow> sw_kind (sb_broken_swing e) = Low \<and> sb_close_price e < sw_price (sb_broken_swing e))"

text \<open>The kinds follow the trend: a break against the trend is a change of character, any
  other break a break of structure, and each break sets the trend of the next one.\<close>

fun trend_chain :: "direction option \<Rightarrow> structure_break list \<Rightarrow> bool" where
  "trend_chain t [] \<longleftrightarrow> True"
| "trend_chain t (e # es) \<longleftrightarrow> sb_prior_trend e = t \<and>
     sb_kind e = (if t \<noteq> None \<and> t \<noteq> Some (sb_direction e) then Choch else Bos) \<and>
     trend_chain (Some (sb_direction e)) es"

lemma structure_body_cases:
  "(\<exists>h. fst l = Some h \<and> c_close c > sw_price h \<and>
      structure_body i t l c = ((Some Bullish, None, snd l), [break_event t Bullish i c h])) \<or>
   (\<exists>x. snd l = Some x \<and> c_close c < sw_price x \<and>
      structure_body i t l c = ((Some Bearish, fst l, None), [break_event t Bearish i c x])) \<or>
   structure_body i t l c = ((t, l), [])"
  by (cases l) (auto split: option.splits)

lemma structure_scan_justified:
  assumes "latest_ok ss i (snd st)" "\<forall>j < length cs. cs ! j = all ! (i + j)" "i + length cs = length all"
    "e \<in> set (scan (tracked_step structure_body (available_by ss)) i st cs)"
  shows "break_justified all ss e"
  using assms
proof (induction cs arbitrary: i st)
  case (Cons c cs)
  let ?l = "seen (available_by ss) i (snd st)"
  obtain st' es where step: "tracked_step structure_body (available_by ss) i st c = (st', es)" by fastforce
  have ok: "latest_ok ss i ?l" by (rule latest_ok_seen [OF Cons.prems(1)])
  have c: "c = all ! i" "i < length all" using Cons.prems(2,3) by auto
  from Cons.prems(4) step consider "e \<in> set es"
    | "e \<in> set (scan (tracked_step structure_body (available_by ss)) (Suc i) st' cs)" by auto
  then show ?case
  proof cases
    case 1
    with step structure_body_cases [of ?l c i "fst st"] ok c show ?thesis
      by (auto simp: tracked_step_def latest_ok_def break_justified_def break_event_def)
  next
    case 2
    have "\<forall>j < length cs. cs ! j = all ! (Suc i + j)" using Cons.prems(2) by force
    then show ?thesis
      using Cons.IH [OF breaks.step_latest_ok [OF Cons.prems(1) step] _ _ 2] Cons.prems(3) by simp
  qed
qed simp

lemma breaks_justified: "e \<in> set (detect_structure_breaks cs ss) \<Longrightarrow> break_justified cs ss e"
  unfolding detect_structure_breaks_def by (rule structure_scan_justified) auto

lemma structure_scan_chain:
  "trend_chain (fst st) (scan (tracked_step structure_body d) i st cs)"
proof (induction cs arbitrary: i st)
  case (Cons c cs)
  let ?l = "seen d i (snd st)"
  have IH: "trend_chain t (scan (tracked_step structure_body d) (Suc i) (t, l) cs)" for t l
    using Cons.IH [where st = "(t, l)" and i = "Suc i"] by simp
  from structure_body_cases [of ?l c i "fst st"] show ?case
    using IH tracked_step_def [of structure_body d i st c]
    by (elim disjE exE conjE) (simp_all add: break_event_def)
qed simp

lemma breaks_trend_chain: "trend_chain None (detect_structure_breaks cs ss)"
  unfolding detect_structure_breaks_def using structure_scan_chain [of "(None, None, None)"] by simp

interpretation breaking: causal_detector
  "\<lambda>cs. detect_structure_breaks cs (found_swings k cs)" sb_index for k
  unfolding detect_structure_breaks_track
  by (rule breaks.track_causal) (rule swings.causal_detector_axioms)

section \<open>liquidity.py: sweeps\<close>

definition sweep_event :: "direction \<Rightarrow> nat \<Rightarrow> candle \<Rightarrow> swing \<Rightarrow> dec \<Rightarrow> liquidity_sweep" where
  "sweep_event dir i c s extreme =
     \<lparr>ls_direction = dir, ls_index = i, ls_time = c_close_time c, ls_level = sw_price s,
      ls_extreme_price = extreme, ls_swept_swing = s\<rparr>"

fun sweep_high :: "nat \<Rightarrow> swing option \<Rightarrow> candle \<Rightarrow> swing option \<times> liquidity_sweep list" where
  "sweep_high i None c = (None, [])"
| "sweep_high i (Some h) c =
     (if c_high c > sw_price h \<and> sw_price h > c_close c
      then (None, [sweep_event Bearish i c h (c_high c)]) else (Some h, []))"

fun sweep_low :: "nat \<Rightarrow> swing option \<Rightarrow> candle \<Rightarrow> swing option \<times> liquidity_sweep list" where
  "sweep_low i None c = (None, [])"
| "sweep_low i (Some l) c =
     (if c_low c < sw_price l \<and> sw_price l < c_close c
      then (None, [sweep_event Bullish i c l (c_low c)]) else (Some l, []))"

definition sweep_body :: "nat \<Rightarrow> unit \<Rightarrow> latest \<Rightarrow> candle \<Rightarrow> (unit \<times> latest) \<times> liquidity_sweep list" where
  "sweep_body i t l c =
     (case sweep_high i (fst l) c of (hi', es1) \<Rightarrow>
      case sweep_low i (snd l) c of (lo', es2) \<Rightarrow> (((), hi', lo'), es1 @ es2))"

definition detect_liquidity_sweeps :: "candle list \<Rightarrow> swing list \<Rightarrow> liquidity_sweep list" where
  "detect_liquidity_sweeps cs ss =
     scan (tracked_step sweep_body (available_by ss)) 0 ((), None, None) cs"

interpretation sweeps: swing_consumer sweep_body ls_swept_swing ls_index
proof
  fix i t and l l' :: latest and c t' es and e :: liquidity_sweep
  obtain hi lo where l: "l = (hi, lo)" by fastforce
  show "e \<in> set (snd (sweep_body i t l c)) \<Longrightarrow> ls_index e = i"
    by (cases hi; cases lo) (auto simp: l sweep_body_def sweep_event_def split: if_splits)
  show "(\<And>a b. fst l = Some a \<Longrightarrow> snd l = Some b \<Longrightarrow> a \<noteq> b) \<Longrightarrow>
      distinct (map ls_swept_swing (snd (sweep_body i t l c)))"
    by (cases hi; cases lo) (auto simp: l sweep_body_def sweep_event_def)
  assume r: "sweep_body i t l c = ((t', l'), es)"
  then show "fst l' \<in> {fst l, None} \<and> snd l' \<in> {snd l, None}"
    by (cases hi; cases lo) (auto simp: l sweep_body_def split: if_splits)
  assume "e \<in> set es"
  with r show "fst l = Some (ls_swept_swing e) \<and> fst l' = None \<or>
      snd l = Some (ls_swept_swing e) \<and> snd l' = None"
    by (cases hi; cases lo) (auto simp: l sweep_body_def sweep_event_def split: if_splits)
qed

lemma detect_liquidity_sweeps_track: "detect_liquidity_sweeps cs ss = sweeps.track ss () cs"
  by (simp add: detect_liquidity_sweeps_def sweeps.track_def)

interpretation sweeping: causal_detector
  "\<lambda>cs. detect_liquidity_sweeps cs (found_swings k cs)" ls_index for k
  unfolding detect_liquidity_sweeps_track
  by (rule sweeps.track_causal) (rule swings.causal_detector_axioms)

text \<open>A sweep takes the level of a swing of the input, confirmed on an earlier candle, intrabar and
  closes back inside.\<close>

definition sweep_justified :: "candle list \<Rightarrow> swing list \<Rightarrow> liquidity_sweep \<Rightarrow> bool" where
  "sweep_justified cs ss e \<longleftrightarrow> ls_index e < length cs \<and> ls_level e = sw_price (ls_swept_swing e) \<and>
     ls_swept_swing e \<in> set ss \<and> sw_confirmation_index (ls_swept_swing e) < ls_index e \<and>
     (let c = cs ! ls_index e in ls_time e = c_close_time c \<and>
      (case ls_direction e of
        Bearish \<Rightarrow> sw_kind (ls_swept_swing e) = High \<and> ls_extreme_price e = c_high c \<and>
          c_close c < ls_level e \<and> ls_level e < c_high c
      | Bullish \<Rightarrow> sw_kind (ls_swept_swing e) = Low \<and> ls_extreme_price e = c_low c \<and>
          c_low c < ls_level e \<and> ls_level e < c_close c))"

lemma sweep_body_events:
  assumes "e \<in> set (snd (sweep_body i t l c))"
  shows "(\<exists>h. fst l = Some h \<and> c_high c > sw_price h \<and> sw_price h > c_close c \<and>
      e = sweep_event Bearish i c h (c_high c)) \<or>
    (\<exists>x. snd l = Some x \<and> c_low c < sw_price x \<and> sw_price x < c_close c \<and>
      e = sweep_event Bullish i c x (c_low c))"
  using assms by (cases "fst l"; cases "snd l") (auto simp: sweep_body_def split: if_splits)

lemma sweep_scan_justified:
  assumes "latest_ok ss i (snd st)" "\<forall>j < length cs. cs ! j = all ! (i + j)" "i + length cs = length all"
    "e \<in> set (scan (tracked_step sweep_body (available_by ss)) i st cs)"
  shows "sweep_justified all ss e"
  using assms
proof (induction cs arbitrary: i st)
  case (Cons c cs)
  let ?l = "seen (available_by ss) i (snd st)"
  obtain st' es where step: "tracked_step sweep_body (available_by ss) i st c = (st', es)" by fastforce
  have ok: "latest_ok ss i ?l" by (rule latest_ok_seen [OF Cons.prems(1)])
  have c: "c = all ! i" "i < length all" using Cons.prems(2,3) by auto
  from Cons.prems(4) step consider "e \<in> set es"
    | "e \<in> set (scan (tracked_step sweep_body (available_by ss)) (Suc i) st' cs)" by auto
  then show ?case
  proof cases
    case 1
    with step sweep_body_events [of e i "fst st" ?l c] ok c show ?thesis
      by (auto simp: tracked_step_def latest_ok_def sweep_justified_def sweep_event_def Let_def)
  next
    case 2
    have "\<forall>j < length cs. cs ! j = all ! (Suc i + j)" using Cons.prems(2) by force
    then show ?thesis
      using Cons.IH [OF sweeps.step_latest_ok [OF Cons.prems(1) step] _ _ 2] Cons.prems(3) by simp
  qed
qed simp

lemma sweeps_justified: "e \<in> set (detect_liquidity_sweeps cs ss) \<Longrightarrow> sweep_justified cs ss e"
  unfolding detect_liquidity_sweeps_def by (rule sweep_scan_justified) auto

section \<open>Properties\<close>

text \<open>C9: Every structure break is the close of its candle beyond one of the given swings, of the
  right kind and confirmed on an earlier candle;
  its kind is a change of character exactly when it goes against the trend set by the break before
  it; the breaks are in the order of their candles; and no swing is broken twice.\<close>

theorem structure_breaks_sound:
  "list_all (break_justified cs ss) (detect_structure_breaks cs ss) \<and>
     trend_chain None (detect_structure_breaks cs ss) \<and>
     sorted (map sb_index (detect_structure_breaks cs ss)) \<and>
     distinct (map sb_broken_swing (detect_structure_breaks cs ss))"
  using breaks_justified breaks_trend_chain breaks.track_sorted breaks.track_once
  by (simp add: list_all_iff detect_structure_breaks_track)

lemma structure_breaks_sound_witness:
  "map sb_index (detect_structure_breaks sample_series [high_swing sample_series 1 1]) = [4] \<and>
   list_all (break_justified sample_series [high_swing sample_series 1 1])
     (detect_structure_breaks sample_series [high_swing sample_series 1 1])"
proof -
  have "map sb_index (detect_structure_breaks sample_series [high_swing sample_series 1 1]) = [4]"
    unfolding sample_series_def by code_simp
  then show ?thesis using structure_breaks_sound by blast
qed

text \<open>C10: Every liquidity sweep takes out, within its candle, the level of one of the given swings,
  confirmed on an earlier candle, and closes back inside; the sweeps are in the order of their candles, and no swing is swept twice.\<close>

theorem liquidity_sweeps_sound:
  "list_all (sweep_justified cs ss) (detect_liquidity_sweeps cs ss) \<and>
     sorted (map ls_index (detect_liquidity_sweeps cs ss)) \<and>
     distinct (map ls_swept_swing (detect_liquidity_sweeps cs ss))"
  using sweeps_justified sweeps.track_sorted sweeps.track_once
  by (simp add: list_all_iff detect_liquidity_sweeps_track)

definition sweep_series :: "candle list" where
  "sweep_series = take 4 sample_series @ [sample_candle 4 9 13 9 11]"

lemma liquidity_sweeps_sound_witness:
  "map ls_index (detect_liquidity_sweeps sweep_series [high_swing sweep_series 1 1]) = [4] \<and>
   list_all (sweep_justified sweep_series [high_swing sweep_series 1 1])
     (detect_liquidity_sweeps sweep_series [high_swing sweep_series 1 1])"
proof -
  have "map ls_index (detect_liquidity_sweeps sweep_series [high_swing sweep_series 1 1]) = [4]"
    unfolding sweep_series_def sample_series_def by code_simp
  then show ?thesis using liquidity_sweeps_sound by blast
qed

end
