(* ===== verification/Zones.thy ===== *)
theory Zones
  imports Structure
begin

text \<open>
  The detectors of \<open>src/src/smc_core\<close> that need the average true range, and the life of the
  zones they create: \<open>displacement.py\<close>, \<open>imbalances.py\<close> (fair value gaps),
  \<open>order_blocks.py\<close> and the equal levels of \<open>liquidity.py\<close>. Reading \<open>atr_values[index]\<close> past
  its end raises, so the detectors return \<open>res\<close>; the lemmas show that none does when the
  values belong to the candles.
\<close>

section \<open>displacement.py\<close>

definition close_position :: "direction \<Rightarrow> candle \<Rightarrow> dec" where
  "close_position dir c =
     (if dir = Bullish then ddivn (dsub (c_close c) (c_low c)) (range_size c)
      else ddivn (dsub (c_high c) (c_close c)) (range_size c))"

text \<open>The body of the loop for one candle; the division is reached with a non-zero range.\<close>

definition displacement_at ::
  "dec \<Rightarrow> dec \<Rightarrow> dec \<Rightarrow> nat \<Rightarrow> candle \<Rightarrow> dec option \<Rightarrow> dec option \<Rightarrow> displacement list" where
  "displacement_at body_atr_ratio range_average_ratio close_fraction i c atr average_range =
     (case (atr, average_range, candle_direction c) of
        (Some a, Some m, Some dir) \<Rightarrow>
          if range_size c = 0 then []
          else if body_size c < dmul a body_atr_ratio then []
          else if range_size c < dmul m range_average_ratio then []
          else if close_position dir c < close_fraction then []
          else [\<lparr>dp_direction = dir, dp_index = i, dp_time = c_close_time c,
                 dp_body_size = body_size c, dp_range_size = range_size c, dp_atr = a,
                 dp_average_range = m\<rparr>]
      | _ \<Rightarrow> [])"

definition detect_displacements ::
  "candle list \<Rightarrow> dec option list \<Rightarrow> int \<Rightarrow> dec \<Rightarrow> dec \<Rightarrow> dec \<Rightarrow> displacement list res" where
  "detect_displacements cs atrs range_period body_atr_ratio range_average_ratio close_fraction =
     rbind (rolling_mean (map range_size cs) range_period) (\<lambda>averages.
     rmap concat (traverse (\<lambda>(i, c).
       rbind (py_nth atrs i) (\<lambda>atr.
       rbind (py_nth averages i) (\<lambda>average_range.
       Inr (displacement_at body_atr_ratio range_average_ratio close_fraction i c atr average_range))))
       (enumerate0 cs)))"

section \<open>imbalances.py\<close>

fun gap_fills :: "direction \<Rightarrow> dec \<Rightarrow> dec \<Rightarrow> candle \<Rightarrow> bool" where
  "gap_fills Bullish lower upper c \<longleftrightarrow> c_low c \<le> lower"
| "gap_fills Bearish lower upper c \<longleftrightarrow> c_high c \<ge> upper"

fun gap_touches :: "direction \<Rightarrow> dec \<Rightarrow> dec \<Rightarrow> candle \<Rightarrow> bool" where
  "gap_touches Bullish lower upper c \<longleftrightarrow> c_low c < upper"
| "gap_touches Bearish lower upper c \<longleftrightarrow> c_high c > lower"

definition or_else :: "'a option \<Rightarrow> 'a \<Rightarrow> 'a option" where
  "or_else x y = (case x of None \<Rightarrow> Some y | Some _ \<Rightarrow> x)"

text \<open>The loop of \<open>_resolve_gap\<close>: status, first touch, resolution.\<close>

fun resolve_gap_loop ::
  "direction \<Rightarrow> dec \<Rightarrow> dec \<Rightarrow> (nat \<times> candle) list \<Rightarrow> zone_status \<Rightarrow> nat option \<Rightarrow>
   zone_status \<times> nat option \<times> nat option" where
  "resolve_gap_loop dir lower upper [] status touch = (status, touch, None)"
| "resolve_gap_loop dir lower upper ((i, c) # rest) status touch =
     (if gap_fills dir lower upper c then (Filled, or_else touch i, Some i)
      else if gap_touches dir lower upper c
      then resolve_gap_loop dir lower upper rest Partially_Filled (or_else touch i)
      else resolve_gap_loop dir lower upper rest status touch)"

definition later_candles :: "candle list \<Rightarrow> nat \<Rightarrow> (nat \<times> candle) list" where
  "later_candles cs created = map (\<lambda>i. (i, cs ! i)) [created + 1..<length cs]"

definition resolve_gap :: "fair_value_gap \<Rightarrow> candle list \<Rightarrow> fair_value_gap" where
  "resolve_gap g cs =
     (case resolve_gap_loop (fvg_direction g) (fvg_lower g) (fvg_upper g)
         (later_candles cs (fvg_created_index g)) (fvg_status g) None of
        (status, touch, resolved) \<Rightarrow>
          g\<lparr>fvg_status := status, fvg_first_touch := touch, fvg_resolved := resolved\<rparr>)"

text \<open>The gap between the first and the third candle, before it is resolved.\<close>

definition gap_bounds :: "candle \<Rightarrow> candle \<Rightarrow> (direction \<times> dec \<times> dec) option" where
  "gap_bounds first third =
     (if c_low third > c_high first then Some (Bullish, c_high first, c_low third)
      else if c_high third < c_low first then Some (Bearish, c_high third, c_low first)
      else None)"

definition new_gap :: "candle list \<Rightarrow> dec \<Rightarrow> nat \<Rightarrow> dec option \<Rightarrow> fair_value_gap option" where
  "new_gap cs min_atr_ratio i atr =
     (case (atr, gap_bounds (cs ! (i - 2)) (cs ! i)) of
        (Some a, Some (dir, lower, upper)) \<Rightarrow>
          if dsub upper lower < dmul a min_atr_ratio then None
          else Some \<lparr>fvg_direction = dir, fvg_start_index = i - 2, fvg_created_index = i,
            fvg_created_at = c_close_time (cs ! i), fvg_lower = lower, fvg_upper = upper,
            fvg_status = Zone_Open, fvg_first_touch = None, fvg_resolved = None\<rparr>
      | _ \<Rightarrow> None)"

definition detect_fair_value_gaps ::
  "candle list \<Rightarrow> dec option list \<Rightarrow> dec \<Rightarrow> fair_value_gap list res" where
  "detect_fair_value_gaps cs atrs min_atr_ratio =
     rbind (raise_if (min_atr_ratio < 0) (ValueError ''min_atr_ratio cannot be negative'')) (\<lambda>_.
     rmap concat (traverse (\<lambda>i.
       rbind (py_nth atrs i) (\<lambda>atr.
       Inr (case new_gap cs min_atr_ratio i atr of None \<Rightarrow> [] | Some g \<Rightarrow> [resolve_gap g cs])))
       [2..<length cs]))"

section \<open>order_blocks.py\<close>

fun opposite_direction :: "direction \<Rightarrow> direction" where
  "opposite_direction Bullish = Bearish"
| "opposite_direction Bearish = Bullish"

fun find_candle :: "candle list \<Rightarrow> direction \<Rightarrow> nat list \<Rightarrow> nat option res" where
  "find_candle cs dir [] = Inr None"
| "find_candle cs dir (i # is) =
     rbind (py_nth cs i) (\<lambda>c. if candle_direction c = Some dir then Inr (Some i) else find_candle cs dir is)"

fun block_broken :: "direction \<Rightarrow> dec \<Rightarrow> dec \<Rightarrow> candle \<Rightarrow> bool" where
  "block_broken Bullish lower upper c \<longleftrightarrow> c_close c < lower"
| "block_broken Bearish lower upper c \<longleftrightarrow> c_close c > upper"

fun block_touched :: "direction \<Rightarrow> dec \<Rightarrow> dec \<Rightarrow> candle \<Rightarrow> bool" where
  "block_touched Bullish lower upper c \<longleftrightarrow> c_low c \<le> upper"
| "block_touched Bearish lower upper c \<longleftrightarrow> c_high c \<ge> lower"

fun resolve_block_loop ::
  "direction \<Rightarrow> dec \<Rightarrow> dec \<Rightarrow> (nat \<times> candle) list \<Rightarrow> zone_status \<Rightarrow> nat option \<Rightarrow>
   zone_status \<times> nat option \<times> nat option" where
  "resolve_block_loop dir lower upper [] status touch = (status, touch, None)"
| "resolve_block_loop dir lower upper ((i, c) # rest) status touch =
     (if block_broken dir lower upper c then (Invalidated, touch, Some i)
      else if block_touched dir lower upper c \<and> touch = None
      then resolve_block_loop dir lower upper rest Partially_Filled (Some i)
      else resolve_block_loop dir lower upper rest status touch)"

definition resolve_order_block :: "order_block \<Rightarrow> candle list \<Rightarrow> order_block" where
  "resolve_order_block b cs =
     (case resolve_block_loop (ob_direction b) (ob_lower b) (ob_upper b)
         (later_candles cs (ob_created_index b)) (ob_status b) None of
        (status, touch, broken) \<Rightarrow>
          b\<lparr>ob_status := status, ob_first_touch := touch, ob_invalidated := broken\<rparr>)"

definition new_block :: "structure_break \<Rightarrow> nat \<Rightarrow> candle \<Rightarrow> order_block" where
  "new_block e candle_index source =
     \<lparr>ob_direction = sb_direction e, ob_candle_index = candle_index,
      ob_created_index = sb_index e, ob_created_at = sb_time e, ob_lower = c_low source,
      ob_upper = c_high source, ob_break_event = e, ob_status = Zone_Open,
      ob_first_touch = None, ob_invalidated = None\<rparr>"

text \<open>One break: the blocks so far and the \<open>used_candles\<close> set.\<close>

definition order_block_step ::
  "candle list \<Rightarrow> (nat \<Rightarrow> displacement option) \<Rightarrow> nat \<Rightarrow>
   order_block list \<times> (direction \<times> nat) set \<Rightarrow> structure_break \<Rightarrow>
   (order_block list \<times> (direction \<times> nat) set) res" where
  "order_block_step cs by_index lookback st e =
     (case by_index (sb_index e) of
        None \<Rightarrow> Inr st
      | Some d \<Rightarrow>
          if dp_direction d \<noteq> sb_direction e then Inr st
          else rbind (find_candle cs (opposite_direction (sb_direction e))
              (rev [sb_index e - lookback..<sb_index e])) (\<lambda>found.
            case found of
              None \<Rightarrow> Inr st
            | Some j \<Rightarrow>
                if (sb_direction e, j) \<in> snd st then Inr st
                else Inr (fst st @ [resolve_order_block (new_block e j (cs ! j)) cs],
                          insert (sb_direction e, j) (snd st))))"

definition detect_order_blocks ::
  "candle list \<Rightarrow> structure_break list \<Rightarrow> displacement list \<Rightarrow> int \<Rightarrow> order_block list res" where
  "detect_order_blocks cs breaks displacements search_lookback =
     rbind (raise_if (search_lookback < 1) (ValueError ''search_lookback must be positive'')) (\<lambda>_.
     let by_index = foldl (\<lambda>m d. m(dp_index d \<mapsto> d)) Map.empty displacements in
     rmap fst (foldM (order_block_step cs by_index (nat search_lookback)) ([], {}) breaks))"

section \<open>liquidity.py: equal levels\<close>

definition equal_level_pair ::
  "swing_kind \<Rightarrow> dec option list \<Rightarrow> dec \<Rightarrow> int \<Rightarrow> swing \<times> swing \<Rightarrow> equal_level list" where
  "equal_level_pair kind atrs tolerance_ratio max_separation p =
     (case p of (first, second) \<Rightarrow>
        if int (sw_index second) - int (sw_index first) > max_separation then []
        else if sw_confirmation_index second \<ge> length atrs then []
        else (case atrs ! sw_confirmation_index second of
            None \<Rightarrow> []
          | Some atr \<Rightarrow>
              let tolerance = dmul atr tolerance_ratio in
              if dabs (dsub (sw_price second) (sw_price first)) \<le> tolerance
              then [\<lparr>el_kind = kind, el_first_swing = first, el_second_swing = second,
                     el_price = dhalf (dadd (sw_price first) (sw_price second)),
                     el_tolerance = tolerance\<rparr>]
              else []))"

definition detect_equal_levels ::
  "swing list \<Rightarrow> dec option list \<Rightarrow> dec \<Rightarrow> int \<Rightarrow> equal_level list res" where
  "detect_equal_levels ss atrs tolerance_ratio max_separation =
     rbind (raise_if (tolerance_ratio < 0) (ValueError ''tolerance_ratio cannot be negative'')) (\<lambda>_.
     rbind (raise_if (max_separation < 1) (ValueError ''max_separation must be positive'')) (\<lambda>_.
     Inr (sort_key (\<lambda>l. sw_confirmation_index (el_second_swing l))
       (concat (map (\<lambda>kind. concat (map (equal_level_pair kind atrs tolerance_ratio max_separation)
            (pairwise_list (sort_key sw_index (filter (\<lambda>s. sw_kind s = kind) ss)))))
          [High, Low])))))"

section \<open>No detector raises on its own inputs\<close>

lemma detect_displacements_total:
  assumes "1 \<le> range_period" "length cs \<le> length atrs"
  shows "returns (detect_displacements cs atrs range_period a b k)"
proof -
  obtain ms where ms: "rolling_mean (map range_size cs) range_period = Inr ms"
    using assms(1) by (auto simp: rolling_mean_def)
  have len: "length ms = length cs" using rolling_mean_length [OF ms] by simp
  have "\<exists>ds. traverse (\<lambda>(i, c). rbind (py_nth atrs i) (\<lambda>atr. rbind (py_nth ms i) (\<lambda>average_range.
      Inr (displacement_at a b k i c atr average_range)))) (enumerate0 cs) = Inr ds"
    by (rule traverse_total) (use assms(2) len in auto)
  then show ?thesis by (auto simp: detect_displacements_def ms)
qed

lemma detect_fair_value_gaps_total:
  assumes "0 \<le> r" "length cs \<le> length atrs"
  shows "returns (detect_fair_value_gaps cs atrs r)"
proof -
  have "\<exists>gs. traverse (\<lambda>i. rbind (py_nth atrs i) (\<lambda>atr.
      Inr (case new_gap cs r i atr of None \<Rightarrow> [] | Some g \<Rightarrow> [resolve_gap g cs]))) [2..<length cs] = Inr gs"
    by (rule traverse_total) (use assms(2) in auto)
  then show ?thesis using assms(1) by (auto simp: detect_fair_value_gaps_def)
qed

lemma find_candle_total:
  "\<forall>i \<in> set is. i < length cs \<Longrightarrow> \<exists>r. find_candle cs dir is = Inr r"
  by (induction \<open>is\<close>) auto

lemma find_candle_Some:
  "find_candle cs dir is = Inr (Some i) \<Longrightarrow>
     \<exists>as bs. is = as @ i # bs \<and> i < length cs \<and> candle_direction (cs ! i) = Some dir \<and>
       (\<forall>j \<in> set as. candle_direction (cs ! j) \<noteq> Some dir)"
proof (induction \<open>is\<close>)
  case (Cons j js)
  then have j: "j < length cs" by auto
  show ?case
  proof (cases "candle_direction (cs ! j) = Some dir")
    case True
    with Cons.prems j show ?thesis by (intro exI [of _ "[]"] exI [of _ js]) auto
  next
    case False
    with Cons.prems j have "find_candle cs dir js = Inr (Some i)" by auto
    from Cons.IH [OF this] obtain as bs where "js = as @ i # bs" "i < length cs"
      "candle_direction (cs ! i) = Some dir" "\<forall>j \<in> set as. candle_direction (cs ! j) \<noteq> Some dir" by blast
    with False show ?thesis by (intro exI [of _ "j # as"] exI [of _ bs]) auto
  qed
qed simp

lemma detect_order_blocks_total:
  assumes "1 \<le> lookback" "\<forall>e \<in> set breaks. sb_index e < length cs"
  shows "returns (detect_order_blocks cs breaks ds lookback)"
proof -
  let ?m = "foldl (\<lambda>m d. m(dp_index d \<mapsto> d)) Map.empty ds"
  have "\<exists>t. foldM (order_block_step cs ?m (nat lookback)) ([], {}) breaks = Inr t \<and> True"
  proof (rule foldM_total)
    fix st e assume "e \<in> set breaks"
    then have "\<forall>i \<in> set (rev [sb_index e - nat lookback..<sb_index e]). i < length cs"
      using assms(2) by auto
    from find_candle_total [OF this, of "opposite_direction (sb_direction e)"]
    obtain r where r: "find_candle cs (opposite_direction (sb_direction e))
      (rev [sb_index e - nat lookback..<sb_index e]) = Inr r" by blast
    show "\<exists>st'. order_block_step cs ?m (nat lookback) st e = Inr st' \<and> True"
      unfolding order_block_step_def r
      by (cases "?m (sb_index e)"; cases r) simp_all
  qed simp
  then show ?thesis using assms(1) by (auto simp: detect_order_blocks_def Let_def)
qed

section \<open>Displacements are strong directional candles\<close>

lemma detect_displacements_mem:
  assumes "detect_displacements cs atrs rp a b k = Inr ds" "d \<in> set ds"
  obtains i atr avg where "i < length cs" "i < length atrs" "d \<in> set (displacement_at a b k i (cs ! i) (atrs ! i) avg)"
proof -
  from assms(1) obtain ms dss where ms: "rolling_mean (map range_size cs) rp = Inr ms"
    and t: "traverse (\<lambda>(i, c). rbind (py_nth atrs i) (\<lambda>atr. rbind (py_nth ms i) (\<lambda>m.
      Inr (displacement_at a b k i c atr m)))) (enumerate0 cs) = Inr dss" and ds: "ds = concat dss"
    by (auto simp: detect_displacements_def)
  from assms(2) ds obtain xs where "xs \<in> set dss" "d \<in> set xs" by auto
  with traverse_set [OF t] that show ?thesis by fastforce
qed

lemma displacement_spec:
  assumes "detect_displacements cs atrs rp a b k = Inr ds" "d \<in> set ds"
  shows "dp_index d < length cs" "candle_direction (cs ! dp_index d) = Some (dp_direction d)"
    "atrs ! dp_index d = Some (dp_atr d)" "dmul (dp_atr d) a \<le> dp_body_size d"
    "dmul (dp_average_range d) b \<le> dp_range_size d" "dp_body_size d = body_size (cs ! dp_index d)"
    "k \<le> close_position (dp_direction d) (cs ! dp_index d)"
proof -
  obtain i atr avg where "i < length cs" "d \<in> set (displacement_at a b k i (cs ! i) (atrs ! i) avg)"
    by (rule detect_displacements_mem [OF assms])
  then show "dp_index d < length cs" "candle_direction (cs ! dp_index d) = Some (dp_direction d)"
    "atrs ! dp_index d = Some (dp_atr d)" "dmul (dp_atr d) a \<le> dp_body_size d"
    "dmul (dp_average_range d) b \<le> dp_range_size d" "dp_body_size d = body_size (cs ! dp_index d)"
    "k \<le> close_position (dp_direction d) (cs ! dp_index d)"
    by (auto simp: displacement_at_def split: option.splits if_splits)
qed

section \<open>The life of a zone\<close>

lemma find_map_pair:
  "List.find (\<lambda>(i, c). P c) (map (\<lambda>i. (i, f i)) is) = map_option (\<lambda>i. (i, f i)) (List.find (\<lambda>i. P (f i)) is)"
  by (induction \<open>is\<close>) auto

lemma resolve_gap_loop_eq:
  "resolve_gap_loop dir lower upper xs status touch =
     (let fill = List.find (\<lambda>(i, c). gap_fills dir lower upper c) xs;
          hit = List.find (\<lambda>(i, c). gap_fills dir lower upper c \<or> gap_touches dir lower upper c) xs
      in (if fill \<noteq> None then Filled else if hit \<noteq> None then Partially_Filled else status,
          (case touch of None \<Rightarrow> map_option fst hit | Some _ \<Rightarrow> touch), map_option fst fill))"
  by (induction xs arbitrary: status touch)
    (auto simp: Let_def or_else_def split: option.splits)

definition gap_settled :: "candle list \<Rightarrow> fair_value_gap \<Rightarrow> bool" where
  "gap_settled cs g \<longleftrightarrow>
     (let after = [fvg_created_index g + 1..<length cs];
          fills = (\<lambda>j. gap_fills (fvg_direction g) (fvg_lower g) (fvg_upper g) (cs ! j));
          touches = (\<lambda>j. gap_touches (fvg_direction g) (fvg_lower g) (fvg_upper g) (cs ! j))
      in fvg_resolved g = List.find fills after \<and>
         fvg_first_touch g = List.find (\<lambda>j. fills j \<or> touches j) after \<and>
         fvg_status g = (if fvg_resolved g \<noteq> None then Filled
           else if fvg_first_touch g \<noteq> None then Partially_Filled else Zone_Open))"

lemma resolve_gap_settled:
  assumes "fvg_status g = Zone_Open" shows "gap_settled cs (resolve_gap g cs)"
  using assms
  by (simp add: gap_settled_def resolve_gap_def resolve_gap_loop_eq later_candles_def Let_def
      find_map_pair option.map_comp comp_def option.map_ident del: upt_Suc)

lemma resolve_gap_frame [simp]:
  "fvg_direction (resolve_gap g cs) = fvg_direction g" "fvg_lower (resolve_gap g cs) = fvg_lower g"
  "fvg_upper (resolve_gap g cs) = fvg_upper g" "fvg_created_index (resolve_gap g cs) = fvg_created_index g"
  "fvg_start_index (resolve_gap g cs) = fvg_start_index g" "fvg_created_at (resolve_gap g cs) = fvg_created_at g"
  by (simp_all add: resolve_gap_def split: prod.splits)

lemma detect_fair_value_gaps_mem:
  assumes "detect_fair_value_gaps cs atrs r = Inr gs"
  shows "g \<in> set gs \<longleftrightarrow> (\<exists>i g0. 2 \<le> i \<and> i < length cs \<and> new_gap cs r i (atrs ! i) = Some g0 \<and>
    g = resolve_gap g0 cs)"
proof -
  let ?f = "\<lambda>i. rbind (py_nth atrs i) (\<lambda>atr.
      Inr (case new_gap cs r i atr of None \<Rightarrow> [] | Some g \<Rightarrow> [resolve_gap g cs]))"
  from assms obtain gss where t: "traverse ?f [2..<length cs] = Inr gss" and gs: "gs = concat gss"
    by (auto simp: detect_fair_value_gaps_def)
  have eq: "gss = map (\<lambda>i. case new_gap cs r i (atrs ! i) of None \<Rightarrow> [] | Some g \<Rightarrow> [resolve_gap g cs]) is"
    if "traverse ?f is = Inr gss" for gss "is"
    using that by (induction \<open>is\<close> arbitrary: gss) auto
  have opt: "g \<in> set (case x of None \<Rightarrow> [] | Some g0 \<Rightarrow> [resolve_gap g0 cs]) \<longleftrightarrow>
      (\<exists>g0. x = Some g0 \<and> g = resolve_gap g0 cs)" for x by (cases x) auto
  show ?thesis unfolding gs eq [OF t] by (simp add: opt Bex_def conj_assoc eq_commute [of "Some _"])
qed

lemma fair_value_gap_spec:
  assumes "detect_fair_value_gaps cs atrs r = Inr gs" "g \<in> set gs"
  shows "fvg_lower g < fvg_upper g" "fvg_created_index g < length cs"
    "fvg_start_index g + 2 = fvg_created_index g" "gap_settled cs g"
    "fvg_direction g = Bullish \<Longrightarrow> fvg_lower g = c_high (cs ! fvg_start_index g) \<and>
       fvg_upper g = c_low (cs ! fvg_created_index g)"
    "fvg_direction g = Bearish \<Longrightarrow> fvg_lower g = c_high (cs ! fvg_created_index g) \<and>
       fvg_upper g = c_low (cs ! fvg_start_index g)"
    "\<exists>a. atrs ! fvg_created_index g = Some a \<and> dmul a r \<le> fvg_size g"
proof -
  from assms(2) obtain i g0 where i: "2 \<le> i" "i < length cs" and n: "new_gap cs r i (atrs ! i) = Some g0"
    and g: "g = resolve_gap g0 cs" unfolding detect_fair_value_gaps_mem [OF assms(1)] by blast
  from n have "fvg_status g0 = Zone_Open"
    by (auto simp: new_gap_def split: option.splits prod.splits if_splits)
  then show "gap_settled cs g" unfolding g by (rule resolve_gap_settled)
  from n i show "fvg_lower g < fvg_upper g" "fvg_created_index g < length cs"
    "fvg_start_index g + 2 = fvg_created_index g"
    "fvg_direction g = Bullish \<Longrightarrow> fvg_lower g = c_high (cs ! fvg_start_index g) \<and>
       fvg_upper g = c_low (cs ! fvg_created_index g)"
    "fvg_direction g = Bearish \<Longrightarrow> fvg_lower g = c_high (cs ! fvg_created_index g) \<and>
       fvg_upper g = c_low (cs ! fvg_start_index g)"
    "\<exists>a. atrs ! fvg_created_index g = Some a \<and> dmul a r \<le> fvg_size g"
    by (auto simp: g new_gap_def gap_bounds_def fvg_size_def split: option.splits prod.splits if_splits)
qed

text \<open>What a later analysis recorded before candle \<open>n\<close>: an index that was found before \<open>n\<close> is known,
  a later one is not yet.\<close>

definition known_before :: "nat \<Rightarrow> nat option \<Rightarrow> nat option" where
  "known_before n x = (case x of None \<Rightarrow> None | Some i \<Rightarrow> if i < n then Some i else None)"

lemma find_takeWhile:
  "sorted xs \<Longrightarrow> List.find P (takeWhile (\<lambda>j. j < n) xs) = known_before n (List.find P xs)"
proof (induction xs)
  case (Cons x xs)
  have "known_before n (List.find P xs) = None" if "\<not> x < n"
    using that Cons.prems find_Some_iff [of P xs]
    by (auto simp: known_before_def split: option.splits dest!: nth_mem)
  with Cons show ?case by (auto simp: known_before_def)
qed (simp add: known_before_def)

lemma upt_takeWhile: "[a..<n] = takeWhile (\<lambda>j. j < n) [a..<m]" if "n \<le> m" for a n m :: nat
proof (cases "a \<le> n")
  case True
  with that have "[a..<m] = [a..<n] @ [n..<m]" by (metis le_iff_add upt_add_eq_append)
  moreover have "takeWhile (\<lambda>j. j < n) [n..<m] = []" by (cases "n < m") (simp_all add: upt_conv_Cons)
  ultimately show ?thesis by (simp add: takeWhile_append)
qed (cases "a < m"; simp add: upt_conv_Cons)

lemma find_upt_known: "n \<le> m \<Longrightarrow> List.find P [a..<n] = known_before n (List.find P [a..<m])"
  by (simp add: upt_takeWhile find_takeWhile)

lemma takeWhile_commute: "takeWhile P (takeWhile Q xs) = takeWhile Q (takeWhile P xs)"
  by (induction xs) auto

lemma find_alive_known:
  assumes "n \<le> m"
  shows "List.find P (takeWhile Q [a..<n]) = known_before n (List.find P (takeWhile Q [a..<m]))"
proof -
  have "sorted (takeWhile Q [a..<m])" by (metis sorted_upt takeWhile_eq_take sorted_wrt_take)
  then show ?thesis
    using assms by (simp add: upt_takeWhile takeWhile_commute [of Q] find_takeWhile)
qed

text \<open>The gap a later analysis reports, as it stood when \<open>n\<close> candles had closed.\<close>

definition gap_as_of :: "nat \<Rightarrow> fair_value_gap \<Rightarrow> fair_value_gap" where
  "gap_as_of n g =
     (let touch = known_before n (fvg_first_touch g); resolved = known_before n (fvg_resolved g) in
      g\<lparr>fvg_status := (if resolved \<noteq> None then Filled else if touch \<noteq> None then Partially_Filled else Zone_Open),
        fvg_first_touch := touch, fvg_resolved := resolved\<rparr>)"

lemma resolve_gap_take:
  assumes "fvg_status g = Zone_Open" "n \<le> length cs"
  shows "resolve_gap g (take n cs) = gap_as_of n (resolve_gap g cs)"
proof -
  let ?fills = "\<lambda>cs j. gap_fills (fvg_direction g) (fvg_lower g) (fvg_upper g) (cs ! j)"
  let ?hits = "\<lambda>cs j. ?fills cs j \<or> gap_touches (fvg_direction g) (fvg_lower g) (fvg_upper g) (cs ! j)"
  let ?a = "fvg_created_index g + 1" and ?n = "length (take n cs)"
  note 1 = resolve_gap_settled [OF assms(1), of "take n cs", unfolded gap_settled_def Let_def, simplified resolve_gap_frame]
  note 2 = resolve_gap_settled [OF assms(1), of cs, unfolded gap_settled_def Let_def, simplified resolve_gap_frame]
  have n: "?n = n" using assms(2) by simp
  have same: "List.find (?fills (take n cs)) [?a..<?n] = List.find (?fills cs) [?a..<n]"
    "List.find (?hits (take n cs)) [?a..<?n] = List.find (?hits cs) [?a..<n]"
    unfolding n by (rule find_cong; simp)+
  have touch: "fvg_first_touch (resolve_gap g (take n cs)) = known_before n (fvg_first_touch (resolve_gap g cs))"
    and res: "fvg_resolved (resolve_gap g (take n cs)) = known_before n (fvg_resolved (resolve_gap g cs))"
    using 1 2 same find_upt_known [OF assms(2)] by simp_all
  moreover have "fvg_status (resolve_gap g (take n cs)) = fvg_status (gap_as_of n (resolve_gap g cs))"
    using 1 touch res by (simp add: gap_as_of_def Let_def)
  ultimately show ?thesis
    by (simp add: gap_as_of_def Let_def resolve_gap_def split: prod.splits)
qed

text \<open>A filled gap stays as it is whatever candles follow.\<close>

lemma find_upt_extend:
  "List.find P [a..<n] = Some j \<Longrightarrow> n \<le> m \<Longrightarrow> List.find P [a..<m] = Some j"
proof -
  assume f: "List.find P [a..<n] = Some j" and nm: "n \<le> m"
  then have "a \<le> n" by (cases "a \<le> n") auto
  with nm have "[a..<m] = [a..<n] @ [n..<m]" by (metis le_iff_add upt_add_eq_append)
  moreover have "List.find P (xs @ ys) = Some j" if "List.find P xs = Some j" for xs ys
    using that by (induction xs) auto
  ultimately show ?thesis using f by simp
qed

lemma filled_gap_stays:
  assumes "fvg_status g = Zone_Open" "fvg_status (resolve_gap g (take n cs)) = Filled"
  shows "resolve_gap g cs = resolve_gap g (take n cs)"
proof -
  let ?fills = "\<lambda>cs j. gap_fills (fvg_direction g) (fvg_lower g) (fvg_upper g) (cs ! j)"
  let ?hits = "\<lambda>cs j. ?fills cs j \<or> gap_touches (fvg_direction g) (fvg_lower g) (fvg_upper g) (cs ! j)"
  let ?a = "fvg_created_index g + 1" and ?m = "length (take n cs)"
  note 1 = resolve_gap_settled [OF assms(1), of "take n cs", unfolded gap_settled_def Let_def, simplified resolve_gap_frame]
  note 2 = resolve_gap_settled [OF assms(1), of cs, unfolded gap_settled_def Let_def, simplified resolve_gap_frame]
  have same: "List.find (?fills (take n cs)) [?a..<?m] = List.find (?fills cs) [?a..<?m]"
    "List.find (?hits (take n cs)) [?a..<?m] = List.find (?hits cs) [?a..<?m]"
    by (rule find_cong; simp)+
  from 1 assms(2) obtain j where j: "List.find (?fills cs) [?a..<?m] = Some j"
    unfolding same [symmetric] by (auto split: if_splits)
  then obtain k where k: "List.find (?hits cs) [?a..<?m] = Some k"
    by (metis (no_types, lifting) find_None_iff find_Some_iff nth_mem option.exhaust)
  have m: "?m \<le> length cs" by simp
  have r: "fvg_resolved (resolve_gap g cs) = fvg_resolved (resolve_gap g (take n cs))"
    "fvg_first_touch (resolve_gap g cs) = fvg_first_touch (resolve_gap g (take n cs))"
    using 1 2 same j k find_upt_extend [OF j m] find_upt_extend [OF k m] by simp_all
  moreover have "fvg_status (resolve_gap g cs) = fvg_status (resolve_gap g (take n cs))"
    using 1 2 r by presburger
  ultimately show ?thesis by (simp add: resolve_gap_def split: prod.splits)
qed

lemma resolve_block_loop_eq:
  "resolve_block_loop dir lower upper xs status touch =
     (let broken = List.find (\<lambda>(i, c). block_broken dir lower upper c) xs;
          alive = takeWhile (\<lambda>(i, c). \<not> block_broken dir lower upper c) xs;
          hit = List.find (\<lambda>(i, c). block_touched dir lower upper c) alive
      in (if broken \<noteq> None then Invalidated
          else if touch = None \<and> hit \<noteq> None then Partially_Filled else status,
          (case touch of None \<Rightarrow> map_option fst hit | Some _ \<Rightarrow> touch), map_option fst broken))"
  by (induction xs arbitrary: status touch) (auto simp: Let_def split: option.splits)

definition block_settled :: "candle list \<Rightarrow> order_block \<Rightarrow> bool" where
  "block_settled cs b \<longleftrightarrow>
     (let broken = (\<lambda>j. block_broken (ob_direction b) (ob_lower b) (ob_upper b) (cs ! j));
          touched = (\<lambda>j. block_touched (ob_direction b) (ob_lower b) (ob_upper b) (cs ! j));
          after = [ob_created_index b + 1..<length cs]
      in ob_invalidated b = List.find broken after \<and>
         ob_first_touch b = List.find touched (takeWhile (\<lambda>j. \<not> broken j) after) \<and>
         ob_status b = (if ob_invalidated b \<noteq> None then Invalidated
           else if ob_first_touch b \<noteq> None then Partially_Filled else Zone_Open))"

lemma takeWhile_map_pair:
  "takeWhile (\<lambda>(i, c). P c) (map (\<lambda>i. (i, f i)) is) = map (\<lambda>i. (i, f i)) (takeWhile (\<lambda>i. P (f i)) is)"
  by (induction \<open>is\<close>) auto

lemma resolve_order_block_settled:
  assumes "ob_status b = Zone_Open" shows "block_settled cs (resolve_order_block b cs)"
  using assms
  by (simp add: block_settled_def resolve_order_block_def resolve_block_loop_eq later_candles_def
      Let_def find_map_pair takeWhile_map_pair option.map_comp comp_def option.map_ident del: upt_Suc)

lemma resolve_order_block_frame [simp]:
  "ob_direction (resolve_order_block b cs) = ob_direction b" "ob_lower (resolve_order_block b cs) = ob_lower b"
  "ob_upper (resolve_order_block b cs) = ob_upper b" "ob_candle_index (resolve_order_block b cs) = ob_candle_index b"
  "ob_created_index (resolve_order_block b cs) = ob_created_index b"
  "ob_break_event (resolve_order_block b cs) = ob_break_event b"
  by (simp_all add: resolve_order_block_def split: prod.splits)

text \<open>An order block is the last candle against the break, inside the search window, of a break
  that coincides with a displacement in its direction.\<close>

definition block_justified ::
  "candle list \<Rightarrow> structure_break list \<Rightarrow> displacement list \<Rightarrow> nat \<Rightarrow> order_block \<Rightarrow> bool" where
  "block_justified cs breaks ds lookback b \<longleftrightarrow>
     (let e = ob_break_event b; j = ob_candle_index b; i = ob_created_index b in
      e \<in> set breaks \<and> i = sb_index e \<and> ob_direction b = sb_direction e \<and>
      (\<exists>d \<in> set ds. dp_index d = i \<and> dp_direction d = sb_direction e) \<and>
      j < i \<and> i \<le> j + lookback \<and>
      candle_direction (cs ! j) = Some (opposite_direction (ob_direction b)) \<and>
      (\<forall>m. j < m \<and> m < i \<longrightarrow> candle_direction (cs ! m) \<noteq> Some (opposite_direction (ob_direction b))) \<and>
      ob_lower b = c_low (cs ! j) \<and> ob_upper b = c_high (cs ! j) \<and> block_settled cs b)"

lemma displacement_dict:
  "foldl (\<lambda>m d. m(dp_index d \<mapsto> d)) Map.empty ds i = Some d \<Longrightarrow> d \<in> set ds \<and> dp_index d = i"
proof (induction ds rule: rev_induct)
  case (snoc x ds)
  then show ?case by (cases "dp_index x = i") simp_all
qed simp

lemma rev_upt_split:
  assumes "rev [a..<n] = as @ j # bs"
  shows "a \<le> j" "j < n" "\<And>m. j < m \<Longrightarrow> m < n \<Longrightarrow> m \<in> set as"
proof -
  have eq: "[a..<n] = rev bs @ j # rev as" using arg_cong [OF assms, of rev] by simp
  then have j: "j \<in> set [a..<n]" by simp
  then show "a \<le> j" "j < n" by auto
  fix m assume m: "j < m" "m < n"
  then have "m \<in> set [a..<n]" using j by auto
  moreover have "m \<notin> set bs"
  proof
    assume "m \<in> set bs"
    moreover have "sorted_wrt (<) (rev bs @ j # rev as)" unfolding eq [symmetric] by (rule sorted_wrt_upt)
    ultimately have "m < j" by (auto simp: sorted_wrt_append)
    with m(1) show False by simp
  qed
  ultimately show "m \<in> set as" using eq m(1) by auto
qed

definition blocks_inv ::
  "candle list \<Rightarrow> structure_break list \<Rightarrow> displacement list \<Rightarrow> nat \<Rightarrow>
   order_block list \<times> (direction \<times> nat) set \<Rightarrow> bool" where
  "blocks_inv cs breaks ds lookback st \<longleftrightarrow>
     (\<forall>b \<in> set (fst st). block_justified cs breaks ds lookback b) \<and>
     distinct (map (\<lambda>b. (ob_direction b, ob_candle_index b)) (fst st)) \<and>
     snd st = (\<lambda>b. (ob_direction b, ob_candle_index b)) ` set (fst st)"

lemma order_block_step_inv:
  assumes inv: "blocks_inv cs breaks ds lookback st" and e: "e \<in> set breaks"
    and step: "order_block_step cs (foldl (\<lambda>m d. m(dp_index d \<mapsto> d)) Map.empty ds) lookback st e = Inr st'"
  shows "blocks_inv cs breaks ds lookback st'"
proof (cases "st' = st")
  case False
  let ?m = "foldl (\<lambda>m d. m(dp_index d \<mapsto> d)) Map.empty ds"
  let ?opp = "opposite_direction (sb_direction e)"
  from step False obtain d where d: "?m (sb_index e) = Some d" and dir: "dp_direction d = sb_direction e"
    by (auto simp: order_block_step_def split: option.splits if_splits)
  with step False obtain j where
    j: "find_candle cs ?opp (rev [sb_index e - lookback..<sb_index e]) = Inr (Some j)"
    and fresh: "(sb_direction e, j) \<notin> snd st"
    and st': "st' = (fst st @ [resolve_order_block (new_block e j (cs ! j)) cs], insert (sb_direction e, j) (snd st))"
    by (auto simp: order_block_step_def split: option.splits if_splits)
  define b where "b = resolve_order_block (new_block e j (cs ! j)) cs"
  have frame: "ob_direction b = sb_direction e" "ob_candle_index b = j" "ob_created_index b = sb_index e"
    "ob_break_event b = e" "ob_lower b = c_low (cs ! j)" "ob_upper b = c_high (cs ! j)"
    by (simp_all add: b_def new_block_def)
  have settled: "block_settled cs b" unfolding b_def by (rule resolve_order_block_settled) (simp add: new_block_def)
  from find_candle_Some [OF j] obtain as bs where
    s: "rev [sb_index e - lookback..<sb_index e] = as @ j # bs"
    and cj: "candle_direction (cs ! j) = Some ?opp"
    and before: "\<forall>m \<in> set as. candle_direction (cs ! m) \<noteq> Some ?opp" by blast
  note window = rev_upt_split [OF s]
  have "block_justified cs breaks ds lookback b"
    unfolding block_justified_def Let_def frame
    using e displacement_dict [OF d] dir window(1,2) cj settled before window(3) by auto
  with inv fresh show ?thesis
    unfolding blocks_inv_def st' b_def [symmetric] by (auto simp: frame)
qed (use inv in simp)

lemma order_blocks_inv:
  assumes "detect_order_blocks cs breaks ds lookback = Inr bs"
  shows "blocks_inv cs breaks ds (nat lookback)
    (bs, (\<lambda>b. (ob_direction b, ob_candle_index b)) ` set bs)"
proof -
  from assms obtain used where
    f: "foldM (order_block_step cs (foldl (\<lambda>m d. m(dp_index d \<mapsto> d)) Map.empty ds) (nat lookback)) ([], {}) breaks
        = Inr (bs, used)"
    by (auto simp: detect_order_blocks_def Let_def)
  have "blocks_inv cs breaks ds (nat lookback) (bs, used)"
    by (rule foldM_invariant [OF f]) (simp add: blocks_inv_def, rule order_block_step_inv)
  then show ?thesis by (simp add: blocks_inv_def)
qed

section \<open>Order blocks as they stood earlier\<close>

definition block_as_of :: "nat \<Rightarrow> order_block \<Rightarrow> order_block" where
  "block_as_of n b =
     (let touch = known_before n (ob_first_touch b); broken = known_before n (ob_invalidated b) in
      b\<lparr>ob_status := (if broken \<noteq> None then Invalidated else if touch \<noteq> None then Partially_Filled else Zone_Open),
        ob_first_touch := touch, ob_invalidated := broken\<rparr>)"

lemma resolve_order_block_take:
  assumes "ob_status b = Zone_Open" "n \<le> length cs"
  shows "resolve_order_block b (take n cs) = block_as_of n (resolve_order_block b cs)"
proof -
  let ?broken = "\<lambda>cs j. block_broken (ob_direction b) (ob_lower b) (ob_upper b) (cs ! j)"
  let ?touched = "\<lambda>cs j. block_touched (ob_direction b) (ob_lower b) (ob_upper b) (cs ! j)"
  let ?a = "ob_created_index b + 1" and ?n = "length (take n cs)"
  note 1 = resolve_order_block_settled [OF assms(1), of "take n cs", unfolded block_settled_def Let_def,
      simplified resolve_order_block_frame]
  note 2 = resolve_order_block_settled [OF assms(1), of cs, unfolded block_settled_def Let_def,
      simplified resolve_order_block_frame]
  have n: "?n = n" using assms(2) by simp
  have alive: "takeWhile (\<lambda>j. \<not> ?broken (take n cs) j) [?a..<n] = takeWhile (\<lambda>j. \<not> ?broken cs j) [?a..<n]"
    by (rule takeWhile_cong) simp_all
  have same: "List.find (?broken (take n cs)) [?a..<?n] = List.find (?broken cs) [?a..<n]"
    "List.find (?touched (take n cs)) (takeWhile (\<lambda>j. \<not> ?broken (take n cs) j) [?a..<?n]) =
       List.find (?touched cs) (takeWhile (\<lambda>j. \<not> ?broken cs j) [?a..<n])"
    unfolding n alive by (rule find_cong; auto dest!: set_takeWhileD)+
  have touch: "ob_first_touch (resolve_order_block b (take n cs)) =
      known_before n (ob_first_touch (resolve_order_block b cs))"
    and res: "ob_invalidated (resolve_order_block b (take n cs)) =
      known_before n (ob_invalidated (resolve_order_block b cs))"
    using 1 2 same find_upt_known [OF assms(2)] find_alive_known [OF assms(2)] by simp_all
  moreover have "ob_status (resolve_order_block b (take n cs)) = ob_status (block_as_of n (resolve_order_block b cs))"
    using 1 touch res by (simp add: block_as_of_def Let_def)
  ultimately show ?thesis
    by (simp add: block_as_of_def Let_def resolve_order_block_def split: prod.splits)
qed

lemma find_candle_take:
  "n \<le> length cs \<Longrightarrow> \<forall>i \<in> set is. i < n \<Longrightarrow> find_candle (take n cs) dir is = find_candle cs dir is"
  by (induction \<open>is\<close>) (auto simp: py_nth_def)

lemma order_block_step_take:
  assumes "n \<le> length cs" "sb_index e < n" "m' (sb_index e) = m (sb_index e)"
  shows "order_block_step (take n cs) m' k (map (block_as_of n) bs, used) e =
    rmap (apfst (map (block_as_of n))) (order_block_step cs m k (bs, used) e)"
proof -
  have find: "find_candle (take n cs) dir (rev [sb_index e - k..<sb_index e]) =
      find_candle cs dir (rev [sb_index e - k..<sb_index e])" for dir
    by (rule find_candle_take) (use assms in auto)
  have "resolve_order_block (new_block e j (take n cs ! j)) (take n cs) =
      block_as_of n (resolve_order_block (new_block e j (cs ! j)) cs)" if "j < n" for j
    using resolve_order_block_take [OF _ assms(1), of "new_block e j (cs ! j)"] that
    by (simp add: new_block_def)
  moreover have "j < n" if "find_candle cs dir (rev [sb_index e - k..<sb_index e]) = Inr (Some j)" for dir j
    using find_candle_Some [OF that] assms(2) rev_upt_split(2) by fastforce
  ultimately have new: "resolve_order_block (new_block e j (take n cs ! j)) (take n cs) =
      block_as_of n (resolve_order_block (new_block e j (cs ! j)) cs)"
    if "find_candle cs (opposite_direction (sb_direction e)) (rev [sb_index e - k..<sb_index e]) = Inr (Some j)" for j
    using that by blast
  show ?thesis
  proof (cases "find_candle cs (opposite_direction (sb_direction e)) (rev [sb_index e - k..<sb_index e])")
    case (Inr r)
    then show ?thesis using new
      by (cases "m (sb_index e)"; cases r) (simp_all add: order_block_step_def find assms(3) rmap_def)
  qed (cases "m (sb_index e)"; simp add: order_block_step_def find assms(3) rmap_def)
qed

lemma order_blocks_fold_take:
  assumes "n \<le> length cs" "\<forall>e \<in> set es. sb_index e < n \<and> m' (sb_index e) = m (sb_index e)"
  shows "foldM (order_block_step (take n cs) m' k) (map (block_as_of n) bs, used) es =
    rmap (apfst (map (block_as_of n))) (foldM (order_block_step cs m k) (bs, used) es)"
  using assms(2)
proof (induction es arbitrary: bs used)
  case (Cons e es)
  have step: "order_block_step (take n cs) m' k (map (block_as_of n) bs, used) e =
      rmap (apfst (map (block_as_of n))) (order_block_step cs m k (bs, used) e)"
    by (rule order_block_step_take [OF assms(1)]) (use Cons.prems in auto)
  show ?case
  proof (cases "order_block_step cs m k (bs, used) e")
    case (Inr st)
    obtain bs' used' where "st = (bs', used')" by fastforce
    then show ?thesis using Cons step Inr by (simp add: rmap_def)
  qed (simp add: step rmap_def)
qed (simp add: rmap_def)

lemma order_block_step_created:
  assumes "order_block_step cs m k st e = Inr st'"
  obtains new where "fst st' = fst st @ new" "\<forall>b \<in> set new. ob_created_index b = sb_index e"
proof -
  let ?found = "find_candle cs (opposite_direction (sb_direction e)) (rev [sb_index e - k..<sb_index e])"
  have "st' = st \<or> (\<exists>j. fst st' = fst st @ [resolve_order_block (new_block e j (cs ! j)) cs])"
  proof (cases ?found)
    case (Inr r)
    with assms show ?thesis
      by (cases "m (sb_index e)"; cases r) (auto simp: order_block_step_def split: if_splits)
  qed (use assms in \<open>auto simp: order_block_step_def split: option.splits if_splits\<close>)
  then show thesis using that by (fastforce simp: new_block_def)
qed

lemma order_blocks_fold_created:
  assumes "foldM (order_block_step cs m k) st es = Inr st'"
  shows "\<exists>new. fst st' = fst st @ new \<and> ob_created_index ` set new \<subseteq> sb_index ` set es"
  using assms
proof (induction es arbitrary: st)
  case (Cons e es)
  then obtain st1 where s1: "order_block_step cs m k st e = Inr st1"
    and s2: "foldM (order_block_step cs m k) st1 es = Inr st'" by auto
  from order_block_step_created [OF s1] obtain new where
    n1: "fst st1 = fst st @ new" "\<forall>b \<in> set new. ob_created_index b = sb_index e" .
  from Cons.IH [OF s2] obtain new2 where
    n2: "fst st' = fst st1 @ new2" "ob_created_index ` set new2 \<subseteq> sb_index ` set es" by blast
  from n1 n2 show ?case by (intro exI [of _ "new @ new2"]) auto
qed simp

lemma sorted_split_at:
  "sorted (map date xs) \<Longrightarrow> filter (\<lambda>x. date x < n) xs @ filter (\<lambda>x. \<not> date x < n) xs = xs"
  for date :: "'a \<Rightarrow> nat"
proof (induction xs)
  case (Cons x xs)
  have "filter (\<lambda>x. date x < n) xs = []" if "\<not> date x < n"
    using that Cons.prems by (fastforce intro: filter_False)
  with Cons show ?case by auto
qed simp

lemma displacement_dict_filter:
  "i < n \<Longrightarrow> foldl (\<lambda>m d. m(dp_index d \<mapsto> d)) Map.empty (filter (\<lambda>d. dp_index d < n) ds) i =
     foldl (\<lambda>m d. m(dp_index d \<mapsto> d)) Map.empty ds i"
  by (induction ds rule: rev_induct) auto

lemma order_blocks_take:
  assumes full: "detect_order_blocks cs es ds lookback = Inr bs" and n: "n \<le> length cs"
    and sorted: "sorted (map sb_index es)"
  shows "detect_order_blocks (take n cs) (filter (\<lambda>e. sb_index e < n) es) (filter (\<lambda>d. dp_index d < n) ds) lookback =
    Inr (map (block_as_of n) (filter (\<lambda>b. ob_created_index b < n) bs))"
proof -
  let ?m = "foldl (\<lambda>m d. m(dp_index d \<mapsto> d)) Map.empty"
  let ?k = "nat lookback" and ?early = "filter (\<lambda>e. sb_index e < n) es" and ?late = "filter (\<lambda>e. \<not> sb_index e < n) es"
  from full obtain st where l: "1 \<le> lookback" and st: "fst st = bs"
    and f: "foldM (order_block_step cs (?m ds) ?k) ([], {}) (?early @ ?late) = Inr st"
    unfolding sorted_split_at [OF sorted] by (auto simp: detect_order_blocks_def Let_def)
  from f obtain st1 where f1: "foldM (order_block_step cs (?m ds) ?k) ([], {}) ?early = Inr st1"
    and f2: "foldM (order_block_step cs (?m ds) ?k) st1 ?late = Inr st" by (auto simp: foldM_append)
  from order_blocks_fold_created [OF f1] have c1: "\<forall>b \<in> set (fst st1). ob_created_index b < n" by fastforce
  from order_blocks_fold_created [OF f2] st obtain new where
    c2: "bs = fst st1 @ new" "\<forall>b \<in> set new. \<not> ob_created_index b < n" by fastforce
  have "filter (\<lambda>b. ob_created_index b < n) bs = fst st1"
    using c1 c2 by (simp add: filter_False)
  moreover have "foldM (order_block_step (take n cs) (?m (filter (\<lambda>d. dp_index d < n) ds)) ?k) ([], {}) ?early =
      rmap (apfst (map (block_as_of n))) (Inr st1)"
    using order_blocks_fold_take [OF n, of ?early "?m (filter (\<lambda>d. dp_index d < n) ds)" "?m ds" ?k "[]" "{}"]
    by (simp add: displacement_dict_filter f1)
  ultimately show ?thesis using l by (simp add: detect_order_blocks_def Let_def rmap_def)
qed

section \<open>Equal levels pair neighbouring swings\<close>

lemma equal_level_spec:
  assumes "detect_equal_levels ss atrs ratio sep = Inr ls" "l \<in> set ls"
  shows "el_first_swing l \<in> set ss" "el_second_swing l \<in> set ss"
    "sw_kind (el_first_swing l) = el_kind l" "sw_kind (el_second_swing l) = el_kind l"
    "sw_index (el_first_swing l) \<le> sw_index (el_second_swing l)"
    "int (sw_index (el_second_swing l)) - int (sw_index (el_first_swing l)) \<le> sep"
    "dabs (dsub (sw_price (el_second_swing l)) (sw_price (el_first_swing l))) \<le> el_tolerance l"
    "\<exists>a. atrs ! sw_confirmation_index (el_second_swing l) = Some a \<and> el_tolerance l = dmul a ratio"
    "\<And>s. s \<in> set ss \<Longrightarrow> sw_kind s = el_kind l \<Longrightarrow>
       sw_index s \<le> sw_index (el_first_swing l) \<or> sw_index (el_second_swing l) \<le> sw_index s"
proof -
  let ?xs = "\<lambda>kind. sort_key sw_index (filter (\<lambda>s. sw_kind s = kind) ss)"
  from assms obtain kind p where p: "p \<in> set (pairwise_list (?xs kind))"
    and l: "l \<in> set (equal_level_pair kind atrs ratio sep p)"
    by (auto simp: detect_equal_levels_def)
  obtain i where i: "Suc i < length (?xs kind)" "p = (?xs kind ! i, ?xs kind ! Suc i)"
    using in_pairwise_list [of "fst p" "snd p" "?xs kind"] p by (metis prod.collapse)
  have mem: "x \<in> set (?xs kind) \<longleftrightarrow> x \<in> set ss \<and> sw_kind x = kind" for x by auto
  have sorted: "sorted (map sw_index (?xs kind))" by simp
  have ab: "?xs kind ! i \<in> set (?xs kind)" "?xs kind ! Suc i \<in> set (?xs kind)"
    by (rule nth_mem, use i(1) in simp)+
  have le: "sw_index (?xs kind ! m) \<le> sw_index (?xs kind ! n)" if "m \<le> n" "n < length (?xs kind)" for m n
    using sorted_nth_mono [OF sorted, of m n] that by simp
  from l i have eqs: "el_kind l = kind" "el_first_swing l = ?xs kind ! i" "el_second_swing l = ?xs kind ! Suc i"
    by (auto simp: equal_level_pair_def Let_def split: option.splits if_splits)
  from ab show "el_first_swing l \<in> set ss" "el_second_swing l \<in> set ss"
    "sw_kind (el_first_swing l) = el_kind l" "sw_kind (el_second_swing l) = el_kind l"
    unfolding mem eqs by simp_all
  show "sw_index (el_first_swing l) \<le> sw_index (el_second_swing l)" unfolding eqs using i le by simp
  from l i show "int (sw_index (el_second_swing l)) - int (sw_index (el_first_swing l)) \<le> sep"
    "dabs (dsub (sw_price (el_second_swing l)) (sw_price (el_first_swing l))) \<le> el_tolerance l"
    "\<exists>a. atrs ! sw_confirmation_index (el_second_swing l) = Some a \<and> el_tolerance l = dmul a ratio"
    by (auto simp: equal_level_pair_def Let_def split: option.splits if_splits)
  fix s assume "s \<in> set ss" "sw_kind s = el_kind l"
  then have "s \<in> set (?xs kind)" using mem eqs by simp
  then obtain n where n: "n < length (?xs kind)" "s = ?xs kind ! n" by (metis in_set_conv_nth)
  show "sw_index s \<le> sw_index (el_first_swing l) \<or> sw_index (el_second_swing l) \<le> sw_index s"
    unfolding eqs n(2) using le [of n i] le [of "Suc i" n] n(1) i(1) by linarith
qed

text \<open>The levels of an earlier analysis are those whose second swing it had confirmed.\<close>

lemma pairwise_list_filter:
  "sorted (map date ys) \<Longrightarrow>
     pairwise_list (filter (\<lambda>s. date s < n) ys) = filter (\<lambda>p. date (snd p) < n) (pairwise_list ys)"
  for date :: "'a \<Rightarrow> nat"
proof (induction ys rule: induct_list012)
  case (3 x y ys)
  have "filter (\<lambda>s. date s < n) (y # ys) = [] \<and> filter (\<lambda>p. date (snd p) < n) (pairwise_list (y # ys)) = []"
    if "\<not> date y < n"
  proof -
    have "\<forall>s \<in> set (y # ys). \<not> date s < n" using that "3.prems" by fastforce
    moreover from this have "\<forall>p \<in> set (pairwise_list (y # ys)). \<not> date (snd p) < n"
      using in_pairwise_list by (metis nth_mem prod.collapse)
    ultimately show ?thesis by (simp add: filter_empty_conv)
  qed
  then show ?case using 3 by (cases "date y < n") (auto simp: pairwise_list_def)
qed (simp_all add: pairwise_list_def)

lemma equal_level_pair_take:
  assumes "sw_confirmation_index (snd p) < n" "n \<le> length atrs"
  shows "equal_level_pair kind (take n atrs) ratio sep p = equal_level_pair kind atrs ratio sep p"
  using assms by (auto simp: equal_level_pair_def split: prod.splits)

lemma equal_level_pair_second: "l \<in> set (equal_level_pair kind atrs ratio sep p) \<Longrightarrow> el_second_swing l = snd p"
  by (auto simp: equal_level_pair_def Let_def split: prod.splits if_splits option.splits)

lemma concat_map_filter_dated:
  assumes "\<And>x. Q x \<Longrightarrow> g x = f x" "\<And>x e. e \<in> set (f x) \<Longrightarrow> P e \<longleftrightarrow> Q x"
  shows "concat (map g (filter Q xs)) = filter P (concat (map f xs))"
proof (induction xs)
  case (Cons x xs)
  have "filter P (f x) = (if Q x then f x else [])"
    using assms(2) [of _ x] by (auto simp: filter_empty_conv intro!: filter_True)
  then show ?case using Cons assms(1) by simp
qed simp

lemma equal_levels_take:
  assumes full: "detect_equal_levels ss atrs ratio sep = Inr ls" and n: "n \<le> length atrs"
    and lag: "\<forall>s \<in> set ss. sw_confirmation_index s = sw_index s + k"
  shows "detect_equal_levels (filter (\<lambda>s. sw_confirmation_index s < n) ss) (take n atrs) ratio sep =
    Inr (filter (\<lambda>l. sw_confirmation_index (el_second_swing l) < n) ls)"
proof -
  let ?c = sw_confirmation_index
  let ?xs = "\<lambda>kind. sort_key sw_index (filter (\<lambda>s. sw_kind s = kind) ss)"
  let ?of = "\<lambda>atrs xs kind. concat (map (equal_level_pair kind atrs ratio sep) (pairwise_list xs))"
  have kind: "?of (take n atrs) (sort_key sw_index (filter (\<lambda>s. sw_kind s = kind) (filter (\<lambda>s. ?c s < n) ss))) kind =
      filter (\<lambda>l. ?c (el_second_swing l) < n) (?of atrs (?xs kind) kind)" for kind
  proof -
    have "sorted (map (\<lambda>s. sw_index s + k) (?xs kind))"
      using sorted_sort_key [of sw_index "filter (\<lambda>s. sw_kind s = kind) ss"]
      by (auto simp: sorted_map elim!: sorted_wrt_mono_rel [rotated])
    moreover have "map (\<lambda>s. sw_index s + k) (?xs kind) = map ?c (?xs kind)"
      using lag by (intro map_cong) auto
    ultimately have sorted: "sorted (map ?c (?xs kind))" by simp
    have "sort_key sw_index (filter (\<lambda>s. sw_kind s = kind) (filter (\<lambda>s. ?c s < n) ss)) =
        filter (\<lambda>s. ?c s < n) (?xs kind)"
      by (simp add: filter_sort conj_commute)
    then show ?thesis
      by (simp only: pairwise_list_filter [OF sorted])
        (rule concat_map_filter_dated, use n in \<open>auto simp: equal_level_pair_take dest: equal_level_pair_second\<close>)
  qed
  show ?thesis
    using full unfolding detect_equal_levels_def list.map kind concat.simps filter_append [symmetric]
    by (auto simp: filter_sort)
qed

section \<open>Properties\<close>

text \<open>The sample series at a swing lookback of one: its average true ranges over two candles, the swing
  high of the second candle and its break by the fifth.\<close>

definition sample_atrs :: "dec option list" where
  "sample_atrs = [None, Some 2, Some (5/2), Some (9/4), Some (37/8), Some (61/16), Some (109/32), Some (173/64)]"

definition sample_break :: structure_break where
  "sample_break = break_event (Some Bearish) Bullish 4 (sample_series ! 4) (high_swing sample_series 1 1)"

definition sample_levels :: "swing list" where
  "sample_levels = [high_swing sample_series 1 1, (high_swing sample_series 1 4)\<lparr>sw_price := 121/10\<rparr>]"

text \<open>A displacement is a directional candle with a large body for the average true range, a large
  range for the recent average range and a close near its extreme, at the thresholds of the
  configuration.\<close>

theorem displacements_are_strong:
  assumes "detect_displacements cs atrs range_period body_ratio range_ratio close_fraction = Inr ds" "d \<in> set ds"
  shows "dp_index d < length cs \<and> candle_direction (cs ! dp_index d) = Some (dp_direction d) \<and>
    atrs ! dp_index d = Some (dp_atr d) \<and> dp_body_size d = body_size (cs ! dp_index d) \<and>
    dmul (dp_atr d) body_ratio \<le> dp_body_size d \<and>
    dmul (dp_average_range d) range_ratio \<le> dp_range_size d \<and>
    close_fraction \<le> close_position (dp_direction d) (cs ! dp_index d)"
  using displacement_spec [OF assms] by auto

lemma displacements_are_strong_witness:
  "\<exists>d :: displacement. rmap (map dp_index) (detect_displacements sample_series sample_atrs 2 1 (3/2) (7/10)) = Inr [4] \<and>
     dp_index d = 4 \<and> dmul (dp_atr d) 1 \<le> body_size (sample_series ! 4)"
proof -
  have found: "rmap (map dp_index) (detect_displacements sample_series sample_atrs 2 1 (3/2) (7/10)) = Inr [4]"
    unfolding sample_series_def by code_simp
  then obtain ds d where ds: "detect_displacements sample_series sample_atrs 2 1 (3/2) (7/10) = Inr ds" "ds = [d]"
      "dp_index d = 4"
    by (auto simp: rmap_def split: sum.splits)
  show ?thesis
    using displacements_are_strong [OF ds(1), of d] ds found by auto
qed

text \<open>A fair value gap is the empty interval between the wicks of the candles around a middle one,
  at least the configured fraction of the average true range wide; its first touch, its fill and its
  status are those of the first later candle that touches it, respectively trades through it.\<close>

theorem fair_value_gaps_sound:
  assumes "detect_fair_value_gaps cs atrs min_ratio = Inr gs" "g \<in> set gs"
  shows "fvg_lower g < fvg_upper g \<and> fvg_created_index g < length cs \<and>
    fvg_start_index g + 2 = fvg_created_index g \<and> gap_settled cs g \<and>
    (case fvg_direction g of
       Bullish \<Rightarrow> fvg_lower g = c_high (cs ! fvg_start_index g) \<and> fvg_upper g = c_low (cs ! fvg_created_index g)
     | Bearish \<Rightarrow> fvg_lower g = c_high (cs ! fvg_created_index g) \<and> fvg_upper g = c_low (cs ! fvg_start_index g)) \<and>
    (\<exists>a. atrs ! fvg_created_index g = Some a \<and> dmul a min_ratio \<le> fvg_size g)"
  using fair_value_gap_spec [OF assms] by (cases "fvg_direction g") auto

lemma fair_value_gaps_sound_witness:
  "\<exists>g :: fair_value_gap. rmap (map fvg_created_index) (detect_fair_value_gaps sample_series sample_atrs (1/10)) = Inr [5] \<and>
     fvg_created_index g = 5 \<and> fvg_lower g < fvg_upper g \<and> gap_settled sample_series g"
proof -
  have found: "rmap (map fvg_created_index) (detect_fair_value_gaps sample_series sample_atrs (1/10)) = Inr [5]"
    unfolding sample_series_def by code_simp
  then obtain gs g where gs: "detect_fair_value_gaps sample_series sample_atrs (1/10) = Inr gs" "gs = [g]"
      "fvg_created_index g = 5"
    by (auto simp: rmap_def split: sum.splits)
  show ?thesis
    using fair_value_gaps_sound [OF gs(1), of g] gs found by auto
qed

text \<open>A gap that some closed candles have filled is settled: candles that close later change
  nothing about it.\<close>

theorem filled_gap_is_final:
  assumes "fvg_status g = Zone_Open" "fvg_status (resolve_gap g (take n cs)) = Filled"
  shows "resolve_gap g cs = resolve_gap g (take n cs)"
  by (rule filled_gap_stays [OF assms])

definition sample_gap :: fair_value_gap where
  "sample_gap = \<lparr>fvg_direction = Bullish, fvg_start_index = 1, fvg_created_index = 3, fvg_created_at = 0,
     fvg_lower = 9, fvg_upper = 10, fvg_status = Zone_Open, fvg_first_touch = None, fvg_resolved = None\<rparr>"

lemma filled_gap_is_final_witness:
  "fvg_status (resolve_gap sample_gap (take 5 sample_series)) = Filled \<and>
     resolve_gap sample_gap sample_series = resolve_gap sample_gap (take 5 sample_series)"
proof -
  have "fvg_status (resolve_gap sample_gap (take 5 sample_series)) = Filled"
    unfolding sample_series_def by code_simp
  then show ?thesis using filled_gap_is_final [of sample_gap 5 sample_series] by (simp add: sample_gap_def)
qed

text \<open>C8: An order block is the last candle against a structure break that coincides with a displacement,
  inside the search window; its bounds are that candle's wicks; it is tested and invalidated by the
  first later candle that touches it, respectively closes beyond it; and no candle carries two
  blocks of one direction.\<close>

theorem order_blocks_justified:
  assumes "detect_order_blocks cs breaks ds lookback = Inr bs"
  shows "list_all (block_justified cs breaks ds (nat lookback)) bs \<and>
    distinct (map (\<lambda>b. (ob_direction b, ob_candle_index b)) bs)"
  using order_blocks_inv [OF assms] by (simp add: blocks_inv_def list_all_iff)

lemma order_blocks_justified_witness:
  "\<exists>ds bs. detect_displacements sample_series sample_atrs 2 1 (3/2) (7/10) = Inr ds \<and>
     detect_order_blocks sample_series [sample_break] ds 3 = Inr bs \<and> map ob_candle_index bs = [2] \<and>
     list_all (block_justified sample_series [sample_break] ds 3) bs"
proof -
  have "rmap (map ob_candle_index) (rbind (detect_displacements sample_series sample_atrs 2 1 (3/2) (7/10)) (\<lambda>ds.
      detect_order_blocks sample_series [sample_break] ds 3)) = Inr [2]"
    unfolding sample_series_def by code_simp
  then obtain ds bs where ds: "detect_displacements sample_series sample_atrs 2 1 (3/2) (7/10) = Inr ds"
    and bs: "detect_order_blocks sample_series [sample_break] ds 3 = Inr bs" "map ob_candle_index bs = [2]"
    by (auto simp: rmap_def rbind_def split: sum.splits)
  then show ?thesis using order_blocks_justified [OF bs(1)] by auto
qed

text \<open>An equal level pairs two swings of one kind with none of that kind strictly between them, at
  most the configured separation apart, whose prices differ by at most the tolerance, a fraction of
  the average true range at the second swing's confirmation.\<close>

theorem equal_levels_sound:
  assumes "detect_equal_levels ss atrs ratio separation = Inr ls" "l \<in> set ls"
  shows "el_first_swing l \<in> set ss \<and> el_second_swing l \<in> set ss \<and>
    sw_kind (el_first_swing l) = el_kind l \<and> sw_kind (el_second_swing l) = el_kind l \<and>
    sw_index (el_first_swing l) \<le> sw_index (el_second_swing l) \<and>
    int (sw_index (el_second_swing l)) - int (sw_index (el_first_swing l)) \<le> separation \<and>
    dabs (dsub (sw_price (el_second_swing l)) (sw_price (el_first_swing l))) \<le> el_tolerance l \<and>
    (\<exists>a. atrs ! sw_confirmation_index (el_second_swing l) = Some a \<and> el_tolerance l = dmul a ratio) \<and>
    list_all (\<lambda>s. sw_kind s \<noteq> el_kind l \<or> sw_index s \<le> sw_index (el_first_swing l) \<or>
      sw_index (el_second_swing l) \<le> sw_index s) ss"
  using equal_level_spec [OF assms] unfolding list_all_iff by blast

lemma equal_levels_sound_witness:
  "\<exists>l :: equal_level. rmap (map (sw_index \<circ> el_second_swing)) (detect_equal_levels sample_levels sample_atrs (1/10) 10) = Inr [4] \<and>
     el_first_swing l \<in> set sample_levels \<and> el_second_swing l \<in> set sample_levels"
proof -
  have found: "rmap (map (sw_index \<circ> el_second_swing)) (detect_equal_levels sample_levels sample_atrs (1/10) 10) = Inr [4]"
    unfolding sample_levels_def sample_series_def by code_simp
  then obtain ls l where ls: "detect_equal_levels sample_levels sample_atrs (1/10) 10 = Inr ls" "ls = [l]"
    by (auto simp: rmap_def split: sum.splits)
  show ?thesis
    using equal_levels_sound [OF ls(1), of l] ls found by auto
qed

end
