(* ===== verification/Analysis.thy ===== *)
theory Analysis
  imports Zones
begin

text \<open>
  \<open>src/src/smc_core/analysis.py\<close>: \<open>analyze\<close> composes the detectors. Two facts about the
  composition: on a valid series and configuration it always returns, and it is causal, so the
  analysis of the candles closed so far is the part of any later analysis dated so far.
\<close>

definition analyze :: "candle list \<Rightarrow> smc_config option \<Rightarrow> smc_analysis res" where
  "analyze cs config =
     rbind (validate_candle_series cs) (\<lambda>_.
     let settings = (case config of None \<Rightarrow> default_smc_config | Some k \<Rightarrow> k); first = hd cs in
     rbind (average_true_range cs (atr_period settings)) (\<lambda>atr_values.
     rbind (detect_swings cs (swing_lookback settings (c_timeframe first))) (\<lambda>ss.
     let breaks = detect_structure_breaks cs ss; sweeps = detect_liquidity_sweeps cs ss in
     rbind (detect_equal_levels ss atr_values (equal_level_atr_tolerance settings)
       (equal_level_max_separation settings)) (\<lambda>levels.
     rbind (detect_displacements cs atr_values (range_average_period settings)
       (displacement_body_atr_ratio settings) (displacement_range_average_ratio settings)
       (displacement_close_fraction settings)) (\<lambda>displacements.
     rbind (detect_fair_value_gaps cs atr_values (fvg_min_atr_ratio settings)) (\<lambda>gaps.
     rbind (detect_order_blocks cs breaks displacements (order_block_search_lookback settings)) (\<lambda>blocks.
     let dealing = active_dealing_range ss in
     Inr \<lparr>an_symbol = c_symbol first, an_timeframe = c_timeframe first, an_candle_count = length cs,
       an_atr = atr_values, an_swings = ss, an_structure_breaks = breaks,
       an_liquidity_sweeps = sweeps, an_equal_levels = levels, an_displacements = displacements,
       an_fair_value_gaps = gaps, an_order_blocks = blocks, an_dealing_range = dealing,
       an_price_location = map_option (classify_price (c_close (last cs))) dealing\<rparr>)))))))"

abbreviation settings_of :: "smc_config option \<Rightarrow> smc_config" where
  "settings_of config \<equiv> (case config of None \<Rightarrow> default_smc_config | Some k \<Rightarrow> k)"

lemma settings_of_wf:
  "(\<And>k. config = Some k \<Longrightarrow> smc_config_wf k) \<Longrightarrow> smc_config_wf (settings_of config)"
  by (cases config) (simp_all add: default_smc_config_wf)

text \<open>What a successful analysis consists of.\<close>

lemma analyzeD:
  assumes "analyze cs config = Inr a"
  defines "k \<equiv> settings_of config"
  shows "series_wf cs" "an_symbol a = c_symbol (hd cs)" "an_timeframe a = c_timeframe (hd cs)"
    "average_true_range cs (atr_period k) = Inr (an_atr a)"
    "detect_swings cs (swing_lookback k (c_timeframe (hd cs))) = Inr (an_swings a)"
    "an_structure_breaks a = detect_structure_breaks cs (an_swings a)"
    "an_liquidity_sweeps a = detect_liquidity_sweeps cs (an_swings a)"
    "detect_equal_levels (an_swings a) (an_atr a) (equal_level_atr_tolerance k)
       (equal_level_max_separation k) = Inr (an_equal_levels a)"
    "detect_displacements cs (an_atr a) (range_average_period k) (displacement_body_atr_ratio k)
       (displacement_range_average_ratio k) (displacement_close_fraction k) = Inr (an_displacements a)"
    "detect_fair_value_gaps cs (an_atr a) (fvg_min_atr_ratio k) = Inr (an_fair_value_gaps a)"
    "detect_order_blocks cs (an_structure_breaks a) (an_displacements a)
       (order_block_search_lookback k) = Inr (an_order_blocks a)"
    "an_dealing_range a = active_dealing_range (an_swings a)"
    "an_price_location a = map_option (classify_price (c_close (last cs))) (an_dealing_range a)"
    "an_candle_count a = length cs"
  using assms by (auto simp: analyze_def Let_def simp flip: validate_candle_series_iff)

lemma break_inside: "e \<in> set (detect_structure_breaks cs ss) \<Longrightarrow> sb_index e < length cs"
  using breaks_justified by (auto simp: break_justified_def)

lemma analyze_returns:
  assumes "series_wf cs" "\<And>k. config = Some k \<Longrightarrow> smc_config_wf k"
  shows "\<exists>a. analyze cs config = Inr a"
proof -
  define k where "k = settings_of config"
  have wf: "smc_config_wf k" unfolding k_def by (rule settings_of_wf) (rule assms(2))
  note ok = smc_config_wfD [OF wf]
  have v: "validate_candle_series cs = Inr ()" using assms(1) by (simp add: validate_candle_series_iff)
  obtain atrs where atr: "average_true_range cs (atr_period k) = Inr atrs"
    using ok(1) by (auto simp: average_true_range_def Let_def)
  have len: "length atrs = length cs" by (rule average_true_range_length [OF atr])
  obtain ss where ss: "detect_swings cs (swing_lookback k (c_timeframe (hd cs))) = Inr ss"
    using detect_swings_found [OF ok(3)] by blast
  obtain ls where ls: "detect_equal_levels ss atrs (equal_level_atr_tolerance k)
      (equal_level_max_separation k) = Inr ls"
    using ok(4,5) by (auto simp: detect_equal_levels_def)
  obtain ds where ds: "detect_displacements cs atrs (range_average_period k) (displacement_body_atr_ratio k)
       (displacement_range_average_ratio k) (displacement_close_fraction k) = Inr ds"
    using detect_displacements_total [OF ok(2), of cs atrs] len unfolding returns_iff
    by (metis order_refl)
  obtain gs where gs: "detect_fair_value_gaps cs atrs (fvg_min_atr_ratio k) = Inr gs"
    using detect_fair_value_gaps_total [OF ok(6), of cs atrs] len unfolding returns_iff
    by (metis order_refl)
  obtain bs where bs: "detect_order_blocks cs (detect_structure_breaks cs ss) ds
      (order_block_search_lookback k) = Inr bs"
    using detect_order_blocks_total [OF ok(9), of "detect_structure_breaks cs ss" cs ds] break_inside
    unfolding returns_iff by blast
  show ?thesis
    by (simp add: analyze_def v Let_def atr ss ls ds gs bs flip: k_def)
qed

section \<open>No look-ahead\<close>

lemma rolling_loop_take: "rolling_loop vs p acc i (take n xs) = take n (rolling_loop vs p acc i xs)"
  by (induction xs arbitrary: acc i n) (auto simp: Let_def take_Cons split: nat.splits)

lemma rolling_loop_cong:
  "(\<And>j. j < i + length xs \<Longrightarrow> vs ! j = ws ! j) \<Longrightarrow> 0 < p \<Longrightarrow>
     rolling_loop vs p acc i xs = rolling_loop ws p acc i xs"
proof (induction xs arbitrary: acc i)
  case (Cons x xs)
  have "vs ! (i - p) = ws ! (i - p)" by (rule Cons.prems) simp
  moreover have "rolling_loop vs p a (Suc i) xs = rolling_loop ws p a (Suc i) xs" for a
    using Cons.prems by (intro Cons.IH) simp_all
  ultimately show ?case by (simp add: Let_def)
qed simp

lemma rolling_mean_take:
  assumes "rolling_mean vs p = Inr ms" shows "rolling_mean (take n vs) p = Inr (take n ms)"
proof -
  have 1: "1 \<le> p" using assms by (auto simp: rolling_mean_def)
  then have "rolling_loop (take n vs) (nat p) 0 0 (take n vs) = rolling_loop vs (nat p) 0 0 (take n vs)"
    by (intro rolling_loop_cong) auto
  then show ?thesis using assms 1 by (auto simp: rolling_mean_def rolling_loop_take)
qed

lemma detect_displacements_eq:
  assumes "length atrs = length cs" "rolling_mean (map range_size cs) rp = Inr ms"
  shows "detect_displacements cs atrs rp a b k =
    Inr (concat (map (\<lambda>i. displacement_at a b k i (cs ! i) (atrs ! i) (ms ! i)) [0..<length cs]))"
proof -
  have len: "length ms = length cs" using rolling_mean_length [OF assms(2)] by simp
  have tr: "traverse f xs = Inr (map g xs)" if "\<forall>x \<in> set xs. f x = Inr (g x)" for f g and xs :: "(nat \<times> candle) list"
    using that by (induction xs) auto
  have "traverse (\<lambda>(i, c). rbind (py_nth atrs i) (\<lambda>atr. rbind (py_nth ms i) (\<lambda>m.
      Inr (displacement_at a b k i c atr m)))) (enumerate0 cs) =
    Inr (map (\<lambda>(i, c). displacement_at a b k i c (atrs ! i) (ms ! i)) (enumerate0 cs))"
    using assms(1) len by (intro tr) auto
  moreover have "enumerate0 cs = map (\<lambda>i. (i, cs ! i)) [0..<length cs]"
    by (rule nth_equalityI) (simp_all add: enumerate0_def nth_enumerate_eq)
  ultimately show ?thesis by (simp add: detect_displacements_def assms(2) comp_def)
qed

lemma concat_map_upt_take:
  assumes "\<And>i e. e \<in> set (f i) \<Longrightarrow> date e = i" "n \<le> m"
  shows "filter (\<lambda>e. date e < n) (concat (map f [l..<m])) = concat (map f [l..<n])"
proof -
  have split: "[l..<m] = [l..<n] @ [max l n..<m]"
    using assms(2) by (cases "l \<le> n") (metis le_add_diff_inverse upt_add_eq_append max.absorb2, simp)
  have "filter (\<lambda>e. date e < n) (concat (map f [l..<n])) = concat (map f [l..<n])"
    by (intro filter_True) (auto dest!: assms(1))
  moreover have "filter (\<lambda>e. date e < n) (concat (map f [max l n..<m])) = []"
    by (intro filter_False) (auto dest!: assms(1))
  ultimately show ?thesis by (simp add: split)
qed

lemma displacement_at_index: "d \<in> set (displacement_at a b k i c atr m) \<Longrightarrow> dp_index d = i"
  by (auto simp: displacement_at_def split: option.splits if_splits)

lemma displacements_take:
  assumes "length atrs = length cs" "detect_displacements cs atrs rp a b k = Inr ds" "n \<le> length cs"
  shows "detect_displacements (take n cs) (take n atrs) rp a b k = Inr (filter (\<lambda>d. dp_index d < n) ds)"
proof -
  from assms(2) obtain ms where ms: "rolling_mean (map range_size cs) rp = Inr ms"
    by (auto simp: detect_displacements_def)
  then have "rolling_mean (map range_size (take n cs)) rp = Inr (take n ms)"
    using rolling_mean_take by (simp flip: take_map)
  moreover have "length (take n atrs) = length (take n cs)" using assms(1) by simp
  ultimately have "detect_displacements (take n cs) (take n atrs) rp a b k =
      Inr (concat (map (\<lambda>i. displacement_at a b k i (cs ! i) (atrs ! i) (ms ! i)) [0..<n]))"
    using assms(3) by (subst detect_displacements_eq)
      (auto simp: min_def intro!: arg_cong [where f = concat] map_cong)
  also have "\<dots> = Inr (filter (\<lambda>d. dp_index d < n) ds)"
    using assms detect_displacements_eq [OF assms(1) ms, of a b k]
    by (subst concat_map_upt_take [where date = dp_index and m = "length cs", symmetric])
      (auto dest: displacement_at_index)
  finally show ?thesis .
qed

text \<open>The gaps as they are created, before later candles touch them.\<close>

definition born_gaps :: "candle list \<Rightarrow> dec option list \<Rightarrow> dec \<Rightarrow> nat \<Rightarrow> fair_value_gap list" where
  "born_gaps cs atrs r i = (case new_gap cs r i (atrs ! i) of None \<Rightarrow> [] | Some g \<Rightarrow> [g])"

lemma born_gap_open: "g \<in> set (born_gaps cs atrs r i) \<Longrightarrow> fvg_status g = Zone_Open \<and> fvg_created_index g = i"
  by (auto simp: born_gaps_def new_gap_def split: option.splits prod.splits if_splits)

lemma detect_gaps_births:
  assumes "detect_fair_value_gaps cs atrs r = Inr gs"
  shows "gs = map (\<lambda>g. resolve_gap g cs) (concat (map (born_gaps cs atrs r) [2..<length cs]))"
proof -
  let ?f = "\<lambda>i. rbind (py_nth atrs i) (\<lambda>atr.
      Inr (case new_gap cs r i atr of None \<Rightarrow> [] | Some g \<Rightarrow> [resolve_gap g cs]))"
  have eq: "concat gss = map (\<lambda>g. resolve_gap g cs) (concat (map (born_gaps cs atrs r) is))"
    if "traverse ?f is = Inr gss" for gss "is"
    using that
    by (induction \<open>is\<close> arbitrary: gss) (auto simp: born_gaps_def split: option.splits)
  from assms obtain gss where "traverse ?f [2..<length cs] = Inr gss" "gs = concat gss"
    by (auto simp: detect_fair_value_gaps_def)
  with eq show ?thesis by simp
qed

lemma gaps_take:
  assumes "detect_fair_value_gaps cs atrs r = Inr gs" "n \<le> length cs"
    and "detect_fair_value_gaps (take n cs) (take n atrs) r = Inr gs'"
  shows "gs' = map (gap_as_of n) (filter (\<lambda>g. fvg_created_index g < n) gs)"
proof -
  have "concat (map (born_gaps (take n cs) (take n atrs) r) [2..<n]) = concat (map (born_gaps cs atrs r) [2..<n])"
  proof (intro arg_cong [where f = concat] map_cong refl)
    fix x assume "x \<in> set [2..<n]"
    then have "take n cs ! x = cs ! x" "take n cs ! (x - 2) = cs ! (x - 2)" "take n atrs ! x = atrs ! x"
      by (simp_all add: less_imp_diff_less)
    then show "born_gaps (take n cs) (take n atrs) r x = born_gaps cs atrs r x"
      by (auto simp: born_gaps_def new_gap_def split: option.splits)
  qed
  also have "\<dots> = filter (\<lambda>g. fvg_created_index g < n) (concat (map (born_gaps cs atrs r) [2..<length cs]))"
    by (rule concat_map_upt_take [symmetric]) (use assms(2) born_gap_open in auto)
  finally have births: "gs' = map (\<lambda>g. resolve_gap g (take n cs))
      (filter (\<lambda>g. fvg_created_index g < n) (concat (map (born_gaps cs atrs r) [2..<length cs])))"
    using detect_gaps_births [OF assms(3)] by (simp only: length_take min.absorb2 [OF assms(2)])
  have "resolve_gap g (take n cs) = gap_as_of n (resolve_gap g cs)"
    if "g \<in> set (concat (map (born_gaps cs atrs r) [2..<length cs]))" for g
    using that born_gap_open by (intro resolve_gap_take [OF _ assms(2)]) fastforce
  then show ?thesis
    unfolding births detect_gaps_births [OF assms(1)] by (auto simp: filter_map comp_def)
qed

lemma found_swings_lag: "\<forall>s \<in> set (found_swings k cs). sw_confirmation_index s = sw_index s + k"
  by (auto simp: in_found_swings high_swing_def low_swing_def)

lemma analyze_causal:
  assumes full: "analyze cs config = Inr a" and part: "analyze (take n cs) config = Inr p"
    and n: "0 < n" "n \<le> length cs"
  shows "an_atr p = take n (an_atr a)"
    and "an_swings p = filter (\<lambda>s. sw_confirmation_index s < n) (an_swings a)"
    and "an_structure_breaks p = filter (\<lambda>e. sb_index e < n) (an_structure_breaks a)"
    and "an_liquidity_sweeps p = filter (\<lambda>e. ls_index e < n) (an_liquidity_sweeps a)"
    and "an_displacements p = filter (\<lambda>d. dp_index d < n) (an_displacements a)"
    and "an_fair_value_gaps p = map (gap_as_of n) (filter (\<lambda>g. fvg_created_index g < n) (an_fair_value_gaps a))"
    and "an_order_blocks p = map (block_as_of n) (filter (\<lambda>b. ob_created_index b < n) (an_order_blocks a))"
    and "an_equal_levels p =
      filter (\<lambda>l. sw_confirmation_index (el_second_swing l) < n) (an_equal_levels a)"
proof -
  note F = analyzeD [OF full] and P = analyzeD [OF part]
  have hd: "hd (take n cs) = hd cs" using n(1) by simp
  show atr: "an_atr p = take n (an_atr a)"
    using average_true_range_take [OF F(4), of n] P(4) by simp
  let ?l = "swing_lookback (settings_of config) (c_timeframe (hd cs))"
  have l: "1 \<le> ?l" using F(5) by (auto simp: detect_swings_def)
  have sa: "an_swings a = found_swings (nat ?l) cs" and sp: "an_swings p = found_swings (nat ?l) (take n cs)"
    using F(5) P(5) hd detect_swings_found [OF l] by simp_all
  show ss: "an_swings p = filter (\<lambda>s. sw_confirmation_index s < n) (an_swings a)"
    unfolding sa sp by (rule swings.causal)
  show breaks: "an_structure_breaks p = filter (\<lambda>e. sb_index e < n) (an_structure_breaks a)"
    unfolding F(6) P(6) sa sp by (rule breaking.causal)
  show "an_liquidity_sweeps p = filter (\<lambda>e. ls_index e < n) (an_liquidity_sweeps a)"
    unfolding F(7) P(7) sa sp by (rule sweeping.causal)
  have "length (an_atr a) = length cs" by (rule average_true_range_length [OF F(4)])
  from displacements_take [OF this F(9) n(2)] P(9)
  show disp: "an_displacements p = filter (\<lambda>d. dp_index d < n) (an_displacements a)"
    by (simp add: atr)
  show "an_fair_value_gaps p = map (gap_as_of n) (filter (\<lambda>g. fvg_created_index g < n) (an_fair_value_gaps a))"
    by (rule gaps_take [OF F(10) n(2)]) (use P(10) in \<open>simp add: atr\<close>)
  have "sorted (map sb_index (an_structure_breaks a))" unfolding F(6) sa by (rule breaking.dates_sorted)
  from order_blocks_take [OF F(11) n(2) this]
  show "an_order_blocks p = map (block_as_of n) (filter (\<lambda>b. ob_created_index b < n) (an_order_blocks a))"
    using P(11) by (simp add: breaks disp)
  have "n \<le> length (an_atr a)" using n(2) average_true_range_length [OF F(4)] by simp
  from equal_levels_take [OF F(8) this, of "nat ?l"] found_swings_lag
  show "an_equal_levels p = filter (\<lambda>l. sw_confirmation_index (el_second_swing l) < n) (an_equal_levels a)"
    using P(8) by (simp add: ss atr sa)
qed

section \<open>Properties\<close>

definition sample_config :: smc_config where
  "sample_config = default_smc_config\<lparr>atr_period := 2, range_average_period := 2, swing_lookback_15m := 1\<rparr>"

lemma sample_config_wf: "smc_config_wf sample_config"
  by (simp add: smc_config_wf_def mk_smc_config_def default_smc_config_def sample_config_def)

text \<open>C1: The analysis never repaints. For a prefix of the candles it finds exactly the part of the full
  analysis dated inside the prefix: average true ranges, swings and equal levels by the
  confirmation of the (second) swing, structure breaks, sweeps and displacements by their candle.
  The zones found by then are the zones of the full analysis created inside the prefix, with
  their first touch, fill or invalidation when its candle is in the prefix and untouched
  otherwise: later candles add such marks to a gap or an order block and never change one.\<close>

theorem analysis_never_repaints:
  assumes "analyze cs config = Inr full" "analyze (take n cs) config = Inr part" "0 < n" "n \<le> length cs"
  shows "an_atr part = take n (an_atr full) \<and>
    an_swings part = filter (\<lambda>s. sw_confirmation_index s < n) (an_swings full) \<and>
    an_structure_breaks part = filter (\<lambda>e. sb_index e < n) (an_structure_breaks full) \<and>
    an_liquidity_sweeps part = filter (\<lambda>e. ls_index e < n) (an_liquidity_sweeps full) \<and>
    an_displacements part = filter (\<lambda>d. dp_index d < n) (an_displacements full) \<and>
    an_fair_value_gaps part =
      map (gap_as_of n) (filter (\<lambda>g. fvg_created_index g < n) (an_fair_value_gaps full)) \<and>
    an_order_blocks part =
      map (block_as_of n) (filter (\<lambda>b. ob_created_index b < n) (an_order_blocks full)) \<and>
    an_equal_levels part =
      filter (\<lambda>l. sw_confirmation_index (el_second_swing l) < n) (an_equal_levels full)"
  using analyze_causal [OF assms] by blast

lemma analysis_never_repaints_witness:
  "\<exists>full part. analyze sample_series (Some sample_config) = Inr full \<and>
     analyze (take 6 sample_series) (Some sample_config) = Inr part \<and>
     an_swings part = filter (\<lambda>s. sw_confirmation_index s < 6) (an_swings full) \<and>
     an_fair_value_gaps part = map (gap_as_of 6) (filter (\<lambda>g. fvg_created_index g < 6) (an_fair_value_gaps full))"
proof -
  obtain full where full: "analyze sample_series (Some sample_config) = Inr full"
    using analyze_returns [OF sample_series_wf, of "Some sample_config"] sample_config_wf by auto
  obtain part where part: "analyze (take 6 sample_series) (Some sample_config) = Inr part"
    using analyze_returns [OF series_wf_take [OF sample_series_wf], of 6 "Some sample_config"] sample_config_wf by auto
  have "6 \<le> length sample_series" by (simp add: sample_series_def)
  then show ?thesis using analysis_never_repaints [OF full part] full part by auto
qed

text \<open>C14: The analysis of a valid series under a validated configuration always returns: none of the
  detectors indexes outside its lists, divides by zero or rejects its arguments.\<close>

theorem analysis_total:
  assumes "returns (validate_candle_series cs)" "smc_config_wf k"
  shows "returns (analyze cs (Some k))"
proof -
  have "series_wf cs" using assms(1) by (auto simp: returns_iff validate_candle_series_iff)
  then show ?thesis using analyze_returns [of cs "Some k"] assms(2) by (auto simp: returns_iff)
qed

lemma analysis_total_witness: "returns (analyze sample_series (Some sample_config))"
proof -
  have "returns (validate_candle_series sample_series)"
    using sample_series_wf by (simp add: returns_iff validate_candle_series_iff)
  then show ?thesis by (rule analysis_total [OF _ sample_config_wf])
qed

end
