(* ===== verification/Trade_Plan.thy ===== *)
theory Trade_Plan
  imports Analysis
begin

text \<open>
  \<open>src/src/crypto_smc/strategy\<close>: \<open>config.py\<close> (score weights and strategy configuration with
  their validation), \<open>models.py\<close> (the trade plan and the candidate) and \<open>risk.py\<close>
  (\<open>build_trade_plan\<close>). Every division is written with \<open>ddiv\<close>, so the plan is a \<open>res\<close>.
  The formatted sentence \<open>invalidation\<close> is kept as a constructor with the price it prints.
\<close>

section \<open>config.py\<close>

record score_weights =
  higher_timeframe_alignment :: int
  liquidity_sweep_weight :: int
  structure_confirmation :: int
  entry_zone_quality :: int
  premium_discount :: int
  volume_open_interest :: int
  funding_btc_condition :: int

definition weight_values :: "score_weights \<Rightarrow> int list" where
  "weight_values w = [higher_timeframe_alignment w, liquidity_sweep_weight w,
     structure_confirmation w, entry_zone_quality w, premium_discount w,
     volume_open_interest w, funding_btc_condition w]"

definition default_score_weights :: score_weights where
  "default_score_weights = \<lparr>higher_timeframe_alignment = 20, liquidity_sweep_weight = 20,
     structure_confirmation = 20, entry_zone_quality = 15, premium_discount = 10,
     volume_open_interest = 10, funding_btc_condition = 5\<rparr>"

definition mk_score_weights :: "score_weights \<Rightarrow> score_weights res" where
  "mk_score_weights w =
     rbind (raise_if (\<exists>v \<in> set (weight_values w). v < 0) (ValueError ''score weights cannot be negative'')) (\<lambda>_.
     rbind (raise_if (sum_list (weight_values w) \<noteq> 100) (ValueError ''score weights must sum to 100'')) (\<lambda>_.
     Inr w))"

record strategy_config =
  sc_version :: string
  sc_smc :: smc_config
  sc_weights :: score_weights
  minimum_score :: int
  strong_score :: int
  minimum_net_reward_to_risk :: dec
  signal_lifetime_minutes :: int
  reference_balance :: dec
  risk_fraction :: dec
  maximum_display_leverage :: dec
  liquidation_buffer_multiplier :: dec
  stop_atr_buffer :: dec
  take_profit_1_r_multiple :: dec
  minimum_turnover_24h_usdt :: dec
  maximum_spread_bps :: dec
  minimum_atr_percent :: dec
  maximum_atr_percent :: dec
  volume_confirmation_ratio :: dec
  open_interest_confirmation_ratio :: dec
  crowded_funding_rate :: dec
  btc_return_warning_threshold :: dec
  btc_true_range_warning_ratio :: dec

definition default_strategy_config :: strategy_config where
  "default_strategy_config = \<lparr>sc_version = ''smc-v1.0.0'', sc_smc = default_smc_config,
     sc_weights = default_score_weights, minimum_score = 70, strong_score = 85,
     minimum_net_reward_to_risk = 3, signal_lifetime_minutes = 90, reference_balance = 10000,
     risk_fraction = 1/100, maximum_display_leverage = 20, liquidation_buffer_multiplier = 15/10,
     stop_atr_buffer = 10/100, take_profit_1_r_multiple = 15/10,
     minimum_turnover_24h_usdt = 10000000, maximum_spread_bps = 20, minimum_atr_percent = 1/1000,
     maximum_atr_percent = 15/100, volume_confirmation_ratio = 1,
     open_interest_confirmation_ratio = 0, crowded_funding_rate = 1/1000,
     btc_return_warning_threshold = 2/100, btc_true_range_warning_ratio = 25/10\<rparr>"

text \<open>The checks of \<open>StrategyConfig.__post_init__\<close>; its \<open>smc\<close> and \<open>weights\<close> have been built, and so
  checked, before it.\<close>

definition mk_strategy_config :: "strategy_config \<Rightarrow> strategy_config res" where
  "mk_strategy_config k =
     rbind (raise_if (sc_version k = '''') (ValueError ''version cannot be empty'')) (\<lambda>_.
     rbind (raise_if (\<not> (0 \<le> minimum_score k \<and> minimum_score k \<le> 100))
       (ValueError ''minimum_score must be between 0 and 100'')) (\<lambda>_.
     rbind (raise_if (\<not> (minimum_score k \<le> strong_score k \<and> strong_score k \<le> 100))
       (ValueError ''strong_score must be between minimum_score and 100'')) (\<lambda>_.
     rbind (raise_if (minimum_net_reward_to_risk k \<le> 0)
       (ValueError ''minimum_net_reward_to_risk must be positive'')) (\<lambda>_.
     rbind (raise_if (signal_lifetime_minutes k < 1)
       (ValueError ''signal_lifetime_minutes must be positive'')) (\<lambda>_.
     rbind (raise_if (reference_balance k \<le> 0) (ValueError ''reference_balance must be positive'')) (\<lambda>_.
     rbind (raise_if (\<not> (0 < risk_fraction k \<and> risk_fraction k < 1))
       (ValueError ''risk_fraction must be between zero and one'')) (\<lambda>_.
     rbind (raise_if (maximum_display_leverage k < 1)
       (ValueError ''maximum_display_leverage must be at least one'')) (\<lambda>_.
     rbind (raise_if (liquidation_buffer_multiplier k \<le> 1)
       (ValueError ''liquidation_buffer_multiplier must exceed one'')) (\<lambda>_.
     rbind (raise_if (stop_atr_buffer k < 0) (ValueError ''stop_atr_buffer cannot be negative'')) (\<lambda>_.
     Inr k))))))))))"

definition config_risk_amount :: "strategy_config \<Rightarrow> dec" where
  "config_risk_amount k = dmul (reference_balance k) (risk_fraction k)"

definition strategy_config_wf :: "strategy_config \<Rightarrow> bool" where
  "strategy_config_wf k \<longleftrightarrow> mk_strategy_config k = Inr k \<and> mk_score_weights (sc_weights k) = Inr (sc_weights k) \<and>
     smc_config_wf (sc_smc k)"

lemma strategy_config_wfD:
  assumes "strategy_config_wf k"
  shows "0 < minimum_net_reward_to_risk k" "1 \<le> signal_lifetime_minutes k" "0 < reference_balance k"
    "0 < risk_fraction k" "1 \<le> maximum_display_leverage k" "1 < liquidation_buffer_multiplier k"
    "0 \<le> stop_atr_buffer k" "minimum_score k \<le> strong_score k" "0 \<le> minimum_score k"
    "0 < config_risk_amount k"
  using assms
  by (auto simp: strategy_config_wf_def mk_strategy_config_def config_risk_amount_def intro: dmul_pos)

lemma default_strategy_config_wf: "strategy_config_wf default_strategy_config"
  by (simp add: strategy_config_wf_def mk_strategy_config_def default_strategy_config_def
      mk_score_weights_def default_score_weights_def weight_values_def default_smc_config_wf)

section \<open>models.py\<close>

datatype trade_direction = Long | Short
datatype candidate_status = Accepted | Suppressed
datatype strength = Standard | Strong
datatype invalidation = Close_Below dec | Close_Above dec

record trade_plan =
  tp_entry_lower :: dec
  tp_entry_upper :: dec
  tp_planned_entry :: dec
  tp_stop_loss :: dec
  tp_take_profit_1 :: dec
  tp_take_profit_2 :: dec
  tp_gross_reward_to_risk :: dec
  tp_net_reward_to_risk :: dec
  tp_risk_amount :: dec
  tp_quantity :: dec
  tp_notional :: dec
  tp_recommended_leverage :: dec
  tp_estimated_margin :: dec
  tp_estimated_entry_fee :: dec
  tp_estimated_exit_fee :: dec
  tp_estimated_loss_at_stop :: dec
  tp_invalidation :: invalidation

section \<open>risk.py\<close>

text \<open>The direction-dependent prices: stop, risk per unit, reward per unit.\<close>

definition plan_prices ::
  "trade_direction \<Rightarrow> dec \<Rightarrow> dec \<Rightarrow> dec \<Rightarrow> dec \<Rightarrow> dec \<Rightarrow> dec \<times> dec \<times> dec" where
  "plan_prices dir lower upper planned buffer target =
     (case dir of
        Long \<Rightarrow> let stop = dsub lower buffer in (stop, dsub planned stop, dsub target planned)
      | Short \<Rightarrow> let stop = dadd upper buffer in (stop, dsub stop planned, dsub planned target))"

text \<open>The second half of the function, from \<open>gross_rr\<close> on, over the values the first half computed.\<close>

definition finish_plan ::
  "trade_direction \<Rightarrow> dec \<Rightarrow> dec \<Rightarrow> dec \<Rightarrow> dec \<Rightarrow> dec \<Rightarrow> dec \<Rightarrow> dec \<Rightarrow> dec \<Rightarrow> dec \<Rightarrow> dec \<Rightarrow> dec \<Rightarrow>
   dec \<Rightarrow> dec \<Rightarrow> dec \<Rightarrow> strategy_config \<Rightarrow> (trade_plan option \<times> string list) res" where
  "finish_plan dir lower upper planned stop risk reward target net_risk net_reward entry_fee exit_fee
     max_leverage quantity notional k =
     rbind (ddiv reward risk) (\<lambda>gross_rr.
     rbind (ddiv net_reward net_risk) (\<lambda>net_rr.
     rbind (ddiv risk planned) (\<lambda>stop_fraction.
     rbind (ddiv 1 (dmul stop_fraction (liquidation_buffer_multiplier k))) (\<lambda>inverse_risk.
     rbind (quantize_cents_down inverse_risk) (\<lambda>safe_leverage.
     let leverage = max 1 (min (min (maximum_display_leverage k) max_leverage) safe_leverage) in
     rbind (ddiv notional leverage) (\<lambda>margin.
     let tp1_distance = dmul risk (take_profit_1_r_multiple k);
         tp1 = (if dir = Long then dadd planned tp1_distance else dsub planned tp1_distance);
         warnings = (if leverage < maximum_display_leverage k
                     then [''leverage_reduced_for_liquidation_buffer''] else [])
     in Inr (Some
       \<lparr>tp_entry_lower = lower, tp_entry_upper = upper, tp_planned_entry = planned,
        tp_stop_loss = stop, tp_take_profit_1 = tp1, tp_take_profit_2 = target,
        tp_gross_reward_to_risk = gross_rr, tp_net_reward_to_risk = net_rr,
        tp_risk_amount = config_risk_amount k, tp_quantity = quantity,
        tp_notional = notional, tp_recommended_leverage = leverage,
        tp_estimated_margin = margin, tp_estimated_entry_fee = dmul quantity entry_fee,
        tp_estimated_exit_fee = dmul quantity exit_fee,
        tp_estimated_loss_at_stop = dmul quantity net_risk,
        tp_invalidation = (if dir = Long then Close_Below stop else Close_Above stop)\<rparr>,
       warnings)))))))"

definition build_trade_plan ::
  "trade_direction \<Rightarrow> dec \<Rightarrow> dec \<Rightarrow> dec \<Rightarrow> dec \<Rightarrow> dec \<Rightarrow> dec \<Rightarrow> dec \<Rightarrow> dec \<Rightarrow> strategy_config \<Rightarrow>
   (trade_plan option \<times> string list) res" where
  "build_trade_plan dir lower upper atr target fee_rate max_leverage step minimum_notional k =
     (if lower \<le> 0 \<or> upper \<le> lower \<or> atr \<le> 0 \<or> step \<le> 0
      then Inr (None, [''invalid_entry_zone''])
      else
        let planned = dhalf (dadd lower upper);
            buffer = dmul atr (stop_atr_buffer k);
            (stop, risk, reward) = plan_prices dir lower upper planned buffer target
        in
        if stop \<le> 0 \<or> risk \<le> 0 then Inr (None, [''invalid_stop_loss''])
        else if reward \<le> 0 then Inr (None, [''no_directional_liquidity_target''])
        else
          let entry_fee = dmul planned fee_rate;
              exit_fee = dmul target fee_rate;
              net_risk = dadd (dadd risk entry_fee) (dmul stop fee_rate);
              net_reward = dsub (dsub reward entry_fee) exit_fee
          in
          if net_reward \<le> 0 then Inr (None, [''fees_consume_reward''])
          else
            rbind (ddiv (config_risk_amount k) net_risk) (\<lambda>raw_quantity.
            rbind (ddiv raw_quantity step) (\<lambda>steps.
            let quantity = dmul (to_integral_down steps) step in
            if quantity \<le> 0 then Inr (None, [''quantity_below_exchange_minimum''])
            else
              let notional = dmul quantity planned in
              if notional < minimum_notional then Inr (None, [''notional_below_exchange_minimum''])
              else finish_plan dir lower upper planned stop risk reward target net_risk net_reward
                     entry_fee exit_fee max_leverage quantity notional k)))"

text \<open>The values of a plan, named by the quantities they are computed from.\<close>

definition plan_sizing :: "strategy_config \<Rightarrow> dec \<Rightarrow> dec \<Rightarrow> dec" where
  "plan_sizing k net_risk step = dmul (to_integral_down (ddivn (ddivn (config_risk_amount k) net_risk) step)) step"

lemma finish_planD:
  assumes "finish_plan dir lower upper planned stop risk reward target net_risk net_reward entry_fee exit_fee
     max_leverage quantity notional k = Inr (Some p, ws)"
  shows "tp_entry_lower p = lower" "tp_entry_upper p = upper" "tp_planned_entry p = planned"
    "tp_stop_loss p = stop" "tp_take_profit_2 p = target"
    "tp_take_profit_1 p = (if dir = Long then dadd planned (dmul risk (take_profit_1_r_multiple k))
       else dsub planned (dmul risk (take_profit_1_r_multiple k)))"
    "tp_gross_reward_to_risk p = ddivn reward risk"
    "tp_net_reward_to_risk p = ddivn net_reward net_risk"
    "tp_risk_amount p = config_risk_amount k" "tp_quantity p = quantity" "tp_notional p = notional"
    "tp_estimated_loss_at_stop p = dmul quantity net_risk"
    "tp_estimated_margin p = ddivn notional (tp_recommended_leverage p)"
    "tp_invalidation p = (if dir = Long then Close_Below stop else Close_Above stop)"
    "\<exists>safe. quantize_cents_down (ddivn 1 (dmul (ddivn risk planned) (liquidation_buffer_multiplier k))) = Inr safe \<and>
       tp_recommended_leverage p = max 1 (min (min (maximum_display_leverage k) max_leverage) safe)"
    "ws = (if tp_recommended_leverage p < maximum_display_leverage k
           then [''leverage_reduced_for_liquidation_buffer''] else [])"
proof -
  define lev where "lev = (\<lambda>safe. max 1 (min (min (maximum_display_leverage k) max_leverage) safe))"
  define tp1 where "tp1 = (if dir = Long then dadd planned (dmul risk (take_profit_1_r_multiple k))
    else dsub planned (dmul risk (take_profit_1_r_multiple k)))"
  define inval where "inval = (if dir = Long then Close_Below stop else Close_Above stop)"
  have lev_eq: "max 1 (min (min (maximum_display_leverage k) max_leverage) safe) = lev safe" for safe
    by (simp add: lev_def)
  note body = assms [unfolded finish_plan_def Let_def lev_eq, folded tp1_def inval_def]
  from body obtain g n sf q safe m where steps: "g = ddivn reward risk" "n = ddivn net_reward net_risk"
      "sf = ddivn risk planned" "q = ddivn 1 (dmul sf (liquidation_buffer_multiplier k))"
      "quantize_cents_down q = Inr safe" "m = ddivn notional (lev safe)"
    and p: "\<lparr>tp_entry_lower = lower, tp_entry_upper = upper, tp_planned_entry = planned,
        tp_stop_loss = stop, tp_take_profit_1 = tp1, tp_take_profit_2 = target,
        tp_gross_reward_to_risk = g, tp_net_reward_to_risk = n,
        tp_risk_amount = config_risk_amount k, tp_quantity = quantity,
        tp_notional = notional, tp_recommended_leverage = lev safe,
        tp_estimated_margin = m, tp_estimated_entry_fee = dmul quantity entry_fee,
        tp_estimated_exit_fee = dmul quantity exit_fee,
        tp_estimated_loss_at_stop = dmul quantity net_risk, tp_invalidation = inval\<rparr> = p"
      "(if lev safe < maximum_display_leverage k
           then [''leverage_reduced_for_liquidation_buffer''] else []) = ws"
    by (simp only: rbind_eq_Inr ddiv_eq_Inr sum.inject prod.inject option.inject) (elim exE conjE, rule that, assumption+)
  show "tp_entry_lower p = lower" "tp_entry_upper p = upper" "tp_planned_entry p = planned"
    "tp_stop_loss p = stop" "tp_take_profit_2 p = target"
    "tp_risk_amount p = config_risk_amount k" "tp_quantity p = quantity" "tp_notional p = notional"
    "tp_estimated_loss_at_stop p = dmul quantity net_risk"
    by (simp_all only: p(1) [symmetric] trade_plan.simps)
  show "tp_take_profit_1 p = (if dir = Long then dadd planned (dmul risk (take_profit_1_r_multiple k))
       else dsub planned (dmul risk (take_profit_1_r_multiple k)))"
    by (simp only: p(1) [symmetric] trade_plan.simps tp1_def)
  show "tp_gross_reward_to_risk p = ddivn reward risk" "tp_net_reward_to_risk p = ddivn net_reward net_risk"
    "tp_estimated_margin p = ddivn notional (tp_recommended_leverage p)"
    by (simp_all only: p(1) [symmetric] trade_plan.simps steps)
  show "tp_invalidation p = (if dir = Long then Close_Below stop else Close_Above stop)"
    by (simp only: p(1) [symmetric] trade_plan.simps inval_def)
  have lev: "tp_recommended_leverage p = lev safe"
    by (simp only: p(1) [symmetric] trade_plan.simps)
  then show "ws = (if tp_recommended_leverage p < maximum_display_leverage k
           then [''leverage_reduced_for_liquidation_buffer''] else [])"
    using p(2) by simp
  show "\<exists>safe. quantize_cents_down (ddivn 1 (dmul (ddivn risk planned) (liquidation_buffer_multiplier k))) = Inr safe \<and>
       tp_recommended_leverage p = max 1 (min (min (maximum_display_leverage k) max_leverage) safe)"
    using steps(5) lev unfolding steps(3,4) lev_def by blast
qed

lemma build_trade_planD:
  assumes "build_trade_plan dir lower upper atr target fee_rate max_leverage step minimum_notional k
      = Inr (Some p, ws)"
  obtains planned stop risk reward net_risk net_reward where
    "0 < lower" "lower < upper" "0 < atr" "0 < step"
    "planned = dhalf (dadd lower upper)"
    "plan_prices dir lower upper planned (dmul atr (stop_atr_buffer k)) target = (stop, risk, reward)"
    "0 < stop" "0 < risk" "0 < reward"
    "net_risk = dadd (dadd risk (dmul planned fee_rate)) (dmul stop fee_rate)"
    "net_reward = dsub (dsub reward (dmul planned fee_rate)) (dmul target fee_rate)"
    "0 < net_reward" "0 < plan_sizing k net_risk step"
    "minimum_notional \<le> dmul (plan_sizing k net_risk step) planned"
    "finish_plan dir lower upper planned stop risk reward target net_risk net_reward
       (dmul planned fee_rate) (dmul target fee_rate) max_leverage (plan_sizing k net_risk step)
       (dmul (plan_sizing k net_risk step) planned) k = Inr (Some p, ws)"
    "net_risk \<noteq> 0"
proof -
  define planned where "planned = dhalf (dadd lower upper)"
  obtain stop risk reward where prices: "plan_prices dir lower upper planned
      (dmul atr (stop_atr_buffer k)) target = (stop, risk, reward)"
    by (metis prod_cases3)
  define entry_fee where "entry_fee = dmul planned fee_rate"
  define exit_fee where "exit_fee = dmul target fee_rate"
  define net_risk where "net_risk = dadd (dadd risk entry_fee) (dmul stop fee_rate)"
  define net_reward where "net_reward = dsub (dsub reward entry_fee) exit_fee"
  define finish where "finish = (\<lambda>quantity. finish_plan dir lower upper planned stop risk reward target net_risk
    net_reward entry_fee exit_fee max_leverage quantity (dmul quantity planned) k)"
  note body = assms [unfolded build_trade_plan_def Let_def, folded planned_def, unfolded prices prod.case,
      folded entry_fee_def exit_fee_def, folded net_risk_def net_reward_def]
  have 1: "0 < lower" "lower < upper" "0 < atr" "0 < step" "0 < stop" "0 < risk" "0 < reward" "0 < net_reward"
    using body by (auto split: if_splits)
  then have "net_risk \<noteq> 0" using body by (auto simp: ddiv_def split: if_splits)
  moreover from this 1 have "0 < plan_sizing k net_risk step \<and>
      minimum_notional \<le> dmul (plan_sizing k net_risk step) planned \<and>
      finish (plan_sizing k net_risk step) = Inr (Some p, ws)"
    using body by (auto simp: ddiv_ok plan_sizing_def finish_def split: if_splits)
  ultimately show thesis
    using 1 prices by (intro that [of planned stop risk reward net_risk net_reward])
      (simp_all only: planned_def entry_fee_def exit_fee_def net_risk_def net_reward_def finish_def not_False_eq_True)
qed

section \<open>What a plan promises\<close>

lemma plan_sizing_bound:
  assumes "0 < config_risk_amount k" "0 < net_risk" "0 < step"
  shows "plan_sizing k net_risk step * net_risk \<le> (1 + half_ulp) ^ 3 * config_risk_amount k"
    and "dmul (plan_sizing k net_risk step) net_risk \<le> (1 + half_ulp) ^ 4 * config_risk_amount k"
proof -
  let ?u = "1 + half_ulp" and ?R = "config_risk_amount k"
  define raw steps where "raw = ddivn ?R net_risk" and "steps = ddivn raw step"
  have u: "0 < ?u" using half_ulp_bounds by simp
  have raw: "0 < raw" and steps: "0 < steps" using assms by (simp_all add: raw_def steps_def ddivn_pos)
  have "raw \<le> ?u * (?R / net_risk)"
    unfolding raw_def ddivn_def using assms by (intro rnd_scale) simp
  then have 1: "raw * net_risk \<le> ?u * ?R" using assms by (simp add: field_simps)
  have "steps \<le> ?u * (raw / step)"
    unfolding steps_def ddivn_def using raw assms by (intro rnd_scale) simp
  then have 2: "steps * step \<le> ?u * raw" using assms by (simp add: field_simps)
  have q: "plan_sizing k net_risk step \<le> ?u * (to_integral_down steps * step)"
    unfolding plan_sizing_def dmul_def raw_def [symmetric] steps_def [symmetric]
    using steps assms by (intro rnd_scale) (simp add: to_integral_down_nonneg)
  have q0: "0 \<le> plan_sizing k net_risk step"
    unfolding plan_sizing_def raw_def [symmetric] steps_def [symmetric]
    using steps assms by (intro dmul_nonneg) (simp_all add: to_integral_down_nonneg)
  have "to_integral_down steps * step \<le> steps * step"
    using steps assms by (intro mult_right_mono to_integral_down_le) simp_all
  with 2 have "to_integral_down steps * step \<le> ?u * raw" by linarith
  then have "?u * (to_integral_down steps * step) \<le> ?u * (?u * raw)" using u by simp
  with q have "plan_sizing k net_risk step \<le> ?u ^ 2 * raw" by (simp add: power2_eq_square)
  then have "plan_sizing k net_risk step * net_risk \<le> ?u ^ 2 * (raw * net_risk)"
    using assms by (simp flip: mult.assoc)
  also have "\<dots> \<le> ?u ^ 2 * (?u * ?R)" using 1 u by (intro mult_left_mono) simp_all
  finally have 3: "plan_sizing k net_risk step * net_risk \<le> ?u ^ 3 * ?R"
    by (simp add: power2_eq_square power3_eq_cube mult.assoc)
  then show "plan_sizing k net_risk step * net_risk \<le> ?u ^ 3 * ?R" .
  have "dmul (plan_sizing k net_risk step) net_risk \<le> ?u * (plan_sizing k net_risk step * net_risk)"
    unfolding dmul_def using q0 assms by (intro rnd_scale) simp
  also have "\<dots> \<le> ?u * (?u ^ 3 * ?R)" using 3 u by (intro mult_left_mono) simp_all
  finally show "dmul (plan_sizing k net_risk step) net_risk \<le> ?u ^ 4 * ?R"
    by (simp add: numeral_eq_Suc mult.assoc)
qed

lemma net_risk_pos: "0 < risk \<Longrightarrow> 0 < planned \<Longrightarrow> 0 < stop \<Longrightarrow> 0 \<le> fee \<Longrightarrow>
    0 < dadd (dadd risk (dmul planned fee)) (dmul stop fee)"
  by (intro dadd_pos dmul_nonneg) simp_all

lemma planned_pos: "0 < lower \<Longrightarrow> lower < upper \<Longrightarrow> 0 < dhalf (dadd lower upper)"
  by (simp add: dhalf_def ddivn_pos dadd_pos)

lemma plan_loss_bound:
  assumes plan: "build_trade_plan dir lower upper atr target fee_rate max_leverage step minimum_notional k
      = Inr (Some p, ws)"
    and k: "strategy_config_wf k" and fee: "0 \<le> fee_rate"
  shows "tp_estimated_loss_at_stop p \<le> (1 + half_ulp) ^ 4 * tp_risk_amount p"
  using plan
proof (rule build_trade_planD)
  fix planned stop risk reward net_risk net_reward
  assume h: "0 < lower" "lower < upper" "planned = dhalf (dadd lower upper)" "0 < stop" "0 < risk" "0 < step"
    "net_risk = dadd (dadd risk (dmul planned fee_rate)) (dmul stop fee_rate)"
    and f: "finish_plan dir lower upper planned stop risk reward target net_risk net_reward
       (dmul planned fee_rate) (dmul target fee_rate) max_leverage (plan_sizing k net_risk step)
       (dmul (plan_sizing k net_risk step) planned) k = Inr (Some p, ws)"
  have "0 < net_risk" unfolding h(7) using h fee planned_pos by (intro net_risk_pos) simp_all
  from plan_sizing_bound(2) [OF strategy_config_wfD(10) [OF k] this h(6)]
  show ?thesis by (simp only: finish_planD [OF f])
qed

text \<open>The loss of a position that enters at the planned price and leaves at the stop, in exact
  arithmetic: the distance and the taker fee of both sides, on the whole quantity.\<close>

definition exact_loss_at_stop :: "dec \<Rightarrow> trade_plan \<Rightarrow> dec" where
  "exact_loss_at_stop fee_rate p = tp_quantity p *
     (\<bar>tp_planned_entry p - tp_stop_loss p\<bar> + tp_planned_entry p * fee_rate + tp_stop_loss p * fee_rate)"

lemma near_net_risk:
  assumes "0 \<le> planned" "0 \<le> stop" "0 \<le> fee" "b \<le> a"
  shows "near 3 (dadd (dadd (dsub a b) (dmul planned fee)) (dmul stop fee)) (a - b + planned * fee + stop * fee)"
proof -
  have fees: "near 1 (dmul planned fee) (planned * fee)" "near 1 (dmul stop fee) (stop * fee)"
    using assms near_dmul [OF near_refl near_refl, of _ _ 0 0] by simp_all
  have "near 2 (dadd (dsub a b) (dmul planned fee)) (a - b + planned * fee)"
    using near_dadd [OF near_dsub [OF assms(4)] fees(1)] by (simp add: numeral_2_eq_2)
  from near_dadd [OF this near_weaken [OF fees(2), of 2]] show ?thesis by (simp add: numeral_eq_Suc)
qed

lemma plan_exact_loss:
  assumes plan: "build_trade_plan dir lower upper atr target fee_rate max_leverage step minimum_notional k
      = Inr (Some p, ws)"
    and k: "strategy_config_wf k" and fee: "0 \<le> fee_rate"
  shows "exact_loss_at_stop fee_rate p \<le> drift ^ 6 * config_risk_amount k"
    and "near 4 (tp_estimated_loss_at_stop p) (exact_loss_at_stop fee_rate p)"
proof -
  from plan obtain planned stop risk reward net_risk net_reward where h: "0 < planned" "0 < stop" "0 < risk" "0 < step"
      "net_risk = dadd (dadd risk (dmul planned fee_rate)) (dmul stop fee_rate)"
      "plan_prices dir lower upper planned (dmul atr (stop_atr_buffer k)) target = (stop, risk, reward)"
      "0 < plan_sizing k net_risk step"
    and f: "finish_plan dir lower upper planned stop risk reward target net_risk net_reward
       (dmul planned fee_rate) (dmul target fee_rate) max_leverage (plan_sizing k net_risk step)
       (dmul (plan_sizing k net_risk step) planned) k = Inr (Some p, ws)"
    by (rule build_trade_planD) (metis planned_pos)
  define q exact where "q = plan_sizing k net_risk step"
    and "exact = \<bar>planned - stop\<bar> + planned * fee_rate + stop * fee_rate"
  have q: "0 < q" and nr: "0 < net_risk" using h fee by (simp_all add: q_def net_risk_pos)
  have "near 3 net_risk exact"
  proof (cases dir)
    case Long
    then have "risk = dsub planned stop" using h(6) by (auto simp: plan_prices_def Let_def)
    then show ?thesis using near_net_risk [of planned stop fee_rate stop planned] h fee by (simp add: exact_def)
  next
    case Short
    then have "risk = dsub stop planned" using h(6) by (auto simp: plan_prices_def Let_def)
    then show ?thesis using near_net_risk [of planned stop fee_rate planned stop] h fee by (simp add: exact_def)
  qed
  then have mult: "near 3 (q * net_risk) (q * exact)" and "near 4 (dmul q net_risk) (q * exact)"
    using near_mult [of 0 q q 3] near_dmul [of 0 q q 3] near_refl [of q 0] q by simp_all
  moreover have loss: "exact_loss_at_stop fee_rate p = q * exact"
    by (simp only: exact_loss_at_stop_def finish_planD [OF f] q_def exact_def)
  ultimately show "near 4 (tp_estimated_loss_at_stop p) (exact_loss_at_stop fee_rate p)"
    by (simp only: finish_planD [OF f] q_def)
  have R: "0 < config_risk_amount k" by (rule strategy_config_wfD(10) [OF k])
  have "q * exact \<le> drift ^ 3 * (q * net_risk)" using mult by (simp add: near_def)
  also have "\<dots> \<le> drift ^ 3 * ((1 + half_ulp) ^ 3 * config_risk_amount k)"
    using plan_sizing_bound(1) [OF R nr h(4)] drift_pos(1) by (intro mult_left_mono) (simp_all add: q_def less_imp_le)
  also have "\<dots> \<le> drift ^ 3 * (drift ^ 3 * config_risk_amount k)"
    using R drift_ge(1) drift_pos(2) half_ulp_bounds
    by (intro mult_left_mono mult_right_mono power_mono) (simp_all add: less_imp_le drift_pos(1))
  finally show "exact_loss_at_stop fee_rate p \<le> drift ^ 6 * config_risk_amount k"
    by (simp only: loss mult.assoc [symmetric] power_add [symmetric]) simp
qed

lemma plan_geometry:
  assumes plan: "build_trade_plan dir lower upper atr target fee_rate max_leverage step minimum_notional k
      = Inr (Some p, ws)"
    and tp: "0 \<le> take_profit_1_r_multiple k"
  shows "0 < tp_stop_loss p \<and> (case dir of
      Long \<Rightarrow> tp_stop_loss p < tp_planned_entry p \<and> tp_planned_entry p \<le> tp_take_profit_1 p \<and>
        tp_planned_entry p < tp_take_profit_2 p \<and> tp_invalidation p = Close_Below (tp_stop_loss p)
    | Short \<Rightarrow> tp_planned_entry p < tp_stop_loss p \<and> tp_take_profit_1 p \<le> tp_planned_entry p \<and>
        tp_take_profit_2 p < tp_planned_entry p \<and> tp_invalidation p = Close_Above (tp_stop_loss p))"
  using plan
proof (rule build_trade_planD)
  fix planned stop risk reward net_risk net_reward
  assume h: "planned = dhalf (dadd lower upper)" "0 < stop" "0 < risk" "0 < reward"
      "plan_prices dir lower upper planned (dmul atr (stop_atr_buffer k)) target = (stop, risk, reward)"
    and f: "finish_plan dir lower upper planned stop risk reward target net_risk net_reward
       (dmul planned fee_rate) (dmul target fee_rate) max_leverage (plan_sizing k net_risk step)
       (dmul (plan_sizing k net_risk step) planned) k = Inr (Some p, ws)"
  have "0 \<le> dmul risk (take_profit_1_r_multiple k)" using h tp by (intro dmul_nonneg) simp_all
  moreover have "rnd planned = planned" unfolding h(1) by simp
  ultimately have "planned \<le> dadd planned (dmul risk (take_profit_1_r_multiple k))"
    and "dsub planned (dmul risk (take_profit_1_r_multiple k)) \<le> planned"
    by (simp_all add: dadd_ge dsub_le)
  then show ?thesis using h(2-5)
    by (cases dir) (auto simp: finish_planD [OF f] plan_prices_def Let_def)
qed

lemma plan_leverage:
  assumes plan: "build_trade_plan dir lower upper atr target fee_rate max_leverage step minimum_notional k
      = Inr (Some p, ws)"
    and k: "strategy_config_wf k"
  shows "1 \<le> tp_recommended_leverage p" and "tp_recommended_leverage p \<le> maximum_display_leverage k"
    and "tp_recommended_leverage p = 1 \<or> tp_recommended_leverage p \<le> max_leverage \<and>
      tp_recommended_leverage p * dmul (ddivn (dabs (tp_planned_entry p - tp_stop_loss p)) (tp_planned_entry p))
        (liquidation_buffer_multiplier k) \<le> 1 + half_ulp"
proof -
  from plan show "1 \<le> tp_recommended_leverage p"
    by (rule build_trade_planD) (drule finish_planD(15), auto)
  from plan show "tp_recommended_leverage p \<le> maximum_display_leverage k"
    by (rule build_trade_planD) (drule finish_planD(15), use strategy_config_wfD(5) [OF k] in auto)
  from plan show "tp_recommended_leverage p = 1 \<or> tp_recommended_leverage p \<le> max_leverage \<and>
      tp_recommended_leverage p * dmul (ddivn (dabs (tp_planned_entry p - tp_stop_loss p)) (tp_planned_entry p))
        (liquidation_buffer_multiplier k) \<le> 1 + half_ulp"
  proof (rule build_trade_planD)
    fix planned stop risk reward net_risk net_reward
    assume h: "0 < lower" "lower < upper" "planned = dhalf (dadd lower upper)" "0 < risk"
        "plan_prices dir lower upper planned (dmul atr (stop_atr_buffer k)) target = (stop, risk, reward)"
      and f: "finish_plan dir lower upper planned stop risk reward target net_risk net_reward
         (dmul planned fee_rate) (dmul target fee_rate) max_leverage (plan_sizing k net_risk step)
         (dmul (plan_sizing k net_risk step) planned) k = Inr (Some p, ws)"
    define x where "x = dmul (ddivn risk planned) (liquidation_buffer_multiplier k)"
    have x: "0 < x" unfolding x_def
      using h planned_pos strategy_config_wfD(6) [OF k] by (intro dmul_pos ddivn_pos) simp_all
    have risk: "dabs (planned - stop) = risk"
      using h(4,5) by (cases dir) (auto simp: plan_prices_def Let_def dabs_def dsub_def)
    from finish_planD(15) [OF f] obtain safe where q: "quantize_cents_down (ddivn 1 x) = Inr safe"
      and l: "tp_recommended_leverage p = max 1 (min (min (maximum_display_leverage k) max_leverage) safe)"
      unfolding x_def by blast
    have "ddivn 1 x \<le> (1 + half_ulp) * (1 / x)"
      unfolding ddivn_def using x by (intro rnd_scale) simp
    moreover have "safe \<le> ddivn 1 x" using quantize_cents_down_le [OF _ q] x by (simp add: ddivn_nonneg)
    ultimately have "safe \<le> (1 + half_ulp) / x" by simp
    then have "safe * x \<le> 1 + half_ulp" using x by (simp add: pos_le_divide_eq)
    moreover have "tp_recommended_leverage p = 1 \<or> tp_recommended_leverage p \<le> max_leverage \<and>
        tp_recommended_leverage p \<le> safe"
      unfolding l by (auto simp: max_def min_def)
    ultimately show ?thesis
      unfolding finish_planD(3,4) [OF f] risk x_def [symmetric]
      using mult_right_mono [of "tp_recommended_leverage p" safe x] x by (meson less_imp_le order_trans)
  qed
qed

lemma plan_net_le_gross:
  assumes plan: "build_trade_plan dir lower upper atr target fee_rate max_leverage step minimum_notional k
      = Inr (Some p, ws)"
    and "0 \<le> fee_rate" "0 \<le> target"
  shows "0 < tp_net_reward_to_risk p \<and> tp_net_reward_to_risk p \<le> tp_gross_reward_to_risk p"
  using plan
proof (rule build_trade_planD)
  fix planned stop risk reward net_risk net_reward
  assume h: "0 < lower" "lower < upper" "planned = dhalf (dadd lower upper)" "0 < stop" "0 < risk" "0 < reward"
      "0 < net_reward"
      "plan_prices dir lower upper planned (dmul atr (stop_atr_buffer k)) target = (stop, risk, reward)"
      "net_risk = dadd (dadd risk (dmul planned fee_rate)) (dmul stop fee_rate)"
      "net_reward = dsub (dsub reward (dmul planned fee_rate)) (dmul target fee_rate)"
    and f: "finish_plan dir lower upper planned stop risk reward target net_risk net_reward
       (dmul planned fee_rate) (dmul target fee_rate) max_leverage (plan_sizing k net_risk step)
       (dmul (plan_sizing k net_risk step) planned) k = Inr (Some p, ws)"
  have p0: "0 < planned" using h planned_pos by simp
  have rounded: "rnd risk = risk" "rnd reward = reward"
    using h(8) by (cases dir; auto simp: plan_prices_def Let_def)+
  have "risk \<le> dadd risk (dmul planned fee_rate)"
    using rounded p0 assms by (intro dadd_ge dmul_nonneg) simp_all
  also have "\<dots> \<le> net_risk" unfolding h(9) using h assms by (intro dadd_ge dmul_nonneg) simp_all
  finally have nr: "risk \<le> net_risk" .
  have "net_reward \<le> dsub reward (dmul planned fee_rate)"
    unfolding h(10) using assms by (intro dsub_le dmul_nonneg) simp_all
  also have "\<dots> \<le> reward" using rounded p0 assms by (intro dsub_le dmul_nonneg) simp_all
  finally have "net_reward / net_risk \<le> reward / risk"
    using nr h by (intro frac_le) simp_all
  then have "ddivn net_reward net_risk \<le> ddivn reward risk" unfolding ddivn_def by (rule rnd_mono)
  moreover have "0 < ddivn net_reward net_risk" using h nr by (intro ddivn_pos) simp_all
  ultimately show ?thesis by (simp add: finish_planD [OF f])
qed

text \<open>With a valid configuration and a non-negative fee no division fails: the only exception left
  is the overflow of \<open>quantize\<close> when the stop is closer than \<open>10^-26\<close> of the price.\<close>

lemma plan_raises_only_quantize:
  assumes k: "strategy_config_wf k" and fee: "0 \<le> fee_rate"
    and plan: "build_trade_plan dir lower upper atr target fee_rate max_leverage step minimum_notional k = Inl e"
  shows "e = InvalidOperation"
    and "\<exists>planned stop risk reward. planned = dhalf (dadd lower upper) \<and>
      plan_prices dir lower upper planned (dmul atr (stop_atr_buffer k)) target = (stop, risk, reward) \<and>
      0 < risk \<and> quantize_cents_down (ddivn 1 (dmul (ddivn risk planned) (liquidation_buffer_multiplier k)))
        = Inl InvalidOperation"
proof -
  define planned where "planned = dhalf (dadd lower upper)"
  obtain stop risk reward where prices: "plan_prices dir lower upper planned
      (dmul atr (stop_atr_buffer k)) target = (stop, risk, reward)"
    by (metis prod_cases3)
  define entry_fee where "entry_fee = dmul planned fee_rate"
  define net_risk where "net_risk = dadd (dadd risk entry_fee) (dmul stop fee_rate)"
  define x where "x = dmul (ddivn risk planned) (liquidation_buffer_multiplier k)"
  note body = plan [unfolded build_trade_plan_def Let_def, folded planned_def, unfolded prices prod.case,
      folded entry_fee_def, folded net_risk_def]
  have h: "0 < lower" "lower < upper" "0 < step" "0 < stop" "0 < risk" "0 < reward"
    using body by (auto split: if_splits)
  have p0: "0 < planned" using h planned_pos by (simp add: planned_def)
  have nr: "0 < net_risk" unfolding net_risk_def entry_fee_def using h p0 fee by (intro net_risk_pos)
  have x: "0 < x" unfolding x_def
    using h p0 strategy_config_wfD(6) [OF k] by (intro dmul_pos ddivn_pos) simp_all
  obtain nrew ef q n where f: "finish_plan dir lower upper planned stop risk reward target net_risk nrew entry_fee
      ef max_leverage q n k = Inl e"
    using body h nr by (auto simp: ddiv_ok split: if_splits)
  have e: "e = InvalidOperation \<and> quantize_cents_down (ddivn 1 x) = Inl InvalidOperation"
  proof (cases "quantize_cents_down (ddivn 1 x)")
    case (Inl e')
    then have "e' = InvalidOperation" by (auto simp: quantize_cents_down_def Let_def split: if_splits)
    with f Inl show ?thesis using h p0 nr x
      by (simp add: finish_plan_def ddiv_ok x_def)
  next
    case (Inr safe)
    have "max 1 y \<noteq> 0" for y :: dec by (simp add: max_def)
    with f Inr show ?thesis using h p0 nr x
      by (simp add: finish_plan_def ddiv_ok x_def Let_def del: max_def)
  qed
  then show "e = InvalidOperation" by simp
  show "\<exists>planned stop risk reward. planned = dhalf (dadd lower upper) \<and>
      plan_prices dir lower upper planned (dmul atr (stop_atr_buffer k)) target = (stop, risk, reward) \<and>
      0 < risk \<and> quantize_cents_down (ddivn 1 (dmul (ddivn risk planned) (liquidation_buffer_multiplier k)))
        = Inl InvalidOperation"
    using e prices h unfolding x_def planned_def by blast
qed

text \<open>A refusal always names its reason.\<close>

lemma finish_plan_Some: "finish_plan dir lower upper planned stop risk reward target net_risk net_reward
    entry_fee exit_fee max_leverage quantity notional k \<noteq> Inr (None, ws)"
  by (simp add: finish_plan_def Let_def)

lemma build_trade_plan_refusal:
  "build_trade_plan dir lower upper atr target fee_rate max_leverage step minimum_notional k = Inr (None, ws)
    \<Longrightarrow> ws \<noteq> []"
  by (auto simp: build_trade_plan_def Let_def finish_plan_Some split: if_splits prod.splits)

section \<open>Properties\<close>

text \<open>A plan that is made, and a zone so narrow that none can be.\<close>

definition sample_tight :: strategy_config where
  "sample_tight = default_strategy_config\<lparr>reference_balance := 100, liquidation_buffer_multiplier := 2\<rparr>"

lemma sample_tight_wf: "strategy_config_wf sample_tight"
  by (simp add: strategy_config_wf_def mk_strategy_config_def sample_tight_def default_strategy_config_def
      mk_score_weights_def default_score_weights_def weight_values_def default_smc_config_wf)

definition tiny :: dec where "tiny = 1 / 10 ^ 27"

lemma tight_values:
  "dhalf (dadd (1 - tiny) (1 + tiny)) = 1" "dmul (10 * tiny) (1/10) = tiny"
  "dsub (1 - tiny) tiny = 1 - 2 * tiny" "dsub 1 (1 - 2 * tiny) = 2 * tiny"
  "dsub 130 1 = 129" "dmul 1 0 = 0" "dmul (1 - 2 * tiny) 0 = 0" "dmul 130 0 = 0"
  "dadd (2 * tiny) 0 = 2 * tiny" "dsub 129 0 = 129" "ddivn (2 * tiny) 1 = 2 * tiny" "dmul (2 * tiny) 2 = 4 * tiny"
  "quantize_cents_down (ddivn 1 (4 * tiny)) = Inl InvalidOperation"
  "dmul 100 (1/100) = 1" "ddivn (ddivn 1 (2 * tiny)) 1 = 500000000000000000000000000"
  "dmul (to_integral_down 500000000000000000000000000) 1 = 500000000000000000000000000" "dmul 500000000000000000000000000 1 = 500000000000000000000000000"
  "\<not> 1 - tiny \<le> 0" "\<not> 1 + tiny \<le> 1 - tiny" "\<not> tiny \<le> 0" "\<not> 1 - 2 * tiny \<le> 0" "tiny \<noteq> 0" "\<not> 1 \<le> tiny" "0 < tiny" "\<not> 1 \<le> 2 * tiny"
  unfolding tiny_def by code_simp+

lemma tight_plan_raises:
  "build_trade_plan Long (1 - tiny) (1 + tiny) (10 * tiny) 130 0 100 1 5 sample_tight = Inl InvalidOperation"
  by (simp add: build_trade_plan_def plan_prices_def finish_plan_def config_risk_amount_def sample_tight_def
      default_strategy_config_def ddiv_ok Let_def tight_values)
lemma sample_plan_values:
  "dhalf (dadd 80 120) = 100" "dmul 200 (1/10) = 20" "dsub 80 20 = 60" "dsub 100 60 = 40" "dsub 400 100 = 300"
  "dmul 100 (3/500) = 3/5" "dmul 60 (3/500) = 9/25" "dadd (dadd 40 (3/5)) (9/25) = 1024/25"
  "dmul 400 (3/500) = 12/5" "dsub 300 (3/5) = 1497/5" "dsub (1497/5) (12/5) = 297" "dmul 10000 (1/100) = 100"
  "ddivn 100 (1024/25) = 625/256" "ddivn (625/256) (1/1000) = 78125/32" "to_integral_down (78125/32) = 2441"
  "dmul 2441 (1/1000) = 2441/1000" "dmul (2441/1000) 100 = 2441/10"
  "ddivn 40 100 = 2/5" "dmul (2/5) (3/2) = 3/5" "quantize_cents_down (ddivn 1 (3/5)) = Inr (83/50)"
  "ddivn 297 (1024/25) = 7425/1024"
  by code_simp+
lemma sample_plan_exists:
  "\<exists>p ws. build_trade_plan Long 80 120 200 400 (3/500) 100 (1/1000) 5 default_strategy_config = Inr (Some p, ws) \<and>
     tp_net_reward_to_risk p = 7425/1024"
  by (simp add: build_trade_plan_def plan_prices_def finish_plan_def config_risk_amount_def default_strategy_config_def
      ddiv_ok Let_def sample_plan_values)

text \<open>C4: The quantity of a plan never risks more than the configured amount.  The loss of entering
  at the planned price and leaving at the stop, recomputed in exact arithmetic from the plan's
  quantity, entry and stop with the taker fee on both sides, is at most the balance's risk
  fraction up to six relative roundings of the 28-digit arithmetic; and the loss the plan
  displays is that loss up to four roundings and at most the displayed risk amount up to four.\<close>

theorem plan_loss_within_risk:
  assumes "build_trade_plan dir lower upper atr target fee_rate max_leverage step minimum_notional k
      = Inr (Some p, ws)"
    and "strategy_config_wf k" "0 \<le> fee_rate"
  shows "tp_quantity p * (\<bar>tp_planned_entry p - tp_stop_loss p\<bar> +
      tp_planned_entry p * fee_rate + tp_stop_loss p * fee_rate) \<le> drift ^ 6 * config_risk_amount k \<and>
    near 4 (tp_estimated_loss_at_stop p) (tp_quantity p * (\<bar>tp_planned_entry p - tp_stop_loss p\<bar> +
      tp_planned_entry p * fee_rate + tp_stop_loss p * fee_rate)) \<and>
    tp_estimated_loss_at_stop p \<le> (1 + half_ulp) ^ 4 * tp_risk_amount p \<and>
    tp_risk_amount p = config_risk_amount k"
proof -
  have "tp_risk_amount p = config_risk_amount k"
    by (rule build_trade_planD [OF assms(1)]) (drule finish_planD(9), assumption)
  then show ?thesis
    using plan_loss_bound [OF assms] plan_exact_loss [OF assms] by (simp add: exact_loss_at_stop_def)
qed

lemma plan_loss_within_risk_witness:
  "\<exists>p ws. build_trade_plan Long 80 120 200 400 (3/500) 100 (1/1000) 5 default_strategy_config
      = Inr (Some p, ws) \<and>
    tp_quantity p * (\<bar>tp_planned_entry p - tp_stop_loss p\<bar> + tp_planned_entry p * (3/500) + tp_stop_loss p * (3/500))
      \<le> drift ^ 6 * 100 \<and> tp_estimated_loss_at_stop p \<le> (1 + half_ulp) ^ 4 * tp_risk_amount p"
proof -
  obtain p ws where p: "build_trade_plan Long 80 120 200 400 (3/500) 100 (1/1000) 5 default_strategy_config = Inr (Some p, ws)"
    using sample_plan_exists by blast
  have "config_risk_amount default_strategy_config = 100"
    by (simp add: config_risk_amount_def default_strategy_config_def sample_plan_values)
  then show ?thesis using plan_loss_within_risk [OF p default_strategy_config_wf] p by auto
qed

text \<open>The prices of a plan are ordered: the stop on the losing side of the planned entry and above
  zero, both targets on the winning side, and the invalidation at the stop.\<close>

theorem plan_prices_ordered:
  assumes "build_trade_plan dir lower upper atr target fee_rate max_leverage step minimum_notional k
      = Inr (Some p, ws)"
    and "0 \<le> take_profit_1_r_multiple k"
  shows "0 < tp_stop_loss p \<and> (case dir of
      Long \<Rightarrow> tp_stop_loss p < tp_planned_entry p \<and> tp_planned_entry p \<le> tp_take_profit_1 p \<and>
        tp_planned_entry p < tp_take_profit_2 p \<and> tp_invalidation p = Close_Below (tp_stop_loss p)
    | Short \<Rightarrow> tp_planned_entry p < tp_stop_loss p \<and> tp_take_profit_1 p \<le> tp_planned_entry p \<and>
        tp_take_profit_2 p < tp_planned_entry p \<and> tp_invalidation p = Close_Above (tp_stop_loss p))"
  by (rule plan_geometry [OF assms])

lemma plan_prices_ordered_witness:
  "\<exists>p ws. build_trade_plan Long 80 120 200 400 (3/500) 100 (1/1000) 5 default_strategy_config
      = Inr (Some p, ws) \<and> tp_stop_loss p < tp_planned_entry p \<and> tp_planned_entry p < tp_take_profit_2 p"
proof -
  obtain p ws where p: "build_trade_plan Long 80 120 200 400 (3/500) 100 (1/1000) 5 default_strategy_config = Inr (Some p, ws)"
    using sample_plan_exists by blast
  have "0 \<le> take_profit_1_r_multiple default_strategy_config" by (simp add: default_strategy_config_def)
  from plan_prices_ordered [OF p this] p show ?thesis by auto
qed

text \<open>The recommended leverage lies between one and the displayed maximum, and above one it respects
  the instrument's maximum and the liquidation buffer: leverage times the stop's distance times the
  buffer multiplier stays below one, up to rounding.\<close>

theorem plan_leverage_keeps_buffer:
  assumes "build_trade_plan dir lower upper atr target fee_rate max_leverage step minimum_notional k
      = Inr (Some p, ws)"
    and "strategy_config_wf k"
  shows "1 \<le> tp_recommended_leverage p \<and> tp_recommended_leverage p \<le> maximum_display_leverage k \<and>
    (tp_recommended_leverage p = 1 \<or> tp_recommended_leverage p \<le> max_leverage \<and>
      tp_recommended_leverage p * dmul (ddivn (dabs (tp_planned_entry p - tp_stop_loss p)) (tp_planned_entry p))
        (liquidation_buffer_multiplier k) \<le> 1 + half_ulp)"
  using plan_leverage [OF assms] by blast

lemma plan_leverage_keeps_buffer_witness:
  "\<exists>p ws. build_trade_plan Long 80 120 200 400 (3/500) 100 (1/1000) 5 default_strategy_config
      = Inr (Some p, ws) \<and> 1 \<le> tp_recommended_leverage p \<and> tp_recommended_leverage p \<le> 20"
proof -
  obtain p ws where p: "build_trade_plan Long 80 120 200 400 (3/500) 100 (1/1000) 5 default_strategy_config = Inr (Some p, ws)"
    using sample_plan_exists by blast
  have "maximum_display_leverage default_strategy_config = 20" by (simp add: default_strategy_config_def)
  with plan_leverage_keeps_buffer [OF p default_strategy_config_wf] p show ?thesis by auto
qed

text \<open>Fees only cost: the net reward-to-risk ratio of a plan is positive and never exceeds the gross
  one.\<close>

theorem plan_net_ratio_at_most_gross:
  assumes "build_trade_plan dir lower upper atr target fee_rate max_leverage step minimum_notional k
      = Inr (Some p, ws)"
    and "0 \<le> fee_rate" "0 \<le> target"
  shows "0 < tp_net_reward_to_risk p \<and> tp_net_reward_to_risk p \<le> tp_gross_reward_to_risk p"
  by (rule plan_net_le_gross [OF assms])

lemma plan_net_ratio_at_most_gross_witness:
  "\<exists>p ws. build_trade_plan Long 80 120 200 400 (3/500) 100 (1/1000) 5 default_strategy_config
      = Inr (Some p, ws) \<and> tp_net_reward_to_risk p \<le> tp_gross_reward_to_risk p"
proof -
  obtain p ws where p: "build_trade_plan Long 80 120 200 400 (3/500) 100 (1/1000) 5 default_strategy_config = Inr (Some p, ws)"
    using sample_plan_exists by blast
  show ?thesis using plan_net_ratio_at_most_gross [OF p] p by auto
qed

text \<open>Under a validated configuration the only exception of \<open>build_trade_plan\<close> is that of
  \<open>quantize\<close>, and it comes from a stop so close to the entry that the leverage it would allow does
  not fit 28 digits; no division is by zero.\<close>

theorem plan_error_is_quantize:
  assumes "strategy_config_wf k" "0 \<le> fee_rate"
    and "build_trade_plan dir lower upper atr target fee_rate max_leverage step minimum_notional k = Inl e"
  shows "e = InvalidOperation \<and> (\<exists>planned stop risk reward. planned = dhalf (dadd lower upper) \<and>
    plan_prices dir lower upper planned (dmul atr (stop_atr_buffer k)) target = (stop, risk, reward) \<and>
    0 < risk \<and> quantize_cents_down (ddivn 1 (dmul (ddivn risk planned) (liquidation_buffer_multiplier k)))
      = Inl InvalidOperation)"
  using plan_raises_only_quantize [OF assms] by blast

lemma plan_error_is_quantize_witness:
  "\<exists>stop risk reward. build_trade_plan Long (1 - tiny) (1 + tiny) (10 * tiny) 130 0 100 1 5 sample_tight
      = Inl InvalidOperation \<and>
     plan_prices Long (1 - tiny) (1 + tiny) (dhalf (dadd (1 - tiny) (1 + tiny)))
       (dmul (10 * tiny) (stop_atr_buffer sample_tight)) 130 = (stop, risk, reward) \<and> 0 < risk"
  using plan_error_is_quantize [OF sample_tight_wf _ tight_plan_raises] tight_plan_raises by auto

end
