(* ===== verification/Signal_States.thy ===== *)
theory Signal_States
  imports Candles
begin

text \<open>
  \<open>src/src/crypto_smc/signals/state_machine.py\<close>: the statuses of a signal and of its virtual trade,
  the two transition tables and the two checked transitions; and the mapping of a signal status to
  the status its virtual trade takes (\<open>_virtual_trade_target\<close> of \<open>db/repositories/signals.py\<close>).
  The tables are functions to sets, so a status that the table lacks cannot occur. Both machines
  are instances of one interface, a transition relation that decreases a rank.
\<close>

section \<open>The two tables\<close>

datatype signal_status =
    Sg_Suppressed | Sg_Preparing | Sg_Active | Sg_Expired | Sg_Invalidated | Sg_Entered
  | Sg_Stopped | Sg_Tp1_Reached | Sg_Stopped_At_Breakeven | Sg_Tp2_Completed | Sg_Ambiguous
  | Sg_Coverage_Failed

datatype trade_status =
    Vt_Waiting_Entry | Vt_Entered | Vt_Tp1_Reached | Vt_Stopped | Vt_Stopped_At_Breakeven
  | Vt_Tp2_Completed | Vt_Expired | Vt_Invalidated | Vt_Ambiguous | Vt_Coverage_Failed

fun signal_transitions :: "signal_status \<Rightarrow> signal_status set" where
  "signal_transitions Sg_Preparing = {Sg_Active, Sg_Coverage_Failed, Sg_Expired}"
| "signal_transitions Sg_Active =
     {Sg_Entered, Sg_Expired, Sg_Invalidated, Sg_Ambiguous, Sg_Coverage_Failed}"
| "signal_transitions Sg_Entered = {Sg_Stopped, Sg_Tp1_Reached, Sg_Ambiguous}"
| "signal_transitions Sg_Tp1_Reached = {Sg_Stopped_At_Breakeven, Sg_Tp2_Completed, Sg_Ambiguous}"
| "signal_transitions _ = {}"

fun trade_transitions :: "trade_status \<Rightarrow> trade_status set" where
  "trade_transitions Vt_Waiting_Entry =
     {Vt_Entered, Vt_Expired, Vt_Invalidated, Vt_Ambiguous, Vt_Coverage_Failed}"
| "trade_transitions Vt_Entered = {Vt_Stopped, Vt_Tp1_Reached, Vt_Ambiguous}"
| "trade_transitions Vt_Tp1_Reached = {Vt_Stopped_At_Breakeven, Vt_Tp2_Completed, Vt_Ambiguous}"
| "trade_transitions _ = {}"

fun signal_status_name :: "signal_status \<Rightarrow> string" where
  "signal_status_name Sg_Suppressed = ''suppressed''"
| "signal_status_name Sg_Preparing = ''preparing''"
| "signal_status_name Sg_Active = ''active''"
| "signal_status_name Sg_Expired = ''expired''"
| "signal_status_name Sg_Invalidated = ''invalidated''"
| "signal_status_name Sg_Entered = ''entered''"
| "signal_status_name Sg_Stopped = ''stopped''"
| "signal_status_name Sg_Tp1_Reached = ''tp1_reached''"
| "signal_status_name Sg_Stopped_At_Breakeven = ''stopped_at_breakeven''"
| "signal_status_name Sg_Tp2_Completed = ''tp2_completed''"
| "signal_status_name Sg_Ambiguous = ''ambiguous''"
| "signal_status_name Sg_Coverage_Failed = ''coverage_failed''"

fun trade_status_name :: "trade_status \<Rightarrow> string" where
  "trade_status_name Vt_Waiting_Entry = ''waiting_entry''"
| "trade_status_name Vt_Entered = ''entered''"
| "trade_status_name Vt_Tp1_Reached = ''tp1_reached''"
| "trade_status_name Vt_Stopped = ''stopped''"
| "trade_status_name Vt_Stopped_At_Breakeven = ''stopped_at_breakeven''"
| "trade_status_name Vt_Tp2_Completed = ''tp2_completed''"
| "trade_status_name Vt_Expired = ''expired''"
| "trade_status_name Vt_Invalidated = ''invalidated''"
| "trade_status_name Vt_Ambiguous = ''ambiguous''"
| "trade_status_name Vt_Coverage_Failed = ''coverage_failed''"

definition transition_signal :: "signal_status \<Rightarrow> signal_status \<Rightarrow> signal_status res" where
  "transition_signal current target =
     rbind (raise_if (target \<notin> signal_transitions current)
       (ValueError (''Invalid signal transition: '' @ signal_status_name current @ '' -> '' @
          signal_status_name target))) (\<lambda>_.
     Inr target)"

definition transition_virtual_trade :: "trade_status \<Rightarrow> trade_status \<Rightarrow> trade_status res" where
  "transition_virtual_trade current target =
     rbind (raise_if (target \<notin> trade_transitions current)
       (ValueError (''Invalid virtual trade transition: '' @ trade_status_name current @ '' -> '' @
          trade_status_name target))) (\<lambda>_.
     Inr target)"

definition active_signal_statuses :: "signal_status set" where
  "active_signal_statuses = {Sg_Preparing, Sg_Active, Sg_Entered, Sg_Tp1_Reached}"

definition terminal_signal_statuses :: "signal_status set" where
  "terminal_signal_statuses = {Sg_Expired, Sg_Invalidated, Sg_Stopped, Sg_Stopped_At_Breakeven,
     Sg_Tp2_Completed, Sg_Ambiguous, Sg_Coverage_Failed}"

definition published_signal_statuses :: "signal_status set" where
  "published_signal_statuses = active_signal_statuses \<union> {Sg_Expired, Sg_Invalidated, Sg_Stopped,
     Sg_Stopped_At_Breakeven, Sg_Tp2_Completed, Sg_Ambiguous, Sg_Coverage_Failed}"

fun virtual_trade_target :: "signal_status \<Rightarrow> trade_status option" where
  "virtual_trade_target Sg_Preparing = None"
| "virtual_trade_target Sg_Active = None"
| "virtual_trade_target Sg_Suppressed = Some Vt_Coverage_Failed"
| "virtual_trade_target Sg_Expired = Some Vt_Expired"
| "virtual_trade_target Sg_Invalidated = Some Vt_Invalidated"
| "virtual_trade_target Sg_Entered = Some Vt_Entered"
| "virtual_trade_target Sg_Stopped = Some Vt_Stopped"
| "virtual_trade_target Sg_Tp1_Reached = Some Vt_Tp1_Reached"
| "virtual_trade_target Sg_Stopped_At_Breakeven = Some Vt_Stopped_At_Breakeven"
| "virtual_trade_target Sg_Tp2_Completed = Some Vt_Tp2_Completed"
| "virtual_trade_target Sg_Ambiguous = Some Vt_Ambiguous"
| "virtual_trade_target Sg_Coverage_Failed = Some Vt_Coverage_Failed"

lemmas status_sets = active_signal_statuses_def terminal_signal_statuses_def published_signal_statuses_def

section \<open>Runs of a machine\<close>

text \<open>\<open>walk f s ts u\<close>: from \<open>s\<close> the machine takes the transitions to \<open>ts\<close>, one after the other,
  and is then in \<open>u\<close>.\<close>

inductive walk :: "('s \<Rightarrow> 's set) \<Rightarrow> 's \<Rightarrow> 's list \<Rightarrow> 's \<Rightarrow> bool" for f where
  walk_stop: "walk f s [] s"
| walk_step: "t \<in> f s \<Longrightarrow> walk f t ts u \<Longrightarrow> walk f s (t # ts) u"

inductive_simps walk_Nil [simp]: "walk f s [] u"
inductive_simps walk_Cons [simp]: "walk f s (t # ts) u"

lemma walk_append: "walk f s ts u \<Longrightarrow> walk f u us v \<Longrightarrow> walk f s (ts @ us) v"
  by (induction rule: walk.induct) auto

lemma walk_append_iff: "walk f s (ts @ us) v \<longleftrightarrow> (\<exists>u. walk f s ts u \<and> walk f u us v)"
  by (induction ts arbitrary: s) auto

lemma walk_last: "walk f s ts u \<Longrightarrow> u = last (s # ts)"
  by (induction rule: walk.induct) auto

text \<open>The interface of both machines: every transition decreases the rank.\<close>

locale ranked_machine =
  fixes succs :: "'s \<Rightarrow> 's set" and rank :: "'s \<Rightarrow> nat"
  assumes decreases: "t \<in> succs s \<Longrightarrow> rank t < rank s"
begin

lemma run_rank: "walk succs s ts u \<Longrightarrow> rank u + length ts \<le> rank s"
proof (induction rule: walk.induct)
  case (walk_step t s ts u)
  then show ?case using decreases [of t s] by simp
qed simp

lemma run_bounded: "walk succs s ts u \<Longrightarrow> length ts \<le> rank s"
  using run_rank by fastforce

lemma run_member: "walk succs s ts u \<Longrightarrow> t \<in> set ts \<Longrightarrow> rank t < rank s"
proof (induction rule: walk.induct)
  case (walk_step t' s ts u)
  then show ?case using decreases [of t' s] by fastforce
qed simp

text \<open>No status is taken twice.\<close>

lemma run_distinct: "walk succs s ts u \<Longrightarrow> distinct (s # ts)"
proof (induction rule: walk.induct)
  case (walk_step t s ts u)
  then have "walk succs s (t # ts) u" by simp
  from run_member [OF this] have "s \<notin> set (t # ts)" by blast
  with walk_step.IH show ?case by simp
qed simp

text \<open>From every status some run ends in a terminal one.\<close>

lemma run_to_terminal: "\<exists>ts u. walk succs s ts u \<and> succs u = {}"
proof (induction "rank s" arbitrary: s rule: less_induct)
  case less
  show ?case
  proof (cases "succs s = {}")
    case True
    then show ?thesis by (intro exI [of _ "[]"]) auto
  next
    case False
    then obtain t where t: "t \<in> succs s" by blast
    from less [OF decreases [OF this]] obtain ts u where "walk succs t ts u" "succs u = {}" by blast
    with t show ?thesis by (intro exI [of _ "t # ts"]) auto
  qed
qed

lemma terminal_stays: "succs s = {} \<Longrightarrow> walk succs s ts u \<Longrightarrow> ts = [] \<and> u = s"
  by (cases ts) auto

end

fun signal_rank :: "signal_status \<Rightarrow> nat" where
  "signal_rank Sg_Preparing = 4"
| "signal_rank Sg_Active = 3"
| "signal_rank Sg_Entered = 2"
| "signal_rank Sg_Tp1_Reached = 1"
| "signal_rank _ = 0"

fun trade_rank :: "trade_status \<Rightarrow> nat" where
  "trade_rank Vt_Waiting_Entry = 3"
| "trade_rank Vt_Entered = 2"
| "trade_rank Vt_Tp1_Reached = 1"
| "trade_rank _ = 0"

interpretation signal_machine: ranked_machine signal_transitions signal_rank
proof
  show "signal_rank t < signal_rank s" if "t \<in> signal_transitions s" for s t
    using that by (cases s) auto
qed

interpretation trade_machine: ranked_machine trade_transitions trade_rank
proof
  show "trade_rank t < trade_rank s" if "t \<in> trade_transitions s" for s t
    using that by (cases s) auto
qed

lemma transition_signal_Inr [simp]:
  "transition_signal current target = Inr s \<longleftrightarrow> target \<in> signal_transitions current \<and> s = target"
  by (auto simp: transition_signal_def)

lemma transition_virtual_trade_Inr [simp]:
  "transition_virtual_trade current target = Inr s \<longleftrightarrow> target \<in> trade_transitions current \<and> s = target"
  by (auto simp: transition_virtual_trade_def)

text \<open>A signal has no further transition exactly when it is closed or was never published.\<close>

lemma signal_terminal_iff:
  "signal_transitions s = {} \<longleftrightarrow> s \<in> terminal_signal_statuses \<or> s = Sg_Suppressed"
  by (cases s) (simp_all add: status_sets)

lemma active_iff_not_terminal:
  "s \<in> active_signal_statuses \<longleftrightarrow> signal_transitions s \<noteq> {}"
  by (cases s) (simp_all add: status_sets)

lemma published_iff: "s \<in> published_signal_statuses \<longleftrightarrow> s \<noteq> Sg_Suppressed"
  by (cases s) (simp_all add: status_sets)

text \<open>The virtual trade simulates the signal: the status that goes with a signal status, and the
  step it takes.\<close>

fun trade_status_of :: "signal_status \<Rightarrow> trade_status" where
  "trade_status_of s = (case virtual_trade_target s of None \<Rightarrow> Vt_Waiting_Entry | Some t \<Rightarrow> t)"

lemma trade_follows_signal:
  assumes "t \<in> signal_transitions s"
  shows "case virtual_trade_target t of
      None \<Rightarrow> trade_status_of t = trade_status_of s
    | Some v \<Rightarrow> v = trade_status_of t \<and> v \<in> trade_transitions (trade_status_of s)"
  using assms by (cases s) auto

lemma trade_allows_no_more:
  assumes "s \<in> {Sg_Active, Sg_Entered, Sg_Tp1_Reached} \<union> terminal_signal_statuses"
  shows "trade_transitions (trade_status_of s) = trade_status_of ` signal_transitions s"
  using assms by (cases s) (auto simp: status_sets)

section \<open>Properties\<close>

text \<open>C15: The virtual trade refines its signal: along every run of the signal's state machine, the trade
  statuses that the repository derives form a run of the trade's own state machine.\<close>

theorem virtual_trade_refines_signal:
  assumes "walk signal_transitions s ts u"
  shows "walk trade_transitions (trade_status_of s) (List.map_filter virtual_trade_target ts) (trade_status_of u)"
  using assms
proof (induction rule: walk.induct)
  case (walk_step t s ts u)
  then show ?case
    using trade_follows_signal [OF walk_step.hyps(1)]
    by (cases "virtual_trade_target t") (simp_all add: List.map_filter_def)
qed (simp add: walk_stop List.map_filter_def)

lemma virtual_trade_refines_signal_witness:
  "walk trade_transitions Vt_Waiting_Entry [Vt_Entered, Vt_Tp1_Reached, Vt_Tp2_Completed] Vt_Tp2_Completed"
  using virtual_trade_refines_signal
    [of Sg_Preparing "[Sg_Active, Sg_Entered, Sg_Tp1_Reached, Sg_Tp2_Completed]" Sg_Tp2_Completed]
  by (simp add: List.map_filter_def)



end
