(* ===== verification/Lifecycle.thy ===== *)
theory Lifecycle
  imports Trade_Plan Signal_States
begin

text \<open>
  The market events of \<open>src/src/crypto_smc/providers/models.py\<close>, and the evaluation of a tracked
  signal against one public trade and its funding cost:
  \<open>src/src/crypto_smc/signals/lifecycle.py\<close> and \<open>funding.py\<close>. \<open>evaluate_public_trade\<close> returns the
  actions to apply; it raises where the source divides by the risk amount or by \<open>1 - fee\<close>.
  A duration \<open>(end - start).total_seconds()\<close> is the exact number of seconds, which is what
  \<open>Decimal(str(\<dots>))\<close> yields for durations of up to 15 significant digits.
\<close>

section \<open>providers/models.py\<close>

datatype side = Buy | Sell

record public_trade =
  pt_trade_id :: string
  pt_symbol :: string
  pt_price :: dec
  pt_size :: dec
  pt_side :: side
  pt_executed_at :: instant
  pt_sequence :: int
  pt_is_block_trade :: bool
  pt_is_rpi_trade :: bool

record candle_1m =
  m1_symbol :: string
  m1_open_time :: instant
  m1_open :: dec
  m1_high :: dec
  m1_low :: dec
  m1_close :: dec
  m1_volume :: dec
  m1_turnover :: dec

section \<open>lifecycle.py\<close>

record lifecycle_state =
  lc_signal_id :: int
  lc_symbol :: string
  lc_direction :: trade_direction
  lc_status :: signal_status
  lc_entry_lower :: dec
  lc_entry_upper :: dec
  lc_planned_entry :: dec
  lc_stop_loss :: dec
  lc_take_profit_1 :: dec
  lc_take_profit_2 :: dec
  lc_quantity :: dec
  lc_risk_amount :: dec
  lc_taker_fee_rate :: dec
  lc_expires_at :: instant
  lc_current_stop :: dec
  lc_funding_rate :: dec
  lc_funding_interval_minutes :: int
  lc_entered_at :: "instant option"
  lc_tp1_reached_at :: "instant option"

record lifecycle_action =
  la_target :: signal_status
  la_event_type :: string
  la_realized_pnl :: "dec option"
  la_fees :: "dec option"
  la_r_multiple :: "dec option"
  la_current_stop :: "dec option"
  la_remaining_quantity :: "dec option"

text \<open>\<open>LifecycleAction(target, event_type)\<close> with every other field left at \<open>None\<close>.\<close>

definition plain_action :: "signal_status \<Rightarrow> string \<Rightarrow> lifecycle_action" where
  "plain_action target event = \<lparr>la_target = target, la_event_type = event, la_realized_pnl = None,
     la_fees = None, la_r_multiple = None, la_current_stop = None, la_remaining_quantity = None\<rparr>"

definition signed_move :: "trade_direction \<Rightarrow> dec \<Rightarrow> dec \<Rightarrow> dec" where
  "signed_move dir entry exit_price =
     (if dir = Long then dsub exit_price entry else dsub entry exit_price)"

definition beyond_stop :: "trade_direction \<Rightarrow> dec \<Rightarrow> dec \<Rightarrow> bool" where
  "beyond_stop dir stop price = (if dir = Long then price \<le> stop else price \<ge> stop)"

definition target_reached :: "trade_direction \<Rightarrow> dec \<Rightarrow> dec \<Rightarrow> bool" where
  "target_reached dir target price = (if dir = Long then price \<ge> target else price \<le> target)"

definition full_exit :: "lifecycle_state \<Rightarrow> dec \<Rightarrow> dec \<times> dec" where
  "full_exit st price =
     (let gross = dmul (lc_quantity st) (signed_move (lc_direction st) (lc_planned_entry st) price);
          fees = dmul (dmul (lc_quantity st) (dadd (lc_planned_entry st) price)) (lc_taker_fee_rate st)
      in (dsub gross fees, fees))"

definition tp1_result :: "lifecycle_state \<Rightarrow> dec \<times> dec" where
  "tp1_result st =
     (let half = dhalf (lc_quantity st);
          gross = dmul half (signed_move (lc_direction st) (lc_planned_entry st) (lc_take_profit_1 st));
          fees = dmul (dadd (dmul (lc_quantity st) (lc_planned_entry st)) (dmul half (lc_take_profit_1 st)))
                   (lc_taker_fee_rate st)
      in (dsub gross fees, fees))"

definition tp1_then_exit :: "lifecycle_state \<Rightarrow> dec \<Rightarrow> dec \<times> dec" where
  "tp1_then_exit st second_exit =
     (let half = dhalf (lc_quantity st);
          gross = dmul half (dadd
            (signed_move (lc_direction st) (lc_planned_entry st) (lc_take_profit_1 st))
            (signed_move (lc_direction st) (lc_planned_entry st) second_exit));
          fees = dmul (dadd (dadd (dmul (lc_quantity st) (lc_planned_entry st))
                   (dmul half (lc_take_profit_1 st))) (dmul half second_exit)) (lc_taker_fee_rate st)
      in (dsub gross fees, fees))"

definition fee_adjusted_breakeven :: "lifecycle_state \<Rightarrow> dec res" where
  "fee_adjusted_breakeven st =
     (let fee = lc_taker_fee_rate st in
      if lc_direction st = Long
      then ddiv (dmul (lc_planned_entry st) (dadd 1 fee)) (dsub 1 fee)
      else ddiv (dmul (lc_planned_entry st) (dsub 1 fee)) (dadd 1 fee))"

text \<open>A filled exit that closes the position, and the first take-profit.\<close>

definition closing_action :: "lifecycle_state \<Rightarrow> signal_status \<Rightarrow> string \<Rightarrow> dec \<times> dec \<Rightarrow> lifecycle_action res" where
  "closing_action st target event result =
     (case result of (pnl, fees) \<Rightarrow>
        rbind (ddiv pnl (lc_risk_amount st)) (\<lambda>r.
        Inr \<lparr>la_target = target, la_event_type = event, la_realized_pnl = Some pnl,
          la_fees = Some fees, la_r_multiple = Some r, la_current_stop = None,
          la_remaining_quantity = Some 0\<rparr>))"

definition tp1_action :: "lifecycle_state \<Rightarrow> lifecycle_action res" where
  "tp1_action st =
     (case tp1_result st of (pnl, fees) \<Rightarrow>
        rbind (ddiv pnl (lc_risk_amount st)) (\<lambda>r.
        rbind (fee_adjusted_breakeven st) (\<lambda>stop.
        Inr \<lparr>la_target = Sg_Tp1_Reached, la_event_type = ''take_profit_1_filled'',
          la_realized_pnl = Some pnl, la_fees = Some fees, la_r_multiple = Some r,
          la_current_stop = Some stop, la_remaining_quantity = Some (dhalf (lc_quantity st))\<rparr>)))"

definition tp1_and_tp2 :: "lifecycle_state \<Rightarrow> lifecycle_action list res" where
  "tp1_and_tp2 st =
     rbind (tp1_action st) (\<lambda>first.
     rbind (closing_action st Sg_Tp2_Completed ''take_profit_2_filled''
       (tp1_then_exit st (lc_take_profit_2 st))) (\<lambda>second.
     Inr [first, second]))"

definition entry_action :: "lifecycle_state \<Rightarrow> lifecycle_action res" where
  "entry_action st =
     (let entry_fee = dmul (dmul (lc_quantity st) (lc_planned_entry st)) (lc_taker_fee_rate st) in
      rbind (ddiv (dneg entry_fee) (lc_risk_amount st)) (\<lambda>r.
      Inr \<lparr>la_target = Sg_Entered, la_event_type = ''entry_filled'',
        la_realized_pnl = Some (dneg entry_fee), la_fees = Some entry_fee, la_r_multiple = Some r,
        la_current_stop = None, la_remaining_quantity = None\<rparr>))"

definition evaluate_public_trade :: "lifecycle_state \<Rightarrow> public_trade \<Rightarrow> lifecycle_action list res" where
  "evaluate_public_trade st trade =
     (let dir = lc_direction st; price = pt_price trade in
      if pt_symbol trade \<noteq> lc_symbol st then Inr []
      else case lc_status st of
        Sg_Active \<Rightarrow>
          if pt_executed_at trade \<ge> lc_expires_at st then Inr [plain_action Sg_Expired ''signal_expired'']
          else if beyond_stop dir (lc_stop_loss st) price
            then Inr [plain_action Sg_Invalidated ''entry_invalidated'']
          else if lc_entry_lower st \<le> price \<and> price \<le> lc_entry_upper st
            then rbind (entry_action st) (\<lambda>a. Inr [a])
          else Inr []
      | Sg_Entered \<Rightarrow>
          if beyond_stop dir (lc_current_stop st) price
            then rbind (closing_action st Sg_Stopped ''stop_loss_filled''
                   (full_exit st (lc_current_stop st))) (\<lambda>a. Inr [a])
          else if target_reached dir (lc_take_profit_2 st) price then tp1_and_tp2 st
          else if target_reached dir (lc_take_profit_1 st) price
            then rbind (tp1_action st) (\<lambda>a. Inr [a])
          else Inr []
      | Sg_Tp1_Reached \<Rightarrow>
          if beyond_stop dir (lc_current_stop st) price
            then rbind (closing_action st Sg_Stopped_At_Breakeven ''breakeven_stop_filled''
                   (tp1_then_exit st (lc_current_stop st))) (\<lambda>a. Inr [a])
          else if target_reached dir (lc_take_profit_2 st) price
            then rbind (closing_action st Sg_Tp2_Completed ''take_profit_2_filled''
                   (tp1_then_exit st (lc_take_profit_2 st))) (\<lambda>a. Inr [a])
          else Inr []
      | _ \<Rightarrow> Inr [])"

section \<open>funding.py\<close>

definition segment_cost :: "lifecycle_state \<Rightarrow> dec \<Rightarrow> dec \<Rightarrow> instant \<Rightarrow> instant \<Rightarrow> dec" where
  "segment_cost st rate quantity starts ends =
     (let secs = max 0 (of_int (ends - starts) / 1000000) in
      ddivn (dmul (dmul (dmul quantity (lc_planned_entry st)) rate) secs)
        (of_int (lc_funding_interval_minutes st * 60)))"

definition estimate_funding_cost :: "lifecycle_state \<Rightarrow> instant \<Rightarrow> signal_status \<Rightarrow> dec" where
  "estimate_funding_cost st event_time target =
     (case lc_entered_at st of
        None \<Rightarrow> 0
      | Some entered_at \<Rightarrow>
          if event_time \<le> entered_at \<or> lc_funding_interval_minutes st \<le> 0 \<or> lc_funding_rate st = 0 then 0
          else
            let rate = dmul (lc_funding_rate st) (if lc_direction st = Long then 1 else -1) in
            if target = Sg_Tp1_Reached then segment_cost st rate (lc_quantity st) entered_at event_time
            else (case lc_tp1_reached_at st of
                None \<Rightarrow> segment_cost st rate (lc_quantity st) entered_at event_time
              | Some tp1 \<Rightarrow>
                  let tp1_time = min (max tp1 entered_at) event_time in
                  dadd (segment_cost st rate (lc_quantity st) entered_at tp1_time)
                    (segment_cost st rate (dhalf (lc_quantity st)) tp1_time event_time)))"

section \<open>Which actions a trade causes\<close>

lemmas action_defs = closing_action_def tp1_action_def entry_action_def plain_action_def

lemma action_targets:
  "closing_action st target event res = Inr a \<Longrightarrow> la_target a = target"
  "tp1_action st = Inr a \<Longrightarrow> la_target a = Sg_Tp1_Reached"
  "entry_action st = Inr a \<Longrightarrow> la_target a = Sg_Entered"
  "la_target (plain_action target event) = target"
  by (auto simp: action_defs Let_def split: prod.splits)

text \<open>The targets of the actions, in order, by status.\<close>

definition possible_targets :: "signal_status \<Rightarrow> signal_status list set" where
  "possible_targets s =
     (case s of
        Sg_Active \<Rightarrow> {[], [Sg_Expired], [Sg_Invalidated], [Sg_Entered]}
      | Sg_Entered \<Rightarrow> {[], [Sg_Stopped], [Sg_Tp1_Reached], [Sg_Tp1_Reached, Sg_Tp2_Completed]}
      | Sg_Tp1_Reached \<Rightarrow> {[], [Sg_Stopped_At_Breakeven], [Sg_Tp2_Completed]}
      | _ \<Rightarrow> {[]})"

lemma evaluated_targets:
  assumes "evaluate_public_trade st trade = Inr as"
  shows "map la_target as \<in> possible_targets (lc_status st)"
  using assms
  by (cases "lc_status st")
    (auto simp: evaluate_public_trade_def possible_targets_def Let_def tp1_and_tp2_def action_targets
      split: if_splits)

lemma possible_targets_walk:
  "ts \<in> possible_targets s \<Longrightarrow> walk signal_transitions s ts (last (s # ts))"
  by (cases s) (auto simp: possible_targets_def)

lemma evaluated_walk:
  "evaluate_public_trade st trade = Inr as \<Longrightarrow>
    walk signal_transitions (lc_status st) (map la_target as) (last (lc_status st # map la_target as))"
  using possible_targets_walk evaluated_targets by blast

lemma evaluated_other_symbol: "pt_symbol trade \<noteq> lc_symbol st \<Longrightarrow> evaluate_public_trade st trade = Inr []"
  by (simp add: evaluate_public_trade_def)

lemma evaluated_inactive:
  "lc_status st \<notin> {Sg_Active, Sg_Entered, Sg_Tp1_Reached} \<Longrightarrow> evaluate_public_trade st trade = Inr []"
  by (cases "lc_status st") (simp_all add: evaluate_public_trade_def Let_def)

text \<open>The only divisors are the risk amount and \<open>1 - fee\<close> or \<open>1 + fee\<close>.\<close>

lemma breakeven_ok: "\<bar>lc_taker_fee_rate st\<bar> < 1 \<Longrightarrow> \<exists>b. fee_adjusted_breakeven st = Inr b"
  by (auto simp: fee_adjusted_breakeven_def Let_def dadd_def dsub_def ddiv_def)

lemma closing_ok: "lc_risk_amount st \<noteq> 0 \<Longrightarrow> \<exists>a. closing_action st target event res = Inr a"
  by (auto simp: closing_action_def split: prod.splits)

lemma tp1_ok: "lc_risk_amount st \<noteq> 0 \<Longrightarrow> \<bar>lc_taker_fee_rate st\<bar> < 1 \<Longrightarrow> \<exists>a. tp1_action st = Inr a"
  using breakeven_ok [of st] by (auto simp: tp1_action_def split: prod.splits)

lemma entry_ok: "lc_risk_amount st \<noteq> 0 \<Longrightarrow> \<exists>a. entry_action st = Inr a"
  by (auto simp: entry_action_def Let_def)

lemma evaluated_returns:
  assumes "lc_risk_amount st \<noteq> 0" "\<bar>lc_taker_fee_rate st\<bar> < 1"
  shows "returns (evaluate_public_trade st trade)"
proof -
  note ok = closing_ok [OF assms(1)] tp1_ok [OF assms] entry_ok [OF assms(1)]
  have "\<exists>as. tp1_and_tp2 st = Inr as"
    using ok(1) [of Sg_Tp2_Completed "''take_profit_2_filled''" "tp1_then_exit st (lc_take_profit_2 st)"] ok(2)
    by (auto simp: tp1_and_tp2_def)
  with ok show ?thesis
    by (cases "lc_status st") (auto simp: evaluate_public_trade_def Let_def returns_iff)
qed

section \<open>The money\<close>

text \<open>The stop after the first take-profit: it lies on the winning side of the entry, and its price
  pays both fees of the remaining half, up to rounding.\<close>

lemma breakeven_beyond_entry:
  assumes "0 < lc_planned_entry st" "rnd (lc_planned_entry st) = lc_planned_entry st"
    and "0 \<le> lc_taker_fee_rate st" "lc_taker_fee_rate st < 1"
    and "fee_adjusted_breakeven st = Inr stop"
  shows "if lc_direction st = Long then lc_planned_entry st \<le> stop else stop \<le> lc_planned_entry st"
proof -
  let ?p = "lc_planned_entry st" and ?f = "lc_taker_fee_rate st"
  have up: "1 \<le> dadd 1 ?f" using assms(3) by (simp add: dadd_ge)
  have down: "dsub 1 ?f \<le> 1" "0 < dsub 1 ?f" using assms(3,4) by (simp_all add: dsub_le)
  have "?p \<le> dmul ?p (dadd 1 ?f)"
    unfolding dmul_def using assms(1,2) up by (intro ctx.r_ge_fix) simp_all
  then have l: "?p \<le> ddivn (dmul ?p (dadd 1 ?f)) (dsub 1 ?f)"
    unfolding ddivn_def using assms(1,2) down
    by (intro ctx.r_ge_fix) (auto simp: pos_le_divide_eq intro: order_trans [OF mult_left_le])
  have "dmul ?p (dsub 1 ?f) \<le> ?p"
    unfolding dmul_def using assms(1,2) down by (intro ctx.r_le_fix) simp_all
  moreover have "?p \<le> ?p * dadd 1 ?f" using assms(1) up by simp
  ultimately have s: "ddivn (dmul ?p (dsub 1 ?f)) (dadd 1 ?f) \<le> ?p"
    unfolding ddivn_def using assms(2) up
    by (intro ctx.r_le_fix) (auto simp: pos_divide_le_eq)
  from assms(5) l s show ?thesis
    by (auto simp: fee_adjusted_breakeven_def Let_def split: if_splits)
qed

lemma breakeven_pays_fees:
  assumes "0 < lc_planned_entry st" "0 \<le> lc_taker_fee_rate st" "lc_taker_fee_rate st < 1"
    and "fee_adjusted_breakeven st = Inr stop"
  shows "near 4 stop (if lc_direction st = Long
      then lc_planned_entry st * (1 + lc_taker_fee_rate st) / (1 - lc_taker_fee_rate st)
      else lc_planned_entry st * (1 - lc_taker_fee_rate st) / (1 + lc_taker_fee_rate st))"
proof -
  let ?p = "lc_planned_entry st" and ?f = "lc_taker_fee_rate st"
  have up: "near 1 (dadd 1 ?f) (1 + ?f)" unfolding dadd_def using assms(2) by (intro near_rnd) simp
  have down: "near 1 (dsub 1 ?f) (1 - ?f)" using assms(3) by (intro near_dsub) simp
  have pos: "0 < dadd 1 ?f" "0 < dsub 1 ?f" "0 < 1 + ?f" "0 < 1 - ?f"
    using assms(2,3) by (simp_all add: dadd_pos)
  have p: "near 0 ?p ?p" using assms(1) by (intro near_refl) simp
  have four: "Suc (Suc (0 + 1) + 1) = 4" by simp
  note l = near_ddivn [OF near_dmul [OF p up] down pos(2,4), unfolded four]
  note s = near_ddivn [OF near_dmul [OF p down] up pos(1,3), unfolded four]
  show ?thesis
  proof (cases "lc_direction st = Long")
    case True
    with assms(4) have "stop = ddivn (dmul ?p (dadd 1 ?f)) (dsub 1 ?f)"
      by (simp add: fee_adjusted_breakeven_def Let_def)
    with l True show ?thesis by simp
  next
    case False
    with assms(4) have "stop = ddivn (dmul ?p (dsub 1 ?f)) (dadd 1 ?f)"
      by (simp add: fee_adjusted_breakeven_def Let_def)
    with s False show ?thesis by simp
  qed
qed

text \<open>Leaving the whole position at a stop loses the price risk plus both fees, up to rounding.\<close>

lemma stop_exit_loss:
  assumes "0 \<le> lc_quantity st" "0 < lc_planned_entry st" "0 < price" "0 \<le> lc_taker_fee_rate st"
    and "if lc_direction st = Long then price \<le> lc_planned_entry st else lc_planned_entry st \<le> price"
  shows "near 4 (- fst (full_exit st price))
      (lc_quantity st * \<bar>lc_planned_entry st - price\<bar> +
       lc_quantity st * (lc_planned_entry st + price) * lc_taker_fee_rate st)"
proof -
  let ?q = "lc_quantity st" and ?p = "lc_planned_entry st" and ?f = "lc_taker_fee_rate st"
  define risk where "risk = rnd \<bar>?p - price\<bar>"
  define gross where "gross = dmul ?q (signed_move (lc_direction st) ?p price)"
  define fees where "fees = dmul (dmul ?q (dadd ?p price)) ?f"
  have "signed_move (lc_direction st) ?p price = - risk"
  proof (cases "lc_direction st = Long")
    case True
    then have "\<bar>?p - price\<bar> = - (price - ?p)" using assms(5) by simp
    then have "risk = - rnd (price - ?p)" unfolding risk_def by (simp only: ctx.r_minus)
    with True show ?thesis by (simp add: signed_move_def dsub_def)
  next
    case False
    then have "\<bar>?p - price\<bar> = - (?p - price)" using assms(5) by simp
    then have "risk = - rnd (?p - price)" unfolding risk_def by (simp only: ctx.r_minus)
    with False show ?thesis by (simp add: signed_move_def dsub_def)
  qed
  then have gross: "gross = - dmul ?q risk"
    by (simp add: gross_def dmul_def ctx.r_minus)
  have "near 1 risk \<bar>?p - price\<bar>" unfolding risk_def by (rule near_rnd) simp
  from near_dmul [OF near_refl [OF assms(1), of 0] this]
  have g: "near 3 (dmul ?q risk) (?q * \<bar>?p - price\<bar>)" by (rule near_weaken) simp
  have "near 1 (dadd ?p price) (?p + price)"
    using near_dadd [OF near_refl [of ?p 0] near_refl [of price 0]] assms by simp
  from near_dmul [OF near_dmul [OF near_refl [OF assms(1), of 0] this] near_refl [OF assms(4), of 0]]
  have f: "near 3 fees (?q * (?p + price) * ?f)" by (simp add: fees_def numeral_eq_Suc)
  have "- fst (full_exit st price) = dadd (dmul ?q risk) fees"
    unfolding full_exit_def Let_def fst_conv gross_def [symmetric] fees_def [symmetric] gross
    by (simp add: dsub_def dadd_def add.commute flip: ctx.r_minus)
  with near_dadd [OF g f] show ?thesis by simp
qed

text \<open>Every action that closes the position records the whole result: no quantity remains, and the
  result is what the exit formulas give at the price the exit is booked at.\<close>

lemma stopped_action:
  assumes "evaluate_public_trade st trade = Inr as" "lc_status st = Sg_Entered" "pt_symbol trade = lc_symbol st"
    and "beyond_stop (lc_direction st) (lc_current_stop st) (pt_price trade)"
  shows "\<exists>a. as = [a] \<and> la_target a = Sg_Stopped \<and> la_remaining_quantity a = Some 0 \<and>
    la_realized_pnl a = Some (fst (full_exit st (lc_current_stop st)))"
  using assms by (auto simp: evaluate_public_trade_def closing_action_def split: prod.splits)

lemma terminal_actions_close:
  assumes "evaluate_public_trade st trade = Inr as" "a \<in> set as"
    and "la_target a \<in> {Sg_Stopped, Sg_Stopped_At_Breakeven, Sg_Tp2_Completed}"
  shows "la_remaining_quantity a = Some 0 \<and> (\<exists>pnl fees. la_realized_pnl a = Some pnl \<and> la_fees a = Some fees)"
  using assms
  by (cases "lc_status st")
    (auto simp: evaluate_public_trade_def Let_def tp1_and_tp2_def action_defs
      split: if_splits prod.splits)

section \<open>Funding\<close>

text \<open>What a long pays, a short of the same size receives.\<close>

lemma segment_cost_neg: "segment_cost st (- rate) quantity a b = - segment_cost st rate quantity a b"
  by (simp add: segment_cost_def Let_def dmul_def ddivn_def ctx.r_minus)

lemma dadd_neg: "dadd (- x) (- y) = - dadd x y"
  unfolding dadd_def by (metis ctx.r_minus minus_add_distrib)

lemma segment_cost_cong:
  "lc_planned_entry st = lc_planned_entry st' \<Longrightarrow> lc_funding_interval_minutes st = lc_funding_interval_minutes st' \<Longrightarrow>
    segment_cost st rate q a b = segment_cost st' rate q a b"
  by (simp add: segment_cost_def)

lemma funding_opposite:
  assumes "lc_direction st = Long"
  shows "estimate_funding_cost (st\<lparr>lc_direction := Short\<rparr>) event target =
    - estimate_funding_cost st event target"
proof -
  have seg: "segment_cost (st\<lparr>lc_direction := Short\<rparr>) r q a b = segment_cost st r q a b" for r q a b
    by (rule segment_cost_cong) simp_all
  have "dmul x (- 1) = - dmul x 1" for x by (simp add: dmul_def ctx.r_minus)
  then show ?thesis using assms
    by (simp add: estimate_funding_cost_def Let_def seg segment_cost_neg dadd_neg split: option.split)
qed

lemma segment_cost_nonneg:
  "0 \<le> rate \<Longrightarrow> 0 \<le> quantity \<Longrightarrow> 0 \<le> lc_planned_entry st \<Longrightarrow> 0 < lc_funding_interval_minutes st \<Longrightarrow>
    0 \<le> segment_cost st rate quantity a b"
  unfolding segment_cost_def Let_def by (intro ddivn_nonneg dmul_nonneg) simp_all

lemma funding_sign:
  assumes "lc_direction st = Long" "0 \<le> lc_funding_rate st" "0 \<le> lc_quantity st" "0 \<le> lc_planned_entry st"
  shows "0 \<le> estimate_funding_cost st event target"
  using assms
  by (auto simp: estimate_funding_cost_def Let_def not_le dhalf_def
      intro!: segment_cost_nonneg dadd_nonneg dmul_nonneg ddivn_nonneg split: option.split)

section \<open>Properties\<close>

text \<open>A long position of two units that has been entered.\<close>

definition sample_state :: lifecycle_state where
  "sample_state = \<lparr>lc_signal_id = 1, lc_symbol = ''BTCUSDT'', lc_direction = Long, lc_status = Sg_Entered,
     lc_entry_lower = 99, lc_entry_upper = 101, lc_planned_entry = 100, lc_stop_loss = 95,
     lc_take_profit_1 = 108, lc_take_profit_2 = 120, lc_quantity = 2, lc_risk_amount = 10,
     lc_taker_fee_rate = 1/1000, lc_expires_at = 5400000000, lc_current_stop = 95, lc_funding_rate = 1/10000,
     lc_funding_interval_minutes = 480, lc_entered_at = Some 0, lc_tp1_reached_at = None\<rparr>"

definition price_trade :: "dec \<Rightarrow> public_trade" where
  "price_trade price = \<lparr>pt_trade_id = ''t'', pt_symbol = ''BTCUSDT'', pt_price = price, pt_size = 1,
     pt_side = Buy, pt_executed_at = 0, pt_sequence = 1, pt_is_block_trade = False, pt_is_rpi_trade = False\<rparr>"

text \<open>C12: The actions a trade causes are a run of the signal's state machine from its status, and the
  actions that end a position book a result, its fees and a remaining quantity of zero.\<close>

theorem trade_actions_are_legal:
  assumes "evaluate_public_trade st trade = Inr as"
  shows "walk signal_transitions (lc_status st) (map la_target as) (last (lc_status st # map la_target as)) \<and>
    list_all (\<lambda>a. la_target a \<notin> {Sg_Stopped, Sg_Stopped_At_Breakeven, Sg_Tp2_Completed} \<or>
      la_remaining_quantity a = Some 0 \<and> la_realized_pnl a \<noteq> None \<and> la_fees a \<noteq> None) as"
  using evaluated_walk [OF assms] terminal_actions_close [OF assms] unfolding list_all_iff by blast

lemma trade_actions_are_legal_witness:
  "\<exists>as. evaluate_public_trade sample_state (price_trade 120) = Inr as \<and>
     map la_target as = [Sg_Tp1_Reached, Sg_Tp2_Completed] \<and>
     walk signal_transitions Sg_Entered [Sg_Tp1_Reached, Sg_Tp2_Completed] Sg_Tp2_Completed"
proof -
  have "lc_risk_amount sample_state \<noteq> 0" "\<bar>lc_taker_fee_rate sample_state\<bar> < 1"
    by (simp_all add: sample_state_def)
  then obtain as where as: "evaluate_public_trade sample_state (price_trade 120) = Inr as"
    using evaluated_returns [of sample_state] by (auto simp: returns_iff)
  moreover have "evaluate_public_trade sample_state (price_trade 120) = tp1_and_tp2 sample_state"
    by (simp add: evaluate_public_trade_def sample_state_def price_trade_def beyond_stop_def target_reached_def)
  ultimately have "map la_target as = [Sg_Tp1_Reached, Sg_Tp2_Completed]"
    by (auto simp: tp1_and_tp2_def action_targets)
  then show ?thesis using trade_actions_are_legal [OF as] as by (auto simp: sample_state_def)
qed

text \<open>The stop that replaces the original one after the first target pays the fees: it is the price at
  which the exit returns the planned entry and the taker fees of both sides, up to four roundings.\<close>

theorem breakeven_stop_pays_fees:
  assumes "fee_adjusted_breakeven st = Inr stop" "0 < lc_planned_entry st"
    and "0 \<le> lc_taker_fee_rate st" "lc_taker_fee_rate st < 1"
  shows "near 4 stop (if lc_direction st = Long
      then lc_planned_entry st * (1 + lc_taker_fee_rate st) / (1 - lc_taker_fee_rate st)
      else lc_planned_entry st * (1 - lc_taker_fee_rate st) / (1 + lc_taker_fee_rate st))"
  by (rule breakeven_pays_fees [OF assms(2-4,1)])

lemma breakeven_stop_pays_fees_witness:
  "\<exists>stop. fee_adjusted_breakeven sample_state = Inr stop \<and> near 4 stop (100 * (1001/1000) / (999/1000))"
proof -
  have "0 < lc_planned_entry sample_state" "0 \<le> lc_taker_fee_rate sample_state" "lc_taker_fee_rate sample_state < 1"
    by (simp_all add: sample_state_def)
  moreover from this obtain stop where stop: "fee_adjusted_breakeven sample_state = Inr stop"
    using breakeven_ok [of sample_state] by auto
  ultimately show ?thesis
    using breakeven_stop_pays_fees [OF stop] by (intro exI [of _ stop]) (simp add: sample_state_def)
qed

text \<open>Leaving the whole position at a price on the losing side costs the move times the quantity plus
  the taker fees on both sides, up to four roundings of each operation chain.\<close>

theorem losing_exit_costs:
  assumes "0 \<le> lc_quantity st" "0 < lc_planned_entry st" "0 < price" "0 \<le> lc_taker_fee_rate st"
    and "if lc_direction st = Long then price \<le> lc_planned_entry st else lc_planned_entry st \<le> price"
  shows "near 4 (- fst (full_exit st price))
      (lc_quantity st * \<bar>lc_planned_entry st - price\<bar> +
       lc_quantity st * (lc_planned_entry st + price) * lc_taker_fee_rate st)"
  by (rule stop_exit_loss [OF assms])

lemma losing_exit_costs_witness: "near 4 (- fst (full_exit sample_state 95)) (2 * 5 + 2 * 195 * (1/1000))"
  using losing_exit_costs [of sample_state 95] by (simp add: sample_state_def)

text \<open>Funding is a transfer between the sides: what a short position pays is what the same long
  position receives; and a long position never receives funding while the rate is not negative.\<close>

theorem funding_is_a_transfer:
  assumes "lc_direction st = Long"
  shows "estimate_funding_cost (st\<lparr>lc_direction := Short\<rparr>) event_time target = - estimate_funding_cost st event_time target \<and>
    (0 \<le> lc_funding_rate st \<and> 0 \<le> lc_quantity st \<and> 0 \<le> lc_planned_entry st \<longrightarrow>
      0 \<le> estimate_funding_cost st event_time target)"
  using funding_opposite [OF assms] funding_sign [OF assms] by blast

lemma funding_is_a_transfer_witness:
  "estimate_funding_cost (sample_state\<lparr>lc_direction := Short\<rparr>) 60000000 Sg_Stopped =
     - estimate_funding_cost sample_state 60000000 Sg_Stopped \<and>
   0 \<le> estimate_funding_cost sample_state 60000000 Sg_Stopped"
  using funding_is_a_transfer [of sample_state 60000000 Sg_Stopped] by (simp add: sample_state_def)

end
