(* ===== verification/Coverage.thy ===== *)
theory Coverage
  imports Lifecycle "HOL-Library.Product_Lexorder" "HOL-Library.List_Lexorder" "HOL-Library.Char_ord"
begin

text \<open>
  \<open>src/src/crypto_smc/signals/coverage.py\<close>: the proof that the trades fetched over REST and the
  trades buffered from the stream together cover the time since the anchor, and their merge into
  one ordered history. Tuples of sort keys are compared lexicographically, strings by code point,
  as Python does; the dictionary comprehension is an insertion-ordered association list.
\<close>

record trade_coverage =
  cov_proven :: bool
  cov_reason :: "string option"
  cov_trades :: "public_trade list"

definition uncovered :: "string \<Rightarrow> trade_coverage" where
  "uncovered reason = \<lparr>cov_proven = False, cov_reason = Some reason, cov_trades = []\<rparr>"

definition trade_key :: "public_trade \<Rightarrow> instant \<times> int \<times> string" where
  "trade_key t = (pt_executed_at t, pt_sequence t, pt_trade_id t)"

definition by_id :: "public_trade list \<Rightarrow> (string \<times> public_trade) list" where
  "by_id trades = foldl (\<lambda>d t. od_put (pt_trade_id t) t d) [] trades"

definition merge_trade_coverage ::
  "public_trade list \<Rightarrow> public_trade list \<Rightarrow> instant \<Rightarrow> trade_coverage" where
  "merge_trade_coverage rest ws start =
     (if rest = [] then uncovered ''rest_history_empty''
      else if ws = [] then uncovered ''websocket_buffer_empty''
      else if card (pt_symbol ` set (rest @ ws)) \<noteq> 1 then uncovered ''mixed_symbols''
      else if pt_executed_at (hd rest) > start then uncovered ''rest_history_too_shallow''
      else if pt_trade_id ` set rest \<inter> pt_trade_id ` set ws = {}
        then uncovered ''rest_websocket_overlap_missing''
      else \<lparr>cov_proven = True, cov_reason = None,
        cov_trades = sort_key trade_key
          (map snd (by_id (filter (\<lambda>t. pt_executed_at t \<ge> start) (rest @ ws))))\<rparr>)"

section \<open>The dictionary of trades by id\<close>

definition keyed :: "(string \<times> public_trade) list \<Rightarrow> bool" where
  "keyed d \<longleftrightarrow> distinct (map fst d) \<and> (\<forall>(i, t) \<in> set d. i = pt_trade_id t)"

lemma od_put_set: "set (od_put k v d) \<subseteq> insert (k, v) (set d)"
  by (induction k v d rule: od_put.induct) auto

lemma keyed_put: "keyed d \<Longrightarrow> keyed (od_put (pt_trade_id t) t d)"
  unfolding keyed_def using od_put_distinct [of d] od_put_set [of "pt_trade_id t" t d] by fastforce

lemma by_id_fold:
  "keyed d \<Longrightarrow> keyed (foldl (\<lambda>d t. od_put (pt_trade_id t) t d) d ts) \<and>
    fst ` set (foldl (\<lambda>d t. od_put (pt_trade_id t) t d) d ts) = fst ` set d \<union> pt_trade_id ` set ts \<and>
    set (foldl (\<lambda>d t. od_put (pt_trade_id t) t d) d ts) \<subseteq> set d \<union> (\<lambda>t. (pt_trade_id t, t)) ` set ts"
proof (induction ts arbitrary: d)
  case (Cons t ts)
  from Cons.IH [OF keyed_put [OF Cons.prems, of t]] od_put_set [of "pt_trade_id t" t d]
  show ?case by (auto simp: od_put_keys)
qed simp

lemma by_id_keyed: "keyed (by_id ts)"
  and by_id_keys: "fst ` set (by_id ts) = pt_trade_id ` set ts"
  and by_id_members: "snd ` set (by_id ts) \<subseteq> set ts"
  using by_id_fold [of "[]" ts] by (auto simp: by_id_def keyed_def)

lemma by_id_ids: "map pt_trade_id (map snd (by_id ts)) = map fst (by_id ts)"
  using by_id_keyed [of ts] by (auto simp: keyed_def)

text \<open>The version of a trade that is kept is the last one.\<close>

lemma by_id_last: "map_of (by_id (ts @ [t])) (pt_trade_id t) = Some t"
  by (simp add: by_id_def)

section \<open>What the merge promises\<close>

lemma coverage_reasons:
  "cov_proven (merge_trade_coverage rest ws start) \<longleftrightarrow> cov_reason (merge_trade_coverage rest ws start) = None"
  "\<not> cov_proven (merge_trade_coverage rest ws start) \<Longrightarrow> cov_trades (merge_trade_coverage rest ws start) = []"
  by (auto simp: merge_trade_coverage_def uncovered_def split: if_splits)

lemma coverage_proven_iff:
  "cov_proven (merge_trade_coverage rest ws start) \<longleftrightarrow>
     rest \<noteq> [] \<and> ws \<noteq> [] \<and> (\<exists>s. \<forall>t \<in> set (rest @ ws). pt_symbol t = s) \<and>
     pt_executed_at (hd rest) \<le> start \<and>
     (\<exists>r \<in> set rest. \<exists>w \<in> set ws. pt_trade_id r = pt_trade_id w)"
proof -
  have "card (pt_symbol ` set (rest @ ws)) = 1 \<longleftrightarrow> (\<exists>s. \<forall>t \<in> set (rest @ ws). pt_symbol t = s)" if "rest \<noteq> []"
  proof
    assume "card (pt_symbol ` set (rest @ ws)) = 1"
    then obtain s where "pt_symbol ` set (rest @ ws) = {s}" by (auto simp: card_1_singleton_iff)
    then show "\<exists>s. \<forall>t \<in> set (rest @ ws). pt_symbol t = s" by blast
  next
    assume "\<exists>s. \<forall>t \<in> set (rest @ ws). pt_symbol t = s"
    then obtain s where "\<forall>t \<in> set (rest @ ws). pt_symbol t = s" by blast
    with that have "pt_symbol ` set (rest @ ws) = {s}" by (cases rest) auto
    then show "card (pt_symbol ` set (rest @ ws)) = 1" by simp
  qed
  then show ?thesis
    by (auto simp: merge_trade_coverage_def uncovered_def)
qed

lemma covered_history:
  assumes "cov_proven (merge_trade_coverage rest ws start)"
  shows "sorted (map trade_key (cov_trades (merge_trade_coverage rest ws start)))"
    and "distinct (map pt_trade_id (cov_trades (merge_trade_coverage rest ws start)))"
    and "set (cov_trades (merge_trade_coverage rest ws start)) \<subseteq> {t \<in> set (rest @ ws). start \<le> pt_executed_at t}"
    and "pt_trade_id ` set (cov_trades (merge_trade_coverage rest ws start)) =
      pt_trade_id ` {t \<in> set (rest @ ws). start \<le> pt_executed_at t}"
proof -
  let ?window = "filter (\<lambda>t. pt_executed_at t \<ge> start) (rest @ ws)"
  let ?kept = "map snd (by_id ?window)"
  have trades: "cov_trades (merge_trade_coverage rest ws start) = sort_key trade_key ?kept"
    using assms by (simp only: merge_trade_coverage_def uncovered_def trade_coverage.simps simp_thms split: if_splits)
  show "sorted (map trade_key (cov_trades (merge_trade_coverage rest ws start)))"
    unfolding trades by simp
  have "distinct (map pt_trade_id ?kept)"
    unfolding by_id_ids using by_id_keyed by (simp add: keyed_def)
  then have "distinct ?kept" "inj_on pt_trade_id (set ?kept)" using distinct_map [of pt_trade_id ?kept] by blast+
  then show "distinct (map pt_trade_id (cov_trades (merge_trade_coverage rest ws start)))"
    unfolding trades by (simp add: distinct_map)
  show "set (cov_trades (merge_trade_coverage rest ws start)) \<subseteq> {t \<in> set (rest @ ws). start \<le> pt_executed_at t}"
    unfolding trades using by_id_members [of ?window] by auto
  have "pt_trade_id ` set ?kept = set (map pt_trade_id ?kept)" by (simp only: list.set_map)
  also have "\<dots> = pt_trade_id ` set ?window" unfolding by_id_ids using by_id_keys [of ?window] by simp
  finally show "pt_trade_id ` set (cov_trades (merge_trade_coverage rest ws start)) =
      pt_trade_id ` {t \<in> set (rest @ ws). start \<le> pt_executed_at t}"
    unfolding trades by (simp only: set_sort set_filter)
qed

section \<open>Properties\<close>

text \<open>C11: A proven coverage is a complete history since the anchor: its trades are ordered by time, sequence
  and id, have distinct ids, are trades of the two sources executed since the anchor, and every such
  id occurs among them.\<close>

theorem proven_coverage_is_complete:
  assumes "cov_proven (merge_trade_coverage rest ws start)"
  defines "history \<equiv> cov_trades (merge_trade_coverage rest ws start)"
  shows "sorted (map trade_key history) \<and> distinct (map pt_trade_id history) \<and>
    set history \<subseteq> {t \<in> set (rest @ ws). start \<le> pt_executed_at t} \<and>
    pt_trade_id ` set history = pt_trade_id ` {t \<in> set (rest @ ws). start \<le> pt_executed_at t}"
  using covered_history [OF assms(1)] unfolding history_def by blast

lemma proven_coverage_is_complete_witness:
  "distinct (map pt_trade_id (cov_trades (merge_trade_coverage [price_trade 1] [price_trade 1] 0)))"
  using proven_coverage_is_complete [of "[price_trade 1]" "[price_trade 1]" 0]
  by (simp add: merge_trade_coverage_def price_trade_def)

text \<open>Coverage is proven exactly when both sources have trades, all of one symbol, the history starts
  no later than the anchor and the two sources share a trade.\<close>

theorem coverage_proven_exactly_when:
  "cov_proven (merge_trade_coverage rest ws start) \<longleftrightarrow>
     rest \<noteq> [] \<and> ws \<noteq> [] \<and> list_all (\<lambda>t. pt_symbol t = pt_symbol (hd rest)) (rest @ ws) \<and>
     pt_executed_at (hd rest) \<le> start \<and>
     (\<exists>r w. r \<in> set rest \<and> w \<in> set ws \<and> pt_trade_id r = pt_trade_id w)"
proof -
  have "(\<exists>s. \<forall>t \<in> set (rest @ ws). pt_symbol t = s) \<longleftrightarrow> list_all (\<lambda>t. pt_symbol t = pt_symbol (hd rest)) (rest @ ws)"
    if "rest \<noteq> []"
    using that by (cases rest) (auto simp: list_all_iff)
  then show ?thesis unfolding coverage_proven_iff by blast
qed

end
