(* ===== verification/Evaluator.thy ===== *)
theory Evaluator
  imports Trade_Plan
begin

text \<open>
  \<open>src/src/crypto_smc/strategy\<close>: the inputs and the candidate of \<open>models.py\<close> and the whole of
  \<open>evaluator.py\<close>. \<open>evaluate_direction\<close> keeps the order in which the source appends to its
  lists; each list is the concatenation of what the successive statements append. The sentences
  that the source formats from prices are constructors holding the values they print.
\<close>

section \<open>models.py\<close>

record market_context =
  mc_current_price :: dec
  mc_volume_ratio :: "dec option"
  mc_open_interest_change_ratio :: "dec option"
  mc_funding_rate :: "dec option"
  mc_spread_bps :: "dec option"
  mc_turnover_24h_usdt :: "dec option"
  mc_btc_5m_return :: "dec option"
  mc_btc_true_range_atr_ratio :: "dec option"
  mc_taker_fee_rate :: dec
  mc_instrument_max_leverage :: dec
  mc_instrument_quantity_step :: dec
  mc_instrument_min_notional :: dec

record strategy_input =
  si_symbol :: string
  si_analyzed_at :: instant
  si_analysis_4h :: smc_analysis
  si_analysis_1h :: smc_analysis
  si_analysis_15m :: smc_analysis
  si_analysis_5m :: smc_analysis
  si_market :: market_context
  si_input_cutoffs :: "(string \<times> instant) list"

datatype component_evidence =
    Ev_Htf "direction option" "direction option"
  | Ev_Sweep direction
  | Ev_Break break_kind bool
  | Ev_Location price_location
  | Ev_Market bool bool
  | Ev_Condition bool bool
  | Ev_Text string

record score_component =
  co_name :: string
  co_awarded :: int
  co_maximum :: int
  co_evidence :: component_evidence

datatype evidence_line =
    Sweep_At dec
  | Zone_Between string dec dec
  | Confirmation_By break_kind

record signal_candidate =
  ca_symbol :: string
  ca_direction :: trade_direction
  ca_strategy_version :: string
  ca_status :: candidate_status
  ca_score :: int
  ca_strength :: strength
  ca_components :: "score_component list"
  ca_evidence :: "evidence_line list"
  ca_warnings :: "string list"
  ca_suppression_reasons :: "string list"
  ca_trade_plan :: "trade_plan option"
  ca_analyzed_at :: instant
  ca_expires_at :: instant

section \<open>The helpers of evaluator.py\<close>

definition smc_direction :: "trade_direction \<Rightarrow> direction" where
  "smc_direction dir = (case dir of Long \<Rightarrow> Bullish | Short \<Rightarrow> Bearish)"

definition desired_location :: "trade_direction \<Rightarrow> price_location" where
  "desired_location dir = (case dir of Long \<Rightarrow> Discount | Short \<Rightarrow> Premium)"

definition latest_break_direction :: "smc_analysis \<Rightarrow> direction option" where
  "latest_break_direction a =
     (if an_structure_breaks a \<noteq> [] then Some (sb_direction (last (an_structure_breaks a))) else None)"

text \<open>A zone is the tuple \<open>(kind, lower, upper, status)\<close>; candidates carry the index they are
  ranked by in front.\<close>

type_synonym entry_zone = "string \<times> dec \<times> dec \<times> zone_status"

definition open_status :: "zone_status \<Rightarrow> bool" where
  "open_status s \<longleftrightarrow> s = Zone_Open \<or> s = Partially_Filled"

definition entry_zones :: "smc_analysis \<Rightarrow> direction \<Rightarrow> (nat \<times> entry_zone) list" where
  "entry_zones a d =
     map (\<lambda>g. (fvg_created_index g, ''fvg'', fvg_lower g, fvg_upper g, fvg_status g))
       (filter (\<lambda>g. fvg_direction g = d \<and> open_status (fvg_status g)) (an_fair_value_gaps a)) @
     map (\<lambda>b. (ob_created_index b, ''order_block'', ob_lower b, ob_upper b, ob_status b))
       (filter (\<lambda>b. ob_direction b = d \<and> open_status (ob_status b)) (an_order_blocks a))"

definition latest_entry_zone :: "smc_analysis \<Rightarrow> direction \<Rightarrow> entry_zone option" where
  "latest_entry_zone a d = map_option snd (first_max fst (entry_zones a d))"

definition latest_atr :: "smc_analysis \<Rightarrow> dec option" where
  "latest_atr a = (case find_last (\<lambda>v. v \<noteq> None) (an_atr a) of None \<Rightarrow> None | Some v \<Rightarrow> v)"

definition target_candidates ::
  "smc_analysis \<Rightarrow> smc_analysis \<Rightarrow> trade_direction \<Rightarrow> dec \<Rightarrow> dec list" where
  "target_candidates setup ctx dir entry =
     map sw_price (filter (\<lambda>s. sw_kind s = (if dir = Long then High else Low) \<and>
       (dir = Long \<and> sw_price s > entry \<or> dir = Short \<and> sw_price s < entry))
       (an_swings setup @ an_swings ctx))"

definition liquidity_target ::
  "smc_analysis \<Rightarrow> smc_analysis \<Rightarrow> trade_direction \<Rightarrow> entry_zone \<Rightarrow> dec option" where
  "liquidity_target setup ctx dir zone =
     (case zone of (_, lower, upper, _) \<Rightarrow>
        let prices = target_candidates setup ctx dir (dhalf (dadd lower upper)) in
        if prices = [] then None
        else Some (if dir = Long then Min (set prices) else Max (set prices)))"

definition funding_is_crowded :: "trade_direction \<Rightarrow> dec option \<Rightarrow> dec \<Rightarrow> bool" where
  "funding_is_crowded dir rate threshold =
     (case rate of None \<Rightarrow> False
      | Some r \<Rightarrow> if dir = Long then r \<ge> threshold else r \<le> dneg threshold)"

definition btc_is_abnormal :: "strategy_input \<Rightarrow> strategy_config \<Rightarrow> bool" where
  "btc_is_abnormal inp k =
     ((case mc_btc_5m_return (si_market inp) of None \<Rightarrow> False
       | Some r \<Rightarrow> dabs r \<ge> btc_return_warning_threshold k) \<or>
      (case mc_btc_true_range_atr_ratio (si_market inp) of None \<Rightarrow> False
       | Some r \<Rightarrow> r \<ge> btc_true_range_warning_ratio k))"

definition market_filter_reasons :: "strategy_input \<Rightarrow> strategy_config \<Rightarrow> string list" where
  "market_filter_reasons inp k =
     (let market = si_market inp in
      (case mc_turnover_24h_usdt market of None \<Rightarrow> []
       | Some t \<Rightarrow> if t < minimum_turnover_24h_usdt k then [''turnover_below_minimum''] else []) @
      (case mc_spread_bps market of None \<Rightarrow> []
       | Some s \<Rightarrow> if s > maximum_spread_bps k then [''spread_above_maximum''] else []) @
      (case latest_atr (si_analysis_15m inp) of None \<Rightarrow> []
       | Some atr \<Rightarrow>
           if mc_current_price market > 0 then
             let atr_percent = ddivn atr (mc_current_price market) in
             (if atr_percent < minimum_atr_percent k then [''volatility_below_minimum''] else []) @
             (if atr_percent > maximum_atr_percent k then [''volatility_above_maximum''] else [])
           else []))"

section \<open>The score components\<close>

definition htf_directions :: "strategy_input \<Rightarrow> direction option list" where
  "htf_directions inp =
     [latest_break_direction (si_analysis_4h inp), latest_break_direction (si_analysis_1h inp)]"

definition aligned_count :: "strategy_input \<Rightarrow> trade_direction \<Rightarrow> nat" where
  "aligned_count inp dir = length (filter (\<lambda>d. d = Some (smc_direction dir)) (htf_directions inp))"

definition opposing_count :: "strategy_input \<Rightarrow> trade_direction \<Rightarrow> nat" where
  "opposing_count inp dir =
     length (filter (\<lambda>d. d \<noteq> None \<and> d \<noteq> Some (smc_direction dir)) (htf_directions inp))"

definition htf_component :: "strategy_input \<Rightarrow> trade_direction \<Rightarrow> strategy_config \<Rightarrow> score_component" where
  "htf_component inp dir k =
     (let w = higher_timeframe_alignment (sc_weights k);
          aligned = aligned_count inp dir; opposing = opposing_count inp dir in
      \<lparr>co_name = ''higher_timeframe_alignment'',
       co_awarded = (if aligned = 2 then w else if aligned = 1 \<and> opposing = 0 then w div 2 else 0),
       co_maximum = w,
       co_evidence = Ev_Htf (latest_break_direction (si_analysis_4h inp))
         (latest_break_direction (si_analysis_1h inp))\<rparr>)"

definition setup_sweep :: "strategy_input \<Rightarrow> trade_direction \<Rightarrow> liquidity_sweep option" where
  "setup_sweep inp dir =
     find_last (\<lambda>e. ls_direction e = smc_direction dir) (an_liquidity_sweeps (si_analysis_15m inp))"

definition sweep_component :: "strategy_input \<Rightarrow> trade_direction \<Rightarrow> strategy_config \<Rightarrow> score_component" where
  "sweep_component inp dir k =
     (let w = liquidity_sweep_weight (sc_weights k); sweep = setup_sweep inp dir in
      \<lparr>co_name = ''liquidity_sweep'', co_awarded = (if sweep \<noteq> None then w else 0), co_maximum = w,
       co_evidence = (if sweep \<noteq> None then Ev_Sweep (smc_direction dir) else Ev_Text ''no_15m_sweep'')\<rparr>)"

definition latest_break :: "smc_analysis \<Rightarrow> trade_direction \<Rightarrow> structure_break option" where
  "latest_break a dir = find_last (\<lambda>b. sb_direction b = smc_direction dir) (an_structure_breaks a)"

definition has_displacement :: "strategy_input \<Rightarrow> trade_direction \<Rightarrow> bool" where
  "has_displacement inp dir =
     (case latest_break (si_analysis_15m inp) dir of None \<Rightarrow> False
      | Some b \<Rightarrow> \<exists>d \<in> set (an_displacements (si_analysis_15m inp)).
          dp_direction d = smc_direction dir \<and> dp_index d = sb_index b)"

definition structure_component :: "strategy_input \<Rightarrow> trade_direction \<Rightarrow> strategy_config \<Rightarrow> score_component" where
  "structure_component inp dir k =
     (let w = structure_confirmation (sc_weights k);
          setup = latest_break (si_analysis_15m inp) dir; moved = has_displacement inp dir in
      \<lparr>co_name = ''structure_confirmation'',
       co_awarded = (if moved then w else if setup \<noteq> None then w div 2 else 0), co_maximum = w,
       co_evidence = (case setup of Some b \<Rightarrow> Ev_Break (sb_kind b) moved
                      | None \<Rightarrow> Ev_Text ''no_15m_structure_break'')\<rparr>)"

definition setup_zone :: "strategy_input \<Rightarrow> trade_direction \<Rightarrow> entry_zone option" where
  "setup_zone inp dir = latest_entry_zone (si_analysis_15m inp) (smc_direction dir)"

definition zone_component :: "strategy_input \<Rightarrow> trade_direction \<Rightarrow> strategy_config \<Rightarrow> score_component" where
  "zone_component inp dir k =
     (let w = entry_zone_quality (sc_weights k) in
      \<lparr>co_name = ''entry_zone_quality'',
       co_awarded = (case setup_zone inp dir of None \<Rightarrow> 0 | Some _ \<Rightarrow> w), co_maximum = w,
       co_evidence = (case setup_zone inp dir of None \<Rightarrow> Ev_Text ''no_open_entry_zone''
                      | Some (kind, _) \<Rightarrow> Ev_Text kind)\<rparr>)"

definition zone_reasons :: "strategy_input \<Rightarrow> trade_direction \<Rightarrow> string list" where
  "zone_reasons inp dir =
     (case setup_zone inp dir of
        None \<Rightarrow> [''missing_entry_zone'']
      | Some (_, lower, upper, status) \<Rightarrow>
          if status \<noteq> Partially_Filled \<and>
             \<not> (lower \<le> mc_current_price (si_market inp) \<and> mc_current_price (si_market inp) \<le> upper)
          then [''entry_zone_not_retested''] else [])"

definition location_component :: "strategy_input \<Rightarrow> trade_direction \<Rightarrow> strategy_config \<Rightarrow> score_component" where
  "location_component inp dir k =
     (let w = premium_discount (sc_weights k);
          matches = (an_price_location (si_analysis_4h inp) = Some (desired_location dir) \<or>
                     an_price_location (si_analysis_1h inp) = Some (desired_location dir)) in
      \<lparr>co_name = ''premium_discount'', co_awarded = (if matches then w else 0), co_maximum = w,
       co_evidence = (if matches then Ev_Location (desired_location dir)
                      else Ev_Text ''location_not_preferred'')\<rparr>)"

definition at_least :: "dec option \<Rightarrow> dec \<Rightarrow> bool" where
  "at_least value bound = (case value of None \<Rightarrow> False | Some v \<Rightarrow> v \<ge> bound)"

definition market_component :: "strategy_input \<Rightarrow> strategy_config \<Rightarrow> score_component" where
  "market_component inp k =
     (let w = volume_open_interest (sc_weights k);
          volume_ok = at_least (mc_volume_ratio (si_market inp)) (volume_confirmation_ratio k);
          oi_ok = at_least (mc_open_interest_change_ratio (si_market inp)) (open_interest_confirmation_ratio k) in
      \<lparr>co_name = ''volume_open_interest'',
       co_awarded = w * (of_bool volume_ok + of_bool oi_ok) div 2, co_maximum = w,
       co_evidence = Ev_Market volume_ok oi_ok\<rparr>)"

definition crowded :: "strategy_input \<Rightarrow> trade_direction \<Rightarrow> strategy_config \<Rightarrow> bool" where
  "crowded inp dir k = funding_is_crowded dir (mc_funding_rate (si_market inp)) (crowded_funding_rate k)"

definition condition_component :: "strategy_input \<Rightarrow> trade_direction \<Rightarrow> strategy_config \<Rightarrow> score_component" where
  "condition_component inp dir k =
     (let w = funding_btc_condition (sc_weights k) in
      \<lparr>co_name = ''funding_btc_condition'',
       co_awarded = (if crowded inp dir k \<or> btc_is_abnormal inp k then 0 else w), co_maximum = w,
       co_evidence = Ev_Condition (crowded inp dir k) (btc_is_abnormal inp k)\<rparr>)"

definition score_components :: "strategy_input \<Rightarrow> trade_direction \<Rightarrow> strategy_config \<Rightarrow> score_component list" where
  "score_components inp dir k =
     [htf_component inp dir k, sweep_component inp dir k, structure_component inp dir k,
      zone_component inp dir k, location_component inp dir k, market_component inp k,
      condition_component inp dir k]"

section \<open>The trade plan of a candidate\<close>

text \<open>The statement \<open>if zone is not None\<close>: the plan, the warnings and the suppression reasons it
  adds.\<close>

definition candidate_plan ::
  "strategy_input \<Rightarrow> trade_direction \<Rightarrow> strategy_config \<Rightarrow>
   (trade_plan option \<times> string list \<times> string list) res" where
  "candidate_plan inp dir k =
     (case setup_zone inp dir of
        None \<Rightarrow> Inr (None, [], [])
      | Some zone \<Rightarrow>
          (case latest_atr (si_analysis_15m inp) of
             None \<Rightarrow> Inr (None, [], [''atr_unavailable''])
           | Some atr \<Rightarrow>
               (case liquidity_target (si_analysis_15m inp) (si_analysis_1h inp) dir zone of
                  None \<Rightarrow> Inr (None, [], [''liquidity_target_unavailable''])
                | Some target \<Rightarrow>
                    rbind (build_trade_plan dir (fst (snd zone)) (fst (snd (snd zone))) atr target
                      (mc_taker_fee_rate (si_market inp)) (mc_instrument_max_leverage (si_market inp))
                      (mc_instrument_quantity_step (si_market inp))
                      (mc_instrument_min_notional (si_market inp)) k) (\<lambda>(plan, details).
                    Inr (case plan of
                           None \<Rightarrow> (None, [], details)
                         | Some p \<Rightarrow>
                             if tp_net_reward_to_risk p < minimum_net_reward_to_risk k
                             then (Some p, details, [''reward_to_risk_below_minimum''])
                             else (Some p, details, []))))))"

section \<open>The evaluation\<close>

definition evaluate_direction ::
  "strategy_input \<Rightarrow> trade_direction \<Rightarrow> strategy_config \<Rightarrow> signal_candidate res" where
  "evaluate_direction inp dir k =
     (let components = score_components inp dir k;
          sweep = setup_sweep inp dir;
          confirmation = latest_break (si_analysis_5m inp) dir;
          evidence =
            (case sweep of None \<Rightarrow> [] | Some s \<Rightarrow> [Sweep_At (ls_level s)]) @
            (case setup_zone inp dir of None \<Rightarrow> []
             | Some (kind, lower, upper, _) \<Rightarrow> [Zone_Between kind lower upper]) @
            (case confirmation of None \<Rightarrow> [] | Some b \<Rightarrow> [Confirmation_By (sb_kind b)])
      in
      rbind (candidate_plan inp dir k) (\<lambda>(plan, plan_warnings, plan_reasons).
      let score = sum_list (map co_awarded components);
          suppression = dedup (
            (if opposing_count inp dir = 2 then [''higher_timeframes_opposed''] else []) @
            (if \<not> has_displacement inp dir then [''missing_15m_structure_displacement''] else []) @
            zone_reasons inp dir @
            market_filter_reasons inp k @
            (if confirmation = None then [''missing_5m_confirmation''] else []) @
            plan_reasons @
            (if score < minimum_score k then [''score_below_threshold''] else []));
          warnings = dedup (
            (if crowded inp dir k then [''crowded_funding''] else []) @
            (if btc_is_abnormal inp k then [''abnormal_btc_movement''] else []) @
            plan_warnings)
      in Inr \<lparr>ca_symbol = si_symbol inp, ca_direction = dir, ca_strategy_version = sc_version k,
         ca_status = (if suppression \<noteq> [] then Suppressed else Accepted), ca_score = score,
         ca_strength = (if score \<ge> strong_score k then Strong else Standard),
         ca_components = components, ca_evidence = evidence, ca_warnings = warnings,
         ca_suppression_reasons = suppression, ca_trade_plan = plan,
         ca_analyzed_at = si_analyzed_at inp,
         ca_expires_at = si_analyzed_at inp + minutes (signal_lifetime_minutes k)\<rparr>))"

definition evaluate_candidates ::
  "strategy_input \<Rightarrow> strategy_config option \<Rightarrow> (signal_candidate \<times> signal_candidate) res" where
  "evaluate_candidates inp config =
     (let settings = (case config of None \<Rightarrow> default_strategy_config | Some k \<Rightarrow> k) in
      rbind (evaluate_direction inp Long settings) (\<lambda>l.
      rbind (evaluate_direction inp Short settings) (\<lambda>s. Inr (l, s))))"

section \<open>Scores\<close>

lemmas component_defs = htf_component_def sweep_component_def structure_component_def zone_component_def
  location_component_def market_component_def condition_component_def

lemma weights_nonneg:
  assumes "mk_score_weights w = Inr w"
  shows "0 \<le> higher_timeframe_alignment w" "0 \<le> liquidity_sweep_weight w" "0 \<le> structure_confirmation w"
    "0 \<le> entry_zone_quality w" "0 \<le> premium_discount w" "0 \<le> volume_open_interest w"
    "0 \<le> funding_btc_condition w"
  using assms by (auto simp: mk_score_weights_def weight_values_def)

lemma weights_total: "mk_score_weights w = Inr w \<Longrightarrow> sum_list (weight_values w) = 100"
  by (auto simp: mk_score_weights_def)

lemma component_in_range:
  assumes "mk_score_weights (sc_weights k) = Inr (sc_weights k)" "c \<in> set (score_components inp dir k)"
  shows "0 \<le> co_awarded c \<and> co_awarded c \<le> co_maximum c"
proof -
  note w = weights_nonneg [OF assms(1)]
  have "w * (of_bool a + of_bool b) div 2 \<le> w \<and> 0 \<le> w * (of_bool a + of_bool b) div 2"
    if "0 \<le> w" for w :: int and a b using that by (cases a; cases b) auto
  with w show ?thesis using assms(2)
    by (auto simp: score_components_def component_defs Let_def split: option.splits)
qed

lemma component_maxima: "map co_maximum (score_components inp dir k) = weight_values (sc_weights k)"
  by (simp add: score_components_def component_defs Let_def weight_values_def)

lemma score_bounds:
  assumes "mk_score_weights (sc_weights k) = Inr (sc_weights k)"
  shows "0 \<le> sum_list (map co_awarded (score_components inp dir k))"
    and "sum_list (map co_awarded (score_components inp dir k)) \<le> 100"
proof -
  show "0 \<le> sum_list (map co_awarded (score_components inp dir k))"
    by (intro sum_list_nonneg) (use component_in_range [OF assms] in auto)
  have "sum_list (map co_awarded (score_components inp dir k)) \<le>
      sum_list (map co_maximum (score_components inp dir k))"
    by (rule sum_list_mono) (use component_in_range [OF assms] in auto)
  then show "sum_list (map co_awarded (score_components inp dir k)) \<le> 100"
    unfolding component_maxima weights_total [OF assms] .
qed

section \<open>What a candidate promises\<close>

text \<open>The two facts every statement about a candidate starts from: the plan it was given and the
  reasons that were collected.\<close>

definition all_reasons :: "strategy_input \<Rightarrow> trade_direction \<Rightarrow> strategy_config \<Rightarrow> string list \<Rightarrow> string list" where
  "all_reasons inp dir k plan_reasons =
     (if opposing_count inp dir = 2 then [''higher_timeframes_opposed''] else []) @
     (if \<not> has_displacement inp dir then [''missing_15m_structure_displacement''] else []) @
     zone_reasons inp dir @ market_filter_reasons inp k @
     (if latest_break (si_analysis_5m inp) dir = None then [''missing_5m_confirmation''] else []) @
     plan_reasons @
     (if sum_list (map co_awarded (score_components inp dir k)) < minimum_score k
      then [''score_below_threshold''] else [])"

lemma evaluate_directionE:
  assumes "evaluate_direction inp dir k = Inr c"
  obtains plan plan_warnings plan_reasons where
    "candidate_plan inp dir k = Inr (plan, plan_warnings, plan_reasons)" "ca_trade_plan c = plan"
    "ca_suppression_reasons c = dedup (all_reasons inp dir k plan_reasons)"
    "ca_status c = (if ca_suppression_reasons c \<noteq> [] then Suppressed else Accepted)"
    "ca_components c = score_components inp dir k"
    "ca_score c = sum_list (map co_awarded (score_components inp dir k))"
    "ca_strength c = (if ca_score c \<ge> strong_score k then Strong else Standard)"
    "ca_direction c = dir" "ca_analyzed_at c = si_analyzed_at inp" "ca_symbol c = si_symbol inp"
    "ca_expires_at c = si_analyzed_at inp + minutes (signal_lifetime_minutes k)"
proof -
  from assms obtain plan ws rs where cp: "candidate_plan inp dir k = Inr (plan, ws, rs)"
    by (auto simp: evaluate_direction_def Let_def split: prod.splits)
  note ev = assms [unfolded evaluate_direction_def Let_def cp rbind_Inr prod.case, folded all_reasons_def,
      unfolded sum.inject, symmetric]
  show thesis
    by (rule that [OF cp]; unfold ev; simp only: signal_candidate.simps all_reasons_def)
qed

lemma candidate_plan_outcome:
  assumes "candidate_plan inp dir k = Inr (plan, ws, rs)"
  shows "rs = [] \<Longrightarrow> setup_zone inp dir \<noteq> None \<Longrightarrow>
      \<exists>p. plan = Some p \<and> minimum_net_reward_to_risk k \<le> tp_net_reward_to_risk p"
    and "plan = Some p \<Longrightarrow> \<exists>kind lower upper status atr target ws'.
      setup_zone inp dir = Some (kind, lower, upper, status) \<and>
      latest_atr (si_analysis_15m inp) = Some atr \<and>
      liquidity_target (si_analysis_15m inp) (si_analysis_1h inp) dir (kind, lower, upper, status) = Some target \<and>
      build_trade_plan dir lower upper atr target (mc_taker_fee_rate (si_market inp))
        (mc_instrument_max_leverage (si_market inp)) (mc_instrument_quantity_step (si_market inp))
        (mc_instrument_min_notional (si_market inp)) k = Inr (Some p, ws')"
    and "plan = Some p \<Longrightarrow> minimum_net_reward_to_risk k \<le> tp_net_reward_to_risk p \<Longrightarrow> rs = []"
proof -
  let ?call = "\<lambda>zone atr target. build_trade_plan dir (fst (snd zone)) (fst (snd (snd zone))) atr target
    (mc_taker_fee_rate (si_market inp)) (mc_instrument_max_leverage (si_market inp))
    (mc_instrument_quantity_step (si_market inp)) (mc_instrument_min_notional (si_market inp)) k"
  have fates: "setup_zone inp dir = None \<and> plan = None \<or> plan = None \<and> rs \<noteq> [] \<or>
      (\<exists>zone atr target p. setup_zone inp dir = Some zone \<and> latest_atr (si_analysis_15m inp) = Some atr \<and>
        liquidity_target (si_analysis_15m inp) (si_analysis_1h inp) dir zone = Some target \<and>
        ?call zone atr target = Inr (Some p, ws) \<and> plan = Some p \<and>
        rs = (if tp_net_reward_to_risk p < minimum_net_reward_to_risk k
              then [''reward_to_risk_below_minimum''] else []))"
  proof (cases "setup_zone inp dir")
    case zone: (Some zone)
    show ?thesis
    proof (cases "latest_atr (si_analysis_15m inp)")
      case atr: (Some atr)
      show ?thesis
      proof (cases "liquidity_target (si_analysis_15m inp) (si_analysis_1h inp) dir zone")
        case target: (Some target)
        from assms obtain pl ds where call: "?call zone atr target = Inr (pl, ds)"
          by (auto simp: candidate_plan_def zone atr target)
        note body = assms [unfolded candidate_plan_def zone atr target option.case call rbind_Inr prod.case]
        show ?thesis
        proof (cases pl)
          case None
          then show ?thesis using body build_trade_plan_refusal [OF call [unfolded None]] by auto
        next
          case (Some p)
          then show ?thesis using body zone atr target call by (cases "tp_net_reward_to_risk p < minimum_net_reward_to_risk k") auto
        qed
      qed (use assms in \<open>auto simp: candidate_plan_def zone atr\<close>)
    qed (use assms in \<open>auto simp: candidate_plan_def zone\<close>)
  qed (use assms in \<open>auto simp: candidate_plan_def\<close>)
  then show "rs = [] \<Longrightarrow> setup_zone inp dir \<noteq> None \<Longrightarrow>
      \<exists>p. plan = Some p \<and> minimum_net_reward_to_risk k \<le> tp_net_reward_to_risk p"
    by (auto split: if_splits)
  show "plan = Some p \<Longrightarrow> \<exists>kind lower upper status atr target ws'.
      setup_zone inp dir = Some (kind, lower, upper, status) \<and>
      latest_atr (si_analysis_15m inp) = Some atr \<and>
      liquidity_target (si_analysis_15m inp) (si_analysis_1h inp) dir (kind, lower, upper, status) = Some target \<and>
      build_trade_plan dir lower upper atr target (mc_taker_fee_rate (si_market inp))
        (mc_instrument_max_leverage (si_market inp)) (mc_instrument_quantity_step (si_market inp))
        (mc_instrument_min_notional (si_market inp)) k = Inr (Some p, ws')"
    using fates by fastforce
  show "plan = Some p \<Longrightarrow> minimum_net_reward_to_risk k \<le> tp_net_reward_to_risk p \<Longrightarrow> rs = []"
    using fates by auto
qed

text \<open>A candidate is accepted exactly when every gate of the strategy is passed.\<close>

definition zone_retested :: "strategy_input \<Rightarrow> trade_direction \<Rightarrow> bool" where
  "zone_retested inp dir \<longleftrightarrow> (case setup_zone inp dir of None \<Rightarrow> False
     | Some (_, lower, upper, status) \<Rightarrow> status = Partially_Filled \<or>
         lower \<le> mc_current_price (si_market inp) \<and> mc_current_price (si_market inp) \<le> upper)"

lemma zone_reasons_Nil: "zone_reasons inp dir = [] \<longleftrightarrow> zone_retested inp dir"
  by (auto simp: zone_reasons_def zone_retested_def split: option.splits)

lemma accepted_iff_gates:
  assumes "evaluate_direction inp dir k = Inr c"
  shows "ca_status c = Accepted \<longleftrightarrow>
    opposing_count inp dir \<noteq> 2 \<and> has_displacement inp dir \<and> zone_retested inp dir \<and>
    market_filter_reasons inp k = [] \<and> latest_break (si_analysis_5m inp) dir \<noteq> None \<and>
    minimum_score k \<le> ca_score c \<and>
    (\<exists>p. ca_trade_plan c = Some p \<and> minimum_net_reward_to_risk k \<le> tp_net_reward_to_risk p)"
  using assms
proof (rule evaluate_directionE)
  fix plan ws rs
  assume h: "candidate_plan inp dir k = Inr (plan, ws, rs)" "ca_trade_plan c = plan"
    "ca_suppression_reasons c = dedup (all_reasons inp dir k rs)"
    "ca_status c = (if ca_suppression_reasons c \<noteq> [] then Suppressed else Accepted)"
    "ca_score c = sum_list (map co_awarded (score_components inp dir k))"
  have zone: "zone_retested inp dir \<Longrightarrow> setup_zone inp dir \<noteq> None"
    by (cases "setup_zone inp dir") (simp_all add: zone_retested_def)
  have "ca_status c = Accepted \<longleftrightarrow> all_reasons inp dir k rs = []" using h(3,4) by simp
  also have "\<dots> \<longleftrightarrow> opposing_count inp dir \<noteq> 2 \<and> has_displacement inp dir \<and> zone_retested inp dir \<and>
      market_filter_reasons inp k = [] \<and> latest_break (si_analysis_5m inp) dir \<noteq> None \<and>
      minimum_score k \<le> ca_score c \<and> rs = []"
    unfolding all_reasons_def h(5) zone_reasons_Nil [symmetric] by auto
  also have "\<dots> \<longleftrightarrow> opposing_count inp dir \<noteq> 2 \<and> has_displacement inp dir \<and> zone_retested inp dir \<and>
      market_filter_reasons inp k = [] \<and> latest_break (si_analysis_5m inp) dir \<noteq> None \<and>
      minimum_score k \<le> ca_score c \<and>
      (\<exists>p. ca_trade_plan c = Some p \<and> minimum_net_reward_to_risk k \<le> tp_net_reward_to_risk p)"
    using candidate_plan_outcome(1,3) [OF h(1)] zone unfolding h(2) by blast
  finally show ?thesis .
qed

text \<open>The target is the nearest swing beyond the entry.\<close>

lemma liquidity_target_nearest:
  assumes "liquidity_target setup ctx dir (kind, lower, upper, status) = Some target"
  shows "target \<in> set (target_candidates setup ctx dir (dhalf (dadd lower upper)))"
    and "\<And>price. price \<in> set (target_candidates setup ctx dir (dhalf (dadd lower upper))) \<Longrightarrow>
      (case dir of Long \<Rightarrow> dhalf (dadd lower upper) < target \<and> target \<le> price
       | Short \<Rightarrow> target < dhalf (dadd lower upper) \<and> price \<le> target)"
proof -
  let ?P = "target_candidates setup ctx dir (dhalf (dadd lower upper))"
  have ne: "?P \<noteq> []" and t: "target = (if dir = Long then Min (set ?P) else Max (set ?P))"
    using assms by (auto simp: liquidity_target_def Let_def split: if_splits)
  show mem: "target \<in> set ?P"
    unfolding t using ne Min_in [of "set ?P"] Max_in [of "set ?P"] by auto
  show "case dir of Long \<Rightarrow> dhalf (dadd lower upper) < target \<and> target \<le> price
       | Short \<Rightarrow> target < dhalf (dadd lower upper) \<and> price \<le> target" if "price \<in> set ?P" for price
  proof (cases dir)
    case Long
    with mem that t show ?thesis by (auto simp: target_candidates_def)
  next
    case Short
    with mem that t show ?thesis by (auto simp: target_candidates_def)
  qed
qed

text \<open>The zone that is traded is open, of the trade's direction, and as recent as any other.\<close>

lemma latest_entry_zone_newest:
  assumes "latest_entry_zone a d = Some zone"
  obtains i where "(i, zone) \<in> set (entry_zones a d)" "\<forall>(j, z) \<in> set (entry_zones a d). j \<le> i"
    "open_status (snd (snd (snd zone)))"
proof -
  from assms obtain m where m: "first_max fst (entry_zones a d) = Some m" "zone = snd m"
    by (auto simp: latest_entry_zone_def)
  from first_max_Some [OF m(1)] have mem: "m \<in> set (entry_zones a d)"
    and ge: "\<forall>y \<in> set (entry_zones a d). fst y \<le> fst m" by auto
  have "open_status (snd (snd (snd (snd z))))" if "z \<in> set (entry_zones a d)" for z
    using that by (auto simp: entry_zones_def)
  with mem ge m(2) show thesis
    by (intro that [of "fst m"]) auto
qed

section \<open>Properties\<close>

text \<open>A setup on which every gate of a long candidate is passed: the same analysis on all timeframes.\<close>

definition sample_analysis :: smc_analysis where
  "sample_analysis = \<lparr>an_symbol = ''BTCUSDT'', an_timeframe = TF_15m, an_candle_count = 8, an_atr = [None, Some 200],
     an_swings = [\<lparr>sw_kind = High, sw_index = 2, sw_confirmation_index = 3, sw_time = 0, sw_price = 400\<rparr>],
     an_structure_breaks = [sample_break], an_liquidity_sweeps = [], an_equal_levels = [],
     an_displacements = [\<lparr>dp_direction = Bullish, dp_index = 4, dp_time = 0, dp_body_size = 6, dp_range_size = 7,
       dp_atr = 2, dp_average_range = 2\<rparr>],
     an_fair_value_gaps = [\<lparr>fvg_direction = Bullish, fvg_start_index = 3, fvg_created_index = 5, fvg_created_at = 0,
       fvg_lower = 80, fvg_upper = 120, fvg_status = Partially_Filled, fvg_first_touch = Some 6, fvg_resolved = None\<rparr>],
     an_order_blocks = [], an_dealing_range = None, an_price_location = Some Discount\<rparr>"

definition sample_input :: strategy_input where
  "sample_input = \<lparr>si_symbol = ''BTCUSDT'', si_analyzed_at = 0, si_analysis_4h = sample_analysis,
     si_analysis_1h = sample_analysis, si_analysis_15m = sample_analysis, si_analysis_5m = sample_analysis,
     si_market = \<lparr>mc_current_price = 2000, mc_volume_ratio = Some 2, mc_open_interest_change_ratio = Some 1,
       mc_funding_rate = None, mc_spread_bps = Some 1, mc_turnover_24h_usdt = Some 20000000, mc_btc_5m_return = None,
       mc_btc_true_range_atr_ratio = None, mc_taker_fee_rate = 3/500, mc_instrument_max_leverage = 100,
       mc_instrument_quantity_step = 1/1000, mc_instrument_min_notional = 5\<rparr>, si_input_cutoffs = []\<rparr>"

lemmas sample_input_defs = sample_input_def sample_analysis_def sample_break_def break_event_def

lemma sample_zone:
  "setup_zone sample_input Long = Some (''fvg'', 80, 120, Partially_Filled)"
  "latest_atr (si_analysis_15m sample_input) = Some 200"
  "liquidity_target (si_analysis_15m sample_input) (si_analysis_1h sample_input) Long (''fvg'', 80, 120, Partially_Filled) = Some 400"
  by (simp_all add: setup_zone_def latest_entry_zone_def entry_zones_def smc_direction_def open_status_def
      latest_atr_def find_last_def liquidity_target_def target_candidates_def sample_plan_values sample_input_defs)

lemma sample_candidate:
  "\<exists>c p. evaluate_direction sample_input Long default_strategy_config = Inr c \<and> ca_trade_plan c = Some p \<and>
     tp_net_reward_to_risk p = 7425/1024 \<and> ca_score c = 80"
proof -
  obtain p ws where plan: "build_trade_plan Long 80 120 200 400 (3/500) 100 (1/1000) 5 default_strategy_config
      = Inr (Some p, ws)" and rr: "tp_net_reward_to_risk p = 7425/1024"
    using sample_plan_exists by blast
  have market: "mc_taker_fee_rate (si_market sample_input) = 3/500" "mc_instrument_max_leverage (si_market sample_input) = 100"
    "mc_instrument_quantity_step (si_market sample_input) = 1/1000" "mc_instrument_min_notional (si_market sample_input) = 5"
    "minimum_net_reward_to_risk default_strategy_config = 3"
    by (simp_all add: sample_input_def default_strategy_config_def)
  have cp: "candidate_plan sample_input Long default_strategy_config = Inr (Some p, ws, [])"
    by (simp add: candidate_plan_def sample_zone market plan rr)
  have "map co_awarded (score_components sample_input Long default_strategy_config) = [20, 0, 20, 15, 10, 10, 5]"
    by code_simp
  then have "sum_list (map co_awarded (score_components sample_input Long default_strategy_config)) = 80" by simp
  then show ?thesis
    using rr by (simp add: evaluate_direction_def Let_def cp)
qed

text \<open>C3: A candidate is accepted exactly when every gate is passed: the two higher timeframes do not both
  oppose it, the setup break comes with a displacement, the entry zone exists and has been retested,
  the market filters are silent, the five-minute chart confirms, the score reaches the minimum and
  the plan's net reward-to-risk ratio reaches its own.\<close>

theorem accepted_iff_all_gates:
  assumes "evaluate_direction inp dir k = Inr c"
  shows "ca_status c = Accepted \<longleftrightarrow>
    opposing_count inp dir \<noteq> 2 \<and> has_displacement inp dir \<and> zone_retested inp dir \<and>
    market_filter_reasons inp k = [] \<and> latest_break (si_analysis_5m inp) dir \<noteq> None \<and>
    minimum_score k \<le> ca_score c \<and>
    (\<exists>p. ca_trade_plan c = Some p \<and> minimum_net_reward_to_risk k \<le> tp_net_reward_to_risk p)"
  by (rule accepted_iff_gates [OF assms])

lemma accepted_iff_all_gates_witness:
  "\<exists>c. evaluate_direction sample_input Long default_strategy_config = Inr c \<and> ca_status c = Accepted"
proof -
  obtain c p where c: "evaluate_direction sample_input Long default_strategy_config = Inr c"
      "ca_trade_plan c = Some p" "tp_net_reward_to_risk p = 7425/1024" "ca_score c = 80"
    using sample_candidate by blast
  have "opposing_count sample_input Long \<noteq> 2" "has_displacement sample_input Long"
    "latest_break (si_analysis_5m sample_input) Long \<noteq> None"
    by code_simp+
  moreover have "zone_retested sample_input Long" by (simp add: zone_retested_def sample_zone)
  moreover have "market_filter_reasons sample_input default_strategy_config = []" by code_simp
  moreover have "minimum_score default_strategy_config = 70" "minimum_net_reward_to_risk default_strategy_config = 3"
    by (simp_all add: default_strategy_config_def)
  ultimately show ?thesis using accepted_iff_all_gates [OF c(1)] c by simp
qed

text \<open>The score is the sum of the awarded components: between zero and one hundred whenever the
  weights are valid, no component above its maximum.\<close>

theorem score_within_bounds:
  assumes "evaluate_direction inp dir k = Inr c" "mk_score_weights (sc_weights k) = Inr (sc_weights k)"
  shows "ca_score c = sum_list (map co_awarded (ca_components c)) \<and> 0 \<le> ca_score c \<and> ca_score c \<le> 100 \<and>
    list_all (\<lambda>s. 0 \<le> co_awarded s \<and> co_awarded s \<le> co_maximum s) (ca_components c)"
proof -
  from evaluate_directionE [OF assms(1)] have c: "ca_components c = score_components inp dir k"
      "ca_score c = sum_list (map co_awarded (score_components inp dir k))"
    by metis+
  show ?thesis using score_bounds [OF assms(2)] component_in_range [OF assms(2)] unfolding c list_all_iff by blast
qed

lemma score_within_bounds_witness:
  "\<exists>c. evaluate_direction sample_input Long default_strategy_config = Inr c \<and> 0 \<le> ca_score c \<and> ca_score c \<le> 100"
proof -
  obtain c where c: "evaluate_direction sample_input Long default_strategy_config = Inr c"
    using sample_candidate by blast
  have "mk_score_weights (sc_weights default_strategy_config) = Inr (sc_weights default_strategy_config)"
    using default_strategy_config_wf by (simp add: strategy_config_wf_def)
  from score_within_bounds [OF c this] c show ?thesis by auto
qed

text \<open>The target of a plan is the nearest opposing swing price beyond the middle of the zone, among
  the swings of the setup and of the context timeframe.\<close>

theorem liquidity_target_is_nearest:
  assumes "liquidity_target setup ctx dir (kind, lower, upper, status) = Some target"
  shows "target \<in> set (target_candidates setup ctx dir (dhalf (dadd lower upper))) \<and>
    list_all (\<lambda>price. case dir of
        Long \<Rightarrow> dhalf (dadd lower upper) < target \<and> target \<le> price
      | Short \<Rightarrow> target < dhalf (dadd lower upper) \<and> price \<le> target)
      (target_candidates setup ctx dir (dhalf (dadd lower upper)))"
  using liquidity_target_nearest [OF assms] unfolding list_all_iff by blast


lemma liquidity_target_is_nearest_witness:
  "400 \<in> set (target_candidates sample_analysis sample_analysis Long (dhalf (dadd 80 120)))"
proof -
  have "liquidity_target sample_analysis sample_analysis Long (''fvg'', 80, 120, Partially_Filled) = Some 400"
    using sample_zone(3) by (simp add: sample_input_def)
  then show ?thesis using liquidity_target_is_nearest [of sample_analysis sample_analysis Long "''fvg''" 80 120 Partially_Filled 400]
    by blast
qed

end
