(* ===== verification/Policy.thy ===== *)
theory Policy
  imports Evaluator Signal_States
begin

text \<open>
  \<open>src/src/crypto_smc/signals/models.py\<close> and \<open>policy.py\<close>: the publication policy that limits how
  many signals are published, and the decision about one candidate against the signals observed
  so far.
\<close>

section \<open>models.py\<close>

record policy_config =
  cooldown_minutes :: int
  maximum_active_signals :: int
  maximum_signals_per_hour :: int
  burst_window_minutes :: int
  burst_maximum_signals :: int
  pause_on_abnormal_btc :: bool

definition default_policy_config :: policy_config where
  "default_policy_config = \<lparr>cooldown_minutes = 60, maximum_active_signals = 5,
     maximum_signals_per_hour = 10, burst_window_minutes = 5, burst_maximum_signals = 3,
     pause_on_abnormal_btc = True\<rparr>"

definition mk_policy_config :: "policy_config \<Rightarrow> policy_config res" where
  "mk_policy_config k =
     rbind (raise_if (cooldown_minutes k < 0) (ValueError ''cooldown_minutes cannot be negative'')) (\<lambda>_.
     rbind (raise_if (maximum_active_signals k < 1) (ValueError ''maximum_active_signals must be positive'')) (\<lambda>_.
     rbind (raise_if (maximum_signals_per_hour k < 1) (ValueError ''maximum_signals_per_hour must be positive'')) (\<lambda>_.
     rbind (raise_if (burst_window_minutes k < 1) (ValueError ''burst_window_minutes must be positive'')) (\<lambda>_.
     rbind (raise_if (burst_maximum_signals k < 1) (ValueError ''burst_maximum_signals must be positive'')) (\<lambda>_.
     Inr k)))))"

record observation =
  obs_symbol :: string
  obs_status :: signal_status
  obs_created_at :: instant

record publication_decision =
  pd_allowed :: bool
  pd_reason :: "string option"

definition refuse :: "string \<Rightarrow> publication_decision" where
  "refuse reason = \<lparr>pd_allowed = False, pd_reason = Some reason\<rparr>"

section \<open>policy.py\<close>

definition published_obs :: "observation list \<Rightarrow> observation list" where
  "published_obs obs = filter (\<lambda>x. obs_status x \<in> published_signal_statuses) obs"

definition active_obs :: "observation list \<Rightarrow> observation list" where
  "active_obs obs = filter (\<lambda>x. obs_status x \<in> active_signal_statuses) (published_obs obs)"

definition since :: "instant \<Rightarrow> observation list \<Rightarrow> observation list" where
  "since start obs = filter (\<lambda>x. obs_created_at x > start) obs"

definition evaluate_publication ::
  "signal_candidate \<Rightarrow> observation list \<Rightarrow> instant \<Rightarrow> policy_config \<Rightarrow> publication_decision" where
  "evaluate_publication c obs now k =
     (if ca_status c \<noteq> Accepted \<or> ca_trade_plan c = None then refuse ''candidate_not_accepted''
      else if ca_expires_at c \<le> now then refuse ''candidate_expired''
      else if pause_on_abnormal_btc k \<and> ''abnormal_btc_movement'' \<in> set (ca_warnings c)
        then refuse ''btc_circuit_breaker''
      else
        let published = published_obs obs; active = active_obs obs in
        if \<exists>x \<in> set active. obs_symbol x = ca_symbol c then refuse ''active_signal_exists''
        else if \<exists>x \<in> set published. obs_symbol x = ca_symbol c \<and>
            obs_created_at x > now - minutes (cooldown_minutes k) then refuse ''symbol_cooldown''
        else if int (length active) \<ge> maximum_active_signals k then refuse ''portfolio_active_limit''
        else if int (length (since (now - hours 1) published)) \<ge> maximum_signals_per_hour k
          then refuse ''portfolio_hourly_limit''
        else if int (length (since (now - minutes (burst_window_minutes k)) published)) \<ge> burst_maximum_signals k
          then refuse ''portfolio_burst_limit''
        else \<lparr>pd_allowed = True, pd_reason = None\<rparr>)"

section \<open>The limits\<close>

text \<open>The limits of the policy over a list of observations at a moment: at most one active signal
  per symbol, and the three portfolio limits.\<close>

definition one_active_per_symbol :: "observation list \<Rightarrow> bool" where
  "one_active_per_symbol obs \<longleftrightarrow> distinct (map obs_symbol (active_obs obs))"

definition within_limits :: "observation list \<Rightarrow> instant \<Rightarrow> policy_config \<Rightarrow> bool" where
  "within_limits obs now k \<longleftrightarrow>
     int (length (active_obs obs)) \<le> maximum_active_signals k \<and>
     int (length (since (now - hours 1) (published_obs obs))) \<le> maximum_signals_per_hour k \<and>
     int (length (since (now - minutes (burst_window_minutes k)) (published_obs obs))) \<le> burst_maximum_signals k"

definition observe :: "signal_candidate \<Rightarrow> instant \<Rightarrow> publication_decision \<Rightarrow> observation" where
  "observe c now d = \<lparr>obs_symbol = ca_symbol c,
     obs_status = (if pd_allowed d then Sg_Preparing else Sg_Suppressed), obs_created_at = now\<rparr>"

lemma decision_reason: "pd_allowed (evaluate_publication c obs now k) \<longleftrightarrow> pd_reason (evaluate_publication c obs now k) = None"
  by (simp add: evaluate_publication_def refuse_def Let_def)

lemma refused_observation_adds_nothing:
  assumes "\<not> pd_allowed d"
  shows "published_obs (obs @ [observe c now d]) = published_obs obs"
    and "active_obs (obs @ [observe c now d]) = active_obs obs"
  using assms by (simp_all add: published_obs_def active_obs_def observe_def status_sets)

lemma allowed_observation:
  assumes "pd_allowed d"
  shows "published_obs (obs @ [observe c now d]) = published_obs obs @ [observe c now d]"
    and "active_obs (obs @ [observe c now d]) = active_obs obs @ [observe c now d]"
  using assms by (simp_all add: published_obs_def active_obs_def observe_def status_sets)

lemma allowedD:
  assumes "pd_allowed (evaluate_publication c obs now k)"
  shows "ca_status c = Accepted" "ca_trade_plan c \<noteq> None" "now < ca_expires_at c"
    and "\<forall>x \<in> set (active_obs obs). obs_symbol x \<noteq> ca_symbol c"
    and "\<forall>x \<in> set (published_obs obs). obs_symbol x = ca_symbol c \<longrightarrow>
      obs_created_at x \<le> now - minutes (cooldown_minutes k)"
    and "int (length (active_obs obs)) < maximum_active_signals k"
    and "int (length (since (now - hours 1) (published_obs obs))) < maximum_signals_per_hour k"
    and "int (length (since (now - minutes (burst_window_minutes k)) (published_obs obs))) < burst_maximum_signals k"
    and "pause_on_abnormal_btc k \<longrightarrow> ''abnormal_btc_movement'' \<notin> set (ca_warnings c)"
  using assms by (auto simp: evaluate_publication_def refuse_def Let_def split: if_splits)

lemma publication_keeps_limits:
  assumes "one_active_per_symbol obs" "within_limits obs now k"
  shows "one_active_per_symbol (obs @ [observe c now (evaluate_publication c obs now k)])"
    and "within_limits (obs @ [observe c now (evaluate_publication c obs now k)]) now k"
proof -
  let ?d = "evaluate_publication c obs now k"
  have "one_active_per_symbol (obs @ [observe c now ?d]) \<and> within_limits (obs @ [observe c now ?d]) now k"
  proof (cases "pd_allowed ?d")
    case True
    have sym: "obs_symbol (observe c now ?d) = ca_symbol c" by (simp add: observe_def)
    have len: "length (since t (published_obs obs @ [observe c now ?d])) \<le> Suc (length (since t (published_obs obs)))" for t
      by (simp add: since_def)
    from allowedD [OF True] assms(1) len [of "now - hours 1"] len [of "now - minutes (burst_window_minutes k)"]
    show ?thesis
      by (auto simp: one_active_per_symbol_def within_limits_def allowed_observation [OF True] sym)
  next
    case False
    then show ?thesis using assms
      by (simp add: one_active_per_symbol_def within_limits_def refused_observation_adds_nothing)
  qed
  then show "one_active_per_symbol (obs @ [observe c now ?d])" "within_limits (obs @ [observe c now ?d]) now k"
    by simp_all
qed

lemma default_policy_config_ok: "mk_policy_config default_policy_config = Inr default_policy_config"
  by (simp add: mk_policy_config_def default_policy_config_def)

end
