(* ===== verification/Signal_Repository.thy ===== *)
theory Signal_Repository
  imports Coverage Policy
begin

text \<open>
  The tables of \<open>src/src/crypto_smc/db/models/signals.py\<close> and the repository
  \<open>src/src/crypto_smc/db/repositories/signals.py\<close> that changes them. A table is the list of its rows in
  insertion order, a \<open>select \<dots> where\<close> is a filter, an update replaces the row with the given key.
  A method runs in one transaction: it returns the new tables, or raises and changes nothing.
  Columns the database fills in (\<open>updated_at\<close>, default timestamps) and the rounding of values to
  the scale of a \<open>Numeric\<close> column are not modelled.
\<close>

section \<open>The tables\<close>

record signal_row =
  sr_id :: int
  sr_candidate_id :: int
  sr_symbol :: string
  sr_direction :: trade_direction
  sr_status :: signal_status
  sr_suppression_reason :: "string option"
  sr_entry_lower :: dec
  sr_entry_upper :: dec
  sr_planned_entry :: dec
  sr_stop_loss :: dec
  sr_take_profit_1 :: dec
  sr_take_profit_2 :: dec
  sr_quantity :: dec
  sr_risk_amount :: dec
  sr_taker_fee_rate :: dec
  sr_funding_rate :: dec
  sr_funding_interval_minutes :: int
  sr_expires_at :: instant
  sr_activated_at :: "instant option"
  sr_entered_at :: "instant option"
  sr_tp1_reached_at :: "instant option"
  sr_closed_at :: "instant option"
  sr_version :: int
  sr_created_at :: instant

datatype event_payload =
    No_Payload
  | Refusal string
  | Trade_Count nat
  | Trade_Values dec dec int
  | Candle_Values candle_1m string
  | Window_Values string instant instant nat

record event_row =
  ev_signal_id :: int
  ev_event_type :: string
  ev_status_from :: "signal_status option"
  ev_status_to :: signal_status
  ev_event_time :: instant
  ev_source_event_id :: "string option"
  ev_key :: string
  ev_payload :: event_payload

record trade_row =
  vt_signal_id :: int
  vt_status :: trade_status
  vt_planned_entry :: dec
  vt_current_stop :: dec
  vt_take_profit_1 :: dec
  vt_take_profit_2 :: dec
  vt_quantity :: dec
  vt_remaining_quantity :: dec
  vt_entered_at :: "instant option"
  vt_resolved_at :: "instant option"
  vt_realized_pnl :: dec
  vt_fees :: dec
  vt_estimated_funding :: dec
  vt_r_multiple :: dec
  vt_ambiguous :: bool
  vt_resolution_note :: "string option"
  vt_last_trade_id :: "string option"
  vt_last_trade_time :: "instant option"
  vt_last_trade_sequence :: "int option"
  vt_version :: int

text \<open>The columns of \<open>SignalCandidateRecord\<close> (\<open>db/models/strategy.py\<close>) that this repository reads.\<close>

record candidate_row =
  cr_id :: int
  cr_snapshot_id :: int
  cr_symbol :: string
  cr_direction :: trade_direction
  cr_score :: int
  cr_strength :: strength
  cr_entry_lower :: "dec option"
  cr_entry_upper :: "dec option"
  cr_planned_entry :: "dec option"
  cr_stop_loss :: "dec option"
  cr_take_profit_1 :: "dec option"
  cr_take_profit_2 :: "dec option"
  cr_risk_amount :: "dec option"
  cr_quantity :: "dec option"
  cr_notional :: "dec option"
  cr_estimated_entry_fee :: "dec option"
  cr_expires_at :: instant

record notification_payload =
  np_signal :: signal_row
  np_trade :: trade_row
  np_event_type :: string
  np_event_time :: instant
  np_score :: int
  np_strength :: strength

record outbox_row =
  no_key :: string
  no_event_type :: string
  no_signal_id :: int
  no_payload :: notification_payload
  no_status :: string
  no_available_at :: instant

record signal_db =
  db_signals :: "signal_row list"
  db_trades :: "trade_row list"
  db_events :: "event_row list"
  db_outbox :: "outbox_row list"
  db_candidates :: "candidate_row list"
  db_snapshot_funding :: "(int \<times> dec option) list"
  db_instrument_funding_minutes :: "(string \<times> int) list"
  db_next_signal_id :: int

definition find_signal :: "signal_db \<Rightarrow> int \<Rightarrow> signal_row option" where
  "find_signal db i = List.find (\<lambda>s. sr_id s = i) (db_signals db)"

definition find_trade :: "signal_db \<Rightarrow> int \<Rightarrow> trade_row option" where
  "find_trade db i = List.find (\<lambda>t. vt_signal_id t = i) (db_trades db)"

definition find_event :: "signal_db \<Rightarrow> string \<Rightarrow> event_row option" where
  "find_event db key = List.find (\<lambda>e. ev_key e = key) (db_events db)"

definition put_signal :: "signal_row \<Rightarrow> signal_db \<Rightarrow> signal_db" where
  "put_signal s db = db\<lparr>db_signals := map (\<lambda>r. if sr_id r = sr_id s then s else r) (db_signals db)\<rparr>"

definition put_trade :: "trade_row \<Rightarrow> signal_db \<Rightarrow> signal_db" where
  "put_trade t db = db\<lparr>db_trades := map (\<lambda>r. if vt_signal_id r = vt_signal_id t then t else r) (db_trades db)\<rparr>"

definition add_event :: "event_row \<Rightarrow> signal_db \<Rightarrow> signal_db" where
  "add_event e db = db\<lparr>db_events := db_events db @ [e]\<rparr>"

section \<open>apply_transition\<close>

record transition_request =
  rq_signal_id :: int
  rq_target :: signal_status
  rq_event_time :: instant
  rq_key :: string
  rq_event_type :: string
  rq_source_event_id :: "string option"
  rq_payload :: event_payload
  rq_realized_pnl :: "dec option"
  rq_fees :: "dec option"
  rq_estimated_funding :: "dec option"
  rq_r_multiple :: "dec option"
  rq_ambiguous :: "bool option"
  rq_resolution_note :: "string option"
  rq_current_stop :: "dec option"
  rq_remaining_quantity :: "dec option"

record transition_result =
  tr_applied :: bool
  tr_signal_id :: int
  tr_status :: signal_status

text \<open>\<open>if x is not None: row.field = x\<close>.\<close>

definition given :: "'a option \<Rightarrow> 'a \<Rightarrow> 'a" where
  "given new old = (case new of None \<Rightarrow> old | Some x \<Rightarrow> x)"

definition advance_signal :: "transition_request \<Rightarrow> signal_status \<Rightarrow> signal_row \<Rightarrow> signal_row" where
  "advance_signal rq next_status s = s\<lparr>
     sr_status := next_status, sr_version := sr_version s + 1,
     sr_activated_at := (if next_status = Sg_Active then Some (rq_event_time rq) else sr_activated_at s),
     sr_entered_at := (if next_status = Sg_Entered then Some (rq_event_time rq) else sr_entered_at s),
     sr_tp1_reached_at := (if next_status = Sg_Tp1_Reached then Some (rq_event_time rq) else sr_tp1_reached_at s),
     sr_closed_at := (if next_status \<in> terminal_signal_statuses then Some (rq_event_time rq) else sr_closed_at s)\<rparr>"

definition advance_trade ::
  "transition_request \<Rightarrow> signal_status \<Rightarrow> trade_status \<Rightarrow> trade_row \<Rightarrow> trade_row" where
  "advance_trade rq next_status next_trade t = t\<lparr>
     vt_status := next_trade, vt_version := vt_version t + 1,
     vt_entered_at := (if next_status = Sg_Entered then Some (rq_event_time rq) else vt_entered_at t),
     vt_resolved_at := (if next_status \<in> terminal_signal_statuses then Some (rq_event_time rq) else vt_resolved_at t),
     vt_realized_pnl := given (rq_realized_pnl rq) (vt_realized_pnl t),
     vt_fees := given (rq_fees rq) (vt_fees t),
     vt_estimated_funding := given (rq_estimated_funding rq) (vt_estimated_funding t),
     vt_r_multiple := given (rq_r_multiple rq) (vt_r_multiple t),
     vt_ambiguous := given (rq_ambiguous rq) (vt_ambiguous t),
     vt_resolution_note := (case rq_resolution_note rq of None \<Rightarrow> vt_resolution_note t | Some n \<Rightarrow> Some n),
     vt_current_stop := given (rq_current_stop rq) (vt_current_stop t),
     vt_remaining_quantity := given (rq_remaining_quantity rq) (vt_remaining_quantity t)\<rparr>"

fun notification_type :: "signal_status \<Rightarrow> string" where
  "notification_type Sg_Active = ''new_signal''"
| "notification_type Sg_Entered = ''entry_filled''"
| "notification_type Sg_Tp1_Reached = ''take_profit_1''"
| "notification_type Sg_Stopped = ''signal_result''"
| "notification_type Sg_Stopped_At_Breakeven = ''signal_result''"
| "notification_type Sg_Tp2_Completed = ''signal_result''"
| "notification_type Sg_Ambiguous = ''signal_warning''"
| "notification_type Sg_Coverage_Failed = ''signal_warning''"
| "notification_type Sg_Expired = ''signal_expired''"
| "notification_type Sg_Invalidated = ''signal_invalidated''"
| "notification_type Sg_Preparing = ''signal_warning''"
| "notification_type Sg_Suppressed = ''signal_warning''"

definition notification_payload_of ::
  "signal_row \<Rightarrow> trade_row \<Rightarrow> candidate_row \<Rightarrow> string \<Rightarrow> instant \<Rightarrow> notification_payload" where
  "notification_payload_of s t c event_type event_time = \<lparr>np_signal = s, np_trade = t,
     np_event_type = event_type, np_event_time = event_time, np_score = cr_score c,
     np_strength = cr_strength c\<rparr>"

definition notify ::
  "transition_request \<Rightarrow> signal_row \<Rightarrow> trade_row \<Rightarrow> signal_db \<Rightarrow> signal_db" where
  "notify rq s t db =
     (case List.find (\<lambda>c. cr_id c = sr_candidate_id s) (db_candidates db) of
        None \<Rightarrow> db
      | Some c \<Rightarrow> db\<lparr>db_outbox := db_outbox db @
          [\<lparr>no_key = ''signal-event:'' @ rq_key rq, no_event_type = notification_type (sr_status s),
            no_signal_id = sr_id s,
            no_payload = notification_payload_of s t c (rq_event_type rq) (rq_event_time rq),
            no_status = ''pending'', no_available_at = rq_event_time rq\<rparr>]\<rparr>)"

definition event_of :: "transition_request \<Rightarrow> signal_status \<Rightarrow> signal_status \<Rightarrow> event_row" where
  "event_of rq current next_status = \<lparr>ev_signal_id = rq_signal_id rq, ev_event_type = rq_event_type rq,
     ev_status_from = Some current, ev_status_to = next_status, ev_event_time = rq_event_time rq,
     ev_source_event_id = rq_source_event_id rq, ev_key = rq_key rq, ev_payload = rq_payload rq\<rparr>"

definition missing_signal :: "int \<Rightarrow> py_exn" where
  "missing_signal i = ValueError (''Signal '' @ show_int i @ '' does not exist'')"

definition missing_trade :: "int \<Rightarrow> py_exn" where
  "missing_trade i = ValueError (''Signal '' @ show_int i @ '' has no virtual trade'')"

definition apply_transition ::
  "transition_request \<Rightarrow> signal_db \<Rightarrow> (transition_result \<times> signal_db) res" where
  "apply_transition rq db =
     (case find_event db (rq_key rq) of
        Some duplicate \<Rightarrow>
          rbind (raise_if (ev_signal_id duplicate \<noteq> rq_signal_id rq)
            (ValueError (''Idempotency key '' @ rq_key rq @ '' belongs to signal '' @
               show_int (ev_signal_id duplicate)))) (\<lambda>_.
          (case find_signal db (rq_signal_id rq) of
             None \<Rightarrow> Inl (missing_signal (rq_signal_id rq))
           | Some current \<Rightarrow>
               Inr (\<lparr>tr_applied = False, tr_signal_id = rq_signal_id rq, tr_status = sr_status current\<rparr>, db)))
      | None \<Rightarrow>
          (case find_signal db (rq_signal_id rq) of
             None \<Rightarrow> Inl (missing_signal (rq_signal_id rq))
           | Some s \<Rightarrow>
               rbind (transition_signal (sr_status s) (rq_target rq)) (\<lambda>next_status.
               (case find_trade db (rq_signal_id rq) of
                  None \<Rightarrow> Inl (missing_trade (rq_signal_id rq))
                | Some t \<Rightarrow>
                    rbind (case virtual_trade_target next_status of
                             None \<Rightarrow> Inr (vt_status t)
                           | Some target \<Rightarrow> transition_virtual_trade (vt_status t) target) (\<lambda>next_trade.
                    let s' = advance_signal rq next_status s;
                        t' = advance_trade rq next_status next_trade t;
                        db' = add_event (event_of rq (sr_status s) next_status)
                          (put_trade t' (put_signal s' db))
                    in Inr (\<lparr>tr_applied = True, tr_signal_id = rq_signal_id rq, tr_status = next_status\<rparr>,
                            notify rq s' t' db'))))))"

section \<open>Checkpoints, tracking events and tracked signals\<close>

definition checkpoint_trade ::
  "int \<Rightarrow> string \<Rightarrow> instant \<Rightarrow> int \<Rightarrow> signal_db \<Rightarrow> signal_db res" where
  "checkpoint_trade signal_id trade_id executed_at sequence db =
     (case find_trade db signal_id of
        None \<Rightarrow> Inl (missing_trade signal_id)
      | Some t \<Rightarrow>
          (case vt_last_trade_time t of
             Some seen_at \<Rightarrow>
               if (executed_at, sequence, trade_id) \<le>
                  (seen_at, given (vt_last_trade_sequence t) 0, given (vt_last_trade_id t) [])
               then Inr db
               else Inr (put_trade (t\<lparr>vt_last_trade_id := Some trade_id, vt_last_trade_time := Some executed_at,
                 vt_last_trade_sequence := Some sequence\<rparr>) db)
           | None \<Rightarrow> Inr (put_trade (t\<lparr>vt_last_trade_id := Some trade_id, vt_last_trade_time := Some executed_at,
                 vt_last_trade_sequence := Some sequence\<rparr>) db)))"

definition record_tracking_event ::
  "int \<Rightarrow> instant \<Rightarrow> string \<Rightarrow> string \<Rightarrow> event_payload \<Rightarrow> signal_db \<Rightarrow> (bool \<times> signal_db) res" where
  "record_tracking_event signal_id event_time key event_type payload db =
     (case find_event db key of
        Some _ \<Rightarrow> Inr (False, db)
      | None \<Rightarrow>
          (case find_signal db signal_id of
             None \<Rightarrow> Inl (missing_signal signal_id)
           | Some s \<Rightarrow> Inr (True, add_event \<lparr>ev_signal_id = signal_id, ev_event_type = event_type,
               ev_status_from = Some (sr_status s), ev_status_to = sr_status s, ev_event_time = event_time,
               ev_source_event_id = None, ev_key = key, ev_payload = payload\<rparr> db)))"

record tracking_view =
  tv_id :: int
  tv_symbol :: string
  tv_direction :: trade_direction
  tv_status :: signal_status
  tv_entry_lower :: dec
  tv_entry_upper :: dec
  tv_planned_entry :: dec
  tv_stop_loss :: dec
  tv_take_profit_1 :: dec
  tv_take_profit_2 :: dec
  tv_quantity :: dec
  tv_risk_amount :: dec
  tv_taker_fee_rate :: dec
  tv_expires_at :: instant
  tv_created_at :: instant
  tv_current_stop :: dec
  tv_remaining_quantity :: dec
  tv_last_trade_id :: "string option"
  tv_last_trade_time :: "instant option"
  tv_last_trade_sequence :: "int option"
  tv_funding_rate :: dec
  tv_funding_interval_minutes :: int
  tv_entered_at :: "instant option"
  tv_tp1_reached_at :: "instant option"

definition coverage_anchor :: "tracking_view \<Rightarrow> instant" where
  "coverage_anchor v = (case tv_last_trade_time v of None \<Rightarrow> tv_created_at v | Some t \<Rightarrow> t)"

definition tracking_view_of :: "signal_row \<Rightarrow> trade_row \<Rightarrow> tracking_view" where
  "tracking_view_of s t = \<lparr>tv_id = sr_id s, tv_symbol = sr_symbol s, tv_direction = sr_direction s,
     tv_status = sr_status s, tv_entry_lower = sr_entry_lower s, tv_entry_upper = sr_entry_upper s,
     tv_planned_entry = sr_planned_entry s, tv_stop_loss = sr_stop_loss s,
     tv_take_profit_1 = sr_take_profit_1 s, tv_take_profit_2 = sr_take_profit_2 s,
     tv_quantity = sr_quantity s, tv_risk_amount = sr_risk_amount s,
     tv_taker_fee_rate = sr_taker_fee_rate s, tv_expires_at = sr_expires_at s,
     tv_created_at = sr_created_at s, tv_current_stop = vt_current_stop t,
     tv_remaining_quantity = vt_remaining_quantity t, tv_last_trade_id = vt_last_trade_id t,
     tv_last_trade_time = vt_last_trade_time t, tv_last_trade_sequence = vt_last_trade_sequence t,
     tv_funding_rate = sr_funding_rate s, tv_funding_interval_minutes = sr_funding_interval_minutes s,
     tv_entered_at = sr_entered_at s, tv_tp1_reached_at = sr_tp1_reached_at s\<rparr>"

definition tracked_rows :: "signal_db \<Rightarrow> (signal_row \<times> trade_row) list" where
  "tracked_rows db = sort_key (\<lambda>(s, t). (sr_created_at s, sr_id s))
     [(s, t). s \<leftarrow> db_signals db, t \<leftarrow> db_trades db,
        vt_signal_id t = sr_id s \<and> sr_status s \<in> active_signal_statuses]"

definition list_tracking_signals :: "signal_db \<Rightarrow> tracking_view list" where
  "list_tracking_signals db = map (\<lambda>(s, t). tracking_view_of s t) (tracked_rows db)"

definition list_recoverable :: "signal_db \<Rightarrow> int list" where
  "list_recoverable db = map sr_id (sort_key (\<lambda>s. (sr_created_at s, sr_id s))
     (filter (\<lambda>s. sr_status s \<in> active_signal_statuses) (db_signals db)))"

section \<open>publish_candidates\<close>

definition given_levels :: "candidate_row \<Rightarrow> dec option list" where
  "given_levels c = [cr_entry_lower c, cr_entry_upper c, cr_planned_entry c, cr_stop_loss c,
     cr_take_profit_1 c, cr_take_profit_2 c, cr_quantity c, cr_risk_amount c]"

definition derived_fee_rate :: "candidate_row \<Rightarrow> dec" where
  "derived_fee_rate c =
     (case (cr_estimated_entry_fee c, cr_notional c) of
        (Some fee, Some notional) \<Rightarrow> if notional > 0 then ddivn fee notional else 55 / 100000
      | _ \<Rightarrow> 55 / 100000)"

text \<open>\<open>_signal_record\<close>, with the key the database assigns.\<close>

definition signal_record ::
  "int \<Rightarrow> candidate_row \<Rightarrow> signal_status \<Rightarrow> string option \<Rightarrow> instant \<Rightarrow> dec \<Rightarrow> int \<Rightarrow> signal_row res" where
  "signal_record i c status reason now funding_rate funding_minutes =
     rbind (raise_if (None \<in> set (given_levels c))
       (ValueError ''Accepted candidate is missing a trade plan'')) (\<lambda>_.
     Inr \<lparr>sr_id = i, sr_candidate_id = cr_id c, sr_symbol = cr_symbol c, sr_direction = cr_direction c,
       sr_status = status, sr_suppression_reason = reason, sr_entry_lower = the (cr_entry_lower c),
       sr_entry_upper = the (cr_entry_upper c), sr_planned_entry = the (cr_planned_entry c),
       sr_stop_loss = the (cr_stop_loss c), sr_take_profit_1 = the (cr_take_profit_1 c),
       sr_take_profit_2 = the (cr_take_profit_2 c), sr_quantity = the (cr_quantity c),
       sr_risk_amount = the (cr_risk_amount c),
       sr_taker_fee_rate = derived_fee_rate c,
       sr_funding_rate = funding_rate, sr_funding_interval_minutes = funding_minutes,
       sr_expires_at = cr_expires_at c, sr_activated_at = None, sr_entered_at = None,
       sr_tp1_reached_at = None, sr_closed_at = None, sr_version = 1, sr_created_at = now\<rparr>)"

definition virtual_trade :: "signal_row \<Rightarrow> candidate_row \<Rightarrow> trade_row res" where
  "virtual_trade s c =
     rbind (raise_if (None \<in> set [cr_planned_entry c, cr_stop_loss c, cr_take_profit_1 c,
         cr_take_profit_2 c, cr_quantity c])
       (ValueError ''Accepted candidate is missing virtual trade levels'')) (\<lambda>_.
     Inr \<lparr>vt_signal_id = sr_id s, vt_status = Vt_Waiting_Entry, vt_planned_entry = the (cr_planned_entry c),
       vt_current_stop = the (cr_stop_loss c), vt_take_profit_1 = the (cr_take_profit_1 c),
       vt_take_profit_2 = the (cr_take_profit_2 c), vt_quantity = the (cr_quantity c),
       vt_remaining_quantity = the (cr_quantity c), vt_entered_at = None, vt_resolved_at = None,
       vt_realized_pnl = 0, vt_fees = 0, vt_estimated_funding = 0, vt_r_multiple = 0,
       vt_ambiguous = False, vt_resolution_note = None, vt_last_trade_id = None,
       vt_last_trade_time = None, vt_last_trade_sequence = None, vt_version = 1\<rparr>)"

text \<open>The unique constraints of the tables, checked when the rows are flushed: one signal per
  candidate, one active signal per symbol, one event per key.\<close>

definition violates_unique :: "signal_row \<Rightarrow> string \<Rightarrow> signal_db \<Rightarrow> bool" where
  "violates_unique s key db \<longleftrightarrow>
     (\<exists>r \<in> set (db_signals db). sr_candidate_id r = sr_candidate_id s) \<or>
     sr_status s \<in> active_signal_statuses \<and>
       (\<exists>r \<in> set (db_signals db). sr_status r \<in> active_signal_statuses \<and> sr_symbol r = sr_symbol s) \<or>
     find_event db key \<noteq> None"

definition observation_of :: "signal_row \<Rightarrow> observation" where
  "observation_of s = \<lparr>obs_symbol = sr_symbol s, obs_status = sr_status s, obs_created_at = sr_created_at s\<rparr>"

definition observed_rows :: "signal_db \<Rightarrow> policy_config \<Rightarrow> instant \<Rightarrow> signal_row list" where
  "observed_rows db k now =
     (let earliest = now - max (max (hours 1) (minutes (cooldown_minutes k))) (minutes (burst_window_minutes k))
      in filter (\<lambda>s. sr_status s \<in> active_signal_statuses \<or> sr_created_at s > earliest) (db_signals db))"

record publication_state =
  ps_db :: signal_db
  ps_observations :: "observation list"
  ps_prepared :: nat
  ps_suppressed :: nat

definition snapshot_funding_rate :: "signal_db \<Rightarrow> candidate_row \<Rightarrow> dec" where
  "snapshot_funding_rate db c =
     (case map_of (db_snapshot_funding db) (cr_snapshot_id c) of Some (Some rate) \<Rightarrow> rate | _ \<Rightarrow> 0)"

definition instrument_funding_minutes :: "signal_db \<Rightarrow> candidate_row \<Rightarrow> int" where
  "instrument_funding_minutes db c =
     (case map_of (db_instrument_funding_minutes db) (cr_symbol c) of Some m \<Rightarrow> m | None \<Rightarrow> 480)"

definition publish_one ::
  "policy_config \<Rightarrow> instant \<Rightarrow> publication_state \<Rightarrow> candidate_row \<times> signal_candidate \<Rightarrow> publication_state res" where
  "publish_one k now ps = (\<lambda>(record, candidate).
     let db = ps_db ps;
         decision = evaluate_publication candidate (ps_observations ps) now k;
         status = (if pd_allowed decision then Sg_Preparing else Sg_Suppressed);
         key = ''candidate:'' @ show_int (cr_id record) @ '':publication''
     in
     rbind (signal_record (db_next_signal_id db) record status (pd_reason decision) now
       (snapshot_funding_rate db record) (instrument_funding_minutes db record)) (\<lambda>signal.
     rbind (raise_if (violates_unique signal key db) (RuntimeError ''IntegrityError'')) (\<lambda>_.
     rbind (if pd_allowed decision then rmap (\<lambda>t. [t]) (virtual_trade signal record) else Inr []) (\<lambda>trade.
     let event = \<lparr>ev_signal_id = sr_id signal,
           ev_event_type = (if pd_allowed decision then ''signal_prepared'' else ''signal_suppressed''),
           ev_status_from = None, ev_status_to = status, ev_event_time = now, ev_source_event_id = None,
           ev_key = key, ev_payload = (case pd_reason decision of None \<Rightarrow> No_Payload | Some r \<Rightarrow> Refusal r)\<rparr>
     in Inr \<lparr>ps_db = db\<lparr>db_signals := db_signals db @ [signal], db_trades := db_trades db @ trade,
              db_events := db_events db @ [event], db_next_signal_id := db_next_signal_id db + 1\<rparr>,
            ps_observations = ps_observations ps @ [\<lparr>obs_symbol = sr_symbol signal,
              obs_status = sr_status signal, obs_created_at = now\<rparr>],
            ps_prepared = ps_prepared ps + (if pd_allowed decision then 1 else 0),
            ps_suppressed = ps_suppressed ps + (if pd_allowed decision then 0 else 1)\<rparr>))))"

definition publish_candidates ::
  "(candidate_row \<times> signal_candidate) list \<Rightarrow> policy_config \<Rightarrow> instant \<Rightarrow> signal_db \<Rightarrow>
   ((nat \<times> nat) \<times> signal_db) res" where
  "publish_candidates candidates k now db =
     (let accepted = filter (\<lambda>(_, c). ca_status c = Accepted \<and> ca_trade_plan c \<noteq> None) candidates in
      if accepted = [] then Inr ((0, 0), db)
      else rbind (foldM (publish_one k now)
        \<lparr>ps_db = db, ps_observations = map observation_of (observed_rows db k now),
         ps_prepared = 0, ps_suppressed = 0\<rparr> accepted) (\<lambda>ps.
      Inr ((ps_prepared ps, ps_suppressed ps), ps_db ps)))"

section \<open>The invariant of the tables\<close>

definition history :: "signal_db \<Rightarrow> int \<Rightarrow> signal_status list" where
  "history db i = map ev_status_to
     (filter (\<lambda>e. ev_signal_id e = i \<and> ev_status_from e \<noteq> Some (ev_status_to e)) (db_events db))"

definition signal_history_ok :: "signal_db \<Rightarrow> signal_row \<Rightarrow> bool" where
  "signal_history_ok db s \<longleftrightarrow>
     (\<exists>first ts. history db (sr_id s) = first # ts \<and> walk signal_transitions first ts (sr_status s) \<and>
        (first = Sg_Preparing \<or> first = Sg_Suppressed) \<and> sr_version s = 1 + int (length ts)) \<and>
     (sr_closed_at s \<noteq> None \<longleftrightarrow> sr_status s \<in> terminal_signal_statuses)"

definition signal_trade_ok :: "signal_db \<Rightarrow> signal_row \<Rightarrow> bool" where
  "signal_trade_ok db s \<longleftrightarrow> (sr_status s \<noteq> Sg_Suppressed \<longrightarrow>
     (\<exists>t. find_trade db (sr_id s) = Some t \<and> vt_status t = trade_status_of (sr_status s) \<and>
        (vt_resolved_at t \<noteq> None \<longleftrightarrow> sr_status s \<in> terminal_signal_statuses)))"

definition keys_ok :: "signal_db \<Rightarrow> bool" where
  "keys_ok db \<longleftrightarrow> distinct (map sr_id (db_signals db)) \<and> (\<forall>s \<in> set (db_signals db). sr_id s < db_next_signal_id db) \<and>
     distinct (map vt_signal_id (db_trades db)) \<and> (\<forall>t \<in> set (db_trades db). vt_signal_id t < db_next_signal_id db) \<and>
     distinct (map ev_key (db_events db)) \<and> (\<forall>e \<in> set (db_events db). ev_signal_id e < db_next_signal_id db)"

definition one_active_row_per_symbol :: "signal_db \<Rightarrow> bool" where
  "one_active_row_per_symbol db \<longleftrightarrow>
     distinct (map sr_symbol (filter (\<lambda>s. sr_status s \<in> active_signal_statuses) (db_signals db)))"

definition db_ok :: "signal_db \<Rightarrow> bool" where
  "db_ok db \<longleftrightarrow> keys_ok db \<and> one_active_row_per_symbol db \<and>
     (\<forall>s \<in> set (db_signals db). signal_history_ok db s \<and> signal_trade_ok db s)"

subsection \<open>Lookup and update\<close>

lemma find_unique: "distinct (map f xs) \<Longrightarrow> List.find (\<lambda>x. f x = k) xs = Some x \<longleftrightarrow> x \<in> set xs \<and> f x = k"
proof (induction xs)
  case (Cons y ys)
  then show ?case by (auto simp: image_iff)
qed simp

lemma find_signal_iff: "keys_ok db \<Longrightarrow> find_signal db i = Some s \<longleftrightarrow> s \<in> set (db_signals db) \<and> sr_id s = i"
  by (simp add: find_signal_def find_unique keys_ok_def)

lemma find_trade_iff: "keys_ok db \<Longrightarrow> find_trade db i = Some t \<longleftrightarrow> t \<in> set (db_trades db) \<and> vt_signal_id t = i"
  by (simp add: find_trade_def find_unique keys_ok_def)

lemma find_event_None: "find_event db key = None \<longleftrightarrow> key \<notin> ev_key ` set (db_events db)"
  by (auto simp: find_event_def find_None_iff)

lemma db_fields [simp]:
  "db_signals (put_signal s db) = map (\<lambda>r. if sr_id r = sr_id s then s else r) (db_signals db)"
  "db_trades (put_signal s db) = db_trades db" "db_events (put_signal s db) = db_events db"
  "db_next_signal_id (put_signal s db) = db_next_signal_id db"
  "db_trades (put_trade t db) = map (\<lambda>r. if vt_signal_id r = vt_signal_id t then t else r) (db_trades db)"
  "db_signals (put_trade t db) = db_signals db" "db_events (put_trade t db) = db_events db"
  "db_next_signal_id (put_trade t db) = db_next_signal_id db"
  "db_events (add_event e db) = db_events db @ [e]" "db_signals (add_event e db) = db_signals db"
  "db_trades (add_event e db) = db_trades db" "db_next_signal_id (add_event e db) = db_next_signal_id db"
  "db_signals (notify rq s' t' db) = db_signals db" "db_trades (notify rq s' t' db) = db_trades db"
  "db_events (notify rq s' t' db) = db_events db" "db_next_signal_id (notify rq s' t' db) = db_next_signal_id db"
  by (simp_all add: put_signal_def put_trade_def add_event_def notify_def split: option.split)

lemma map_update_id:
  "(\<And>r. r \<in> set xs \<Longrightarrow> f r = f x \<Longrightarrow> g r = g x) \<Longrightarrow> map g (map (\<lambda>r. if f r = f x then x else r) xs) = map g xs"
  by (induction xs) auto

subsection \<open>One transition\<close>

definition transition_applied ::
  "transition_request \<Rightarrow> signal_db \<Rightarrow> signal_row \<Rightarrow> trade_row \<Rightarrow> trade_status \<Rightarrow> signal_db" where
  "transition_applied rq db s t next_trade =
     (let s' = advance_signal rq (rq_target rq) s; t' = advance_trade rq (rq_target rq) next_trade t in
      notify rq s' t' (add_event (event_of rq (sr_status s) (rq_target rq)) (put_trade t' (put_signal s' db))))"

lemma apply_transition_cases:
  assumes "apply_transition rq db = Inr (r, db')"
  obtains (duplicate) "find_event db (rq_key rq) \<noteq> None" "\<not> tr_applied r" "db' = db"
  | (applied) s t next_trade where "find_event db (rq_key rq) = None" "tr_applied r" "tr_status r = rq_target rq"
      "find_signal db (rq_signal_id rq) = Some s" "find_trade db (rq_signal_id rq) = Some t"
      "rq_target rq \<in> signal_transitions (sr_status s)"
      "case virtual_trade_target (rq_target rq) of None \<Rightarrow> next_trade = vt_status t
       | Some v \<Rightarrow> next_trade = v \<and> v \<in> trade_transitions (vt_status t)"
      "db' = transition_applied rq db s t next_trade"
proof (cases "find_event db (rq_key rq)")
  case (Some e)
  then show thesis using assms
    by (intro duplicate) (auto simp: apply_transition_def split: option.splits)
next
  case None
  then obtain s t nt where "find_signal db (rq_signal_id rq) = Some s" "find_trade db (rq_signal_id rq) = Some t"
    and tgt: "rq_target rq \<in> signal_transitions (sr_status s)"
    and nt: "(case virtual_trade_target (rq_target rq) of None \<Rightarrow> Inr (vt_status t)
       | Some target \<Rightarrow> transition_virtual_trade (vt_status t) target) = Inr nt"
    and r: "r = \<lparr>tr_applied = True, tr_signal_id = rq_signal_id rq, tr_status = rq_target rq\<rparr>"
    and db': "db' = transition_applied rq db s t nt"
    using assms by (auto simp: apply_transition_def transition_applied_def Let_def split: option.splits)
  then show thesis using None
    by (intro applied [of s t nt]) (simp_all split: option.splits)
qed

lemma advance_simps [simp]:
  "sr_id (advance_signal rq n s) = sr_id s" "sr_symbol (advance_signal rq n s) = sr_symbol s"
  "sr_status (advance_signal rq n s) = n" "sr_version (advance_signal rq n s) = sr_version s + 1"
  "sr_created_at (advance_signal rq n s) = sr_created_at s"
  "vt_signal_id (advance_trade rq n v t) = vt_signal_id t" "vt_status (advance_trade rq n v t) = v"
  "ev_signal_id (event_of rq c n) = rq_signal_id rq" "ev_key (event_of rq c n) = rq_key rq"
  "ev_status_from (event_of rq c n) = Some c" "ev_status_to (event_of rq c n) = n"
  by (simp_all add: advance_signal_def advance_trade_def event_of_def)

lemma transition_applied_tables [simp]:
  "db_signals (transition_applied rq db s t v) =
     map (\<lambda>r. if sr_id r = sr_id s then advance_signal rq (rq_target rq) s else r) (db_signals db)"
  "db_trades (transition_applied rq db s t v) =
     map (\<lambda>r. if vt_signal_id r = vt_signal_id t then advance_trade rq (rq_target rq) v t else r) (db_trades db)"
  "db_events (transition_applied rq db s t v) = db_events db @ [event_of rq (sr_status s) (rq_target rq)]"
  "db_next_signal_id (transition_applied rq db s t v) = db_next_signal_id db"
  by (simp_all add: transition_applied_def Let_def)

lemma find_trade_applied:
  "find_trade (transition_applied rq db s t v) i =
     (if i = vt_signal_id t \<and> find_trade db i \<noteq> None then Some (advance_trade rq (rq_target rq) v t)
      else find_trade db i)"
  using find_update [of vt_signal_id "advance_trade rq (rq_target rq) v t" "vt_signal_id t" i "db_trades db"]
  by (auto simp: find_trade_def)

lemma find_signal_applied:
  "find_signal (transition_applied rq db s t v) i =
     (if i = sr_id s \<and> find_signal db i \<noteq> None then Some (advance_signal rq (rq_target rq) s)
      else find_signal db i)"
  using find_update [of sr_id "advance_signal rq (rq_target rq) s" "sr_id s" i "db_signals db"]
  by (auto simp: find_signal_def)

lemma not_self_transition: "t \<in> signal_transitions s \<Longrightarrow> t \<noteq> s"
  using signal_machine.decreases by blast

lemma history_applied:
  assumes "rq_target rq \<in> signal_transitions (sr_status s)"
  shows "history (transition_applied rq db s t v) i =
    history db i @ (if i = rq_signal_id rq then [rq_target rq] else [])"
  using not_self_transition [OF assms] by (auto simp: history_def)

lemma keys_applied:
  assumes "keys_ok db" "find_event db (rq_key rq) = None" "find_signal db (rq_signal_id rq) = Some s"
    "find_trade db (rq_signal_id rq) = Some t"
  shows "keys_ok (transition_applied rq db s t v)"
proof -
  have s: "s \<in> set (db_signals db)" "sr_id s = rq_signal_id rq" and t: "t \<in> set (db_trades db)"
    using assms by (auto simp: find_signal_iff find_trade_iff)
  have sig: "map sr_id (map (\<lambda>r. if sr_id r = sr_id s then advance_signal rq (rq_target rq) s else r) (db_signals db))
      = map sr_id (db_signals db)"
    by simp
  have tra: "map vt_signal_id (map (\<lambda>r. if vt_signal_id r = vt_signal_id t then
      advance_trade rq (rq_target rq) v t else r) (db_trades db)) = map vt_signal_id (db_trades db)"
    by simp
  have "rq_key rq \<notin> ev_key ` set (db_events db)" using assms(2) by (simp add: find_event_None)
  then show ?thesis using assms(1) s t unfolding keys_ok_def transition_applied_tables sig tra by auto
qed

lemma distinct_filter_update:
  assumes "\<And>x. x \<in> set xs \<Longrightarrow> g (f x) = g x" "\<And>x. x \<in> set xs \<Longrightarrow> P (f x) \<Longrightarrow> P x"
    and "distinct (map g (filter P xs))"
  shows "distinct (map g (filter P (map f xs)))"
  using assms
proof (induction xs)
  case (Cons x xs)
  have "g ` set (filter P (map f xs)) \<subseteq> g ` set (filter P xs)"
  proof
    fix y assume "y \<in> g ` set (filter P (map f xs))"
    then obtain z where "z \<in> set xs" "P (f z)" "y = g (f z)" by auto
    with Cons.prems(1,2) show "y \<in> g ` set (filter P xs)" by auto
  qed
  with Cons show ?case by (auto split: if_splits)
qed simp

lemma one_active_applied:
  assumes "keys_ok db" "one_active_row_per_symbol db" "find_signal db (rq_signal_id rq) = Some s"
    and tgt: "rq_target rq \<in> signal_transitions (sr_status s)"
  shows "one_active_row_per_symbol (transition_applied rq db s t v)"
proof -
  have s: "s \<in> set (db_signals db)" using assms by (simp add: find_signal_iff)
  have was: "sr_status s \<in> active_signal_statuses" using tgt by (auto simp: active_iff_not_terminal)
  have same: "r = s" if "r \<in> set (db_signals db)" "sr_id r = sr_id s" for r
    using assms(1) s that by (auto simp: keys_ok_def distinct_map inj_on_def)
  show ?thesis
    unfolding one_active_row_per_symbol_def transition_applied_tables
  proof (rule distinct_filter_update)
    fix r assume "r \<in> set (db_signals db)"
      and "sr_status (if sr_id r = sr_id s then advance_signal rq (rq_target rq) s else r) \<in> active_signal_statuses"
    then show "sr_status r \<in> active_signal_statuses" using was same [of r] by (cases "sr_id r = sr_id s") auto
  next
    fix r assume "r \<in> set (db_signals db)"
    then show "sr_symbol (if sr_id r = sr_id s then advance_signal rq (rq_target rq) s else r) = sr_symbol r"
      using same [of r] by auto
  qed (use assms(2) in \<open>simp add: one_active_row_per_symbol_def\<close>)
qed

lemma rows_applied:
  assumes keys: "keys_ok db" and s: "find_signal db (rq_signal_id rq) = Some s"
    and t: "find_trade db (rq_signal_id rq) = Some t"
    and tgt: "rq_target rq \<in> signal_transitions (sr_status s)"
    and v: "case virtual_trade_target (rq_target rq) of None \<Rightarrow> v = vt_status t
       | Some w \<Rightarrow> v = w \<and> w \<in> trade_transitions (vt_status t)"
    and ok: "\<forall>r \<in> set (db_signals db). signal_history_ok db r \<and> signal_trade_ok db r"
    and r: "r \<in> set (db_signals (transition_applied rq db s t v))"
  shows "signal_history_ok (transition_applied rq db s t v) r \<and>
    signal_trade_ok (transition_applied rq db s t v) r"
proof -
  let ?db' = "transition_applied rq db s t v"
  have s': "s \<in> set (db_signals db)" "sr_id s = rq_signal_id rq" using s keys by (simp_all add: find_signal_iff)
  have t': "vt_signal_id t = rq_signal_id rq" using t keys by (simp add: find_trade_iff)
  have live: "sr_status s \<noteq> Sg_Suppressed" "sr_status s \<notin> terminal_signal_statuses"
    using tgt signal_terminal_iff [of "sr_status s"] by auto
  from r consider (other) "r \<in> set (db_signals db)" "sr_id r \<noteq> rq_signal_id rq"
    | (moved) "r = advance_signal rq (rq_target rq) s"
    by (auto simp: s'(2) split: if_splits)
  then show ?thesis
  proof cases
    case other
    then have "history ?db' (sr_id r) = history db (sr_id r)" "find_trade ?db' (sr_id r) = find_trade db (sr_id r)"
      by (simp_all add: history_applied [OF tgt] find_trade_applied t')
    with ok other(1) show ?thesis unfolding signal_history_ok_def signal_trade_ok_def by metis
  next
    case moved
    from ok s'(1) obtain first ts where h: "history db (sr_id s) = first # ts"
      "walk signal_transitions first ts (sr_status s)" "first = Sg_Preparing \<or> first = Sg_Suppressed"
      "sr_version s = 1 + int (length ts)" "sr_closed_at s \<noteq> None \<longleftrightarrow> sr_status s \<in> terminal_signal_statuses"
      unfolding signal_history_ok_def by blast
    have "history ?db' (sr_id r) = first # (ts @ [rq_target rq])"
      using h(1) by (simp add: moved history_applied [OF tgt] s'(2))
    moreover have "walk signal_transitions first (ts @ [rq_target rq]) (rq_target rq)"
      using h(2) tgt by (auto simp: walk_append_iff)
    moreover have "sr_version r = 1 + int (length (ts @ [rq_target rq]))" using h(4) by (simp add: moved)
    moreover have "sr_closed_at r \<noteq> None \<longleftrightarrow> sr_status r \<in> terminal_signal_statuses"
      using h(5) live by (simp add: moved advance_signal_def)
    ultimately have hist: "signal_history_ok ?db' r"
      unfolding signal_history_ok_def using h(3) by (metis advance_simps(3) moved)
    have "signal_trade_ok db s" using ok s'(1) by blast
    then have tr: "vt_status t = trade_status_of (sr_status s)"
      "vt_resolved_at t \<noteq> None \<longleftrightarrow> sr_status s \<in> terminal_signal_statuses"
      using live(1) t by (auto simp: signal_trade_ok_def s'(2))
    have "find_trade ?db' (sr_id r) = Some (advance_trade rq (rq_target rq) v t)"
      using t by (simp add: moved find_trade_applied t' s'(2))
    moreover have "v = trade_status_of (rq_target rq)"
      using v trade_follows_signal [OF tgt] tr(1) by (auto split: option.splits)
    moreover have "vt_resolved_at (advance_trade rq (rq_target rq) v t) \<noteq> None \<longleftrightarrow>
        rq_target rq \<in> terminal_signal_statuses"
      using tr(2) live by (simp add: advance_trade_def)
    ultimately have "signal_trade_ok ?db' r" by (simp add: signal_trade_ok_def moved)
    with hist show ?thesis by blast
  qed
qed

lemma apply_transition_keeps_ok:
  assumes "db_ok db" "apply_transition rq db = Inr (r, db')"
  shows "db_ok db'"
  using assms(2)
proof (cases rule: apply_transition_cases)
  case duplicate
  with assms(1) show ?thesis by simp
next
  case (applied s t v)
  from assms(1) have "keys_ok db" "one_active_row_per_symbol db"
    "\<forall>r \<in> set (db_signals db). signal_history_ok db r \<and> signal_trade_ok db r" by (simp_all add: db_ok_def)
  then show ?thesis
    unfolding db_ok_def applied(8)
    using keys_applied one_active_applied rows_applied applied(1,4-7) by blast
qed

text \<open>On sound tables a transition that the signal's machine allows succeeds: the virtual trade is
  always in the status that lets it follow.\<close>

lemma apply_transition_succeeds:
  assumes "db_ok db" "find_signal db (rq_signal_id rq) = Some s" "find_event db (rq_key rq) = None"
    and "rq_target rq \<in> signal_transitions (sr_status s)"
  shows "\<exists>r db'. apply_transition rq db = Inr (r, db') \<and> tr_applied r \<and> tr_status r = rq_target rq"
proof -
  have s: "s \<in> set (db_signals db)" "sr_id s = rq_signal_id rq"
    using assms(1,2) by (simp_all add: db_ok_def find_signal_iff)
  have "sr_status s \<noteq> Sg_Suppressed" using assms(4) by auto
  with assms(1) s obtain t where t: "find_trade db (rq_signal_id rq) = Some t"
    "vt_status t = trade_status_of (sr_status s)"
    unfolding db_ok_def signal_trade_ok_def by fastforce
  from trade_follows_signal [OF assms(4)] show ?thesis
    using assms(2-4) t by (auto simp: apply_transition_def Let_def split: option.splits)
qed

text \<open>Applying the same request again changes nothing.\<close>

lemma apply_transition_idempotent:
  assumes "db_ok db" "apply_transition rq db = Inr (r, db')"
  shows "\<exists>r'. apply_transition rq db' = Inr (r', db') \<and> \<not> tr_applied r'"
  using assms(2)
proof (cases rule: apply_transition_cases)
  case duplicate
  then show ?thesis using assms(2) by auto
next
  case (applied s t v)
  note tables = applied(8)
  have keys: "keys_ok db" using assms(1) by (simp add: db_ok_def)
  have "find_event db' (rq_key rq) = Some (event_of rq (sr_status s) (rq_target rq))"
    using applied(1) unfolding tables find_event_def transition_applied_tables by (simp add: find_append)
  moreover have "find_signal db' (rq_signal_id rq) \<noteq> None"
    using applied(4) unfolding tables by (simp add: find_signal_applied)
  ultimately show ?thesis by (auto simp: apply_transition_def)
qed

subsection \<open>Publication\<close>

text \<open>What one iteration of the loop adds, once nothing raised.\<close>

lemma publish_oneE:
  assumes "publish_one k now ps (record, c) = Inr ps'"
  obtains signal trade event where
    "ps_db ps' = (ps_db ps)\<lparr>db_signals := db_signals (ps_db ps) @ [signal],
       db_trades := db_trades (ps_db ps) @ trade, db_events := db_events (ps_db ps) @ [event],
       db_next_signal_id := db_next_signal_id (ps_db ps) + 1\<rparr>"
    "sr_id signal = db_next_signal_id (ps_db ps)" "sr_symbol signal = cr_symbol record"
    "sr_status signal = (if pd_allowed (evaluate_publication c (ps_observations ps) now k)
       then Sg_Preparing else Sg_Suppressed)"
    "sr_created_at signal = now" "sr_version signal = 1" "sr_closed_at signal = None"
    "\<not> violates_unique signal (ev_key event) (ps_db ps)"
    "if pd_allowed (evaluate_publication c (ps_observations ps) now k)
     then \<exists>t. trade = [t] \<and> vt_signal_id t = sr_id signal \<and> vt_status t = Vt_Waiting_Entry \<and>
       vt_resolved_at t = None \<and> vt_current_stop t = sr_stop_loss signal else trade = []"
    "ev_signal_id event = sr_id signal" "ev_status_from event = None" "ev_status_to event = sr_status signal"
    "ps_observations ps' = ps_observations ps @ [observation_of signal]"
    "ev_key event = ''candidate:'' @ show_int (cr_id record) @ '':publication''"
    "sr_risk_amount signal = the (cr_risk_amount record)" "sr_taker_fee_rate signal = derived_fee_rate record"
proof -
  let ?d = "evaluate_publication c (ps_observations ps) now k"
  let ?key = "''candidate:'' @ show_int (cr_id record) @ '':publication''"
  let ?status = "if pd_allowed ?d then Sg_Preparing else Sg_Suppressed"
  from assms obtain signal trade where
      signal: "signal_record (db_next_signal_id (ps_db ps)) record ?status (pd_reason ?d) now
        (snapshot_funding_rate (ps_db ps) record) (instrument_funding_minutes (ps_db ps) record) = Inr signal"
    and unique: "\<not> violates_unique signal ?key (ps_db ps)"
    and trade: "(if pd_allowed ?d then rmap (\<lambda>t. [t]) (virtual_trade signal record) else Inr []) = Inr trade"
    and ps': "ps' = \<lparr>ps_db = (ps_db ps)\<lparr>db_signals := db_signals (ps_db ps) @ [signal],
        db_trades := db_trades (ps_db ps) @ trade,
        db_events := db_events (ps_db ps) @ [\<lparr>ev_signal_id = sr_id signal,
           ev_event_type = (if pd_allowed ?d then ''signal_prepared'' else ''signal_suppressed''),
           ev_status_from = None, ev_status_to = ?status, ev_event_time = now, ev_source_event_id = None,
           ev_key = ?key, ev_payload = (case pd_reason ?d of None \<Rightarrow> No_Payload | Some r \<Rightarrow> Refusal r)\<rparr>],
        db_next_signal_id := db_next_signal_id (ps_db ps) + 1\<rparr>,
      ps_observations = ps_observations ps @ [\<lparr>obs_symbol = sr_symbol signal,
        obs_status = sr_status signal, obs_created_at = now\<rparr>],
      ps_prepared = ps_prepared ps + (if pd_allowed ?d then 1 else 0),
      ps_suppressed = ps_suppressed ps + (if pd_allowed ?d then 0 else 1)\<rparr>"
    unfolding publish_one_def Let_def prod.case rbind_eq_Inr raise_if_eq_Inr sum.inject
    by metis
  have sig: "sr_id signal = db_next_signal_id (ps_db ps)" "sr_symbol signal = cr_symbol record"
    "sr_status signal = ?status" "sr_created_at signal = now" "sr_version signal = 1" "sr_closed_at signal = None"
    using signal by (auto simp: signal_record_def)
  have fee: "sr_risk_amount signal = the (cr_risk_amount record)" "sr_taker_fee_rate signal = derived_fee_rate record"
    using signal by (auto simp: signal_record_def)
  have tr: "if pd_allowed ?d then \<exists>t. trade = [t] \<and> vt_signal_id t = sr_id signal \<and>
      vt_status t = Vt_Waiting_Entry \<and> vt_resolved_at t = None \<and> vt_current_stop t = sr_stop_loss signal else trade = []"
    using trade signal by (auto simp: virtual_trade_def signal_record_def split: if_splits)
  let ?event = "\<lparr>ev_signal_id = sr_id signal,
    ev_event_type = (if pd_allowed ?d then ''signal_prepared'' else ''signal_suppressed''),
    ev_status_from = None, ev_status_to = ?status, ev_event_time = now, ev_source_event_id = None,
    ev_key = ?key, ev_payload = (case pd_reason ?d of None \<Rightarrow> No_Payload | Some r \<Rightarrow> Refusal r)\<rparr>"
  show thesis
    by (rule that [where signal = signal and trade = trade and event = ?event])
      (use sig unique tr fee in \<open>simp_all add: ps' observation_of_def\<close>)
qed

definition candidates_match :: "(candidate_row \<times> signal_candidate) list \<Rightarrow> bool" where
  "candidates_match cs \<longleftrightarrow> (\<forall>(record, c) \<in> set cs. ca_symbol c = cr_symbol record)"

definition row_observations :: "signal_db \<Rightarrow> observation list" where
  "row_observations db = map observation_of (db_signals db)"

text \<open>The rows that the query fetches decide the policy as all rows would.\<close>

lemma observed_rows_suffice:
  "active_obs (map observation_of (observed_rows db k now)) = active_obs (row_observations db)"
  "since (now - hours 1) (published_obs (map observation_of (observed_rows db k now))) =
     since (now - hours 1) (published_obs (row_observations db))"
  "since (now - minutes (burst_window_minutes k)) (published_obs (map observation_of (observed_rows db k now))) =
     since (now - minutes (burst_window_minutes k)) (published_obs (row_observations db))"
  by (simp_all add: active_obs_def published_obs_def since_def row_observations_def observed_rows_def
      filter_map comp_def observation_of_def Let_def status_sets conj_commute cong: conj_cong)
    (auto intro!: arg_cong [where f = "map _"] filter_cong)

lemma within_limits_observed:
  "within_limits (map observation_of (observed_rows db k now)) now k \<longleftrightarrow> within_limits (row_observations db) now k"
  by (simp add: within_limits_def observed_rows_suffice)

definition publishing :: "policy_config \<Rightarrow> instant \<Rightarrow> publication_state \<Rightarrow> bool" where
  "publishing k now ps \<longleftrightarrow> db_ok (ps_db ps) \<and> within_limits (row_observations (ps_db ps)) now k \<and>
     ps_observations ps = map observation_of (observed_rows (ps_db ps) k now)"

lemma fresh_history: "keys_ok db \<Longrightarrow> history db (db_next_signal_id db) = []"
  by (fastforce simp: history_def keys_ok_def filter_empty_conv)

lemma publish_one_tables:
  assumes ok: "db_ok db"
    and db': "db' = db\<lparr>db_signals := db_signals db @ [signal], db_trades := db_trades db @ trade,
       db_events := db_events db @ [event], db_next_signal_id := db_next_signal_id db + 1\<rparr>"
    and sig: "sr_id signal = db_next_signal_id db" "sr_status signal = (if allowed then Sg_Preparing else Sg_Suppressed)"
      "sr_version signal = 1" "sr_closed_at signal = None"
    and unique: "\<not> violates_unique signal (ev_key event) db"
    and trade: "if allowed then \<exists>t. trade = [t] \<and> vt_signal_id t = sr_id signal \<and> vt_status t = Vt_Waiting_Entry \<and>
       vt_resolved_at t = None \<and> vt_current_stop t = sr_stop_loss signal else trade = []"
    and event: "ev_signal_id event = sr_id signal" "ev_status_from event = None" "ev_status_to event = sr_status signal"
  shows "db_ok db'"
proof -
  have keys: "keys_ok db" and one: "one_active_row_per_symbol db"
    and rows: "\<forall>r \<in> set (db_signals db). signal_history_ok db r \<and> signal_trade_ok db r"
    using ok by (simp_all add: db_ok_def)
  have "ev_key event \<notin> ev_key ` set (db_events db)"
    using unique by (auto simp: violates_unique_def find_event_None [symmetric])
  then have keys': "keys_ok db'"
    using keys trade by (fastforce simp: keys_ok_def db' sig(1) event(1) split: if_splits)
  have one': "one_active_row_per_symbol db'"
    using one unique by (auto simp: one_active_row_per_symbol_def violates_unique_def db')
  have hist: "history db' i = history db i @ (if i = sr_id signal then [sr_status signal] else [])" for i
    by (simp add: history_def db' event)
  have find: "find_trade db' i = (case find_trade db i of None \<Rightarrow> List.find (\<lambda>t. vt_signal_id t = i) trade | Some t \<Rightarrow> Some t)" for i
    by (simp add: find_trade_def db' find_append)
  have fresh: "find_trade db (sr_id signal) = None"
    using keys by (fastforce simp: find_trade_def find_None_iff keys_ok_def sig(1))
  have "signal_history_ok db' r \<and> signal_trade_ok db' r" if r: "r \<in> set (db_signals db')" for r
  proof (cases "r \<in> set (db_signals db)")
    case True
    then have "sr_id r \<noteq> sr_id signal" using keys by (auto simp: keys_ok_def sig(1))
    with rows True show ?thesis
      unfolding signal_history_ok_def signal_trade_ok_def hist find by fastforce
  next
    case False
    with r have r: "r = signal" by (simp add: db')
    have "history db' (sr_id r) = sr_status signal # []"
      using fresh_history [OF keys] by (simp add: hist r sig(1))
    then have "signal_history_ok db' r"
      unfolding signal_history_ok_def using sig
      by (intro conjI exI [of _ "sr_status signal"] exI [of _ "[]"]) (auto simp: r status_sets)
    moreover have "signal_trade_ok db' r"
      using trade fresh sig(2) by (auto simp: signal_trade_ok_def find r status_sets split: if_splits)
    ultimately show ?thesis by blast
  qed
  with keys' one' show ?thesis by (simp add: db_ok_def)
qed

lemma publish_one_keeps:
  assumes "publishing k now ps" "publish_one k now ps (record, c) = Inr ps'" "ca_symbol c = cr_symbol record"
  shows "publishing k now ps'"
  using assms(2)
proof (rule publish_oneE)
  fix signal trade event
  let ?d = "evaluate_publication c (ps_observations ps) now k"
  assume db': "ps_db ps' = (ps_db ps)\<lparr>db_signals := db_signals (ps_db ps) @ [signal],
       db_trades := db_trades (ps_db ps) @ trade, db_events := db_events (ps_db ps) @ [event],
       db_next_signal_id := db_next_signal_id (ps_db ps) + 1\<rparr>"
    and sig: "sr_id signal = db_next_signal_id (ps_db ps)" "sr_symbol signal = cr_symbol record"
      "sr_status signal = (if pd_allowed ?d then Sg_Preparing else Sg_Suppressed)"
      "sr_created_at signal = now" "sr_version signal = 1" "sr_closed_at signal = None"
    and unique: "\<not> violates_unique signal (ev_key event) (ps_db ps)"
    and trade: "if pd_allowed ?d
     then \<exists>t. trade = [t] \<and> vt_signal_id t = sr_id signal \<and> vt_status t = Vt_Waiting_Entry \<and>
       vt_resolved_at t = None \<and> vt_current_stop t = sr_stop_loss signal else trade = []"
    and event: "ev_signal_id event = sr_id signal" "ev_status_from event = None" "ev_status_to event = sr_status signal"
    and obs: "ps_observations ps' = ps_observations ps @ [observation_of signal]"
  have inv: "db_ok (ps_db ps)" "within_limits (row_observations (ps_db ps)) now k"
    "ps_observations ps = map observation_of (observed_rows (ps_db ps) k now)"
    using assms(1) by (simp_all add: publishing_def)
  have ok: "db_ok (ps_db ps')"
    by (rule publish_one_tables [OF inv(1) db' sig(1,3,5,6) unique trade event])
  have seen: "observation_of signal = observe c now ?d"
    by (simp add: observation_of_def observe_def sig assms(3))
  have "0 < max (max (hours 1) (minutes (cooldown_minutes k))) (minutes (burst_window_minutes k))"
    by (simp add: hours_def less_max_iff_disj)
  then have obs': "ps_observations ps' = map observation_of (observed_rows (ps_db ps') k now)"
    by (simp add: obs inv(3) observed_rows_def db' sig(4) Let_def)
  have "one_active_per_symbol (ps_observations ps)"
    unfolding one_active_per_symbol_def inv(3) observed_rows_suffice
    using inv(1) by (simp add: db_ok_def one_active_row_per_symbol_def row_observations_def active_obs_def
        published_obs_def filter_map comp_def observation_of_def status_sets conj_commute cong: conj_cong)
  moreover have "within_limits (ps_observations ps) now k"
    using inv(2) unfolding inv(3) within_limits_observed .
  ultimately have "within_limits (ps_observations ps') now k"
    unfolding obs seen by (rule publication_keeps_limits)
  then have "within_limits (row_observations (ps_db ps')) now k"
    unfolding obs' within_limits_observed .
  with ok obs' show "publishing k now ps'" by (simp add: publishing_def)
qed

lemma publish_keeps:
  assumes "db_ok db" "within_limits (row_observations db) now k" "candidates_match cs"
    and "publish_candidates cs k now db = Inr (counts, db')"
  shows "db_ok db' \<and> within_limits (row_observations db') now k"
proof (cases "filter (\<lambda>(_, c). ca_status c = Accepted \<and> ca_trade_plan c \<noteq> None) cs = []")
  case True
  with assms show ?thesis unfolding publish_candidates_def Let_def by (simp only: if_True) simp
next
  case False
  let ?acc = "filter (\<lambda>(_, c). ca_status c = Accepted \<and> ca_trade_plan c \<noteq> None) cs"
  from False assms(4) obtain ps where run: "foldM (publish_one k now)
      \<lparr>ps_db = db, ps_observations = map observation_of (observed_rows db k now),
         ps_prepared = 0, ps_suppressed = 0\<rparr> ?acc = Inr ps" and db': "db' = ps_db ps"
    unfolding publish_candidates_def Let_def by (auto simp only: if_False rbind_eq_Inr sum.inject prod.inject)
  have "publishing k now ps"
  proof (rule foldM_invariant [OF run, where P = "publishing k now"])
    show "publishing k now \<lparr>ps_db = db, ps_observations = map observation_of (observed_rows db k now),
        ps_prepared = 0, ps_suppressed = 0\<rparr>"
      using assms(1,2) by (simp add: publishing_def)
  next
    fix s x s' assume "x \<in> set ?acc" and step: "publishing k now s" "publish_one k now s x = Inr s'"
    then have "x \<in> set cs" by simp
    with assms(3) have "ca_symbol (snd x) = cr_symbol (fst x)" by (auto simp: candidates_match_def)
    with step show "publishing k now s'" using publish_one_keeps [of k now s "fst x" "snd x" s'] by simp
  qed
  then show ?thesis by (simp add: publishing_def db')
qed

section \<open>Properties\<close>

text \<open>Tables with one prepared signal, and an accepted candidate.\<close>

definition sample_signal :: signal_row where
  "sample_signal = \<lparr>sr_id = 1, sr_candidate_id = 7, sr_symbol = ''BTCUSDT'', sr_direction = Long,
     sr_status = Sg_Preparing, sr_suppression_reason = None, sr_entry_lower = 99, sr_entry_upper = 101,
     sr_planned_entry = 100, sr_stop_loss = 95, sr_take_profit_1 = 108, sr_take_profit_2 = 120,
     sr_quantity = 2, sr_risk_amount = 10, sr_taker_fee_rate = 0, sr_funding_rate = 0,
     sr_funding_interval_minutes = 480, sr_expires_at = 5400000000, sr_activated_at = None,
     sr_entered_at = None, sr_tp1_reached_at = None, sr_closed_at = None, sr_version = 1, sr_created_at = 0\<rparr>"

definition sample_trade_row :: trade_row where
  "sample_trade_row = \<lparr>vt_signal_id = 1, vt_status = Vt_Waiting_Entry, vt_planned_entry = 100,
     vt_current_stop = 95, vt_take_profit_1 = 108, vt_take_profit_2 = 120, vt_quantity = 2,
     vt_remaining_quantity = 2, vt_entered_at = None, vt_resolved_at = None, vt_realized_pnl = 0,
     vt_fees = 0, vt_estimated_funding = 0, vt_r_multiple = 0, vt_ambiguous = False,
     vt_resolution_note = None, vt_last_trade_id = None, vt_last_trade_time = None,
     vt_last_trade_sequence = None, vt_version = 1\<rparr>"

definition sample_db :: signal_db where
  "sample_db = \<lparr>db_signals = [sample_signal], db_trades = [sample_trade_row],
     db_events = [\<lparr>ev_signal_id = 1, ev_event_type = ''signal_prepared'', ev_status_from = None,
       ev_status_to = Sg_Preparing, ev_event_time = 0, ev_source_event_id = None,
       ev_key = ''candidate:7:publication'', ev_payload = No_Payload\<rparr>],
     db_outbox = [], db_candidates = [], db_snapshot_funding = [], db_instrument_funding_minutes = [],
     db_next_signal_id = 2\<rparr>"

lemmas sample_row_defs = sample_signal_def sample_trade_row_def sample_db_def

lemma sample_db_ok: "db_ok sample_db"
  by (simp add: db_ok_def keys_ok_def one_active_row_per_symbol_def signal_history_ok_def
      signal_trade_ok_def history_def find_trade_def status_sets sample_row_defs)

definition sample_accepted :: signal_candidate where
  "sample_accepted = \<lparr>ca_symbol = ''ETHUSDT'', ca_direction = Long, ca_strategy_version = ''smc-v1.0.0'',
     ca_status = Accepted, ca_score = 80, ca_strength = Standard, ca_components = [], ca_evidence = [],
     ca_warnings = [], ca_suppression_reasons = [], ca_trade_plan = Some \<lparr>tp_entry_lower = 80, tp_entry_upper = 120,
       tp_planned_entry = 100, tp_stop_loss = 60, tp_take_profit_1 = 160, tp_take_profit_2 = 400,
       tp_gross_reward_to_risk = 15/2, tp_net_reward_to_risk = 7425/1024, tp_risk_amount = 100,
       tp_quantity = 2, tp_notional = 200, tp_recommended_leverage = 1, tp_estimated_margin = 200,
       tp_estimated_entry_fee = 1, tp_estimated_exit_fee = 4, tp_estimated_loss_at_stop = 100,
       tp_invalidation = Close_Below 60\<rparr>,
     ca_analyzed_at = 0, ca_expires_at = 5400000000\<rparr>"

definition sample_accepted_row :: candidate_row where
  "sample_accepted_row = \<lparr>cr_id = 8, cr_snapshot_id = 1, cr_symbol = ''ETHUSDT'', cr_direction = Long, cr_score = 80,
     cr_strength = Standard, cr_entry_lower = Some 80, cr_entry_upper = Some 120, cr_planned_entry = Some 100,
     cr_stop_loss = Some 60, cr_take_profit_1 = Some 160, cr_take_profit_2 = Some 400, cr_risk_amount = Some 100,
     cr_quantity = Some 2, cr_notional = Some 200, cr_estimated_entry_fee = Some 1, cr_expires_at = 5400000000\<rparr>"

text \<open>C6: A transition keeps the tables sound, event history, virtual trade, keys and active signals alike,
  and it is idempotent: applying the same request again succeeds without changing anything.\<close>

theorem transitions_keep_tables_sound:
  assumes "apply_transition rq db = Inr (r, db')" "db_ok db"
  shows "db_ok db' \<and> (\<exists>r'. apply_transition rq db' = Inr (r', db') \<and> \<not> tr_applied r')"
  using apply_transition_keeps_ok [OF assms(2,1)] apply_transition_idempotent [OF assms(2,1)] by blast

definition sample_request :: transition_request where
  "sample_request = \<lparr>rq_signal_id = 1, rq_target = Sg_Active, rq_event_time = 3, rq_key = ''signal:1:active'',
     rq_event_type = ''signal_activated'', rq_source_event_id = None, rq_payload = No_Payload,
     rq_realized_pnl = None, rq_fees = None, rq_estimated_funding = None, rq_r_multiple = None,
     rq_ambiguous = None, rq_resolution_note = None, rq_current_stop = None, rq_remaining_quantity = None\<rparr>"

lemma transitions_keep_tables_sound_witness:
  "\<exists>r db'. apply_transition sample_request sample_db = Inr (r, db') \<and> tr_applied r \<and> db_ok db'"
proof -
  have "rmap (tr_applied \<circ> fst) (apply_transition sample_request sample_db) = Inr True" by code_simp
  then obtain r db' where run: "apply_transition sample_request sample_db = Inr (r, db')" "tr_applied r"
    by (cases "apply_transition sample_request sample_db") auto
  then show ?thesis using transitions_keep_tables_sound [OF run(1) sample_db_ok] by blast
qed

text \<open>C7: Publishing a batch of candidates keeps the tables sound and the limits of the policy: counted over
  all rows and not only those the query fetches, there is at most one active signal per symbol, and
  the active, hourly and burst limits hold after the batch.\<close>

theorem publication_respects_the_limits:
  assumes "publish_candidates cs k now db = Inr (counts, db')"
    and "db_ok db" "within_limits (row_observations db) now k"
    and "list_all (\<lambda>(record, c). ca_symbol c = cr_symbol record) cs"
  shows "db_ok db' \<and> one_active_row_per_symbol db' \<and> within_limits (row_observations db') now k"
proof -
  have "candidates_match cs" using assms(4) by (simp add: candidates_match_def list_all_iff)
  from publish_keeps [OF assms(2,3) this assms(1)] show ?thesis by (simp add: db_ok_def)
qed

lemma publication_respects_the_limits_witness:
  "\<exists>db'. publish_candidates [(sample_accepted_row, sample_accepted)] default_policy_config 1 sample_db
     = Inr ((1, 0), db') \<and> db_ok db' \<and> within_limits (row_observations db') 1 default_policy_config"
proof -
  have "rmap fst (publish_candidates [(sample_accepted_row, sample_accepted)] default_policy_config 1 sample_db)
      = Inr (1, 0)"
    by code_simp
  then obtain db' where run: "publish_candidates [(sample_accepted_row, sample_accepted)] default_policy_config 1 sample_db
      = Inr ((1, 0), db')"
    by (cases "publish_candidates [(sample_accepted_row, sample_accepted)] default_policy_config 1 sample_db") auto
  have "within_limits (row_observations sample_db) 1 default_policy_config" by code_simp
  then show ?thesis
    using publication_respects_the_limits [OF run sample_db_ok] run
    by (simp add: sample_accepted_def sample_accepted_row_def)
qed

end
