(* ===== verification/Fallback.thy ===== *)
theory Fallback
  imports Lifecycle
begin

text \<open>
  \<open>src/src/crypto_smc/signals/fallback.py\<close>: the evaluation of a tracked signal against a closed
  one-minute candle when the stream of trades could not be shown to be complete. The candle is
  turned into a synthetic trade at the price of the level that was touched; a candle that touches
  both the stop and a target is resolved as ambiguous, with the result of the stop.
\<close>

definition synthetic_trade :: "candle_1m \<Rightarrow> dec \<Rightarrow> public_trade" where
  "synthetic_trade candle price = \<lparr>pt_trade_id = ''fallback:'' @ show_int (epoch_seconds (m1_open_time candle)),
     pt_symbol = m1_symbol candle, pt_price = price, pt_size = 0, pt_side = Buy,
     pt_executed_at = m1_open_time candle + one_minute - microseconds 1, pt_sequence = 0,
     pt_is_block_trade = False, pt_is_rpi_trade = False\<rparr>"

definition touches_stop :: "trade_direction \<Rightarrow> dec \<Rightarrow> dec \<Rightarrow> dec \<Rightarrow> bool" where
  "touches_stop dir stop low high = (if dir = Long then low \<le> stop else high \<ge> stop)"

definition touches_target :: "trade_direction \<Rightarrow> dec \<Rightarrow> dec \<Rightarrow> dec \<Rightarrow> bool" where
  "touches_target dir target low high = (if dir = Long then high \<ge> target else low \<le> target)"

text \<open>The first action of the evaluation at the stop, with its outcome relabelled.\<close>

definition ambiguous_stop :: "lifecycle_state \<Rightarrow> public_trade \<Rightarrow> string \<Rightarrow> lifecycle_action list res" where
  "ambiguous_stop st trade event =
     rbind (evaluate_public_trade st trade) (\<lambda>actions.
     rbind (py_nth actions 0) (\<lambda>stopped.
     Inr [stopped\<lparr>la_target := Sg_Ambiguous, la_event_type := event\<rparr>]))"

definition evaluate_closed_candle :: "lifecycle_state \<Rightarrow> candle_1m \<Rightarrow> lifecycle_action list res" where
  "evaluate_closed_candle st candle =
     (let dir = lc_direction st; low = m1_low candle; high = m1_high candle;
          resolved_at = m1_open_time candle + one_minute in
      if m1_symbol candle \<noteq> lc_symbol st then Inr []
      else case lc_status st of
        Sg_Active \<Rightarrow>
          if m1_open_time candle \<ge> lc_expires_at st \<or> resolved_at > lc_expires_at st
          then Inr [plain_action Sg_Expired ''fallback_signal_expired'']
          else
            let entry_touched = (low \<le> lc_entry_upper st \<and> high \<ge> lc_entry_lower st);
                stop_touched = touches_stop dir (lc_stop_loss st) low high in
            if \<not> entry_touched then
              (if stop_touched then Inr [plain_action Sg_Invalidated ''fallback_entry_invalidated'']
               else Inr [])
            else if stop_touched then
              ambiguous_stop (st\<lparr>lc_status := Sg_Entered\<rparr>)
                (synthetic_trade candle (lc_stop_loss st)) ''fallback_ambiguous_stop''
            else evaluate_public_trade st (synthetic_trade candle (lc_planned_entry st))
      | Sg_Entered \<Rightarrow>
          let stop_touched = touches_stop dir (lc_current_stop st) low high;
              target_touched = touches_target dir (lc_take_profit_1 st) low high;
              target_2_touched = touches_target dir (lc_take_profit_2 st) low high in
          if stop_touched \<and> (target_touched \<or> target_2_touched) then
            ambiguous_stop st (synthetic_trade candle (lc_current_stop st)) ''fallback_ambiguous_stop''
          else if stop_touched then
            evaluate_public_trade st (synthetic_trade candle (lc_current_stop st))
          else if target_2_touched then
            evaluate_public_trade st (synthetic_trade candle (lc_take_profit_2 st))
          else if target_touched then
            evaluate_public_trade st (synthetic_trade candle (lc_take_profit_1 st))
          else Inr []
      | Sg_Tp1_Reached \<Rightarrow>
          let stop_touched = touches_stop dir (lc_current_stop st) low high;
              target_touched = touches_target dir (lc_take_profit_2 st) low high in
          if stop_touched \<and> target_touched then
            ambiguous_stop st (synthetic_trade candle (lc_current_stop st)) ''fallback_ambiguous_breakeven''
          else if stop_touched then
            evaluate_public_trade st (synthetic_trade candle (lc_current_stop st))
          else if target_touched then
            evaluate_public_trade st (synthetic_trade candle (lc_take_profit_2 st))
          else Inr []
      | _ \<Rightarrow> Inr [])"

section \<open>Which actions a candle causes\<close>

lemma synthetic_simps [simp]:
  "pt_symbol (synthetic_trade c p) = m1_symbol c" "pt_price (synthetic_trade c p) = p"
  "pt_executed_at (synthetic_trade c p) = m1_open_time c + one_minute - microseconds 1"
  by (simp_all add: synthetic_trade_def)

text \<open>A trade at the current stop always closes the position.\<close>

lemma at_stop [simp]: "beyond_stop dir stop stop"
  by (simp add: beyond_stop_def)

lemma stop_trade:
  assumes "evaluate_public_trade st trade = Inr as" "pt_symbol trade = lc_symbol st"
    and "pt_price trade = lc_current_stop st"
  shows "lc_status st = Sg_Entered \<Longrightarrow> \<exists>a. as = [a] \<and> la_target a = Sg_Stopped"
    and "lc_status st = Sg_Tp1_Reached \<Longrightarrow> \<exists>a. as = [a] \<and> la_target a = Sg_Stopped_At_Breakeven"
  using assms by (auto simp: evaluate_public_trade_def action_targets)

lemma ambiguous_stop_target:
  "ambiguous_stop st trade event = Inr as \<Longrightarrow> \<exists>a. as = [a] \<and> la_target a = Sg_Ambiguous"
  by (auto simp: ambiguous_stop_def)

text \<open>What the ambiguous resolution books is the result of the stop: the source's \<open>[0]\<close> never
  fails.\<close>

lemma ambiguous_stop_books_stop:
  assumes "lc_risk_amount st \<noteq> 0" "pt_symbol trade = lc_symbol st" "pt_price trade = lc_current_stop st"
    and "lc_status st = Sg_Entered \<or> lc_status st = Sg_Tp1_Reached"
  shows "\<exists>a. ambiguous_stop st trade event = Inr [a] \<and> la_target a = Sg_Ambiguous \<and>
    la_remaining_quantity a = Some 0 \<and>
    la_realized_pnl a = Some (fst (if lc_status st = Sg_Entered then full_exit st (lc_current_stop st)
                                   else tp1_then_exit st (lc_current_stop st)))"
  using assms(4)
proof
  assume s: "lc_status st = Sg_Entered"
  then obtain a where "evaluate_public_trade st trade = Inr [a]" "la_remaining_quantity a = Some 0"
    "la_realized_pnl a = Some (fst (full_exit st (lc_current_stop st)))"
    using assms(1-3) by (cases "full_exit st (lc_current_stop st)")
      (auto simp: evaluate_public_trade_def closing_action_def ddiv_ok)
  with s show ?thesis by (simp add: ambiguous_stop_def)
next
  assume s: "lc_status st = Sg_Tp1_Reached"
  then obtain a where "evaluate_public_trade st trade = Inr [a]" "la_remaining_quantity a = Some 0"
    "la_realized_pnl a = Some (fst (tp1_then_exit st (lc_current_stop st)))"
    using assms(1-3) by (cases "tp1_then_exit st (lc_current_stop st)")
      (auto simp: evaluate_public_trade_def closing_action_def ddiv_ok)
  with s show ?thesis by (simp add: ambiguous_stop_def)
qed

definition candle_targets :: "signal_status \<Rightarrow> signal_status list set" where
  "candle_targets s = possible_targets s \<union>
     (if s \<in> {Sg_Active, Sg_Entered, Sg_Tp1_Reached} then {[Sg_Ambiguous]} else {})"

lemma closed_candle_targets:
  assumes "evaluate_closed_candle st candle = Inr as"
  shows "map la_target as \<in> candle_targets (lc_status st)"
proof (cases "lc_status st")
  case Sg_Active
  with assms show ?thesis
    by (auto simp: evaluate_closed_candle_def Let_def candle_targets_def possible_targets_def
        action_targets split: if_splits dest!: evaluated_targets ambiguous_stop_target)
next
  case Sg_Entered
  with assms show ?thesis
    by (auto simp: evaluate_closed_candle_def Let_def candle_targets_def possible_targets_def
        split: if_splits dest!: evaluated_targets ambiguous_stop_target)
next
  case Sg_Tp1_Reached
  with assms show ?thesis
    by (auto simp: evaluate_closed_candle_def Let_def candle_targets_def possible_targets_def
        split: if_splits dest!: evaluated_targets ambiguous_stop_target)
qed (use assms in \<open>auto simp: evaluate_closed_candle_def Let_def candle_targets_def possible_targets_def
        split: if_splits\<close>)

lemma candle_targets_walk:
  "ts \<in> candle_targets s \<Longrightarrow> walk signal_transitions s ts (last (s # ts))"
  using possible_targets_walk [of ts s] by (cases s) (auto simp: candle_targets_def)

text \<open>The evaluation of a candle never fails, provided the stop of an untouched signal is its
  original one (which \<open>Signal_Service\<close> establishes).\<close>

lemma closed_candle_returns:
  assumes "lc_risk_amount st \<noteq> 0" "\<bar>lc_taker_fee_rate st\<bar> < 1"
    and "lc_status st = Sg_Active \<Longrightarrow> lc_current_stop st = lc_stop_loss st"
  shows "returns (evaluate_closed_candle st candle)"
proof (cases "m1_symbol candle = lc_symbol st")
  case same: True
  have ev: "\<exists>as. evaluate_public_trade st t = Inr as" for t
    using evaluated_returns [OF assms(1,2)] by (simp add: returns_iff)
  have amb: "\<exists>as. ambiguous_stop st' (synthetic_trade candle (lc_current_stop st')) event = Inr as"
    if "lc_status st' = Sg_Entered \<or> lc_status st' = Sg_Tp1_Reached" "lc_risk_amount st' \<noteq> 0"
      "lc_symbol st' = lc_symbol st" for st' event
    using ambiguous_stop_books_stop [of st' "synthetic_trade candle (lc_current_stop st')" event] that same by auto
  show ?thesis
    using ev amb [of st] amb [of "st\<lparr>lc_status := Sg_Entered\<rparr>"] assms same
    by (cases "lc_status st") (simp_all add: evaluate_closed_candle_def Let_def returns_iff)
qed (simp add: evaluate_closed_candle_def)

section \<open>The fallback is conservative\<close>

text \<open>A candle whose range contains the stop is never booked as a gain: the signal is stopped,
  ambiguous with the result of the stop, invalidated or expired.\<close>

lemma stop_inside_never_wins:
  assumes "evaluate_closed_candle st candle = Inr as"
    and "m1_symbol candle = lc_symbol st"
    and "touches_stop (lc_direction st) (lc_current_stop st) (m1_low candle) (m1_high candle)"
    and "lc_status st = Sg_Active \<Longrightarrow> lc_current_stop st = lc_stop_loss st"
    and "lc_status st \<in> {Sg_Active, Sg_Entered, Sg_Tp1_Reached}"
  shows "\<exists>a. as = [a] \<and>
    la_target a \<in> {Sg_Expired, Sg_Invalidated, Sg_Stopped, Sg_Stopped_At_Breakeven, Sg_Ambiguous}"
proof -
  have stop: "evaluate_public_trade st (synthetic_trade candle (lc_current_stop st)) = Inr as \<Longrightarrow>
      lc_status st \<in> {Sg_Entered, Sg_Tp1_Reached} \<Longrightarrow>
      \<exists>a. as = [a] \<and> la_target a \<in> {Sg_Stopped, Sg_Stopped_At_Breakeven}"
    using stop_trade [of st "synthetic_trade candle (lc_current_stop st)" as] assms(2) by auto
  from assms(5) consider "lc_status st = Sg_Active" | "lc_status st = Sg_Entered" | "lc_status st = Sg_Tp1_Reached"
    by auto
  then show ?thesis
  proof cases
    case 1
    with assms(1-4) show ?thesis
      by (auto simp: evaluate_closed_candle_def Let_def action_targets split: if_splits
          dest!: ambiguous_stop_target)
  next
    case 2
    with assms(1-3) stop show ?thesis
      by (auto simp: evaluate_closed_candle_def Let_def split: if_splits dest!: ambiguous_stop_target)
  next
    case 3
    with assms(1-3) stop show ?thesis
      by (auto simp: evaluate_closed_candle_def Let_def split: if_splits dest!: ambiguous_stop_target)
  qed
qed

section \<open>Properties\<close>

definition sample_minute :: "dec \<Rightarrow> dec \<Rightarrow> candle_1m" where
  "sample_minute low high = \<lparr>m1_symbol = ''BTCUSDT'', m1_open_time = 0, m1_open = low, m1_high = high,
     m1_low = low, m1_close = high, m1_volume = 1, m1_turnover = 1\<rparr>"

text \<open>C13: The fallback never books a gain it cannot prove: when the stop lies inside the candle, the single
  outcome of the candle is the stop, an ambiguous result, an invalidation or an expiry, whatever else
  the candle touched.\<close>

theorem stop_inside_candle_never_wins:
  assumes "evaluate_closed_candle st candle = Inr as"
    and "m1_symbol candle = lc_symbol st"
    and "touches_stop (lc_direction st) (lc_current_stop st) (m1_low candle) (m1_high candle)"
    and "lc_status st = Sg_Active \<Longrightarrow> lc_current_stop st = lc_stop_loss st"
    and "lc_status st \<in> {Sg_Active, Sg_Entered, Sg_Tp1_Reached}"
  shows "\<exists>a. as = [a] \<and>
    la_target a \<in> {Sg_Expired, Sg_Invalidated, Sg_Stopped, Sg_Stopped_At_Breakeven, Sg_Ambiguous}"
  by (rule stop_inside_never_wins [OF assms])

lemma stop_inside_candle_never_wins_witness:
  "\<exists>a. evaluate_closed_candle sample_state (sample_minute 94 121) = Inr [a] \<and>
     la_target a \<in> {Sg_Expired, Sg_Invalidated, Sg_Stopped, Sg_Stopped_At_Breakeven, Sg_Ambiguous}"
proof -
  have "returns (evaluate_closed_candle sample_state (sample_minute 94 121))"
    by (rule closed_candle_returns) (simp_all add: sample_state_def)
  then obtain as where as: "evaluate_closed_candle sample_state (sample_minute 94 121) = Inr as"
    by (auto simp: returns_iff)
  show ?thesis
    using stop_inside_candle_never_wins [OF as] as
    by (auto simp: sample_state_def sample_minute_def touches_stop_def)
qed

text \<open>An ambiguous candle is booked at the stop: the position is closed with the result of leaving it at
  the current stop, after the first target with half of it already taken.\<close>

theorem ambiguous_candle_books_the_stop:
  assumes "lc_risk_amount st \<noteq> 0" "pt_symbol trade = lc_symbol st" "pt_price trade = lc_current_stop st"
    and "lc_status st = Sg_Entered \<or> lc_status st = Sg_Tp1_Reached"
  shows "\<exists>a. ambiguous_stop st trade event = Inr [a] \<and> la_target a = Sg_Ambiguous \<and>
    la_remaining_quantity a = Some 0 \<and>
    la_realized_pnl a = Some (fst (if lc_status st = Sg_Entered then full_exit st (lc_current_stop st)
                                   else tp1_then_exit st (lc_current_stop st)))"
  by (rule ambiguous_stop_books_stop [OF assms])

lemma ambiguous_candle_books_the_stop_witness:
  "\<exists>a. ambiguous_stop sample_state (price_trade 95) ''e'' = Inr [a] \<and>
     la_realized_pnl a = Some (fst (full_exit sample_state 95))"
  using ambiguous_candle_books_the_stop [of sample_state "price_trade 95" "''e''"]
  by (auto simp: sample_state_def price_trade_def)

text \<open>Evaluating a trade or a closed candle never raises for a signal with a non-zero risk amount and
  a fee rate below one; the actions of a candle, too, are a run of the signal's state machine.\<close>

theorem evaluation_is_total:
  assumes "lc_risk_amount st \<noteq> 0" "\<bar>lc_taker_fee_rate st\<bar> < 1"
    and "lc_status st = Sg_Active \<Longrightarrow> lc_current_stop st = lc_stop_loss st"
  shows "returns (evaluate_public_trade st trade) \<and>
    (\<exists>as. evaluate_closed_candle st candle = Inr as \<and>
      walk signal_transitions (lc_status st) (map la_target as) (last (lc_status st # map la_target as)))"
  using evaluated_returns [OF assms(1,2)] closed_candle_returns [OF assms] closed_candle_targets candle_targets_walk
  unfolding returns_iff by blast

lemma evaluation_is_total_witness:
  "returns (evaluate_public_trade sample_state (price_trade 120)) \<and>
   returns (evaluate_closed_candle sample_state (sample_minute 90 130))"
  using evaluation_is_total [of sample_state "price_trade 120" "sample_minute 90 130"]
  by (auto simp: sample_state_def returns_iff)

end
