(* ===== verification/Signal_Service.thy ===== *)
theory Signal_Service
  imports Signal_Repository Fallback
begin

text \<open>
  \<open>src/src/crypto_smc/signals/service.py\<close>: \<open>SignalLifecycleService\<close>, which follows the active signals
  through the trades of the stream. Its state is the cache of tracked signals, the symbols whose
  coverage is not yet shown, the time of the last checkpoint per symbol, the symbols whose stream is
  ready, and, of the objects it drives, the tables and the set of subscribed symbols.

  What the surroundings answer is the record \<open>surroundings\<close>: the clock, the REST history, the trades
  the stream has buffered, the reconciled one-minute candles and the monotonic clock. One operation
  reads one moment of the clock. A failed operation raises; the runs of the loop
  \<open>run\<close> are the relation \<open>reachable\<close> of \<open>Service_Safety\<close>.
\<close>

record surroundings =
  now_utc :: instant
  rest_trades :: "string \<Rightarrow> public_trade list"
  buffered_trades :: "string \<Rightarrow> instant \<Rightarrow> public_trade list"
  candle_window :: "string \<Rightarrow> instant \<Rightarrow> instant \<Rightarrow> candle_1m list"
  monotonic_now :: int
  checkpoint_interval :: int

record service =
  sv_db :: signal_db
  sv_signals :: "(string \<times> tracking_view) list"
  sv_pending :: "(string \<times> instant) list"
  sv_checkpoints :: "(string \<times> int) list"
  sv_ready :: "string set"
  sv_subscribed :: "string list"

definition lifecycle_state_of :: "tracking_view \<Rightarrow> lifecycle_state" where
  "lifecycle_state_of v = \<lparr>lc_signal_id = tv_id v, lc_symbol = tv_symbol v, lc_direction = tv_direction v,
     lc_status = tv_status v, lc_entry_lower = tv_entry_lower v, lc_entry_upper = tv_entry_upper v,
     lc_planned_entry = tv_planned_entry v, lc_stop_loss = tv_stop_loss v,
     lc_take_profit_1 = tv_take_profit_1 v, lc_take_profit_2 = tv_take_profit_2 v,
     lc_quantity = tv_quantity v, lc_risk_amount = tv_risk_amount v,
     lc_taker_fee_rate = tv_taker_fee_rate v, lc_expires_at = tv_expires_at v,
     lc_current_stop = tv_current_stop v, lc_funding_rate = tv_funding_rate v,
     lc_funding_interval_minutes = tv_funding_interval_minutes v, lc_entered_at = tv_entered_at v,
     lc_tp1_reached_at = tv_tp1_reached_at v\<rparr>"

definition refresh_signal :: "string \<Rightarrow> service \<Rightarrow> service" where
  "refresh_signal symb st =
     (case List.find (\<lambda>v. tv_symbol v = symb) (list_tracking_signals (sv_db st)) of
        None \<Rightarrow> st\<lparr>sv_signals := od_pop symb (sv_signals st)\<rparr>
      | Some v \<Rightarrow> st\<lparr>sv_signals := od_put symb v (sv_signals st)\<rparr>)"

definition unsubscribe :: "string \<Rightarrow> service \<Rightarrow> service" where
  "unsubscribe symb st = st\<lparr>sv_subscribed := removeAll (py_upper symb) (sv_subscribed st)\<rparr>"

definition subscribe :: "string \<Rightarrow> service \<Rightarrow> service" where
  "subscribe symb st = (if py_upper symb \<in> set (sv_subscribed st) then st
     else st\<lparr>sv_subscribed := sv_subscribed st @ [py_upper symb]\<rparr>)"

definition checkpointed :: "public_trade \<Rightarrow> tracking_view \<Rightarrow> tracking_view" where
  "checkpointed trade v = v\<lparr>tv_last_trade_id := Some (pt_trade_id trade),
     tv_last_trade_time := Some (pt_executed_at trade), tv_last_trade_sequence := Some (pt_sequence trade)\<rparr>"

definition checkpoint :: "surroundings \<Rightarrow> tracking_view \<Rightarrow> public_trade \<Rightarrow> service \<Rightarrow> service res" where
  "checkpoint env v trade st =
     rbind (checkpoint_trade (tv_id v) (pt_trade_id trade) (pt_executed_at trade) (pt_sequence trade) (sv_db st)) (\<lambda>db.
     Inr (st\<lparr>sv_db := db, sv_checkpoints := od_put (tv_symbol v) (monotonic_now env) (sv_checkpoints st),
       sv_signals := od_put (tv_symbol v) (checkpointed trade v) (sv_signals st)\<rparr>))"

text \<open>The cached view after a transition that is not terminal.\<close>

definition moved_view :: "transition_request \<Rightarrow> tracking_view \<Rightarrow> tracking_view" where
  "moved_view rq v = v\<lparr>tv_status := rq_target rq,
     tv_current_stop := given (rq_current_stop rq) (tv_current_stop v),
     tv_remaining_quantity := given (rq_remaining_quantity rq) (tv_remaining_quantity v),
     tv_entered_at := (if rq_target rq = Sg_Entered then Some (rq_event_time rq) else tv_entered_at v),
     tv_tp1_reached_at := (if rq_target rq = Sg_Tp1_Reached then Some (rq_event_time rq)
       else tv_tp1_reached_at v)\<rparr>"

definition service_transition :: "tracking_view \<Rightarrow> transition_request \<Rightarrow> service \<Rightarrow> service res" where
  "service_transition v rq st =
     rbind (apply_transition rq (sv_db st)) (\<lambda>(result, db).
     let st = st\<lparr>sv_db := db\<rparr>; symb = tv_symbol v in
     Inr (if \<not> tr_applied result then refresh_signal symb st
       else if rq_target rq \<in> {Sg_Expired, Sg_Invalidated, Sg_Stopped, Sg_Stopped_At_Breakeven,
           Sg_Tp2_Completed, Sg_Ambiguous, Sg_Coverage_Failed}
       then unsubscribe symb (st\<lparr>sv_signals := od_pop symb (sv_signals st),
         sv_pending := od_pop symb (sv_pending st), sv_ready := sv_ready st - {symb}\<rparr>)
       else st\<lparr>sv_signals := od_put symb (moved_view rq v) (sv_signals st)\<rparr>))"

text \<open>A request with only the required arguments.\<close>

definition plain_request ::
  "tracking_view \<Rightarrow> signal_status \<Rightarrow> instant \<Rightarrow> string \<Rightarrow> string \<Rightarrow> transition_request" where
  "plain_request v target event_time key event_type = \<lparr>rq_signal_id = tv_id v, rq_target = target,
     rq_event_time = event_time, rq_key = key, rq_event_type = event_type, rq_source_event_id = None,
     rq_payload = No_Payload, rq_realized_pnl = None, rq_fees = None, rq_estimated_funding = None,
     rq_r_multiple = None, rq_ambiguous = None, rq_resolution_note = None, rq_current_stop = None,
     rq_remaining_quantity = None\<rparr>"

text \<open>The result of an exit is booked net of the funding paid up to it.\<close>

definition booked_result ::
  "tracking_view \<Rightarrow> lifecycle_action \<Rightarrow> instant \<Rightarrow> (dec \<times> dec option \<times> dec option) res" where
  "booked_result v action event_time =
     (case la_realized_pnl action of
        Some pnl \<Rightarrow>
          if la_target action \<in> {Sg_Tp1_Reached, Sg_Stopped, Sg_Stopped_At_Breakeven, Sg_Tp2_Completed, Sg_Ambiguous}
          then
            let funding = estimate_funding_cost (lifecycle_state_of v) event_time (la_target action);
                net = dsub pnl funding in
            rbind (ddiv net (tv_risk_amount v)) (\<lambda>r. Inr (funding, Some net, Some r))
          else Inr (0, Some pnl, la_r_multiple action)
      | None \<Rightarrow> Inr (0, None, la_r_multiple action))"

definition action_request ::
  "tracking_view \<Rightarrow> lifecycle_action \<Rightarrow> instant \<Rightarrow> string \<Rightarrow> string option \<Rightarrow> event_payload \<Rightarrow>
   bool option \<Rightarrow> string option \<Rightarrow> dec \<times> dec option \<times> dec option \<Rightarrow> transition_request" where
  "action_request v action event_time key source payload ambiguous note booked =
     (plain_request v (la_target action) event_time key (la_event_type action))
       \<lparr>rq_source_event_id := source, rq_payload := payload, rq_realized_pnl := fst (snd booked),
        rq_fees := la_fees action, rq_estimated_funding := Some (fst booked),
        rq_r_multiple := snd (snd booked), rq_ambiguous := ambiguous, rq_resolution_note := note,
        rq_current_stop := la_current_stop action, rq_remaining_quantity := la_remaining_quantity action\<rparr>"

definition apply_action ::
  "tracking_view \<Rightarrow> lifecycle_action \<Rightarrow> instant \<Rightarrow> string \<Rightarrow> string option \<Rightarrow> event_payload \<Rightarrow>
   bool option \<Rightarrow> string option \<Rightarrow> service \<Rightarrow> service res" where
  "apply_action v action event_time key source payload ambiguous note st =
     rbind (booked_result v action event_time) (\<lambda>booked.
     service_transition v (action_request v action event_time key source payload ambiguous note booked) st)"

section \<open>Trades\<close>

definition trade_action_key :: "tracking_view \<Rightarrow> public_trade \<Rightarrow> lifecycle_action \<Rightarrow> nat \<Rightarrow> string" where
  "trade_action_key v trade action i = ''trade:'' @ show_int (tv_id v) @ '':'' @ pt_trade_id trade @ '':'' @
     signal_status_name (la_target action) @ '':'' @ show_nat i"

text \<open>The loop over the actions of one event: it stops when the signal is no longer tracked.\<close>

fun run_actions ::
  "(nat \<Rightarrow> lifecycle_action \<Rightarrow> tracking_view \<Rightarrow> service \<Rightarrow> service res) \<Rightarrow> string \<Rightarrow> nat \<Rightarrow>
   lifecycle_action list \<Rightarrow> tracking_view \<Rightarrow> service \<Rightarrow> (tracking_view option \<times> service) res" where
  "run_actions f symb i [] v st = Inr (Some v, st)"
| "run_actions f symb i (a # as) v st =
     rbind (f i a v st) (\<lambda>st'.
     case map_of (sv_signals st') symb of
       None \<Rightarrow> Inr (None, st')
     | Some v' \<Rightarrow> run_actions f symb (Suc i) as v' st')"

definition trade_action ::
  "public_trade \<Rightarrow> nat \<Rightarrow> lifecycle_action \<Rightarrow> tracking_view \<Rightarrow> service \<Rightarrow> service res" where
  "trade_action trade i action v st =
     apply_action v action (pt_executed_at trade) (trade_action_key v trade action i)
       (Some (pt_trade_id trade)) (Trade_Values (pt_price trade) (pt_size trade) (pt_sequence trade))
       None None st"

definition process_trade :: "surroundings \<Rightarrow> bool \<Rightarrow> public_trade \<Rightarrow> service \<Rightarrow> service res" where
  "process_trade env force_checkpoint trade st =
     (case map_of (sv_signals st) (pt_symbol trade) of
        None \<Rightarrow> Inr st
      | Some v \<Rightarrow>
          rbind (evaluate_public_trade (lifecycle_state_of v) trade) (\<lambda>actions.
          rbind (run_actions (trade_action trade) (pt_symbol trade) 0 actions v st) (\<lambda>(current, st').
          case current of
            None \<Rightarrow> Inr st'
          | Some v' \<Rightarrow>
              if force_checkpoint \<and> monotonic_now env -
                  (case map_of (sv_checkpoints st') (pt_symbol trade) of None \<Rightarrow> 0 | Some t \<Rightarrow> t)
                  \<ge> checkpoint_interval env
              then checkpoint env v' trade st' else Inr st')))"

text \<open>\<open>for trade in trades: if symbol not in self._signals: break; await self._process_trade(\<dots>)\<close>, and
  the checkpoint at the last trade.\<close>

fun replay_trades :: "surroundings \<Rightarrow> string \<Rightarrow> public_trade list \<Rightarrow> service \<Rightarrow> service res" where
  "replay_trades env symb [] st = Inr st"
| "replay_trades env symb (t # ts) st =
     (if map_of (sv_signals st) symb = None then Inr st
      else rbind (process_trade env False t st) (replay_trades env symb ts))"

definition replay_and_checkpoint :: "surroundings \<Rightarrow> string \<Rightarrow> public_trade list \<Rightarrow> service \<Rightarrow> service res" where
  "replay_and_checkpoint env symb trades st =
     rbind (replay_trades env symb trades st) (\<lambda>st'.
     case map_of (sv_signals st') symb of
       None \<Rightarrow> Inr st'
     | Some v \<Rightarrow> if trades = [] then Inr st' else checkpoint env v (last trades) st')"

section \<open>Recovery with candles\<close>

definition candle_action_key :: "tracking_view \<Rightarrow> candle_1m \<Rightarrow> lifecycle_action \<Rightarrow> nat \<Rightarrow> string" where
  "candle_action_key v candle action i = ''fallback:'' @ show_int (tv_id v) @ '':'' @
     show_int (epoch_seconds (m1_open_time candle)) @ '':'' @ signal_status_name (la_target action) @ '':'' @
     show_nat i"

definition candle_action ::
  "string \<Rightarrow> candle_1m \<Rightarrow> nat \<Rightarrow> lifecycle_action \<Rightarrow> tracking_view \<Rightarrow> service \<Rightarrow> service res" where
  "candle_action reason candle i action v st =
     apply_action v action (m1_open_time candle + minutes 1) (candle_action_key v candle action i) None
       (Candle_Values candle reason) (Some (la_target action = Sg_Ambiguous))
       (if la_target action = Sg_Ambiguous then Some (''conservative_1m_fallback:'' @ reason) else None) st"

text \<open>The loop over the candles; \<open>False\<close> when the signal is no longer tracked.\<close>

fun run_candles :: "string \<Rightarrow> string \<Rightarrow> candle_1m list \<Rightarrow> service \<Rightarrow> (bool \<times> service) res" where
  "run_candles reason symb [] st = Inr (True, st)"
| "run_candles reason symb (c # cs) st =
     (case map_of (sv_signals st) symb of
        None \<Rightarrow> Inr (False, st)
      | Some v \<Rightarrow>
          rbind (evaluate_closed_candle (lifecycle_state_of v) c) (\<lambda>actions.
          rbind (run_actions (candle_action reason c) symb 0 actions v st) (\<lambda>(current, st').
          case current of
            None \<Rightarrow> Inr (False, st')
          | Some _ \<Rightarrow> run_candles reason symb cs st')))"

definition recovery_key :: "tracking_view \<Rightarrow> instant \<Rightarrow> string" where
  "recovery_key v anchor = ''signal:'' @ show_int (tv_id v) @ '':fallback:'' @ show_int (epoch_millis anchor)"

definition recover_with_candles ::
  "surroundings \<Rightarrow> tracking_view \<Rightarrow> instant \<Rightarrow> string \<Rightarrow> service \<Rightarrow> (bool \<times> service) res" where
  "recover_with_candles env v anchor reason st =
     (let symb = tv_symbol v; start = minute_floor anchor;
          ends = minute_floor (now_utc env) - minutes 1 in
      if ends < start then Inr (False, st)
      else
        let candles = candle_window env symb start ends in
        if candles = [] then Inr (False, st)
        else
          rbind (run_candles reason symb candles st) (\<lambda>(tracked, st').
          let st' = st'\<lparr>sv_pending := od_pop symb (sv_pending st')\<rparr> in
          if \<not> tracked then Inr (True, st')
          else
            let replay_from = ends + minutes 1 in
            rbind (record_tracking_event (tv_id v) replay_from (recovery_key v anchor)
              ''trade_coverage_fallback_recovered''
              (Window_Values reason start ends (length candles)) (sv_db st')) (\<lambda>(_, db).
            rbind (replay_and_checkpoint env symb (buffered_trades env symb replay_from)
              (st'\<lparr>sv_db := db\<rparr>)) (\<lambda>st''.
            Inr (True, st'')))))"

section \<open>Coverage\<close>

definition coverage_key :: "tracking_view \<Rightarrow> instant \<Rightarrow> string" where
  "coverage_key v anchor = ''signal:'' @ show_int (tv_id v) @ '':coverage:'' @ show_int (epoch_millis anchor)"

definition establish_coverage :: "surroundings \<Rightarrow> string \<Rightarrow> service \<Rightarrow> service res" where
  "establish_coverage env symb st =
     (case (map_of (sv_signals st) symb, map_of (sv_pending st) symb) of
        (Some v, Some anchor) \<Rightarrow>
          let coverage = merge_trade_coverage (rest_trades env symb) (buffered_trades env symb anchor) anchor in
          if \<not> cov_proven coverage then
            (if tv_status v = Sg_Preparing then
               rbind (service_transition v ((plain_request v Sg_Coverage_Failed (now_utc env)
                   (coverage_key v anchor) ''trade_coverage_failed'')\<lparr>rq_resolution_note := cov_reason coverage\<rparr>) st)
                 (\<lambda>st'. Inr (st'\<lparr>sv_pending := od_pop symb (sv_pending st')\<rparr>))
             else
               rbind (recover_with_candles env v anchor
                 (case cov_reason coverage of None \<Rightarrow> ''unproven'' | Some r \<Rightarrow> r) st) (\<lambda>(_, st'). Inr st'))
          else
            rbind (if tv_status v = Sg_Preparing then
                service_transition v ((plain_request v Sg_Active anchor (coverage_key v anchor)
                  ''trade_coverage_ready'')\<lparr>rq_payload := Trade_Count (length (cov_trades coverage))\<rparr>) st
              else Inr st) (\<lambda>st'.
            replay_and_checkpoint env symb (cov_trades coverage)
              (st'\<lparr>sv_pending := od_pop symb (sv_pending st')\<rparr>))
      | _ \<Rightarrow> Inr st)"

section \<open>Events and reconciliation\<close>

datatype stream_event =
    Disconnected_Event string
  | Ready_Event string
  | Trade_Event public_trade

definition handle_event :: "surroundings \<Rightarrow> stream_event \<Rightarrow> service \<Rightarrow> service res" where
  "handle_event env event st =
     (case event of
        Disconnected_Event symb \<Rightarrow>
          let st = st\<lparr>sv_ready := sv_ready st - {symb}\<rparr> in
          Inr (case map_of (sv_signals st) symb of
                 None \<Rightarrow> st
               | Some v \<Rightarrow> st\<lparr>sv_pending := od_put symb (coverage_anchor v) (sv_pending st)\<rparr>)
      | Ready_Event symb \<Rightarrow> establish_coverage env symb (st\<lparr>sv_ready := insert symb (sv_ready st)\<rparr>)
      | Trade_Event trade \<Rightarrow>
          if map_of (sv_pending st) (pt_symbol trade) \<noteq> None then Inr st
          else process_trade env True trade st)"

definition expiry_key :: "tracking_view \<Rightarrow> string" where
  "expiry_key v = ''signal:'' @ show_int (tv_id v) @ '':expired''"

definition expire :: "tracking_view \<Rightarrow> service \<Rightarrow> service res" where
  "expire v st = service_transition v
     (plain_request v Sg_Expired (tv_expires_at v) (expiry_key v) ''signal_expired'') st"

definition reconcile_signal ::
  "surroundings \<Rightarrow> service \<Rightarrow> string \<times> tracking_view \<Rightarrow> service res" where
  "reconcile_signal env st = (\<lambda>(symb, v).
     if tv_status v = Sg_Preparing \<and> tv_expires_at v \<le> now_utc env then expire v st
     else if tv_status v = Sg_Active \<and> tv_expires_at v \<le> now_utc env \<and>
         map_of (sv_pending st) symb = None \<and> symb \<in> sv_ready st then expire v st
     else if symb \<notin> set (sv_subscribed st) then
       Inr ((subscribe symb st)\<lparr>sv_pending := od_put symb (coverage_anchor v) (sv_pending st)\<rparr>)
     else if map_of (sv_pending st) symb \<noteq> None \<and> symb \<in> sv_ready st then establish_coverage env symb st
     else Inr st)"

definition forget_symbol :: "string \<Rightarrow> service \<Rightarrow> service" where
  "forget_symbol symb st = (unsubscribe symb st)\<lparr>sv_pending := od_pop symb (sv_pending st),
     sv_checkpoints := od_pop symb (sv_checkpoints st), sv_ready := sv_ready st - {symb}\<rparr>"

definition current_signals :: "signal_db \<Rightarrow> (string \<times> tracking_view) list" where
  "current_signals db = foldl (\<lambda>d v. od_put (tv_symbol v) v d) [] (list_tracking_signals db)"

definition reconcile :: "surroundings \<Rightarrow> service \<Rightarrow> service res" where
  "reconcile env st =
     (let current = current_signals (sv_db st);
          gone = filter (\<lambda>s. map_of current s = None) (map fst (sv_signals st));
          st' = (foldl (\<lambda>s symb. forget_symbol symb s) st gone)\<lparr>sv_signals := current\<rparr>
      in foldM (reconcile_signal env) st' current)"

end
