(* ===== verification/Service_Safety.thy ===== *)
theory Service_Safety
  imports Signal_Service
begin

text \<open>
  What the tracking service guarantees. The invariant \<open>service_ok\<close> says that the tables are sound, that
  every cached view mirrors its rows, and which idempotency keys have been used; every operation
  keeps it and returns. So the service never requests a transition that the state machine
  refuses, and no request collides with the key of an earlier one.
\<close>

section \<open>The idempotency keys\<close>

lemma split_first:
  assumes "a @ c # x = b @ c # y" "c \<notin> set a" "c \<notin> set b"
  shows "a = b \<and> x = y"
proof -
  have "takeWhile (\<lambda>z. z \<noteq> c) (zs @ c # r) = zs" if "c \<notin> set zs" for zs r
    using that by (induction zs) auto
  with assms have "a = b" by metis
  with assms(1) show ?thesis by simp
qed

lemma split_last:
  assumes "x @ c # a = y @ c # b" "c \<notin> set a" "c \<notin> set b"
  shows "a = b \<and> x = y"
  using split_first [of "rev a" c "rev x" "rev b" "rev y"] arg_cong [OF assms(1), of rev] assms(2,3)
  by simp

lemma show_nat_no_colon: "CHR '':'' \<notin> set (show_nat n)"
  using show_nat_digits [of "CHR '':''" n] by auto

lemma show_int_no_colon: "CHR '':'' \<notin> set (show_int i)"
  using show_nat_no_colon by (simp add: show_int_def)

lemma status_name_no_colon: "CHR '':'' \<notin> set (signal_status_name s)"
  by (cases s) simp_all

lemma status_name_inj: "signal_status_name s = signal_status_name t \<longleftrightarrow> s = t"
  by (cases s; cases t) simp_all

definition action_key :: "string \<Rightarrow> int \<Rightarrow> string \<Rightarrow> signal_status \<Rightarrow> nat \<Rightarrow> string" where
  "action_key kind i detail target n =
     kind @ '':'' @ show_int i @ '':'' @ detail @ '':'' @ signal_status_name target @ '':'' @ show_nat n"

definition signal_key :: "int \<Rightarrow> string \<Rightarrow> string" where
  "signal_key i rest = ''signal'' @ '':'' @ show_int i @ '':'' @ rest"

lemma action_key_inj:
  assumes "action_key kind i d t n = action_key kind' i' d' t' n'" "CHR '':'' \<notin> set kind" "CHR '':'' \<notin> set kind'"
  shows "kind = kind' \<and> i = i' \<and> t = t'"
proof -
  have 1: "kind = kind' \<and> show_int i @ '':'' @ d @ '':'' @ signal_status_name t @ '':'' @ show_nat n =
      show_int i' @ '':'' @ d' @ '':'' @ signal_status_name t' @ '':'' @ show_nat n'"
    using split_first [OF _ assms(2,3)] assms(1) unfolding action_key_def by simp
  then have 2: "i = i' \<and> d @ '':'' @ signal_status_name t @ '':'' @ show_nat n =
      d' @ '':'' @ signal_status_name t' @ '':'' @ show_nat n'"
    using split_first [OF _ show_int_no_colon show_int_no_colon,
        of i "d @ '':'' @ signal_status_name t @ '':'' @ show_nat n" i'
          "d' @ '':'' @ signal_status_name t' @ '':'' @ show_nat n'"] by (simp add: show_int_inj)
  then have "d @ '':'' @ signal_status_name t = d' @ '':'' @ signal_status_name t'"
    using split_last [OF _ show_nat_no_colon show_nat_no_colon, of "d @ '':'' @ signal_status_name t" n
        "d' @ '':'' @ signal_status_name t'" n'] by simp
  then have "t = t'"
    using split_last [OF _ status_name_no_colon status_name_no_colon, of d t d' t'] by (simp add: status_name_inj)
  with 1 2 show ?thesis by blast
qed

lemma signal_key_inj: "signal_key i r = signal_key i' r' \<longleftrightarrow> i = i' \<and> r = r'"
  using split_first [OF _ show_int_no_colon show_int_no_colon, of i r i' r']
  by (auto simp: signal_key_def show_int_inj)

lemma signal_not_action: "CHR '':'' \<notin> set kind \<Longrightarrow> kind \<noteq> ''signal'' \<Longrightarrow> signal_key i r \<noteq> action_key kind i' d t n"
  using split_first [of "''signal''" "CHR '':''" "show_int i @ '':'' @ r" kind
      "show_int i' @ '':'' @ d @ '':'' @ signal_status_name t @ '':'' @ show_nat n"]
  by (auto simp: signal_key_def action_key_def)

text \<open>The keys under which a transition of a signal is recorded.\<close>

definition transition_key :: "string \<Rightarrow> int \<Rightarrow> signal_status \<Rightarrow> bool" where
  "transition_key key i target \<longleftrightarrow>
     (\<exists>d n. key = action_key ''trade'' i d target n) \<or> (\<exists>d n. key = action_key ''fallback'' i d target n) \<or>
     (\<exists>n. key = signal_key i (''coverage:'' @ show_int n)) \<and> (target = Sg_Active \<or> target = Sg_Coverage_Failed) \<or>
     key = signal_key i ''expired'' \<and> target = Sg_Expired"

definition event_shape :: "event_row \<Rightarrow> bool" where
  "event_shape e \<longleftrightarrow>
     transition_key (ev_key e) (ev_signal_id e) (ev_status_to e) \<and> ev_status_from e \<noteq> Some (ev_status_to e) \<or>
     (\<exists>n. ev_key e = signal_key (ev_signal_id e) (''fallback:'' @ show_int n)) \<or>
     (\<exists>n. ev_key e = ''candidate:'' @ show_int n @ '':publication'')"

lemma transition_key_conflict:
  assumes key: "transition_key (ev_key e) i t" and e: "event_shape e"
  shows "ev_signal_id e = i \<and> ev_status_from e \<noteq> Some (ev_status_to e) \<and>
    (ev_status_to e = t \<or> {ev_status_to e, t} \<subseteq> {Sg_Active, Sg_Coverage_Failed})"
proof -
  have colon: "CHR '':'' \<notin> set ''trade''" "CHR '':'' \<notin> set ''fallback''" by simp_all
  have not_candidate: "ev_key e \<noteq> ''candidate:'' @ r" for r
    using key by (auto simp: transition_key_def action_key_def signal_key_def)
  have kinds: "''trade'' \<noteq> ''signal''" "''fallback'' \<noteq> ''signal''" by simp_all
  note apart = signal_not_action [OF colon(1) kinds(1)] signal_not_action [OF colon(2) kinds(2)]
  have not_recovery: "ev_key e \<noteq> signal_key i' (''fallback:'' @ r)" for i' r
    using key apart apart [symmetric] unfolding transition_key_def by (auto simp: signal_key_inj)
  have "transition_key (ev_key e) (ev_signal_id e) (ev_status_to e)" "ev_status_from e \<noteq> Some (ev_status_to e)"
    using e not_candidate not_recovery unfolding event_shape_def by auto
  moreover have agree: "i = i' \<and> t = t'" if "action_key k i d t n = action_key k' i' d' t' n'"
      "k = ''trade'' \<or> k = ''fallback''" "k' = ''trade'' \<or> k' = ''fallback''" for k k' i i' d d' t t' n n'
    using action_key_inj [OF that(1)] that(2,3) colon by blast
  ultimately show ?thesis
    using key unfolding transition_key_def
    by (auto simp: signal_key_inj apart apart [symmetric] dest!: agree)
qed

section \<open>The invariant\<close>

definition row_sane :: "signal_row \<Rightarrow> bool" where
  "row_sane s \<longleftrightarrow> sr_risk_amount s \<noteq> 0 \<and> \<bar>sr_taker_fee_rate s\<bar> < 1"

definition original_stop :: "signal_db \<Rightarrow> signal_row \<Rightarrow> bool" where
  "original_stop db s \<longleftrightarrow> (sr_status s \<in> {Sg_Preparing, Sg_Active, Sg_Entered} \<longrightarrow>
     (\<forall>t. find_trade db (sr_id s) = Some t \<longrightarrow> vt_current_stop t = sr_stop_loss s))"

definition tables_ok :: "signal_db \<Rightarrow> bool" where
  "tables_ok db \<longleftrightarrow> db_ok db \<and> (\<forall>e \<in> set (db_events db). event_shape e) \<and>
     (\<forall>s \<in> set (db_signals db). row_sane s \<and> original_stop db s)"

text \<open>A view and the rows it was read from, apart from the last trade, which the cache may set while
  the table keeps a later one.\<close>

definition forget_trade :: "tracking_view \<Rightarrow> tracking_view" where
  "forget_trade v = v\<lparr>tv_last_trade_id := None, tv_last_trade_time := None, tv_last_trade_sequence := None\<rparr>"

definition mirrors :: "signal_db \<Rightarrow> tracking_view \<Rightarrow> bool" where
  "mirrors db v \<longleftrightarrow> (\<exists>s t. find_signal db (tv_id v) = Some s \<and> find_trade db (tv_id v) = Some t \<and>
     sr_status s \<in> active_signal_statuses \<and> forget_trade v = forget_trade (tracking_view_of s t))"

definition cache_ok :: "signal_db \<Rightarrow> (string \<times> tracking_view) list \<Rightarrow> bool" where
  "cache_ok db d \<longleftrightarrow> distinct (map fst d) \<and> (\<forall>(symb, v) \<in> set d. symb = tv_symbol v \<and> mirrors db v)"

definition service_ok :: "service \<Rightarrow> bool" where
  "service_ok st \<longleftrightarrow> tables_ok (sv_db st) \<and> cache_ok (sv_db st) (sv_signals st)"

lemma forget_trade_fields:
  assumes "forget_trade v = forget_trade (tracking_view_of s t)"
  shows "tv_id v = sr_id s" "tv_symbol v = sr_symbol s" "tv_status v = sr_status s"
    "tv_stop_loss v = sr_stop_loss s" "tv_current_stop v = vt_current_stop t"
    "tv_risk_amount v = sr_risk_amount s" "tv_taker_fee_rate v = sr_taker_fee_rate s"
    "lifecycle_state_of v = lifecycle_state_of (tracking_view_of s t)"
proof -
  have l: "lifecycle_state_of (forget_trade v) = lifecycle_state_of v" for v
    by (simp add: forget_trade_def lifecycle_state_of_def)
  show "lifecycle_state_of v = lifecycle_state_of (tracking_view_of s t)"
    using arg_cong [OF assms, of lifecycle_state_of] by (simp add: l)
  show "tv_id v = sr_id s" "tv_symbol v = sr_symbol s" "tv_status v = sr_status s"
    "tv_stop_loss v = sr_stop_loss s" "tv_current_stop v = vt_current_stop t"
    "tv_risk_amount v = sr_risk_amount s" "tv_taker_fee_rate v = sr_taker_fee_rate s"
    using arg_cong [OF assms, of tv_id] arg_cong [OF assms, of tv_symbol] arg_cong [OF assms, of tv_status]
      arg_cong [OF assms, of tv_stop_loss] arg_cong [OF assms, of tv_current_stop]
      arg_cong [OF assms, of tv_risk_amount] arg_cong [OF assms, of tv_taker_fee_rate]
    by (simp_all add: forget_trade_def tracking_view_of_def)
qed

lemma cache_lookup:
  assumes "cache_ok db d" "map_of d symb = Some v"
  shows "tv_symbol v = symb" "mirrors db v"
  using assms map_of_SomeD [OF assms(2)] by (auto simp: cache_ok_def)

text \<open>Two cached views of one signal are the same entry.\<close>

lemma cache_unique:
  assumes "cache_ok db d" "(a, v) \<in> set d" "(b, w) \<in> set d" "tv_id v = tv_id w"
  shows "a = b \<and> v = w"
proof -
  have entries: "a = tv_symbol v" "b = tv_symbol w" "mirrors db v" "mirrors db w"
    using assms(1-3) by (auto simp: cache_ok_def)
  then obtain s t s' t' where "find_signal db (tv_id v) = Some s" "find_signal db (tv_id w) = Some s'"
    "forget_trade v = forget_trade (tracking_view_of s t)" "forget_trade w = forget_trade (tracking_view_of s' t')"
    unfolding mirrors_def by blast
  then have "s = s'" "tv_symbol v = sr_symbol s" "tv_symbol w = sr_symbol s'"
    using assms(4) by (simp_all add: forget_trade_fields(2))
  then have "tv_symbol v = tv_symbol w" by simp
  with entries have "a = b" by simp
  with assms(1-3) show ?thesis unfolding cache_ok_def using eq_key_imp_eq_value by metis
qed

section \<open>One request\<close>

definition sound_request :: "tracking_view \<Rightarrow> transition_request \<Rightarrow> bool" where
  "sound_request v rq \<longleftrightarrow> rq_signal_id rq = tv_id v \<and> rq_target rq \<in> signal_transitions (tv_status v) \<and>
     transition_key (rq_key rq) (tv_id v) (rq_target rq) \<and>
     (rq_target rq = Sg_Coverage_Failed \<longrightarrow> tv_status v = Sg_Preparing) \<and>
     (rq_current_stop rq \<noteq> None \<longrightarrow> rq_target rq \<notin> {Sg_Preparing, Sg_Active, Sg_Entered})"

lemma preparing_first:
  assumes "walk signal_transitions first ts Sg_Preparing" shows "ts = []"
proof -
  have "Sg_Preparing \<notin> signal_transitions s" for s by (cases s) simp_all
  with assms show ?thesis
    by (induction ts arbitrary: first rule: rev_induct) (auto simp: walk_append_iff)
qed

lemma key_unused:
  assumes ok: "tables_ok db" and v: "mirrors db v" and rq: "sound_request v rq"
  shows "find_event db (rq_key rq) = None"
proof (rule ccontr)
  assume "find_event db (rq_key rq) \<noteq> None"
  then obtain e where e: "e \<in> set (db_events db)" "ev_key e = rq_key rq"
    by (auto simp: find_event_None)
  let ?t = "rq_target rq"
  from v obtain s t where s: "find_signal db (tv_id v) = Some s"
    and f: "forget_trade v = forget_trade (tracking_view_of s t)" by (auto simp: mirrors_def)
  note fields = forget_trade_fields [OF f]
  have tgt: "?t \<in> signal_transitions (sr_status s)" using rq fields by (simp add: sound_request_def)
  have conflict: "ev_signal_id e = tv_id v" "ev_status_from e \<noteq> Some (ev_status_to e)"
    "ev_status_to e = ?t \<or> {ev_status_to e, ?t} \<subseteq> {Sg_Active, Sg_Coverage_Failed}"
    using transition_key_conflict [of e "tv_id v" ?t] ok rq e by (auto simp: tables_ok_def sound_request_def)
  then have past: "ev_status_to e \<in> set (history db (sr_id s))"
    using e fields(1) by (auto simp: history_def)
  have "s \<in> set (db_signals db)" using s ok by (auto simp: find_signal_iff tables_ok_def db_ok_def)
  then obtain first ts where h: "history db (sr_id s) = first # ts" "walk signal_transitions first ts (sr_status s)"
    using ok unfolding tables_ok_def db_ok_def signal_history_ok_def by blast
  have "walk signal_transitions first (ts @ [?t]) ?t" using h(2) tgt by (auto simp: walk_append_iff)
  from signal_machine.run_distinct [OF this] have "?t \<notin> set (history db (sr_id s))" by (auto simp: h(1))
  with past conflict(3) have "?t = Sg_Active \<or> ?t = Sg_Coverage_Failed" by auto
  then have "sr_status s = Sg_Preparing"
    using tgt rq fields(3) by (cases "sr_status s") (auto simp: sound_request_def)
  with h have "ts = []" "walk signal_transitions first ts Sg_Preparing" using preparing_first by auto
  with h have "history db (sr_id s) = [Sg_Preparing]" by simp
  with past conflict(3) \<open>?t = Sg_Active \<or> ?t = Sg_Coverage_Failed\<close> show False by auto
qed

lemma applied_mirrors_other:
  assumes "mirrors db w" "tv_id w \<noteq> sr_id s" "vt_signal_id t = sr_id s"
  shows "mirrors (transition_applied rq db s t n) w"
  using assms by (auto simp: mirrors_def find_signal_applied find_trade_applied)

lemma applied_mirrors_moved:
  assumes "find_signal db (tv_id v) = Some s" "find_trade db (tv_id v) = Some t" "vt_signal_id t = tv_id v"
    and "forget_trade v = forget_trade (tracking_view_of s t)" "rq_target rq \<in> active_signal_statuses"
  shows "mirrors (transition_applied rq db s t n) (moved_view rq v)"
proof -
  have i: "tv_id v = sr_id s" using forget_trade_fields(1) [OF assms(4)] .
  have "forget_trade (moved_view rq v) = moved_view rq (forget_trade v)"
    by (simp add: forget_trade_def moved_view_def)
  also have "\<dots> = forget_trade (moved_view rq (tracking_view_of s t))"
    by (simp add: assms(4)) (simp add: forget_trade_def moved_view_def)
  also have "moved_view rq (tracking_view_of s t) =
      tracking_view_of (advance_signal rq (rq_target rq) s) (advance_trade rq (rq_target rq) n t)"
    by (simp add: moved_view_def tracking_view_of_def advance_signal_def advance_trade_def)
  finally have "forget_trade (moved_view rq v) = forget_trade
      (tracking_view_of (advance_signal rq (rq_target rq) s) (advance_trade rq (rq_target rq) n t))" .
  moreover have "tv_id (moved_view rq v) = sr_id s" by (simp add: moved_view_def i)
  ultimately show ?thesis
    using assms(1-3,5) i by (auto simp: mirrors_def find_signal_applied find_trade_applied)
qed

lemma applied_tables_ok:
  assumes ok: "tables_ok db" and s: "find_signal db (tv_id v) = Some s" and t: "find_trade db (tv_id v) = Some t"
    and f: "forget_trade v = forget_trade (tracking_view_of s t)" and rq: "sound_request v rq"
    and db': "db_ok (transition_applied rq db s t n)"
  shows "tables_ok (transition_applied rq db s t n)"
proof -
  let ?db' = "transition_applied rq db s t n"
  have keys: "keys_ok db" using ok by (simp add: tables_ok_def db_ok_def)
  note ids = forget_trade_fields [OF f]
  have t_id: "vt_signal_id t = tv_id v" using t keys by (simp add: find_trade_iff)
  have s_in: "s \<in> set (db_signals db)" using s keys by (simp add: find_signal_iff)
  have rq': "rq_signal_id rq = sr_id s" "rq_target rq \<in> signal_transitions (sr_status s)"
    using rq ids by (simp_all add: sound_request_def)
  have "event_shape (event_of rq (sr_status s) (rq_target rq))"
    using rq not_self_transition [OF rq'(2)] by (auto simp: event_shape_def sound_request_def)
  moreover have "row_sane r \<and> original_stop ?db' r" if "r \<in> set (db_signals ?db')" for r
  proof (cases "r \<in> set (db_signals db) \<and> sr_id r \<noteq> sr_id s")
    case True
    with ok show ?thesis
      by (auto simp: tables_ok_def original_stop_def find_trade_applied t_id ids(1))
  next
    case False
    with that have r: "r = advance_signal rq (rq_target rq) s" by (auto split: if_splits)
    have "original_stop db s" "row_sane s" using ok s_in by (simp_all add: tables_ok_def)
    moreover have "rq_target rq \<in> {Sg_Preparing, Sg_Active, Sg_Entered} \<Longrightarrow>
        sr_status s \<in> {Sg_Preparing, Sg_Active, Sg_Entered}"
      using rq'(2) by (cases "sr_status s") auto
    ultimately show ?thesis
      using t rq by (auto simp: r row_sane_def original_stop_def find_trade_applied t_id ids(1)
          advance_signal_def advance_trade_def given_def sound_request_def split: option.splits)
  qed
  ultimately show ?thesis using ok db' by (simp add: tables_ok_def del: transition_applied_tables(1,2)) 
qed

lemma refresh_untouched: "sv_db (refresh_signal symb st) = sv_db st"
  by (simp add: refresh_signal_def split: option.split)

lemma cache_pop: "cache_ok db d \<Longrightarrow> cache_ok db (od_pop symb d)"
  by (auto simp: cache_ok_def od_pop_distinct)

lemma cache_put:
  assumes "cache_ok db d" "mirrors db v" "tv_symbol v = symb"
  shows "cache_ok db (od_put symb v d)"
  using assms od_put_distinct [of d symb v] by (fastforce simp: cache_ok_def dest: od_put_set [THEN subsetD])

lemma cache_put_moved:
  assumes "cache_ok db d" "map_of d symb = Some v" "\<And>w. mirrors db w \<Longrightarrow> tv_id w \<noteq> tv_id v \<Longrightarrow> mirrors db' w"
  shows "cache_ok db' (od_pop symb d)"
    and "mirrors db' v' \<Longrightarrow> tv_symbol v' = symb \<Longrightarrow> cache_ok db' (od_put symb v' d)"
proof -
  have v: "(symb, v) \<in> set d" using assms(2) by (rule map_of_SomeD)
  have others: "mirrors db' w" if "(b, w) \<in> set d" "b \<noteq> symb" for b w
    using cache_unique [OF assms(1) that(1) v] that assms(1,3) by (auto simp: cache_ok_def)
  show "cache_ok db' (od_pop symb d)"
    using assms(1) others by (auto simp: cache_ok_def od_pop_distinct)
  assume v': "mirrors db' v'" "tv_symbol v' = symb"
  have "b = tv_symbol w \<and> mirrors db' w" if "(b, w) \<in> set (od_put symb v' d)" for b w
  proof (cases "b = symb")
    case True
    have "distinct (map fst (od_put symb v' d))" using assms(1) by (simp add: cache_ok_def od_put_distinct)
    from map_of_is_SomeI [OF this that] have "map_of (od_put symb v' d) b = Some w" .
    with True v' show ?thesis by simp
  next
    case False
    then have "(b, w) \<in> set d" using that od_put_set [of symb v' d] by auto
    with False others assms(1) show ?thesis by (auto simp: cache_ok_def)
  qed
  then show "cache_ok db' (od_put symb v' d)"
    using assms(1) by (auto simp: cache_ok_def od_put_distinct)
qed

text \<open>The frame: an operation on one symbol deletes no signal and leaves the cached views of the
  other symbols alone.\<close>

definition touches :: "string \<Rightarrow> service \<Rightarrow> service \<Rightarrow> bool" where
  "touches symb st st' \<longleftrightarrow>
     (\<forall>i. find_signal (sv_db st) i \<noteq> None \<longrightarrow> find_signal (sv_db st') i \<noteq> None) \<and>
     (\<forall>x. x \<noteq> symb \<longrightarrow> map_of (sv_signals st') x = map_of (sv_signals st) x)"

lemma touches_refl [simp]: "touches symb st st"
  and touches_trans: "touches symb a b \<Longrightarrow> touches symb b c \<Longrightarrow> touches symb a c"
  by (simp_all add: touches_def)

text \<open>A sound request is carried out, and the cache follows.\<close>

lemma service_transition_ok:
  assumes ok: "service_ok st" and v: "map_of (sv_signals st) symb = Some v" and rq: "sound_request v rq"
  obtains st' where "service_transition v rq st = Inr st'" "service_ok st'"
    "map_of (sv_signals st') symb =
       (if rq_target rq \<in> terminal_signal_statuses then None else Some (moved_view rq v))"
    "touches symb st st'"
proof -
  have tables: "tables_ok (sv_db st)" and cache: "cache_ok (sv_db st) (sv_signals st)"
    using ok by (simp_all add: service_ok_def)
  have symb: "tv_symbol v = symb" and m: "mirrors (sv_db st) v" using cache_lookup [OF cache v] .
  from m obtain s t where s: "find_signal (sv_db st) (tv_id v) = Some s"
    and t: "find_trade (sv_db st) (tv_id v) = Some t"
    and f: "forget_trade v = forget_trade (tracking_view_of s t)" by (auto simp: mirrors_def)
  note ids = forget_trade_fields [OF f]
  have rq': "rq_signal_id rq = tv_id v" "rq_target rq \<in> signal_transitions (sr_status s)"
    using rq ids by (simp_all add: sound_request_def)
  have db: "db_ok (sv_db st)" using tables by (simp add: tables_ok_def)
  have new: "find_event (sv_db st) (rq_key rq) = None" by (rule key_unused [OF tables m rq])
  obtain r db' where run: "apply_transition rq (sv_db st) = Inr (r, db')" and r: "tr_applied r"
    using apply_transition_succeeds [OF db _ new] s rq' by auto
  then obtain n where db': "db' = transition_applied rq (sv_db st) s t n"
    using s t rq'(1) by (cases rule: apply_transition_cases) auto
  have t_id: "vt_signal_id t = tv_id v" using t db by (simp add: find_trade_iff db_ok_def)
  have tables': "tables_ok db'"
    unfolding db' using applied_tables_ok [OF tables s t f rq] apply_transition_keeps_ok [OF db run] db' by simp
  have others: "mirrors (sv_db st) w \<Longrightarrow> tv_id w \<noteq> tv_id v \<Longrightarrow> mirrors db' w" for w
    unfolding db' using applied_mirrors_other t_id ids(1) by simp
  have terminal: "rq_target rq \<in> {Sg_Expired, Sg_Invalidated, Sg_Stopped, Sg_Stopped_At_Breakeven,
      Sg_Tp2_Completed, Sg_Ambiguous, Sg_Coverage_Failed} \<longleftrightarrow> rq_target rq \<in> terminal_signal_statuses"
    by (simp add: terminal_signal_statuses_def)
  have kept: "find_signal (sv_db st) i \<noteq> None \<Longrightarrow> find_signal db' i \<noteq> None" for i
    by (simp add: db' find_signal_applied)
  have outcome: "service_transition v rq st = Inr (if rq_target rq \<in> terminal_signal_statuses
      then unsubscribe symb (st\<lparr>sv_db := db', sv_signals := od_pop symb (sv_signals st),
        sv_pending := od_pop symb (sv_pending st), sv_ready := sv_ready st - {symb}\<rparr>)
      else st\<lparr>sv_db := db', sv_signals := od_put symb (moved_view rq v) (sv_signals st)\<rparr>)"
    unfolding service_transition_def run rbind_Inr prod.case Let_def terminal symb using r by simp
  show thesis
  proof (cases "rq_target rq \<in> terminal_signal_statuses")
    case True
    then show thesis
      using tables' cache_put_moved(1) [OF cache v others]
      by (intro that [of "unsubscribe symb (st\<lparr>sv_db := db', sv_signals := od_pop symb (sv_signals st),
          sv_pending := od_pop symb (sv_pending st), sv_ready := sv_ready st - {symb}\<rparr>)"])
        (use kept in \<open>simp_all add: outcome service_ok_def unsubscribe_def touches_def\<close>)
  next
    case False
    then have "rq_target rq \<in> active_signal_statuses"
      using rq'(2) by (cases "sr_status s") (auto simp: status_sets)
    then have "mirrors db' (moved_view rq v)"
      unfolding db' using applied_mirrors_moved [OF s t t_id f] by simp
    moreover have "tv_symbol (moved_view rq v) = symb" by (simp add: moved_view_def symb)
    ultimately have "cache_ok db' (od_put symb (moved_view rq v) (sv_signals st))"
      using cache_put_moved(2) [OF cache v others] by blast
    with False show thesis
      using tables'
      by (intro that [of "st\<lparr>sv_db := db', sv_signals := od_put symb (moved_view rq v) (sv_signals st)\<rparr>"])
        (use kept in \<open>simp_all add: outcome service_ok_def touches_def\<close>)
  qed
qed

section \<open>The actions of one event\<close>

definition benign :: "lifecycle_action \<Rightarrow> bool" where
  "benign a \<longleftrightarrow> la_target a \<noteq> Sg_Coverage_Failed \<and>
     (la_current_stop a \<noteq> None \<longrightarrow> la_target a \<notin> {Sg_Preparing, Sg_Active, Sg_Entered})"

lemma evaluated_benign:
  assumes "evaluate_public_trade st trade = Inr as" "a \<in> set as" shows "benign a"
  using assms
  by (cases "lc_status st")
    (auto simp: evaluate_public_trade_def Let_def tp1_and_tp2_def action_defs benign_def split: if_splits prod.splits)

lemma ambiguous_benign: "ambiguous_stop st trade event = Inr as \<Longrightarrow> a \<in> set as \<Longrightarrow> benign a"
  by (auto simp: ambiguous_stop_def benign_def)

lemma closed_candle_benign:
  assumes "evaluate_closed_candle st candle = Inr as" "a \<in> set as" shows "benign a"
proof -
  have plain: "benign (plain_action Sg_Expired e)" "benign (plain_action Sg_Invalidated e)" for e
    by (simp_all add: benign_def plain_action_def)
  show ?thesis using assms plain
    by (cases "lc_status st")
      (auto simp: evaluate_closed_candle_def Let_def split: if_splits
        dest: evaluated_benign ambiguous_benign)
qed

lemma booked_ok:
  assumes "tv_risk_amount v \<noteq> 0" obtains b where "booked_result v a time = Inr b"
proof (cases "booked_result v a time")
  case (Inl e)
  with assms show ?thesis
    by (auto simp: booked_result_def Let_def ddiv_ok split: option.splits if_splits)
qed (rule that)

lemma mirrors_sane:
  assumes "tables_ok db" "mirrors db v"
  shows "tv_risk_amount v \<noteq> 0" "\<bar>tv_taker_fee_rate v\<bar> < 1"
    and "tv_status v = Sg_Active \<Longrightarrow> tv_current_stop v = tv_stop_loss v"
    and "tv_status v \<in> active_signal_statuses"
proof -
  from assms obtain s t where s: "find_signal db (tv_id v) = Some s" and t: "find_trade db (tv_id v) = Some t"
    and a: "sr_status s \<in> active_signal_statuses"
    and f: "forget_trade v = forget_trade (tracking_view_of s t)" by (auto simp: mirrors_def)
  note ids = forget_trade_fields [OF f]
  have "s \<in> set (db_signals db)" using s assms(1) by (simp add: find_signal_iff tables_ok_def db_ok_def)
  then have sane: "row_sane s" "original_stop db s" using assms(1) by (auto simp: tables_ok_def)
  show "tv_risk_amount v \<noteq> 0" "\<bar>tv_taker_fee_rate v\<bar> < 1" "tv_status v \<in> active_signal_statuses"
    using sane(1) a by (simp_all add: ids row_sane_def)
  show "tv_status v = Sg_Active \<Longrightarrow> tv_current_stop v = tv_stop_loss v"
    using sane(2) t by (simp add: ids original_stop_def)
qed

definition performs :: "(nat \<Rightarrow> lifecycle_action \<Rightarrow> tracking_view \<Rightarrow> service \<Rightarrow> service res) \<Rightarrow> bool" where
  "performs f \<longleftrightarrow> (\<forall>i a v st. \<exists>time key src pay amb note.
     f i a v st = apply_action v a time key src pay amb note st \<and> transition_key key (tv_id v) (la_target a))"

lemma performs_trade: "performs (trade_action trade)"
  unfolding performs_def trade_action_def
  by (intro allI exI conjI, rule refl)
    (auto simp: transition_key_def trade_action_key_def action_key_def)

lemma performs_candle: "performs (candle_action reason candle)"
  unfolding performs_def candle_action_def
  by (intro allI exI conjI, rule refl)
    (auto simp: transition_key_def candle_action_key_def action_key_def)

lemma apply_action_ok:
  assumes "service_ok st" "map_of (sv_signals st) symb = Some v" "benign a"
    and "la_target a \<in> signal_transitions (tv_status v)" "transition_key key (tv_id v) (la_target a)"
  obtains st' where "apply_action v a time key src pay amb note st = Inr st'" "service_ok st'"
    "case map_of (sv_signals st') symb of None \<Rightarrow> la_target a \<in> terminal_signal_statuses
     | Some w \<Rightarrow> tv_status w = la_target a" "touches symb st st'"
proof -
  have "cache_ok (sv_db st) (sv_signals st)" "tables_ok (sv_db st)" using assms(1) by (simp_all add: service_ok_def)
  then have "tv_risk_amount v \<noteq> 0" using cache_lookup(2) assms(2) mirrors_sane(1) by blast
  then obtain b where b: "booked_result v a time = Inr b" by (rule booked_ok)
  let ?rq = "action_request v a time key src pay amb note b"
  have rq: "rq_target ?rq = la_target a" "rq_signal_id ?rq = tv_id v" "rq_key ?rq = key"
    "rq_current_stop ?rq = la_current_stop a"
    by (simp_all add: action_request_def plain_request_def)
  have "sound_request v ?rq" using assms(3-5) by (simp add: sound_request_def rq benign_def)
  from service_transition_ok [OF assms(1,2) this] obtain st' where
    st': "service_transition v ?rq st = Inr st'" "service_ok st'"
    "map_of (sv_signals st') symb =
       (if la_target a \<in> terminal_signal_statuses then None else Some (moved_view ?rq v))" "touches symb st st'"
    unfolding rq by metis
  show thesis
    by (rule that [of st']) (use st' b rq(1) in \<open>auto simp: apply_action_def moved_view_def\<close>)
qed

lemma run_actions_ok:
  assumes "performs f" "service_ok st" "map_of (sv_signals st) symb = Some v" "\<forall>a \<in> set as. benign a"
    and "walk signal_transitions (tv_status v) (map la_target as) u"
  shows "\<exists>st'. run_actions f symb i as v st = Inr (map_of (sv_signals st') symb, st') \<and> service_ok st' \<and>
    touches symb st st' \<and>
    (case map_of (sv_signals st') symb of None \<Rightarrow> u \<in> terminal_signal_statuses | Some w \<Rightarrow> tv_status w = u)"
  using assms(2-)
proof (induction as arbitrary: i v st)
  case Nil
  then show ?case by auto
next
  case (Cons a as)
  obtain time key src pay amb nt where f: "f i a v st = apply_action v a time key src pay amb nt st"
    and key: "transition_key key (tv_id v) (la_target a)"
    using assms(1) unfolding performs_def by blast
  from Cons.prems(3,4) have a: "benign a" "la_target a \<in> signal_transitions (tv_status v)"
    and rest: "\<forall>a \<in> set as. benign a" "walk signal_transitions (la_target a) (map la_target as) u" by auto
  obtain st' where st': "apply_action v a time key src pay amb nt st = Inr st'" "service_ok st'"
    "case map_of (sv_signals st') symb of None \<Rightarrow> la_target a \<in> terminal_signal_statuses
     | Some w \<Rightarrow> tv_status w = la_target a" "touches symb st st'"
    by (rule apply_action_ok [OF Cons.prems(1,2) a key])
  show ?case
  proof (cases "map_of (sv_signals st') symb")
    case None
    with st'(3) have "signal_transitions (la_target a) = {}" by (simp add: signal_terminal_iff)
    with rest(2) have "u = la_target a" by (auto dest: signal_machine.terminal_stays)
    with None st' f show ?thesis by simp
  next
    case (Some w)
    with st'(3) have "tv_status w = la_target a" by simp
    with Cons.IH [OF st'(2) Some rest(1), of "Suc i"] rest(2) Some f st'(1,4) show ?thesis
      by (auto intro: touches_trans)
  qed
qed

section \<open>Checkpoints and tracking events\<close>

definition trade_noted :: "string \<Rightarrow> instant \<Rightarrow> int \<Rightarrow> trade_row \<Rightarrow> trade_row" where
  "trade_noted i time sq t = t\<lparr>vt_last_trade_id := Some i, vt_last_trade_time := Some time,
     vt_last_trade_sequence := Some sq\<rparr>"

lemma checkpoint_trade_cases:
  assumes "find_trade db i = Some t"
  shows "checkpoint_trade i tid time sq db = Inr db \<or>
    checkpoint_trade i tid time sq db = Inr (put_trade (trade_noted tid time sq t) db)"
  using assms by (simp add: checkpoint_trade_def trade_noted_def split: option.split)

lemma noted_simps [simp]:
  "vt_signal_id (trade_noted i time sq t) = vt_signal_id t" "vt_status (trade_noted i time sq t) = vt_status t"
  "vt_resolved_at (trade_noted i time sq t) = vt_resolved_at t"
  "vt_current_stop (trade_noted i time sq t) = vt_current_stop t"
  by (simp_all add: trade_noted_def)

lemma find_after_note:
  "find_signal (put_trade t' db) i = find_signal db i"
  "find_trade (put_trade t' db) i = (if i = vt_signal_id t' \<and> find_trade db i \<noteq> None then Some t' else find_trade db i)"
  "history (put_trade t' db) i = history db i"
  using find_update [of vt_signal_id t' "vt_signal_id t'" i "db_trades db"]
  by (auto simp: find_signal_def find_trade_def history_def)

lemma note_keeps_tables:
  assumes ok: "tables_ok db" and t: "find_trade db i = Some t"
  shows "tables_ok (put_trade (trade_noted tid time sq t) db)"
proof -
  let ?t = "trade_noted tid time sq t" and ?db = "put_trade (trade_noted tid time sq t) db"
  have keys: "keys_ok db" using ok by (simp add: tables_ok_def db_ok_def)
  then have i: "vt_signal_id t = i" "t \<in> set (db_trades db)" using t by (simp_all add: find_trade_iff)
  have find: "find_trade ?db j = (if j = i \<and> find_trade db j \<noteq> None then Some ?t else find_trade db j)" for j
    using find_after_note(2) [of ?t db j] i by simp
  have tra: "map vt_signal_id (map (\<lambda>r. if vt_signal_id r = vt_signal_id ?t then ?t else r) (db_trades db))
      = map vt_signal_id (db_trades db)" by simp
  have "keys_ok ?db" using keys i unfolding keys_ok_def db_fields tra by auto
  moreover have "one_active_row_per_symbol ?db"
    using ok by (simp add: tables_ok_def db_ok_def one_active_row_per_symbol_def)
  moreover have "signal_history_ok ?db s \<and> signal_trade_ok ?db s \<and> original_stop ?db s"
    if "s \<in> set (db_signals db)" for s
    using ok that t unfolding tables_ok_def db_ok_def signal_history_ok_def signal_trade_ok_def original_stop_def
      find find_after_note(3) by auto
  ultimately show ?thesis using ok by (simp add: tables_ok_def db_ok_def)
qed

lemma note_keeps_mirrors:
  assumes "tables_ok db" "find_trade db i = Some t" "mirrors db w"
  shows "mirrors (put_trade (trade_noted tid time sq t) db) w"
proof -
  have i: "vt_signal_id t = i" using assms(1,2) by (simp add: find_trade_iff tables_ok_def db_ok_def)
  from assms(3) obtain s t' where "find_signal db (tv_id w) = Some s" "find_trade db (tv_id w) = Some t'"
    "sr_status s \<in> active_signal_statuses" "forget_trade w = forget_trade (tracking_view_of s t')"
    by (auto simp: mirrors_def)
  moreover have "forget_trade (tracking_view_of s (trade_noted tid time sq t)) = forget_trade (tracking_view_of s t)"
    by (simp add: forget_trade_def tracking_view_of_def trade_noted_def)
  ultimately show ?thesis
    using assms(2) unfolding mirrors_def find_after_note by (cases "tv_id w = i") (auto simp: i)
qed

lemma cache_mono: "cache_ok db d \<Longrightarrow> (\<And>w. mirrors db w \<Longrightarrow> mirrors db' w) \<Longrightarrow> cache_ok db' d"
  by (auto simp: cache_ok_def)

lemma checkpoint_ok:
  assumes ok: "service_ok st" and v: "map_of (sv_signals st) symb = Some v"
  shows "\<exists>st'. checkpoint env v trade st = Inr st' \<and> service_ok st' \<and> touches (tv_symbol v) st st'"
proof -
  have tables: "tables_ok (sv_db st)" and cache: "cache_ok (sv_db st) (sv_signals st)"
    using ok by (simp_all add: service_ok_def)
  have m: "mirrors (sv_db st) v" using cache_lookup [OF cache v] by simp
  then obtain t where t: "find_trade (sv_db st) (tv_id v) = Some t" by (auto simp: mirrors_def)
  have m': "mirrors db (checkpointed trade v)" if "mirrors db v" for db
    using that by (simp add: mirrors_def checkpointed_def forget_trade_def)
  have symb': "tv_symbol (checkpointed trade v) = tv_symbol v" by (simp add: checkpointed_def)
  have "\<exists>db. checkpoint_trade (tv_id v) (pt_trade_id trade) (pt_executed_at trade) (pt_sequence trade) (sv_db st)
      = Inr db \<and> tables_ok db \<and> (\<forall>w. mirrors (sv_db st) w \<longrightarrow> mirrors db w) \<and>
      (\<forall>i. find_signal db i = find_signal (sv_db st) i)"
    using checkpoint_trade_cases [OF t, of "pt_trade_id trade" "pt_executed_at trade" "pt_sequence trade"]
      tables note_keeps_tables [OF tables t] note_keeps_mirrors [OF tables t] find_after_note(1)
    by (elim disjE) (intro exI conjI, assumption, blast+)+
  then obtain db where run: "checkpoint_trade (tv_id v) (pt_trade_id trade) (pt_executed_at trade)
      (pt_sequence trade) (sv_db st) = Inr db" and db: "tables_ok db" "\<And>w. mirrors (sv_db st) w \<Longrightarrow> mirrors db w"
      "\<And>i. find_signal db i = find_signal (sv_db st) i"
    by blast
  have "cache_ok db (od_put (tv_symbol v) (checkpointed trade v) (sv_signals st))"
    by (rule cache_put [OF cache_mono [OF cache db(2)] m' [OF db(2) [OF m]] symb'])
  with run db(1,3) show ?thesis by (simp add: checkpoint_def service_ok_def touches_def)
qed

lemma event_keeps_tables:
  assumes ok: "tables_ok db" and e: "event_shape e" "ev_status_from e = Some (ev_status_to e)"
    "find_event db (ev_key e) = None" "ev_signal_id e < db_next_signal_id db"
  shows "tables_ok (add_event e db)" and "mirrors db w \<Longrightarrow> mirrors (add_event e db) w"
proof -
  have find: "find_signal (add_event e db) i = find_signal db i" "find_trade (add_event e db) i = find_trade db i"
    "history (add_event e db) i = history db i" for i
    using e(2) by (simp_all add: find_signal_def find_trade_def history_def)
  have "keys_ok (add_event e db)"
    using ok e(3,4) by (auto simp: tables_ok_def db_ok_def keys_ok_def find_event_None)
  then show "tables_ok (add_event e db)"
    using ok e(1) by (simp add: tables_ok_def db_ok_def one_active_row_per_symbol_def signal_history_ok_def
        signal_trade_ok_def original_stop_def find)
  show "mirrors db w \<Longrightarrow> mirrors (add_event e db) w" by (simp add: mirrors_def find)
qed

lemma record_tracking_event_ok:
  assumes ok: "tables_ok db" and s: "find_signal db i = Some s"
  shows "\<exists>r db'. record_tracking_event i time (signal_key i (''fallback:'' @ show_int n)) et pay db = Inr (r, db') \<and>
    tables_ok db' \<and> (\<forall>w. mirrors db w \<longrightarrow> mirrors db' w) \<and> (\<forall>i. find_signal db' i = find_signal db i)"
proof (cases "find_event db (signal_key i (''fallback:'' @ show_int n))")
  case (Some e)
  then show ?thesis using ok
    by (intro exI [of _ False] exI [of _ db]) (simp add: record_tracking_event_def)
next
  case None
  let ?e = "\<lparr>ev_signal_id = i, ev_event_type = et, ev_status_from = Some (sr_status s),
    ev_status_to = sr_status s, ev_event_time = time, ev_source_event_id = None,
    ev_key = signal_key i (''fallback:'' @ show_int n), ev_payload = pay\<rparr>"
  have "i < db_next_signal_id db"
    using ok s by (auto simp: tables_ok_def db_ok_def keys_ok_def find_signal_iff)
  then have "tables_ok (add_event ?e db)" "\<And>w. mirrors db w \<Longrightarrow> mirrors (add_event ?e db) w"
    using event_keeps_tables [OF ok, of ?e] None by (auto simp: event_shape_def)
  moreover have "find_signal (add_event ?e db) i = find_signal db i" for i by (simp add: find_signal_def)
  ultimately show ?thesis using s None by (auto simp: record_tracking_event_def)
qed

section \<open>The operations\<close>

text \<open>The form in which every operation is shown to succeed.\<close>

definition keeps_service :: "string \<Rightarrow> service \<Rightarrow> service res \<Rightarrow> bool" where
  "keeps_service symb st m \<longleftrightarrow> (\<exists>st'. m = Inr st' \<and> service_ok st' \<and> touches symb st st')"

lemma keeps_service_Inr: "keeps_service symb st (Inr st') \<longleftrightarrow> service_ok st' \<and> touches symb st st'"
  by (simp add: keeps_service_def)

lemma keeps_service_bind:
  "keeps_service symb st m \<Longrightarrow>
    (\<And>st'. service_ok st' \<Longrightarrow> touches symb st st' \<Longrightarrow> keeps_service symb st' (f st')) \<Longrightarrow>
    keeps_service symb st (rbind m f)"
  unfolding keeps_service_def by (metis rbind_Inr touches_trans)

lemma keeps_service_from: "touches symb a b \<Longrightarrow> keeps_service symb b m \<Longrightarrow> keeps_service symb a m"
  by (auto simp: keeps_service_def intro: touches_trans)

lemma service_ok_bookkeeping:
  "service_ok (st\<lparr>sv_pending := p\<rparr>) \<longleftrightarrow> service_ok st" "service_ok (st\<lparr>sv_ready := r\<rparr>) \<longleftrightarrow> service_ok st"
  "service_ok (st\<lparr>sv_subscribed := u\<rparr>) \<longleftrightarrow> service_ok st" "service_ok (st\<lparr>sv_checkpoints := c\<rparr>) \<longleftrightarrow> service_ok st"
  by (simp_all add: service_ok_def)

lemma tracked_view:
  assumes "service_ok st" "map_of (sv_signals st) symb = Some v"
  shows "tv_risk_amount v \<noteq> 0" "\<bar>tv_taker_fee_rate v\<bar> < 1" "tv_symbol v = symb"
    "tv_status v = Sg_Active \<Longrightarrow> tv_current_stop v = tv_stop_loss v" "tv_status v \<in> active_signal_statuses"
    "mirrors (sv_db st) v"
  using assms mirrors_sane [of "sv_db st" v] cache_lookup [of "sv_db st" "sv_signals st" symb v]
  by (auto simp: service_ok_def)

lemma lifecycle_fields [simp]:
  "lc_risk_amount (lifecycle_state_of v) = tv_risk_amount v" "lc_status (lifecycle_state_of v) = tv_status v"
  "lc_taker_fee_rate (lifecycle_state_of v) = tv_taker_fee_rate v" "lc_symbol (lifecycle_state_of v) = tv_symbol v"
  "lc_current_stop (lifecycle_state_of v) = tv_current_stop v" "lc_stop_loss (lifecycle_state_of v) = tv_stop_loss v"
  by (simp_all add: lifecycle_state_of_def)

lemma process_trade_ok:
  assumes ok: "service_ok st" shows "keeps_service (pt_symbol trade) st (process_trade env force trade st)"
proof (cases "map_of (sv_signals st) (pt_symbol trade)")
  case None
  with ok show ?thesis by (simp add: process_trade_def keeps_service_Inr)
next
  case (Some v)
  let ?symb = "pt_symbol trade"
  note v = tracked_view [OF ok Some]
  obtain as where as: "evaluate_public_trade (lifecycle_state_of v) trade = Inr as"
    using evaluated_returns [of "lifecycle_state_of v" trade] v(1,2) by (auto simp: returns_iff)
  have "walk signal_transitions (tv_status v) (map la_target as) (last (tv_status v # map la_target as))"
    using evaluated_walk [OF as] by simp
  then obtain st' where run: "run_actions (trade_action trade) ?symb 0 as v st =
      Inr (map_of (sv_signals st') ?symb, st')" and st': "service_ok st'" "touches ?symb st st'"
    using run_actions_ok [OF performs_trade ok Some, of as] evaluated_benign [OF as] by blast
  have unfolded: "process_trade env force trade st = (case map_of (sv_signals st') ?symb of None \<Rightarrow> Inr st'
    | Some w \<Rightarrow> if force \<and> monotonic_now env -
          (case map_of (sv_checkpoints st') ?symb of None \<Rightarrow> 0 | Some t \<Rightarrow> t) \<ge> checkpoint_interval env
        then checkpoint env w trade st' else Inr st')"
    by (simp add: process_trade_def Some as run)
  show ?thesis
  proof (cases "map_of (sv_signals st') ?symb")
    case None
    with st' show ?thesis by (simp add: unfolded keeps_service_Inr)
  next
    case (Some w)
    have "tv_symbol w = ?symb" by (rule tracked_view(3) [OF st'(1) Some])
    with checkpoint_ok [OF st'(1) Some, of env trade] st' show ?thesis
      by (auto simp: unfolded Some keeps_service_def intro: touches_trans)
  qed
qed

lemma replay_trades_ok:
  "service_ok st \<Longrightarrow> \<forall>t \<in> set ts. pt_symbol t = symb \<Longrightarrow> keeps_service symb st (replay_trades env symb ts st)"
proof (induction ts arbitrary: st)
  case (Cons t ts)
  then show ?case using process_trade_ok [of st t env False]
    by (auto simp: keeps_service_Inr intro: keeps_service_bind)
qed (simp add: keeps_service_Inr)

lemma replay_and_checkpoint_ok:
  assumes "service_ok st" "\<forall>t \<in> set ts. pt_symbol t = symb"
  shows "keeps_service symb st (replay_and_checkpoint env symb ts st)"
  unfolding replay_and_checkpoint_def
proof (rule keeps_service_bind [OF replay_trades_ok [OF assms]])
  fix st' assume st': "service_ok st'"
  show "keeps_service symb st' (case map_of (sv_signals st') symb of None \<Rightarrow> Inr st'
       | Some v \<Rightarrow> if ts = [] then Inr st' else checkpoint env v (last ts) st')"
  proof (cases "map_of (sv_signals st') symb")
    case (Some v)
    have "tv_symbol v = symb" by (rule tracked_view(3) [OF st' Some])
    with checkpoint_ok [OF st' Some, of env "last ts"] Some st' show ?thesis
      by (auto simp: keeps_service_def)
  qed (use st' in \<open>simp add: keeps_service_Inr\<close>)
qed

lemma run_candles_ok:
  assumes "service_ok st"
  shows "\<exists>tracked st'. run_candles reason symb cs st = Inr (tracked, st') \<and> service_ok st' \<and> touches symb st st'"
  using assms
proof (induction cs arbitrary: st)
  case (Cons c cs)
  show ?case
  proof (cases "map_of (sv_signals st) symb")
    case None
    with Cons.prems show ?thesis by (intro exI [of _ False] exI [of _ st]) simp
  next
    case (Some v)
    note v = tracked_view [OF Cons.prems Some]
    obtain as where as: "evaluate_closed_candle (lifecycle_state_of v) c = Inr as"
      using closed_candle_returns [of "lifecycle_state_of v" c] v(1,2,4) by (auto simp: returns_iff)
    have "walk signal_transitions (tv_status v) (map la_target as) (last (tv_status v # map la_target as))"
      using candle_targets_walk [OF closed_candle_targets [OF as]] by simp
    then obtain st' where run: "run_actions (candle_action reason c) symb 0 as v st =
        Inr (map_of (sv_signals st') symb, st')" and st': "service_ok st'" "touches symb st st'"
      using run_actions_ok [OF performs_candle Cons.prems Some, of as] closed_candle_benign [OF as] by blast
    with Cons.IH [OF st'(1)] Some as show ?thesis
      by (cases "map_of (sv_signals st') symb") (auto intro: touches_trans)
  qed
qed auto

text \<open>What the surroundings are relied on for: the trades they answer for a symbol are trades of that
  symbol.\<close>

definition own_trades :: "surroundings \<Rightarrow> bool" where
  "own_trades env \<longleftrightarrow> (\<forall>symb. (\<forall>t \<in> set (rest_trades env symb). pt_symbol t = symb) \<and>
     (\<forall>start. \<forall>t \<in> set (buffered_trades env symb start). pt_symbol t = symb))"

lemma recover_with_candles_ok:
  assumes ok: "service_ok st" and v: "map_of (sv_signals st) symb = Some v" and env: "own_trades env"
  shows "\<exists>r st'. recover_with_candles env v anchor reason st = Inr (r, st') \<and> service_ok st' \<and> touches symb st st'"
proof -
  let ?start = "minute_floor anchor" and ?ends = "minute_floor (now_utc env) - minutes 1"
  let ?cs = "candle_window env symb ?start ?ends"
  have symb: "tv_symbol v = symb" by (rule tracked_view(3) [OF ok v])
  obtain tracked st1 where run: "run_candles reason symb ?cs st = Inr (tracked, st1)" and st1: "service_ok st1"
    and kept: "touches symb st st1"
    using run_candles_ok [OF ok] by blast
  let ?st1 = "st1\<lparr>sv_pending := od_pop symb (sv_pending st1)\<rparr>"
  have tables: "tables_ok (sv_db st1)" "cache_ok (sv_db st1) (sv_signals st1)" using st1 by (simp_all add: service_ok_def)
  have "find_signal (sv_db st1) (tv_id v) \<noteq> None"
    using tracked_view(6) [OF ok v] kept by (auto simp: mirrors_def touches_def)
  then obtain s where s: "find_signal (sv_db st1) (tv_id v) = Some s" by blast
  have key: "recovery_key v anchor = signal_key (tv_id v) (''fallback:'' @ show_int (epoch_millis anchor))"
    by (simp add: recovery_key_def signal_key_def)
  obtain r db where rec: "record_tracking_event (tv_id v) (?ends + minutes 1) (recovery_key v anchor)
      ''trade_coverage_fallback_recovered'' (Window_Values reason ?start ?ends (length ?cs)) (sv_db st1) = Inr (r, db)"
    and db: "tables_ok db" "\<And>w. mirrors (sv_db st1) w \<Longrightarrow> mirrors db w" "\<And>i. find_signal db i = find_signal (sv_db st1) i"
    unfolding key using record_tracking_event_ok [OF tables(1) s] by blast
  have 1: "service_ok (?st1\<lparr>sv_db := db\<rparr>)" using db tables(2) cache_mono by (auto simp: service_ok_def)
  have 2: "touches symb st (?st1\<lparr>sv_db := db\<rparr>)" using kept db(3) by (simp add: touches_def)
  have 3: "touches symb st ?st1" using kept by (simp add: touches_def)
  obtain st2 where
    "replay_and_checkpoint env symb (buffered_trades env symb (?ends + minutes 1)) (?st1\<lparr>sv_db := db\<rparr>) = Inr st2"
    "service_ok st2" "touches symb st st2"
    using replay_and_checkpoint_ok [OF 1, of "buffered_trades env symb (?ends + minutes 1)" symb env] env
      touches_trans [OF 2] unfolding keeps_service_def own_trades_def by blast
  with run rec ok st1 3 show ?thesis
    by (auto simp: recover_with_candles_def Let_def symb service_ok_bookkeeping)
qed

lemma establish_coverage_ok:
  assumes ok: "service_ok st" and env: "own_trades env"
  shows "keeps_service symb st (establish_coverage env symb st)"
proof (cases "map_of (sv_signals st) symb")
  case None
  with ok show ?thesis by (simp add: establish_coverage_def keeps_service_Inr)
next
  case v: (Some v)
  show ?thesis
  proof (cases "map_of (sv_pending st) symb")
    case None
    with ok v show ?thesis by (simp add: establish_coverage_def keeps_service_Inr)
  next
    case anchor: (Some anchor)
    define cov where "cov = merge_trade_coverage (rest_trades env symb) (buffered_trades env symb anchor) anchor"
    have key: "coverage_key v anchor = signal_key (tv_id v) (''coverage:'' @ show_int (epoch_millis anchor))"
      by (simp add: coverage_key_def signal_key_def)
    have pop: "keeps_service symb st' (Inr (st'\<lparr>sv_pending := p\<rparr>))" if "service_ok st'" for st' p
      using that by (simp add: keeps_service_Inr service_ok_bookkeeping touches_def)
    have move: "keeps_service symb st (service_transition v rq st)"
      if "tv_status v = Sg_Preparing" "rq_signal_id rq = tv_id v" "rq_key rq = coverage_key v anchor"
        "rq_target rq = Sg_Active \<or> rq_target rq = Sg_Coverage_Failed" "rq_current_stop rq = None" for rq
    proof -
      have "sound_request v rq"
        using that unfolding sound_request_def transition_key_def key by auto
      from service_transition_ok [OF ok v this] show ?thesis unfolding keeps_service_def by metis
    qed
    show ?thesis
    proof (cases "cov_proven cov")
      case False
      show ?thesis
      proof (cases "tv_status v = Sg_Preparing")
        case True
        let ?rq = "(plain_request v Sg_Coverage_Failed (now_utc env) (coverage_key v anchor)
          ''trade_coverage_failed'')\<lparr>rq_resolution_note := cov_reason cov\<rparr>"
        have "keeps_service symb st (rbind (service_transition v ?rq st)
            (\<lambda>st'. Inr (st'\<lparr>sv_pending := od_pop symb (sv_pending st')\<rparr>)))"
          using True by (intro keeps_service_bind move pop) (simp_all add: plain_request_def)
        with False True v anchor show ?thesis
          by (simp add: establish_coverage_def Let_def flip: cov_def)
      next
        case other: False
        show ?thesis
          using recover_with_candles_ok [OF ok v env, of anchor "case cov_reason cov of None \<Rightarrow> ''unproven'' | Some r \<Rightarrow> r"]
            False other v anchor
          by (auto simp: establish_coverage_def Let_def keeps_service_def simp flip: cov_def)
      qed
    next
      case True
      let ?rq = "(plain_request v Sg_Active anchor (coverage_key v anchor)
        ''trade_coverage_ready'')\<lparr>rq_payload := Trade_Count (length (cov_trades cov))\<rparr>"
      have own: "\<forall>t \<in> set (cov_trades cov). pt_symbol t = symb"
        using covered_history(3) [OF True [unfolded cov_def]] env unfolding own_trades_def cov_def by fastforce
      have "keeps_service symb st (rbind (if tv_status v = Sg_Preparing then service_transition v ?rq st else Inr st)
          (\<lambda>st'. replay_and_checkpoint env symb (cov_trades cov)
            (st'\<lparr>sv_pending := od_pop symb (sv_pending st')\<rparr>)))"
      proof (rule keeps_service_bind)
        show "keeps_service symb st (if tv_status v = Sg_Preparing then service_transition v ?rq st else Inr st)"
          using ok by (auto simp: keeps_service_Inr plain_request_def intro: move)
        fix st' assume "service_ok st'"
        then have st': "service_ok (st'\<lparr>sv_pending := od_pop symb (sv_pending st')\<rparr>)"
          by (simp add: service_ok_bookkeeping)
        show "keeps_service symb st' (replay_and_checkpoint env symb (cov_trades cov)
            (st'\<lparr>sv_pending := od_pop symb (sv_pending st')\<rparr>))"
          by (rule keeps_service_from [OF _ replay_and_checkpoint_ok [OF st' own]]) (simp add: touches_def)
      qed
      with True v anchor show ?thesis
        by (simp add: establish_coverage_def Let_def flip: cov_def)
    qed
  qed
qed

lemma handle_event_ok:
  assumes ok: "service_ok st" and env: "own_trades env"
  shows "\<exists>st'. handle_event env event st = Inr st' \<and> service_ok st'"
proof (cases event)
  case (Disconnected_Event symb)
  with ok show ?thesis
    by (auto simp: handle_event_def Let_def service_ok_bookkeeping split: option.split)
next
  case (Ready_Event symb)
  have "service_ok (st\<lparr>sv_ready := insert symb (sv_ready st)\<rparr>)" using ok by (simp add: service_ok_bookkeeping)
  from establish_coverage_ok [OF this env, of symb] Ready_Event show ?thesis
    by (auto simp: handle_event_def keeps_service_def)
next
  case (Trade_Event trade)
  with process_trade_ok [OF ok, of trade env True] ok show ?thesis
    by (auto simp: handle_event_def keeps_service_def)
qed

lemma expire_ok:
  assumes ok: "service_ok st" and v: "map_of (sv_signals st) symb = Some v"
    and s: "tv_status v = Sg_Preparing \<or> tv_status v = Sg_Active"
  shows "keeps_service symb st (expire v st)"
proof -
  have "transition_key (expiry_key v) (tv_id v) Sg_Expired"
    by (simp add: transition_key_def expiry_key_def signal_key_def)
  then have "sound_request v (plain_request v Sg_Expired (tv_expires_at v) (expiry_key v) ''signal_expired'')"
    using s by (auto simp: sound_request_def plain_request_def)
  from service_transition_ok [OF ok v this] show ?thesis unfolding expire_def keeps_service_def by metis
qed

lemma reconcile_signal_ok:
  assumes ok: "service_ok st" and env: "own_trades env" and v: "map_of (sv_signals st) symb = Some v"
  shows "keeps_service symb st (reconcile_signal env st (symb, v))"
  using expire_ok [OF ok v] establish_coverage_ok [OF ok env, of symb] ok
  by (auto simp: reconcile_signal_def keeps_service_Inr service_ok_bookkeeping subscribe_def touches_def)

lemma reconcile_loop_ok:
  assumes "own_trades env" "service_ok st" "distinct (map fst rs)"
    and "\<forall>(x, v) \<in> set rs. map_of (sv_signals st) x = Some v"
  shows "\<exists>st'. foldM (reconcile_signal env) st rs = Inr st' \<and> service_ok st'"
  using assms(2-)
proof (induction rs arbitrary: st)
  case (Cons r rs)
  obtain x v where r: "r = (x, v)" by fastforce
  from Cons.prems r obtain st1 where st1: "reconcile_signal env st r = Inr st1" "service_ok st1" "touches x st st1"
    using reconcile_signal_ok [OF Cons.prems(1) assms(1), of x v] by (auto simp: keeps_service_def)
  have "\<forall>(y, w) \<in> set rs. map_of (sv_signals st1) y = Some w"
  proof clarify
    fix y w assume y: "(y, w) \<in> set rs"
    with Cons.prems(2) r have "y \<noteq> x" by (auto simp: image_iff)
    with st1(3) Cons.prems(3) y show "map_of (sv_signals st1) y = Some w" by (fastforce simp: touches_def)
  qed
  with Cons.IH [OF st1(2)] Cons.prems(2) st1(1) show ?case by simp
qed simp

lemma tracked_mirrors:
  assumes "tables_ok db" "v \<in> set (list_tracking_signals db)" shows "mirrors db v"
proof -
  from assms(2) obtain s t where st: "s \<in> set (db_signals db)" "t \<in> set (db_trades db)" "vt_signal_id t = sr_id s"
    "sr_status s \<in> active_signal_statuses" and v: "v = tracking_view_of s t"
    by (auto simp: list_tracking_signals_def tracked_rows_def)
  have keys: "keys_ok db" using assms(1) by (simp add: tables_ok_def db_ok_def)
  have "tv_id v = sr_id s" by (simp add: v tracking_view_of_def)
  with st v show ?thesis unfolding mirrors_def by (auto simp: find_signal_iff [OF keys] find_trade_iff [OF keys])
qed

lemma current_signals_ok: "tables_ok db \<Longrightarrow> cache_ok db (current_signals db)"
proof -
  assume ok: "tables_ok db"
  have "cache_ok db d \<Longrightarrow> \<forall>v \<in> set vs. mirrors db v \<Longrightarrow>
      cache_ok db (foldl (\<lambda>d v. od_put (tv_symbol v) v d) d vs)" for d vs
    by (induction vs arbitrary: d) (auto intro: cache_put)
  moreover have "cache_ok db []" by (simp add: cache_ok_def)
  ultimately show ?thesis using tracked_mirrors [OF ok] by (simp add: current_signals_def)
qed

lemma reconcile_ok:
  assumes ok: "service_ok st" and env: "own_trades env"
  shows "\<exists>st'. reconcile env st = Inr st' \<and> service_ok st'"
proof -
  let ?cur = "current_signals (sv_db st)"
  let ?gone = "filter (\<lambda>s. map_of ?cur s = None) (map fst (sv_signals st))"
  let ?st = "(foldl (\<lambda>s symb. forget_symbol symb s) st ?gone)\<lparr>sv_signals := ?cur\<rparr>"
  have db: "sv_db (foldl (\<lambda>s symb. forget_symbol symb s) a xs) = sv_db a" for a xs
    by (induction xs arbitrary: a) (simp_all add: forget_symbol_def unsubscribe_def)
  have cur: "cache_ok (sv_db st) ?cur" using ok current_signals_ok by (simp add: service_ok_def)
  then have "service_ok ?st" using ok by (simp add: service_ok_def db)
  moreover have "distinct (map fst ?cur)" using cur by (simp add: cache_ok_def)
  ultimately show ?thesis
    using reconcile_loop_ok [OF env, of ?st ?cur] by (auto simp: reconcile_def Let_def)
qed

section \<open>Publication beside the service\<close>

definition candidates_sane :: "(candidate_row \<times> signal_candidate) list \<Rightarrow> bool" where
  "candidates_sane cs \<longleftrightarrow> (\<forall>(record, c) \<in> set cs. ca_symbol c = cr_symbol record \<and>
     the (cr_risk_amount record) \<noteq> 0 \<and> \<bar>derived_fee_rate record\<bar> < 1)"

definition extends :: "signal_db \<Rightarrow> signal_db \<Rightarrow> bool" where
  "extends db db' \<longleftrightarrow> (\<forall>w. mirrors db w \<longrightarrow> mirrors db' w)"

lemma publish_one_ok:
  assumes ok: "tables_ok (ps_db ps)" and run: "publish_one k now ps (record, c) = Inr ps'"
    and sane: "the (cr_risk_amount record) \<noteq> 0" "\<bar>derived_fee_rate record\<bar> < 1"
  shows "tables_ok (ps_db ps') \<and> extends (ps_db ps) (ps_db ps')"
  using run
proof (rule publish_oneE)
  fix signal trade event
  let ?db = "ps_db ps" and ?d = "evaluate_publication c (ps_observations ps) now k"
  assume db': "ps_db ps' = ?db\<lparr>db_signals := db_signals ?db @ [signal], db_trades := db_trades ?db @ trade,
       db_events := db_events ?db @ [event], db_next_signal_id := db_next_signal_id ?db + 1\<rparr>"
    and sig: "sr_id signal = db_next_signal_id ?db"
      "sr_status signal = (if pd_allowed ?d then Sg_Preparing else Sg_Suppressed)"
      "sr_version signal = 1" "sr_closed_at signal = None"
    and unique: "\<not> violates_unique signal (ev_key event) ?db"
    and trade: "if pd_allowed ?d then \<exists>t. trade = [t] \<and> vt_signal_id t = sr_id signal \<and>
       vt_status t = Vt_Waiting_Entry \<and> vt_resolved_at t = None \<and> vt_current_stop t = sr_stop_loss signal else trade = []"
    and event: "ev_signal_id event = sr_id signal" "ev_status_from event = None" "ev_status_to event = sr_status signal"
    and key: "ev_key event = ''candidate:'' @ show_int (cr_id record) @ '':publication''"
    and new: "sr_risk_amount signal = the (cr_risk_amount record)" "sr_taker_fee_rate signal = derived_fee_rate record"
  have keys: "keys_ok ?db" using ok by (simp add: tables_ok_def db_ok_def)
  have db_ok': "db_ok (ps_db ps')"
    using ok publish_one_tables [OF _ db' sig unique trade event] by (simp add: tables_ok_def)
  have fresh: "find_signal ?db (sr_id signal) = None" "find_trade ?db (sr_id signal) = None"
    using keys by (fastforce simp: find_signal_def find_trade_def find_None_iff keys_ok_def sig(1))+
  have find_old: "find_signal (ps_db ps') i = find_signal ?db i" "find_trade (ps_db ps') i = find_trade ?db i"
    if "i \<noteq> sr_id signal" for i
    using that trade by (auto simp: find_signal_def find_trade_def db' find_append split: option.split if_splits)
  have find_new: "find_trade (ps_db ps') (sr_id signal) = List.find (\<lambda>t. vt_signal_id t = sr_id signal) trade"
    using fresh(2) by (simp add: find_trade_def db' find_append)
  have "event_shape event" using key by (auto simp: event_shape_def)
  moreover have "row_sane s \<and> original_stop (ps_db ps') s" if "s \<in> set (db_signals (ps_db ps'))" for s
  proof (cases "s \<in> set (db_signals ?db)")
    case True
    then have "sr_id s \<noteq> sr_id signal" using keys by (auto simp: keys_ok_def sig(1))
    with True ok show ?thesis by (simp add: tables_ok_def original_stop_def find_old)
  next
    case False
    with that have "s = signal" by (simp add: db')
    then show ?thesis
      using new sane trade sig(2) by (auto simp: row_sane_def original_stop_def find_new split: if_splits)
  qed
  ultimately have "tables_ok (ps_db ps')" using ok db_ok' by (simp add: tables_ok_def db')
  moreover have "mirrors (ps_db ps') w" if "mirrors ?db w" for w
  proof -
    have "tv_id w \<noteq> sr_id signal" using that fresh by (auto simp: mirrors_def)
    with that show ?thesis by (simp add: mirrors_def find_old)
  qed
  ultimately show "tables_ok (ps_db ps') \<and> extends ?db (ps_db ps')" by (simp add: extends_def)
qed

lemma publish_ok:
  assumes ok: "tables_ok db" and cs: "candidates_sane cs" and run: "publish_candidates cs k now db = Inr (n, db')"
  shows "tables_ok db' \<and> extends db db'"
proof (cases "filter (\<lambda>(_, c). ca_status c = Accepted \<and> ca_trade_plan c \<noteq> None) cs = []")
  case True
  with ok run show ?thesis unfolding publish_candidates_def Let_def by (simp only: if_True) (simp add: extends_def)
next
  case False
  let ?acc = "filter (\<lambda>(_, c). ca_status c = Accepted \<and> ca_trade_plan c \<noteq> None) cs"
  from False run obtain ps where loop: "foldM (publish_one k now)
      \<lparr>ps_db = db, ps_observations = map observation_of (observed_rows db k now),
         ps_prepared = 0, ps_suppressed = 0\<rparr> ?acc = Inr ps" and db': "db' = ps_db ps"
    unfolding publish_candidates_def Let_def by (auto simp only: if_False rbind_eq_Inr sum.inject prod.inject)
  have "tables_ok (ps_db ps) \<and> extends db (ps_db ps)"
  proof (rule foldM_invariant [OF loop, where P = "\<lambda>ps. tables_ok (ps_db ps) \<and> extends db (ps_db ps)"])
    show "tables_ok (ps_db \<lparr>ps_db = db, ps_observations = map observation_of (observed_rows db k now),
        ps_prepared = 0, ps_suppressed = 0\<rparr>) \<and> extends db (ps_db \<lparr>ps_db = db,
        ps_observations = map observation_of (observed_rows db k now), ps_prepared = 0, ps_suppressed = 0\<rparr>)"
      using ok by (simp add: extends_def)
  next
    fix s x s' assume "x \<in> set ?acc" and step: "tables_ok (ps_db s) \<and> extends db (ps_db s)"
      "publish_one k now s x = Inr s'"
    then have "x \<in> set cs" by simp
    with cs have "the (cr_risk_amount (fst x)) \<noteq> 0" "\<bar>derived_fee_rate (fst x)\<bar> < 1"
      by (auto simp: candidates_sane_def)
    with step publish_one_ok [of s k now "fst x" "snd x" s']
    show "tables_ok (ps_db s') \<and> extends db (ps_db s')" by (simp add: extends_def)
  qed
  then show ?thesis by (simp add: db')
qed

section \<open>The running system\<close>

definition started :: "signal_db \<Rightarrow> service" where
  "started db = \<lparr>sv_db = db, sv_signals = [], sv_pending = [], sv_checkpoints = [], sv_ready = {}, sv_subscribed = []\<rparr>"

text \<open>What can happen: a pass of \<open>_reconcile\<close>, an event of the stream, the publication of candidates by
  the analysis process, and a restart, after which only the tables are left. A publication that
  raises changes nothing.\<close>

inductive reachable :: "signal_db \<Rightarrow> service \<Rightarrow> bool" for db where
  reach_start: "reachable db (started db)"
| reach_reconcile: "reachable db st \<Longrightarrow> own_trades env \<Longrightarrow> reconcile env st = Inr st' \<Longrightarrow> reachable db st'"
| reach_event: "reachable db st \<Longrightarrow> own_trades env \<Longrightarrow> handle_event env event st = Inr st' \<Longrightarrow> reachable db st'"
| reach_publish: "reachable db st \<Longrightarrow> candidates_sane cs \<Longrightarrow>
    publish_candidates cs k now (sv_db st) = Inr (n, db') \<Longrightarrow> reachable db (st\<lparr>sv_db := db'\<rparr>)"
| reach_restart: "reachable db st \<Longrightarrow> reachable db (started (sv_db st))"

lemma started_ok: "tables_ok db \<Longrightarrow> service_ok (started db)"
  by (simp add: started_def service_ok_def cache_ok_def)

lemma reachable_ok:
  assumes "reachable db st" "tables_ok db" shows "service_ok st"
  using assms
proof (induction rule: reachable.induct)
  case reach_start
  then show ?case by (rule started_ok)
next
  case (reach_reconcile st env st')
  then show ?case using reconcile_ok [of st env] by auto
next
  case (reach_event st env event st')
  then show ?case using handle_event_ok [of st env event] by auto
next
  case (reach_publish st cs k now n db')
  then have "tables_ok db' \<and> extends (sv_db st) db'"
    using publish_ok [of "sv_db st" cs k now n db'] by (simp add: service_ok_def)
  with reach_publish show ?case by (auto simp: service_ok_def extends_def intro: cache_mono)
next
  case (reach_restart st)
  then show ?case using started_ok [of "sv_db st"] by (simp add: service_ok_def)
qed

section \<open>A sample\<close>

definition sample_trade :: "string \<Rightarrow> dec \<Rightarrow> instant \<Rightarrow> public_trade" where
  "sample_trade i price time = \<lparr>pt_trade_id = i, pt_symbol = ''BTCUSDT'', pt_price = price, pt_size = 1,
     pt_side = Buy, pt_executed_at = time, pt_sequence = time, pt_is_block_trade = False,
     pt_is_rpi_trade = False\<rparr>"

definition sample_history :: "public_trade list" where
  "sample_history = [sample_trade ''a'' 110 0, sample_trade ''b'' 108 5, sample_trade ''c'' 100 10]"

definition sample_env :: surroundings where
  "sample_env = \<lparr>now_utc = 20,
     rest_trades = (\<lambda>s. if s = ''BTCUSDT'' then sample_history else []),
     buffered_trades = (\<lambda>s _. if s = ''BTCUSDT'' then sample_history else []),
     candle_window = (\<lambda>_ _ _. []), monotonic_now = 1000000, checkpoint_interval = 10000000\<rparr>"

lemmas sample_defs = sample_row_defs sample_trade_def
  sample_history_def sample_env_def

lemma sample_own_trades: "own_trades sample_env"
  by (simp add: own_trades_def sample_defs)

lemma sample_tables_ok: "tables_ok sample_db"
proof -
  have "of_char (CHR ''7'') = (55 :: nat)" by simp
  then have "(char_of (55 :: nat) :: char) = CHR ''7''" by (metis char_of_char)
  then have "show_int 7 = ''7''" by (simp add: show_int_def show_nat.simps)
  then have "event_shape \<lparr>ev_signal_id = 1, ev_event_type = ''signal_prepared'', ev_status_from = None,
       ev_status_to = Sg_Preparing, ev_event_time = 0, ev_source_event_id = None,
       ev_key = ''candidate:7:publication'', ev_payload = No_Payload\<rparr>"
    unfolding event_shape_def by (intro disjI2 exI [of _ 7]) simp
  then show ?thesis
    by (simp add: tables_ok_def db_ok_def keys_ok_def one_active_row_per_symbol_def signal_history_ok_def
        signal_trade_ok_def row_sane_def original_stop_def history_def find_trade_def status_sets sample_defs)
qed

section \<open>Trades out of the queue\<close>

text \<open>The first target of an entered signal: the view after the action carries the time of the trade.\<close>

lemma first_target_books_trade_time:
  assumes ok: "service_ok st" and v: "map_of (sv_signals st) symb = Some v" "tv_status v = Sg_Entered"
    and a: "tp1_action (lifecycle_state_of v) = Inr a"
  shows "\<exists>st' w. trade_action trade 0 a v st = Inr st' \<and> service_ok st' \<and> map_of (sv_signals st') symb = Some w \<and>
    tv_status w = Sg_Tp1_Reached \<and> tv_tp1_reached_at w = Some (pt_executed_at trade) \<and> tv_entered_at w = tv_entered_at v"
proof -
  obtain b where b: "booked_result v a (pt_executed_at trade) = Inr b"
    using booked_ok tracked_view(1) [OF ok v(1)] by blast
  let ?rq = "action_request v a (pt_executed_at trade) (trade_action_key v trade a 0) (Some (pt_trade_id trade))
    (Trade_Values (pt_price trade) (pt_size trade) (pt_sequence trade)) None None b"
  have target: "la_target a = Sg_Tp1_Reached" using a by (rule action_targets(2))
  then have rq: "rq_target ?rq = Sg_Tp1_Reached" "rq_event_time ?rq = pt_executed_at trade"
    by (simp_all add: action_request_def plain_request_def)
  have "transition_key (trade_action_key v trade a 0) (tv_id v) (la_target a)"
    by (auto simp: transition_key_def trade_action_key_def action_key_def)
  then have "sound_request v ?rq"
    using target v(2) by (simp add: sound_request_def action_request_def plain_request_def)
  from service_transition_ok [OF ok v(1) this] rq obtain st' where
    "service_transition v ?rq st = Inr st'" "service_ok st'" "map_of (sv_signals st') symb = Some (moved_view ?rq v)"
    by (auto simp: status_sets)
  with b rq show ?thesis
    by (intro exI [of _ st'] exI [of _ "moved_view ?rq v"])
      (simp add: trade_action_def apply_action_def moved_view_def)
qed

lemma process_first_target:
  assumes ok: "service_ok st" and v: "map_of (sv_signals st) (pt_symbol trade) = Some v" "tv_status v = Sg_Entered"
    and price: "\<not> beyond_stop (tv_direction v) (tv_current_stop v) (pt_price trade)"
      "target_reached (tv_direction v) (tv_take_profit_1 v) (pt_price trade)"
      "\<not> target_reached (tv_direction v) (tv_take_profit_2 v) (pt_price trade)"
  shows "\<exists>st' w. process_trade env force trade st = Inr st' \<and> map_of (sv_signals st') (pt_symbol trade) = Some w \<and>
    tv_status w = Sg_Tp1_Reached \<and> tv_tp1_reached_at w = Some (pt_executed_at trade) \<and> tv_entered_at w = tv_entered_at v"
proof -
  let ?symb = "pt_symbol trade" and ?lc = "lifecycle_state_of v"
  note view = tracked_view [OF ok v(1)]
  obtain a where a: "tp1_action ?lc = Inr a" using tp1_ok [of ?lc] view(1,2) by auto
  have "evaluate_public_trade ?lc trade = Inr [a]"
    using v(2) price a view(3) by (simp add: evaluate_public_trade_def Let_def lifecycle_state_of_def)
  moreover obtain st' w where st': "trade_action trade 0 a v st = Inr st'" "service_ok st'" "map_of (sv_signals st') ?symb = Some w"
      "tv_status w = Sg_Tp1_Reached" "tv_tp1_reached_at w = Some (pt_executed_at trade)" "tv_entered_at w = tv_entered_at v"
    using first_target_books_trade_time [OF ok v a] by blast
  ultimately have run: "process_trade env force trade st = (if force \<and> monotonic_now env -
          (case map_of (sv_checkpoints st') ?symb of None \<Rightarrow> 0 | Some t \<Rightarrow> t) \<ge> checkpoint_interval env
        then checkpoint env w trade st' else Inr st')"
    by (simp add: process_trade_def v(1))
  obtain st'' where cp: "checkpoint env w trade st' = Inr st''" using checkpoint_ok [OF st'(2,3)] by blast
  have "tv_symbol w = ?symb" by (rule tracked_view(3) [OF st'(2,3)])
  with cp have "map_of (sv_signals st'') ?symb = Some (checkpointed trade w)" by (auto simp: checkpoint_def)
  with run cp st'(3-6) show ?thesis by (auto simp: checkpointed_def)
qed

section \<open>Properties\<close>





text \<open>C17: A trade out of the queue is evaluated whatever its time. In every reachable state with an entered
  signal and no pending coverage, a trade at the first target books that target at the time of the
  trade: the handler compares it neither with the entry nor with the last trade it has processed, so
  a copy that the replay of the buffer has already gone past books the target before the entry.\<close>

theorem queued_trade_is_evaluated_again:
  assumes "reachable db st" "tables_ok db"
    and "map_of (sv_signals st) (pt_symbol trade) = Some v" "map_of (sv_pending st) (pt_symbol trade) = None"
    and "tv_status v = Sg_Entered" "\<not> beyond_stop (tv_direction v) (tv_current_stop v) (pt_price trade)"
    and "target_reached (tv_direction v) (tv_take_profit_1 v) (pt_price trade)"
    and "\<not> target_reached (tv_direction v) (tv_take_profit_2 v) (pt_price trade)"
  shows "\<exists>st' w. handle_event env (Trade_Event trade) st = Inr st' \<and> map_of (sv_signals st') (pt_symbol trade) = Some w \<and>
    tv_status w = Sg_Tp1_Reached \<and> tv_tp1_reached_at w = Some (pt_executed_at trade) \<and> tv_entered_at w = tv_entered_at v"
  using process_first_target [OF reachable_ok [OF assms(1,2)] assms(3,5-8)] assms(4) by (simp add: handle_event_def)

text \<open>The replay of the sample's buffer enters at time 10; the queued copy of the trade of time 5 then
  books the first target at time 5.\<close>

lemma queued_trade_is_evaluated_again_witness:
  "\<exists>st st' w. rbind (reconcile sample_env (started sample_db)) (handle_event sample_env (Ready_Event ''BTCUSDT'')) = Inr st \<and>
     handle_event sample_env (Trade_Event (sample_trade ''b'' 108 5)) st = Inr st' \<and>
     map_of (sv_signals st') ''BTCUSDT'' = Some w \<and> tv_status w = Sg_Tp1_Reached \<and>
     tv_entered_at w = Some 10 \<and> tv_tp1_reached_at w = Some 5"
proof -
  let ?trade = "sample_trade ''b'' 108 5"
  let ?ready = "\<lambda>st. case map_of (sv_signals st) ''BTCUSDT'' of None \<Rightarrow> False
    | Some v \<Rightarrow> map_of (sv_pending st) ''BTCUSDT'' = None \<and> tv_status v = Sg_Entered \<and> tv_entered_at v = Some 10 \<and>
        \<not> beyond_stop (tv_direction v) (tv_current_stop v) 108 \<and>
        target_reached (tv_direction v) (tv_take_profit_1 v) 108 \<and> \<not> target_reached (tv_direction v) (tv_take_profit_2 v) 108"
  have "rmap ?ready (rbind (reconcile sample_env (started sample_db)) (handle_event sample_env (Ready_Event ''BTCUSDT''))) = Inr True"
    by code_simp
  then obtain st0 st where st0: "reconcile sample_env (started sample_db) = Inr st0"
      and st: "handle_event sample_env (Ready_Event ''BTCUSDT'') st0 = Inr st" and "?ready st"
    by auto
  then obtain v where v: "map_of (sv_signals st) ''BTCUSDT'' = Some v" "map_of (sv_pending st) ''BTCUSDT'' = None"
      "tv_status v = Sg_Entered" "tv_entered_at v = Some 10" "\<not> beyond_stop (tv_direction v) (tv_current_stop v) 108"
      "target_reached (tv_direction v) (tv_take_profit_1 v) 108" "\<not> target_reached (tv_direction v) (tv_take_profit_2 v) 108"
    by (auto split: option.splits)
  have trade: "pt_symbol ?trade = ''BTCUSDT''" "pt_price ?trade = 108" "pt_executed_at ?trade = 5"
    by (simp_all add: sample_trade_def)
  have "reachable sample_db st"
    using reach_event [OF reach_reconcile [OF reach_start sample_own_trades st0] sample_own_trades st] .
  from queued_trade_is_evaluated_again [OF this sample_tables_ok, of ?trade v sample_env, unfolded trade] v st0 st
  show ?thesis by auto
qed

end
