(* ===== verification/Aggregation.thy ===== *)
theory Aggregation
  imports Lifecycle "HOL-Library.Multiset" "HOL-Library.List_Lexorder" "HOL-Library.Char_ord"
begin

text \<open>
  \<open>src/src/crypto_smc/aggregation/domain.py\<close> and \<open>src/src/crypto_smc/replay/aggregation.py\<close>: the
  candles of the higher timeframes, built from the one-minute candles of an interval when all of
  them are there, and their series per symbol and timeframe. Instants are timezone-aware, so the
  check of \<open>tzinfo\<close> never raises.
\<close>

section \<open>domain.py\<close>

fun timeframe_minutes :: "timeframe \<Rightarrow> int" where
  "timeframe_minutes TF_5m = 5"
| "timeframe_minutes TF_15m = 15"
| "timeframe_minutes TF_1h = 60"
| "timeframe_minutes TF_4h = 240"

definition timeframes :: "timeframe list" where
  "timeframes = [TF_5m, TF_15m, TF_1h, TF_4h]"

record aggregated_candle =
  ag_symbol :: string
  ag_timeframe :: timeframe
  ag_open_time :: instant
  ag_close_time :: instant
  ag_open :: dec
  ag_high :: dec
  ag_low :: dec
  ag_close :: dec
  ag_volume :: dec
  ag_turnover :: dec
  ag_source_count :: int

definition interval_start :: "instant \<Rightarrow> timeframe \<Rightarrow> instant" where
  "interval_start v tf =
     (let minute_index = epoch_seconds v div 60; duration = timeframe_minutes tf
      in seconds ((minute_index - minute_index mod duration) * 60))"

definition interval_end :: "instant \<Rightarrow> timeframe \<Rightarrow> instant" where
  "interval_end start tf = interval_start start tf + minutes (timeframe_minutes tf)"

definition aggregate_candles ::
  "candle_1m list \<Rightarrow> timeframe \<Rightarrow> instant option \<Rightarrow> aggregated_candle option" where
  "aggregate_candles candles tf expected =
     (case sort_key m1_open_time candles of
        [] \<Rightarrow> None
      | first # rest \<Rightarrow>
          let ordered = first # rest; start = interval_start (m1_open_time first) tf in
          if (case expected of None \<Rightarrow> False | Some e \<Rightarrow> start \<noteq> interval_start e tf) then None
          else if int (length ordered) \<noteq> timeframe_minutes tf then None
          else if \<exists>c \<in> set ordered. m1_symbol c \<noteq> m1_symbol first then None
          else if \<exists>(i, c) \<in> set (enumerate0 ordered). m1_open_time c \<noteq> start + one_minute * int i then None
          else Some \<lparr>ag_symbol = m1_symbol first, ag_timeframe = tf, ag_open_time = start,
            ag_close_time = interval_end start tf, ag_open = m1_open first,
            ag_high = Max (set (map m1_high ordered)), ag_low = Min (set (map m1_low ordered)),
            ag_close = m1_close (last ordered), ag_volume = dsum (map m1_volume ordered),
            ag_turnover = dsum (map m1_turnover ordered), ag_source_count = timeframe_minutes tf\<rparr>)"

section \<open>Intervals\<close>

lemma timeframe_minutes_pos [simp]: "0 < timeframe_minutes tf" "0 \<le> timeframe_minutes tf"
  by (cases tf; simp)+

text \<open>On instants from the epoch on, the start of an interval is the floor to a multiple of its
  length.\<close>

lemma interval_start_floor:
  assumes "0 \<le> t" shows "interval_start t tf = t - t mod minutes (timeframe_minutes tf)"
proof -
  define d where "d = timeframe_minutes tf"
  have m: "t div 1000000 div 60 = t div 60000000" by (simp flip: zdiv_zmult2_eq)
  have "0 \<le> d" by (simp add: d_def)
  then have d: "t div 60000000 div d = t div (60000000 * d)" by (simp add: zdiv_zmult2_eq)
  have "interval_start t tf = (t div 60000000 - t div 60000000 mod d) * 60000000"
    using assms by (simp add: interval_start_def epoch_seconds_def seconds_def Let_def m flip: d_def)
  also have "\<dots> = t div (60000000 * d) * (60000000 * d)"
    unfolding d [symmetric] by (simp add: minus_mod_eq_div_mult)
  also have "\<dots> = t - t mod (60000000 * d)" by (simp add: minus_mod_eq_div_mult)
  finally show ?thesis by (simp add: minutes_def mult.commute flip: d_def)
qed

lemma interval_start_le: "0 \<le> t \<Longrightarrow> interval_start t tf \<le> t"
  by (simp add: interval_start_floor)

lemma interval_start_nonneg: "0 \<le> t \<Longrightarrow> 0 \<le> interval_start t tf"
  by (simp add: interval_start_floor zmod_le_nonneg_dividend)

text \<open>An instant lies before the end of its interval, also before the epoch, where
  \<open>int(timestamp())\<close> rounds up.\<close>

lemma interval_start_after: "t < interval_start t tf + minutes (timeframe_minutes tf)"
proof -
  define s where "s = epoch_seconds t"
  define m where "m = s div 60"
  define d where "d = timeframe_minutes tf"
  have div: "u div k * k \<le> u \<and> u < (u div k + 1) * k" if "0 < k" for u k :: int
    using that pos_mod_bound [of k u] pos_mod_sign [of k u] by (simp add: distrib_right flip: minus_mod_eq_div_mult)
  have "t < (t div 1000000 + 1) * 1000000" "(- t) div 1000000 * 1000000 \<le> - t"
    using div [OF zero_less_numeral] by blast+
  then have t: "t < (s + 1) * 1000000" unfolding s_def epoch_seconds_def by (auto split: if_splits)
  have "s + 1 \<le> (m + 1) * 60" using div [of 60 s] unfolding m_def by simp
  moreover define r where "r = m - m mod d"
  have "m mod d < d" unfolding d_def by simp
  then have "m + 1 \<le> r + d" unfolding r_def by simp
  ultimately have "t < (r + d) * 60 * 1000000" using t by simp
  then show ?thesis
    by (simp add: interval_start_def Let_def seconds_def minutes_def r_def distrib_right left_diff_distrib mult.commute flip: s_def m_def d_def)
qed

text \<open>The interval of an instant is the only one that contains it.\<close>

lemma floor_unique:
  fixes d :: int
  assumes "0 < d" "t - t mod d \<le> u" "u < t - t mod d + d" shows "u - u mod d = t - t mod d"
proof -
  have q: "t - t mod d = t div d * d" by (simp add: minus_mod_eq_div_mult)
  then have "u div d = t div d"
    using assms by (intro int_div_pos_eq [of _ _ _ "u - t div d * d"]) auto
  then show ?thesis by (simp add: minus_mod_eq_div_mult)
qed

lemma interval_start_unique:
  assumes "0 \<le> t" "interval_start t tf \<le> u" "u < interval_start t tf + minutes (timeframe_minutes tf)"
  shows "interval_start u tf = interval_start t tf"
  using assms interval_start_nonneg [of t tf] floor_unique [of "minutes (timeframe_minutes tf)" t u]
  by (simp add: interval_start_floor)

lemma interval_start_idem [simp]:
  "0 \<le> t \<Longrightarrow> interval_start (interval_start t tf) tf = interval_start t tf"
  by (rule interval_start_unique) (simp_all add: interval_start_le)

section \<open>Complete intervals\<close>

text \<open>The open times of \<open>n\<close> consecutive minutes.\<close>

definition minute_grid :: "instant \<Rightarrow> nat \<Rightarrow> instant list" where
  "minute_grid start n = map (\<lambda>i. start + one_minute * int i) [0..<n]"

lemma minute_grid_simps [simp]:
  "length (minute_grid s n) = n" "i < n \<Longrightarrow> minute_grid s n ! i = s + one_minute * int i"
  by (simp_all add: minute_grid_def)

lemma set_minute_grid: "u \<in> set (minute_grid s n) \<longleftrightarrow> (\<exists>i<n. u = s + one_minute * int i)"
  by (auto simp: minute_grid_def)

lemma minute_grid_sorted: "sorted_wrt (<) (minute_grid s n)"
  by (simp add: minute_grid_def sorted_wrt_map minutes_def)

lemma minute_grid_distinct [simp]: "distinct (minute_grid s n)"
  using minute_grid_sorted strict_sorted_iff by blast

lemma minute_grid_hd: "0 < n \<Longrightarrow> hd (minute_grid s n) = s"
  by (simp add: minute_grid_def hd_map upt_conv_Cons)

lemma ball_enumerate0: "(\<forall>(i, c) \<in> set (enumerate0 cs). P i c) \<longleftrightarrow> (\<forall>i < length cs. P i (cs ! i))"
  by (metis (no_types, lifting) case_prodD case_prodI2 in_enumerate0)

lemma minute_grid_iff:
  "map m1_open_time cs = minute_grid s n \<longleftrightarrow>
     length cs = n \<and> (\<forall>(i, c) \<in> set (enumerate0 cs). m1_open_time c = s + one_minute * int i)"
  by (auto simp: list_eq_iff_nth_eq ball_enumerate0)

lemma sorted_grid:
  assumes "mset (map m1_open_time cs) = mset (minute_grid s n)"
  shows "map m1_open_time (sort_key m1_open_time cs) = minute_grid s n"
proof -
  have "sort (minute_grid s n) = map m1_open_time (sort_key m1_open_time cs)"
    using assms by (intro properties_for_sort) simp_all
  moreover have "sort (minute_grid s n) = minute_grid s n"
    using minute_grid_sorted by (intro sort_key_id_if_sorted) (simp add: strict_sorted_iff)
  ultimately show ?thesis by simp
qed

definition one_symbol :: "candle_1m list \<Rightarrow> bool" where
  "one_symbol cs \<longleftrightarrow> (\<forall>c \<in> set cs. \<forall>c' \<in> set cs. m1_symbol c = m1_symbol c')"

definition complete_interval :: "candle_1m list \<Rightarrow> timeframe \<Rightarrow> instant \<Rightarrow> bool" where
  "complete_interval cs tf start \<longleftrightarrow> interval_start start tf = start \<and> one_symbol cs \<and>
     mset (map m1_open_time cs) = mset (minute_grid start (nat (timeframe_minutes tf)))"

definition aggregate_of :: "candle_1m list \<Rightarrow> timeframe \<Rightarrow> instant \<Rightarrow> aggregated_candle" where
  "aggregate_of ordered tf start = \<lparr>ag_symbol = m1_symbol (hd ordered), ag_timeframe = tf,
     ag_open_time = start, ag_close_time = interval_end start tf, ag_open = m1_open (hd ordered),
     ag_high = Max (set (map m1_high ordered)), ag_low = Min (set (map m1_low ordered)),
     ag_close = m1_close (last ordered), ag_volume = dsum (map m1_volume ordered),
     ag_turnover = dsum (map m1_turnover ordered), ag_source_count = timeframe_minutes tf\<rparr>"

lemma aggregate_candles_alt:
  "aggregate_candles cs tf expected =
     (let ordered = sort_key m1_open_time cs; start = interval_start (m1_open_time (hd ordered)) tf in
      if ordered \<noteq> [] \<and> (\<forall>e. expected = Some e \<longrightarrow> start = interval_start e tf) \<and> one_symbol ordered \<and>
         map m1_open_time ordered = minute_grid start (nat (timeframe_minutes tf))
      then Some (aggregate_of ordered tf start) else None)"
proof (cases "sort_key m1_open_time cs")
  case (Cons first rest)
  have len: "int (length xs) = timeframe_minutes tf \<longleftrightarrow> length xs = nat (timeframe_minutes tf)"
    for xs :: "candle_1m list" using timeframe_minutes_pos(1) [of tf] by linarith
  have sy: "one_symbol (first # rest) \<longleftrightarrow> \<not> (\<exists>c \<in> set (first # rest). m1_symbol c \<noteq> m1_symbol first)"
    by (auto simp: one_symbol_def)
  have tm: "map m1_open_time (first # rest) = minute_grid st (nat (timeframe_minutes tf)) \<longleftrightarrow>
      int (length (first # rest)) = timeframe_minutes tf \<and>
      \<not> (\<exists>(i, c) \<in> set (enumerate0 (first # rest)). m1_open_time c \<noteq> st + one_minute * int i)" for st
    unfolding minute_grid_iff len by auto
  show ?thesis
    unfolding aggregate_candles_def Let_def Cons list.case list.sel sy tm aggregate_of_def
    by (auto split: option.splits)
qed (simp add: aggregate_candles_def)

lemma one_symbol_cong: "set cs = set cs' \<Longrightarrow> one_symbol cs = one_symbol cs'"
  by (simp add: one_symbol_def)

lemma aggregate_candles_Some_iff:
  "aggregate_candles cs tf expected = Some a \<longleftrightarrow>
     (\<exists>start. complete_interval cs tf start \<and> (\<forall>e. expected = Some e \<longrightarrow> start = interval_start e tf) \<and>
       a = aggregate_of (sort_key m1_open_time cs) tf start)" (is "?l \<longleftrightarrow> ?r")
proof
  let ?o = "sort_key m1_open_time cs"
  let ?s = "interval_start (m1_open_time (hd ?o)) tf"
  assume ?l
  then have *: "?o \<noteq> []" "\<forall>e. expected = Some e \<longrightarrow> ?s = interval_start e tf" "one_symbol ?o"
      "map m1_open_time ?o = minute_grid ?s (nat (timeframe_minutes tf))" "a = aggregate_of ?o tf ?s"
    by (auto simp: aggregate_candles_alt Let_def split: if_splits)
  have "m1_open_time (hd ?o) = hd (map m1_open_time ?o)" using *(1) by (simp add: hd_map)
  also have "\<dots> = ?s" unfolding *(4) by (simp add: minute_grid_hd)
  finally have "interval_start ?s tf = ?s" by simp
  moreover have "mset (map m1_open_time cs) = mset (minute_grid ?s (nat (timeframe_minutes tf)))"
    unfolding *(4) [symmetric] by simp
  ultimately have "complete_interval cs tf ?s"
    using *(3) one_symbol_cong [of ?o cs] by (simp add: complete_interval_def)
  with * show ?r by blast
next
  let ?o = "sort_key m1_open_time cs"
  assume ?r
  then obtain start where *: "complete_interval cs tf start"
    "\<forall>e. expected = Some e \<longrightarrow> start = interval_start e tf" "a = aggregate_of ?o tf start" by blast
  from *(1) have t: "map m1_open_time ?o = minute_grid start (nat (timeframe_minutes tf))"
    by (intro sorted_grid) (simp add: complete_interval_def)
  then have ne: "?o \<noteq> []" using timeframe_minutes_pos(1) [of tf]
    by (metis length_0_conv length_map minute_grid_simps(1) zero_less_nat_eq less_irrefl list.size(3))
  have "m1_open_time (hd ?o) = hd (map m1_open_time ?o)" using ne by (simp add: hd_map)
  also have "\<dots> = start" unfolding t by (simp add: minute_grid_hd)
  finally have "interval_start (m1_open_time (hd ?o)) tf = start"
    using *(1) by (simp add: complete_interval_def)
  moreover have "one_symbol ?o" using *(1) one_symbol_cong [of ?o cs] by (simp add: complete_interval_def)
  ultimately show ?l using * t ne by (simp add: aggregate_candles_alt)
qed

lemma complete_distinct: "complete_interval cs tf start \<Longrightarrow> distinct (map m1_open_time cs)"
  by (metis complete_interval_def minute_grid_distinct mset_eq_imp_distinct_iff)

lemma complete_times:
  "complete_interval cs tf start \<Longrightarrow>
     m1_open_time ` set cs = set (minute_grid start (nat (timeframe_minutes tf)))"
  by (metis complete_interval_def list.set_map mset_eq_setD)

lemma sort_key_unique:
  assumes "mset cs = mset cs'" "distinct (map m1_open_time cs)"
  shows "sort_key m1_open_time cs = sort_key m1_open_time cs'"
proof (rule map_sorted_distinct_set_unique)
  have s: "set cs' = set cs" and d: "distinct (map m1_open_time cs')"
    using assms by (metis mset_eq_setD, metis mset_eq_imp_distinct_iff mset_map)
  show "inj_on m1_open_time (set (sort_key m1_open_time cs) \<union> set (sort_key m1_open_time cs'))"
    using assms(2) s by (simp add: distinct_map)
  show "set (sort_key m1_open_time cs) = set (sort_key m1_open_time cs')" using s by simp
  have "distinct (map m1_open_time (sort_key m1_open_time xs))" if "distinct (map m1_open_time xs)" for xs
    using that mset_eq_imp_distinct_iff [of "map m1_open_time (sort_key m1_open_time xs)" "map m1_open_time xs"]
    by simp
  with assms(2) d show "distinct (map m1_open_time (sort_key m1_open_time cs))"
    "distinct (map m1_open_time (sort_key m1_open_time cs'))" by blast+
qed simp_all

lemma complete_perm: "mset cs = mset cs' \<Longrightarrow> complete_interval cs tf start = complete_interval cs' tf start"
  using one_symbol_cong [of cs cs'] mset_eq_setD [of cs cs'] by (simp add: complete_interval_def)

lemma aggregate_perm:
  assumes "mset cs = mset cs'" "aggregate_candles cs tf expected = Some a"
  shows "aggregate_candles cs' tf expected = Some a"
  using assms complete_perm [OF assms(1)] sort_key_unique [OF assms(1)] complete_distinct
  unfolding aggregate_candles_Some_iff by metis

text \<open>What the fields of an aggregate are, over the set of its minutes.\<close>

lemma sorted_minutes_nonempty: "complete_interval cs tf start \<Longrightarrow> cs \<noteq> []"
  using complete_times [of cs tf start] set_minute_grid [of start start "nat (timeframe_minutes tf)"]
  by (auto intro: exI [of _ 0])

lemma aggregate_fields:
  assumes "aggregate_candles cs tf expected = Some a"
  shows "ag_timeframe a = tf" "ag_close_time a = ag_open_time a + minutes (timeframe_minutes tf)"
    and "complete_interval cs tf (ag_open_time a)"
    and "c \<in> set cs \<Longrightarrow> ag_symbol a = m1_symbol c"
    and "c \<in> set cs \<Longrightarrow> m1_open_time c = ag_open_time a \<Longrightarrow> ag_open a = m1_open c"
    and "c \<in> set cs \<Longrightarrow> m1_open_time c + one_minute = ag_close_time a \<Longrightarrow> ag_close a = m1_close c"
    and "ag_high a = Max (m1_high ` set cs)" "ag_low a = Min (m1_low ` set cs)"
    and "ag_open a \<in> m1_open ` set cs" "ag_close a \<in> m1_close ` set cs"
proof -
  let ?o = "sort_key m1_open_time cs" and ?n = "nat (timeframe_minutes tf)"
  obtain start where *: "complete_interval cs tf start" "a = aggregate_of ?o tf start"
    using assms unfolding aggregate_candles_Some_iff by blast
  have ne: "?o \<noteq> []" using sorted_minutes_nonempty [OF *(1)]
    by (metis set_empty set_sort)
  have t: "map m1_open_time ?o = minute_grid start ?n"
    using *(1) by (intro sorted_grid) (simp add: complete_interval_def)
  have n: "0 < ?n" by simp
  have inj: "inj_on m1_open_time (set cs)" using complete_distinct [OF *(1)] by (simp add: distinct_map)
  have hd: "m1_open_time (hd ?o) = start" using ne t n by (metis hd_map minute_grid_hd)
  have "m1_open_time (last ?o) = last (minute_grid start ?n)" using ne t by (metis last_map)
  also have "\<dots> = start + minutes (timeframe_minutes tf) - one_minute"
    using n by (cases ?n) (simp_all add: minute_grid_def minutes_def)
  finally have last: "m1_open_time (last ?o) + one_minute = start + minutes (timeframe_minutes tf)" by simp
  have in_cs: "hd ?o \<in> set cs" "last ?o \<in> set cs" using ne by (metis hd_in_set set_sort, metis last_in_set set_sort)
  show "ag_timeframe a = tf" "complete_interval cs tf (ag_open_time a)"
    using * by (simp_all add: aggregate_of_def)
  show close: "ag_close_time a = ag_open_time a + minutes (timeframe_minutes tf)"
    using * by (simp add: aggregate_of_def interval_end_def complete_interval_def)
  show "ag_symbol a = m1_symbol c" if "c \<in> set cs"
  proof -
    have "one_symbol cs" using *(1) by (simp add: complete_interval_def)
    with that in_cs(1) have "m1_symbol (hd ?o) = m1_symbol c" unfolding one_symbol_def by blast
    then show ?thesis using *(2) by (simp add: aggregate_of_def)
  qed
  show "ag_open a = m1_open c" if "c \<in> set cs" "m1_open_time c = ag_open_time a"
    using that * in_cs hd inj by (auto simp: aggregate_of_def dest: inj_onD)
  show "ag_close a = m1_close c" if "c \<in> set cs" "m1_open_time c + one_minute = ag_close_time a"
  proof -
    have "m1_open_time c = m1_open_time (last ?o)" using that(2) last close * by (simp add: aggregate_of_def)
    then have "c = last ?o" using inj_onD [OF inj] that(1) in_cs(2) by blast
    then show ?thesis using * by (simp add: aggregate_of_def)
  qed
  show "ag_high a = Max (m1_high ` set cs)" "ag_low a = Min (m1_low ` set cs)"
    using * by (simp_all add: aggregate_of_def)
  show "ag_open a \<in> m1_open ` set cs" "ag_close a \<in> m1_close ` set cs"
    using * in_cs by (simp_all add: aggregate_of_def)
qed

lemma aggregate_volume_nonneg:
  assumes "aggregate_candles cs tf expected = Some a" "\<forall>c \<in> set cs. 0 \<le> m1_volume c"
  shows "0 \<le> ag_volume a"
proof -
  obtain start where "a = aggregate_of (sort_key m1_open_time cs) tf start"
    using assms(1) unfolding aggregate_candles_Some_iff by blast
  then show ?thesis using assms(2) by (auto simp: aggregate_of_def intro!: dsum_nonneg)
qed

text \<open>A minute that is itself a candle: what a provider or the loader of a file delivers.\<close>

definition minute_wf :: "candle_1m \<Rightarrow> bool" where
  "minute_wf c \<longleftrightarrow> m1_low c \<le> min (m1_open c) (m1_close c) \<and> max (m1_open c) (m1_close c) \<le> m1_high c \<and>
     0 \<le> m1_volume c"

section \<open>replay/aggregation.py\<close>

definition bucket_append :: "'k \<Rightarrow> 'v \<Rightarrow> ('k \<times> 'v list) list \<Rightarrow> ('k \<times> 'v list) list" where
  "bucket_append k v d = od_put k ((case map_of d k of None \<Rightarrow> [] | Some vs \<Rightarrow> vs) @ [v]) d"

definition group_by :: "('v \<Rightarrow> 'k) \<Rightarrow> 'v list \<Rightarrow> ('k \<times> 'v list) list" where
  "group_by f vs = foldl (\<lambda>d v. bucket_append (f v) v d) [] vs"

definition candle_of_aggregate :: "timeframe \<Rightarrow> aggregated_candle \<Rightarrow> candle res" where
  "candle_of_aggregate tf a = mk_candle (ag_symbol a) tf (Aware (ag_open_time a)) (Aware (ag_close_time a))
     (ag_open a) (ag_high a) (ag_low a) (ag_close a) (ag_volume a)"

definition aggregate_timeframe :: "candle_1m list \<Rightarrow> timeframe \<Rightarrow> candle list res" where
  "aggregate_timeframe cs tf =
     (let buckets = group_by (\<lambda>c. interval_start (m1_open_time c) tf) cs in
      foldM (\<lambda>aggregates start.
        case aggregate_candles (the (map_of buckets start)) tf (Some start) of
          None \<Rightarrow> Inr aggregates
        | Some a \<Rightarrow> rbind (candle_of_aggregate tf a) (\<lambda>c. Inr (aggregates @ [c])))
        [] (sort (map fst buckets)))"

definition build_replay_aggregates ::
  "candle_1m list \<Rightarrow> (string \<times> (timeframe \<times> candle list) list) list res" where
  "build_replay_aggregates cs =
     traverse (\<lambda>(symb, symbol_candles).
        rmap (Pair symb) (traverse (\<lambda>tf. rmap (Pair tf) (aggregate_timeframe symbol_candles tf)) timeframes))
       (sort_key fst (group_by m1_symbol cs))"

text \<open>Grouping: the keys are those of the elements, each bucket holds its elements in order.\<close>

lemma group_by_snoc: "group_by f (vs @ [v]) = bucket_append (f v) v (group_by f vs)"
  by (simp add: group_by_def)

lemma group_by_lookup:
  "map_of (group_by f vs) k = (if k \<in> f ` set vs then Some (filter (\<lambda>v. f v = k) vs) else None)"
proof (induction vs rule: rev_induct)
  case Nil
  then show ?case by (simp add: group_by_def)
next
  case (snoc v vs)
  then show ?case by (auto simp: group_by_snoc bucket_append_def empty_filter_conv filter_empty_conv image_iff) metis+
qed

lemma group_by_distinct: "distinct (map fst (group_by f vs))"
proof (induction vs rule: rev_induct)
  case Nil
  then show ?case by (simp add: group_by_def)
next
  case (snoc v vs)
  then show ?case unfolding group_by_snoc bucket_append_def by (rule od_put_distinct)
qed

lemma group_by_keys: "fst ` set (group_by f vs) = f ` set vs"
proof -
  have "dom (map_of (group_by f vs)) = f ` set vs"
    by (auto simp: group_by_lookup dom_def split: if_splits)
  then show ?thesis by (simp add: dom_map_of_conv_image_fst)
qed

lemma group_by_in: "(k, ws) \<in> set (group_by f vs) \<longleftrightarrow> k \<in> f ` set vs \<and> ws = filter (\<lambda>v. f v = k) vs"
proof -
  have "(k, ws) \<in> set (group_by f vs) \<longleftrightarrow> map_of (group_by f vs) k = Some ws"
    using group_by_distinct by (metis map_of_eq_Some_iff)
  then show ?thesis by (auto simp: group_by_lookup)
qed

lemma candle_of_aggregate_ok:
  assumes "aggregate_candles cs tf expected = Some a" "\<forall>c \<in> set cs. minute_wf c"
  shows "\<exists>c. candle_of_aggregate tf a = Inr c"
proof -
  note f = aggregate_fields [OF assms(1)]
  have fin: "finite (m1_high ` set cs)" "finite (m1_low ` set cs)" by simp_all
  have "v \<le> ag_high a" if "v \<in> m1_open ` set cs \<union> m1_close ` set cs" for v
  proof -
    from that assms(2) obtain c where "c \<in> set cs" "v \<le> m1_high c" by (auto simp: minute_wf_def)
    then show ?thesis unfolding f(7) using Max_ge [OF fin(1)] by (meson imageI order_trans)
  qed
  moreover have "ag_low a \<le> v" if "v \<in> m1_open ` set cs \<union> m1_close ` set cs" for v
  proof -
    from that assms(2) obtain c where "c \<in> set cs" "m1_low c \<le> v" by (auto simp: minute_wf_def)
    then show ?thesis unfolding f(8) using Min_le [OF fin(2)] by (meson imageI order_trans)
  qed
  moreover have "0 \<le> ag_volume a" using assms by (auto simp: minute_wf_def intro: aggregate_volume_nonneg)
  ultimately have "returns (candle_of_aggregate tf a)"
    using f(2,9,10) by (simp add: candle_of_aggregate_def mk_candle_ok_iff)
  then show ?thesis by (simp add: returns_iff)
qed

text \<open>The aggregates of a series as a list, and \<open>_aggregate_timeframe\<close> as the conversion of its
  elements.\<close>

definition interval_of :: "timeframe \<Rightarrow> candle_1m \<Rightarrow> instant" where
  "interval_of tf c = interval_start (m1_open_time c) tf"

definition interval_aggregate :: "candle_1m list \<Rightarrow> timeframe \<Rightarrow> instant \<Rightarrow> aggregated_candle option" where
  "interval_aggregate cs tf start = aggregate_candles (filter (\<lambda>c. interval_of tf c = start) cs) tf (Some start)"

definition aggregates_of :: "candle_1m list \<Rightarrow> timeframe \<Rightarrow> aggregated_candle list" where
  "aggregates_of cs tf = List.map_filter (interval_aggregate cs tf) (sorted_list_of_set (interval_of tf ` set cs))"

lemma foldM_collect:
  "foldM (\<lambda>acc x. case g x of None \<Rightarrow> Inr acc | Some a \<Rightarrow> rbind (h a) (\<lambda>c. Inr (acc @ [c]))) acc xs =
     rmap ((@) acc) (traverse h (List.map_filter g xs))"
proof (induction xs arbitrary: acc)
  case (Cons x xs)
  show ?case
  proof (cases "g x")
    case (Some a)
    then show ?thesis
      by (cases "h a"; cases "traverse h (List.map_filter g xs)") (simp_all add: Cons.IH List.map_filter_simps)
  qed (simp add: Cons.IH List.map_filter_simps)
qed (simp add: List.map_filter_simps)

lemma sort_group_keys: "sort (map fst (group_by f vs)) = sorted_list_of_set (f ` set vs)"
  using group_by_distinct [of f vs] group_by_keys [of f vs]
  by (metis list.set_map sorted_list_of_set_sort_remdups distinct_remdups_id)

lemma map_filter_cong': "(\<And>x. x \<in> set xs \<Longrightarrow> f x = g x) \<Longrightarrow> List.map_filter f xs = List.map_filter g xs"
  by (induction xs) (auto simp: List.map_filter_simps split: option.splits)

lemma aggregate_timeframe_alt:
  "aggregate_timeframe cs tf = traverse (candle_of_aggregate tf) (aggregates_of cs tf)"
proof -
  have "List.map_filter (\<lambda>start. aggregate_candles (the (map_of (group_by (interval_of tf) cs) start)) tf (Some start))
      (sorted_list_of_set (interval_of tf ` set cs)) = aggregates_of cs tf"
    unfolding aggregates_of_def interval_aggregate_def
    by (rule map_filter_cong') (simp add: group_by_lookup)
  then show ?thesis
    unfolding aggregate_timeframe_def Let_def foldM_collect interval_of_def [symmetric] sort_group_keys
    by (cases "traverse (candle_of_aggregate tf) (aggregates_of cs tf)") simp_all
qed

lemma interval_aggregate_open:
  assumes "interval_aggregate cs tf start = Some a"
  shows "ag_open_time a = start" "ag_close_time a = start + minutes (timeframe_minutes tf)"
proof -
  note f = aggregate_fields [OF assms [unfolded interval_aggregate_def]]
  obtain st where st: "complete_interval (filter (\<lambda>c. interval_of tf c = start) cs) tf st" "st = interval_start start tf"
      "a = aggregate_of (sort_key m1_open_time (filter (\<lambda>c. interval_of tf c = start) cs)) tf st"
    using assms unfolding interval_aggregate_def aggregate_candles_Some_iff by blast
  have "st \<in> set (minute_grid st (nat (timeframe_minutes tf)))"
    by (auto simp: set_minute_grid intro: exI [of _ 0])
  then have "st \<in> m1_open_time ` set (filter (\<lambda>c. interval_of tf c = start) cs)"
    using complete_times [OF st(1)] by simp
  then obtain c where "c \<in> set cs" "interval_of tf c = start" "m1_open_time c = st" by auto
  then have "start = interval_start st tf" by (simp add: interval_of_def)
  moreover have "interval_start st tf = st" using st(1) by (simp add: complete_interval_def)
  ultimately show "ag_open_time a = start" using st(3) by (simp add: aggregate_of_def)
  then show "ag_close_time a = start + minutes (timeframe_minutes tf)" using f(2) by simp
qed

lemma aggregates_in:
  "a \<in> set (aggregates_of cs tf) \<longleftrightarrow> interval_aggregate cs tf (ag_open_time a) = Some a"
proof
  assume "a \<in> set (aggregates_of cs tf)"
  then obtain start where "interval_aggregate cs tf start = Some a"
    by (auto simp: aggregates_of_def List.map_filter_def)
  then show "interval_aggregate cs tf (ag_open_time a) = Some a" using interval_aggregate_open(1) by simp
next
  assume a: "interval_aggregate cs tf (ag_open_time a) = Some a"
  have "ag_open_time a \<in> interval_of tf ` set cs"
    using sorted_minutes_nonempty [OF aggregate_fields(3) [OF a [unfolded interval_aggregate_def]]]
    by (auto simp: filter_empty_conv image_iff) metis
  with a show "a \<in> set (aggregates_of cs tf)"
    by (auto simp: aggregates_of_def List.map_filter_def intro!: image_eqI [of _ _ "ag_open_time a"])
qed

lemma sorted_map_filter:
  assumes "sorted_wrt (<) xs" "\<And>x a. f x = Some a \<Longrightarrow> g a = x"
  shows "sorted_wrt (<) (map g (List.map_filter f xs))"
  using assms(1)
proof (induction xs)
  case (Cons x xs)
  have "set (map g (List.map_filter f xs)) \<subseteq> set xs"
    using assms(2) by (auto simp: List.map_filter_def)
  with Cons assms(2) show ?case by (auto simp: List.map_filter_simps split: option.splits)
qed (simp add: List.map_filter_simps)

lemma aggregates_sorted: "sorted_wrt (<) (map ag_open_time (aggregates_of cs tf))"
  unfolding aggregates_of_def
  by (rule sorted_map_filter) (simp_all add: interval_aggregate_open strict_sorted_list_of_set)

text \<open>Minutes from an instant on do not change the aggregates that are closed by then.\<close>

lemma filter_interval_before:
  assumes "start + minutes (timeframe_minutes tf) \<le> T"
  shows "filter (\<lambda>c. interval_of tf c = start) (filter (\<lambda>c. m1_open_time c < T) cs) =
     filter (\<lambda>c. interval_of tf c = start) cs"
proof -
  have "m1_open_time c < T" if "interval_of tf c = start" for c
    using interval_start_after [of "m1_open_time c" tf] that assms by (simp add: interval_of_def)
  then show ?thesis by (auto intro: filter_cong)
qed

lemma aggregates_before:
  "filter (\<lambda>a. ag_close_time a \<le> T) (aggregates_of (filter (\<lambda>c. m1_open_time c < T) cs) tf) =
     filter (\<lambda>a. ag_close_time a \<le> T) (aggregates_of cs tf)" (is "?l = ?r")
proof -
  let ?cs = "filter (\<lambda>c. m1_open_time c < T) cs"
  have "set ?l = set ?r"
  proof (rule set_eqI)
    fix a :: aggregated_candle
    have same: "interval_aggregate ?cs tf (ag_open_time a) = interval_aggregate cs tf (ag_open_time a)"
      if "ag_open_time a + minutes (timeframe_minutes tf) \<le> T"
      unfolding interval_aggregate_def filter_interval_before [OF that] ..
    have closes: "ag_close_time a = ag_open_time a + minutes (timeframe_minutes tf)"
      if "a \<in> set (aggregates_of xs tf)" for xs
      using that interval_aggregate_open(2) by (simp add: aggregates_in)
    show "a \<in> set ?l \<longleftrightarrow> a \<in> set ?r"
    proof (cases "ag_open_time a + minutes (timeframe_minutes tf) \<le> T")
      case True
      then show ?thesis using same by (simp add: aggregates_in)
    next
      case False
      then show ?thesis using closes by fastforce
    qed
  qed
  moreover have "sorted_wrt (<) (map ag_open_time (filter P (aggregates_of xs tf)))" for P xs
    using aggregates_sorted [of xs tf] by (simp add: sorted_wrt_map sorted_wrt_filter)
  moreover have "inj_on ag_open_time (set (aggregates_of cs tf))"
    using aggregates_sorted [of cs tf] by (simp add: strict_sorted_iff distinct_map)
  then have "inj_on ag_open_time (set ?l \<union> set ?r)"
    unfolding \<open>set ?l = set ?r\<close> by (auto intro: inj_on_subset)
  ultimately show ?thesis using map_sorted_distinct_set_unique [of ag_open_time ?l ?r]
    by (simp add: strict_sorted_iff)
qed

section \<open>Timeframes nest\<close>

lemma minute_grid_part:
  assumes "interval_start start tf = start" "timeframe_minutes tf = int m * timeframe_minutes sub" "k < m" "0 \<le> start"
    and P: "\<And>u. P u \<longleftrightarrow> interval_start u sub = start + minutes (timeframe_minutes sub) * int k"
  shows "filter P (minute_grid start (nat (timeframe_minutes tf))) =
    minute_grid (start + minutes (timeframe_minutes sub) * int k) (nat (timeframe_minutes sub))"
proof -
  define d where "d = nat (timeframe_minutes sub)"
  define s where "s = start + minutes (timeframe_minutes sub) * int k"
  have d: "int d = timeframe_minutes sub" "0 < d" by (simp_all add: d_def)
  have n: "nat (timeframe_minutes tf) = m * d" using assms(2) by (simp add: nat_mult_distrib d_def)
  have sub: "interval_start s sub = s"
  proof -
    have "start mod minutes (timeframe_minutes tf) = 0"
      using assms(1,4) by (simp add: interval_start_floor)
    then have "minutes (timeframe_minutes sub) dvd start"
      using assms(2) by (metis dvd_trans dvd_triv_right minutes_def mod_0_imp_dvd mult.assoc)
    then have "s mod minutes (timeframe_minutes sub) = 0" by (simp add: s_def)
    moreover have "0 \<le> s" using assms(4) by (simp add: s_def)
    ultimately show ?thesis by (simp add: interval_start_floor)
  qed
  have in_part: "P (start + one_minute * int i) \<longleftrightarrow> k * d \<le> i \<and> i < k * d + d" for i
  proof -
    have u: "0 \<le> start + one_minute * int i" using assms(4) by simp
    have s: "s = start + one_minute * int (k * d)" by (simp add: s_def minutes_def d(1) mult.commute)
    have e: "minutes (timeframe_minutes sub) = one_minute * int d" by (simp add: minutes_def flip: d(1))
    have "P (start + one_minute * int i) \<longleftrightarrow> s \<le> start + one_minute * int i \<and> start + one_minute * int i < s + one_minute * int d"
      unfolding P s_def [symmetric]
      using interval_start_le [OF u, of sub] interval_start_after [of "start + one_minute * int i" sub]
        interval_start_unique [of s sub "start + one_minute * int i"] sub assms(4)
      by (auto simp: e s_def)
    also have "\<dots> \<longleftrightarrow> k * d \<le> i \<and> i < k * d + d"
      unfolding s by (simp add: minutes_def flip: of_nat_add of_nat_mult) linarith
    finally show ?thesis .
  qed
  have kd: "k * d + d \<le> m * d" using assms(3) by (metis Suc_leI add.commute mult_Suc mult_le_mono1)
  then have upt: "[0..<m * d] = [0..<k * d] @ [k * d..<k * d + d] @ [k * d + d..<m * d]"
    using upt_add_eq_append [of 0 "k * d" "m * d - k * d"] upt_add_eq_append [of "k * d" "k * d + d" "m * d - (k * d + d)"]
    by (simp add: le_add_diff_inverse [OF add_leD1])
  have "filter P (minute_grid start (m * d)) = map (\<lambda>i. start + one_minute * int i) [k * d..<k * d + d]"
    by (simp add: minute_grid_def filter_map comp_def in_part upt filter_empty_conv)
  also have "\<dots> = minute_grid s d"
    by (rule nth_equalityI) (simp_all add: s_def minutes_def d(1) [symmetric] distrib_left mult.commute)
  finally show ?thesis by (simp add: n s_def d_def)
qed

lemma filter_minutes_complete:
  assumes "complete_interval cs tf start" "timeframe_minutes tf = int m * timeframe_minutes sub" "k < m" "0 \<le> start"
  shows "complete_interval (filter (\<lambda>c. interval_of sub c = start + minutes (timeframe_minutes sub) * int k) cs) sub
    (start + minutes (timeframe_minutes sub) * int k)"
proof -
  let ?s = "start + minutes (timeframe_minutes sub) * int k"
  let ?P = "\<lambda>u. interval_start u sub = ?s"
  have f: "filter ?P (map m1_open_time cs) = map m1_open_time (filter (\<lambda>c. interval_of sub c = ?s) cs)"
    by (simp add: filter_map comp_def interval_of_def)
  have "mset (filter ?P (map m1_open_time cs)) = filter_mset ?P (mset (minute_grid start (nat (timeframe_minutes tf))))"
    using assms(1) by (simp only: complete_interval_def mset_filter)
  also have "\<dots> = mset (minute_grid ?s (nat (timeframe_minutes sub)))"
    using assms minute_grid_part [of start tf m sub k ?P] by (simp add: complete_interval_def flip: mset_filter)
  finally have t: "mset (map m1_open_time (filter (\<lambda>c. interval_of sub c = ?s) cs)) =
      mset (minute_grid ?s (nat (timeframe_minutes sub)))"
    unfolding f .
  have "?s \<in> set (minute_grid ?s (nat (timeframe_minutes sub)))"
    by (auto simp: set_minute_grid intro: exI [of _ 0])
  then have "?s \<in> m1_open_time ` set (filter (\<lambda>c. interval_of sub c = ?s) cs)"
    using mset_eq_setD [OF t] by (metis list.set_map)
  then obtain c where "interval_of sub c = ?s" "m1_open_time c = ?s" by auto
  then have "interval_start ?s sub = ?s" by (simp add: interval_of_def)
  then show ?thesis using t assms(1) by (simp add: complete_interval_def one_symbol_def)
qed

lemma part_aggregate:
  assumes "aggregate_candles cs tf expected = Some a" "0 \<le> ag_open_time a"
    and "timeframe_minutes tf = int m * timeframe_minutes sub" "k < m"
  shows "\<exists>b. aggregate_candles (filter (\<lambda>c. interval_of sub c = ag_open_time a + minutes (timeframe_minutes sub) * int k) cs) sub None = Some b \<and>
    ag_open_time b = ag_open_time a + minutes (timeframe_minutes sub) * int k"
proof -
  let ?s = "ag_open_time a + minutes (timeframe_minutes sub) * int k"
  let ?cs = "filter (\<lambda>c. interval_of sub c = ?s) cs"
  have "complete_interval ?cs sub ?s"
    using filter_minutes_complete [OF aggregate_fields(3) [OF assms(1)] assms(3,4,2)] .
  then have "aggregate_candles ?cs sub None = Some (aggregate_of (sort_key m1_open_time ?cs) sub ?s)"
    unfolding aggregate_candles_Some_iff by (intro exI [of _ ?s]) simp
  then show ?thesis by (simp add: aggregate_of_def)
qed

text \<open>The parts of a candle on a finer timeframe cover its minutes.\<close>

lemma parts_cover:
  assumes "complete_interval cs tf start" "0 \<le> start" "timeframe_minutes tf = int m * timeframe_minutes sub"
  shows "set cs = (\<Union>k<m. set (filter (\<lambda>c. interval_of sub c = start + minutes (timeframe_minutes sub) * int k) cs))"
proof (intro equalityI subsetI)
  fix c assume c: "c \<in> set cs"
  define d where "d = nat (timeframe_minutes sub)"
  have d: "int d = timeframe_minutes sub" "0 < d" by (simp_all add: d_def)
  from c have "m1_open_time c \<in> set (minute_grid start (nat (timeframe_minutes tf)))"
    using complete_times [OF assms(1)] by blast
  then obtain i where i: "i < nat (timeframe_minutes tf)" "m1_open_time c = start + one_minute * int i"
    by (auto simp: set_minute_grid)
  have n: "nat (timeframe_minutes tf) = m * d" using assms(3) by (simp add: nat_mult_distrib d_def)
  define k where "k = i div d"
  have k: "k < m" using i n d by (simp add: k_def less_mult_imp_div_less)
  have "i \<in> {k * d..<k * d + d}" using d(2) by (simp add: k_def) (metis add.commute dividend_less_div_times)
  then have mem: "m1_open_time c \<in> set (minute_grid (start + minutes (timeframe_minutes sub) * int k) d)"
    by (intro iffD2 [OF set_minute_grid] exI [of _ "i - k * d"])
      (use \<open>i \<in> {k * d..<k * d + d}\<close> d(1) in \<open>auto simp: i(2) minutes_def of_nat_diff algebra_simps\<close>)
  have "filter (\<lambda>u. interval_start u sub = start + minutes (timeframe_minutes sub) * int k)
      (minute_grid start (nat (timeframe_minutes tf))) = minute_grid (start + minutes (timeframe_minutes sub) * int k) d"
    unfolding d_def
    by (rule minute_grid_part) (use assms k in \<open>simp_all add: complete_interval_def\<close>)
  with mem have "m1_open_time c \<in> set (filter (\<lambda>u. interval_start u sub =
      start + minutes (timeframe_minutes sub) * int k) (minute_grid start (nat (timeframe_minutes tf))))" by simp
  then have "interval_of sub c = start + minutes (timeframe_minutes sub) * int k" by (simp add: interval_of_def)
  then show "c \<in> (\<Union>k<m. set (filter (\<lambda>c. interval_of sub c = start + minutes (timeframe_minutes sub) * int k) cs))"
    using c k by auto
qed auto

lemma Max_parts:
  fixes S :: "'i \<Rightarrow> 'k::linorder set"
  assumes "finite I" "I \<noteq> {}" "\<And>k. k \<in> I \<Longrightarrow> finite (S k) \<and> S k \<noteq> {}"
  shows "Max (\<Union>k\<in>I. S k) = Max ((\<lambda>k. Max (S k)) ` I)"
    and "Min (\<Union>k\<in>I. S k) = Min ((\<lambda>k. Min (S k)) ` I)"
proof -
  have fin: "finite (\<Union>k\<in>I. S k)" using assms by blast
  show "Max (\<Union>k\<in>I. S k) = Max ((\<lambda>k. Max (S k)) ` I)"
  proof (rule Max_eqI [OF fin])
    show "y \<le> Max ((\<lambda>k. Max (S k)) ` I)" if "y \<in> (\<Union>k\<in>I. S k)" for y
      using that assms by (auto simp: Max_ge_iff)
    have "Max ((\<lambda>k. Max (S k)) ` I) \<in> (\<lambda>k. Max (S k)) ` I" using assms by (intro Max_in) auto
    then obtain k where "k \<in> I" "Max ((\<lambda>k. Max (S k)) ` I) = Max (S k)" by blast
    with assms show "Max ((\<lambda>k. Max (S k)) ` I) \<in> (\<Union>k\<in>I. S k)" by (metis Max_in UN_I)
  qed
  show "Min (\<Union>k\<in>I. S k) = Min ((\<lambda>k. Min (S k)) ` I)"
  proof (rule Min_eqI [OF fin])
    show "Min ((\<lambda>k. Min (S k)) ` I) \<le> y" if "y \<in> (\<Union>k\<in>I. S k)" for y
      using that assms by (auto simp: Min_le_iff)
    have "Min ((\<lambda>k. Min (S k)) ` I) \<in> (\<lambda>k. Min (S k)) ` I" using assms by (intro Min_in) auto
    then obtain k where "k \<in> I" "Min ((\<lambda>k. Min (S k)) ` I) = Min (S k)" by blast
    with assms show "Min ((\<lambda>k. Min (S k)) ` I) \<in> (\<Union>k\<in>I. S k)" by (metis Min_in UN_I)
  qed
qed

lemma complete_bounds:
  assumes "complete_interval cs tf start"
  shows "\<exists>c \<in> set cs. m1_open_time c = start"
    and "\<exists>c \<in> set cs. m1_open_time c + one_minute = start + minutes (timeframe_minutes tf)"
proof -
  let ?n = "nat (timeframe_minutes tf)"
  have "start \<in> set (minute_grid start ?n)" by (auto simp: set_minute_grid intro: exI [of _ 0])
  then show "\<exists>c \<in> set cs. m1_open_time c = start" using complete_times [OF assms] by (metis imageE)
  have "start + one_minute * int (?n - 1) \<in> set (minute_grid start ?n)"
    by (auto simp: set_minute_grid intro: exI [of _ "?n - 1"])
  moreover have "start + one_minute * int (?n - 1) + one_minute = start + minutes (timeframe_minutes tf)"
    by (simp add: minutes_def of_nat_diff Suc_leI algebra_simps)
  ultimately show "\<exists>c \<in> set cs. m1_open_time c + one_minute = start + minutes (timeframe_minutes tf)"
    using complete_times [OF assms] by (metis imageE)
qed

section \<open>Properties\<close>

definition sample_minutes :: "nat \<Rightarrow> candle_1m list" where
  "sample_minutes n = map (\<lambda>i. \<lparr>m1_symbol = ''BTCUSDT'', m1_open_time = minutes (int i), m1_open = of_nat (100 + i),
     m1_high = of_nat (102 + i), m1_low = of_nat (99 + i), m1_close = of_nat (101 + i), m1_volume = 1,
     m1_turnover = of_nat (100 + i)\<rparr>) [0..<n]"

text \<open>C21: \<open>aggregate_candles\<close> yields a candle only for the complete interval: its minutes are exactly
  those of the interval, each once and of one symbol, the interval is the expected one, and the
  candle has the opening price of the first minute, the closing price of the last one and the
  extreme prices of all.\<close>

theorem aggregate_sound:
  assumes "aggregate_candles cs tf (Some expected) = Some a"
  shows "ag_open_time a = interval_start expected tf \<and>
    ag_close_time a = ag_open_time a + minutes (timeframe_minutes tf) \<and>
    mset (map m1_open_time cs) = mset (minute_grid (ag_open_time a) (nat (timeframe_minutes tf))) \<and>
    list_all (\<lambda>c. m1_symbol c = ag_symbol a) cs \<and>
    (\<exists>c \<in> set cs. m1_open_time c = ag_open_time a \<and> ag_open a = m1_open c) \<and>
    (\<exists>c \<in> set cs. m1_open_time c + one_minute = ag_close_time a \<and> ag_close a = m1_close c) \<and>
    ag_high a = Max (m1_high ` set cs) \<and> ag_low a = Min (m1_low ` set cs)"
proof -
  note f = aggregate_fields [OF assms]
  have "ag_open_time a = interval_start expected tf"
    using assms by (auto simp: aggregate_candles_Some_iff aggregate_of_def)
  moreover have "mset (map m1_open_time cs) = mset (minute_grid (ag_open_time a) (nat (timeframe_minutes tf)))"
    using f(3) by (simp add: complete_interval_def)
  moreover have "\<exists>c \<in> set cs. m1_open_time c = ag_open_time a \<and> ag_open a = m1_open c"
    using complete_bounds(1) [OF f(3)] f(5) by blast
  moreover have "\<exists>c \<in> set cs. m1_open_time c + one_minute = ag_close_time a \<and> ag_close a = m1_close c"
    using complete_bounds(2) [OF f(3)] f(2,6) by metis
  moreover have "list_all (\<lambda>c. m1_symbol c = ag_symbol a) cs" using f(4) by (simp add: list_all_iff)
  ultimately show ?thesis using f(2,7,8) by blast
qed

lemma sample_aggregate:
  "map_option (\<lambda>a. (ag_open_time a, ag_open a, ag_high a, ag_low a, ag_close a))
     (aggregate_candles (rev (sample_minutes 5)) TF_5m (Some (minutes 3))) = Some (0, 100, 106, 99, 105)"
  by code_simp

lemma aggregate_sound_witness:
  "\<exists>a. aggregate_candles (rev (sample_minutes 5)) TF_5m (Some (minutes 3)) = Some a \<and> ag_high a = 106 \<and>
     ag_high a = Max (m1_high ` set (rev (sample_minutes 5)))"
  using sample_aggregate aggregate_sound [of "rev (sample_minutes 5)" TF_5m "minutes 3"] by auto

text \<open>The result of \<open>aggregate_candles\<close> does not depend on the order in which the minutes are
  handed over.\<close>

theorem aggregation_order_independent:
  assumes "mset cs = mset cs'"
  shows "aggregate_candles cs tf expected = aggregate_candles cs' tf expected"
  using aggregate_perm [OF assms] aggregate_perm [OF assms [symmetric]]
  by (metis not_Some_eq)

lemma aggregation_order_independent_witness:
  "aggregate_candles (rev (sample_minutes 5)) TF_5m None = aggregate_candles (sample_minutes 5) TF_5m None"
  using aggregation_order_independent [of "rev (sample_minutes 5)" "sample_minutes 5"] by simp

text \<open>C22: The timeframes agree with each other: when a candle of a timeframe exists, so do all the
  candles of a finer timeframe inside it, and its prices are the first opening price, the last closing
  price and the extreme prices of those.\<close>

theorem timeframes_nest:
  assumes "aggregate_candles cs tf expected = Some a" "0 \<le> ag_open_time a"
    and "timeframe_minutes tf = int m * timeframe_minutes sub"
  shows "\<exists>b. (\<forall>k<m. aggregate_candles (filter (\<lambda>c. interval_start (m1_open_time c) sub =
        ag_open_time a + minutes (timeframe_minutes sub) * int k) cs) sub None = Some (b k)) \<and>
      ag_open a = ag_open (b 0) \<and> ag_close a = ag_close (b (m - 1)) \<and>
      ag_high a = Max ((\<lambda>k. ag_high (b k)) ` {..<m}) \<and> ag_low a = Min ((\<lambda>k. ag_low (b k)) ` {..<m})"
proof -
  let ?t = "\<lambda>k. ag_open_time a + minutes (timeframe_minutes sub) * int k"
  let ?P = "\<lambda>k. filter (\<lambda>c. interval_of sub c = ?t k) cs"
  note f = aggregate_fields [OF assms(1)]
  have "\<forall>k<m. \<exists>b. aggregate_candles (?P k) sub None = Some b \<and> ag_open_time b = ?t k"
    using part_aggregate [OF assms(1,2,3)] by blast
  then obtain b where b: "\<And>k. k < m \<Longrightarrow> aggregate_candles (?P k) sub None = Some (b k)"
      "\<And>k. k < m \<Longrightarrow> ag_open_time (b k) = ?t k" by metis
  have "0 < int m * timeframe_minutes sub" using timeframe_minutes_pos(1) [of tf] assms(3) by simp
  then have m: "0 < m" by (simp add: zero_less_mult_iff)
  have total: "?t (m - 1) + minutes (timeframe_minutes sub) = ag_open_time a + minutes (timeframe_minutes tf)"
    using m by (simp add: assms(3) minutes_def of_nat_diff Suc_leI algebra_simps)
  note fb = aggregate_fields [OF b(1)]
  obtain c where c: "c \<in> set (?P 0)" "m1_open_time c = ag_open_time (b 0)"
    using complete_bounds(1) [OF fb(3) [OF m]] by blast
  have op: "ag_open a = ag_open (b 0)" using c fb(5) [OF m c] f(5) [of c] b(2) [OF m] by simp
  have m1: "m - 1 < m" using m by simp
  obtain c' where c': "c' \<in> set (?P (m - 1))" "m1_open_time c' + one_minute = ag_close_time (b (m - 1))"
    using complete_bounds(2) [OF fb(3) [OF m1]] fb(2) [OF m1] by metis
  have cl: "ag_close a = ag_close (b (m - 1))"
    using c' fb(6) [OF m1 c'] f(6) [of c'] total b(2) [OF m1] fb(2) [OF m1] f(2) by simp
  have un: "m1_high ` set cs = (\<Union>k<m. m1_high ` set (?P k))" "m1_low ` set cs = (\<Union>k<m. m1_low ` set (?P k))"
    using parts_cover [OF f(3) assms(2,3)] by (metis image_UN)+
  have ne: "set (?P k) \<noteq> {}" if "k < m" for k
    using sorted_minutes_nonempty [OF fb(3) [OF that]] by (metis set_empty)
  have "ag_high a = Max ((\<lambda>k. Max (m1_high ` set (?P k))) ` {..<m})"
    unfolding f(7) un using m ne by (intro Max_parts) auto
  also have "(\<lambda>k. Max (m1_high ` set (?P k))) ` {..<m} = (\<lambda>k. ag_high (b k)) ` {..<m}"
    by (rule image_cong [OF refl]) (simp only: fb(7) lessThan_iff)
  finally have hi: "ag_high a = Max ((\<lambda>k. ag_high (b k)) ` {..<m})" .
  have "ag_low a = Min ((\<lambda>k. Min (m1_low ` set (?P k))) ` {..<m})"
    unfolding f(8) un using m ne by (intro Max_parts) auto
  also have "(\<lambda>k. Min (m1_low ` set (?P k))) ` {..<m} = (\<lambda>k. ag_low (b k)) ` {..<m}"
    by (rule image_cong [OF refl]) (simp only: fb(8) lessThan_iff)
  finally have lo: "ag_low a = Min ((\<lambda>k. ag_low (b k)) ` {..<m})" .
  show ?thesis using b(1) op cl hi lo by (intro exI [of _ b]) (simp add: interval_of_def)
qed

lemma timeframes_nest_witness:
  "\<exists>a b. aggregate_candles (sample_minutes 15) TF_15m None = Some a \<and> ag_close a = 115 \<and>
     aggregate_candles (filter (\<lambda>c. interval_start (m1_open_time c) TF_5m = minutes 10) (sample_minutes 15)) TF_5m None = Some b \<and>
     ag_close a = ag_close b"
proof -
  have "map_option (\<lambda>a. (ag_open_time a, ag_close a)) (aggregate_candles (sample_minutes 15) TF_15m None) = Some (0, 115)"
    by code_simp
  then obtain a where a: "aggregate_candles (sample_minutes 15) TF_15m None = Some a" "ag_open_time a = 0" "ag_close a = 115"
    by auto
  from timeframes_nest [OF a(1), of 3 TF_5m] a(2) obtain b :: "nat \<Rightarrow> aggregated_candle" where
    b: "\<forall>k<3. aggregate_candles (filter (\<lambda>c. interval_start (m1_open_time c) TF_5m = minutes 5 * int k) (sample_minutes 15))
        TF_5m None = Some (b k)" "ag_close a = ag_close (b 2)"
    by auto
  have "minutes 5 * int 2 = minutes 10" by (simp add: minutes_def)
  with b(1) [rule_format, of 2] b(2) a show ?thesis by auto
qed

end
