(* ===== verification/Market_Data.thy ===== *)
theory Market_Data
  imports Aggregation "HOL-Library.Product_Lexorder"
begin

text \<open>
  \<open>src/src/crypto_smc/db/repositories/market_data.py\<close> over the tables of
  \<open>db/models/market_data.py\<close>: the one-minute candles, the checkpoint of each stream, the recorded
  gaps and the queue of aggregation jobs. A table is the list of its rows; an operation is one
  transaction, so an operation that raises leaves the tables as they were. One operation reads one
  moment of the clock (\<open>now\<close>). An \<open>INSERT \<dots> ON CONFLICT DO UPDATE\<close> is \<open>upsert\<close>; PostgreSQL
  refuses to update one row twice in one statement, which is the only error of these operations. The
  creation of partitions, foreign keys and columns filled by the database are not modelled; identities
  come from a sequence that is never reset.
\<close>

section \<open>Tables\<close>

record candle_row =
  cr_candle :: candle_1m
  cr_source :: string
  cr_updated_at :: instant

text \<open>The texts of errors, by the values they print.\<close>

datatype backfill_error =
    Raised py_exn
  | Wrong_Count int int
  | Wrong_Time instant instant

datatype stream_error =
    Live_Before_Checkpoint
  | Missing_Candles instant instant
  | Disconnected string
  | Backfill_Failed backfill_error

record checkpoint_row =
  ck_symbol :: string
  ck_stream :: string
  ck_state :: string
  ck_last_confirmed :: "instant option"
  ck_last_error :: "stream_error option"
  ck_updated_at :: instant

record gap_row =
  gp_id :: int
  gp_symbol :: string
  gp_stream :: string
  gp_start_time :: instant
  gp_end_time :: instant
  gp_status :: string
  gp_attempts :: int
  gp_error :: "backfill_error option"
  gp_recovered_at :: "instant option"

datatype job_state = Job_Pending | Job_Processing

record job_row =
  jb_id :: int
  jb_symbol :: string
  jb_timeframe :: timeframe
  jb_open_time :: instant
  jb_priority :: int
  jb_state :: job_state
  jb_attempts :: int
  jb_last_error :: "string option"
  jb_available_at :: instant
  jb_updated_at :: instant

record aggregate_row =
  ar_candle :: aggregated_candle
  ar_updated_at :: instant

record cursor_row =
  cu_symbol :: string
  cu_last_scanned :: "instant option"
  cu_updated_at :: instant

record snapshot_row =
  sn_id :: int
  sn_is_active :: bool

record member_row =
  um_snapshot_id :: int
  um_instrument_symbol :: "string option"
  um_market_cap_rank :: int
  um_is_selected :: bool

record instrument_row =
  in_symbol :: string
  in_launch_time :: instant

record market_db =
  md_candles :: "candle_row list"
  md_checkpoints :: "checkpoint_row list"
  md_gaps :: "gap_row list"
  md_next_gap :: int
  md_jobs :: "job_row list"
  md_next_job :: int
  md_aggregates :: "aggregate_row list"
  md_cursors :: "cursor_row list"
  md_snapshots :: "snapshot_row list"
  md_members :: "member_row list"
  md_instruments :: "instrument_row list"

text \<open>\<open>INSERT\<close> of \<open>r\<close>, or \<open>f\<close> on the row that has its key.\<close>

definition upsert :: "('r \<Rightarrow> 'k) \<Rightarrow> ('r \<Rightarrow> 'r) \<Rightarrow> 'r \<Rightarrow> 'r list \<Rightarrow> 'r list" where
  "upsert key f r rows =
     (if key r \<in> key ` set rows then map (\<lambda>x. if key x = key r then f x else x) rows else rows @ [r])"

definition candle_key :: "candle_row \<Rightarrow> string \<times> instant" where
  "candle_key r = (m1_symbol (cr_candle r), m1_open_time (cr_candle r))"

definition checkpoint_key :: "checkpoint_row \<Rightarrow> string \<times> string" where
  "checkpoint_key r = (ck_symbol r, ck_stream r)"

definition job_key :: "job_row \<Rightarrow> string \<times> timeframe \<times> instant" where
  "job_key r = (jb_symbol r, jb_timeframe r, jb_open_time r)"

section \<open>Queries\<close>

record market_target =
  tg_symbol :: string
  tg_market_cap_rank :: int
  tg_launch_time :: instant

definition list_active_targets :: "market_db \<Rightarrow> market_target list" where
  "list_active_targets db =
     sort_key tg_market_cap_rank
       [\<lparr>tg_symbol = in_symbol i, tg_market_cap_rank = um_market_cap_rank m, tg_launch_time = in_launch_time i\<rparr>.
         m \<leftarrow> md_members db, s \<leftarrow> md_snapshots db, i \<leftarrow> md_instruments db,
         sn_id s = um_snapshot_id m, um_instrument_symbol m = Some (in_symbol i), sn_is_active s, um_is_selected m]"

definition list_active_symbols :: "market_db \<Rightarrow> string list" where
  "list_active_symbols db = map tg_symbol (list_active_targets db)"

definition find_checkpoint :: "string \<Rightarrow> string \<Rightarrow> market_db \<Rightarrow> checkpoint_row option" where
  "find_checkpoint symb stream db =
     List.find (\<lambda>r. ck_symbol r = symb \<and> ck_stream r = stream) (md_checkpoints db)"

text \<open>\<open>get_checkpoints\<close>: the later row wins where a symbol would occur twice.\<close>

definition get_checkpoints :: "string \<Rightarrow> market_db \<Rightarrow> (string \<times> checkpoint_row) list" where
  "get_checkpoints stream db =
     foldl (\<lambda>d r. od_put (ck_symbol r) r d) [] (filter (\<lambda>r. ck_stream r = stream) (md_checkpoints db))"

section \<open>Statements\<close>

text \<open>The \<open>CASE\<close> of \<open>_upsert_checkpoint\<close>: the last confirmed minute never moves back.\<close>

definition later_confirmed :: "instant option \<Rightarrow> instant option \<Rightarrow> instant option" where
  "later_confirmed old new =
     (case (old, new) of
        (None, _) \<Rightarrow> new
      | (Some t, None) \<Rightarrow> Some t
      | (Some t, Some u) \<Rightarrow> Some (max t u))"

definition upsert_checkpoint ::
  "instant \<Rightarrow> string \<Rightarrow> string \<Rightarrow> string \<Rightarrow> instant option \<Rightarrow> stream_error option \<Rightarrow> bool \<Rightarrow> market_db \<Rightarrow> market_db" where
  "upsert_checkpoint now symb stream state confirmed err preserve db =
     db\<lparr>md_checkpoints := upsert checkpoint_key
       (\<lambda>r. r\<lparr>ck_state := state, ck_last_error := err, ck_updated_at := now,
          ck_last_confirmed := (if preserve then ck_last_confirmed r
            else later_confirmed (ck_last_confirmed r) confirmed)\<rparr>)
       \<lparr>ck_symbol = symb, ck_stream = stream, ck_state = state, ck_last_confirmed = confirmed,
         ck_last_error = err, ck_updated_at = now\<rparr>
       (md_checkpoints db)\<rparr>"

definition put_candle :: "instant \<Rightarrow> string \<Rightarrow> candle_row list \<Rightarrow> candle_1m \<Rightarrow> candle_row list" where
  "put_candle now source rows c =
     upsert candle_key (\<lambda>_. \<lparr>cr_candle = c, cr_source = source, cr_updated_at = now\<rparr>)
       \<lparr>cr_candle = c, cr_source = source, cr_updated_at = now\<rparr> rows"

definition upsert_candles :: "instant \<Rightarrow> candle_1m list \<Rightarrow> string \<Rightarrow> market_db \<Rightarrow> market_db res" where
  "upsert_candles now cs source db =
     rbind (raise_if (\<not> distinct (map (\<lambda>c. (m1_symbol c, m1_open_time c)) cs))
       (RuntimeError ''CardinalityViolation'')) (\<lambda>_.
     Inr (db\<lparr>md_candles := foldl (put_candle now source) (md_candles db) cs\<rparr>))"

fun timeframe_name :: "timeframe \<Rightarrow> string" where
  "timeframe_name TF_5m = ''5m''"
| "timeframe_name TF_15m = ''15m''"
| "timeframe_name TF_1h = ''1h''"
| "timeframe_name TF_4h = ''4h''"

definition completes_interval :: "candle_1m \<Rightarrow> timeframe \<Rightarrow> bool" where
  "completes_interval c tf \<longleftrightarrow>
     m1_open_time c + one_minute = interval_end (interval_start (m1_open_time c) tf) tf"

definition aggregation_jobs :: "candle_1m list \<Rightarrow> bool \<Rightarrow> (string \<times> timeframe \<times> instant) list" where
  "aggregation_jobs cs completed_only =
     sort_key (\<lambda>(symb, tf, t). (symb, timeframe_name tf, t))
       (dedup [(m1_symbol c, tf, interval_start (m1_open_time c) tf).
          c \<leftarrow> cs, tf \<leftarrow> timeframes, \<not> (completed_only \<and> \<not> completes_interval c tf)])"

definition enqueue_job :: "instant \<Rightarrow> int \<Rightarrow> market_db \<Rightarrow> string \<times> timeframe \<times> instant \<Rightarrow> market_db" where
  "enqueue_job now priority db k =
     (case k of (symb, tf, t) \<Rightarrow>
       db\<lparr>md_next_job := md_next_job db + 1,
         md_jobs := upsert job_key
           (\<lambda>r. r\<lparr>jb_priority := min (jb_priority r) priority, jb_state := Job_Pending, jb_last_error := None,
              jb_available_at := now, jb_updated_at := now\<rparr>)
           \<lparr>jb_id = md_next_job db, jb_symbol = symb, jb_timeframe = tf, jb_open_time = t,
             jb_priority = priority, jb_state = Job_Pending, jb_attempts = 0, jb_last_error = None,
             jb_available_at = now, jb_updated_at = now\<rparr>
           (md_jobs db)\<rparr>)"

definition enqueue_aggregation_jobs :: "instant \<Rightarrow> candle_1m list \<Rightarrow> int \<Rightarrow> bool \<Rightarrow> market_db \<Rightarrow> market_db" where
  "enqueue_aggregation_jobs now cs priority completed_only db =
     foldl (enqueue_job now priority) db (aggregation_jobs cs completed_only)"

section \<open>Operations\<close>

definition start_gap ::
  "instant \<Rightarrow> string \<Rightarrow> string \<Rightarrow> instant \<Rightarrow> instant \<Rightarrow> market_db \<Rightarrow> int \<times> market_db" where
  "start_gap now symb stream starts ends db =
     (let i = md_next_gap db;
          db = db\<lparr>md_next_gap := i + 1, md_gaps := md_gaps db @ [\<lparr>gp_id = i, gp_symbol = symb, gp_stream = stream,
            gp_start_time = starts, gp_end_time = ends, gp_status = ''recovering'', gp_attempts = 1,
            gp_error = None, gp_recovered_at = None\<rparr>]\<rparr>
      in (i, upsert_checkpoint now symb stream ''recovering'' None None True db))"

definition save_batch :: "instant \<Rightarrow> string \<Rightarrow> string \<Rightarrow> candle_1m list \<Rightarrow> market_db \<Rightarrow> market_db res" where
  "save_batch now symb stream cs db =
     (if cs = [] then Inr db
      else rbind (upsert_candles now cs ''rest'' db) (\<lambda>db.
        Inr (upsert_checkpoint now symb stream ''recovering'' (Some (m1_open_time (last cs))) None False
          (enqueue_aggregation_jobs now cs 100 False db))))"

datatype ingest_result = Ingest_Ready | Ingest_Duplicate | Ingest_Gap

definition ingest_live_candle ::
  "instant \<Rightarrow> string \<Rightarrow> candle_1m \<Rightarrow> market_db \<Rightarrow> (ingest_result \<times> market_db) res" where
  "ingest_live_candle now stream c db =
     (let checkpoint = find_checkpoint (m1_symbol c) stream db in
      rbind (upsert_candles now [c] ''websocket'' db) (\<lambda>db.
      let db = enqueue_aggregation_jobs now [c] 0 True db in
      case (case checkpoint of None \<Rightarrow> None | Some r \<Rightarrow> ck_last_confirmed r) of
        None \<Rightarrow> Inr (Ingest_Gap, upsert_checkpoint now (m1_symbol c) stream ''degraded'' None
            (Some Live_Before_Checkpoint) True db)
      | Some confirmed \<Rightarrow>
          let expected = confirmed + one_minute in
          if m1_open_time c \<le> confirmed then Inr (Ingest_Duplicate, db)
          else if m1_open_time c = expected
            then Inr (Ingest_Ready, upsert_checkpoint now (m1_symbol c) stream ''ready''
              (Some (m1_open_time c)) None False db)
          else Inr (Ingest_Gap, upsert_checkpoint now (m1_symbol c) stream ''degraded'' None
              (Some (Missing_Candles expected (m1_open_time c - one_minute))) True db)))"

definition repair_candles :: "instant \<Rightarrow> candle_1m list \<Rightarrow> market_db \<Rightarrow> market_db res" where
  "repair_candles now cs db =
     (if cs = [] then Inr db
      else rbind (upsert_candles now cs ''rest'' db) (\<lambda>db.
        Inr (enqueue_aggregation_jobs now cs 10 False db)))"

definition mark_stream_state ::
  "instant \<Rightarrow> string list \<Rightarrow> string \<Rightarrow> string \<Rightarrow> stream_error option \<Rightarrow> market_db \<Rightarrow> market_db" where
  "mark_stream_state now symbols stream state err db =
     foldl (\<lambda>db symb. upsert_checkpoint now symb stream state None err True db) db symbols"

definition mark_inactive_streams :: "instant \<Rightarrow> string list \<Rightarrow> string \<Rightarrow> market_db \<Rightarrow> market_db" where
  "mark_inactive_streams now active stream db =
     db\<lparr>md_checkpoints := map (\<lambda>r. if ck_stream r = stream \<and> \<not> (active \<noteq> [] \<and> ck_symbol r \<in> set active)
       then r\<lparr>ck_state := ''offline'', ck_last_error := None, ck_updated_at := now\<rparr> else r) (md_checkpoints db)\<rparr>"

definition update_gap :: "int option \<Rightarrow> (gap_row \<Rightarrow> gap_row) \<Rightarrow> market_db \<Rightarrow> market_db" where
  "update_gap gap f db =
     (case gap of None \<Rightarrow> db
      | Some i \<Rightarrow> db\<lparr>md_gaps := map (\<lambda>g. if gp_id g = i then f g else g) (md_gaps db)\<rparr>)"

definition complete_gap :: "instant \<Rightarrow> int option \<Rightarrow> string \<Rightarrow> string \<Rightarrow> instant \<Rightarrow> market_db \<Rightarrow> market_db" where
  "complete_gap now gap symb stream confirmed db =
     upsert_checkpoint now symb stream ''ready'' (Some confirmed) None False
       (update_gap gap (\<lambda>g. g\<lparr>gp_status := ''recovered'', gp_recovered_at := Some now, gp_error := None\<rparr>) db)"

definition fail_gap :: "instant \<Rightarrow> int option \<Rightarrow> string \<Rightarrow> string \<Rightarrow> backfill_error \<Rightarrow> market_db \<Rightarrow> market_db" where
  "fail_gap now gap symb stream err db =
     upsert_checkpoint now symb stream ''degraded'' None (Some (Backfill_Failed err)) True
       (update_gap gap (\<lambda>g. g\<lparr>gp_status := ''failed'', gp_error := Some err\<rparr>) db)"

definition load_reconciled_1m_window ::
  "string \<Rightarrow> instant \<Rightarrow> instant \<Rightarrow> string \<Rightarrow> market_db \<Rightarrow> candle_1m list" where
  "load_reconciled_1m_window symb starts ends stream db =
     (if ends < starts then []
      else case find_checkpoint symb stream db of
        None \<Rightarrow> []
      | Some r \<Rightarrow>
          if ck_state r \<noteq> ''ready'' \<or> (case ck_last_confirmed r of None \<Rightarrow> True | Some t \<Rightarrow> t < ends) then []
          else
            let records = sort_key m1_open_time (filter (\<lambda>c. m1_symbol c = symb \<and> starts \<le> m1_open_time c \<and>
                  m1_open_time c \<le> ends) (map cr_candle (md_candles db)));
                expected_count = (ends - starts) div one_minute + 1
            in if int (length records) \<noteq> expected_count then []
               else if \<exists>(i, c) \<in> set (enumerate0 records). m1_open_time c \<noteq> starts + minutes (int i) then []
               else records)"

record market_status =
  ms_states :: "(string \<times> int) list"
  ms_unresolved_gaps :: int
  ms_latest_candle :: "instant option"
  ms_candle_count :: int

definition market_status_summary :: "market_db \<Rightarrow> market_status" where
  "market_status_summary db =
     \<lparr>ms_states = map (\<lambda>s. (s, int (length (filter (\<lambda>r. ck_state r = s) (md_checkpoints db)))))
        (sort (dedup (map ck_state (md_checkpoints db)))),
      ms_unresolved_gaps = int (length (filter (\<lambda>g. gp_status g \<in> {''recovering'', ''failed''}) (md_gaps db))),
      ms_latest_candle = (case map (\<lambda>r. m1_open_time (cr_candle r)) (md_candles db) of
         [] \<Rightarrow> None | t # ts \<Rightarrow> Some (Max (set (t # ts)))),
      ms_candle_count = int (length (md_candles db))\<rparr>"

definition checkpoint_details :: "market_db \<Rightarrow> checkpoint_row list" where
  "checkpoint_details db = sort_key ck_symbol (md_checkpoints db)"

section \<open>Rows\<close>

lemma find_Some_mem: "List.find P xs = Some x \<Longrightarrow> x \<in> set xs \<and> P x"
  by (auto simp: find_Some_iff)

lemma find_upsert:
  assumes f: "\<And>x. key x = key r \<Longrightarrow> key (f x) = key r"
  shows "List.find (\<lambda>x. key x = k) (upsert key f r rows) =
    (if k = key r then Some (case List.find (\<lambda>x. key x = k) rows of None \<Rightarrow> r | Some x \<Rightarrow> f x)
     else List.find (\<lambda>x. key x = k) rows)"
proof (cases "key r \<in> key ` set rows")
  case True
  have "List.find (\<lambda>x. key x = k) (map (\<lambda>x. if key x = key r then f x else x) rows) =
      (if k = key r \<and> List.find (\<lambda>x. key x = k) rows \<noteq> None
       then map_option f (List.find (\<lambda>x. key x = k) rows) else List.find (\<lambda>x. key x = k) rows)"
    using f by (induction rows) auto
  moreover have "List.find (\<lambda>x. key x = key r) rows \<noteq> None" using True by (auto simp: find_None_iff)
  ultimately show ?thesis using True by (auto simp: upsert_def)
next
  case False
  then have "List.find (\<lambda>x. key x = key r) rows = None" by (metis (mono_tags, lifting) find_None_iff imageI)
  with False show ?thesis by (auto simp: upsert_def find_append split: option.splits)
qed

lemma upsert_keys:
  assumes "\<And>x. key x = key r \<Longrightarrow> key (f x) = key r"
  shows "key ` set (upsert key f r rows) = insert (key r) (key ` set rows)"
proof -
  have "key \<circ> (\<lambda>x. if key x = key r then f x else x) = key"
    using assms by (intro ext) simp
  then have "key ` set (map (\<lambda>x. if key x = key r then f x else x) rows) = key ` set rows"
    unfolding list.set_map image_comp by simp
  then show ?thesis by (auto simp: upsert_def)
qed

lemma upsert_distinct:
  assumes "\<And>x. key x = key r \<Longrightarrow> key (f x) = key r" "distinct (map key rows)"
  shows "distinct (map key (upsert key f r rows))"
proof -
  have "map key (map (\<lambda>x. if key x = key r then f x else x) rows) = map key rows"
    using assms(1) by (induction rows) auto
  with assms(2) show ?thesis by (auto simp: upsert_def simp del: map_map)
qed

lemma map_upsert:
  assumes "\<And>x. g (f x) = g x"
  shows "map g (upsert key f r rows) = (if key r \<in> key ` set rows then map g rows else map g rows @ [g r])"
proof -
  have "g \<circ> (\<lambda>x. if key x = key r then f x else x) = g" using assms by (intro ext) simp
  then show ?thesis by (simp add: upsert_def)
qed

text \<open>The predicates and the invariant of the tables.\<close>

definition stored :: "market_db \<Rightarrow> string \<Rightarrow> instant \<Rightarrow> bool" where
  "stored db symb t \<longleftrightarrow> (symb, t) \<in> candle_key ` set (md_candles db)"

definition confirmed :: "string \<Rightarrow> string \<Rightarrow> market_db \<Rightarrow> instant option" where
  "confirmed symb stream db =
     (case find_checkpoint symb stream db of None \<Rightarrow> None | Some r \<Rightarrow> ck_last_confirmed r)"

definition market_ok :: "market_db \<Rightarrow> bool" where
  "market_ok db \<longleftrightarrow> distinct (map candle_key (md_candles db)) \<and>
     distinct (map checkpoint_key (md_checkpoints db)) \<and>
     distinct (map job_key (md_jobs db)) \<and> distinct (map jb_id (md_jobs db)) \<and>
     (\<forall>r \<in> set (md_jobs db). jb_id r < md_next_job db)"

lemma find_checkpoint_alt:
  "find_checkpoint symb stream db = List.find (\<lambda>r. checkpoint_key r = (symb, stream)) (md_checkpoints db)"
  by (simp add: find_checkpoint_def checkpoint_key_def)

lemma checkpoints_upsert:
  "md_checkpoints (upsert_checkpoint now symb stream state t err preserve db) = upsert checkpoint_key
     (\<lambda>r. r\<lparr>ck_state := state, ck_last_error := err, ck_updated_at := now,
        ck_last_confirmed := (if preserve then ck_last_confirmed r
          else later_confirmed (ck_last_confirmed r) t)\<rparr>)
     \<lparr>ck_symbol = symb, ck_stream = stream, ck_state = state, ck_last_confirmed = t,
       ck_last_error = err, ck_updated_at = now\<rparr>
     (md_checkpoints db)"
  by (simp add: upsert_checkpoint_def)

lemma find_checkpoint_upsert:
  "find_checkpoint s' st' (upsert_checkpoint now symb stream state t err preserve db) =
    (if s' = symb \<and> st' = stream
     then Some (case find_checkpoint symb stream db of
         None \<Rightarrow> \<lparr>ck_symbol = symb, ck_stream = stream, ck_state = state, ck_last_confirmed = t,
           ck_last_error = err, ck_updated_at = now\<rparr>
       | Some r \<Rightarrow> r\<lparr>ck_state := state, ck_last_error := err, ck_updated_at := now,
           ck_last_confirmed := (if preserve then ck_last_confirmed r
             else later_confirmed (ck_last_confirmed r) t)\<rparr>)
     else find_checkpoint s' st' db)"
  unfolding find_checkpoint_alt checkpoints_upsert
  by (subst find_upsert) (auto simp: checkpoint_key_def)

lemma later_confirmed_None [simp]: "later_confirmed x None = x"
  by (cases x) (simp_all add: later_confirmed_def)

lemma confirmed_upsert:
  "confirmed s' st' (upsert_checkpoint now symb stream state t err preserve db) =
    (if s' = symb \<and> st' = stream
     then (if preserve \<and> find_checkpoint symb stream db \<noteq> None then confirmed symb stream db
       else later_confirmed (confirmed symb stream db) t)
     else confirmed s' st' db)"
  by (auto simp: confirmed_def find_checkpoint_upsert later_confirmed_def split: option.splits)

lemma confirmed_preserved [simp]:
  "confirmed s' st' (upsert_checkpoint now symb stream state None err True db) = confirmed s' st' db"
  by (auto simp: confirmed_upsert)

lemma upsert_checkpoint_frame [simp]:
  "md_candles (upsert_checkpoint now symb stream state t err preserve db) = md_candles db"
  "md_jobs (upsert_checkpoint now symb stream state t err preserve db) = md_jobs db"
  "md_next_job (upsert_checkpoint now symb stream state t err preserve db) = md_next_job db"
  "md_members (upsert_checkpoint now symb stream state t err preserve db) = md_members db"
  "md_snapshots (upsert_checkpoint now symb stream state t err preserve db) = md_snapshots db"
  "md_instruments (upsert_checkpoint now symb stream state t err preserve db) = md_instruments db"
  by (simp_all add: upsert_checkpoint_def)

lemma enqueue_job_frame [simp]:
  "md_candles (enqueue_job now p db k) = md_candles db"
  "md_checkpoints (enqueue_job now p db k) = md_checkpoints db"
  "md_members (enqueue_job now p db k) = md_members db"
  "md_snapshots (enqueue_job now p db k) = md_snapshots db"
  "md_instruments (enqueue_job now p db k) = md_instruments db"
  by (simp_all add: enqueue_job_def split: prod.splits)

lemma fold_jobs_frame:
  "md_candles (foldl (enqueue_job now p) db ks) = md_candles db"
  "md_checkpoints (foldl (enqueue_job now p) db ks) = md_checkpoints db"
  "md_members (foldl (enqueue_job now p) db ks) = md_members db"
  "md_snapshots (foldl (enqueue_job now p) db ks) = md_snapshots db"
  "md_instruments (foldl (enqueue_job now p) db ks) = md_instruments db"
  by (induction ks arbitrary: db) simp_all

lemma enqueue_frame [simp]:
  "md_candles (enqueue_aggregation_jobs now cs p b db) = md_candles db"
  "md_checkpoints (enqueue_aggregation_jobs now cs p b db) = md_checkpoints db"
  "md_members (enqueue_aggregation_jobs now cs p b db) = md_members db"
  "md_snapshots (enqueue_aggregation_jobs now cs p b db) = md_snapshots db"
  "md_instruments (enqueue_aggregation_jobs now cs p b db) = md_instruments db"
  by (simp_all add: enqueue_aggregation_jobs_def fold_jobs_frame)

lemma stored_frame: "md_candles db' = md_candles db \<Longrightarrow> stored db' symb t = stored db symb t"
  by (simp add: stored_def)

lemma stored_frames [simp]:
  "stored (upsert_checkpoint now s stream state t' err preserve db) symb t = stored db symb t"
  "stored (enqueue_aggregation_jobs now cs p b db) symb t = stored db symb t"
  by (simp_all add: stored_def)

lemma confirmed_enqueue [simp]:
  "confirmed symb stream (enqueue_aggregation_jobs now cs p b db) = confirmed symb stream db"
  "find_checkpoint symb stream (enqueue_aggregation_jobs now cs p b db) = find_checkpoint symb stream db"
  by (simp_all add: confirmed_def find_checkpoint_def)

lemma upsert_candles_ok:
  assumes "upsert_candles now cs source db = Inr db'"
  shows "stored db' symb t \<longleftrightarrow> stored db symb t \<or> (\<exists>c \<in> set cs. m1_symbol c = symb \<and> m1_open_time c = t)"
    and "md_checkpoints db' = md_checkpoints db" "md_jobs db' = md_jobs db" "md_next_job db' = md_next_job db"
    and "md_members db' = md_members db" "md_snapshots db' = md_snapshots db" "md_instruments db' = md_instruments db"
    and "distinct (map candle_key (md_candles db)) \<Longrightarrow> distinct (map candle_key (md_candles db'))"
    and "md_gaps db' = md_gaps db" "md_next_gap db' = md_next_gap db"
    and "md_aggregates db' = md_aggregates db" "md_cursors db' = md_cursors db"
proof -
  have e: "db' = db\<lparr>md_candles := foldl (put_candle now source) (md_candles db) cs\<rparr>"
    using assms by (auto simp: upsert_candles_def)
  then show "md_checkpoints db' = md_checkpoints db" "md_jobs db' = md_jobs db" "md_next_job db' = md_next_job db"
    "md_members db' = md_members db" "md_snapshots db' = md_snapshots db" "md_instruments db' = md_instruments db"
    "md_gaps db' = md_gaps db" "md_next_gap db' = md_next_gap db"
    "md_aggregates db' = md_aggregates db" "md_cursors db' = md_cursors db"
    by simp_all
  have k: "candle_key ` set (put_candle now source rows c) =
      insert (m1_symbol c, m1_open_time c) (candle_key ` set rows)" for rows c
    unfolding put_candle_def by (subst upsert_keys) (simp_all add: candle_key_def)
  have "candle_key ` set (foldl (put_candle now source) rows cs) =
      (\<lambda>c. (m1_symbol c, m1_open_time c)) ` set cs \<union> candle_key ` set rows" for rows
    by (induction cs arbitrary: rows) (auto simp: k)
  then show "stored db' symb t \<longleftrightarrow> stored db symb t \<or> (\<exists>c \<in> set cs. m1_symbol c = symb \<and> m1_open_time c = t)"
    by (auto simp: e stored_def)
  have d: "distinct (map candle_key rows) \<Longrightarrow> distinct (map candle_key (put_candle now source rows c))" for rows c
    unfolding put_candle_def by (rule upsert_distinct) (simp_all add: candle_key_def)
  have "distinct (map candle_key rows) \<Longrightarrow> distinct (map candle_key (foldl (put_candle now source) rows cs))" for rows
    by (induction cs arbitrary: rows) (simp_all add: d)
  then show "distinct (map candle_key (md_candles db)) \<Longrightarrow> distinct (map candle_key (md_candles db'))"
    by (simp add: e)
qed

lemma confirmed_upsert_candles [simp]:
  "upsert_candles now cs source db = Inr db' \<Longrightarrow> confirmed symb stream db' = confirmed symb stream db"
  "upsert_candles now cs source db = Inr db' \<Longrightarrow> find_checkpoint symb stream db' = find_checkpoint symb stream db"
  using upsert_candles_ok(2) by (simp_all add: confirmed_def find_checkpoint_def)

section \<open>The job queue\<close>

definition find_job :: "string \<times> timeframe \<times> instant \<Rightarrow> market_db \<Rightarrow> job_row option" where
  "find_job k db = List.find (\<lambda>r. job_key r = k) (md_jobs db)"

lemma find_job_enqueue:
  "find_job k (enqueue_job now p db k') =
     (if k = k' then Some (case find_job k db of
         None \<Rightarrow> \<lparr>jb_id = md_next_job db, jb_symbol = fst k, jb_timeframe = fst (snd k), jb_open_time = snd (snd k),
           jb_priority = p, jb_state = Job_Pending, jb_attempts = 0, jb_last_error = None,
           jb_available_at = now, jb_updated_at = now\<rparr>
       | Some r \<Rightarrow> r\<lparr>jb_priority := min (jb_priority r) p, jb_state := Job_Pending, jb_last_error := None,
           jb_available_at := now, jb_updated_at := now\<rparr>)
      else find_job k db)"
proof -
  obtain symb tf t where k': "k' = (symb, tf, t)" by (cases k')
  have j: "md_jobs (enqueue_job now p db k') = upsert job_key
      (\<lambda>r. r\<lparr>jb_priority := min (jb_priority r) p, jb_state := Job_Pending, jb_last_error := None,
         jb_available_at := now, jb_updated_at := now\<rparr>)
      \<lparr>jb_id = md_next_job db, jb_symbol = symb, jb_timeframe = tf, jb_open_time = t,
        jb_priority = p, jb_state = Job_Pending, jb_attempts = 0, jb_last_error = None,
        jb_available_at = now, jb_updated_at = now\<rparr> (md_jobs db)"
    by (simp add: enqueue_job_def k')
  show ?thesis
    unfolding find_job_def j by (subst find_upsert) (auto simp: job_key_def k' split: option.splits)
qed

definition freshly_queued :: "instant \<Rightarrow> string \<times> timeframe \<times> instant \<Rightarrow> market_db \<Rightarrow> bool" where
  "freshly_queued now k db \<longleftrightarrow> (case find_job k db of None \<Rightarrow> False
     | Some r \<Rightarrow> jb_state r = Job_Pending \<and> jb_available_at r = now \<and> jb_updated_at r = now)"

lemma freshly_queued_enqueue:
  "freshly_queued now k db \<or> k = k' \<Longrightarrow> freshly_queued now k (enqueue_job now p db k')"
  by (auto simp: freshly_queued_def find_job_enqueue split: option.splits)

lemma freshly_queued_all:
  "k \<in> set (aggregation_jobs cs b) \<Longrightarrow> freshly_queued now k (enqueue_aggregation_jobs now cs p b db)"
proof -
  have "freshly_queued now k db \<or> k \<in> set ks \<Longrightarrow> freshly_queued now k (foldl (enqueue_job now p) db ks)" for ks db
    by (induction ks arbitrary: db) (auto intro: freshly_queued_enqueue)
  then show "k \<in> set (aggregation_jobs cs b) \<Longrightarrow> ?thesis" by (simp add: enqueue_aggregation_jobs_def)
qed

lemma aggregation_jobs_set:
  "k \<in> set (aggregation_jobs cs b) \<longleftrightarrow>
     (\<exists>c \<in> set cs. \<exists>tf. k = (m1_symbol c, tf, interval_start (m1_open_time c) tf) \<and> (b \<longrightarrow> completes_interval c tf))"
proof -
  have "tf \<in> set timeframes" for tf by (cases tf) (simp_all add: timeframes_def)
  then show ?thesis by (auto simp: aggregation_jobs_def)
qed

text \<open>Every operation keeps the keys of the tables unique and the identities below the sequence.\<close>

lemma ids_below:
  assumes "xs = ys \<or> xs = ys @ [n]" "distinct ys" "\<forall>i \<in> set ys. i < n"
  shows "distinct xs \<and> (\<forall>i \<in> set xs. i < n + (1 :: int))"
  using assms by (auto intro: less_imp_le)

lemma market_ok_enqueue_job:
  assumes "market_ok db" shows "market_ok (enqueue_job now p db k)"
proof -
  obtain symb tf t where k: "k = (symb, tf, t)" by (cases k)
  have keys: "distinct (map job_key (md_jobs (enqueue_job now p db k)))"
    using assms by (simp add: enqueue_job_def k market_ok_def) (rule upsert_distinct; simp add: job_key_def)
  have ids: "map jb_id (md_jobs (enqueue_job now p db k)) = map jb_id (md_jobs db) \<or>
      map jb_id (md_jobs (enqueue_job now p db k)) = map jb_id (md_jobs db) @ [md_next_job db]"
    unfolding enqueue_job_def k prod.case by (simp add: map_upsert)
  have bound: "\<forall>i \<in> set (map jb_id (md_jobs db)). i < md_next_job db"
    and dist: "distinct (map jb_id (md_jobs db))" using assms by (simp_all add: market_ok_def)
  have next_id: "md_next_job (enqueue_job now p db k) = md_next_job db + 1" by (simp add: enqueue_job_def k)
  have "distinct (map jb_id (md_jobs (enqueue_job now p db k))) \<and>
      (\<forall>i \<in> set (map jb_id (md_jobs (enqueue_job now p db k))). i < md_next_job (enqueue_job now p db k))"
    unfolding next_id by (rule ids_below [OF ids dist bound])
  with keys show ?thesis using assms by (simp add: market_ok_def)
qed

lemma market_ok_enqueue: "market_ok db \<Longrightarrow> market_ok (enqueue_aggregation_jobs now cs p b db)"
proof -
  have "market_ok db \<Longrightarrow> market_ok (foldl (enqueue_job now p) db ks)" for ks
    by (induction ks arbitrary: db) (simp_all add: market_ok_enqueue_job)
  then show "market_ok db \<Longrightarrow> ?thesis" by (simp add: enqueue_aggregation_jobs_def)
qed

lemma market_ok_upsert_checkpoint:
  "market_ok db \<Longrightarrow> market_ok (upsert_checkpoint now symb stream state t err preserve db)"
  unfolding market_ok_def checkpoints_upsert upsert_checkpoint_frame
  by (auto intro!: upsert_distinct simp: checkpoint_key_def)

lemma market_ok_upsert_candles: "upsert_candles now cs source db = Inr db' \<Longrightarrow> market_ok db \<Longrightarrow> market_ok db'"
  using upsert_candles_ok(2,3,4,8) [of now cs source db db'] by (simp add: market_ok_def)

lemma market_ok_update_gap: "market_ok (update_gap gap f db) = market_ok db"
  by (simp add: update_gap_def market_ok_def split: option.splits)

lemmas market_ok_intros = market_ok_enqueue market_ok_upsert_checkpoint market_ok_upsert_candles

lemma update_gap_frame [simp]:
  "md_candles (update_gap gap f db) = md_candles db" "md_checkpoints (update_gap gap f db) = md_checkpoints db"
  "md_jobs (update_gap gap f db) = md_jobs db" "md_next_job (update_gap gap f db) = md_next_job db"
  "confirmed symb stream (update_gap gap f db) = confirmed symb stream db"
  by (simp_all add: update_gap_def confirmed_def find_checkpoint_def split: option.splits)

text \<open>The tables the selection of the universe writes.\<close>

definition universe_of :: "market_db \<Rightarrow> snapshot_row list \<times> member_row list \<times> instrument_row list" where
  "universe_of db = (md_snapshots db, md_members db, md_instruments db)"

lemma universe_of_frame [simp]:
  "universe_of (upsert_checkpoint now symb stream state t err preserve db) = universe_of db"
  "universe_of (enqueue_aggregation_jobs now cs p b db) = universe_of db"
  "universe_of (update_gap gap f db) = universe_of db"
  "upsert_candles now cs source db = Inr db' \<Longrightarrow> universe_of db' = universe_of db"
  using upsert_candles_ok(5-7) [of now cs source db db']
  by (simp_all add: universe_of_def update_gap_def split: option.splits)

lemma save_batch_ok:
  assumes "save_batch now symb stream cs db = Inr db'" "cs \<noteq> []"
  shows "stored db' s t \<longleftrightarrow> stored db s t \<or> (\<exists>c \<in> set cs. m1_symbol c = s \<and> m1_open_time c = t)"
    and "confirmed s stream' db' = (if s = symb \<and> stream' = stream
      then later_confirmed (confirmed symb stream db) (Some (m1_open_time (last cs))) else confirmed s stream' db)"
    and "market_ok db \<Longrightarrow> market_ok db'"
    and "universe_of db' = universe_of db"
proof -
  obtain db1 where u: "upsert_candles now cs ''rest'' db = Inr db1" and
      e: "db' = upsert_checkpoint now symb stream ''recovering'' (Some (m1_open_time (last cs))) None False
        (enqueue_aggregation_jobs now cs 100 False db1)"
    using assms by (auto simp: save_batch_def)
  show "stored db' s t \<longleftrightarrow> stored db s t \<or> (\<exists>c \<in> set cs. m1_symbol c = s \<and> m1_open_time c = t)"
    using upsert_candles_ok(1) [OF u] by (simp add: e stored_def)
  show "confirmed s stream' db' = (if s = symb \<and> stream' = stream
      then later_confirmed (confirmed symb stream db) (Some (m1_open_time (last cs))) else confirmed s stream' db)"
    using u by (simp add: e confirmed_upsert)
  show "market_ok db \<Longrightarrow> market_ok db'" using u by (simp add: e market_ok_intros)
  show "universe_of db' = universe_of db" using upsert_candles_ok(5-7) [OF u] by (simp add: e universe_of_def)
qed

lemma save_batch_nil [simp]: "save_batch now symb stream [] db = Inr db"
  by (simp add: save_batch_def)

end
