(* ===== verification/Market_Stream.thy ===== *)
theory Market_Stream
  imports Market_Data
begin

text \<open>
  \<open>src/src/crypto_smc/market_data/backfill.py\<close> (\<open>MarketDataBackfillService\<close>) and \<open>live.py\<close>
  (\<open>LiveMarketDataService\<close>): how the stored minutes and their checkpoints advance, from the REST
  history and from the stream.

  What the surroundings answer during one operation is the record \<open>market_env\<close>: the clock, the time of
  the exchange's server and its closed one-minute candles, each of which may raise. The loop over the
  batches of one symbol may not end for a batch size below one, which is why it is an option;
  \<open>synchronisation_ends\<close> shows that it ends for every size the settings allow. The targets of one run
  of \<open>sync_once\<close> are synchronised in their order of priority; \<open>asyncio.gather\<close> may interleave them, but
  each touches the rows of its own symbol only.
\<close>

section \<open>backfill.py\<close>

record market_env =
  me_now :: instant
  me_server_time_ms :: "int res"
  me_klines :: "string \<Rightarrow> instant \<Rightarrow> instant \<Rightarrow> int \<Rightarrow> candle_1m list res"

record backfill_config =
  bf_initial_history_minutes :: int
  bf_batch_candles :: int

definition stream_name :: string where "stream_name = ''kline_1m''"

definition last_closed_minute :: "instant \<Rightarrow> instant" where
  "last_closed_minute server_time = minute_floor server_time - one_minute"

definition backfill_start :: "backfill_config \<Rightarrow> market_target \<Rightarrow> instant option \<Rightarrow> instant \<Rightarrow> instant" where
  "backfill_start k target checkpoint_time last_closed =
     (case checkpoint_time of
        Some t \<Rightarrow> t + one_minute
      | None \<Rightarrow>
          let history_start = last_closed - one_minute * (bf_initial_history_minutes k - 1);
              launch_minute = minute_floor (tg_launch_time target)
          in max history_start launch_minute)"

definition requires_gap :: "instant option \<Rightarrow> instant \<Rightarrow> instant \<Rightarrow> bool" where
  "requires_gap checkpoint_time starts ends \<longleftrightarrow> checkpoint_time = None \<or> starts < ends"

definition validate_contiguous :: "candle_1m list \<Rightarrow> instant \<Rightarrow> instant \<Rightarrow> backfill_error + unit" where
  "validate_contiguous cs starts ends =
     (let expected_count = (ends - starts) div one_minute + 1 in
      if int (length cs) \<noteq> expected_count then Inl (Wrong_Count expected_count (int (length cs)))
      else case List.find (\<lambda>(i, c). m1_open_time c \<noteq> starts + one_minute * int i) (enumerate0 cs) of
          Some (i, c) \<Rightarrow> Inl (Wrong_Time (starts + one_minute * int i) (m1_open_time c))
        | None \<Rightarrow> Inr ())"

definition sync_batch ::
  "market_env \<Rightarrow> backfill_config \<Rightarrow> string \<Rightarrow> instant \<Rightarrow> instant \<Rightarrow> market_db \<Rightarrow> backfill_error + market_db" where
  "sync_batch env k symb cursor batch_end db =
     (case me_klines env symb cursor batch_end (bf_batch_candles k) of
        Inl e \<Rightarrow> Inl (Raised e)
      | Inr cs \<Rightarrow>
          (case validate_contiguous cs cursor batch_end of
             Inl e \<Rightarrow> Inl e
           | Inr _ \<Rightarrow>
               (case save_batch (me_now env) symb stream_name cs db of
                  Inl e \<Rightarrow> Inl (Raised e)
                | Inr db' \<Rightarrow> Inr db')))"

partial_function (option) sync_batches ::
  "market_env \<Rightarrow> backfill_config \<Rightarrow> string \<Rightarrow> instant \<Rightarrow> instant \<Rightarrow> market_db \<Rightarrow>
     (backfill_error option \<times> market_db) option" where
  "sync_batches env k symb last_closed cursor db =
     (if cursor \<le> last_closed then
        let batch_end = min (cursor + one_minute * (bf_batch_candles k - 1)) last_closed in
        case sync_batch env k symb cursor batch_end db of
          Inl e \<Rightarrow> Some (Some e, db)
        | Inr db' \<Rightarrow> sync_batches env k symb last_closed (batch_end + one_minute) db'
      else Some (None, db))"

datatype sync_result = Sync_Ready | Sync_Recovered | Sync_Failed

definition sync_target ::
  "market_env \<Rightarrow> backfill_config \<Rightarrow> market_target \<Rightarrow> instant option \<Rightarrow> instant \<Rightarrow> market_db \<Rightarrow>
     (sync_result \<times> market_db) option" where
  "sync_target env k target checkpoint_time last_closed db =
     (let symb = tg_symbol target; now = me_now env;
          start_time = backfill_start k target checkpoint_time last_closed in
      if start_time > last_closed then
        Some (Sync_Ready, case checkpoint_time of None \<Rightarrow> db
          | Some t \<Rightarrow> complete_gap now None symb stream_name t db)
      else
        let (gap_id, db) = (if requires_gap checkpoint_time start_time last_closed
              then (case start_gap now symb stream_name start_time last_closed db of (i, db) \<Rightarrow> (Some i, db))
              else (None, db)) in
        map_option (\<lambda>(failure, db). case failure of
            None \<Rightarrow> (Sync_Recovered, complete_gap now gap_id symb stream_name last_closed db)
          | Some e \<Rightarrow> (Sync_Failed, fail_gap now gap_id symb stream_name e db))
          (sync_batches env k symb last_closed start_time db))"

definition target_priority :: "market_target \<Rightarrow> int \<times> int" where
  "target_priority t =
     (if tg_symbol t = ''BTCUSDT'' then 0 else if tg_symbol t = ''ETHUSDT'' then 1 else 2, tg_market_cap_rank t)"

definition sync_targets ::
  "market_env \<Rightarrow> backfill_config \<Rightarrow> instant \<Rightarrow> (string \<times> checkpoint_row) list \<Rightarrow> market_target list \<Rightarrow>
     market_db \<Rightarrow> (sync_result list \<times> market_db) option" where
  "sync_targets env k last_closed checkpoints targets db =
     foldl (\<lambda>acc target. Option.bind acc (\<lambda>(results, db).
        map_option (\<lambda>(r, db). (results @ [r], db))
          (sync_target env k target
            (case map_of checkpoints (tg_symbol target) of None \<Rightarrow> None | Some r \<Rightarrow> ck_last_confirmed r)
            last_closed db)))
       (Some ([], db)) targets"

record sync_summary =
  sy_ready :: int
  sy_recovered :: int
  sy_failed :: int

definition sync_once :: "market_env \<Rightarrow> backfill_config \<Rightarrow> market_db \<Rightarrow> (sync_summary \<times> market_db) res option" where
  "sync_once env k db =
     (case me_server_time_ms env of
        Inl e \<Rightarrow> Some (Inl e)
      | Inr ms \<Rightarrow>
          let last_closed = last_closed_minute (ms * 1000);
              checkpoints = get_checkpoints stream_name db;
              prioritized = sort_key target_priority (list_active_targets db)
          in map_option (\<lambda>(results, db). Inr (\<lparr>
                sy_ready = int (length (filter (\<lambda>r. r = Sync_Ready) results)),
                sy_recovered = int (length (filter (\<lambda>r. r = Sync_Recovered) results)),
                sy_failed = int (length (filter (\<lambda>r. r = Sync_Failed) results))\<rparr>, db))
              (sync_targets env k last_closed checkpoints prioritized db))"

section \<open>live.py\<close>

datatype market_event =
    Closed_Candle candle_1m
  | Shard_Disconnected "string list" string
  | Shard_Reconnected "string list"

text \<open>The state of the service: the tables, the readiness event and the symbols of the stream.\<close>

record live =
  lv_db :: market_db
  lv_ready :: bool
  lv_symbols :: "string list"

definition active_symbols :: "market_db \<Rightarrow> string list" where
  "active_symbols db = sort (list_active_symbols db)"

text \<open>What a call leaves behind: the exception that ends it, if one does, and the state with the
  transactions committed before.\<close>

type_synonym live_outcome = "py_exn option \<times> live"

text \<open>\<open>sync_once\<close> between \<open>_mark_not_ready\<close> and \<open>_mark_ready\<close>; the event stays cleared when it raises,
  which it does before it writes anything.\<close>

definition resync :: "market_env \<Rightarrow> backfill_config \<Rightarrow> live \<Rightarrow> live_outcome option" where
  "resync env k st =
     map_option (\<lambda>r. case r of
         Inl e \<Rightarrow> (Some e, st)
       | Inr (summary, db) \<Rightarrow> (None, st\<lparr>lv_db := db, lv_ready := True\<rparr>)) (sync_once env k (lv_db st))"

definition handle_market_event :: "market_env \<Rightarrow> backfill_config \<Rightarrow> market_event \<Rightarrow> live \<Rightarrow> live_outcome option" where
  "handle_market_event env k event st =
     (case event of
        Closed_Candle c \<Rightarrow>
          (case ingest_live_candle (me_now env) stream_name c (lv_db st) of
             Inl e \<Rightarrow> Some (Some e, st)
           | Inr (result, db) \<Rightarrow>
               if result = Ingest_Gap then resync env k (st\<lparr>lv_db := db, lv_ready := False\<rparr>)
               else Some (None, st\<lparr>lv_db := db\<rparr>))
      | Shard_Disconnected symbols reason \<Rightarrow>
          Some (None, st\<lparr>lv_ready := False,
            lv_db := mark_stream_state (me_now env) symbols stream_name ''degraded'' (Some (Disconnected reason)) (lv_db st)\<rparr>)
      | Shard_Reconnected symbols \<Rightarrow>
          resync env k (st\<lparr>lv_db := mark_stream_state (me_now env) symbols stream_name ''recovering'' None (lv_db st)\<rparr>))"

text \<open>The part shared by the start of \<open>run\<close> and \<open>_replace_symbols_if_changed\<close>.\<close>

definition warm_up :: "market_env \<Rightarrow> backfill_config \<Rightarrow> string list \<Rightarrow> live \<Rightarrow> live_outcome option" where
  "warm_up env k symbols st =
     resync env k (st\<lparr>lv_ready := False, lv_symbols := symbols,
       lv_db := mark_stream_state (me_now env) symbols stream_name ''warming'' None
         (mark_inactive_streams (me_now env) symbols stream_name (lv_db st))\<rparr>)"

definition start_live :: "market_env \<Rightarrow> backfill_config \<Rightarrow> live \<Rightarrow> live_outcome option" where
  "start_live env k st =
     (let symbols = active_symbols (lv_db st) in
      if symbols = []
      then Some (Some (RuntimeError ''No active universe is available for market-data streaming''), st)
      else warm_up env k symbols st)"

definition replace_symbols_if_changed :: "market_env \<Rightarrow> backfill_config \<Rightarrow> live \<Rightarrow> live_outcome option" where
  "replace_symbols_if_changed env k st =
     (let symbols = active_symbols (lv_db st) in
      if symbols = lv_symbols st then Some (None, st)
      else if symbols = [] then Some (None, st)
      else warm_up env k symbols st)"

text \<open>The reconciliation tick of the loop of \<open>run\<close>.\<close>

definition reconcile_market :: "market_env \<Rightarrow> backfill_config \<Rightarrow> live \<Rightarrow> live_outcome option" where
  "reconcile_market env k st = resync env k (st\<lparr>lv_ready := False\<rparr>)"

section \<open>Advancing without holes\<close>

abbreviation confirmed_minute :: "string \<Rightarrow> market_db \<Rightarrow> instant option" where
  "confirmed_minute symb db \<equiv> confirmed symb stream_name db"

text \<open>Where the history of a stream may start: the predicate of the minutes that a run chose as the
  start of the first backfill of a symbol.\<close>

type_synonym starts = "string \<Rightarrow> instant \<Rightarrow> bool"

text \<open>\<open>db'\<close> keeps every minute of \<open>db\<close>; a confirmed minute only moves over minutes that are stored, and the
  first one is reached over the stored minutes of a run from an allowed start.\<close>

definition advance_at :: "starts \<Rightarrow> market_db \<Rightarrow> market_db \<Rightarrow> string \<Rightarrow> bool" where
  "advance_at S db db' symb \<longleftrightarrow> (case confirmed_minute symb db of
         Some t0 \<Rightarrow> \<exists>n. confirmed_minute symb db' = Some (t0 + minutes (int n)) \<and>
           (\<forall>i<n. stored db' symb (t0 + minutes (int (Suc i))))
       | None \<Rightarrow> confirmed_minute symb db' = None \<or>
           (\<exists>start n. S symb start \<and> one_minute dvd start \<and>
             confirmed_minute symb db' = Some (start + minutes (int n)) \<and>
             (\<forall>i\<le>n. stored db' symb (start + minutes (int i)))))"

definition advance :: "starts \<Rightarrow> market_db \<Rightarrow> market_db \<Rightarrow> bool" where
  "advance S db db' \<longleftrightarrow> (\<forall>symb t. stored db symb t \<longrightarrow> stored db' symb t) \<and> (\<forall>symb. advance_at S db db' symb)"

lemma advance_stored: "advance S db db' \<Longrightarrow> stored db symb t \<Longrightarrow> stored db' symb t"
  by (simp add: advance_def)

lemma advance_Some:
  assumes "advance S db db'" "confirmed_minute symb db = Some t"
  shows "\<exists>n. confirmed_minute symb db' = Some (t + minutes (int n)) \<and>
    (\<forall>i<n. stored db' symb (t + minutes (int (Suc i))))"
proof -
  have "advance_at S db db' symb" using assms(1) by (simp add: advance_def)
  with assms(2) show ?thesis by (simp add: advance_at_def del: of_nat_Suc)
qed

lemma advance_None:
  assumes "advance S db db'" "confirmed_minute symb db = None" "confirmed_minute symb db' = Some t"
  shows "\<exists>start n. S symb start \<and> one_minute dvd start \<and> t = start + minutes (int n) \<and>
    (\<forall>i\<le>n. stored db' symb (start + minutes (int i)))"
proof -
  have "advance_at S db db' symb" using assms(1) by (simp add: advance_def)
  with assms(2,3) show ?thesis by (auto simp: advance_at_def)
qed

lemma advanceI:
  assumes "\<And>symb t. stored db symb t \<Longrightarrow> stored db' symb t"
    and "\<And>symb t. confirmed_minute symb db = Some t \<Longrightarrow> \<exists>n. confirmed_minute symb db' = Some (t + minutes (int n)) \<and>
      (\<forall>i<n. stored db' symb (t + minutes (int (Suc i))))"
    and "\<And>symb t. confirmed_minute symb db = None \<Longrightarrow> confirmed_minute symb db' = Some t \<Longrightarrow>
      \<exists>start n. S symb start \<and> one_minute dvd start \<and> t = start + minutes (int n) \<and>
        (\<forall>i\<le>n. stored db' symb (start + minutes (int i)))"
  shows "advance S db db'"
proof -
  have "advance_at S db db' symb" for symb
  proof (cases "confirmed_minute symb db")
    case None
    then show ?thesis
    proof (cases "confirmed_minute symb db'")
      case (Some t)
      from assms(3) [OF None Some] None Some show ?thesis by (auto simp: advance_at_def)
    qed (simp add: advance_at_def)
  next
    case (Some t)
    from assms(2) [OF Some] Some show ?thesis by (simp add: advance_at_def del: of_nat_Suc)
  qed
  with assms(1) show ?thesis by (simp add: advance_def)
qed

text \<open>More starts may be allowed; only those of the symbols not yet confirmed count.\<close>

lemma advance_starts:
  assumes "advance S db db'" "\<And>symb start. S symb start \<Longrightarrow> confirmed_minute symb db = None \<Longrightarrow> S' symb start"
  shows "advance S' db db'"
proof (rule advanceI)
  show "stored db symb t \<Longrightarrow> stored db' symb t" for symb t using advance_stored [OF assms(1)] .
  show "confirmed_minute symb db = Some t \<Longrightarrow> \<exists>n. confirmed_minute symb db' = Some (t + minutes (int n)) \<and>
      (\<forall>i<n. stored db' symb (t + minutes (int (Suc i))))" for symb t using advance_Some [OF assms(1)] .
  show "confirmed_minute symb db = None \<Longrightarrow> confirmed_minute symb db' = Some t \<Longrightarrow>
      \<exists>start n. S' symb start \<and> one_minute dvd start \<and> t = start + minutes (int n) \<and>
        (\<forall>i\<le>n. stored db' symb (start + minutes (int i)))" for symb t
    using advance_None [OF assms(1)] assms(2) by blast
qed

lemma advance_same:
  assumes "\<And>symb t. stored db symb t \<Longrightarrow> stored db' symb t"
    and "\<And>symb. confirmed_minute symb db' = confirmed_minute symb db"
  shows "advance S db db'"
  using assms by (intro advanceI) (auto intro: exI [of _ 0] simp: minutes_def)

lemma advance_refl [simp]: "advance S db db"
  by (rule advance_same) simp_all

lemma minutes_add: "minutes (a + b) = minutes a + minutes b"
  by (simp add: minutes_def distrib_right)

lemma advance_trans:
  assumes "advance S db1 db2" "advance S db2 db3" shows "advance S db1 db3"
proof (rule advanceI)
  show "stored db1 symb t \<Longrightarrow> stored db3 symb t" for symb t
    using assms by (blast intro: advance_stored)
next
  fix symb t assume t: "confirmed_minute symb db1 = Some t"
  obtain n where n: "confirmed_minute symb db2 = Some (t + minutes (int n))"
      "\<And>i. i < n \<Longrightarrow> stored db2 symb (t + minutes (int (Suc i)))" using advance_Some [OF assms(1) t] by blast
  obtain m where m: "confirmed_minute symb db3 = Some (t + minutes (int n) + minutes (int m))"
      "\<And>i. i < m \<Longrightarrow> stored db3 symb (t + minutes (int n) + minutes (int (Suc i)))"
    using advance_Some [OF assms(2) n(1)] by blast
  have "stored db3 symb (t + minutes (int (Suc i)))" if "i < n + m" for i
  proof (cases "i < n")
    case True
    then show ?thesis using n(2) advance_stored [OF assms(2)] by blast
  next
    case False
    then show ?thesis using m(2) [of "i - n"] that by (simp add: add.assoc flip: minutes_add)
  qed
  moreover have "t + minutes (int n) + minutes (int m) = t + minutes (int (n + m))" by (simp add: minutes_add)
  ultimately show "\<exists>n. confirmed_minute symb db3 = Some (t + minutes (int n)) \<and>
      (\<forall>i<n. stored db3 symb (t + minutes (int (Suc i))))" using m(1) by metis
next
  fix symb t assume t: "confirmed_minute symb db1 = None" "confirmed_minute symb db3 = Some t"
  show "\<exists>start n. S symb start \<and> one_minute dvd start \<and> t = start + minutes (int n) \<and>
      (\<forall>i\<le>n. stored db3 symb (start + minutes (int i)))"
  proof (cases "confirmed_minute symb db2")
    case None
    then show ?thesis using advance_None [OF assms(2) None t(2)] by blast
  next
    case (Some u)
    obtain start n where n: "S symb start" "one_minute dvd start" "u = start + minutes (int n)"
        "\<And>i. i \<le> n \<Longrightarrow> stored db2 symb (start + minutes (int i))" using advance_None [OF assms(1) t(1) Some] by blast
    obtain m where m: "confirmed_minute symb db3 = Some (u + minutes (int m))"
        "\<And>i. i < m \<Longrightarrow> stored db3 symb (u + minutes (int (Suc i)))" using advance_Some [OF assms(2) Some] by blast
    have "stored db3 symb (start + minutes (int i))" if "i \<le> n + m" for i
    proof (cases "i \<le> n")
      case True
      then show ?thesis using n(4) advance_stored [OF assms(2)] by blast
    next
      case False
      then show ?thesis using m(2) [of "i - n - 1"] that by (simp add: n(3) add.assoc of_nat_diff flip: minutes_add)
    qed
    moreover have "t = start + minutes (int (n + m))" using m(1) t(2) n(3) by (simp add: minutes_add)
    ultimately show ?thesis using n(1,2) by blast
  qed
qed

lemma validate_contiguous_ok:
  assumes "starts \<le> ends"
  shows "validate_contiguous cs starts ends = Inr () \<longleftrightarrow>
    map m1_open_time cs = minute_grid starts (nat ((ends - starts) div one_minute + 1))"
proof -
  let ?n = "(ends - starts) div one_minute + 1"
  have "0 \<le> (ends - starts) div one_minute" using assms by (simp add: minutes_def pos_imp_zdiv_nonneg_iff)
  then have len: "int (length cs) = ?n \<longleftrightarrow> length cs = nat ?n" by linarith
  show ?thesis
    unfolding validate_contiguous_def Let_def minute_grid_iff
    by (auto simp: len find_None_iff case_prod_unfold split: option.splits prod.splits) (fastforce simp: find_Some_iff)+
qed

text \<open>The provider answers for the symbol it is asked about.\<close>

definition honest :: "market_env \<Rightarrow> bool" where
  "honest env \<longleftrightarrow> (\<forall>symb s e n cs. me_klines env symb s e n = Inr cs \<longrightarrow> (\<forall>c \<in> set cs. m1_symbol c = symb))"

text \<open>What a transaction on behalf of one symbol keeps of the others.\<close>

definition touches_only :: "starts \<Rightarrow> string \<Rightarrow> market_db \<Rightarrow> market_db \<Rightarrow> bool" where
  "touches_only S symb db db' \<longleftrightarrow> advance S db db' \<and> (market_ok db \<longrightarrow> market_ok db') \<and>
     universe_of db' = universe_of db \<and> (\<forall>s. s \<noteq> symb \<longrightarrow> confirmed_minute s db' = confirmed_minute s db)"

lemma touches_only_refl [simp]: "touches_only S symb db db"
  by (simp add: touches_only_def)

lemma touches_only_trans: "touches_only S symb a b \<Longrightarrow> touches_only S symb b c \<Longrightarrow> touches_only S symb a c"
  by (auto simp: touches_only_def intro: advance_trans)

lemma touches_only_same:
  assumes "md_candles db' = md_candles db" "\<And>s. confirmed_minute s db' = confirmed_minute s db"
    and "market_ok db \<Longrightarrow> market_ok db'" "universe_of db' = universe_of db"
  shows "touches_only S symb db db'"
  using assms stored_frame [OF assms(1)] by (auto simp: touches_only_def intro: advance_same)

lemma batch_minutes:
  assumes "cursor \<le> batch_end" "one_minute dvd batch_end - cursor"
  shows "batch_end = cursor + minutes (int (nat ((batch_end - cursor) div one_minute)))"
proof -
  from assms(2) obtain d where d: "batch_end - cursor = minutes d" unfolding dvd_def minutes_def by (metis mult.commute mult_1)
  have "0 \<le> minutes d" using assms(1) unfolding d [symmetric] by simp
  then have "0 \<le> d" by simp
  moreover have "nat ((batch_end - cursor) div one_minute) = nat d" unfolding d by (simp add: minutes_def)
  moreover have "batch_end = cursor + minutes d" using d by simp
  ultimately show ?thesis by simp
qed

lemma sync_batchE:
  assumes "sync_batch env k symb cursor batch_end db = Inr db'"
  obtains cs where "me_klines env symb cursor batch_end (bf_batch_candles k) = Inr cs"
    "validate_contiguous cs cursor batch_end = Inr ()" "save_batch (me_now env) symb stream_name cs db = Inr db'"
  using assms by (auto simp: sync_batch_def split: sum.splits)

lemma sync_batch_ok:
  assumes "sync_batch env k symb cursor batch_end db = Inr db'" "honest env"
    and "cursor \<le> batch_end" "one_minute dvd batch_end - cursor" "one_minute dvd cursor"
    and "confirmed_minute symb db = None \<and> S symb cursor \<or> confirmed_minute symb db = Some (cursor - one_minute)"
  shows "touches_only S symb db db'" "confirmed_minute symb db' = Some batch_end"
proof -
  define n where "n = nat ((batch_end - cursor) div one_minute)"
  have be: "batch_end = cursor + minutes (int n)" unfolding n_def by (rule batch_minutes [OF assms(3,4)])
  obtain cs where cs: "me_klines env symb cursor batch_end (bf_batch_candles k) = Inr cs"
      "validate_contiguous cs cursor batch_end = Inr ()" "save_batch (me_now env) symb stream_name cs db = Inr db'"
    using assms(1) by (rule sync_batchE)
  have "0 \<le> (batch_end - cursor) div one_minute" using assms(3) by (simp add: minutes_def pos_imp_zdiv_nonneg_iff)
  then have "nat ((batch_end - cursor) div one_minute + 1) = Suc n" by (simp add: n_def)
  then have t: "map m1_open_time cs = minute_grid cursor (Suc n)"
    using cs(2) validate_contiguous_ok [OF assms(3)] by simp
  then have ne: "cs \<noteq> []" by (metis length_map list.size(3) minute_grid_simps(1) nat.distinct(1))
  have "m1_open_time (last cs) = last (minute_grid cursor (Suc n))" using ne t by (metis last_map)
  also have "\<dots> = batch_end" by (simp add: minute_grid_def be minutes_def)
  finally have last: "m1_open_time (last cs) = batch_end" .
  note save = save_batch_ok [OF cs(3) ne]
  have c': "confirmed_minute symb db' = Some batch_end"
    using assms(3,6) unfolding save(2) last by (auto simp: later_confirmed_def minutes_def)
  then show "confirmed_minute symb db' = Some batch_end" .
  have new: "stored db' symb (cursor + minutes (int i))" if "i \<le> n" for i
  proof -
    have "cursor + minutes (int i) \<in> set (map m1_open_time cs)"
      unfolding t set_minute_grid using that by (intro exI [of _ i]) (simp add: minutes_def)
    then obtain c where "c \<in> set cs" "m1_open_time c = cursor + minutes (int i)" by auto
    moreover have "m1_symbol c = symb" using \<open>c \<in> set cs\<close> cs(1) assms(2) by (auto simp: honest_def)
    ultimately show ?thesis unfolding save(1) by blast
  qed
  have "advance S db db'"
  proof (rule advanceI)
    show "stored db s t \<Longrightarrow> stored db' s t" for s t unfolding save(1) by blast
  next
    fix s t assume t0: "confirmed_minute s db = Some t"
    show "\<exists>m. confirmed_minute s db' = Some (t + minutes (int m)) \<and> (\<forall>i<m. stored db' s (t + minutes (int (Suc i))))"
    proof (cases "s = symb")
      case True
      with t0 assms(6) have t: "t = cursor - one_minute" by simp
      have "stored db' symb (t + minutes (int (Suc i)))" if "i < Suc n" for i
        using new [of i] that by (simp add: t minutes_def algebra_simps)
      moreover have "confirmed_minute symb db' = Some (t + minutes (int (Suc n)))"
        unfolding c' by (simp add: t be minutes_def algebra_simps)
      ultimately show ?thesis unfolding True by blast
    next
      case False
      then show ?thesis using t0 unfolding save(2) by (intro exI [of _ 0]) (simp add: minutes_def)
    qed
  next
    fix s t assume "confirmed_minute s db = None" "confirmed_minute s db' = Some t"
    then have "s = symb" "t = batch_end" "S s cursor" using c' assms(6) by (auto simp: save(2) split: if_splits)
    then show "\<exists>start n. S s start \<and> one_minute dvd start \<and> t = start + minutes (int n) \<and>
        (\<forall>i\<le>n. stored db' s (start + minutes (int i)))" using new be assms(5) by blast
  qed
  then show "touches_only S symb db db'" using save(2,3,4) by (simp add: touches_only_def)
qed

lemma sync_batches_ok:
  assumes "sync_batches env k symb last_closed cursor db = Some (failure, db')" "honest env" "1 \<le> bf_batch_candles k"
    and "one_minute dvd cursor" "one_minute dvd last_closed"
    and "confirmed_minute symb db = None \<and> S symb cursor \<or> confirmed_minute symb db = Some (cursor - one_minute)"
  shows "touches_only S symb db db' \<and>
    (failure = None \<longrightarrow> cursor \<le> last_closed \<longrightarrow> confirmed_minute symb db' = Some last_closed)"
  using assms
proof (induction "nat (last_closed + one_minute - cursor)" arbitrary: cursor db rule: less_induct)
  case less
  define batch_end where "batch_end = min (cursor + one_minute * (bf_batch_candles k - 1)) last_closed"
  show ?case
  proof (cases "cursor \<le> last_closed")
    case False
    then show ?thesis using less.prems(1) by (subst (asm) sync_batches.simps) simp
  next
    case True
    have be: "cursor \<le> batch_end" "batch_end \<le> last_closed" "one_minute dvd batch_end"
      using True less.prems(3-5) by (auto simp: batch_end_def min_def minutes_def)
    show ?thesis
    proof (cases "sync_batch env k symb cursor batch_end db")
      case (Inl e)
      then show ?thesis
        using less.prems(1) True by (subst (asm) sync_batches.simps) (auto simp: Let_def simp flip: batch_end_def)
    next
      case (Inr db1)
      have rec: "sync_batches env k symb last_closed (batch_end + one_minute) db1 = Some (failure, db')"
        using less.prems(1) True Inr by (subst (asm) sync_batches.simps) (simp add: Let_def flip: batch_end_def)
      note b = sync_batch_ok [where S = S, OF Inr less.prems(2) be(1) _ less.prems(4,6)]
      have d: "one_minute dvd batch_end - cursor" using be(3) less.prems(4) by simp
      have "nat (last_closed + one_minute - (batch_end + one_minute)) < nat (last_closed + one_minute - cursor)"
        using be by (simp add: minutes_def)
      from less.hyps [OF this rec less.prems(2,3) _ less.prems(5)] b [OF d] be(3)
      have step: "touches_only S symb db1 db' \<and>
          (failure = None \<longrightarrow> batch_end + one_minute \<le> last_closed \<longrightarrow> confirmed_minute symb db' = Some last_closed)"
        by simp
      have "confirmed_minute symb db' = Some last_closed" if "failure = None" "\<not> batch_end + one_minute \<le> last_closed"
      proof -
        have "db' = db1" using rec that by (subst (asm) sync_batches.simps) simp
        moreover have "batch_end = last_closed"
        proof -
          obtain a b where "batch_end = one_minute * a" "last_closed = one_minute * b"
            using be(3) less.prems(5) by (auto simp: dvd_def)
          then show ?thesis using be(2) that(2) by (simp add: minutes_def)
        qed
        ultimately show ?thesis using b(2) [OF d] by simp
      qed
      then show ?thesis using step touches_only_trans [OF b(1) [OF d]] by blast
    qed
  qed
qed

text \<open>The loop ends for every batch size that is positive.\<close>

lemma sync_batches_returns:
  assumes "1 \<le> bf_batch_candles k"
  shows "\<exists>r. sync_batches env k symb last_closed cursor db = Some r"
proof (induction "nat (last_closed + one_minute - cursor)" arbitrary: cursor db rule: less_induct)
  case less
  define batch_end where "batch_end = min (cursor + one_minute * (bf_batch_candles k - 1)) last_closed"
  show ?case
  proof (cases "cursor \<le> last_closed")
    case False
    then show ?thesis by (subst sync_batches.simps) simp
  next
    case True
    then have be: "cursor \<le> batch_end" using assms by (simp add: batch_end_def minutes_def)
    show ?thesis
    proof (cases "sync_batch env k symb cursor batch_end db")
      case (Inr db1)
      have "nat (last_closed + one_minute - (batch_end + one_minute)) < nat (last_closed + one_minute - cursor)"
        using be True by (simp add: minutes_def)
      from less [OF this] True Inr show ?thesis
        by (subst sync_batches.simps) (simp add: Let_def flip: batch_end_def)
    qed (use True in \<open>subst sync_batches.simps, simp add: Let_def flip: batch_end_def\<close>)
  qed
qed

section \<open>Keeping the checkpoints\<close>

definition aligned :: "market_db \<Rightarrow> bool" where
  "aligned db \<longleftrightarrow> (\<forall>symb t. confirmed_minute symb db = Some t \<longrightarrow> one_minute dvd t)"

lemma one_minute_dvd_minutes [simp]: "one_minute dvd minutes n"
  by (simp add: minutes_def)

lemma advance_aligned:
  assumes "advance S db db'" "aligned db" shows "aligned db'"
  unfolding aligned_def
proof (intro allI impI)
  fix symb t assume t: "confirmed_minute symb db' = Some t"
  show "one_minute dvd t"
  proof (cases "confirmed_minute symb db")
    case None
    then show ?thesis using advance_None [OF assms(1) None t] by (auto intro: dvd_add)
  next
    case (Some u)
    then have "one_minute dvd u" using assms(2) by (simp add: aligned_def)
    then show ?thesis using advance_Some [OF assms(1) Some] t by (auto intro: dvd_add)
  qed
qed

lemma minute_floor_dvd [simp]: "one_minute dvd minute_floor t"
  by (simp add: minute_floor_def minus_mod_eq_mult_div)

lemma last_closed_dvd [simp]: "one_minute dvd last_closed_minute t"
  by (simp add: last_closed_minute_def)

lemma confirmed_complete_gap:
  "confirmed s st (complete_gap now gap symb stream t db) =
     (if s = symb \<and> st = stream then later_confirmed (confirmed symb stream db) (Some t) else confirmed s st db)"
  by (auto simp: complete_gap_def confirmed_upsert)

lemma complete_gap_frame [simp]:
  "md_candles (complete_gap now gap symb stream t db) = md_candles db"
  "md_candles (fail_gap now gap symb stream e db) = md_candles db"
  "confirmed s st (fail_gap now gap symb stream e db) = confirmed s st db"
  by (simp_all add: complete_gap_def fail_gap_def)

lemma gap_market_ok [simp]:
  "market_ok db \<Longrightarrow> market_ok (complete_gap now gap symb stream t db)"
  "market_ok db \<Longrightarrow> market_ok (fail_gap now gap symb stream e db)"
  by (simp_all add: complete_gap_def fail_gap_def market_ok_upsert_checkpoint market_ok_update_gap)

lemma gap_universe [simp]:
  "universe_of (complete_gap now gap symb stream t db) = universe_of db"
  "universe_of (fail_gap now gap symb stream e db) = universe_of db"
  by (simp_all add: complete_gap_def fail_gap_def)

lemma complete_gap_touches:
  assumes "confirmed_minute symb db = Some t"
  shows "touches_only S symb db (complete_gap now gap symb stream_name t db)"
  using assms by (intro touches_only_same) (auto simp: confirmed_complete_gap later_confirmed_def)

lemma start_gap_ok:
  assumes "start_gap now symb stream starts ends db = (i, db')"
  shows "touches_only S symb db db'" "confirmed s st db' = confirmed s st db"
proof -
  define db1 where "db1 = db\<lparr>md_next_gap := md_next_gap db + 1,
    md_gaps := md_gaps db @ [\<lparr>gp_id = md_next_gap db, gp_symbol = symb, gp_stream = stream, gp_start_time = starts,
      gp_end_time = ends, gp_status = ''recovering'', gp_attempts = 1, gp_error = None, gp_recovered_at = None\<rparr>]\<rparr>"
  have db': "db' = upsert_checkpoint now symb stream ''recovering'' None None True db1"
    using assms by (auto simp: start_gap_def Let_def db1_def)
  have db1: "md_candles db1 = md_candles db" "confirmed s st db1 = confirmed s st db" "market_ok db1 = market_ok db"
      "universe_of db1 = universe_of db" for s st
    by (simp_all add: db1_def confirmed_def find_checkpoint_def market_ok_def universe_of_def)
  have *: "md_candles db' = md_candles db" "\<And>s st. confirmed s st db' = confirmed s st db"
    "market_ok db \<Longrightarrow> market_ok db'" "universe_of db' = universe_of db"
    unfolding db' by (simp_all add: db1 market_ok_upsert_checkpoint)
  show "touches_only S symb db db'" using * by (intro touches_only_same) simp_all
  show "confirmed s st db' = confirmed s st db" by (rule *)
qed

lemma sync_target_ok:
  assumes "sync_target env k target checkpoint_time last_closed db = Some (r, db')" "honest env"
    and "1 \<le> bf_batch_candles k" "one_minute dvd last_closed" "aligned db"
    and "checkpoint_time = confirmed_minute (tg_symbol target) db"
    and "S (tg_symbol target) (backfill_start k target None last_closed)"
  shows "touches_only S (tg_symbol target) db db'"
    and "r = Sync_Recovered \<Longrightarrow> confirmed_minute (tg_symbol target) db' = Some last_closed"
proof -
  let ?symb = "tg_symbol target"
  define start_time where "start_time = backfill_start k target checkpoint_time last_closed"
  have al: "one_minute dvd start_time"
    using assms(4-6) unfolding start_time_def backfill_start_def aligned_def
    by (auto simp: max_def Let_def split: option.splits intro!: dvd_add dvd_diff)
  have before: "confirmed_minute ?symb db = None \<and> S ?symb start_time \<or>
      confirmed_minute ?symb db = Some (start_time - one_minute)"
    using assms(6,7) by (auto simp: start_time_def backfill_start_def split: option.splits)
  have "touches_only S ?symb db db' \<and> (r = Sync_Recovered \<longrightarrow> confirmed_minute ?symb db' = Some last_closed)"
  proof (cases "start_time > last_closed")
    case True
    then have "db' = (case checkpoint_time of None \<Rightarrow> db | Some t \<Rightarrow> complete_gap (me_now env) None ?symb stream_name t db)"
        "r = Sync_Ready"
      using assms(1) by (simp_all add: sync_target_def Let_def flip: start_time_def)
    then show ?thesis using assms(6) by (auto split: option.splits intro: complete_gap_touches)
  next
    case False
    define opened where "opened = (if requires_gap checkpoint_time start_time last_closed
      then (case start_gap (me_now env) ?symb stream_name start_time last_closed db of (i, db) \<Rightarrow> (Some i, db))
      else (None, db))"
    obtain gap db1 where o: "opened = (gap, db1)" by (cases opened)
    have db1: "touches_only S ?symb db db1" "confirmed_minute ?symb db1 = confirmed_minute ?symb db"
      using o start_gap_ok by (auto simp: opened_def split: if_splits prod.splits)
    obtain failure db2 where s: "sync_batches env k ?symb last_closed start_time db1 = Some (failure, db2)"
        "(r, db') = (case failure of
            None \<Rightarrow> (Sync_Recovered, complete_gap (me_now env) gap ?symb stream_name last_closed db2)
          | Some e \<Rightarrow> (Sync_Failed, fail_gap (me_now env) gap ?symb stream_name e db2))"
      using assms(1) False o
      by (auto simp: sync_target_def Let_def simp flip: start_time_def opened_def)
    have "touches_only S ?symb db1 db2 \<and> (failure = None \<longrightarrow> start_time \<le> last_closed \<longrightarrow>
        confirmed_minute ?symb db2 = Some last_closed)"
      using before db1(2) by (intro sync_batches_ok [OF s(1) assms(2,3) al assms(4)]) simp
    then have b: "touches_only S ?symb db db2" "failure = None \<Longrightarrow> confirmed_minute ?symb db2 = Some last_closed"
      using False touches_only_trans [OF db1(1)] by auto
    show ?thesis
    proof (cases failure)
      case None
      then have db': "r = Sync_Recovered" "db' = complete_gap (me_now env) gap ?symb stream_name last_closed db2"
        using s(2) by simp_all
      have "touches_only S ?symb db2 db'" using b(2) [OF None] unfolding db' by (rule complete_gap_touches)
      moreover have "confirmed_minute ?symb db' = Some last_closed"
        using b(2) [OF None] by (simp add: db' confirmed_complete_gap later_confirmed_def)
      ultimately show ?thesis using touches_only_trans [OF b(1)] by blast
    next
      case (Some e)
      then have db': "r = Sync_Failed" "db' = fail_gap (me_now env) gap ?symb stream_name e db2"
        using s(2) by simp_all
      have "touches_only S ?symb db2 db'" unfolding db' by (rule touches_only_same) simp_all
      then show ?thesis using touches_only_trans [OF b(1)] by (simp add: db'(1))
    qed
  qed
  then show "touches_only S ?symb db db'" "r = Sync_Recovered \<Longrightarrow> confirmed_minute ?symb db' = Some last_closed"
    by blast+
qed

lemma sync_target_returns:
  assumes "1 \<le> bf_batch_candles k" shows "\<exists>r. sync_target env k target checkpoint_time last_closed db = Some r"
proof -
  have "sync_batches env k symb last_closed cursor db \<noteq> None" for symb cursor db
    using sync_batches_returns [OF assms] by fastforce
  then have "sync_target env k target checkpoint_time last_closed db \<noteq> None"
    by (simp add: sync_target_def Let_def option.map_disc_iff del: not_None_eq split: prod.splits)
  then show ?thesis by simp
qed

text \<open>\<open>get_checkpoints\<close> is the lookup of the checkpoint of each symbol.\<close>

lemma find_rev_unique:
  assumes "\<And>r r'. r \<in> set xs \<Longrightarrow> P r \<Longrightarrow> r' \<in> set xs \<Longrightarrow> P r' \<Longrightarrow> r = r'"
  shows "List.find P (rev xs) = List.find P xs"
proof (cases "List.find P xs")
  case None
  then have "List.find P (rev xs) = None" by (simp add: find_None_iff)
  with None show ?thesis by simp
next
  case (Some r)
  then have r: "r \<in> set xs" "P r" by (auto dest: find_Some_mem)
  then obtain r' where r': "List.find P (rev xs) = Some r'"
    by (metis find_None_iff option.exhaust set_rev)
  then have "r' \<in> set xs" "P r'" by (auto dest: find_Some_mem)
  with r assms Some r' show ?thesis by metis
qed

lemma get_checkpoints_lookup:
  assumes "distinct (map checkpoint_key (md_checkpoints db))"
  shows "map_of (get_checkpoints stream db) symb = find_checkpoint symb stream db"
proof -
  define rows where "rows = filter (\<lambda>r. ck_stream r = stream) (md_checkpoints db)"
  have "map_of (foldl (\<lambda>d r. od_put (ck_symbol r) r d) d rs) symb =
      (case List.find (\<lambda>r. ck_symbol r = symb) (rev rs) of None \<Rightarrow> map_of d symb | Some r \<Rightarrow> Some r)" for d rs
    by (induction rs arbitrary: d) (auto simp: find_append split: option.splits)
  from this [of "[]" rows]
  have "map_of (get_checkpoints stream db) symb = List.find (\<lambda>r. ck_symbol r = symb) (rev rows)"
    by (cases "List.find (\<lambda>r. ck_symbol r = symb) (rev rows)") (simp_all add: get_checkpoints_def rows_def)
  also have "\<dots> = List.find (\<lambda>r. ck_symbol r = symb) rows"
  proof -
    have "distinct (map ck_symbol rows)"
      using assms by (auto simp: rows_def distinct_map checkpoint_key_def inj_on_def)
    then have "r = r'" if "r \<in> set rows" "r' \<in> set rows" "ck_symbol r = ck_symbol r'" for r r'
      using that by (auto simp: distinct_map dest: inj_onD)
    then show ?thesis
      by (intro find_rev_unique) simp
  qed
  also have "\<dots> = find_checkpoint symb stream db"
  proof -
    have "List.find (\<lambda>r. ck_symbol r = symb) (filter (\<lambda>r. ck_stream r = stream) rs) =
        List.find (\<lambda>r. ck_symbol r = symb \<and> ck_stream r = stream) rs" for rs
      by (induction rs) auto
    then show ?thesis by (simp add: find_checkpoint_def rows_def)
  qed
  finally show ?thesis .
qed

lemma sync_targets_bind_None: "foldl (\<lambda>acc target. Option.bind acc (f target)) None ts = None"
  by (induction ts) simp_all

lemma sync_targets_ok:
  assumes "sync_targets env k last_closed checkpoints targets db = Some (results, db')" "honest env"
    and "1 \<le> bf_batch_candles k" "one_minute dvd last_closed" "aligned db" "market_ok db"
    and "distinct (map tg_symbol targets)"
    and "\<And>t. t \<in> set targets \<Longrightarrow> (case map_of checkpoints (tg_symbol t) of None \<Rightarrow> None | Some r \<Rightarrow> ck_last_confirmed r) =
      confirmed_minute (tg_symbol t) db"
    and "\<And>t. t \<in> set targets \<Longrightarrow> S (tg_symbol t) (backfill_start k t None last_closed)"
  shows "advance S db db' \<and> market_ok db' \<and> universe_of db' = universe_of db"
proof -
  define f where "f = (\<lambda>target (results, db). map_option (\<lambda>(r, db). (results @ [r], db))
    (sync_target env k target
      (case map_of checkpoints (tg_symbol target) of None \<Rightarrow> None | Some r \<Rightarrow> ck_last_confirmed r) last_closed db))"
  have "advance S db db' \<and> market_ok db' \<and> universe_of db' = universe_of db"
    if "foldl (\<lambda>acc target. Option.bind acc (f target)) (Some (rs, db)) targets = Some (results, db')"
      "aligned db" "market_ok db" "distinct (map tg_symbol targets)"
      "\<And>t. t \<in> set targets \<Longrightarrow> (case map_of checkpoints (tg_symbol t) of None \<Rightarrow> None | Some r \<Rightarrow> ck_last_confirmed r) =
        confirmed_minute (tg_symbol t) db"
      "\<And>t. t \<in> set targets \<Longrightarrow> S (tg_symbol t) (backfill_start k t None last_closed)" for rs db
    using that
  proof (induction targets arbitrary: rs db)
    case (Cons t ts)
    show ?case
    proof (cases "f t (rs, db)")
      case None
      then show ?thesis using Cons.prems(1) by (simp add: sync_targets_bind_None)
    next
      case (Some q)
      then obtain rs1 db1 where q: "q = (rs1, db1)" by (cases q)
      with Some obtain r where "sync_target env k t
          (case map_of checkpoints (tg_symbol t) of None \<Rightarrow> None | Some r \<Rightarrow> ck_last_confirmed r) last_closed db = Some (r, db1)"
        by (auto simp: f_def)
      then have t: "touches_only S (tg_symbol t) db db1"
        by (rule sync_target_ok(1) [OF _ assms(2-4) Cons.prems(2)]) (simp_all add: Cons.prems(5,6))
      then have adv: "advance S db db1" "market_ok db1" "universe_of db1 = universe_of db"
        using Cons.prems(3) by (simp_all add: touches_only_def)
      have "advance S db1 db' \<and> market_ok db' \<and> universe_of db' = universe_of db1"
      proof (rule Cons.IH)
        show "foldl (\<lambda>acc target. Option.bind acc (f target)) (Some (rs1, db1)) ts = Some (results, db')"
          using Cons.prems(1) Some q by simp
        show "aligned db1" using advance_aligned [OF adv(1) Cons.prems(2)] .
        show "market_ok db1" by (rule adv(2))
        show "distinct (map tg_symbol ts)" using Cons.prems(4) by simp
        show "(case map_of checkpoints (tg_symbol u) of None \<Rightarrow> None | Some r \<Rightarrow> ck_last_confirmed r) =
          confirmed_minute (tg_symbol u) db1" if "u \<in> set ts" for u
        proof -
          have "tg_symbol u \<noteq> tg_symbol t" using Cons.prems(4) that by (metis distinct.simps(2) image_eqI list.set_map list.simps(9))
          then show ?thesis using t Cons.prems(5) [of u] that by (simp add: touches_only_def)
        qed
        show "S (tg_symbol u) (backfill_start k u None last_closed)" if "u \<in> set ts" for u
          using Cons.prems(6) that by simp
      qed
      then show ?thesis using advance_trans [OF adv(1)] adv(3) by simp
    qed
  qed simp
  then show ?thesis using assms by (simp add: sync_targets_def f_def)
qed

definition market_inv :: "market_db \<Rightarrow> bool" where
  "market_inv db \<longleftrightarrow> market_ok db \<and> aligned db"

definition unique_targets :: "market_db \<Rightarrow> bool" where
  "unique_targets db \<longleftrightarrow> distinct (map tg_symbol (list_active_targets db))"

text \<open>Where a synchronisation starts the history of a symbol: the configured number of minutes before the
  last closed minute of the server, and not before the launch of an active target.\<close>

definition history_starts :: "market_env \<Rightarrow> backfill_config \<Rightarrow> market_db \<Rightarrow> starts" where
  "history_starts env k db symb start \<longleftrightarrow> (\<exists>ms target. me_server_time_ms env = Inr ms \<and>
     target \<in> set (list_active_targets db) \<and> tg_symbol target = symb \<and>
     start = backfill_start k target None (last_closed_minute (ms * 1000)))"

lemma history_starts_cong: "universe_of db' = universe_of db \<Longrightarrow> history_starts env k db' = history_starts env k db"
  by (simp add: history_starts_def [abs_def] list_active_targets_def universe_of_def)

lemma sync_once_ok:
  assumes "sync_once env k db = Some (Inr (summary, db'))" "honest env" "1 \<le> bf_batch_candles k"
    and "market_inv db" "unique_targets db"
  shows "advance (history_starts env k db) db db' \<and> market_inv db' \<and> universe_of db' = universe_of db"
proof -
  obtain ms results where server: "me_server_time_ms env = Inr ms" and ms: "sync_targets env k (last_closed_minute (ms * 1000)) (get_checkpoints stream_name db)
      (sort_key target_priority (list_active_targets db)) db = Some (results, db')"
    using assms(1) by (auto simp: sync_once_def Let_def split: sum.splits)
  have "advance (history_starts env k db) db db' \<and> market_ok db' \<and> universe_of db' = universe_of db"
  proof (rule sync_targets_ok [OF ms assms(2,3)])
    show "aligned db" "market_ok db" using assms(4) by (simp_all add: market_inv_def)
    have "mset (map tg_symbol (sort_key target_priority (list_active_targets db))) =
        mset (map tg_symbol (list_active_targets db))" by simp
    then show "distinct (map tg_symbol (sort_key target_priority (list_active_targets db)))"
      using assms(5) unfolding unique_targets_def by (metis mset_eq_imp_distinct_iff)
    show "(case map_of (get_checkpoints stream_name db) (tg_symbol t) of None \<Rightarrow> None | Some r \<Rightarrow> ck_last_confirmed r) =
        confirmed_minute (tg_symbol t) db" for t
      using assms(4) by (simp add: get_checkpoints_lookup market_inv_def market_ok_def confirmed_def)
    show "history_starts env k db (tg_symbol t) (backfill_start k t None (last_closed_minute (ms * 1000)))"
      if "t \<in> set (sort_key target_priority (list_active_targets db))" for t
      using that server by (auto simp: history_starts_def)
  qed simp
  then show ?thesis using advance_aligned assms(4) by (auto simp: market_inv_def)
qed

lemma sync_batches_universe:
  assumes "sync_batches env k symb last_closed cursor db = Some (failure, db')"
  shows "universe_of db' = universe_of db"
proof -
  have batch: "universe_of db1 = universe_of db"
    if b: "sync_batch env k symb c e db = Inr db1" for env k symb c e db db1
  proof -
    from b obtain cs where "save_batch (me_now env) symb stream_name cs db = Inr db1"
      by (rule sync_batchE)
    then show ?thesis by (cases "cs = []") (auto dest: save_batch_ok(4))
  qed
  have "universe_of (snd (failure, db')) = universe_of db"
    by (rule sync_batches.raw_induct [of "\<lambda>env k symb last_closed cursor db r. universe_of (snd r) = universe_of db",
          OF _ assms])
      (auto simp: Let_def split: if_splits sum.splits dest!: batch)
  then show ?thesis by simp
qed

lemma sync_target_universe:
  assumes "sync_target env k target checkpoint_time last_closed db = Some (r, db')"
  shows "universe_of db' = universe_of db"
proof -
  have start: "universe_of (snd (start_gap now symb stream starts ends db)) = universe_of db" for now symb stream starts ends
    using start_gap_ok(1) [of now symb stream starts ends db] by (cases "start_gap now symb stream starts ends db")
      (auto simp: touches_only_def)
  then have start': "start_gap now symb stream starts ends db = (i, db1) \<Longrightarrow> universe_of db1 = universe_of db"
    for now symb stream starts ends i db1 by (metis snd_conv)
  show ?thesis
    using assms by (auto simp: sync_target_def Let_def dest!: sync_batches_universe start'
        split: if_splits option.splits prod.splits)
qed

lemma sync_targets_universe:
  assumes "sync_targets env k last_closed checkpoints targets db = Some (results, db')"
  shows "universe_of db' = universe_of db"
proof -
  have "universe_of db' = universe_of db"
    if "foldl (\<lambda>acc target. Option.bind acc (\<lambda>(results, db).
        map_option (\<lambda>(r, db). (results @ [r], db))
          (sync_target env k target
            (case map_of checkpoints (tg_symbol target) of None \<Rightarrow> None | Some r \<Rightarrow> ck_last_confirmed r)
            last_closed db))) (Some (rs, db)) targets = Some (results, db')" for rs db
    using that
  proof (induction targets arbitrary: rs db)
    case (Cons t ts)
    show ?case
    proof (cases "sync_target env k t
        (case map_of checkpoints (tg_symbol t) of None \<Rightarrow> None | Some r \<Rightarrow> ck_last_confirmed r) last_closed db")
      case None
      then show ?thesis using Cons.prems by (simp add: sync_targets_bind_None)
    next
      case (Some q)
      then obtain r db1 where q: "sync_target env k t
        (case map_of checkpoints (tg_symbol t) of None \<Rightarrow> None | Some r \<Rightarrow> ck_last_confirmed r) last_closed db = Some (r, db1)"
        by (cases q) simp
      then show ?thesis using Cons.IH [of "rs @ [r]" db1] Cons.prems sync_target_universe [OF q] by simp
    qed
  qed simp
  then show ?thesis using assms by (simp add: sync_targets_def)
qed

lemma sync_targets_returns:
  assumes "1 \<le> bf_batch_candles k"
  shows "\<exists>r. sync_targets env k last_closed checkpoints targets db = Some r"
proof -
  have "\<exists>r. foldl (\<lambda>acc target. Option.bind acc (\<lambda>(results, db).
        map_option (\<lambda>(r, db). (results @ [r], db))
          (sync_target env k target
            (case map_of checkpoints (tg_symbol target) of None \<Rightarrow> None | Some r \<Rightarrow> ck_last_confirmed r)
            last_closed db))) (Some (rs, db)) targets = Some r" for rs db
  proof (induction targets arbitrary: rs db)
    case (Cons t ts)
    obtain r db1 where "sync_target env k t
      (case map_of checkpoints (tg_symbol t) of None \<Rightarrow> None | Some r \<Rightarrow> ck_last_confirmed r) last_closed db = Some (r, db1)"
      using sync_target_returns [OF assms] by fastforce
    then show ?case using Cons.IH by simp
  qed simp
  then show ?thesis by (simp add: sync_targets_def)
qed

lemma sync_once_returns: "1 \<le> bf_batch_candles k \<Longrightarrow> \<exists>r. sync_once env k db = Some r"
  using sync_targets_returns by (auto simp: sync_once_def Let_def split: sum.splits)

section \<open>Every run advances without holes\<close>

lemma unique_targets_cong: "universe_of db' = universe_of db \<Longrightarrow> unique_targets db' = unique_targets db"
  by (simp add: unique_targets_def list_active_targets_def universe_of_def)

definition goes_on :: "starts \<Rightarrow> market_db \<Rightarrow> market_db \<Rightarrow> bool" where
  "goes_on S db db' \<longleftrightarrow> (market_inv db \<longrightarrow> advance S db db' \<and> market_inv db') \<and> universe_of db' = universe_of db"

lemma goes_on_unique: "goes_on S db db' \<Longrightarrow> unique_targets db' = unique_targets db"
  by (rule unique_targets_cong) (simp add: goes_on_def)

lemma goes_on_trans: "goes_on S a b \<Longrightarrow> goes_on S b c \<Longrightarrow> goes_on S a c"
  by (auto simp: goes_on_def intro: advance_trans)

lemma goes_on_refl: "goes_on S db db"
  by (simp add: goes_on_def)

lemma goes_onI:
  assumes "market_ok db \<Longrightarrow> market_ok db'" "universe_of db' = universe_of db" "advance S db db'"
  shows "goes_on S db db'"
  using assms advance_aligned by (auto simp: goes_on_def market_inv_def)

lemma mark_stream_state_goes_on: "goes_on S db (mark_stream_state now symbols stream state err db)"
proof -
  have "goes_on S db (foldl (\<lambda>db symb. upsert_checkpoint now symb stream state None err True db) db symbols)"
  proof (induction symbols arbitrary: db)
    case (Cons x xs)
    have "goes_on S db (upsert_checkpoint now x stream state None err True db)"
      by (rule goes_onI) (simp_all add: market_ok_upsert_checkpoint advance_same)
    then show ?case using Cons.IH by (auto intro: goes_on_trans)
  qed (simp add: goes_on_def)
  then show ?thesis by (simp add: mark_stream_state_def)
qed

lemma mark_inactive_streams_goes_on: "goes_on S db (mark_inactive_streams now active stream db)"
proof -
  let ?f = "\<lambda>r. if ck_stream r = stream \<and> \<not> (active \<noteq> [] \<and> ck_symbol r \<in> set active)
    then r\<lparr>ck_state := ''offline'', ck_last_error := None, ck_updated_at := now\<rparr> else r"
  have key: "checkpoint_key (?f r) = checkpoint_key r" "ck_last_confirmed (?f r) = ck_last_confirmed r" for r
    by (simp_all add: checkpoint_key_def)
  have f: "List.find (\<lambda>r. checkpoint_key r = kk) (map ?f rs) = map_option ?f (List.find (\<lambda>r. checkpoint_key r = kk) rs)" for kk rs
  proof (induction rs)
    case (Cons r rs)
    then show ?case using key(1) [of r] by (simp only: list.map find.simps) simp
  qed simp
  have c: "confirmed s st (mark_inactive_streams now active stream db) = confirmed s st db" for s st
  proof -
    have "find_checkpoint s st (mark_inactive_streams now active stream db) = map_option ?f (find_checkpoint s st db)"
      unfolding find_checkpoint_alt f [symmetric] by (simp add: mark_inactive_streams_def)
    then show ?thesis by (cases "find_checkpoint s st db") (simp_all only: confirmed_def option.map option.case key(2))
  qed
  have "map checkpoint_key (map ?f (md_checkpoints db)) = map checkpoint_key (md_checkpoints db)"
    by (induction "md_checkpoints db") (simp_all only: list.map map_map comp_def key(1))
  then have "market_ok db \<Longrightarrow> market_ok (mark_inactive_streams now active stream db)"
    by (simp add: mark_inactive_streams_def market_ok_def del: map_map)
  moreover have "universe_of (mark_inactive_streams now active stream db) = universe_of db"
    by (simp add: mark_inactive_streams_def universe_of_def)
  moreover have stored_inactive: "stored (mark_inactive_streams now active stream db) s t = stored db s t" for s t
    by (simp add: stored_def mark_inactive_streams_def)
  ultimately show ?thesis by (intro goes_onI advance_same) (simp_all add: c stored_inactive)
qed

lemma ingest_goes_on:
  assumes "ingest_live_candle now stream_name c db = Inr (r, db')"
  shows "goes_on S db db'"
proof -
  obtain db1 where u: "upsert_candles now [c] ''websocket'' db = Inr db1"
    using assms by (auto simp: ingest_live_candle_def Let_def)
  define db2 where "db2 = enqueue_aggregation_jobs now [c] 0 True db1"
  have st: "stored db2 s t \<longleftrightarrow> stored db s t \<or> m1_symbol c = s \<and> m1_open_time c = t" for s t
    using upsert_candles_ok(1) [OF u] by (simp add: db2_def)
  have cf: "confirmed s stream db2 = confirmed s stream db" for s stream using u by (simp add: db2_def)
  have ok: "market_ok db \<Longrightarrow> market_ok db2" and un: "universe_of db2 = universe_of db"
    using u by (simp_all add: db2_def market_ok_intros)
  have adv2: "advance S db db2" by (rule advance_same) (simp_all add: st cf)
  have confirm: "advance S db2 (upsert_checkpoint now (m1_symbol c) stream_name ''ready'' (Some (m1_open_time c)) None False db2)"
    if "confirmed_minute (m1_symbol c) db2 = Some t" "m1_open_time c = t + one_minute" for t
  proof (rule advanceI)
    fix s u assume s: "confirmed_minute s db2 = Some u"
    show "\<exists>n. confirmed_minute s (upsert_checkpoint now (m1_symbol c) stream_name ''ready'' (Some (m1_open_time c)) None False db2) =
        Some (u + minutes (int n)) \<and>
      (\<forall>i<n. stored (upsert_checkpoint now (m1_symbol c) stream_name ''ready'' (Some (m1_open_time c)) None False db2) s
         (u + minutes (int (Suc i))))"
    proof (cases "s = m1_symbol c")
      case True
      have "stored db2 s (u + minutes 1)" using that s True by (simp add: st)
      then show ?thesis using that s True
        by (intro exI [of _ 1]) (simp add: confirmed_upsert later_confirmed_def minutes_def)
    next
      case False
      then show ?thesis using s by (intro exI [of _ 0]) (simp add: confirmed_upsert minutes_def)
    qed
  qed (use that in \<open>auto simp: confirmed_upsert split: if_splits\<close>)
  have cases: "db' = db2 \<or> (\<exists>state err. db' = upsert_checkpoint now (m1_symbol c) stream_name state None err True db2) \<or>
      (\<exists>t. confirmed_minute (m1_symbol c) db2 = Some t \<and> m1_open_time c = t + one_minute \<and>
        db' = upsert_checkpoint now (m1_symbol c) stream_name ''ready'' (Some (m1_open_time c)) None False db2)"
    using assms u by (auto simp: ingest_live_candle_def Let_def confirmed_def db2_def split: option.splits if_splits)
  have "advance S db2 db' \<and> (market_ok db2 \<longrightarrow> market_ok db') \<and> universe_of db' = universe_of db2"
    using cases confirm by (auto simp: market_ok_upsert_checkpoint intro: advance_same)
  then show ?thesis using ok un advance_trans [OF adv2] by (intro goes_onI) auto
qed

lemma repair_goes_on:
  assumes "repair_candles now cs db = Inr db'" shows "goes_on S db db'"
proof (cases "cs = []")
  case False
  then obtain db1 where u: "upsert_candles now cs ''rest'' db = Inr db1" "db' = enqueue_aggregation_jobs now cs 10 False db1"
    using assms by (auto simp: repair_candles_def)
  have "stored db s t \<Longrightarrow> stored db' s t" for s t
    using upsert_candles_ok(1) [OF u(1)] by (simp add: u(2))
  then show ?thesis using u by (intro goes_onI advance_same) (simp_all add: market_ok_intros)
qed (use assms in \<open>simp add: repair_candles_def goes_on_def\<close>)

text \<open>A move of the service: an event of the stream, the reconciliation tick, the start, the change of the
  symbols, and, by other parts of the program, a repair of candles or a new universe of distinct
  instruments. A move that raises leaves what it has committed, and the process may be started again.
  The run keeps the moves that may synchronise: their environment and the state before them.\<close>

inductive market_reachable :: "backfill_config \<Rightarrow> live \<Rightarrow> (market_env \<times> live) list \<Rightarrow> live \<Rightarrow> bool" for k st0 where
  Started: "market_reachable k st0 [] st0"
| Began: "market_reachable k st0 moves st \<Longrightarrow> honest env \<Longrightarrow> start_live env k st = Some (raised, st') \<Longrightarrow>
    market_reachable k st0 (moves @ [(env, st)]) st'"
| Handled: "market_reachable k st0 moves st \<Longrightarrow> honest env \<Longrightarrow> handle_market_event env k event st = Some (raised, st') \<Longrightarrow>
    market_reachable k st0 (moves @ [(env, st)]) st'"
| Ticked: "market_reachable k st0 moves st \<Longrightarrow> honest env \<Longrightarrow> reconcile_market env k st = Some (raised, st') \<Longrightarrow>
    market_reachable k st0 (moves @ [(env, st)]) st'"
| Replaced: "market_reachable k st0 moves st \<Longrightarrow> honest env \<Longrightarrow> replace_symbols_if_changed env k st = Some (raised, st') \<Longrightarrow>
    market_reachable k st0 (moves @ [(env, st)]) st'"
| Repaired: "market_reachable k st0 moves st \<Longrightarrow> repair_candles now cs (lv_db st) = Inr db \<Longrightarrow>
    market_reachable k st0 moves (st\<lparr>lv_db := db\<rparr>)"
| Refreshed: "market_reachable k st0 moves st \<Longrightarrow>
    db = (lv_db st)\<lparr>md_snapshots := sns, md_members := ms, md_instruments := ins\<rparr> \<Longrightarrow> unique_targets db \<Longrightarrow>
    market_reachable k st0 moves (st\<lparr>lv_db := db\<rparr>)"

text \<open>The starts that the moves of a run chose for symbols not confirmed before.\<close>

definition first_starts :: "backfill_config \<Rightarrow> (market_env \<times> live) list \<Rightarrow> starts" where
  "first_starts k moves symb start \<longleftrightarrow> (\<exists>(env, st) \<in> set moves.
     confirmed_minute symb (lv_db st) = None \<and> history_starts env k (lv_db st) symb start)"

definition live_ok :: "live \<Rightarrow> bool" where
  "live_ok st \<longleftrightarrow> market_inv (lv_db st) \<and> unique_targets (lv_db st)"

lemma goes_on_live:
  assumes "goes_on S (lv_db st) (lv_db st')" "live_ok st"
  shows "advance S (lv_db st) (lv_db st') \<and> live_ok st'"
  using assms goes_on_unique [OF assms(1)] by (simp add: goes_on_def live_ok_def)

lemma resync_ok:
  assumes "resync env k st = Some (raised, st')" "honest env" "1 \<le> bf_batch_candles k" "unique_targets (lv_db st)"
  shows "goes_on (history_starts env k (lv_db st)) (lv_db st) (lv_db st')"
proof -
  obtain r where r: "sync_once env k (lv_db st) = Some r"
      "(raised, st') = (case r of Inl e \<Rightarrow> (Some e, st) | Inr (summary, db) \<Rightarrow> (None, st\<lparr>lv_db := db, lv_ready := True\<rparr>))"
    using assms(1) by (auto simp: resync_def)
  show ?thesis
  proof (cases r)
    case (Inr p)
    then obtain summary db where db: "sync_once env k (lv_db st) = Some (Inr (summary, db))" "lv_db st' = db"
      using r by (cases p) auto
    obtain ms results where "sync_targets env k (last_closed_minute (ms * 1000)) (get_checkpoints stream_name (lv_db st))
        (sort_key target_priority (list_active_targets (lv_db st))) (lv_db st) = Some (results, db)"
      using db(1) by (auto simp: sync_once_def Let_def split: sum.splits)
    then have "universe_of db = universe_of (lv_db st)" by (rule sync_targets_universe)
    then show ?thesis using sync_once_ok [OF db(1) assms(2,3) _ assms(4)] by (auto simp: goes_on_def db(2))
  qed (use r goes_on_refl in auto)
qed

lemma resync_after:
  assumes g: "\<And>S. goes_on S (lv_db st) (lv_db st1)" and "resync env k st1 = Some (raised, st')" "honest env"
    and "1 \<le> bf_batch_candles k" "unique_targets (lv_db st)"
  shows "goes_on (history_starts env k (lv_db st)) (lv_db st) (lv_db st')"
proof -
  have "unique_targets (lv_db st1)" using assms(5) goes_on_unique [OF g] by simp
  moreover have "history_starts env k (lv_db st1) = history_starts env k (lv_db st)"
    using g by (intro history_starts_cong) (simp add: goes_on_def)
  ultimately have "goes_on (history_starts env k (lv_db st)) (lv_db st1) (lv_db st')"
    using resync_ok [OF assms(2-4)] by simp
  then show ?thesis using goes_on_trans [OF g] by blast
qed

lemma warm_up_ok:
  assumes "warm_up env k symbols st = Some (raised, st')" "honest env" "1 \<le> bf_batch_candles k" "unique_targets (lv_db st)"
  shows "goes_on (history_starts env k (lv_db st)) (lv_db st) (lv_db st')"
  using resync_after [OF _ assms(1) [unfolded warm_up_def] assms(2-4)]
    goes_on_trans [OF mark_inactive_streams_goes_on mark_stream_state_goes_on] by simp

lemma handle_market_event_ok:
  assumes "handle_market_event env k event st = Some (raised, st')" "honest env" "1 \<le> bf_batch_candles k"
    and "unique_targets (lv_db st)"
  shows "goes_on (history_starts env k (lv_db st)) (lv_db st) (lv_db st')"
proof (cases event)
  case (Closed_Candle c)
  show ?thesis
  proof (cases "ingest_live_candle (me_now env) stream_name c (lv_db st)")
    case (Inr p)
    then obtain r db where i: "ingest_live_candle (me_now env) stream_name c (lv_db st) = Inr (r, db)" by (cases p) simp
    note g = ingest_goes_on [OF i]
    show ?thesis
    proof (cases "r = Ingest_Gap")
      case True
      then have "resync env k (st\<lparr>lv_db := db, lv_ready := False\<rparr>) = Some (raised, st')"
        using assms(1) i by (simp add: handle_market_event_def Closed_Candle)
      from resync_after [OF _ this assms(2-4)] g show ?thesis by simp
    qed (use assms(1) i g in \<open>auto simp: handle_market_event_def Closed_Candle\<close>)
  qed (use assms(1) goes_on_refl in \<open>auto simp: handle_market_event_def Closed_Candle\<close>)
next
  case (Shard_Disconnected symbols reason)
  then show ?thesis using assms(1) by (auto simp: handle_market_event_def mark_stream_state_goes_on)
next
  case (Shard_Reconnected symbols)
  then show ?thesis
    using resync_after [OF _ _ assms(2-4), of "st\<lparr>lv_db := mark_stream_state (me_now env) symbols stream_name ''recovering'' None (lv_db st)\<rparr>"]
      assms(1) mark_stream_state_goes_on
    by (simp add: handle_market_event_def)
qed

lemma run_step:
  assumes "advance (first_starts k moves) (lv_db st0) (lv_db st) \<and> live_ok st"
    and "goes_on (history_starts env k (lv_db st)) (lv_db st) (lv_db st')"
  shows "advance (first_starts k (moves @ [(env, st)])) (lv_db st0) (lv_db st') \<and> live_ok st'"
proof -
  have step: "advance (history_starts env k (lv_db st)) (lv_db st) (lv_db st')" "live_ok st'"
    using goes_on_live [OF assms(2)] assms(1) by simp_all
  have "advance (first_starts k (moves @ [(env, st)])) (lv_db st) (lv_db st')"
    by (rule advance_starts [OF step(1)]) (simp add: first_starts_def)
  moreover have "advance (first_starts k (moves @ [(env, st)])) (lv_db st0) (lv_db st)"
    by (rule advance_starts [OF conjunct1 [OF assms(1)]]) (auto simp: first_starts_def)
  ultimately show ?thesis using advance_trans step(2) by blast
qed

lemma market_reachable_ok:
  assumes "market_reachable k st0 moves st" "live_ok st0" "1 \<le> bf_batch_candles k"
  shows "advance (first_starts k moves) (lv_db st0) (lv_db st) \<and> live_ok st"
  using assms(1)
proof (induction rule: market_reachable.induct)
  case Started
  then show ?case using assms(2) by simp
next
  case (Began moves st env raised st')
  then have "goes_on (history_starts env k (lv_db st)) (lv_db st) (lv_db st')"
    using assms(3) by (auto simp: start_live_def Let_def live_ok_def split: if_splits intro: warm_up_ok goes_on_refl)
  with Began.IH show ?case by (rule run_step)
next
  case (Handled moves st env event raised st')
  then have "goes_on (history_starts env k (lv_db st)) (lv_db st) (lv_db st')"
    using assms(3) by (auto simp: live_ok_def intro: handle_market_event_ok)
  with Handled.IH show ?case by (rule run_step)
next
  case (Ticked moves st env raised st')
  then have "goes_on (history_starts env k (lv_db st)) (lv_db st) (lv_db st')"
    using assms(3) resync_ok [of env k "st\<lparr>lv_ready := False\<rparr>" raised st'] by (simp add: reconcile_market_def live_ok_def)
  with Ticked.IH show ?case by (rule run_step)
next
  case (Replaced moves st env raised st')
  then have "goes_on (history_starts env k (lv_db st)) (lv_db st) (lv_db st')"
    using assms(3) by (auto simp: replace_symbols_if_changed_def Let_def live_ok_def
        split: if_splits intro: warm_up_ok goes_on_refl)
  with Replaced.IH show ?case by (rule run_step)
next
  case (Repaired moves st now cs db)
  then have "goes_on S (lv_db st) (lv_db (st\<lparr>lv_db := db\<rparr>))" for S by (simp add: repair_goes_on)
  then show ?case using Repaired.IH goes_on_live by (blast intro: advance_trans)
next
  case (Refreshed moves st db sns ms ins)
  have "stored db = stored (lv_db st)" "confirmed s st' db = confirmed s st' (lv_db st)" for s st'
    using Refreshed.hyps(2) by (auto simp: stored_def confirmed_def find_checkpoint_def fun_eq_iff)
  moreover have "market_ok db = market_ok (lv_db st)" using Refreshed.hyps(2) by (simp add: market_ok_def)
  ultimately have "advance (first_starts k moves) (lv_db st) db" "market_inv db = market_inv (lv_db st)"
    by (auto simp: market_inv_def aligned_def intro: advance_same)
  then show ?case using Refreshed.IH Refreshed.hyps(3) by (auto simp: live_ok_def intro: advance_trans)
qed

section \<open>Samples and properties\<close>

definition sample_klines :: "string \<Rightarrow> instant \<Rightarrow> instant \<Rightarrow> int \<Rightarrow> candle_1m list res" where
  "sample_klines symb s e n = Inr (map (\<lambda>t. \<lparr>m1_symbol = symb, m1_open_time = t, m1_open = 100, m1_high = 101,
     m1_low = 99, m1_close = 100, m1_volume = 1, m1_turnover = 100\<rparr>) (minute_grid s (nat ((e - s) div one_minute + 1))))"

definition sample_market_env :: "int \<Rightarrow> market_env" where
  "sample_market_env ms = \<lparr>me_now = ms * 1000, me_server_time_ms = Inr ms, me_klines = sample_klines\<rparr>"

definition sample_backfill :: backfill_config where
  "sample_backfill = \<lparr>bf_initial_history_minutes = 3, bf_batch_candles = 2\<rparr>"

definition sample_market_db :: market_db where
  "sample_market_db = \<lparr>md_candles = [], md_checkpoints = [], md_gaps = [], md_next_gap = 1, md_jobs = [],
     md_next_job = 1, md_aggregates = [], md_cursors = [],
     md_snapshots = [\<lparr>sn_id = 1, sn_is_active = True\<rparr>],
     md_members = [\<lparr>um_snapshot_id = 1, um_instrument_symbol = Some ''BTCUSDT'', um_market_cap_rank = 1,
       um_is_selected = True\<rparr>],
     md_instruments = [\<lparr>in_symbol = ''BTCUSDT'', in_launch_time = 0\<rparr>]\<rparr>"

definition sample_live :: live where
  "sample_live = \<lparr>lv_db = sample_market_db, lv_ready = False, lv_symbols = []\<rparr>"

lemma sample_market_honest: "honest (sample_market_env ms)"
  by (auto simp: honest_def sample_market_env_def sample_klines_def)

text \<open>A stream confirmed up to the fourth minute, and the candle of the fifth.\<close>

definition sample_synced :: live where
  "sample_synced = sample_live\<lparr>lv_db := upsert_checkpoint 0 ''BTCUSDT'' stream_name ''ready'' (Some (minutes 4)) None False
     sample_market_db\<rparr>"

definition sample_fifth :: candle_1m where
  "sample_fifth = \<lparr>m1_symbol = ''BTCUSDT'', m1_open_time = minutes 5, m1_open = 100, m1_high = 101, m1_low = 99,
     m1_close = 100, m1_volume = 1, m1_turnover = 100\<rparr>"

lemma sample_live_ok: "live_ok sample_synced"
proof -
  have "unique_targets sample_market_db" by code_simp
  then have "unique_targets (lv_db sample_synced)"
    using unique_targets_cong [of "lv_db sample_synced" sample_market_db] by (simp add: sample_synced_def)
  moreover have "market_ok sample_market_db" by (simp add: market_ok_def sample_market_db_def)
  then have "market_ok (lv_db sample_synced)" by (simp add: sample_synced_def market_ok_upsert_checkpoint)
  moreover have "confirmed_minute s sample_market_db = None" for s
    by (simp add: confirmed_def find_checkpoint_def sample_market_db_def)
  then have "aligned (lv_db sample_synced)"
    by (auto simp: aligned_def sample_synced_def confirmed_upsert later_confirmed_def split: if_splits)
  ultimately show ?thesis by (simp add: live_ok_def market_inv_def)
qed

lemma sample_ingest:
  "rmap (\<lambda>(r, db). (r, confirmed ''BTCUSDT'' stream_name db)) (ingest_live_candle 0 stream_name sample_fifth (lv_db sample_synced)) =
     Inr (Ingest_Ready, Some (minutes 5))"
  by code_simp

lemma sample_step:
  "\<exists>st. handle_market_event (sample_market_env 0) sample_backfill (Closed_Candle sample_fifth) sample_synced = Some (None, st) \<and>
     confirmed ''BTCUSDT'' stream_name (lv_db st) = Some (minutes 5)"
proof -
  obtain db where "ingest_live_candle 0 stream_name sample_fifth (lv_db sample_synced) = Inr (Ingest_Ready, db)"
      "confirmed ''BTCUSDT'' stream_name db = Some (minutes 5)"
    using sample_ingest by auto
  then show ?thesis by (simp add: handle_market_event_def sample_market_env_def)
qed

lemma sample_unconfirmed_ok: "live_ok sample_live"
proof -
  have "unique_targets (lv_db sample_live)" by code_simp
  moreover have "market_ok sample_market_db" by (simp add: market_ok_def sample_market_db_def)
  moreover have "confirmed_minute s sample_market_db = None" for s
    by (simp add: confirmed_def find_checkpoint_def sample_market_db_def)
  ultimately show ?thesis by (simp add: live_ok_def market_inv_def aligned_def sample_live_def)
qed

text \<open>The sample provider answers every request in full, so that every batch is saved.\<close>

lemma sample_batch: "cursor \<le> batch_end \<Longrightarrow> \<exists>db'. sync_batch (sample_market_env ms) k symb cursor batch_end db = Inr db'"
proof -
  assume le: "cursor \<le> batch_end"
  obtain cs where cs: "me_klines (sample_market_env ms) symb cursor batch_end (bf_batch_candles k) = Inr cs"
      "map m1_open_time cs = minute_grid cursor (nat ((batch_end - cursor) div one_minute + 1))"
      "map m1_symbol cs = replicate (length cs) symb"
    by (simp add: sample_market_env_def sample_klines_def comp_def map_replicate_const)
  have "distinct (map m1_open_time cs)" unfolding cs(2) by simp
  then have "distinct (map (\<lambda>c. (m1_symbol c, m1_open_time c)) cs)" by (auto simp: distinct_map inj_on_def)
  moreover have "validate_contiguous cs cursor batch_end = Inr ()" using validate_contiguous_ok [OF le] cs(2) by simp
  ultimately show ?thesis using cs(1) by (simp add: sync_batch_def save_batch_def upsert_candles_def)
qed

lemma sample_batches:
  assumes "1 \<le> bf_batch_candles k"
  shows "\<exists>db'. sync_batches (sample_market_env ms) k symb last_closed cursor db = Some (None, db')"
proof (induction "nat (last_closed + one_minute - cursor)" arbitrary: cursor db rule: less_induct)
  case less
  define batch_end where "batch_end = min (cursor + one_minute * (bf_batch_candles k - 1)) last_closed"
  show ?case
  proof (cases "cursor \<le> last_closed")
    case True
    then have be: "cursor \<le> batch_end" using assms by (simp add: batch_end_def minutes_def)
    obtain db1 where b: "sync_batch (sample_market_env ms) k symb cursor batch_end db = Inr db1"
      using sample_batch [OF be] by blast
    have "nat (last_closed + one_minute - (batch_end + one_minute)) < nat (last_closed + one_minute - cursor)"
      using be True by (simp add: minutes_def)
    from less [OF this] True b show ?thesis
      by (subst sync_batches.simps) (simp add: Let_def flip: batch_end_def)
  qed (subst sync_batches.simps, simp)
qed

lemma sample_target_recovers:
  assumes "1 \<le> bf_batch_candles k" "backfill_start k target checkpoint_time last_closed \<le> last_closed"
  shows "\<exists>db'. sync_target (sample_market_env ms) k target checkpoint_time last_closed db = Some (Sync_Recovered, db')"
proof -
  have "\<exists>db2. sync_batches (sample_market_env ms) k symb last_closed start_time db1 = Some (None, db2)" for symb start_time db1
    by (rule sample_batches [OF assms(1)])
  then show ?thesis using assms(2)
    by (auto simp: sync_target_def Let_def split: prod.splits)
      (metis (no_types, lifting) fst_conv option.simps(4,9) prod.case snd_conv)+
qed

lemma sample_start:
  "\<exists>st. start_live (sample_market_env 330000) sample_backfill sample_live = Some (None, st) \<and>
     confirmed ''BTCUSDT'' stream_name (lv_db st) = Some (minutes 4)"
proof -
  let ?env = "sample_market_env 330000" and ?k = sample_backfill
  let ?target = "\<lparr>tg_symbol = ''BTCUSDT'', tg_market_cap_rank = 1, tg_launch_time = 0\<rparr>"
  define db where "db = mark_stream_state (me_now ?env) [''BTCUSDT''] stream_name ''warming'' None
    (mark_inactive_streams (me_now ?env) [''BTCUSDT''] stream_name sample_market_db)"
  have k: "1 \<le> bf_batch_candles ?k" by (simp add: sample_backfill_def)
  have g: "goes_on S sample_market_db db" for S
    unfolding db_def by (rule goes_on_trans [OF mark_inactive_streams_goes_on mark_stream_state_goes_on])
  have inv: "market_inv sample_market_db" using sample_unconfirmed_ok by (simp add: live_ok_def sample_live_def)
  then have db: "market_inv db" "universe_of db = universe_of sample_market_db"
    using g by (auto simp: goes_on_def)
  have none: "confirmed_minute ''BTCUSDT'' db = None"
  proof (rule ccontr)
    assume "confirmed_minute ''BTCUSDT'' db \<noteq> None"
    then obtain t where t: "confirmed_minute ''BTCUSDT'' db = Some t" by blast
    have "advance (\<lambda>_ _. False) sample_market_db db" using g inv by (simp add: goes_on_def)
    moreover have "confirmed_minute ''BTCUSDT'' sample_market_db = None" by code_simp
    ultimately show False using advance_None t by blast
  qed
  have "list_active_targets db = list_active_targets sample_market_db"
    using db(2) by (simp add: list_active_targets_def universe_of_def)
  also have "\<dots> = [?target]" by code_simp
  finally have targets: "list_active_targets db = [?target]" .
  have checkpoint: "(case map_of (get_checkpoints stream_name db) ''BTCUSDT'' of None \<Rightarrow> None | Some r \<Rightarrow> ck_last_confirmed r) = None"
    using none db(1) by (simp add: get_checkpoints_lookup market_inv_def market_ok_def confirmed_def)
  have last: "last_closed_minute (330000 * 1000) = minutes 4" by code_simp
  have start: "backfill_start ?k ?target None (minutes 4) \<le> minutes 4" by code_simp
  obtain db' where sync: "sync_target ?env ?k ?target None (minutes 4) db = Some (Sync_Recovered, db')"
    using sample_target_recovers [OF k start] by blast
  have "confirmed_minute (tg_symbol ?target) db' = Some (minutes 4)"
    by (rule sync_target_ok(2) [OF sync sample_market_honest k _ _ _ _ refl, where S = "\<lambda>_ _. True"])
      (use db(1) none in \<open>simp_all add: market_inv_def\<close>)
  moreover have "sync_once ?env ?k db = Some (Inr (\<lparr>sy_ready = 0, sy_recovered = 1, sy_failed = 0\<rparr>, db'))"
  proof -
    have "sync_targets ?env ?k (minutes 4) (get_checkpoints stream_name db) [?target] db = Some ([Sync_Recovered], db')"
      using sync checkpoint by (simp add: sync_targets_def)
    moreover have "me_server_time_ms ?env = Inr 330000" by (simp add: sample_market_env_def)
    ultimately show ?thesis using last by (simp add: sync_once_def targets)
  qed
  moreover have "active_symbols (lv_db sample_live) = [''BTCUSDT'']" by code_simp
  ultimately show ?thesis
    by (simp add: start_live_def warm_up_def resync_def sample_live_def flip: db_def)
qed

lemma full_minutes:
  assumes "s \<le> m" "m \<le> s + minutes (int n)" "one_minute dvd m" "one_minute dvd s"
  shows "\<exists>i \<le> n. m = s + minutes (int i)"
proof -
  obtain d where d: "m - s = one_minute * d" using assms(3,4) by (metis dvd_diff dvd_def)
  have "0 \<le> d" "d \<le> int n" using assms(1,2) d by (simp_all add: minutes_def)
  then show ?thesis using d by (intro exI [of _ "nat d"]) (simp add: minutes_def)
qed

text \<open>C18: The confirmed minute of a stream never skips a minute: along every run of the service, whatever
  the stream delivers, the provider fails to deliver or other parts repair, every full minute between
  the minute confirmed at first and the one confirmed at the end is stored. A stream confirmed for the
  first time has the whole of its history: one of the moves of the run found the symbol unconfirmed
  among the active targets, and every full minute from the start that the server's time, the
  configured history and the launch of the target give for that move, up to the confirmed minute,
  is stored.\<close>

theorem confirmed_never_skips:
  assumes "market_reachable k st0 moves st" "live_ok st0" "1 \<le> bf_batch_candles k"
    and "confirmed symb stream_name (lv_db st) = Some t"
  shows "(\<forall>t0. confirmed symb stream_name (lv_db st0) = Some t0 \<longrightarrow> t0 \<le> t \<and>
      (\<forall>m. t0 < m \<and> m \<le> t \<and> one_minute dvd m \<longrightarrow> stored (lv_db st) symb m)) \<and>
    (confirmed symb stream_name (lv_db st0) = None \<longrightarrow>
      (\<exists>env before ms target start. (env, before) \<in> set moves \<and>
        confirmed symb stream_name (lv_db before) = None \<and> me_server_time_ms env = Inr ms \<and>
        target \<in> set (list_active_targets (lv_db before)) \<and> tg_symbol target = symb \<and>
        start = max (last_closed_minute (ms * 1000) - one_minute * (bf_initial_history_minutes k - 1))
          (minute_floor (tg_launch_time target)) \<and> start \<le> t \<and>
        (\<forall>m. start \<le> m \<and> m \<le> t \<and> one_minute dvd m \<longrightarrow> stored (lv_db st) symb m)))"
proof (intro conjI allI impI)
  have adv: "advance (first_starts k moves) (lv_db st0) (lv_db st)" using market_reachable_ok [OF assms(1-3)] by simp
  have al: "aligned (lv_db st0)" using assms(2) by (simp add: live_ok_def market_inv_def)
  {
    fix t0 assume t0: "confirmed symb stream_name (lv_db st0) = Some t0"
    then have dvd: "one_minute dvd t0" using al by (simp add: aligned_def)
    obtain n where n: "t = t0 + minutes (int n)" "\<And>i. i < n \<Longrightarrow> stored (lv_db st) symb (t0 + minutes (int (Suc i)))"
      using advance_Some [OF adv t0] assms(4) by auto
    then show "t0 \<le> t" by simp
    fix m assume m: "t0 < m \<and> m \<le> t \<and> one_minute dvd m"
    then obtain i where i: "m = t0 + minutes (int i)" "i \<le> n" using full_minutes [of t0 m n] n(1) dvd by auto
    with m have "0 < i" by (simp add: minutes_def)
    then show "stored (lv_db st) symb m" using n(2) [of "i - 1"] i by simp
  }
  assume none: "confirmed symb stream_name (lv_db st0) = None"
  obtain start n where n: "first_starts k moves symb start" "one_minute dvd start" "t = start + minutes (int n)"
      "\<And>i. i \<le> n \<Longrightarrow> stored (lv_db st) symb (start + minutes (int i))"
    using advance_None [OF adv none assms(4)] by auto
  have "stored (lv_db st) symb m" if m: "start \<le> m" "m \<le> t" "one_minute dvd m" for m
    using full_minutes [of start m n] m n by auto
  moreover have "start \<le> t" using n(3) by simp
  moreover obtain env before ms target where "(env, before) \<in> set moves" "confirmed_minute symb (lv_db before) = None"
      "me_server_time_ms env = Inr ms" "target \<in> set (list_active_targets (lv_db before))" "tg_symbol target = symb"
      "start = max (last_closed_minute (ms * 1000) - one_minute * (bf_initial_history_minutes k - 1))
          (minute_floor (tg_launch_time target))"
    using n(1) by (auto simp: first_starts_def history_starts_def backfill_start_def Let_def)
  ultimately show "\<exists>env before ms target start. (env, before) \<in> set moves \<and>
        confirmed symb stream_name (lv_db before) = None \<and> me_server_time_ms env = Inr ms \<and>
        target \<in> set (list_active_targets (lv_db before)) \<and> tg_symbol target = symb \<and>
        start = max (last_closed_minute (ms * 1000) - one_minute * (bf_initial_history_minutes k - 1))
          (minute_floor (tg_launch_time target)) \<and> start \<le> t \<and>
        (\<forall>m. start \<le> m \<and> m \<le> t \<and> one_minute dvd m \<longrightarrow> stored (lv_db st) symb m)"
    by blast
qed

text \<open>The first start of the sample service, with a history of three minutes in batches of two, and the
  candle after a confirmed minute.\<close>

lemma confirmed_never_skips_witness:
  "(\<exists>st. market_reachable sample_backfill sample_live [(sample_market_env 330000, sample_live)] st \<and>
      confirmed ''BTCUSDT'' stream_name (lv_db st) = Some (minutes 4) \<and>
      stored (lv_db st) ''BTCUSDT'' (minutes 2) \<and> stored (lv_db st) ''BTCUSDT'' (minutes 3) \<and>
      stored (lv_db st) ''BTCUSDT'' (minutes 4)) \<and>
   (\<exists>st. market_reachable sample_backfill sample_synced [(sample_market_env 0, sample_synced)] st \<and>
      confirmed ''BTCUSDT'' stream_name (lv_db st) = Some (minutes 5) \<and> stored (lv_db st) ''BTCUSDT'' (minutes 5))"
proof
  have k: "1 \<le> bf_batch_candles sample_backfill" by (simp add: sample_backfill_def)
  obtain st where st: "start_live (sample_market_env 330000) sample_backfill sample_live = Some (None, st)"
      "confirmed ''BTCUSDT'' stream_name (lv_db st) = Some (minutes 4)"
    using sample_start by blast
  then have r: "market_reachable sample_backfill sample_live [(sample_market_env 330000, sample_live)] st"
    using market_reachable.Began [OF market_reachable.Started sample_market_honest] by fastforce
  have none: "confirmed ''BTCUSDT'' stream_name (lv_db sample_live) = None" by code_simp
  have targets: "list_active_targets (lv_db sample_live) = [\<lparr>tg_symbol = ''BTCUSDT'', tg_market_cap_rank = 1, tg_launch_time = 0\<rparr>]"
    by code_simp
  have start: "max (last_closed_minute (330000 * 1000) - one_minute * (bf_initial_history_minutes sample_backfill - 1))
      (minute_floor 0) = minutes 2" by code_simp
  from conjunct2 [OF confirmed_never_skips [OF r sample_unconfirmed_ok k st(2)]] none
  obtain env before ms target start where "(env, before) \<in> set [(sample_market_env 330000, sample_live)]"
      "me_server_time_ms env = Inr ms" "target \<in> set (list_active_targets (lv_db before))"
    and s: "start = max (last_closed_minute (ms * 1000) - one_minute * (bf_initial_history_minutes sample_backfill - 1))
          (minute_floor (tg_launch_time target))"
    and all: "\<forall>m. start \<le> m \<and> m \<le> minutes 4 \<and> one_minute dvd m \<longrightarrow> stored (lv_db st) ''BTCUSDT'' m" by blast
  then have "ms = 330000" "tg_launch_time target = 0" using targets by (simp_all add: sample_market_env_def)
  with s start have "start = minutes 2" by simp
  with all have "\<forall>m. minutes 2 \<le> m \<and> m \<le> minutes 4 \<and> one_minute dvd m \<longrightarrow> stored (lv_db st) ''BTCUSDT'' m" by simp
  then show "\<exists>st. market_reachable sample_backfill sample_live [(sample_market_env 330000, sample_live)] st \<and>
      confirmed ''BTCUSDT'' stream_name (lv_db st) = Some (minutes 4) \<and>
      stored (lv_db st) ''BTCUSDT'' (minutes 2) \<and> stored (lv_db st) ''BTCUSDT'' (minutes 3) \<and>
      stored (lv_db st) ''BTCUSDT'' (minutes 4)"
    using r st(2) by (intro exI [of _ st]) simp
next
  have k: "1 \<le> bf_batch_candles sample_backfill" by (simp add: sample_backfill_def)
  obtain st where st: "handle_market_event (sample_market_env 0) sample_backfill (Closed_Candle sample_fifth) sample_synced =
      Some (None, st)" "confirmed ''BTCUSDT'' stream_name (lv_db st) = Some (minutes 5)"
    using sample_step by blast
  then have r: "market_reachable sample_backfill sample_synced [(sample_market_env 0, sample_synced)] st"
    using market_reachable.Handled [OF market_reachable.Started sample_market_honest] by fastforce
  have "confirmed ''BTCUSDT'' stream_name (lv_db sample_synced) = Some (minutes 4)" by code_simp
  with confirmed_never_skips [OF r sample_live_ok k st(2)] have "stored (lv_db st) ''BTCUSDT'' (minutes 5)"
    by simp
  with r st(2) show "\<exists>st. market_reachable sample_backfill sample_synced [(sample_market_env 0, sample_synced)] st \<and>
      confirmed ''BTCUSDT'' stream_name (lv_db st) = Some (minutes 5) \<and> stored (lv_db st) ''BTCUSDT'' (minutes 5)" by blast
qed

text \<open>C20: A synchronisation always returns, whatever the provider answers: with a positive batch size, the
  loop over the batches of a symbol ends.\<close>

theorem synchronisation_ends:
  assumes "1 \<le> bf_batch_candles k"
  shows "\<exists>r. sync_once env k db = Some r"
  using sync_once_returns [OF assms] .

lemma synchronisation_ends_witness: "\<exists>r. sync_once (sample_market_env 330000) sample_backfill sample_market_db = Some r"
  by (rule synchronisation_ends) (simp add: sample_backfill_def)

section \<open>The reconciled window\<close>

lemma grid_window:
  assumes "starts \<le> ends"
  shows "set (minute_grid starts (nat ((ends - starts) div one_minute + 1))) =
    {m. starts \<le> m \<and> m \<le> ends \<and> one_minute dvd m - starts}"
proof (intro set_eqI iffI)
  let ?n = "nat ((ends - starts) div one_minute + 1)"
  have n: "int ?n = (ends - starts) div one_minute + 1" using assms by (simp add: minutes_def pos_imp_zdiv_nonneg_iff)
  have q: "(ends - starts) div one_minute * one_minute \<le> ends - starts" "ends - starts < ((ends - starts) div one_minute + 1) * one_minute"
    using pos_mod_bound [of one_minute "ends - starts"] pos_mod_sign [of one_minute "ends - starts"]
    by (simp_all add: distrib_right flip: minus_mod_eq_div_mult)
  {
    fix m assume "m \<in> set (minute_grid starts ?n)"
    then obtain i where i: "i < ?n" "m = starts + one_minute * int i" by (auto simp: set_minute_grid)
    have "int i \<le> (ends - starts) div one_minute" using i(1) n by linarith
    then have "int i * one_minute \<le> (ends - starts) div one_minute * one_minute" by (intro mult_right_mono) simp_all
    from order_trans [OF this q(1)] have "one_minute * int i \<le> ends - starts" by (simp only: mult.commute)
    with i(2) show "m \<in> {m. starts \<le> m \<and> m \<le> ends \<and> one_minute dvd m - starts}" by (simp add: mult.commute)
  }
  {
    fix m assume m: "m \<in> {m. starts \<le> m \<and> m \<le> ends \<and> one_minute dvd m - starts}"
    then obtain d where d: "m = starts + one_minute * d" by (auto simp: dvd_def algebra_simps)
    have "0 \<le> one_minute * d" using m d by simp
    then have "0 \<le> d" by (simp add: zero_le_mult_iff minutes_def)
    have "one_minute * d \<le> ends - starts" using m d by simp
    from zdiv_mono1 [OF this, of one_minute] have "d < (ends - starts) div one_minute + 1" by (simp add: minutes_def)
    with \<open>0 \<le> d\<close> n show "m \<in> set (minute_grid starts ?n)"
      unfolding set_minute_grid by (intro exI [of _ "nat d"]) (simp add: d)
  }
qed

lemma distinct_window:
  "distinct (map (\<lambda>c. (m1_symbol c, m1_open_time c)) cs) \<Longrightarrow>
     distinct (map m1_open_time (filter (\<lambda>c. m1_symbol c = symb \<and> P c) cs))"
proof (induction cs)
  case (Cons c cs)
  let ?k = "\<lambda>c. (m1_symbol c, m1_open_time c)"
  have other: "m1_symbol x = m1_symbol c \<Longrightarrow> m1_open_time x \<noteq> m1_open_time c" if "x \<in> set cs" for x
  proof -
    have "?k x \<in> set (map ?k cs)" "?k c \<notin> set (map ?k cs)" using that Cons.prems by simp_all
    then show "m1_symbol x = m1_symbol c \<Longrightarrow> m1_open_time x \<noteq> m1_open_time c" by metis
  qed
  have "m1_open_time c \<notin> m1_open_time ` {x \<in> set cs. m1_symbol x = symb \<and> P x}" if "m1_symbol c = symb"
  proof
    assume "m1_open_time c \<in> m1_open_time ` {x \<in> set cs. m1_symbol x = symb \<and> P x}"
    then obtain x where "x \<in> set cs" "m1_symbol x = symb" "m1_open_time x = m1_open_time c" by auto
    with other that show False by metis
  qed
  with Cons show ?case by simp
qed simp

lemma window_records:
  fixes symb :: string and starts ends :: instant
  assumes "market_ok db"
  defines "records \<equiv> sort_key m1_open_time (filter (\<lambda>c. m1_symbol c = symb \<and> starts \<le> m1_open_time c \<and>
      m1_open_time c \<le> ends) (map cr_candle (md_candles db)))"
  shows "sorted_wrt (<) (map m1_open_time records)"
    and "set (map m1_open_time records) = {m. starts \<le> m \<and> m \<le> ends \<and> stored db symb m}"
    and "c \<in> set records \<Longrightarrow> m1_symbol c = symb"
proof -
  let ?f = "filter (\<lambda>c. m1_symbol c = symb \<and> starts \<le> m1_open_time c \<and> m1_open_time c \<le> ends) (map cr_candle (md_candles db))"
  have "distinct (map (\<lambda>c. (m1_symbol c, m1_open_time c)) (map cr_candle (md_candles db)))"
    using assms(1) by (simp add: market_ok_def candle_key_def [abs_def] comp_def)
  then have "distinct (map m1_open_time ?f)" by (rule distinct_window)
  then have "distinct (map m1_open_time records)"
    using mset_eq_imp_distinct_iff [of "map m1_open_time records" "map m1_open_time ?f"] by (simp add: records_def)
  then show "sorted_wrt (<) (map m1_open_time records)" by (simp add: strict_sorted_iff records_def)
  show "set (map m1_open_time records) = {m. starts \<le> m \<and> m \<le> ends \<and> stored db symb m}"
    by (force simp: records_def stored_def candle_key_def)
  show "c \<in> set records \<Longrightarrow> m1_symbol c = symb" by (auto simp: records_def)
qed

text \<open>C19: \<open>load_reconciled_1m_window\<close> hands out either nothing or every minute of the window, in order and of
  the symbol; and it hands them out exactly when the stream is ready, confirmed to the end of the window
  and the stored minutes of the window are its full minutes.\<close>

theorem reconciled_window_exact:
  assumes "market_ok db" "starts \<le> ends"
  shows "(load_reconciled_1m_window symb starts ends stream db \<noteq> [] \<longleftrightarrow>
      (\<exists>r t. find_checkpoint symb stream db = Some r \<and> ck_state r = ''ready'' \<and> ck_last_confirmed r = Some t \<and> ends \<le> t) \<and>
      (\<forall>m. starts \<le> m \<and> m \<le> ends \<longrightarrow> (stored db symb m \<longleftrightarrow> one_minute dvd m - starts))) \<and>
    (load_reconciled_1m_window symb starts ends stream db \<noteq> [] \<longrightarrow>
      map m1_open_time (load_reconciled_1m_window symb starts ends stream db) =
        minute_grid starts (nat ((ends - starts) div one_minute + 1)) \<and>
      (\<forall>c \<in> set (load_reconciled_1m_window symb starts ends stream db). m1_symbol c = symb))"
proof -
  let ?n = "nat ((ends - starts) div one_minute + 1)"
  define records where "records = sort_key m1_open_time (filter (\<lambda>c. m1_symbol c = symb \<and> starts \<le> m1_open_time c \<and>
      m1_open_time c \<le> ends) (map cr_candle (md_candles db)))"
  define ready where "ready \<longleftrightarrow> (\<exists>r t. find_checkpoint symb stream db = Some r \<and> ck_state r = ''ready'' \<and>
    ck_last_confirmed r = Some t \<and> ends \<le> t)"
  note w = window_records [OF assms(1), where symb = symb and starts = starts and ends = ends, folded records_def]
  have n: "int ?n = (ends - starts) div one_minute + 1" "0 < ?n"
    using assms(2) by (simp_all add: minutes_def pos_imp_zdiv_nonneg_iff add_nonneg_pos)
  have len: "int (length xs) = (ends - starts) div one_minute + 1 \<longleftrightarrow> length xs = ?n" for xs :: "candle_1m list"
    using n by linarith
  have load: "load_reconciled_1m_window symb starts ends stream db =
      (if ready \<and> map m1_open_time records = minute_grid starts ?n then records else [])"
    unfolding load_reconciled_1m_window_def Let_def records_def [symmetric] minute_grid_iff len ready_def
    using assms(2) by (auto simp: minutes_def mult.commute split: option.splits)
  have "map m1_open_time records = minute_grid starts ?n \<longleftrightarrow>
      set (map m1_open_time records) = set (minute_grid starts ?n)"
    using sorted_distinct_set_unique [of "map m1_open_time records" "minute_grid starts ?n"] w(1)
      minute_grid_sorted [of starts ?n] unfolding strict_sorted_iff by metis
  also have "\<dots> \<longleftrightarrow> (\<forall>m. starts \<le> m \<and> m \<le> ends \<longrightarrow> (stored db symb m \<longleftrightarrow> one_minute dvd m - starts))"
    unfolding w(2) grid_window [OF assms(2)] by blast
  finally have grid: "map m1_open_time records = minute_grid starts ?n \<longleftrightarrow>
    (\<forall>m. starts \<le> m \<and> m \<le> ends \<longrightarrow> (stored db symb m \<longleftrightarrow> one_minute dvd m - starts))" .
  have ne: "records \<noteq> []" if "map m1_open_time records = minute_grid starts ?n"
    using that n(2) by (metis length_map list.size(3) minute_grid_simps(1) less_irrefl)
  show ?thesis unfolding load ready_def [symmetric] grid [symmetric] using ne w(3) by auto
qed

lemma reconciled_window_exact_witness:
  "load_reconciled_1m_window ''BTCUSDT'' (minutes 5) (minutes 5) stream_name
     (case ingest_live_candle 0 stream_name sample_fifth (lv_db sample_synced) of Inr (_, db) \<Rightarrow> db | _ \<Rightarrow> sample_market_db) \<noteq> [] \<and>
   map m1_open_time (load_reconciled_1m_window ''BTCUSDT'' (minutes 5) (minutes 5) stream_name
     (case ingest_live_candle 0 stream_name sample_fifth (lv_db sample_synced) of Inr (_, db) \<Rightarrow> db | _ \<Rightarrow> sample_market_db)) =
     minute_grid (minutes 5) 1"
proof -
  let ?db = "case ingest_live_candle 0 stream_name sample_fifth (lv_db sample_synced) of Inr (_, db) \<Rightarrow> db | _ \<Rightarrow> sample_market_db"
  have ok: "market_ok ?db" unfolding market_ok_def by code_simp
  have ne: "load_reconciled_1m_window ''BTCUSDT'' (minutes 5) (minutes 5) stream_name ?db \<noteq> []" by code_simp
  with reconciled_window_exact [OF ok order_refl, of "''BTCUSDT''" "minutes 5" stream_name] show ?thesis by simp
qed

end
