(* ===== verification/Aggregation_Queue.thy ===== *)
theory Aggregation_Queue
  imports Market_Stream
begin

text \<open>
  \<open>src/src/crypto_smc/db/repositories/aggregation.py\<close>, \<open>aggregation/service.py\<close> and
  \<open>aggregation/reconciliation.py\<close>: the worker that turns queued intervals into candles, over the tables
  of \<open>Market_Data\<close>. A job is claimed by stamping its row with the moment of the claim; it is finished or
  failed only while the row still carries that stamp. The locks of \<open>SKIP LOCKED\<close> are not modelled, and of
  the exceptions inside \<open>_process_job\<close> only those of the database exist: they are an argument.
\<close>

section \<open>db/repositories/aggregation.py\<close>

record aggregation_job =
  aj_id :: int
  aj_symbol :: string
  aj_timeframe :: timeframe
  aj_open_time :: instant
  aj_priority :: int
  aj_attempts :: int
  aj_claimed_at :: instant

definition recover_stale_jobs :: "instant \<Rightarrow> int \<Rightarrow> market_db \<Rightarrow> int \<times> market_db" where
  "recover_stale_jobs now stale_after db =
     (let stale = (\<lambda>r. jb_state r = Job_Processing \<and> jb_updated_at r < now - stale_after) in
      (int (length (filter stale (md_jobs db))),
       db\<lparr>md_jobs := map (\<lambda>r. if stale r then r\<lparr>jb_state := Job_Pending, jb_available_at := now, jb_updated_at := now\<rparr>
          else r) (md_jobs db)\<rparr>))"

definition find_cursor :: "string \<Rightarrow> market_db \<Rightarrow> cursor_row option" where
  "find_cursor symb db = List.find (\<lambda>r. cu_symbol r = symb) (md_cursors db)"

definition placeholder_candle :: "string \<Rightarrow> instant \<Rightarrow> candle_1m" where
  "placeholder_candle symb t = \<lparr>m1_symbol = symb, m1_open_time = t, m1_open = 0, m1_high = 0, m1_low = 0,
     m1_close = 0, m1_volume = 0, m1_turnover = 0\<rparr>"

definition unscanned_times :: "int \<Rightarrow> string \<Rightarrow> market_db \<Rightarrow> instant list" where
  "unscanned_times limit symb db =
     take (nat limit) (sort (filter
       (\<lambda>t. case Option.bind (find_cursor symb db) cu_last_scanned of None \<Rightarrow> True | Some u \<Rightarrow> t > u)
       (map (\<lambda>r. m1_open_time (cr_candle r)) (filter (\<lambda>r. m1_symbol (cr_candle r) = symb) (md_candles db)))))"

fun seed_symbols :: "instant \<Rightarrow> int \<Rightarrow> string list \<Rightarrow> market_db \<Rightarrow> int \<times> market_db" where
  "seed_symbols now limit [] db = (0, db)"
| "seed_symbols now limit (symb # symbols) db =
     (let times = unscanned_times limit symb db in
      if times = [] then seed_symbols now limit symbols db
      else
        let db = enqueue_aggregation_jobs now (map (placeholder_candle symb) times) 100 False db;
            row = \<lparr>cu_symbol = symb, cu_last_scanned = Some (last times), cu_updated_at = now\<rparr>
        in (int (length times), db\<lparr>md_cursors := upsert cu_symbol (\<lambda>_. row) row (md_cursors db)\<rparr>))"

definition seed_next_batch :: "instant \<Rightarrow> int \<Rightarrow> market_db \<Rightarrow> int \<times> market_db" where
  "seed_next_batch now limit db = seed_symbols now limit (list_active_symbols db) db"

definition claim_row :: "instant \<Rightarrow> job_row \<Rightarrow> job_row" where
  "claim_row now r = r\<lparr>jb_state := Job_Processing, jb_attempts := jb_attempts r + 1, jb_updated_at := now\<rparr>"

definition job_of_row :: "instant \<Rightarrow> job_row \<Rightarrow> aggregation_job" where
  "job_of_row now r = \<lparr>aj_id = jb_id r, aj_symbol = jb_symbol r, aj_timeframe = jb_timeframe r,
     aj_open_time = jb_open_time r, aj_priority = jb_priority r, aj_attempts = jb_attempts r, aj_claimed_at = now\<rparr>"

definition claim_jobs :: "instant \<Rightarrow> int \<Rightarrow> market_db \<Rightarrow> aggregation_job list \<times> market_db" where
  "claim_jobs now limit db =
     (let records = take (nat limit) (sort_key (\<lambda>r. (jb_priority r, jb_open_time r, jb_id r))
            (filter (\<lambda>r. jb_state r = Job_Pending \<and> jb_available_at r \<le> now) (md_jobs db)));
          ids = map jb_id records
      in (map (\<lambda>r. job_of_row now (claim_row now r)) records,
          db\<lparr>md_jobs := map (\<lambda>r. if jb_id r \<in> set ids then claim_row now r else r) (md_jobs db)\<rparr>))"

definition source_candles :: "string \<Rightarrow> timeframe \<Rightarrow> instant \<Rightarrow> market_db \<Rightarrow> candle_1m list" where
  "source_candles symb tf t db =
     sort_key m1_open_time (filter (\<lambda>c. m1_symbol c = symb \<and> t \<le> m1_open_time c \<and> m1_open_time c < interval_end t tf)
       (map cr_candle (md_candles db)))"

definition load_source_candles :: "aggregation_job \<Rightarrow> market_db \<Rightarrow> candle_1m list" where
  "load_source_candles job db = source_candles (aj_symbol job) (aj_timeframe job) (aj_open_time job) db"

definition aggregate_key :: "aggregate_row \<Rightarrow> string \<times> timeframe \<times> instant" where
  "aggregate_key r = (ag_symbol (ar_candle r), ag_timeframe (ar_candle r), ag_open_time (ar_candle r))"

definition claimed_row :: "aggregation_job \<Rightarrow> job_row \<Rightarrow> bool" where
  "claimed_row job r \<longleftrightarrow> jb_id r = aj_id job \<and> jb_state r = Job_Processing \<and> jb_updated_at r = aj_claimed_at job"

definition finish_job :: "instant \<Rightarrow> aggregation_job \<Rightarrow> aggregated_candle option \<Rightarrow> market_db \<Rightarrow> market_db" where
  "finish_job now job candle db =
     (let db = (case candle of
            None \<Rightarrow> db\<lparr>md_aggregates := filter (\<lambda>r. aggregate_key r \<noteq>
                (aj_symbol job, aj_timeframe job, aj_open_time job)) (md_aggregates db)\<rparr>
          | Some a \<Rightarrow> db\<lparr>md_aggregates := upsert aggregate_key (\<lambda>_. \<lparr>ar_candle = a, ar_updated_at = now\<rparr>)
                \<lparr>ar_candle = a, ar_updated_at = now\<rparr> (md_aggregates db)\<rparr>)
      in db\<lparr>md_jobs := filter (\<lambda>r. \<not> claimed_row job r) (md_jobs db)\<rparr>)"

definition fail_job :: "instant \<Rightarrow> aggregation_job \<Rightarrow> string \<Rightarrow> int \<Rightarrow> market_db \<Rightarrow> market_db" where
  "fail_job now job err retry_delay db =
     db\<lparr>md_jobs := map (\<lambda>r. if claimed_row job r
       then r\<lparr>jb_state := Job_Pending, jb_last_error := Some err, jb_available_at := now + retry_delay, jb_updated_at := now\<rparr>
       else r) (md_jobs db)\<rparr>"

definition queue_depth :: "market_db \<Rightarrow> int" where
  "queue_depth db = int (length (filter (\<lambda>r. jb_state r \<in> {Job_Pending, Job_Processing}) (md_jobs db)))"

record aggregation_sample =
  as_symbol :: string
  as_timeframe :: timeframe
  as_open_time :: instant
  as_candle :: aggregated_candle

text \<open>\<open>DISTINCT ON (timeframe)\<close>: the first row of each timeframe in the order of the query.\<close>

fun distinct_on :: "('r \<Rightarrow> 'k) \<Rightarrow> 'r list \<Rightarrow> 'r list" where
  "distinct_on f [] = []"
| "distinct_on f (r # rs) = r # distinct_on f (filter (\<lambda>x. f x \<noteq> f r) rs)"

definition list_reconciliation_samples :: "int \<Rightarrow> market_db \<Rightarrow> aggregation_sample list" where
  "list_reconciliation_samples limit db =
     (let symbols = list_active_symbols db;
          candles = filter (\<lambda>a. ag_symbol a \<in> set symbols) (map ar_candle (md_aggregates db));
          ordered = sort_key (\<lambda>a. (timeframe_name (ag_timeframe a), - ag_open_time a, ag_symbol a)) candles
      in map (\<lambda>a. \<lparr>as_symbol = ag_symbol a, as_timeframe = ag_timeframe a, as_open_time = ag_open_time a, as_candle = a\<rparr>)
           (take (nat limit) (distinct_on ag_timeframe ordered)))"

record aggregation_status =
  st_timeframes :: "(string \<times> int \<times> instant) list"
  st_jobs :: "(job_state \<times> int) list"

definition aggregation_status_summary :: "market_db \<Rightarrow> aggregation_status" where
  "aggregation_status_summary db =
     \<lparr>st_timeframes = map (\<lambda>n. let rows = filter (\<lambda>a. timeframe_name (ag_timeframe a) = n) (map ar_candle (md_aggregates db))
          in (n, int (length rows), Max (set (map ag_open_time rows))))
        (sort (dedup (map (\<lambda>r. timeframe_name (ag_timeframe (ar_candle r))) (md_aggregates db)))),
      st_jobs = map (\<lambda>s. (s, int (length (filter (\<lambda>r. jb_state r = s) (md_jobs db)))))
        (filter (\<lambda>s. s \<in> jb_state ` set (md_jobs db)) [Job_Pending, Job_Processing])\<rparr>"

section \<open>service.py\<close>

definition retry_delay_seconds :: "int \<Rightarrow> int" where
  "retry_delay_seconds attempts = min 60 (2 ^ nat (min attempts 5))"

definition process_job :: "instant \<Rightarrow> string option \<Rightarrow> aggregation_job \<Rightarrow> market_db \<Rightarrow> market_db" where
  "process_job now failure job db =
     (case failure of
        Some e \<Rightarrow> fail_job now job e (seconds (retry_delay_seconds (aj_attempts job))) db
      | None \<Rightarrow> finish_job now job
          (aggregate_candles (load_source_candles job db) (aj_timeframe job) (Some (aj_open_time job))) db)"

text \<open>The argument \<open>env\<close> gives the moment at which each job is settled and the failure it meets.\<close>

type_synonym round_env = "aggregation_job \<Rightarrow> instant \<times> string option"

fun process_jobs :: "round_env \<Rightarrow> aggregation_job list \<Rightarrow> market_db \<Rightarrow> market_db" where
  "process_jobs env [] db = db"
| "process_jobs env (j # js) db = process_jobs env js (process_job (fst (env j)) (snd (env j)) j db)"

definition run_round :: "round_env \<Rightarrow> instant \<Rightarrow> int \<Rightarrow> int \<Rightarrow> market_db \<Rightarrow> aggregation_job list \<times> market_db" where
  "run_round env now limit batch db =
     (let db = snd (seed_next_batch now limit db);
          (jobs, db) = claim_jobs now batch db
      in (jobs, process_jobs env jobs db))"

section \<open>reconciliation.py\<close>

definition sample_matches :: "aggregation_sample \<Rightarrow> candle_1m \<Rightarrow> bool" where
  "sample_matches s c \<longleftrightarrow> ag_open (as_candle s) = m1_open c \<and> ag_high (as_candle s) = m1_high c \<and>
     ag_low (as_candle s) = m1_low c \<and> ag_close (as_candle s) = m1_close c \<and>
     ag_volume (as_candle s) = m1_volume c \<and> ag_turnover (as_candle s) = m1_turnover c"

fun bybit_interval :: "timeframe \<Rightarrow> string" where
  "bybit_interval TF_5m = ''5''"
| "bybit_interval TF_15m = ''15''"
| "bybit_interval TF_1h = ''60''"
| "bybit_interval TF_4h = ''240''"

text \<open>The provider of candles of any interval, and the one of closed minutes, as in \<open>market_env\<close>.\<close>

record reconcile_env =
  re_now :: instant
  re_klines :: "string \<Rightarrow> string \<Rightarrow> instant \<Rightarrow> instant \<Rightarrow> int \<Rightarrow> candle_1m list res"
  re_minutes :: "string \<Rightarrow> instant \<Rightarrow> instant \<Rightarrow> int \<Rightarrow> candle_1m list res"

datatype reconcile_result = Matched | Repaired

definition reconcile_sample :: "reconcile_env \<Rightarrow> aggregation_sample \<Rightarrow> market_db \<Rightarrow> (reconcile_result \<times> market_db) res" where
  "reconcile_sample env s db =
     rbind (re_klines env (as_symbol s) (bybit_interval (as_timeframe s)) (as_open_time s) (as_open_time s) 1) (\<lambda>exchange.
     if (case exchange of [] \<Rightarrow> False | c # _ \<Rightarrow> sample_matches s c) then Inr (Matched, db)
     else
       rbind (re_minutes env (as_symbol s) (as_open_time s) (interval_end (as_open_time s) (as_timeframe s) - minutes 1)
         (timeframe_minutes (as_timeframe s))) (\<lambda>repaired.
       rbind (repair_candles (re_now env) repaired db) (\<lambda>db. Inr (Repaired, db))))"

record reconcile_counts =
  rc_matched :: int
  rc_repaired :: int
  rc_failed :: int

definition reconcile_step ::
  "reconcile_env \<Rightarrow> reconcile_counts \<times> market_db \<Rightarrow> aggregation_sample \<Rightarrow> reconcile_counts \<times> market_db" where
  "reconcile_step env acc s =
     (case acc of (counts, db) \<Rightarrow>
        (case reconcile_sample env s db of
           Inl e \<Rightarrow> (counts\<lparr>rc_failed := rc_failed counts + 1\<rparr>, db)
         | Inr (Matched, db) \<Rightarrow> (counts\<lparr>rc_matched := rc_matched counts + 1\<rparr>, db)
         | Inr (Repaired, db) \<Rightarrow> (counts\<lparr>rc_repaired := rc_repaired counts + 1\<rparr>, db)))"

definition reconcile_aggregates_once :: "reconcile_env \<Rightarrow> int \<Rightarrow> market_db \<Rightarrow> reconcile_counts \<times> market_db" where
  "reconcile_aggregates_once env sample_size db =
     foldl (reconcile_step env) (\<lparr>rc_matched = 0, rc_repaired = 0, rc_failed = 0\<rparr>, db)
       (list_reconciliation_samples sample_size db)"

section \<open>The intervals and what is recorded of them\<close>

type_synonym interval_key = "string \<times> timeframe \<times> instant"

definition is_interval :: "interval_key \<Rightarrow> bool" where
  "is_interval k \<longleftrightarrow> (case k of (symb, tf, t) \<Rightarrow> 0 \<le> t \<and> interval_start t tf = t)"

definition source_of :: "interval_key \<Rightarrow> market_db \<Rightarrow> candle_1m list" where
  "source_of k db = (case k of (symb, tf, t) \<Rightarrow> source_candles symb tf t db)"

definition expected :: "interval_key \<Rightarrow> market_db \<Rightarrow> aggregated_candle option" where
  "expected k db = aggregate_candles (source_of k db) (fst (snd k)) (Some (snd (snd k)))"

definition recorded :: "interval_key \<Rightarrow> market_db \<Rightarrow> aggregated_candle option" where
  "recorded k db = map_option ar_candle (List.find (\<lambda>r. aggregate_key r = k) (md_aggregates db))"

definition key_of_job :: "aggregation_job \<Rightarrow> interval_key" where
  "key_of_job j = (aj_symbol j, aj_timeframe j, aj_open_time j)"

lemma source_of_cong: "md_candles db' = md_candles db \<Longrightarrow> source_of k db' = source_of k db"
  by (simp add: source_of_def source_candles_def split: prod.splits)

lemma expected_cong: "md_candles db' = md_candles db \<Longrightarrow> expected k db' = expected k db"
  by (simp add: expected_def source_of_cong [of db' db])

lemma load_source_alt: "load_source_candles j db = source_of (key_of_job j) db"
  by (simp add: load_source_candles_def source_of_def key_of_job_def)

lemma expected_key:
  assumes "expected k db = Some a" "is_interval k"
  shows "(ag_symbol a, ag_timeframe a, ag_open_time a) = k"
proof -
  obtain symb tf t where k: "k = (symb, tf, t)" by (cases k)
  have a: "aggregate_candles (source_candles symb tf t db) tf (Some t) = Some a"
    using assms(1) by (simp add: expected_def source_of_def k)
  note f = aggregate_fields [OF a]
  have "source_candles symb tf t db \<noteq> []" using sorted_minutes_nonempty [OF f(3)] .
  then obtain c where "c \<in> set (source_candles symb tf t db)" by fastforce
  then have "ag_symbol a = symb" using f(4) [of c] by (auto simp: source_candles_def)
  moreover have "ag_open_time a = t"
    using a assms(2) by (auto simp: aggregate_candles_Some_iff aggregate_of_def is_interval_def k)
  ultimately show ?thesis using f(1) by (simp add: k)
qed

text \<open>A minute changes the source of its own interval only.\<close>

lemma in_interval:
  assumes "is_interval (symb, tf, t)" "t \<le> u" "u < interval_end t tf"
  shows "interval_start u tf = t"
  using assms interval_start_unique [of t tf u] by (simp add: is_interval_def interval_end_def)

lemma upsert_filter:
  assumes "\<And>x. key x = key r \<Longrightarrow> \<not> P x" "\<And>x. key (f x) = key r"
  shows "filter P (upsert key f r rows) = filter P rows"
proof -
  have "\<not> P (f x)" for x using assms by blast
  then have "filter P (map (\<lambda>x. if key x = key r then f x else x) rows) = filter P rows"
    using assms(1) by (induction rows) auto
  then show ?thesis using assms(1) by (auto simp: upsert_def)
qed

lemma source_candles_upsert:
  assumes "upsert_candles now cs source db = Inr db'" "is_interval k"
    and "\<And>c. c \<in> set cs \<Longrightarrow> (m1_symbol c, fst (snd k), interval_start (m1_open_time c) (fst (snd k))) \<noteq> k"
  shows "source_of k db' = source_of k db"
proof -
  obtain symb tf t where k: "k = (symb, tf, t)" by (cases k)
  define P where "P = (\<lambda>c :: candle_1m. m1_symbol c = symb \<and> t \<le> m1_open_time c \<and> m1_open_time c < interval_end t tf)"
  have out: "\<not> P c" if "c \<in> set cs" for c
    using assms(3) [OF that] in_interval [of symb tf t "m1_open_time c"] assms(2) by (auto simp: P_def k)
  have "filter (\<lambda>r. P (cr_candle r)) (foldl (put_candle now source) rows cs) = filter (\<lambda>r. P (cr_candle r)) rows" for rows
    using out
  proof (induction cs arbitrary: rows)
    case (Cons c cs)
    have "filter (\<lambda>r. P (cr_candle r)) (put_candle now source rows c) = filter (\<lambda>r. P (cr_candle r)) rows"
      unfolding put_candle_def
      by (rule upsert_filter) (use Cons.prems [of c] in \<open>auto simp: candle_key_def P_def\<close>)
    with Cons show ?case by simp
  qed simp
  moreover have "db' = db\<lparr>md_candles := foldl (put_candle now source) (md_candles db) cs\<rparr>"
    using assms(1) by (auto simp: upsert_candles_def)
  ultimately have "filter P (map cr_candle (md_candles db')) = filter P (map cr_candle (md_candles db))"
    by (simp add: filter_map comp_def)
  then show ?thesis by (simp add: source_of_def source_candles_def k P_def)
qed

section \<open>Changes of the tables by others\<close>

definition pending_for :: "interval_key \<Rightarrow> market_db \<Rightarrow> bool" where
  "pending_for k db \<longleftrightarrow> (\<exists>r \<in> set (md_jobs db). job_key r = k \<and> jb_state r = Job_Pending)"

text \<open>A transaction at \<open>now\<close> that leaves the aggregates alone, touches a job only to make it pending again, and
  makes a job pending for every interval whose aggregate should change.\<close>

definition requeues :: "instant \<Rightarrow> market_db \<Rightarrow> market_db \<Rightarrow> bool" where
  "requeues now db db' \<longleftrightarrow> md_aggregates db' = md_aggregates db \<and>
     (\<forall>r \<in> set (md_jobs db). \<exists>r' \<in> set (md_jobs db'). jb_id r' = jb_id r \<and> job_key r' = job_key r \<and>
        (r' = r \<or> jb_state r' = Job_Pending)) \<and>
     (\<forall>r' \<in> set (md_jobs db'). is_interval (job_key r') \<and> jb_updated_at r' \<le> now \<or> r' \<in> set (md_jobs db)) \<and>
     (\<forall>k. is_interval k \<longrightarrow> expected k db' \<noteq> expected k db \<longrightarrow> pending_for k db') \<and>
     (market_ok db \<longrightarrow> market_ok db')"

lemma requeues_refl [simp]: "requeues now db db"
  by (auto simp: requeues_def)

lemma requeues_same:
  assumes "md_aggregates db' = md_aggregates db" "md_jobs db' = md_jobs db" "md_candles db' = md_candles db"
    and "market_ok db \<Longrightarrow> market_ok db'"
  shows "requeues now db db'"
  using assms expected_cong [OF assms(3)] by (auto simp: requeues_def)

definition jobs_kept :: "instant \<Rightarrow> market_db \<Rightarrow> market_db \<Rightarrow> bool" where
  "jobs_kept now db db' \<longleftrightarrow>
     (\<forall>r \<in> set (md_jobs db). \<exists>r' \<in> set (md_jobs db'). jb_id r' = jb_id r \<and> job_key r' = job_key r \<and>
        (r' = r \<or> jb_state r' = Job_Pending)) \<and>
     (\<forall>r' \<in> set (md_jobs db'). is_interval (job_key r') \<and> jb_updated_at r' \<le> now \<or> r' \<in> set (md_jobs db))"

lemma jobs_kept_trans: "jobs_kept now a b \<Longrightarrow> jobs_kept now b c \<Longrightarrow> jobs_kept now a c"
  unfolding jobs_kept_def by (metis (no_types, opaque_lifting))

lemma enqueue_job_kept:
  assumes "is_interval k" shows "jobs_kept now db (enqueue_job now p db k)"
proof -
  obtain symb tf t where k: "k = (symb, tf, t)" by (cases k)
  define f where "f = (\<lambda>r :: job_row. r\<lparr>jb_priority := min (jb_priority r) p, jb_state := Job_Pending, jb_last_error := None,
      jb_available_at := now, jb_updated_at := now\<rparr>)"
  define new where "new = \<lparr>jb_id = md_next_job db, jb_symbol = symb, jb_timeframe = tf, jb_open_time = t,
      jb_priority = p, jb_state = Job_Pending, jb_attempts = 0, jb_last_error = None,
      jb_available_at = now, jb_updated_at = now\<rparr>"
  have j: "md_jobs (enqueue_job now p db k) = upsert job_key f new (md_jobs db)"
    by (simp add: enqueue_job_def k f_def new_def)
  have f: "jb_id (f r) = jb_id r" "job_key (f r) = job_key r" "jb_state (f r) = Job_Pending" "jb_updated_at (f r) = now" for r
    by (simp_all add: f_def job_key_def)
  have new: "job_key new = k" "jb_updated_at new = now" by (simp_all add: new_def job_key_def k)
  show ?thesis
  proof (cases "job_key new \<in> job_key ` set (md_jobs db)")
    case True
    define g where "g = (\<lambda>x. if job_key x = job_key new then f x else x)"
    have g: "jb_id (g r) = jb_id r" "job_key (g r) = job_key r" "g r = r \<or> jb_state (g r) = Job_Pending"
      "g r = r \<or> job_key (g r) = k \<and> jb_updated_at (g r) = now" for r
      using f new by (simp_all add: g_def)
    have "set (md_jobs (enqueue_job now p db k)) = g ` set (md_jobs db)"
      using True by (simp add: j upsert_def g_def)
    then show ?thesis unfolding jobs_kept_def using g assms by (metis (no_types, lifting) imageE imageI order_refl)
  next
    case False
    then have "set (md_jobs (enqueue_job now p db k)) = insert new (set (md_jobs db))"
      by (simp add: j upsert_def)
    then show ?thesis unfolding jobs_kept_def using new assms by auto
  qed
qed

lemma enqueue_kept:
  assumes "\<And>c. c \<in> set cs \<Longrightarrow> 0 \<le> m1_open_time c"
  shows "jobs_kept now db (enqueue_aggregation_jobs now cs p b db)"
proof -
  have "is_interval k" if "k \<in> set (aggregation_jobs cs b)" for k
    using that assms interval_start_nonneg by (auto simp: aggregation_jobs_set is_interval_def)
  moreover have "jobs_kept now db (foldl (enqueue_job now p) db ks)" if "\<forall>k \<in> set ks. is_interval k" for ks db
    using that
  proof (induction ks arbitrary: db)
    case (Cons k ks)
    then show ?case by (auto intro: jobs_kept_trans [OF enqueue_job_kept])
  qed (auto simp: jobs_kept_def)
  ultimately show ?thesis by (simp add: enqueue_aggregation_jobs_def)
qed

lemma freshly_queued_pending: "freshly_queued now k db \<Longrightarrow> pending_for k db"
  by (auto simp: freshly_queued_def pending_for_def find_job_def split: option.splits dest: find_Some_mem)

lemma enqueue_aggregates [simp]: "md_aggregates (enqueue_aggregation_jobs now cs p b db) = md_aggregates db"
proof -
  have "md_aggregates (foldl (enqueue_job now p) db ks) = md_aggregates db" for ks
    by (induction ks arbitrary: db) (simp_all add: enqueue_job_def split: prod.splits)
  then show ?thesis by (simp add: enqueue_aggregation_jobs_def)
qed

text \<open>Storing minutes and queueing their intervals.\<close>

lemma store_requeues:
  assumes "upsert_candles now cs source db = Inr db1" "\<And>c. c \<in> set cs \<Longrightarrow> 0 \<le> m1_open_time c"
    and "\<And>k. is_interval k \<Longrightarrow> expected k db1 \<noteq> expected k db \<Longrightarrow> k \<in> set (aggregation_jobs cs b)"
  shows "requeues now db (enqueue_aggregation_jobs now cs p b db1)"
proof -
  have "jobs_kept now db1 (enqueue_aggregation_jobs now cs p b db1)" using assms(2) by (rule enqueue_kept)
  moreover have "md_jobs db1 = md_jobs db" "md_aggregates db1 = md_aggregates db"
    using upsert_candles_ok(3,11) [OF assms(1)] by simp_all
  moreover have "expected k (enqueue_aggregation_jobs now cs p b db1) = expected k db1" for k
    by (rule expected_cong) simp
  ultimately show ?thesis
    using assms(1,3) freshly_queued_pending [OF freshly_queued_all]
    by (auto simp: requeues_def jobs_kept_def market_ok_intros)
qed

lemma all_intervals_queued:
  assumes "upsert_candles now cs source db = Inr db1" "is_interval k" "expected k db1 \<noteq> expected k db"
  shows "k \<in> set (aggregation_jobs cs False)"
proof -
  have "source_of k db1 \<noteq> source_of k db" using assms(3) by (auto simp: expected_def)
  then obtain c where "c \<in> set cs" "(m1_symbol c, fst (snd k), interval_start (m1_open_time c) (fst (snd k))) = k"
    using source_candles_upsert [OF assms(1,2)] by blast
  then show ?thesis unfolding aggregation_jobs_set by (metis)
qed

lemma upsert_checkpoint_aggregates [simp]:
  "md_aggregates (upsert_checkpoint now symb stream state t err preserve db) = md_aggregates db"
  by (simp add: upsert_checkpoint_def)

lemma upsert_checkpoint_requeues:
  assumes "requeues now db db1"
  shows "requeues now db (upsert_checkpoint now' symb stream state t err preserve db1)"
proof -
  have "expected k (upsert_checkpoint now' symb stream state t err preserve db1) = expected k db1" for k
    by (rule expected_cong) simp
  with assms show ?thesis by (simp add: requeues_def pending_for_def market_ok_upsert_checkpoint)
qed

lemma save_batch_requeues:
  assumes "save_batch now symb stream cs db = Inr db'" "\<And>c. c \<in> set cs \<Longrightarrow> 0 \<le> m1_open_time c"
  shows "requeues now db db'"
proof (cases "cs = []")
  case False
  then obtain db1 where u: "upsert_candles now cs ''rest'' db = Inr db1" and
      e: "db' = upsert_checkpoint now symb stream ''recovering'' (Some (m1_open_time (last cs))) None False
        (enqueue_aggregation_jobs now cs 100 False db1)"
    using assms(1) by (auto simp: save_batch_def)
  show ?thesis unfolding e
    by (intro upsert_checkpoint_requeues store_requeues [OF u assms(2)] all_intervals_queued [OF u])
qed (use assms(1) in simp)

lemma repair_requeues:
  assumes "repair_candles now cs db = Inr db'" "\<And>c. c \<in> set cs \<Longrightarrow> 0 \<le> m1_open_time c"
  shows "requeues now db db'"
proof (cases "cs = []")
  case False
  then obtain db1 where u: "upsert_candles now cs ''rest'' db = Inr db1" "db' = enqueue_aggregation_jobs now cs 10 False db1"
    using assms(1) by (auto simp: repair_candles_def)
  show ?thesis unfolding u(2)
    by (intro store_requeues [OF u(1) assms(2)] all_intervals_queued [OF u(1)])
qed (use assms(1) in \<open>simp add: repair_candles_def\<close>)

text \<open>A candle of the stream is in order when it repeats a stored one or is, on a full minute, the latest of its
  symbol.\<close>

definition in_order :: "candle_1m \<Rightarrow> market_db \<Rightarrow> bool" where
  "in_order c db \<longleftrightarrow> c \<in> cr_candle ` set (md_candles db) \<or>
     one_minute dvd m1_open_time c \<and>
     (\<forall>r \<in> set (md_candles db). m1_symbol (cr_candle r) = m1_symbol c \<longrightarrow> m1_open_time (cr_candle r) \<le> m1_open_time c)"

lemma repeated_candle:
  assumes "upsert_candles now [c] source db = Inr db1" "c \<in> cr_candle ` set (md_candles db)"
    and "distinct (map candle_key (md_candles db))"
  shows "map cr_candle (md_candles db1) = map cr_candle (md_candles db)"
proof -
  define new where "new = \<lparr>cr_candle = c, cr_source = source, cr_updated_at = now\<rparr>"
  have db1: "md_candles db1 = upsert candle_key (\<lambda>_. new) new (md_candles db)"
    using assms(1) by (auto simp: upsert_candles_def put_candle_def new_def)
  obtain r0 where r0: "r0 \<in> set (md_candles db)" "cr_candle r0 = c" using assms(2) by auto
  have key: "candle_key new = candle_key r0" by (simp add: new_def candle_key_def r0)
  have same: "cr_candle r = c" if "r \<in> set (md_candles db)" "candle_key r = candle_key new" for r
    using that r0 key assms(3) by (auto simp: distinct_map dest: inj_onD)
  have "candle_key new \<in> candle_key ` set (md_candles db)" using key r0 by auto
  then have "map cr_candle (md_candles db1) =
      map (\<lambda>x. cr_candle (if candle_key x = candle_key new then new else x)) (md_candles db)"
    by (simp add: db1 upsert_def)
  also have "\<dots> = map cr_candle (md_candles db)"
    using same by (intro map_cong) (auto simp: new_def)
  finally show ?thesis .
qed

lemma source_times: "m1_open_time ` set (source_candles symb tf t db) \<subseteq> {u. stored db symb u \<and> t \<le> u \<and> u < interval_end t tf}"
  by (auto simp: source_candles_def stored_def candle_key_def)

lemma last_minute_missing:
  assumes "is_interval (symb, tf, t)" "\<not> stored db symb (interval_end t tf - one_minute)"
  shows "expected (symb, tf, t) db = None"
proof (rule ccontr)
  assume "expected (symb, tf, t) db \<noteq> None"
  then obtain a where a: "aggregate_candles (source_candles symb tf t db) tf (Some t) = Some a"
    by (auto simp: expected_def source_of_def)
  note f = aggregate_fields [OF a]
  have "ag_open_time a = t" using expected_key [of "(symb, tf, t)" db a] a assms(1) by (simp add: expected_def source_of_def)
  then obtain c where "c \<in> set (source_candles symb tf t db)" "m1_open_time c + one_minute = interval_end t tf"
    using complete_bounds(2) [OF f(3)] assms(1) by (auto simp: is_interval_def interval_end_def)
  then have "interval_end t tf - one_minute \<in> m1_open_time ` set (source_candles symb tf t db)" by force
  then show False using source_times [of symb tf t db] assms(2) by blast
qed

lemma interval_end_dvd: "is_interval (symb, tf, t) \<Longrightarrow> one_minute dvd interval_end t tf"
proof -
  assume k: "is_interval (symb, tf, t)"
  have "t = interval_start t tf" using k by (simp add: is_interval_def)
  also have "one_minute dvd interval_start t tf"
    by (simp add: interval_start_def Let_def seconds_def minutes_def)
  finally have "one_minute dvd t" .
  then show "one_minute dvd interval_end t tf" using k by (simp add: interval_end_def is_interval_def)
qed

lemma ingest_queues:
  assumes "upsert_candles now [c] source db = Inr db1" "in_order c db" "market_ok db" "is_interval k"
    and "expected k db1 \<noteq> expected k db"
  shows "k \<in> set (aggregation_jobs [c] True)"
proof -
  obtain symb tf t where k: "k = (symb, tf, t)" by (cases k)
  from all_intervals_queued [OF assms(1,4,5)]
  have c: "m1_symbol c = symb" "interval_start (m1_open_time c) tf = t" by (auto simp: aggregation_jobs_set k)
  have "c \<notin> cr_candle ` set (md_candles db)"
  proof
    assume "c \<in> cr_candle ` set (md_candles db)"
    then have "map cr_candle (md_candles db1) = map cr_candle (md_candles db)"
      using repeated_candle [OF assms(1)] assms(3) by (simp add: market_ok_def)
    then show False using assms(5) by (simp add: expected_def source_of_def source_candles_def k)
  qed
  then have o: "one_minute dvd m1_open_time c"
      "\<forall>r \<in> set (md_candles db). m1_symbol (cr_candle r) = symb \<longrightarrow> m1_open_time (cr_candle r) \<le> m1_open_time c"
    using assms(2) c(1) by (auto simp: in_order_def)
  have latest: "\<not> stored d symb u" if "m1_open_time c < u" "d \<in> {db, db1}" for d u
    using that o(2) upsert_candles_ok(1) [OF assms(1), of symb u] c(1)
    by (auto simp: stored_def candle_key_def)
  have "completes_interval c tf"
  proof (rule ccontr)
    assume n: "\<not> completes_interval c tf"
    have "m1_open_time c < interval_end t tf"
      using interval_start_after [of "m1_open_time c" tf] c(2) assms(4) by (simp add: k is_interval_def interval_end_def)
    moreover have "m1_open_time c + one_minute \<noteq> interval_end t tf" using n c(2) by (simp add: completes_interval_def)
    moreover obtain a b where "m1_open_time c = one_minute * a" "interval_end t tf = one_minute * b"
      using o(1) interval_end_dvd [of symb tf t] assms(4) by (auto simp: k dvd_def)
    ultimately have "m1_open_time c < interval_end t tf - one_minute" by (simp add: minutes_def)
    then have "expected k db = None" "expected k db1 = None"
      using latest last_minute_missing assms(4) unfolding k by blast+
    with assms(5) show False by simp
  qed
  then show ?thesis using c by (auto simp: aggregation_jobs_set k)
qed

lemma ingest_requeues:
  assumes "ingest_live_candle now stream c db = Inr (result, db')" "in_order c db" "market_ok db" "0 \<le> m1_open_time c"
  shows "requeues now db db'"
proof -
  obtain db1 where u: "upsert_candles now [c] ''websocket'' db = Inr db1"
    using assms(1) by (auto simp: ingest_live_candle_def Let_def)
  have q: "requeues now db (enqueue_aggregation_jobs now [c] 0 True db1)"
    by (rule store_requeues [OF u]) (use assms(4) ingest_queues [OF u assms(2,3)] in auto)
  have "db' = enqueue_aggregation_jobs now [c] 0 True db1 \<or> (\<exists>state t err b. db' =
      upsert_checkpoint now (m1_symbol c) stream state t err b (enqueue_aggregation_jobs now [c] 0 True db1))"
    using assms(1) u by (auto simp: ingest_live_candle_def Let_def split: option.splits if_splits)
  then show ?thesis using q upsert_checkpoint_requeues by blast
qed

lemma seed_requeues:
  assumes "\<And>r. r \<in> set (md_candles db) \<Longrightarrow> 0 \<le> m1_open_time (cr_candle r)"
  shows "requeues now db (snd (seed_next_batch now limit db))"
proof -
  have "requeues now db (snd (seed_symbols now limit symbols db))" for symbols
  proof (induction symbols)
    case (Cons symb symbols)
    define times where "times = unscanned_times limit symb db"
    define db1 where "db1 = enqueue_aggregation_jobs now (map (placeholder_candle symb) times) 100 False db"
    have "0 \<le> t" if "t \<in> set times" for t
      using that assms by (auto simp: times_def unscanned_times_def dest!: in_set_takeD)
    then have "jobs_kept now db db1"
      unfolding db1_def by (intro enqueue_kept) (auto simp: placeholder_candle_def)
    moreover have "expected k (db1\<lparr>md_cursors := x\<rparr>) = expected k db" for k x
      by (rule expected_cong) (simp add: db1_def)
    moreover have "market_ok db \<Longrightarrow> market_ok (db1\<lparr>md_cursors := x\<rparr>)" for x
      using market_ok_enqueue [of db] by (simp add: db1_def market_ok_def)
    ultimately have "requeues now db (db1\<lparr>md_cursors := x\<rparr>)" for x
      by (simp add: requeues_def jobs_kept_def) (simp add: db1_def)
    with Cons show ?case by (simp add: Let_def flip: times_def db1_def)
  qed simp
  then show ?thesis by (simp add: seed_next_batch_def)
qed

section \<open>The runs of the worker\<close>

record worker =
  wk_db :: market_db
  wk_claims :: "aggregation_job list"
  wk_loaded :: "aggregated_candle option option"
  wk_clock :: instant

text \<open>One worker claims a batch and takes its jobs one by one, while the ingestion stores minutes. The clock
  moves between transactions. A restart forgets the claims.\<close>

inductive worker_reachable :: "worker \<Rightarrow> worker \<Rightarrow> bool" for w0 where
  Start: "worker_reachable w0 w0"
| Saved: "worker_reachable w0 w \<Longrightarrow> wk_clock w < now \<Longrightarrow> (\<And>c. c \<in> set cs \<Longrightarrow> 0 \<le> m1_open_time c) \<Longrightarrow>
    save_batch now symb stream cs (wk_db w) = Inr db \<Longrightarrow> worker_reachable w0 (w\<lparr>wk_db := db, wk_clock := now\<rparr>)"
| Mended: "worker_reachable w0 w \<Longrightarrow> wk_clock w < now \<Longrightarrow> (\<And>c. c \<in> set cs \<Longrightarrow> 0 \<le> m1_open_time c) \<Longrightarrow>
    repair_candles now cs (wk_db w) = Inr db \<Longrightarrow> worker_reachable w0 (w\<lparr>wk_db := db, wk_clock := now\<rparr>)"
| Streamed: "worker_reachable w0 w \<Longrightarrow> wk_clock w < now \<Longrightarrow> 0 \<le> m1_open_time c \<Longrightarrow> in_order c (wk_db w) \<Longrightarrow>
    ingest_live_candle now stream c (wk_db w) = Inr (result, db) \<Longrightarrow> worker_reachable w0 (w\<lparr>wk_db := db, wk_clock := now\<rparr>)"
| Seeded: "worker_reachable w0 w \<Longrightarrow> wk_clock w < now \<Longrightarrow>
    worker_reachable w0 (w\<lparr>wk_db := snd (seed_next_batch now limit (wk_db w)), wk_clock := now\<rparr>)"
| Claimed: "worker_reachable w0 w \<Longrightarrow> wk_clock w < now \<Longrightarrow> wk_claims w = [] \<Longrightarrow>
    claim_jobs now limit (wk_db w) = (jobs, db) \<Longrightarrow>
    worker_reachable w0 (w\<lparr>wk_db := db, wk_claims := jobs, wk_loaded := None, wk_clock := now\<rparr>)"
| Loaded: "worker_reachable w0 w \<Longrightarrow> wk_claims w = j # js \<Longrightarrow>
    worker_reachable w0 (w\<lparr>wk_loaded := Some (aggregate_candles (load_source_candles j (wk_db w)) (aj_timeframe j)
      (Some (aj_open_time j)))\<rparr>)"
| Finished: "worker_reachable w0 w \<Longrightarrow> wk_clock w < now \<Longrightarrow> wk_claims w = j # js \<Longrightarrow> wk_loaded w = Some candle \<Longrightarrow>
    worker_reachable w0 (w\<lparr>wk_db := finish_job now j candle (wk_db w), wk_claims := js, wk_loaded := None, wk_clock := now\<rparr>)"
| Failed: "worker_reachable w0 w \<Longrightarrow> wk_clock w < now \<Longrightarrow> wk_claims w = j # js \<Longrightarrow>
    worker_reachable w0 (w\<lparr>wk_db := fail_job now j err (seconds (retry_delay_seconds (aj_attempts j))) (wk_db w),
      wk_claims := js, wk_loaded := None, wk_clock := now\<rparr>)"
| Restarted: "worker_reachable w0 w \<Longrightarrow> wk_clock w < now \<Longrightarrow>
    worker_reachable w0 (w\<lparr>wk_db := snd (recover_stale_jobs now stale (wk_db w)), wk_claims := [], wk_loaded := None,
      wk_clock := now\<rparr>)"

text \<open>Every interval is up to date or queued; the row of a claimed job is there, still stamped with the claim
  or pending again; and what is loaded for a job that still has its stamp is the aggregate of the minutes.\<close>

definition tables_current :: "market_db \<Rightarrow> bool" where
  "tables_current db \<longleftrightarrow> market_ok db \<and> (\<forall>r \<in> set (md_candles db). 0 \<le> m1_open_time (cr_candle r)) \<and>
     (\<forall>r \<in> set (md_jobs db). is_interval (job_key r)) \<and>
     (\<forall>k. is_interval k \<longrightarrow> recorded k db = expected k db \<or> k \<in> job_key ` set (md_jobs db))"

definition claim_held :: "market_db \<Rightarrow> aggregation_job \<Rightarrow> bool" where
  "claim_held db j \<longleftrightarrow> (\<exists>r \<in> set (md_jobs db). jb_id r = aj_id j \<and> job_key r = key_of_job j \<and>
     (claimed_row j r \<or> jb_state r = Job_Pending))"

definition loaded_current :: "market_db \<Rightarrow> aggregation_job \<Rightarrow> aggregated_candle option \<Rightarrow> bool" where
  "loaded_current db j candle \<longleftrightarrow>
     (\<forall>a. candle = Some a \<longrightarrow> (ag_symbol a, ag_timeframe a, ag_open_time a) = key_of_job j) \<and>
     ((\<exists>r \<in> set (md_jobs db). claimed_row j r) \<longrightarrow> candle = expected (key_of_job j) db)"

definition worker_ok :: "worker \<Rightarrow> bool" where
  "worker_ok w \<longleftrightarrow> tables_current (wk_db w) \<and> (\<forall>r \<in> set (md_jobs (wk_db w)). jb_updated_at r \<le> wk_clock w) \<and>
     distinct (map aj_id (wk_claims w)) \<and>
     (\<forall>j \<in> set (wk_claims w). claim_held (wk_db w) j \<and> is_interval (key_of_job j) \<and> aj_claimed_at j \<le> wk_clock w) \<and>
     (\<forall>j js candle. wk_claims w = j # js \<longrightarrow> wk_loaded w = Some candle \<longrightarrow> loaded_current (wk_db w) j candle)"

lemma same_key_same_row:
  "market_ok db \<Longrightarrow> r \<in> set (md_jobs db) \<Longrightarrow> r' \<in> set (md_jobs db) \<Longrightarrow> job_key r = job_key r' \<Longrightarrow> r = r'"
  by (auto simp: market_ok_def distinct_map dest: inj_onD)

lemma same_id_same_row:
  "market_ok db \<Longrightarrow> r \<in> set (md_jobs db) \<Longrightarrow> r' \<in> set (md_jobs db) \<Longrightarrow> jb_id r = jb_id r' \<Longrightarrow> r = r'"
  by (auto simp: market_ok_def distinct_map dest: inj_onD)

lemma distinct_head: "distinct (map f (x # xs)) \<Longrightarrow> y \<in> set xs \<Longrightarrow> f y \<noteq> f x"
  by (metis distinct.simps(2) imageI list.set_map list.simps(9))

lemma requeues_keeps:
  assumes "worker_ok w" "requeues now (wk_db w) db" "wk_clock w < now"
    and "\<forall>r \<in> set (md_candles db). 0 \<le> m1_open_time (cr_candle r)"
  shows "worker_ok (w\<lparr>wk_db := db, wk_clock := now\<rparr>)"
proof -
  let ?db = "wk_db w"
  have ok: "tables_current ?db" "\<forall>r \<in> set (md_jobs ?db). jb_updated_at r \<le> wk_clock w" "distinct (map aj_id (wk_claims w))"
    and claims: "\<And>j. j \<in> set (wk_claims w) \<Longrightarrow> claim_held ?db j \<and> is_interval (key_of_job j) \<and> aj_claimed_at j \<le> wk_clock w"
    and loaded: "\<And>j js candle. wk_claims w = j # js \<Longrightarrow> wk_loaded w = Some candle \<Longrightarrow> loaded_current ?db j candle"
    using assms(1) by (auto simp: worker_ok_def)
  have q: "md_aggregates db = md_aggregates ?db"
      "\<And>r. r \<in> set (md_jobs ?db) \<Longrightarrow> \<exists>r' \<in> set (md_jobs db). jb_id r' = jb_id r \<and> job_key r' = job_key r \<and>
        (r' = r \<or> jb_state r' = Job_Pending)"
      "\<And>r. r \<in> set (md_jobs db) \<Longrightarrow> is_interval (job_key r) \<and> jb_updated_at r \<le> now \<or> r \<in> set (md_jobs ?db)"
      "\<And>k. is_interval k \<Longrightarrow> expected k db \<noteq> expected k ?db \<Longrightarrow> pending_for k db"
    using assms(2) by (auto simp: requeues_def)
  have mok: "market_ok ?db" "market_ok db" using ok(1) assms(2) by (auto simp: tables_current_def requeues_def)
  have tc: "tables_current db"
    unfolding tables_current_def
  proof (intro conjI allI impI ballI)
    show "market_ok db" by (rule mok)
    show "0 \<le> m1_open_time (cr_candle r)" if "r \<in> set (md_candles db)" for r using that assms(4) by blast
    show "is_interval (job_key r)" if "r \<in> set (md_jobs db)" for r
      using that q(3) ok(1) by (auto simp: tables_current_def)
    fix k assume k: "is_interval k"
    have "recorded k ?db = expected k ?db \<or> k \<in> job_key ` set (md_jobs ?db)"
      using ok(1) k unfolding tables_current_def by blast
    then consider "recorded k ?db = expected k ?db" | r where "r \<in> set (md_jobs ?db)" "job_key r = k"
      by (metis imageE)
    then show "recorded k db = expected k db \<or> k \<in> job_key ` set (md_jobs db)"
    proof cases
      case 1
      then show ?thesis using q(1) q(4) [OF k] by (cases "expected k db = expected k ?db") (auto simp: recorded_def pending_for_def)
    next
      case 2
      then show ?thesis using q(2) [of r] by (metis imageI)
    qed
  qed
  have held: "claim_held db j" if "j \<in> set (wk_claims w)" for j
    using claims [OF that] q(2) unfolding claim_held_def claimed_row_def by (metis (no_types, lifting))
  have cur: "loaded_current db j candle" if j: "wk_claims w = j # js" "wk_loaded w = Some candle" for j js candle
  proof -
    note l = loaded [OF j]
    have int: "is_interval (key_of_job j)" using claims [of j] j by simp
    have "candle = expected (key_of_job j) db" if r': "r' \<in> set (md_jobs db)" "claimed_row j r'" for r'
    proof -
      obtain r where r: "r \<in> set (md_jobs ?db)" "jb_id r = aj_id j" "job_key r = key_of_job j"
        using claims [of j] j by (auto simp: claim_held_def)
      obtain r2 where r2: "r2 \<in> set (md_jobs db)" "jb_id r2 = jb_id r" "job_key r2 = job_key r" "r2 = r \<or> jb_state r2 = Job_Pending"
        using q(2) [OF r(1)] by blast
      have "r2 = r'" using same_id_same_row [OF mok(2) r2(1) r'(1)] r2(2) r(2) r'(2) by (simp add: claimed_row_def)
      with r2(4) r'(2) have "r' = r" by (auto simp: claimed_row_def)
      then have "candle = expected (key_of_job j) ?db" using l r(1) r'(2) by (auto simp: loaded_current_def)
      moreover have "\<not> pending_for (key_of_job j) db"
      proof
        assume "pending_for (key_of_job j) db"
        then obtain p where "p \<in> set (md_jobs db)" "job_key p = key_of_job j" "jb_state p = Job_Pending"
          by (auto simp: pending_for_def)
        with same_key_same_row [OF mok(2) _ r'(1)] \<open>r' = r\<close> r(3) r'(2) show False by (auto simp: claimed_row_def)
      qed
      ultimately show ?thesis using q(4) [OF int] by metis
    qed
    then show ?thesis using l by (auto simp: loaded_current_def)
  qed
  show ?thesis
    using tc ok claims held cur assms(3) q(3) by (fastforce simp: worker_ok_def)
qed

section \<open>Every step keeps the invariant\<close>

definition times_ok :: "market_db \<Rightarrow> bool" where
  "times_ok db \<longleftrightarrow> (\<forall>r \<in> set (md_candles db). 0 \<le> m1_open_time (cr_candle r))"

lemma times_ok_cong: "md_candles db' = md_candles db \<Longrightarrow> times_ok db' = times_ok db"
  by (simp add: times_ok_def)

lemma times_ok_frames [simp]:
  "times_ok (enqueue_aggregation_jobs now cs p b db) = times_ok db"
  "times_ok (upsert_checkpoint now symb stream state t err preserve db) = times_ok db"
  by (rule times_ok_cong, simp)+

lemma times_ok_stored: "times_ok db \<longleftrightarrow> (\<forall>symb t. stored db symb t \<longrightarrow> 0 \<le> t)"
  by (auto simp: times_ok_def stored_def candle_key_def)

lemma upsert_times:
  assumes "upsert_candles now cs source db = Inr db'" "times_ok db" "\<And>c. c \<in> set cs \<Longrightarrow> 0 \<le> m1_open_time c"
  shows "times_ok db'"
  using assms(2,3) upsert_candles_ok(1) [OF assms(1)] unfolding times_ok_stored by blast

lemma save_batch_times:
  assumes "save_batch now symb stream cs db = Inr db'" "times_ok db" "\<And>c. c \<in> set cs \<Longrightarrow> 0 \<le> m1_open_time c"
  shows "times_ok db'"
  using assms upsert_times [of now cs "''rest''" db] by (auto simp: save_batch_def split: if_splits)

lemma repair_times:
  assumes "repair_candles now cs db = Inr db'" "times_ok db" "\<And>c. c \<in> set cs \<Longrightarrow> 0 \<le> m1_open_time c"
  shows "times_ok db'"
  using assms upsert_times [of now cs "''rest''" db] by (auto simp: repair_candles_def split: if_splits)

lemma ingest_times:
  assumes "ingest_live_candle now stream c db = Inr (result, db')" "times_ok db" "0 \<le> m1_open_time c"
  shows "times_ok db'"
  using assms upsert_times [of now "[c]" "''websocket''" db]
  by (auto simp: ingest_live_candle_def Let_def split: option.splits if_splits)

lemma seed_times: "times_ok (snd (seed_next_batch now limit db)) = times_ok db"
proof -
  have "times_ok (snd (seed_symbols now limit symbols db)) = times_ok db" for symbols
  proof (induction symbols)
    case (Cons symb symbols)
    then show ?case by (simp add: Let_def) (simp add: times_ok_def)
  qed simp
  then show ?thesis by (simp add: seed_next_batch_def)
qed

text \<open>Rewriting the rows of the queue without touching what they are about.\<close>

lemma rows_rewritten:
  assumes "tables_current db" "\<And>r. jb_id (f r) = jb_id r" "\<And>r. job_key (f r) = job_key r"
  shows "tables_current (db\<lparr>md_jobs := map f (md_jobs db)\<rparr>)"
proof -
  have "map jb_id (map f rs) = map jb_id rs" "map job_key (map f rs) = map job_key rs"
    "job_key ` f ` S = job_key ` S" for rs S
    using assms(2,3) by (simp_all add: image_image)
  moreover have "expected k (db\<lparr>md_jobs := js\<rparr>) = expected k db" "recorded k (db\<lparr>md_jobs := js\<rparr>) = recorded k db" for k js
    by (rule expected_cong) (simp_all add: recorded_def)
  moreover have "(\<forall>r \<in> f ` S. is_interval (job_key r)) = (\<forall>r \<in> S. is_interval (job_key r))"
    "(\<forall>r \<in> f ` S. jb_id r < n) = (\<forall>r \<in> S. jb_id r < n)" for S n
    using assms(2,3) by simp_all
  ultimately show ?thesis
    using assms(1) by (simp add: tables_current_def market_ok_def del: map_map)
qed

lemma distinct_map_batch: "distinct (map f xs) \<Longrightarrow> distinct (map f (take n (sort_key g (filter P xs))))"
proof -
  assume "distinct (map f xs)"
  then have "distinct (map f (filter P xs))" by (rule distinct_map_filter)
  moreover have "mset (map f (sort_key g (filter P xs))) = mset (map f (filter P xs))" by simp
  ultimately have "distinct (map f (sort_key g (filter P xs)))" using mset_eq_imp_distinct_iff by blast
  then show ?thesis by (simp flip: take_map)
qed

lemma claim_keeps:
  assumes "worker_ok w" "wk_clock w < now" "claim_jobs now limit (wk_db w) = (jobs, db)"
  shows "worker_ok (w\<lparr>wk_db := db, wk_claims := jobs, wk_loaded := None, wk_clock := now\<rparr>)"
proof -
  let ?db = "wk_db w"
  define records where "records = take (nat limit) (sort_key (\<lambda>r. (jb_priority r, jb_open_time r, jb_id r))
    (filter (\<lambda>r. jb_state r = Job_Pending \<and> jb_available_at r \<le> now) (md_jobs ?db)))"
  define f where "f = (\<lambda>r. if jb_id r \<in> set (map jb_id records) then claim_row now r else r)"
  have e: "jobs = map (\<lambda>r. job_of_row now (claim_row now r)) records" "db = ?db\<lparr>md_jobs := map f (md_jobs ?db)\<rparr>"
    using assms(3) by (auto simp: claim_jobs_def records_def f_def Let_def)
  have ok: "tables_current ?db" "\<forall>r \<in> set (md_jobs ?db). jb_updated_at r \<le> wk_clock w"
    using assms(1) by (auto simp: worker_ok_def)
  have f: "jb_id (f r) = jb_id r" "job_key (f r) = job_key r" for r
    by (simp_all add: f_def claim_row_def job_key_def)
  have mem: "r \<in> set (md_jobs ?db)" if "r \<in> set records" for r
    using that by (auto simp: records_def dest: in_set_takeD)
  have "distinct (map jb_id (md_jobs ?db))" using ok(1) by (simp add: tables_current_def market_ok_def)
  then have "distinct (map jb_id records)" unfolding records_def by (rule distinct_map_batch)
  moreover have "map aj_id jobs = map jb_id records" by (simp add: e(1) job_of_row_def claim_row_def)
  ultimately have d: "distinct (map aj_id jobs)" by simp
  have held: "claim_held db j \<and> is_interval (key_of_job j) \<and> aj_claimed_at j \<le> now" if j: "j \<in> set jobs" for j
  proof -
    obtain r where r: "r \<in> set records" "j = job_of_row now (claim_row now r)" using j by (auto simp: e(1))
    have "f r \<in> set (md_jobs db)" "claimed_row j (f r)" "job_key (f r) = key_of_job j" "jb_id (f r) = aj_id j"
      using mem [OF r(1)] r by (auto simp: e(2) f_def claimed_row_def job_of_row_def claim_row_def job_key_def key_of_job_def)
    moreover have "is_interval (job_key r)" using mem [OF r(1)] ok(1) by (auto simp: tables_current_def)
    ultimately show ?thesis using f(2) [of r] r(2) unfolding claim_held_def by (auto simp: job_of_row_def)
  qed
  have "jb_updated_at r \<le> now" if r: "r \<in> set (md_jobs db)" for r
    using r ok(2) assms(2) by (fastforce simp: e(2) f_def claim_row_def split: if_splits)
  with d held rows_rewritten [OF ok(1) f] show ?thesis by (auto simp: worker_ok_def e(2))
qed

lemma fail_keeps:
  assumes "worker_ok w" "wk_clock w < now" "wk_claims w = j # js"
  shows "worker_ok (w\<lparr>wk_db := fail_job now j err delay (wk_db w), wk_claims := js, wk_loaded := None, wk_clock := now\<rparr>)"
proof -
  let ?db = "wk_db w"
  define f where "f = (\<lambda>r. if claimed_row j r then r\<lparr>jb_state := Job_Pending, jb_last_error := Some err,
    jb_available_at := now + delay, jb_updated_at := now\<rparr> else r)"
  have e: "fail_job now j err delay ?db = ?db\<lparr>md_jobs := map f (md_jobs ?db)\<rparr>" by (simp add: fail_job_def f_def)
  have ok: "tables_current ?db" "\<forall>r \<in> set (md_jobs ?db). jb_updated_at r \<le> wk_clock w"
      "distinct (map aj_id (wk_claims w))"
    and claims: "\<And>j. j \<in> set (wk_claims w) \<Longrightarrow> claim_held ?db j \<and> is_interval (key_of_job j) \<and> aj_claimed_at j \<le> wk_clock w"
    using assms(1) by (auto simp: worker_ok_def)
  have f: "jb_id (f r) = jb_id r" "job_key (f r) = job_key r" for r by (simp_all add: f_def job_key_def)
  have "claim_held (?db\<lparr>md_jobs := map f (md_jobs ?db)\<rparr>) i" if i: "i \<in> set js" for i
  proof -
    obtain r where r: "r \<in> set (md_jobs ?db)" "jb_id r = aj_id i" "job_key r = key_of_job i"
        "claimed_row i r \<or> jb_state r = Job_Pending"
      using claims [of i] i assms(3) by (auto simp: claim_held_def)
    have "aj_id i \<noteq> aj_id j" using distinct_head [of aj_id j js i] ok(3) i assms(3) by simp
    then have "f r = r" using r(2) by (simp add: f_def claimed_row_def)
    then have "r \<in> set (map f (md_jobs ?db))" using r(1) by (force simp: image_iff)
    with r show ?thesis by (auto simp: claim_held_def)
  qed
  moreover have "jb_updated_at r \<le> now" if r: "r \<in> set (map f (md_jobs ?db))" for r
    using r ok(2) assms(2) by (fastforce simp: f_def split: if_splits)
  ultimately show ?thesis
    using rows_rewritten [OF ok(1) f] ok(3) claims assms(2,3) by (fastforce simp: worker_ok_def e)
qed

lemma restart_keeps:
  assumes "worker_ok w" "wk_clock w < now"
  shows "worker_ok (w\<lparr>wk_db := snd (recover_stale_jobs now stale (wk_db w)), wk_claims := [], wk_loaded := None,
    wk_clock := now\<rparr>)"
proof -
  let ?db = "wk_db w"
  define f where "f = (\<lambda>r :: job_row. if jb_state r = Job_Processing \<and> jb_updated_at r < now - stale
    then r\<lparr>jb_state := Job_Pending, jb_available_at := now, jb_updated_at := now\<rparr> else r)"
  have e: "snd (recover_stale_jobs now stale ?db) = ?db\<lparr>md_jobs := map f (md_jobs ?db)\<rparr>"
    by (simp add: recover_stale_jobs_def f_def Let_def)
  have ok: "tables_current ?db" "\<forall>r \<in> set (md_jobs ?db). jb_updated_at r \<le> wk_clock w"
    using assms(1) by (auto simp: worker_ok_def)
  have f: "jb_id (f r) = jb_id r" "job_key (f r) = job_key r" for r by (simp_all add: f_def job_key_def)
  have "jb_updated_at r \<le> now" if r: "r \<in> set (map f (md_jobs ?db))" for r
    using r ok(2) assms(2) by (fastforce simp: f_def split: if_splits)
  with rows_rewritten [OF ok(1) f] show ?thesis by (auto simp: worker_ok_def e)
qed

lemma find_filter: "(\<And>x. P x \<Longrightarrow> Q x) \<Longrightarrow> List.find P (filter Q xs) = List.find P xs"
  by (induction xs) auto

lemma recorded_finish:
  assumes "\<And>a. candle = Some a \<Longrightarrow> (ag_symbol a, ag_timeframe a, ag_open_time a) = key_of_job j"
  shows "recorded k (finish_job now j candle db) = (if k = key_of_job j then candle else recorded k db)"
proof (cases candle)
  case None
  have "List.find (\<lambda>r. aggregate_key r = k) (filter (\<lambda>r. aggregate_key r \<noteq> key_of_job j) rows) =
      (if k = key_of_job j then None else List.find (\<lambda>r. aggregate_key r = k) rows)" for rows
    by (induction rows) auto
  with None show ?thesis by (simp add: finish_job_def recorded_def flip: key_of_job_def)
next
  case (Some a)
  define new where "new = \<lparr>ar_candle = a, ar_updated_at = now\<rparr>"
  have "aggregate_key new = key_of_job j" using assms [OF Some] by (simp add: new_def aggregate_key_def)
  then have "List.find (\<lambda>r. aggregate_key r = k) (upsert aggregate_key (\<lambda>_. new) new rows) =
      (if k = key_of_job j then Some new else List.find (\<lambda>r. aggregate_key r = k) rows)" for rows
    using find_upsert [of aggregate_key new "\<lambda>_. new" k rows] by (simp split: option.splits)
  with Some show ?thesis by (simp add: finish_job_def recorded_def flip: new_def) (simp add: new_def)
qed

lemma finish_frame [simp]:
  "md_candles (finish_job now j candle db) = md_candles db"
  "md_jobs (finish_job now j candle db) = filter (\<lambda>r. \<not> claimed_row j r) (md_jobs db)"
  "md_checkpoints (finish_job now j candle db) = md_checkpoints db"
  "md_next_job (finish_job now j candle db) = md_next_job db"
  by (simp_all add: finish_job_def split: option.splits)

lemma finish_keeps:
  assumes "worker_ok w" "wk_clock w < now" "wk_claims w = j # js" "wk_loaded w = Some candle"
  shows "worker_ok (w\<lparr>wk_db := finish_job now j candle (wk_db w), wk_claims := js, wk_loaded := None, wk_clock := now\<rparr>)"
proof -
  let ?db = "wk_db w"
  let ?db' = "finish_job now j candle ?db"
  have ok: "tables_current ?db" "\<forall>r \<in> set (md_jobs ?db). jb_updated_at r \<le> wk_clock w"
      "distinct (map aj_id (wk_claims w))"
    and claims: "\<And>j. j \<in> set (wk_claims w) \<Longrightarrow> claim_held ?db j \<and> is_interval (key_of_job j) \<and> aj_claimed_at j \<le> wk_clock w"
    and loaded: "loaded_current ?db j candle"
    using assms by (auto simp: worker_ok_def)
  have mok: "market_ok ?db" using ok(1) by (simp add: tables_current_def)
  obtain r0 where r0: "r0 \<in> set (md_jobs ?db)" "jb_id r0 = aj_id j" "job_key r0 = key_of_job j"
      "claimed_row j r0 \<or> jb_state r0 = Job_Pending"
    using claims [of j] assms(3) by (auto simp: claim_held_def)
  have mine: "r = r0" if "r \<in> set (md_jobs ?db)" "claimed_row j r" for r
    using same_id_same_row [OF mok that(1) r0(1)] that(2) r0(2) by (simp add: claimed_row_def)
  have rec: "recorded k ?db' = (if k = key_of_job j then candle else recorded k ?db)" for k
    using loaded by (intro recorded_finish) (simp add: loaded_current_def)
  have exp: "expected k ?db' = expected k ?db" for k by (rule expected_cong) simp
  have tc: "tables_current ?db'"
    unfolding tables_current_def
  proof (intro conjI allI impI)
    show "market_ok ?db'" using mok by (auto simp: market_ok_def distinct_map_filter)
    show "\<forall>r \<in> set (md_candles ?db'). 0 \<le> m1_open_time (cr_candle r)"
      "\<forall>r \<in> set (md_jobs ?db'). is_interval (job_key r)"
      using ok(1) by (simp_all add: tables_current_def)
    fix k assume k: "is_interval k"
    have now_: "recorded k ?db = expected k ?db \<or> k \<in> job_key ` set (md_jobs ?db)"
      using ok(1) k unfolding tables_current_def by blast
    show "recorded k ?db' = expected k ?db' \<or> k \<in> job_key ` set (md_jobs ?db')"
    proof (cases "k = key_of_job j")
      case True
      show ?thesis
      proof (cases "claimed_row j r0")
        case claimed: True
        then have "candle = expected k ?db" using loaded r0(1) True unfolding loaded_current_def by blast
        then show ?thesis using True rec [of k] exp [of k] by metis
      next
        case False
        then have "r0 \<in> set (md_jobs ?db')" using r0(1) by simp
        then show ?thesis using True r0(3) by (metis imageI)
      qed
    next
      case False
      have "r \<in> set (md_jobs ?db')" if "r \<in> set (md_jobs ?db)" "job_key r = k" for r
        using that mine [of r] r0(3) False by auto
      then show ?thesis using now_ False by (auto simp: rec exp simp del: finish_frame)
    qed
  qed
  have "claim_held ?db' i" if i: "i \<in> set js" for i
  proof -
    obtain r where r: "r \<in> set (md_jobs ?db)" "jb_id r = aj_id i" "job_key r = key_of_job i"
        "claimed_row i r \<or> jb_state r = Job_Pending"
      using claims [of i] i assms(3) by (auto simp: claim_held_def)
    have "aj_id i \<noteq> aj_id j" using distinct_head [of aj_id j js i] ok(3) i assms(3) by simp
    then have "r \<in> set (md_jobs ?db')" using r(1,2) by (simp add: claimed_row_def)
    with r show ?thesis by (auto simp: claim_held_def)
  qed
  with tc ok claims assms(2,3) show ?thesis by (fastforce simp: worker_ok_def)
qed

lemma load_keeps:
  assumes "worker_ok w" "wk_claims w = j # js"
  shows "worker_ok (w\<lparr>wk_loaded := Some (aggregate_candles (load_source_candles j (wk_db w)) (aj_timeframe j)
    (Some (aj_open_time j)))\<rparr>)"
proof -
  have int: "is_interval (key_of_job j)" using assms by (simp add: worker_ok_def)
  have e: "aggregate_candles (load_source_candles j (wk_db w)) (aj_timeframe j) (Some (aj_open_time j)) =
      expected (key_of_job j) (wk_db w)"
    by (simp add: expected_def load_source_alt key_of_job_def)
  have "loaded_current (wk_db w) j (expected (key_of_job j) (wk_db w))"
    using expected_key [OF _ int] by (auto simp: loaded_current_def)
  then show ?thesis using assms unfolding e by (simp add: worker_ok_def)
qed

lemma worker_times: "worker_ok w \<Longrightarrow> times_ok (wk_db w)" and worker_market: "worker_ok w \<Longrightarrow> market_ok (wk_db w)"
  by (simp_all add: worker_ok_def tables_current_def times_ok_def)

lemma requeues_step:
  assumes "worker_ok w" "wk_clock w < now" "requeues now (wk_db w) db" "times_ok db"
  shows "worker_ok (w\<lparr>wk_db := db, wk_clock := now\<rparr>)"
  using requeues_keeps [OF assms(1,3,2)] assms(4) by (simp add: times_ok_def)

lemma worker_stays_ok: "worker_reachable w0 w \<Longrightarrow> worker_ok w0 \<Longrightarrow> worker_ok w"
proof (induction rule: worker_reachable.induct)
  case (Saved w now cs symb stream db)
  then show ?case using save_batch_requeues save_batch_times worker_times by (metis requeues_step)
next
  case (Mended w now cs db)
  then show ?case using repair_requeues repair_times worker_times by (metis requeues_step)
next
  case (Streamed w now c stream result db)
  then show ?case using ingest_requeues ingest_times worker_times worker_market by (metis requeues_step)
next
  case (Seeded w now limit)
  then have ok: "worker_ok w" by simp
  have "\<And>r. r \<in> set (md_candles (wk_db w)) \<Longrightarrow> 0 \<le> m1_open_time (cr_candle r)"
    using worker_times [OF ok] by (simp add: times_ok_def)
  then have "requeues now (wk_db w) (snd (seed_next_batch now limit (wk_db w)))" by (rule seed_requeues)
  then show ?case using requeues_step [OF ok Seeded(2)] worker_times [OF ok] seed_times by blast
qed (auto intro: claim_keeps load_keeps finish_keeps fail_keeps restart_keeps)

section \<open>One round of the worker\<close>

lemma process_job_rows:
  "md_jobs (process_job now None j db) = filter (\<lambda>r. \<not> claimed_row j r) (md_jobs db)"
  "md_jobs (process_job now (Some e) j db) = map (\<lambda>r. if claimed_row j r
     then r\<lparr>jb_state := Job_Pending, jb_last_error := Some e,
       jb_available_at := now + seconds (retry_delay_seconds (aj_attempts j)), jb_updated_at := now\<rparr> else r) (md_jobs db)"
  by (simp_all add: process_job_def fail_job_def)

lemma process_job_ids: "jb_id ` set (md_jobs (process_job now failure j db)) \<subseteq> jb_id ` set (md_jobs db)"
  by (cases failure) (auto simp: process_job_rows)

lemma process_job_others:
  assumes "jb_id r \<noteq> aj_id j"
  shows "r \<in> set (md_jobs (process_job now failure j db)) \<longleftrightarrow> r \<in> set (md_jobs db)"
  using assms by (cases failure) (auto simp: process_job_rows claimed_row_def image_iff split: if_splits)

lemma process_jobs_ids: "jb_id ` set (md_jobs (process_jobs env js db)) \<subseteq> jb_id ` set (md_jobs db)"
  by (induction js arbitrary: db) (use process_job_ids in \<open>auto, blast\<close>)

lemma process_jobs_others:
  "jb_id r \<notin> aj_id ` set js \<Longrightarrow> r \<in> set (md_jobs (process_jobs env js db)) \<longleftrightarrow> r \<in> set (md_jobs db)"
  by (induction js arbitrary: db) (auto simp: process_job_others)

definition settled :: "round_env \<Rightarrow> aggregation_job \<Rightarrow> market_db \<Rightarrow> bool" where
  "settled env j db \<longleftrightarrow> (case snd (env j) of
     None \<Rightarrow> aj_id j \<notin> jb_id ` set (md_jobs db)
   | Some e \<Rightarrow> \<exists>r \<in> set (md_jobs db). jb_id r = aj_id j \<and> jb_state r = Job_Pending \<and> jb_last_error r = Some e \<and>
       jb_available_at r = fst (env j) + seconds (retry_delay_seconds (aj_attempts j)))"

lemma process_jobs_settle:
  assumes "distinct (map aj_id js)" "j \<in> set js"
    and "\<And>j. j \<in> set js \<Longrightarrow> \<exists>r \<in> set (md_jobs db). claimed_row j r"
    and "\<And>j r. j \<in> set js \<Longrightarrow> r \<in> set (md_jobs db) \<Longrightarrow> jb_id r = aj_id j \<Longrightarrow> claimed_row j r"
  shows "settled env j (process_jobs env js db)"
  using assms
proof (induction js arbitrary: db)
  case (Cons i js)
  define db1 where "db1 = process_job (fst (env i)) (snd (env i)) i db"
  have i: "aj_id i \<notin> aj_id ` set js" using Cons.prems(1) by simp
  show ?case
  proof (cases "j = i")
    case True
    have "settled env i db1"
    proof (cases "snd (env i)")
      case None
      then show ?thesis using Cons.prems(4) [of i] by (auto simp: settled_def db1_def process_job_rows)
    next
      case (Some e)
      obtain r where "r \<in> set (md_jobs db)" "claimed_row i r" using Cons.prems(3) by auto
      define x where "x = r\<lparr>jb_state := Job_Pending, jb_last_error := Some e,
          jb_available_at := fst (env i) + seconds (retry_delay_seconds (aj_attempts i)), jb_updated_at := fst (env i)\<rparr>"
      have "x \<in> set (md_jobs db1)" "jb_id x = aj_id i" using \<open>r \<in> set (md_jobs db)\<close> \<open>claimed_row i r\<close>
        by (auto simp: x_def db1_def Some process_job_rows claimed_row_def image_iff intro!: bexI [of _ r])
      moreover have "jb_state x = Job_Pending" "jb_last_error x = Some e"
          "jb_available_at x = fst (env i) + seconds (retry_delay_seconds (aj_attempts i))" by (simp_all add: x_def)
      ultimately show ?thesis by (auto simp: settled_def Some)
    qed
    then have "settled env i (process_jobs env js db1)"
      using i process_jobs_ids [of env js db1] process_jobs_others [of _ js env db1]
      by (auto simp: settled_def split: option.splits)
    with True show ?thesis by (simp add: db1_def)
  next
    case False
    then have j: "j \<in> set js" using Cons.prems(2) by simp
    have "settled env j (process_jobs env js db1)"
    proof (rule Cons.IH [OF _ j])
      show "distinct (map aj_id js)" using Cons.prems(1) by simp
      fix k assume k: "k \<in> set js"
      then have ne: "aj_id k \<noteq> aj_id i" using i by (metis imageI)
      show "\<exists>r \<in> set (md_jobs db1). claimed_row k r"
        using Cons.prems(3) [of k] k ne process_job_others unfolding db1_def claimed_row_def
        by (metis list.set_intros(2))
      show "claimed_row k r" if "r \<in> set (md_jobs db1)" "jb_id r = aj_id k" for r
        using that Cons.prems(4) [of k r] k ne process_job_others unfolding db1_def by (metis list.set_intros(2))
    qed
    then show ?thesis by (simp add: db1_def)
  qed
qed simp

lemma claim_jobs_ok:
  assumes "claim_jobs now batch db = (jobs, db')" "distinct (map jb_id (md_jobs db))"
  shows "distinct (map aj_id jobs)" and "\<And>j. j \<in> set jobs \<Longrightarrow> \<exists>r \<in> set (md_jobs db'). claimed_row j r"
    and "\<And>j r. j \<in> set jobs \<Longrightarrow> r \<in> set (md_jobs db') \<Longrightarrow> jb_id r = aj_id j \<Longrightarrow> claimed_row j r"
    and "\<And>r. jb_id r \<notin> aj_id ` set jobs \<Longrightarrow> r \<in> set (md_jobs db') \<longleftrightarrow> r \<in> set (md_jobs db)"
    and "length jobs = min (nat batch) (length (filter (\<lambda>r. jb_state r = Job_Pending \<and> jb_available_at r \<le> now) (md_jobs db)))"
proof -
  define records where "records = take (nat batch) (sort_key (\<lambda>r. (jb_priority r, jb_open_time r, jb_id r))
    (filter (\<lambda>r. jb_state r = Job_Pending \<and> jb_available_at r \<le> now) (md_jobs db)))"
  define f where "f = (\<lambda>r. if jb_id r \<in> set (map jb_id records) then claim_row now r else r)"
  have e: "jobs = map (\<lambda>r. job_of_row now (claim_row now r)) records" "db' = db\<lparr>md_jobs := map f (md_jobs db)\<rparr>"
    using assms(1) by (auto simp: claim_jobs_def records_def f_def Let_def)
  have ids: "map aj_id jobs = map jb_id records" by (simp add: e(1) job_of_row_def claim_row_def)
  have f: "jb_id (f r) = jb_id r" for r by (simp add: f_def claim_row_def)
  have mem: "set records \<subseteq> set (md_jobs db)" by (auto simp: records_def dest: in_set_takeD)
  show "distinct (map aj_id jobs)"
    using distinct_map_batch [OF assms(2)] by (simp add: ids records_def)
  show "length jobs = min (nat batch) (length (filter (\<lambda>r. jb_state r = Job_Pending \<and> jb_available_at r \<le> now) (md_jobs db)))"
    by (simp add: e(1) records_def)
  have ids': "aj_id ` set jobs = jb_id ` set records" using ids by (metis list.set_map)
  show "claimed_row j r" if "j \<in> set jobs" "r \<in> set (md_jobs db')" "jb_id r = aj_id j" for j r
  proof -
    have "jb_id r \<in> jb_id ` set records" using that(1,3) ids' by auto
    moreover have "aj_claimed_at j = now" using that(1) by (auto simp: e(1) job_of_row_def)
    moreover have "\<exists>x. r = f x" using that(2) by (auto simp: e(2))
    then obtain x where x: "r = f x" by blast
    ultimately have "r = claim_row now x" using f [of x] by (simp add: f_def)
    then show ?thesis using that(3) \<open>aj_claimed_at j = now\<close> by (simp add: claimed_row_def claim_row_def)
  qed
  then show "\<exists>r \<in> set (md_jobs db'). claimed_row j r" if j: "j \<in> set jobs" for j
  proof -
    obtain r where "r \<in> set records" "aj_id j = jb_id r" using j by (auto simp: e(1) job_of_row_def claim_row_def)
    then have "f r \<in> set (md_jobs db')" "jb_id (f r) = aj_id j" using mem by (auto simp: e(2) f)
    then show ?thesis using \<open>\<And>r j. j \<in> set jobs \<Longrightarrow> r \<in> set (md_jobs db') \<Longrightarrow> jb_id r = aj_id j \<Longrightarrow> claimed_row j r\<close> j by blast
  qed
  show "r \<in> set (md_jobs db') \<longleftrightarrow> r \<in> set (md_jobs db)" if n: "jb_id r \<notin> aj_id ` set jobs" for r
  proof -
    have same: "f x = x" if "jb_id x = jb_id r" for x using n that unfolding f_def ids' list.set_map by simp
    then have "f x = r \<Longrightarrow> x = r" for x using f [of x] by metis
    then have "r \<in> f ` S \<longleftrightarrow> r \<in> S" for S using same [of r] by (metis imageE imageI)
    then show ?thesis by (simp add: e(2))
  qed
qed

text \<open>C23: When the queue is empty every aggregate is current. However claims, loads, finished and failed
  jobs, restarts, stored batches, repairs and in-order candles of the stream interleave: in a reached state with no
  job row left, the recorded aggregate of every interval is what \<open>aggregate_candles\<close> gives for the minutes
  stored in it, and there is none where the minutes are incomplete.\<close>

theorem empty_queue_means_current_aggregates:
  assumes "worker_ok w0" "worker_reachable w0 w" "md_jobs (wk_db w) = []" "0 \<le> t" "interval_start t tf = t"
  shows "recorded (symb, tf, t) (wk_db w) = aggregate_candles (source_candles symb tf t (wk_db w)) tf (Some t)"
proof -
  have "tables_current (wk_db w)" using worker_stays_ok assms(1,2) by (simp add: worker_ok_def)
  then have "recorded (symb, tf, t) (wk_db w) = expected (symb, tf, t) (wk_db w)"
    using assms(3-5) by (auto simp: tables_current_def is_interval_def)
  then show ?thesis by (simp add: expected_def source_of_def)
qed

text \<open>A round of the worker settles what it claims. It claims as many of the due jobs as the batch allows; a
  claimed job that meets no failure has no row left, one that fails is pending again, with the error and a delay
  between one second and one minute, and every other row is as it was.\<close>

theorem round_settles_its_claims:
  assumes "seed_next_batch now limit db = (seeded, db1)" "distinct (map jb_id (md_jobs db1))"
    and "run_round env now limit batch db = (jobs, db2)"
  shows "length jobs = min (nat batch) (length (filter (\<lambda>r. jb_state r = Job_Pending \<and> jb_available_at r \<le> now) (md_jobs db1))) \<and>
     (\<forall>j \<in> set jobs. snd (env j) = None \<longrightarrow> aj_id j \<notin> jb_id ` set (md_jobs db2)) \<and>
     (\<forall>j \<in> set jobs. \<forall>e. snd (env j) = Some e \<longrightarrow> (\<exists>r \<in> set (md_jobs db2).
        jb_id r = aj_id j \<and> jb_state r = Job_Pending \<and> jb_last_error r = Some e \<and>
        fst (env j) + seconds 1 \<le> jb_available_at r \<and> jb_available_at r \<le> fst (env j) + minutes 1)) \<and>
     (\<forall>r. jb_id r \<notin> aj_id ` set jobs \<longrightarrow> (r \<in> set (md_jobs db2) \<longleftrightarrow> r \<in> set (md_jobs db1)))"
proof -
  obtain db' where c: "claim_jobs now batch db1 = (jobs, db')" and e: "db2 = process_jobs env jobs db'"
    using assms(1,3) by (auto simp: run_round_def Let_def split: prod.splits)
  note ok = claim_jobs_ok [OF c assms(2)]
  have s: "settled env j db2" if "j \<in> set jobs" for j
    unfolding e by (rule process_jobs_settle [OF ok(1) that ok(2) ok(3)])
  have d: "1 \<le> retry_delay_seconds a \<and> retry_delay_seconds a \<le> 60" for a by (simp add: retry_delay_seconds_def)
  have failed: "\<exists>r \<in> set (md_jobs db2). jb_id r = aj_id j \<and> jb_state r = Job_Pending \<and> jb_last_error r = Some x \<and>
        fst (env j) + seconds 1 \<le> jb_available_at r \<and> jb_available_at r \<le> fst (env j) + minutes 1"
    if j: "j \<in> set jobs" "snd (env j) = Some x" for j x
  proof -
    obtain r where r: "r \<in> set (md_jobs db2)" "jb_id r = aj_id j" "jb_state r = Job_Pending" "jb_last_error r = Some x"
        "jb_available_at r = fst (env j) + seconds (retry_delay_seconds (aj_attempts j))"
      using s [OF j(1)] j(2) by (auto simp: settled_def)
    with d [of "aj_attempts j"] show ?thesis by (auto simp: seconds_def minutes_def intro!: bexI [of _ r])
  qed
  have "\<forall>j \<in> set jobs. snd (env j) = None \<longrightarrow> aj_id j \<notin> jb_id ` set (md_jobs db2)"
    using s by (fastforce simp: settled_def)
  moreover have "\<forall>r. jb_id r \<notin> aj_id ` set jobs \<longrightarrow> (r \<in> set (md_jobs db2) \<longleftrightarrow> r \<in> set (md_jobs db1))"
    using process_jobs_others ok(4) unfolding e by blast
  ultimately show ?thesis using ok(5) failed by blast
qed

text \<open>A run on one symbol: five stored minutes, a claim of the four intervals they queue, and every job done.\<close>

definition minutes_to_save :: "candle_1m list" where
  "minutes_to_save = map (\<lambda>i. sample_fifth\<lparr>m1_open_time := minutes i\<rparr>) [0, 1, 2, 3, 4]"

definition idle_worker :: worker where
  "idle_worker = \<lparr>wk_db = sample_market_db, wk_claims = [], wk_loaded = None, wk_clock = 0\<rparr>"

definition with_minutes :: worker where
  "with_minutes = idle_worker\<lparr>wk_clock := 1, wk_db :=
     (case save_batch 1 ''BTCUSDT'' stream_name minutes_to_save sample_market_db of Inr db \<Rightarrow> db | Inl _ \<Rightarrow> sample_market_db)\<rparr>"

definition with_claims :: worker where
  "with_claims = (case claim_jobs 2 10 (wk_db with_minutes) of (jobs, db) \<Rightarrow>
     with_minutes\<lparr>wk_db := db, wk_claims := jobs, wk_loaded := None, wk_clock := 2\<rparr>)"

fun work_off :: "aggregation_job list \<Rightarrow> worker \<Rightarrow> worker" where
  "work_off [] w = w"
| "work_off (j # js) w = work_off js (w\<lparr>wk_db := finish_job (wk_clock w + 1) j
     (aggregate_candles (load_source_candles j (wk_db w)) (aj_timeframe j) (Some (aj_open_time j))) (wk_db w),
     wk_claims := js, wk_loaded := None, wk_clock := wk_clock w + 1\<rparr>)"

lemma work_off_reachable: "worker_reachable w0 w \<Longrightarrow> wk_claims w = js \<Longrightarrow> worker_reachable w0 (work_off js w)"
proof (induction js arbitrary: w)
  case (Cons j js)
  have "worker_reachable w0 (w\<lparr>wk_loaded := Some (aggregate_candles (load_source_candles j (wk_db w)) (aj_timeframe j)
      (Some (aj_open_time j)))\<rparr>)"
    by (rule worker_reachable.Loaded [OF Cons.prems])
  from worker_reachable.Finished [OF this, of "wk_clock w + 1" j js] Cons.prems(2)
  show ?case by (auto intro: Cons.IH)
qed simp

lemma sample_saved: "\<exists>db. save_batch 1 ''BTCUSDT'' stream_name minutes_to_save sample_market_db = Inr db \<and> wk_db with_minutes = db"
proof -
  have "\<not> isl (save_batch 1 ''BTCUSDT'' stream_name minutes_to_save sample_market_db)" by code_simp
  then show ?thesis by (auto simp: with_minutes_def split: sum.splits)
qed

lemma sample_worker_reachable: "worker_reachable idle_worker (work_off (wk_claims with_claims) with_claims)"
proof -
  obtain db where db: "save_batch 1 ''BTCUSDT'' stream_name minutes_to_save sample_market_db = Inr db" "wk_db with_minutes = db"
    using sample_saved by blast
  have "worker_reachable idle_worker (idle_worker\<lparr>wk_db := db, wk_clock := 1\<rparr>)"
    by (rule worker_reachable.Saved [OF worker_reachable.Start, of _ 1 minutes_to_save])
       (use db in \<open>auto simp: idle_worker_def minutes_to_save_def minutes_def\<close>)
  also have "idle_worker\<lparr>wk_db := db, wk_clock := 1\<rparr> = with_minutes"
    using db by (simp add: with_minutes_def)
  finally have m: "worker_reachable idle_worker with_minutes" .
  obtain jobs db' where c: "claim_jobs 2 10 (wk_db with_minutes) = (jobs, db')" by fastforce
  from worker_reachable.Claimed [OF m _ _ c]
  have "worker_reachable idle_worker with_claims"
    by (simp add: with_claims_def c) (simp add: with_minutes_def idle_worker_def)
  then show ?thesis by (rule work_off_reachable) simp
qed

lemma idle_worker_ok: "worker_ok idle_worker"
proof -
  have "aggregate_candles [] tf (Some t) = None" for tf t
    by (auto simp: aggregate_candles_def)
  then have "expected k sample_market_db = None" for k
    by (simp add: expected_def source_of_def source_candles_def sample_market_db_def split: prod.splits)
  then show ?thesis
    by (auto simp: worker_ok_def idle_worker_def tables_current_def market_ok_def recorded_def) (auto simp: sample_market_db_def)
qed

lemma empty_queue_means_current_aggregates_witness:
  "let db = wk_db (work_off (wk_claims with_claims) with_claims) in
     recorded (''BTCUSDT'', TF_5m, 0) db \<noteq> None \<and>
     recorded (''BTCUSDT'', TF_5m, 0) db = aggregate_candles (source_candles ''BTCUSDT'' TF_5m 0 db) TF_5m (Some 0)"
proof -
  have "md_jobs (wk_db (work_off (wk_claims with_claims) with_claims)) = []" by code_simp
  moreover have "interval_start 0 TF_5m = 0" by code_simp
  moreover have "recorded (''BTCUSDT'', TF_5m, 0) (wk_db (work_off (wk_claims with_claims) with_claims)) \<noteq> None" by code_simp
  ultimately show ?thesis
    using empty_queue_means_current_aggregates [OF idle_worker_ok sample_worker_reachable, of 0 TF_5m "''BTCUSDT''"]
    by (simp add: Let_def)
qed

lemma round_settles_its_claims_witness:
  "case run_round (\<lambda>_. (3, None)) 2 100 10 (wk_db with_minutes) of (jobs, db) \<Rightarrow>
     length jobs = 4 \<and> (\<forall>j \<in> set jobs. aj_id j \<notin> jb_id ` set (md_jobs db))"
proof -
  let ?s = "seed_next_batch 2 100 (wk_db with_minutes)"
  obtain n seeded where s: "?s = (n, seeded)" by fastforce
  obtain jobs db where r: "run_round (\<lambda>_. (3, None)) 2 100 10 (wk_db with_minutes) = (jobs, db)" by fastforce
  have "distinct (map jb_id (md_jobs (snd ?s)))" by code_simp
  then have d: "distinct (map jb_id (md_jobs seeded))" by (simp add: s)
  have "length (filter (\<lambda>r. jb_state r = Job_Pending \<and> jb_available_at r \<le> 2) (md_jobs (snd ?s))) = 4" by code_simp
  then have "length (filter (\<lambda>r. jb_state r = Job_Pending \<and> jb_available_at r \<le> 2) (md_jobs seeded)) = 4" by (simp add: s)
  then show ?thesis using round_settles_its_claims [OF s d r] r by simp
qed

end
