(* ===== verification/Replay_Outcomes.thy ===== *)
theory Replay_Outcomes
  imports Evaluator Fallback "HOL-Library.List_Lexorder" "HOL-Library.Char_ord"
begin

text \<open>
  \<open>src/src/crypto_smc/replay/models.py\<close>, \<open>replay/lifecycle.py\<close> and the summary of \<open>replay/reporting.py\<close>: how an
  accepted candidate is resolved against the minutes that follow it, and how the outcomes of a replay are
  added up. The files of the report are not modelled.
\<close>

section \<open>models.py\<close>

record replay_row =
  rw_candle :: candle_1m
  rw_open_interest :: "dec option"
  rw_funding_rate :: "dec option"
  rw_spread_bps :: "dec option"
  rw_turnover_24h_usdt :: "dec option"
  rw_instrument_max_leverage :: "dec option"
  rw_instrument_quantity_step :: "dec option"
  rw_instrument_min_notional :: "dec option"

record replay_candidate =
  rn_sequence :: int
  rn_candidate :: signal_candidate
  rn_input_cutoffs :: "(string \<times> instant) list"

datatype outcome_status = Out_Expired | Out_Invalidated | Out_Stopped | Out_Stopped_After_Tp1 | Out_Tp2 |
  Out_Ambiguous | Out_Open

fun outcome_name :: "outcome_status \<Rightarrow> string" where
  "outcome_name Out_Expired = ''expired''"
| "outcome_name Out_Invalidated = ''invalidated_before_entry''"
| "outcome_name Out_Stopped = ''stopped''"
| "outcome_name Out_Stopped_After_Tp1 = ''stopped_after_tp1''"
| "outcome_name Out_Tp2 = ''tp2''"
| "outcome_name Out_Ambiguous = ''ambiguous''"
| "outcome_name Out_Open = ''open''"

record replay_outcome =
  ro_sequence :: int
  ro_symbol :: string
  ro_direction :: trade_direction
  ro_status :: outcome_status
  ro_entered_at :: "instant option"
  ro_resolved_at :: "instant option"
  ro_pnl :: dec
  ro_r_multiple :: dec
  ro_fees :: dec
  ro_ambiguous :: bool

record replay_summary =
  su_strategy_version :: string
  su_input_rows :: int
  su_symbols :: int
  su_candidate_count :: int
  su_accepted_count :: int
  su_suppressed_count :: int
  su_outcome_counts :: "(string \<times> int) list"
  su_score_bands :: "(string \<times> int) list"
  su_net_profit :: dec
  su_profit_factor :: "dec option"
  su_maximum_drawdown :: dec
  su_maximum_drawdown_fraction :: dec
  su_ambiguity_count :: int

record replay_result =
  rr_candidates :: "replay_candidate list"
  rr_outcomes :: "replay_outcome list"
  rr_summary :: replay_summary

section \<open>lifecycle.py\<close>

definition touches_entry :: "trade_plan \<Rightarrow> dec \<Rightarrow> dec \<Rightarrow> bool" where
  "touches_entry plan low high \<longleftrightarrow> low \<le> tp_entry_upper plan \<and> high \<ge> tp_entry_lower plan"

definition stop_hit :: "trade_direction \<Rightarrow> dec \<Rightarrow> dec \<Rightarrow> dec \<Rightarrow> bool" where
  "stop_hit dir stop low high = (if dir = Long then low \<le> stop else high \<ge> stop)"

definition tp1_hit :: "trade_direction \<Rightarrow> trade_plan \<Rightarrow> dec \<Rightarrow> dec \<Rightarrow> bool" where
  "tp1_hit dir plan low high = (if dir = Long then high \<ge> tp_take_profit_1 plan else low \<le> tp_take_profit_1 plan)"

definition tp2_hit :: "trade_direction \<Rightarrow> trade_plan \<Rightarrow> dec \<Rightarrow> dec \<Rightarrow> bool" where
  "tp2_hit dir plan low high = (if dir = Long then high \<ge> tp_take_profit_2 plan else low \<le> tp_take_profit_2 plan)"

definition gapped_beyond_stop :: "trade_direction \<Rightarrow> trade_plan \<Rightarrow> dec \<Rightarrow> bool" where
  "gapped_beyond_stop dir plan open_price =
     (if dir = Long then open_price < tp_stop_loss plan else open_price > tp_stop_loss plan)"

definition plan_fee_rate :: "trade_plan \<Rightarrow> dec" where
  "plan_fee_rate plan = (if tp_notional plan > 0 then ddivn (tp_estimated_entry_fee plan) (tp_notional plan) else 0)"

definition plan_breakeven :: "trade_direction \<Rightarrow> trade_plan \<Rightarrow> dec res" where
  "plan_breakeven dir plan =
     (let fee_rate = plan_fee_rate plan in
      if dir = Long
      then ddiv (dmul (tp_planned_entry plan) (dadd 1 fee_rate)) (dsub 1 fee_rate)
      else ddiv (dmul (tp_planned_entry plan) (dsub 1 fee_rate)) (dadd 1 fee_rate))"

definition direction_sign :: "trade_direction \<Rightarrow> dec" where
  "direction_sign dir = (if dir = Long then 1 else -1)"

definition two_halves :: "trade_direction \<Rightarrow> trade_plan \<Rightarrow> dec \<Rightarrow> dec \<times> dec" where
  "two_halves dir plan second_exit =
     (let half = dhalf (tp_quantity plan);
          sign = direction_sign dir;
          gross = dmul half (dadd (dmul (dsub (tp_take_profit_1 plan) (tp_planned_entry plan)) sign)
            (dmul (dsub second_exit (tp_planned_entry plan)) sign));
          fee_rate = plan_fee_rate plan;
          fees = dadd (dadd (tp_estimated_entry_fee plan) (dmul (dmul half (tp_take_profit_1 plan)) fee_rate))
            (dmul (dmul half second_exit) fee_rate)
      in (dsub gross fees, fees))"

definition pnl_after_tp1_stop :: "trade_direction \<Rightarrow> trade_plan \<Rightarrow> (dec \<times> dec) res" where
  "pnl_after_tp1_stop dir plan = rmap (two_halves dir plan) (plan_breakeven dir plan)"

definition flat_outcome ::
  "int \<Rightarrow> signal_candidate \<Rightarrow> outcome_status \<Rightarrow> instant option \<Rightarrow> instant option \<Rightarrow> bool \<Rightarrow> replay_outcome" where
  "flat_outcome seq c status resolved_at entered_at ambiguous =
     \<lparr>ro_sequence = seq, ro_symbol = ca_symbol c, ro_direction = ca_direction c, ro_status = status,
      ro_entered_at = entered_at, ro_resolved_at = resolved_at, ro_pnl = 0, ro_r_multiple = 0, ro_fees = 0,
      ro_ambiguous = ambiguous\<rparr>"

definition booked_outcome ::
  "int \<Rightarrow> signal_candidate \<Rightarrow> trade_plan \<Rightarrow> outcome_status \<Rightarrow> instant \<Rightarrow> instant \<Rightarrow> bool \<Rightarrow> dec \<times> dec \<Rightarrow> replay_outcome res" where
  "booked_outcome seq c plan status entered_at resolved_at ambiguous result =
     (case result of (pnl, fees) \<Rightarrow>
        rbind (ddiv pnl (tp_risk_amount plan)) (\<lambda>r.
        Inr \<lparr>ro_sequence = seq, ro_symbol = ca_symbol c, ro_direction = ca_direction c, ro_status = status,
          ro_entered_at = Some entered_at, ro_resolved_at = Some resolved_at, ro_pnl = pnl, ro_r_multiple = r,
          ro_fees = fees, ro_ambiguous = ambiguous\<rparr>))"

definition stopped_outcome ::
  "int \<Rightarrow> signal_candidate \<Rightarrow> trade_plan \<Rightarrow> instant \<Rightarrow> instant \<Rightarrow> bool \<Rightarrow> bool \<Rightarrow> replay_outcome res" where
  "stopped_outcome seq c plan entered_at resolved_at ambiguous after_tp1 =
     (if after_tp1 \<and> \<not> ambiguous then
        rbind (pnl_after_tp1_stop (ca_direction c) plan)
          (booked_outcome seq c plan Out_Stopped_After_Tp1 entered_at resolved_at ambiguous)
      else booked_outcome seq c plan (if ambiguous then Out_Ambiguous else Out_Stopped) entered_at resolved_at ambiguous
        (dneg (tp_estimated_loss_at_stop plan),
         dadd (tp_estimated_entry_fee plan) (dmul (dmul (tp_quantity plan) (tp_stop_loss plan)) (plan_fee_rate plan))))"

definition target_outcome :: "int \<Rightarrow> signal_candidate \<Rightarrow> trade_plan \<Rightarrow> instant \<Rightarrow> instant \<Rightarrow> replay_outcome res" where
  "target_outcome seq c plan entered_at resolved_at =
     booked_outcome seq c plan Out_Tp2 entered_at resolved_at False
       (two_halves (ca_direction c) plan (tp_take_profit_2 plan))"

text \<open>The loop of \<open>resolve_candidate\<close> with its three variables.\<close>

fun resolve_rows ::
  "int \<Rightarrow> signal_candidate \<Rightarrow> trade_plan \<Rightarrow> instant option \<Rightarrow> bool \<Rightarrow> dec \<Rightarrow> candle_1m list \<Rightarrow> replay_outcome res" where
  "resolve_rows seq c plan entered_at tp1_reached current_stop [] =
     Inr (flat_outcome seq c Out_Open None entered_at False)"
| "resolve_rows seq c plan None tp1_reached current_stop (m # ms) =
     (let candle_end = m1_open_time m + one_minute; low = m1_low m; high = m1_high m in
      if m1_open_time m \<ge> ca_expires_at c
      then Inr (flat_outcome seq c Out_Expired (Some (ca_expires_at c)) None False)
      else if gapped_beyond_stop (ca_direction c) plan (m1_open m)
      then Inr (flat_outcome seq c Out_Invalidated (Some (m1_open_time m)) None False)
      else if \<not> touches_entry plan low high then resolve_rows seq c plan None tp1_reached current_stop ms
      else if stop_hit (ca_direction c) current_stop low high
      then stopped_outcome seq c plan (m1_open_time m) candle_end True False
      else if tp1_hit (ca_direction c) plan low high
      then Inr (flat_outcome seq c Out_Ambiguous (Some candle_end) (Some (m1_open_time m)) True)
      else resolve_rows seq c plan (Some (m1_open_time m)) tp1_reached current_stop ms)"
| "resolve_rows seq c plan (Some entered_at) tp1_reached current_stop (m # ms) =
     (let candle_end = m1_open_time m + one_minute; low = m1_low m; high = m1_high m;
          stop_touched = stop_hit (ca_direction c) current_stop low high;
          tp1_touched = (\<not> tp1_reached \<and> tp1_hit (ca_direction c) plan low high);
          tp2_touched = tp2_hit (ca_direction c) plan low high
      in
      if stop_touched \<and> (tp1_touched \<or> tp2_touched)
      then stopped_outcome seq c plan entered_at candle_end True tp1_reached
      else if stop_touched then stopped_outcome seq c plan entered_at candle_end False tp1_reached
      else if tp2_touched then target_outcome seq c plan entered_at candle_end
      else if tp1_touched then
        rbind (plan_breakeven (ca_direction c) plan) (\<lambda>breakeven.
        resolve_rows seq c plan (Some entered_at) True breakeven ms)
      else resolve_rows seq c plan (Some entered_at) tp1_reached current_stop ms)"

definition future_minutes :: "signal_candidate \<Rightarrow> replay_row list \<Rightarrow> candle_1m list" where
  "future_minutes c rows =
     filter (\<lambda>m. m1_symbol m = ca_symbol c \<and> m1_open_time m \<ge> ca_analyzed_at c) (map rw_candle rows)"

definition resolve_candidate :: "int \<Rightarrow> signal_candidate \<Rightarrow> replay_row list \<Rightarrow> replay_outcome res" where
  "resolve_candidate seq c rows =
     (case ca_trade_plan c of
        None \<Rightarrow> Inl (ValueError ''Only accepted candidates with a trade plan can be resolved'')
      | Some plan \<Rightarrow>
          if ca_status c \<noteq> Accepted
          then Inl (ValueError ''Only accepted candidates with a trade plan can be resolved'')
          else resolve_rows seq c plan None False (tp_stop_loss plan) (future_minutes c rows))"

section \<open>reporting.py\<close>

definition score_band :: "int \<Rightarrow> int \<Rightarrow> int \<Rightarrow> string" where
  "score_band score minimum strong =
     (if score < minimum then ''0-'' @ show_int (minimum - 1)
      else if score < strong then show_int minimum @ ''-'' @ show_int (strong - 1)
      else show_int strong @ ''-100'')"

text \<open>\<open>dict(sorted(Counter(xs).items()))\<close>.\<close>

definition sorted_counts :: "('a :: linorder) list \<Rightarrow> ('a \<times> int) list" where
  "sorted_counts xs = map (\<lambda>x. (x, int (count_list xs x))) (sort (dedup xs))"

definition datetime_max :: instant where "datetime_max = 253402300799999999"

definition resolution_key :: "replay_outcome \<Rightarrow> instant \<times> int" where
  "resolution_key item =
     ((case ro_resolved_at item of None \<Rightarrow> datetime_max | Some t \<Rightarrow> t), ro_sequence item)"

text \<open>The loop over the balance: balance, peak, maximum drawdown and maximum fraction.\<close>

fun drawdown_loop :: "dec list \<Rightarrow> dec \<Rightarrow> dec \<Rightarrow> dec \<Rightarrow> dec \<Rightarrow> dec \<times> dec" where
  "drawdown_loop [] balance peak worst worst_fraction = (worst, worst_fraction)"
| "drawdown_loop (pnl # pnls) balance peak worst worst_fraction =
     (let balance = dadd balance pnl;
          peak = max peak balance;
          drawdown = dsub peak balance
      in drawdown_loop pnls balance peak (max worst drawdown)
           (if peak > 0 then max worst_fraction (ddivn drawdown peak) else worst_fraction))"

definition build_summary ::
  "strategy_config \<Rightarrow> int \<Rightarrow> int \<Rightarrow> replay_candidate list \<Rightarrow> replay_outcome list \<Rightarrow> replay_summary" where
  "build_summary config input_rows symbol_count candidates outcomes =
     (let statuses = map (\<lambda>i. ca_status (rn_candidate i)) candidates;
          ordered_outcomes = sort_key resolution_key outcomes;
          positives = dsum (map ro_pnl (filter (\<lambda>i. ro_pnl i > 0) outcomes));
          negatives = dabs (dsum (map ro_pnl (filter (\<lambda>i. ro_pnl i < 0) outcomes)));
          (worst, worst_fraction) = drawdown_loop (map ro_pnl ordered_outcomes)
            (reference_balance config) (reference_balance config) 0 0
      in \<lparr>su_strategy_version = sc_version config, su_input_rows = input_rows, su_symbols = symbol_count,
          su_candidate_count = int (length candidates),
          su_accepted_count = int (count_list statuses Accepted),
          su_suppressed_count = int (count_list statuses Suppressed),
          su_outcome_counts = sorted_counts (map (\<lambda>i. outcome_name (ro_status i)) outcomes),
          su_score_bands = sorted_counts (map (\<lambda>i. score_band (ca_score (rn_candidate i))
            (minimum_score config) (strong_score config)) candidates),
          su_net_profit = dsum (map ro_pnl outcomes),
          su_profit_factor = (if negatives > 0 then Some (ddivn positives negatives) else None),
          su_maximum_drawdown = worst, su_maximum_drawdown_fraction = worst_fraction,
          su_ambiguity_count = int (length (filter ro_ambiguous outcomes))\<rparr>)"

section \<open>Resolution\<close>

lemma booked_fields:
  assumes "booked_outcome seq c plan status e r amb result = Inr x"
  shows "ro_status x = status" "ro_entered_at x = Some e" "ro_resolved_at x = Some r" "ro_ambiguous x = amb"
    "ro_pnl x = fst result" "ro_sequence x = seq" "ro_fees x = snd result" "ro_symbol x = ca_symbol c"
  using assms by (auto simp: booked_outcome_def split: prod.splits)

lemma stopped_fields:
  assumes "stopped_outcome seq c plan e r amb after_tp1 = Inr x"
  shows "ro_status x = (if amb then Out_Ambiguous else if after_tp1 then Out_Stopped_After_Tp1 else Out_Stopped)"
    "ro_entered_at x = Some e" "ro_resolved_at x = Some r" "ro_ambiguous x = amb" "ro_sequence x = seq"
    "amb \<Longrightarrow> ro_pnl x = dneg (tp_estimated_loss_at_stop plan)"
  using assms by (auto simp: stopped_outcome_def booked_fields split: if_splits dest: booked_fields)

lemma target_fields:
  assumes "target_outcome seq c plan e r = Inr x"
  shows "ro_status x = Out_Tp2" "ro_entered_at x = Some e" "ro_resolved_at x = Some r" "\<not> ro_ambiguous x" "ro_sequence x = seq"
  using assms by (auto simp: target_outcome_def dest: booked_fields)

lemma flat_fields [simp]:
  "ro_status (flat_outcome seq c s r e amb) = s" "ro_entered_at (flat_outcome seq c s r e amb) = e"
  "ro_resolved_at (flat_outcome seq c s r e amb) = r" "ro_ambiguous (flat_outcome seq c s r e amb) = amb"
  "ro_pnl (flat_outcome seq c s r e amb) = 0" "ro_sequence (flat_outcome seq c s r e amb) = seq"
  by (simp_all add: flat_outcome_def)

lemma resolve_rows_final:
  assumes "resolve_rows seq c plan e tp1 stop ms = Inr x" "ro_status x \<noteq> Out_Open"
  shows "resolve_rows seq c plan e tp1 stop (ms @ later) = Inr x"
  using assms
proof (induction seq c plan e tp1 stop ms rule: resolve_rows.induct)
  case (2 seq c plan tp1 stop m ms)
  then show ?case by (simp add: Let_def split: if_splits)
next
  case (3 seq c plan e tp1 stop m ms)
  then show ?case by (auto simp: Let_def split: if_splits)
qed (auto split: option.splits)

text \<open>The stop in force after some minutes of an open position.\<close>

definition in_force :: "trade_direction \<Rightarrow> trade_plan \<Rightarrow> candle_1m list \<Rightarrow> dec \<Rightarrow> bool" where
  "in_force dir plan ms stop =
     (if list_ex (\<lambda>m. tp1_hit dir plan (m1_low m) (m1_high m)) ms then plan_breakeven dir plan = Inr stop
      else stop = tp_stop_loss plan)"

definition ambiguous_ok :: "trade_plan \<Rightarrow> replay_outcome \<Rightarrow> bool" where
  "ambiguous_ok plan x \<longleftrightarrow> (ro_ambiguous x \<longrightarrow> ro_pnl x \<in> {0, dneg (tp_estimated_loss_at_stop plan)}) \<and>
     (ro_status x = Out_Ambiguous) = ro_ambiguous x"

lemma resolve_rows_ambiguous:
  "resolve_rows seq c plan e tp1 stop ms = Inr x \<Longrightarrow> ambiguous_ok plan x"
proof (induction seq c plan e tp1 stop ms rule: resolve_rows.induct)
  case (2 seq c plan tp1 stop m ms)
  then show ?case
    by (auto simp: Let_def ambiguous_ok_def stopped_fields split: if_splits dest: stopped_fields)
next
  case (3 seq c plan e tp1 stop m ms)
  then show ?case
    by (auto simp: Let_def ambiguous_ok_def split: if_splits dest: stopped_fields target_fields)
qed (auto simp: ambiguous_ok_def)

text \<open>What the minutes of an open position that ends at the second target look like.\<close>

lemma resolve_open_target:
  assumes "resolve_rows seq c plan (Some e) tp1 stop ms = Inr x" "ro_status x = Out_Tp2"
    and "in_force (ca_direction c) plan before stop"
    and "tp1 = list_ex (\<lambda>m. tp1_hit (ca_direction c) plan (m1_low m) (m1_high m)) before"
  shows "\<exists>mid m post. ms = mid @ m # post \<and> tp2_hit (ca_direction c) plan (m1_low m) (m1_high m) \<and>
     ro_entered_at x = Some e \<and> ro_resolved_at x = Some (m1_open_time m + one_minute) \<and>
     (\<forall>ys n zs s. mid @ [m] = ys @ n # zs \<longrightarrow> in_force (ca_direction c) plan (before @ ys) s \<longrightarrow>
        \<not> stop_hit (ca_direction c) s (m1_low n) (m1_high n)) \<and>
     (\<forall>n \<in> set mid. \<not> tp2_hit (ca_direction c) plan (m1_low n) (m1_high n))"
  using assms
proof (induction ms arbitrary: tp1 stop before)
  case (Cons m ms)
  let ?tp1 = "\<lambda>m. tp1_hit (ca_direction c) plan (m1_low m) (m1_high m)"
  let ?tp2 = "\<lambda>m. tp2_hit (ca_direction c) plan (m1_low m) (m1_high m)"
  have same: "s = stop" if "in_force (ca_direction c) plan before s" for s
    using that Cons.prems(3) by (auto simp: in_force_def split: if_splits)
  have not_stopped: "\<not> stop_hit (ca_direction c) stop (m1_low m) (m1_high m)"
    using Cons.prems(1,2) by (auto simp: Let_def split: if_splits dest: stopped_fields)
  show ?case
  proof (cases "?tp2 m")
    case True
    then have t: "target_outcome seq c plan e (m1_open_time m + one_minute) = Inr x"
      using Cons.prems(1) not_stopped by (simp add: Let_def)
    have "\<not> stop_hit (ca_direction c) s (m1_low n) (m1_high n)"
      if "[] @ [m] = ys @ n # zs" "in_force (ca_direction c) plan (before @ ys) s" for ys n zs s
      using that not_stopped same by (cases ys) auto
    then show ?thesis using True target_fields [OF t] by (intro exI [of _ "[]"] exI [of _ m] exI [of _ ms]) auto
  next
    case no_target: False
    define before' where "before' = before @ [m]"
    obtain stop' where run: "resolve_rows seq c plan (Some e) (tp1 \<or> ?tp1 m) stop' ms = Inr x"
        and stop': "in_force (ca_direction c) plan before' stop'"
    proof (cases "\<not> tp1 \<and> ?tp1 m")
      case True
      then obtain b where "plan_breakeven (ca_direction c) plan = Inr b"
          "resolve_rows seq c plan (Some e) True b ms = Inr x"
        using Cons.prems(1) not_stopped no_target by (auto simp: Let_def)
      then show thesis using True by (intro that [of b]) (auto simp: in_force_def before'_def)
    next
      case False
      then have "resolve_rows seq c plan (Some e) tp1 stop ms = Inr x"
        using Cons.prems(1) not_stopped no_target by (auto simp: Let_def)
      then show thesis using False Cons.prems(3,4)
        by (intro that [of stop]) (auto simp: in_force_def before'_def split: if_splits)
    qed
    have "(tp1 \<or> ?tp1 m) = list_ex ?tp1 before'" using Cons.prems(4) by (simp add: before'_def)
    from Cons.IH [OF run Cons.prems(2) stop' this]
    obtain mid n post where ih: "ms = mid @ n # post" "?tp2 n" "ro_entered_at x = Some e"
        "ro_resolved_at x = Some (m1_open_time n + one_minute)"
        "\<And>ys i zs s. mid @ [n] = ys @ i # zs \<Longrightarrow> in_force (ca_direction c) plan (before' @ ys) s \<Longrightarrow>
           \<not> stop_hit (ca_direction c) s (m1_low i) (m1_high i)"
        "\<forall>i \<in> set mid. \<not> ?tp2 i"
      by blast
    have "\<not> stop_hit (ca_direction c) s (m1_low i) (m1_high i)"
      if split: "(m # mid) @ [n] = ys @ i # zs" and "in_force (ca_direction c) plan (before @ ys) s" for ys i zs s
    proof (cases ys)
      case Nil
      then show ?thesis using that same not_stopped by auto
    next
      case (Cons y ys')
      then show ?thesis using that ih(5) [of ys' i zs s] by (simp add: before'_def)
    qed
    then show ?thesis using ih(1-4,6) no_target
      by (intro exI [of _ "m # mid"] exI [of _ n] exI [of _ post]) auto
  qed
qed auto

lemma resolve_wait_target:
  assumes "resolve_rows seq c plan None False stop ms = Inr x" "ro_status x = Out_Tp2"
  shows "\<exists>pre e rest. ms = pre @ e # rest \<and>
     (\<forall>n \<in> set pre. \<not> touches_entry plan (m1_low n) (m1_high n)) \<and> m1_open_time e < ca_expires_at c \<and>
     touches_entry plan (m1_low e) (m1_high e) \<and> \<not> stop_hit (ca_direction c) stop (m1_low e) (m1_high e) \<and>
     \<not> tp1_hit (ca_direction c) plan (m1_low e) (m1_high e) \<and>
     resolve_rows seq c plan (Some (m1_open_time e)) False stop rest = Inr x"
  using assms
proof (induction ms)
  case (Cons m ms)
  show ?case
  proof (cases "touches_entry plan (m1_low m) (m1_high m)")
    case True
    then show ?thesis using Cons.prems
      by (intro exI [of _ "[]"] exI [of _ m] exI [of _ ms]) (auto simp: Let_def split: if_splits dest: stopped_fields)
  next
    case False
    then have "resolve_rows seq c plan None False stop ms = Inr x"
      using Cons.prems by (auto simp: Let_def split: if_splits)
    from Cons.IH [OF this Cons.prems(2)] obtain pre e rest where
      "ms = pre @ e # rest" "\<forall>n \<in> set pre. \<not> touches_entry plan (m1_low n) (m1_high n)" "m1_open_time e < ca_expires_at c"
      "touches_entry plan (m1_low e) (m1_high e)" "\<not> stop_hit (ca_direction c) stop (m1_low e) (m1_high e)"
      "\<not> tp1_hit (ca_direction c) plan (m1_low e) (m1_high e)"
      "resolve_rows seq c plan (Some (m1_open_time e)) False stop rest = Inr x" by blast
    with False show ?thesis
      by (intro exI [of _ "m # pre"] exI [of _ e] exI [of _ rest]) auto
  qed
qed auto

lemma resolve_candidateE:
  assumes "resolve_candidate seq c rows = Inr x"
  obtains plan where "ca_trade_plan c = Some plan" "ca_status c = Accepted"
    "resolve_rows seq c plan None False (tp_stop_loss plan) (future_minutes c rows) = Inr x"
  using assms by (auto simp: resolve_candidate_def split: option.splits if_splits)

lemma candidate_loss_nonneg:
  assumes "evaluate_direction inp dir k = Inr c" "ca_trade_plan c = Some plan" "0 \<le> mc_taker_fee_rate (si_market inp)"
  shows "0 \<le> tp_estimated_loss_at_stop plan"
proof -
  obtain ws rs where cp: "candidate_plan inp dir k = Inr (Some plan, ws, rs)"
    using assms(1,2) by (elim evaluate_directionE) auto
  obtain lower upper atr target ws' where p: "build_trade_plan dir lower upper atr target (mc_taker_fee_rate (si_market inp))
        (mc_instrument_max_leverage (si_market inp)) (mc_instrument_quantity_step (si_market inp))
        (mc_instrument_min_notional (si_market inp)) k = Inr (Some plan, ws')"
    using candidate_plan_outcome(2) [OF cp] by blast
  from p show ?thesis
  proof (rule build_trade_planD)
    fix planned stop risk reward net_risk net_reward
    assume h: "0 < lower" "lower < upper" "planned = dhalf (dadd lower upper)" "0 < stop" "0 < risk"
        "net_risk = dadd (dadd risk (dmul planned (mc_taker_fee_rate (si_market inp)))) (dmul stop (mc_taker_fee_rate (si_market inp)))"
        "0 < plan_sizing k net_risk (mc_instrument_quantity_step (si_market inp))"
      and f: "finish_plan dir lower upper planned stop risk reward target net_risk net_reward
         (dmul planned (mc_taker_fee_rate (si_market inp))) (dmul target (mc_taker_fee_rate (si_market inp)))
         (mc_instrument_max_leverage (si_market inp)) (plan_sizing k net_risk (mc_instrument_quantity_step (si_market inp)))
         (dmul (plan_sizing k net_risk (mc_instrument_quantity_step (si_market inp))) planned) k = Inr (Some plan, ws')"
    have "0 < net_risk" unfolding h(6) using h(1-5) assms(3) planned_pos by (intro net_risk_pos) simp_all
    then show ?thesis using h(7) finish_planD(12) [OF f] by (simp add: dmul_nonneg)
  qed
qed

section \<open>The balance curve\<close>

fun balances :: "dec \<Rightarrow> dec list \<Rightarrow> dec list" where
  "balances b [] = [b]"
| "balances b (p # ps) = b # balances (dadd b p) ps"

fun falls :: "dec list \<Rightarrow> dec set" where
  "falls [] = {}"
| "falls (b # bs) = dsub b ` set (b # bs) \<union> falls bs"

lemma falls_iff: "d \<in> falls bs \<longleftrightarrow> (\<exists>i j. i \<le> j \<and> j < length bs \<and> d = dsub (bs ! i) (bs ! j))"
proof (induction bs)
  case (Cons b bs)
  have "(\<exists>i j. i \<le> j \<and> j < length (b # bs) \<and> d = dsub ((b # bs) ! i) ((b # bs) ! j)) \<longleftrightarrow>
      (\<exists>j < length (b # bs). d = dsub b ((b # bs) ! j)) \<or> (\<exists>i j. i \<le> j \<and> j < length bs \<and> d = dsub (bs ! i) (bs ! j))"
    (is "?l \<longleftrightarrow> ?r1 \<or> ?r2")
  proof
    assume ?l
    then obtain i j where ij: "i \<le> j" "j < length (b # bs)" "d = dsub ((b # bs) ! i) ((b # bs) ! j)" by blast
    show "?r1 \<or> ?r2"
    proof (cases i)
      case 0
      then show ?thesis using ij by (intro disjI1) auto
    next
      case (Suc i')
      then obtain j' where "j = Suc j'" using ij(1) by (cases j) auto
      then show ?thesis using ij Suc by (intro disjI2 exI [of _ i'] exI [of _ j']) auto
    qed
  next
    assume "?r1 \<or> ?r2"
    then show ?l
    proof
      assume ?r1
      then show ?l by (metis le0 nth_Cons_0)
    next
      assume ?r2
      then obtain i j where "i \<le> j" "j < length bs" "d = dsub (bs ! i) (bs ! j)" by blast
      then show ?l by (intro exI [of _ "Suc i"] exI [of _ "Suc j"]) auto
    qed
  qed
  moreover have "d \<in> dsub b ` set (b # bs) \<longleftrightarrow> ?r1" unfolding image_iff Bex_def in_set_conv_nth by blast
  ultimately show ?case using Cons.IH unfolding falls.simps Un_iff by blast
qed simp

lemma falls_finite: "finite (falls bs)" by (induction bs) auto

lemma balances_Cons: "balances b ps = b # tl (balances b ps)" by (cases ps) auto

lemma dsub_max: "dsub (max p b) x \<le> v \<longleftrightarrow> dsub p x \<le> v \<and> dsub b x \<le> v"
  using dsub_mono [of p b x x] dsub_mono [of b p x x] by (auto simp: max_def)

lemma drawdown_loop_le:
  "fst (drawdown_loop ps b peak worst w) \<le> v \<longleftrightarrow> worst \<le> v \<and> (\<forall>d \<in> falls (tl (balances b ps)). d \<le> v) \<and>
     (\<forall>x \<in> set (tl (balances b ps)). dsub peak x \<le> v)"
proof (induction ps arbitrary: b peak worst w)
  case (Cons p ps)
  define b' where "b' = dadd b p"
  have bs: "tl (balances b (p # ps)) = b' # tl (balances b' ps)"
    using balances_Cons [of b' ps] by (simp add: b'_def)
  have "fst (drawdown_loop (p # ps) b peak worst w) \<le> v \<longleftrightarrow> max worst (dsub (max peak b') b') \<le> v \<and>
      (\<forall>d \<in> falls (tl (balances b' ps)). d \<le> v) \<and> (\<forall>x \<in> set (tl (balances b' ps)). dsub (max peak b') x \<le> v)"
    by (simp only: drawdown_loop.simps Let_def Cons.IH b'_def)
  then show ?case unfolding bs by (simp add: dsub_max ball_Un) blast
qed simp

lemma drawdown_loop_Max: "fst (drawdown_loop ps b b 0 w) = Max (falls (balances b ps))"
proof -
  have fall: "falls (balances b ps) = insert (dsub b b) (dsub b ` set (tl (balances b ps))) \<union> falls (tl (balances b ps))"
    by (subst balances_Cons) (simp only: falls.simps list.set image_insert)
  have ne: "falls (balances b ps) \<noteq> {}" by (simp add: fall)
  have "fst (drawdown_loop ps b b 0 w) \<le> v \<longleftrightarrow> Max (falls (balances b ps)) \<le> v" for v
    unfolding drawdown_loop_le Max_le_iff [OF falls_finite ne] unfolding fall by (auto simp: dsub_def)
  then show ?thesis by (metis order_antisym order_refl)
qed

section \<open>Counts and the profit factor\<close>

lemma sorted_counts_total: "sum_list (map snd (sorted_counts xs)) = int (length xs)"
proof -
  have "sum_list (map (\<lambda>x. int (count_list xs x)) (sort (dedup xs))) = (\<Sum>x \<in> set xs. int (count_list xs x))"
    by (simp add: sum_list_distinct_conv_sum_set)
  also have "\<dots> = int (\<Sum>x \<in> set xs. count_list xs x)" by simp
  also have "\<dots> = int (length xs)" by (simp add: sum_count_set)
  finally show ?thesis by (simp add: sorted_counts_def comp_def)
qed

lemma sorted_counts_lookup: "map_of (sorted_counts xs) x = (if x \<in> set xs then Some (int (count_list xs x)) else None)"
  by (auto simp: sorted_counts_def map_of_map_restrict restrict_map_def)

lemma count_two: "count_list xs Accepted + count_list xs Suppressed = length xs"
proof (induction xs)
  case (Cons x xs)
  then show ?case by (cases x) simp_all
qed simp

lemma dsum_extra_losses:
  "foldl dadd a (filter (\<lambda>x. x < 0) (map f xs)) \<le> foldl dadd a' (filter (\<lambda>x. x < 0) (map f (filter P xs)))"
  if "a \<le> a'" "rnd a = a" for a a' :: dec
  using that
proof (induction xs arbitrary: a a')
  case (Cons x xs)
  have r: "rnd (dadd a y) = dadd a y" for y by (simp add: dadd_def)
  have le: "dadd a y \<le> a'" if "y < 0" for y
  proof -
    have "dadd a y \<le> rnd a" unfolding dadd_def using that by (intro rnd_mono) simp
    then show ?thesis using Cons.prems by simp
  qed
  show ?case
  proof (cases "f x < 0")
    case True
    then show ?thesis
      using Cons.IH [OF dadd_mono [OF Cons.prems(1) order_refl [of "f x"]] r] Cons.IH [OF le [OF True] r] by simp
  next
    case False
    then show ?thesis using Cons by simp
  qed
qed simp

section \<open>Properties\<close>

text \<open>A resolved outcome is final: once a candidate has been resolved as anything but open, minutes that
  follow do not change its outcome, so the result of a trade never depends on what came after its end.\<close>

theorem resolved_outcome_is_final:
  assumes "resolve_candidate seq c rows = Inr x" "ro_status x \<noteq> Out_Open"
  shows "resolve_candidate seq c (rows @ later) = Inr x"
  using assms(1)
proof (rule resolve_candidateE)
  fix plan
  assume h: "ca_trade_plan c = Some plan" "ca_status c = Accepted"
    "resolve_rows seq c plan None False (tp_stop_loss plan) (future_minutes c rows) = Inr x"
  then show ?thesis using resolve_rows_final [OF h(3) assms(2)]
    by (simp add: resolve_candidate_def future_minutes_def)
qed

definition sample_plan :: trade_plan where
  "sample_plan = \<lparr>tp_entry_lower = 99, tp_entry_upper = 101, tp_planned_entry = 100, tp_stop_loss = 95,
     tp_take_profit_1 = 105, tp_take_profit_2 = 110, tp_gross_reward_to_risk = 2, tp_net_reward_to_risk = 2,
     tp_risk_amount = 12, tp_quantity = 2, tp_notional = 200, tp_recommended_leverage = 2, tp_estimated_margin = 100,
     tp_estimated_entry_fee = 1/5, tp_estimated_exit_fee = 11/50, tp_estimated_loss_at_stop = 1039/100,
     tp_invalidation = Close_Below 95\<rparr>"

definition sample_resolved :: signal_candidate where
  "sample_resolved = \<lparr>ca_symbol = ''BTCUSDT'', ca_direction = Long, ca_strategy_version = ''v1'', ca_status = Accepted,
     ca_score = 80, ca_strength = Standard, ca_components = [], ca_evidence = [], ca_warnings = [],
     ca_suppression_reasons = [], ca_trade_plan = Some sample_plan, ca_analyzed_at = 0, ca_expires_at = minutes 90\<rparr>"

definition minute_row :: "int \<Rightarrow> dec \<Rightarrow> dec \<Rightarrow> replay_row" where
  "minute_row i low high = \<lparr>rw_candle = \<lparr>m1_symbol = ''BTCUSDT'', m1_open_time = minutes i, m1_open = low, m1_high = high,
     m1_low = low, m1_close = high, m1_volume = 1, m1_turnover = 100\<rparr>, rw_open_interest = None, rw_funding_rate = None,
     rw_spread_bps = None, rw_turnover_24h_usdt = None, rw_instrument_max_leverage = None,
     rw_instrument_quantity_step = None, rw_instrument_min_notional = None\<rparr>"

definition winning_rows :: "replay_row list" where
  "winning_rows = [minute_row 0 102 104, minute_row 1 100 103, minute_row 2 101 104, minute_row 3 104 111]"

lemma winning_outcome: "rmap ro_status (resolve_candidate 1 sample_resolved winning_rows) = Inr Out_Tp2"
  by (simp add: resolve_candidate_def sample_resolved_def future_minutes_def winning_rows_def minute_row_def sample_plan_def
      gapped_beyond_stop_def touches_entry_def stop_hit_def tp1_hit_def tp2_hit_def target_outcome_def booked_outcome_def
      minutes_def ddiv_def split: prod.splits)

lemma resolved_outcome_is_final_witness:
  "rmap ro_status (resolve_candidate 1 sample_resolved (winning_rows @ [minute_row 4 90 91])) = Inr Out_Tp2"
proof -
  obtain x where "resolve_candidate 1 sample_resolved winning_rows = Inr x" "ro_status x = Out_Tp2"
    using winning_outcome by auto
  then show ?thesis using resolved_outcome_is_final [of 1 sample_resolved winning_rows x "[minute_row 4 90 91]"] by simp
qed

text \<open>C25: Wins are earned: an outcome at the second target comes from minutes in which the price first left
  the entry zone alone, then entered it before the expiry without reaching the stop or the first target in that
  minute, and then reached the second target while no minute up to and including that one touched the stop in
  force, which is the planned stop until the first target and the break-even price after it.\<close>

theorem target_outcomes_are_earned:
  assumes "resolve_candidate seq c rows = Inr x" "ro_status x = Out_Tp2" "ca_trade_plan c = Some plan"
  shows "\<exists>pre e mid m post. future_minutes c rows = pre @ e # mid @ m # post \<and>
     (\<forall>n \<in> set pre. \<not> touches_entry plan (m1_low n) (m1_high n)) \<and>
     touches_entry plan (m1_low e) (m1_high e) \<and> m1_open_time e < ca_expires_at c \<and>
     \<not> stop_hit (ca_direction c) (tp_stop_loss plan) (m1_low e) (m1_high e) \<and>
     \<not> tp1_hit (ca_direction c) plan (m1_low e) (m1_high e) \<and>
     tp2_hit (ca_direction c) plan (m1_low m) (m1_high m) \<and>
     (\<forall>ys n zs s. mid @ [m] = ys @ n # zs \<longrightarrow> in_force (ca_direction c) plan ys s \<longrightarrow>
        \<not> stop_hit (ca_direction c) s (m1_low n) (m1_high n)) \<and>
     ro_entered_at x = Some (m1_open_time e) \<and> ro_resolved_at x = Some (m1_open_time m + one_minute)"
proof -
  have run: "resolve_rows seq c plan None False (tp_stop_loss plan) (future_minutes c rows) = Inr x"
    using assms(1,3) by (elim resolve_candidateE) simp
  obtain pre e rest where w: "future_minutes c rows = pre @ e # rest"
      "\<forall>n \<in> set pre. \<not> touches_entry plan (m1_low n) (m1_high n)" "m1_open_time e < ca_expires_at c"
      "touches_entry plan (m1_low e) (m1_high e)" "\<not> stop_hit (ca_direction c) (tp_stop_loss plan) (m1_low e) (m1_high e)"
      "\<not> tp1_hit (ca_direction c) plan (m1_low e) (m1_high e)"
      "resolve_rows seq c plan (Some (m1_open_time e)) False (tp_stop_loss plan) rest = Inr x"
    using resolve_wait_target [OF run assms(2)] by blast
  have "in_force (ca_direction c) plan [] (tp_stop_loss plan)" by (simp add: in_force_def)
  from resolve_open_target [OF w(7) assms(2) this] obtain mid m post where t: "rest = mid @ m # post"
      "tp2_hit (ca_direction c) plan (m1_low m) (m1_high m)" "ro_entered_at x = Some (m1_open_time e)"
      "ro_resolved_at x = Some (m1_open_time m + one_minute)"
      "\<forall>ys n zs s. mid @ [m] = ys @ n # zs \<longrightarrow> in_force (ca_direction c) plan ys s \<longrightarrow>
        \<not> stop_hit (ca_direction c) s (m1_low n) (m1_high n)"
    by auto
  show ?thesis
    using w t by (intro exI [of _ pre] exI [of _ e] exI [of _ mid] exI [of _ m] exI [of _ post]) auto
qed

lemma target_outcomes_are_earned_witness:
  "\<exists>pre e mid m post. future_minutes sample_resolved winning_rows = pre @ e # mid @ m # post \<and>
     touches_entry sample_plan (m1_low e) (m1_high e) \<and> tp2_hit Long sample_plan (m1_low m) (m1_high m)"
proof -
  obtain x where x: "resolve_candidate 1 sample_resolved winning_rows = Inr x" "ro_status x = Out_Tp2"
    using winning_outcome by auto
  have c: "ca_trade_plan sample_resolved = Some sample_plan" "ca_direction sample_resolved = Long"
    by (simp_all add: sample_resolved_def)
  show ?thesis using target_outcomes_are_earned [OF x c(1)] unfolding c(2) by blast
qed

text \<open>The maximum drawdown of a report is the largest fall of the balance from any earlier point of the
  curve to any later one, in the order in which the trades were resolved.\<close>

theorem drawdown_is_the_largest_fall:
  "su_maximum_drawdown (build_summary config n s cs xs) =
     (let curve = balances (reference_balance config) (map ro_pnl (sort_key resolution_key xs)) in
      Max {dsub (curve ! i) (curve ! j) | i j. i \<le> j \<and> j < length curve})"
proof -
  have "{dsub (curve ! i) (curve ! j) | i j. i \<le> j \<and> j < length curve} = falls curve" for curve
    using falls_iff [of _ curve] by blast
  then show ?thesis
    by (simp add: build_summary_def Let_def drawdown_loop_Max flip: drawdown_loop_Max split: prod.splits)
       (metis drawdown_loop_Max fst_conv)
qed

text \<open>The counts of a report add up: every candidate is accepted or suppressed and in one score band,
  every outcome is under one status, and removing the ambiguous outcomes never lowers the number of wins.\<close>

theorem summary_counts_add_up:
  "let s = build_summary config n m cs xs in
     su_accepted_count s + su_suppressed_count s = su_candidate_count s \<and>
     sum_list (map snd (su_score_bands s)) = su_candidate_count s \<and>
     sum_list (map snd (su_outcome_counts s)) = int (length xs) \<and>
     su_ambiguity_count s \<le> int (length xs)"
proof -
  have "int (count_list (map (\<lambda>i. ca_status (rn_candidate i)) cs) Accepted) +
      int (count_list (map (\<lambda>i. ca_status (rn_candidate i)) cs) Suppressed) = int (length cs)"
    using count_two [of "map (\<lambda>i. ca_status (rn_candidate i)) cs"] by (metis length_map of_nat_add)
  then show ?thesis
    by (simp add: build_summary_def Let_def sorted_counts_total split: prod.splits)
qed

text \<open>Ambiguous outcomes never help: whatever candidates are resolved, as long as their plans lose at the
  stop, every ambiguous outcome is booked without a profit, and a report without them never has a smaller
  profit factor.\<close>

theorem ambiguous_outcomes_never_help:
  assumes "\<forall>x \<in> set xs. \<exists>seq c rows plan. resolve_candidate seq c rows = Inr x \<and> ca_trade_plan c = Some plan \<and>
      0 \<le> tp_estimated_loss_at_stop plan"
    and "su_profit_factor (build_summary config n m cs xs) = Some f"
    and "su_profit_factor (build_summary config n m cs (filter (\<lambda>x. \<not> ro_ambiguous x) xs)) = Some g"
  shows "(\<forall>x \<in> set xs. ro_ambiguous x \<longrightarrow> ro_pnl x \<le> 0) \<and> f \<le> g"
proof -
  have amb: "ro_pnl x \<le> 0" if x: "x \<in> set xs" "ro_ambiguous x" for x
  proof -
    obtain seq c rows plan where c: "resolve_candidate seq c rows = Inr x" "ca_trade_plan c = Some plan"
        "0 \<le> tp_estimated_loss_at_stop plan"
      using assms(1) x(1) by blast
    have "resolve_rows seq c plan None False (tp_stop_loss plan) (future_minutes c rows) = Inr x"
      using c(1,2) by (elim resolve_candidateE) simp
    from resolve_rows_ambiguous [OF this] x(2) c(3) show ?thesis by (auto simp: ambiguous_ok_def dneg_def)
  qed
  define clear where "clear = filter (\<lambda>x. \<not> ro_ambiguous x) xs"
  define losses where "losses = (\<lambda>ys :: replay_outcome list. dsum (map ro_pnl (filter (\<lambda>i. ro_pnl i < 0) ys)))"
  have wins: "filter (\<lambda>i. ro_pnl i > 0) clear = filter (\<lambda>i. ro_pnl i > 0) xs"
  proof -
    have "\<not> ro_ambiguous i" if i: "i \<in> set xs" "ro_pnl i > 0" for i using amb [OF i(1)] i(2) by auto
    then show ?thesis by (auto simp: clear_def intro!: filter_cong)
  qed
  have "losses xs \<le> losses clear"
    using dsum_extra_losses [where a = 0 and a' = 0 and xs = xs and f = ro_pnl and P = "\<lambda>x. \<not> ro_ambiguous x"]
    by (simp add: losses_def dsum_def clear_def filter_map comp_def)
  moreover have "losses ys \<le> 0" for ys
  proof -
    have "losses ys \<le> foldl dadd 0 (filter (\<lambda>x. x < 0) (map ro_pnl (filter (\<lambda>_. False) ys)))"
      using dsum_extra_losses [where a = 0 and a' = 0 and xs = ys and f = ro_pnl and P = "\<lambda>_. False"] by (simp add: losses_def dsum_def filter_map comp_def)
    then show ?thesis by simp
  qed
  ultimately have "dabs (losses clear) \<le> dabs (losses xs)" by (auto simp: dabs_def intro!: rnd_mono)
  moreover have "0 \<le> dsum (map ro_pnl (filter (\<lambda>i. ro_pnl i > 0) xs))" by (intro dsum_nonneg) auto
  moreover have "f = ddivn (dsum (map ro_pnl (filter (\<lambda>i. ro_pnl i > 0) xs))) (dabs (losses xs))"
    using assms(2) by (auto simp: build_summary_def losses_def Let_def split: prod.splits if_splits)
  moreover have "g = ddivn (dsum (map ro_pnl (filter (\<lambda>i. ro_pnl i > 0) xs))) (dabs (losses clear))"
      "0 < dabs (losses clear)"
    using assms(3) wins by (auto simp: build_summary_def losses_def Let_def clear_def split: prod.splits if_splits)
  ultimately have "f \<le> g" unfolding ddivn_def by (auto intro!: rnd_mono divide_left_mono)
  with amb show ?thesis by blast
qed

lemmas resolve_eval = resolve_candidate_def sample_resolved_def future_minutes_def minute_row_def sample_plan_def
  gapped_beyond_stop_def touches_entry_def stop_hit_def tp1_hit_def tp2_hit_def booked_outcome_def minutes_def ddiv_def

definition losing_rows :: "replay_row list" where
  "losing_rows = [minute_row 1 100 103, minute_row 2 94 96]"

definition ambiguous_rows :: "replay_row list" where
  "ambiguous_rows = [minute_row 1 100 103, (minute_row 2 94 111)]"

lemma losing_outcomes:
  "rmap (\<lambda>x. (ro_pnl x, ro_ambiguous x)) (resolve_candidate 2 sample_resolved losing_rows) = Inr (- (1039/100), False)"
  "rmap (\<lambda>x. (ro_pnl x, ro_ambiguous x)) (resolve_candidate 3 sample_resolved ambiguous_rows) = Inr (- (1039/100), True)"
proof -
  have "dneg (1039/100) = - (1039/100)" by code_simp
  then show "rmap (\<lambda>x. (ro_pnl x, ro_ambiguous x)) (resolve_candidate 2 sample_resolved losing_rows) = Inr (- (1039/100), False)"
    "rmap (\<lambda>x. (ro_pnl x, ro_ambiguous x)) (resolve_candidate 3 sample_resolved ambiguous_rows) = Inr (- (1039/100), True)"
    by (simp_all add: resolve_eval losing_rows_def ambiguous_rows_def stopped_outcome_def)
qed

lemma ambiguous_outcomes_never_help_witness:
  "\<exists>x y. resolve_candidate 2 sample_resolved losing_rows = Inr x \<and> resolve_candidate 3 sample_resolved ambiguous_rows = Inr y \<and>
     ro_ambiguous y \<and> ro_pnl y \<le> 0 \<and>
     the (su_profit_factor (build_summary default_strategy_config 0 1 [] [x, y])) \<le>
     the (su_profit_factor (build_summary default_strategy_config 0 1 [] [x]))"
proof -
  obtain x y where x: "resolve_candidate 2 sample_resolved losing_rows = Inr x" "ro_pnl x = - (1039/100)" "\<not> ro_ambiguous x"
      and y: "resolve_candidate 3 sample_resolved ambiguous_rows = Inr y" "ro_pnl y = - (1039/100)" "ro_ambiguous y"
    using losing_outcomes by auto
  have "ca_trade_plan sample_resolved = Some sample_plan" "0 \<le> tp_estimated_loss_at_stop sample_plan"
    by (simp_all add: sample_resolved_def sample_plan_def)
  then have ok: "\<forall>z \<in> set [x, y]. \<exists>seq c rows plan. resolve_candidate seq c rows = Inr z \<and> ca_trade_plan c = Some plan \<and>
      0 \<le> tp_estimated_loss_at_stop plan"
    using x(1) y(1) unfolding set_simps ball_simps by blast
  have neg: "0 < dabs (dsum [- (1039/100)])" "0 < dabs (dsum [- (1039/100), - (1039/100)])" by code_simp+
  have "\<exists>f. su_profit_factor (build_summary default_strategy_config 0 1 [] [x, y]) = Some f"
    "\<exists>g. su_profit_factor (build_summary default_strategy_config 0 1 [] [x]) = Some g"
    using x(2) y(2) neg by (simp_all add: build_summary_def Let_def split: prod.splits)
  then obtain f g where "su_profit_factor (build_summary default_strategy_config 0 1 [] [x, y]) = Some f"
    "su_profit_factor (build_summary default_strategy_config 0 1 [] (filter (\<lambda>z. \<not> ro_ambiguous z) [x, y])) = Some g"
    using x(3) y(3) by auto
  with ambiguous_outcomes_never_help [OF ok] x y show ?thesis by auto
qed

text \<open>The resolver of the replay and the candle fallback of the live service differ: a minute after the first
  target that contains the break-even stop and the second target is booked at the full loss of the plan here, and
  at break-even there.\<close>

definition live_state_of_plan :: lifecycle_state where
  "live_state_of_plan = \<lparr>lc_signal_id = 1, lc_symbol = ''BTCUSDT'', lc_direction = Long, lc_status = Sg_Tp1_Reached,
     lc_entry_lower = 99, lc_entry_upper = 101, lc_planned_entry = 100, lc_stop_loss = 95,
     lc_take_profit_1 = 105, lc_take_profit_2 = 110, lc_quantity = 2, lc_risk_amount = 12,
     lc_taker_fee_rate = 1/1000, lc_expires_at = minutes 90, lc_current_stop = 101, lc_funding_rate = 0,
     lc_funding_interval_minutes = 480, lc_entered_at = Some 0, lc_tp1_reached_at = Some 0\<rparr>"

lemma replay_and_live_differ:
  "rmap (\<lambda>x. (ro_status x, ro_pnl x)) (resolve_rows 1 sample_resolved sample_plan (Some 0) True 101 [rw_candle (minute_row 2 94 111)])
     = Inr (Out_Ambiguous, - (1039/100)) \<and>
   (\<exists>a. evaluate_closed_candle live_state_of_plan (rw_candle (minute_row 2 94 111)) = Inr [a] \<and>
      la_target a = Sg_Ambiguous \<and> (\<exists>p. la_realized_pnl a = Some p \<and> 0 < p))"
proof -
  have n: "dneg (1039/100) = - (1039/100)" by code_simp
  have p: "0 < fst (tp1_then_exit live_state_of_plan 101)" by code_simp
  have "\<exists>a. evaluate_closed_candle live_state_of_plan (rw_candle (minute_row 2 94 111)) = Inr [a] \<and>
      la_target a = Sg_Ambiguous \<and> la_realized_pnl a = Some (fst (tp1_then_exit live_state_of_plan 101))"
  proof -
    let ?t = "synthetic_trade (rw_candle (minute_row 2 94 111)) (lc_current_stop live_state_of_plan)"
    have "evaluate_closed_candle live_state_of_plan (rw_candle (minute_row 2 94 111)) =
        ambiguous_stop live_state_of_plan ?t ''fallback_ambiguous_breakeven''"
      by (simp add: evaluate_closed_candle_def live_state_of_plan_def minute_row_def touches_stop_def touches_target_def)
    then show ?thesis
      using ambiguous_stop_books_stop [of live_state_of_plan ?t "''fallback_ambiguous_breakeven''"]
      by (auto simp: live_state_of_plan_def synthetic_trade_def minute_row_def)
  qed
  with p n show ?thesis
    by (auto simp: resolve_eval stopped_outcome_def)
qed

end
