(* ===== verification/Replay.thy ===== *)
theory Replay
  imports Replay_Outcomes Market_Data
begin

text \<open>
  \<open>src/src/crypto_smc/replay/runner.py\<close>: the offline replay. It aggregates the minutes of all symbols, walks over
  the closes of the five-minute candles in the order of time, evaluates both directions at each close on what is
  visible then, and resolves the accepted candidates afterwards. The loop keeps the last open interest of each
  symbol, a cache of the state of bitcoin and the running number of the candidates.
\<close>

section \<open>Configuration\<close>

record replay_config =
  history_candles :: int
  minimum_history_candles :: int
  default_max_leverage :: dec
  default_quantity_step :: dec
  default_min_notional :: dec

definition default_replay_config :: replay_config where
  "default_replay_config = \<lparr>history_candles = 300, minimum_history_candles = 30, default_max_leverage = 100,
     default_quantity_step = 1 / 10 ^ 8, default_min_notional = 0\<rparr>"

definition mk_replay_config :: "replay_config \<Rightarrow> replay_config res" where
  "mk_replay_config k =
     rbind (raise_if (history_candles k < minimum_history_candles k)
       (ValueError ''history_candles cannot be below minimum_history_candles'')) (\<lambda>_.
     rbind (raise_if (minimum_history_candles k < 1) (ValueError ''minimum_history_candles must be positive'')) (\<lambda>_.
     rbind (raise_if (default_max_leverage k < 1) (ValueError ''instrument_max_leverage must be at least one'')) (\<lambda>_.
     rbind (raise_if (default_quantity_step k \<le> 0) (ValueError ''instrument_quantity_step must be positive'')) (\<lambda>_.
     rbind (raise_if (default_min_notional k < 0) (ValueError ''instrument_min_notional cannot be negative'')) (\<lambda>_.
     Inr k)))))"

definition replay_timeframes :: "timeframe list" where
  "replay_timeframes = [TF_4h, TF_1h, TF_15m, TF_5m]"

section \<open>What is visible at a moment\<close>

text \<open>\<open>bisect.bisect_right\<close>.\<close>

function bisect_loop :: "'a :: linorder list \<Rightarrow> 'a \<Rightarrow> nat \<Rightarrow> nat \<Rightarrow> nat" where
  "bisect_loop xs x lo hi =
     (if lo < hi then
        let mid = (lo + hi) div 2 in
        if x < xs ! mid then bisect_loop xs x lo mid else bisect_loop xs x (mid + 1) hi
      else lo)"
  by pat_completeness auto
termination by (relation "measure (\<lambda>(xs, x, lo, hi). hi - lo)") auto

declare bisect_loop.simps [simp del]

definition bisect_right :: "'a :: linorder list \<Rightarrow> 'a \<Rightarrow> nat" where
  "bisect_right xs x = bisect_loop xs x 0 (length xs)"

type_synonym aggregate_series = "(string \<times> (timeframe \<times> candle list) list) list"
type_synonym close_times = "(string \<times> (timeframe \<times> instant list) list) list"

definition aggregate_close_times :: "aggregate_series \<Rightarrow> close_times" where
  "aggregate_close_times aggregates =
     map (\<lambda>(symb, timeframe_map). (symb, map (\<lambda>(tf, series). (tf, map c_close_time series)) timeframe_map)) aggregates"

definition lookup2 :: "(string \<times> (timeframe \<times> 'a list) list) list \<Rightarrow> string \<Rightarrow> timeframe \<Rightarrow> 'a list" where
  "lookup2 d symb tf = the (map_of (the (map_of d symb)) tf)"

definition history_at :: "candle list \<Rightarrow> instant list \<Rightarrow> instant \<Rightarrow> replay_config \<Rightarrow> candle list" where
  "history_at series closes clock config =
     (let stop = int (bisect_right closes clock);
          start = max 0 (stop - history_candles config)
      in drop (nat start) (take (nat stop) series))"

fun histories_loop ::
  "timeframe list \<Rightarrow> string \<Rightarrow> instant \<Rightarrow> aggregate_series \<Rightarrow> close_times \<Rightarrow> replay_config \<Rightarrow>
   (timeframe \<times> candle list) list option" where
  "histories_loop [] symb clock aggregates closes config = Some []"
| "histories_loop (tf # tfs) symb clock aggregates closes config =
     (let history = history_at (lookup2 aggregates symb tf) (lookup2 closes symb tf) clock config in
      if int (length history) < minimum_history_candles config then None
      else map_option ((#) (tf, history)) (histories_loop tfs symb clock aggregates closes config))"

definition histories_at ::
  "string \<Rightarrow> instant \<Rightarrow> aggregate_series \<Rightarrow> close_times \<Rightarrow> replay_config \<Rightarrow> (timeframe \<times> candle list) list option" where
  "histories_at = histories_loop replay_timeframes"

definition latest_market_row :: "replay_row list \<Rightarrow> instant list \<Rightarrow> instant \<Rightarrow> replay_row option" where
  "latest_market_row rows closes clock =
     (let i = int (bisect_right closes clock) - 1 in if i \<ge> 0 then Some (rows ! nat i) else None)"

definition latest_volume_ratio :: "candle list \<Rightarrow> dec option res" where
  "latest_volume_ratio cs =
     (if length cs \<le> 20 then Inr None
      else
        let recent = drop (length cs - 21) (butlast cs) in
        rbind (ddiv (dsum (map c_volume recent)) 20) (\<lambda>baseline.
        if baseline > 0 then rmap Some (ddiv (c_volume (last cs)) baseline) else Inr None))"

definition btc_state_at ::
  "instant \<Rightarrow> aggregate_series \<Rightarrow> close_times \<Rightarrow> replay_config \<Rightarrow> strategy_config \<Rightarrow> (dec option \<times> dec option) res" where
  "btc_state_at clock aggregates closes config settings =
     (if map_of aggregates ''BTCUSDT'' = None then Inr (None, None)
      else case histories_at ''BTCUSDT'' clock aggregates closes config of
        None \<Rightarrow> Inr (None, None)
      | Some histories \<Rightarrow>
          let series = the (map_of histories TF_5m); c = last series in
          rbind (if c_open c > 0 then rmap Some (ddiv (dsub (c_close c) (c_open c)) (c_open c)) else Inr None) (\<lambda>btc_return.
          rbind (analyze series (Some (sc_smc settings))) (\<lambda>analysis.
          rbind (case latest_atr analysis of
              None \<Rightarrow> Inr None
            | Some atr \<Rightarrow> if atr > 0 then rmap Some (ddiv (range_size c) atr) else Inr None) (\<lambda>range_ratio.
          Inr (btc_return, range_ratio)))))"

section \<open>The loop\<close>

record replay_data =
  rd_aggregates :: aggregate_series
  rd_closes :: close_times
  rd_rows :: "(string \<times> replay_row list) list"
  rd_row_closes :: "(string \<times> instant list) list"

record replay_state =
  rs_candidates :: "replay_candidate list"
  rs_sequence :: int
  rs_open_interest :: "(string \<times> dec) list"
  rs_btc :: "(instant \<times> (dec option \<times> dec option)) list"

definition open_interest_step :: "replay_row \<Rightarrow> string \<Rightarrow> (string \<times> dec) list \<Rightarrow> (dec option \<times> (string \<times> dec) list) res" where
  "open_interest_step row symb interests =
     (case rw_open_interest row of
        None \<Rightarrow> Inr (None, interests)
      | Some current \<Rightarrow>
          rbind (case map_of interests symb of
              None \<Rightarrow> Inr None
            | Some previous \<Rightarrow>
                if previous > 0 then rmap Some (ddiv (dsub current previous) previous) else Inr None) (\<lambda>change.
          Inr (change, od_put symb current interests)))"

definition or_default :: "'a option \<Rightarrow> 'a \<Rightarrow> 'a" where
  "or_default x d = (case x of None \<Rightarrow> d | Some y \<Rightarrow> y)"

definition replay_input ::
  "string \<Rightarrow> instant \<Rightarrow> (timeframe \<times> candle list) list \<Rightarrow> (timeframe \<times> smc_analysis) list \<Rightarrow> replay_row \<Rightarrow>
   dec option \<Rightarrow> dec option \<Rightarrow> dec option \<times> dec option \<Rightarrow> replay_config \<Rightarrow> strategy_input" where
  "replay_input symb clock histories analyses row volume_ratio change btc config =
     \<lparr>si_symbol = symb, si_analyzed_at = clock,
      si_analysis_4h = the (map_of analyses TF_4h), si_analysis_1h = the (map_of analyses TF_1h),
      si_analysis_15m = the (map_of analyses TF_15m), si_analysis_5m = the (map_of analyses TF_5m),
      si_market = \<lparr>mc_current_price = m1_close (rw_candle row), mc_volume_ratio = volume_ratio,
        mc_open_interest_change_ratio = change, mc_funding_rate = rw_funding_rate row, mc_spread_bps = rw_spread_bps row,
        mc_turnover_24h_usdt = rw_turnover_24h_usdt row, mc_btc_5m_return = fst btc, mc_btc_true_range_atr_ratio = snd btc,
        mc_taker_fee_rate = 55 / 100000,
        mc_instrument_max_leverage = or_default (rw_instrument_max_leverage row) (default_max_leverage config),
        mc_instrument_quantity_step = or_default (rw_instrument_quantity_step row) (default_quantity_step config),
        mc_instrument_min_notional = or_default (rw_instrument_min_notional row) (default_min_notional config)\<rparr>,
      si_input_cutoffs = map (\<lambda>(tf, history). (timeframe_name tf, c_close_time (last history))) histories\<rparr>"

definition replay_event ::
  "replay_data \<Rightarrow> strategy_config \<Rightarrow> replay_config \<Rightarrow> replay_state \<Rightarrow> instant \<times> string \<Rightarrow> replay_state res" where
  "replay_event data settings config st event =
     (case event of (clock, symb) \<Rightarrow>
        (case histories_at symb clock (rd_aggregates data) (rd_closes data) config of
           None \<Rightarrow> Inr st
         | Some histories \<Rightarrow>
             (case latest_market_row (the (map_of (rd_rows data) symb)) (the (map_of (rd_row_closes data) symb)) clock of
                None \<Rightarrow> Inr st
              | Some row \<Rightarrow>
                  rbind (traverse (\<lambda>(tf, history). rmap (Pair tf) (analyze history (Some (sc_smc settings)))) histories) (\<lambda>analyses.
                  rbind (case map_of (rs_btc st) clock of
                      Some s \<Rightarrow> Inr s
                    | None \<Rightarrow> btc_state_at clock (rd_aggregates data) (rd_closes data) config settings) (\<lambda>btc.
                  rbind (open_interest_step row symb (rs_open_interest st)) (\<lambda>(change, interests).
                  rbind (latest_volume_ratio (the (map_of histories TF_15m))) (\<lambda>volume_ratio.
                  let inp = replay_input symb clock histories analyses row volume_ratio change btc config in
                  rbind (evaluate_candidates inp (Some settings)) (\<lambda>(l, s).
                  Inr \<lparr>rs_candidates = rs_candidates st @
                     [\<lparr>rn_sequence = rs_sequence st, rn_candidate = l, rn_input_cutoffs = si_input_cutoffs inp\<rparr>,
                      \<lparr>rn_sequence = rs_sequence st + 1, rn_candidate = s, rn_input_cutoffs = si_input_cutoffs inp\<rparr>],
                    rs_sequence = rs_sequence st + 2, rs_open_interest = interests,
                    rs_btc = od_put clock btc (rs_btc st)\<rparr>))))))))"

definition replay_events :: "aggregate_series \<Rightarrow> (instant \<times> string) list" where
  "replay_events aggregates =
     sort (concat (map (\<lambda>(symb, timeframe_map). map (\<lambda>c. (c_close_time c, symb)) (the (map_of timeframe_map TF_5m))) aggregates))"

definition ordered_rows :: "replay_row list \<Rightarrow> replay_row list" where
  "ordered_rows rows = sort_key (\<lambda>r. (m1_open_time (rw_candle r), m1_symbol (rw_candle r))) rows"

definition rows_by_symbol :: "replay_row list \<Rightarrow> (string \<times> replay_row list) list" where
  "rows_by_symbol rows = sort_key fst (group_by (\<lambda>r. m1_symbol (rw_candle r)) (ordered_rows rows))"

definition load_replay_data :: "replay_row list \<Rightarrow> replay_data res" where
  "load_replay_data rows =
     rbind (build_replay_aggregates (map rw_candle (ordered_rows rows))) (\<lambda>aggregates.
     Inr \<lparr>rd_aggregates = aggregates, rd_closes = aggregate_close_times aggregates, rd_rows = rows_by_symbol rows,
       rd_row_closes = map (\<lambda>(symb, rs). (symb, map (\<lambda>r. m1_open_time (rw_candle r) + one_minute) rs)) (rows_by_symbol rows)\<rparr>)"

definition replay_candidates :: "replay_row list \<Rightarrow> strategy_config \<Rightarrow> replay_config \<Rightarrow> replay_candidate list res" where
  "replay_candidates rows settings config =
     rbind (load_replay_data rows) (\<lambda>data.
     rmap rs_candidates (foldM (replay_event data settings config)
       \<lparr>rs_candidates = [], rs_sequence = 1, rs_open_interest = [], rs_btc = []\<rparr> (replay_events (rd_aggregates data))))"

definition replay_outcomes :: "(string \<times> replay_row list) list \<Rightarrow> replay_candidate list \<Rightarrow> replay_outcome list res" where
  "replay_outcomes by_symbol candidates =
     traverse (\<lambda>i. resolve_candidate (rn_sequence i) (rn_candidate i) (the (map_of by_symbol (ca_symbol (rn_candidate i)))))
       (filter (\<lambda>i. ca_status (rn_candidate i) = Accepted \<and> ca_trade_plan (rn_candidate i) \<noteq> None) candidates)"

definition run_replay :: "replay_row list \<Rightarrow> strategy_config option \<Rightarrow> replay_config option \<Rightarrow> replay_result res" where
  "run_replay rows strategy config =
     (let settings = or_default strategy default_strategy_config;
          config = or_default config default_replay_config in
      rbind (replay_candidates rows settings config) (\<lambda>candidates.
      rbind (replay_outcomes (rows_by_symbol rows) candidates) (\<lambda>outcomes.
      Inr \<lparr>rr_candidates = candidates, rr_outcomes = outcomes,
        rr_summary = build_summary settings (int (length (ordered_rows rows))) (int (length (rows_by_symbol rows)))
          candidates outcomes\<rparr>)))"

section \<open>Binary search and the visible part of a series\<close>

lemma bisect_loop_ok:
  assumes "sorted xs" "lo \<le> hi" "hi \<le> length xs" "\<forall>y \<in> set (take lo xs). y \<le> x" "\<forall>y \<in> set (drop hi xs). x < y"
  shows "bisect_loop xs x lo hi = length (filter (\<lambda>y. y \<le> x) xs)"
  using assms
proof (induction xs x lo hi rule: bisect_loop.induct)
  case (1 xs x lo hi)
  show ?case
  proof (cases "lo < hi")
    case False
    then have lo: "lo = hi" using 1 by simp
    have "xs = take lo xs @ drop hi xs" by (simp add: lo)
    then have "filter (\<lambda>y. y \<le> x) xs = filter (\<lambda>y. y \<le> x) (take lo xs) @ filter (\<lambda>y. y \<le> x) (drop hi xs)"
      by (metis filter_append)
    also have "filter (\<lambda>y. y \<le> x) (take lo xs) = take lo xs" using 1(6) by (simp add: filter_id_conv)
    also have "filter (\<lambda>y. y \<le> x) (drop hi xs) = []" using 1(7) by (auto simp: filter_empty_conv not_le)
    finally show ?thesis using 1(5) lo by (subst bisect_loop.simps) simp
  next
    case True
    define mid where "mid = (lo + hi) div 2"
    have mid: "lo \<le> mid" "mid < hi" "mid < length xs" using True 1(5) by (auto simp: mid_def)
    show ?thesis
    proof (cases "x < xs ! mid")
      case less: True
      have "\<forall>y \<in> set (drop mid xs). x < y"
      proof
        fix y assume "y \<in> set (drop mid xs)"
        then obtain i where "y = xs ! (mid + i)" "mid + i < length xs" by (auto simp: in_set_conv_nth)
        then have "xs ! mid \<le> y" using 1(3) by (simp add: sorted_nth_mono)
        then show "x < y" using less by simp
      qed
      then have "bisect_loop xs x lo mid = length (filter (\<lambda>y. y \<le> x) xs)"
        using 1(1) [OF True mid_def less] 1(3,6) mid by simp
      then show ?thesis using True less by (simp add: bisect_loop.simps [of xs x lo hi] mid_def [symmetric] Let_def)
    next
      case ge: False
      have "\<forall>y \<in> set (take (mid + 1) xs). y \<le> x"
      proof
        fix y assume "y \<in> set (take (mid + 1) xs)"
        then obtain i where "y = xs ! i" "i \<le> mid" using mid by (auto simp: in_set_conv_nth less_Suc_eq_le)
        then have "y \<le> xs ! mid" using 1(3) mid by (simp add: sorted_nth_mono)
        then show "y \<le> x" using ge by simp
      qed
      then have "bisect_loop xs x (mid + 1) hi = length (filter (\<lambda>y. y \<le> x) xs)"
        using 1(2) [OF True mid_def ge] 1(3,5,7) mid by simp
      then show ?thesis using True ge by (simp add: bisect_loop.simps [of xs x lo hi] mid_def [symmetric] Let_def)
    qed
  qed
qed

lemma bisect_right_ok: "sorted xs \<Longrightarrow> bisect_right xs x = length (filter (\<lambda>y. y \<le> x) xs)"
  unfolding bisect_right_def by (rule bisect_loop_ok) simp_all

lemma take_filter_sorted:
  "sorted (map k xs) \<Longrightarrow> take (length (filter (\<lambda>y. y \<le> x) (map k xs))) xs = filter (\<lambda>y. k y \<le> x) xs"
proof (induction xs)
  case (Cons y ys)
  show ?case
  proof (cases "k y \<le> x")
    case False
    then have "filter (\<lambda>y. k y \<le> x) ys = []" using Cons.prems by (auto simp: filter_empty_conv)
    with False show ?thesis using Cons.prems by (auto simp: filter_empty_conv)
  qed (use Cons in simp)
qed simp

definition visible :: "instant \<Rightarrow> candle list \<Rightarrow> candle list" where
  "visible T cs = filter (\<lambda>c. c_close_time c \<le> T) cs"

lemma visible_twice: "t \<le> T \<Longrightarrow> visible t (visible T cs) = visible t cs"
  by (auto simp: visible_def intro: filter_cong)

lemma history_at_visible:
  assumes "sorted (map c_close_time series)"
  shows "history_at series (map c_close_time series) clock k =
     (let v = visible clock series in drop (length v - nat (history_candles k)) v)"
proof -
  have "take (bisect_right (map c_close_time series) clock) series = visible clock series"
    unfolding bisect_right_ok [OF assms] visible_def by (rule take_filter_sorted [OF assms])
  moreover have "bisect_right (map c_close_time series) clock = length (visible clock series)"
    unfolding bisect_right_ok [OF assms] by (simp add: visible_def filter_map comp_def)
  moreover have "drop (nat (max 0 (int n - history_candles k))) v = drop (n - nat (history_candles k)) v"
    if "n = length v" for n and v :: "candle list"
  proof (cases "0 \<le> history_candles k")
    case False
    then have "n \<le> nat (max 0 (int n - history_candles k))" by simp
    then show ?thesis using that False by simp
  next
    case True
    then have "nat (max 0 (int n - history_candles k)) = n - nat (history_candles k)" by arith
    then show ?thesis by simp
  qed
  ultimately show ?thesis by (simp add: history_at_def Let_def)
qed

section \<open>The aggregates of a replay\<close>

lemma map_of_sort_key:
  assumes "distinct (map fst d)"
  shows "map_of (sort_key g d) = map_of d"
proof
  fix x
  have "mset (map fst (sort_key g d)) = mset (map fst d)" by simp
  then have "distinct (map fst (sort_key g d))" using assms mset_eq_imp_distinct_iff by blast
  then have "map_of (sort_key g d) x = Some v \<longleftrightarrow> map_of d x = Some v" for v
    using assms by (simp add: map_of_eq_Some_iff)
  then show "map_of (sort_key g d) x = map_of d x" by (metis option.exhaust)
qed

lemma traverse_pairs:
  assumes "traverse (\<lambda>(k, v). rmap (Pair k) (f k v)) d = Inr d'"
  shows "map fst d' = map fst d" and "map_of d k = None \<Longrightarrow> map_of d' k = None"
    and "map_of d k = Some v \<Longrightarrow> \<exists>w. f k v = Inr w \<and> map_of d' k = Some w"
  using assms by (induction d arbitrary: d') (auto split: prod.splits)

definition series_of :: "candle_1m list \<Rightarrow> string \<Rightarrow> timeframe \<Rightarrow> candle list" where
  "series_of cs symb tf = map (\<lambda>a. projr (candle_of_aggregate tf a)) (aggregates_of (filter (\<lambda>c. m1_symbol c = symb) cs) tf)"

lemma traverse_projr: "traverse f xs = Inr ys \<Longrightarrow> ys = map (\<lambda>x. projr (f x)) xs \<and> (\<forall>x \<in> set xs. f x = Inr (projr (f x)))"
  by (induction xs arbitrary: ys) auto

lemma timeframes_all: "tf \<in> set timeframes"
  by (cases tf) (simp_all add: timeframes_def)

lemma build_lookup:
  assumes "build_replay_aggregates cs = Inr aggregates"
  shows "map_of aggregates symb = None \<longleftrightarrow> symb \<notin> m1_symbol ` set cs"
    and "symb \<in> m1_symbol ` set cs \<Longrightarrow> lookup2 aggregates symb tf = series_of cs symb tf"
    and "symb \<in> m1_symbol ` set cs \<Longrightarrow> \<forall>a \<in> set (aggregates_of (filter (\<lambda>c. m1_symbol c = symb) cs) tf).
      candle_of_aggregate tf a = Inr (projr (candle_of_aggregate tf a))"
    and "distinct (map fst aggregates)" and "symb \<in> m1_symbol ` set cs \<Longrightarrow> map_of (the (map_of aggregates symb)) tf \<noteq> None"
proof -
  define d where "d = sort_key fst (group_by m1_symbol cs)"
  define f where "f = (\<lambda>(symb :: string) mine. traverse (\<lambda>tf. rmap (Pair tf) (aggregate_timeframe mine tf)) timeframes)"
  have t: "traverse (\<lambda>(k, v). rmap (Pair k) (f k v)) d = Inr aggregates"
    using assms by (simp add: build_replay_aggregates_def d_def f_def case_prod_beta')
  have lookup: "map_of d s = (if s \<in> m1_symbol ` set cs then Some (filter (\<lambda>c. m1_symbol c = s) cs) else None)" for s
    unfolding d_def map_of_sort_key [OF group_by_distinct] by (simp add: group_by_lookup)
  show "map_of aggregates symb = None \<longleftrightarrow> symb \<notin> m1_symbol ` set cs"
    using traverse_pairs(2,3) [OF t, of symb] lookup [of symb] by auto
  have "mset (map fst d) = mset (map fst (group_by m1_symbol cs))" by (simp add: d_def)
  then show "distinct (map fst aggregates)"
    using traverse_pairs(1) [OF t] group_by_distinct mset_eq_imp_distinct_iff by metis
  have found: "lookup2 aggregates symb tf = series_of cs symb tf \<and>
      (\<forall>a \<in> set (aggregates_of (filter (\<lambda>c. m1_symbol c = symb) cs) tf). candle_of_aggregate tf a = Inr (projr (candle_of_aggregate tf a))) \<and>
      map_of (the (map_of aggregates symb)) tf \<noteq> None"
    if symb: "symb \<in> m1_symbol ` set cs" for tf
  proof -
    let ?mine = "filter (\<lambda>c. m1_symbol c = symb) cs"
    obtain tfs where tfs: "map_of aggregates symb = Some tfs"
        "traverse (\<lambda>tf. rmap (Pair tf) (aggregate_timeframe ?mine tf)) timeframes = Inr tfs"
      using traverse_pairs(3) [OF t, of symb] lookup [of symb] symb by (auto simp: f_def)
    have one: "\<exists>w. aggregate_timeframe ?mine tf = Inr w \<and> map_of tfs tf = Some w"
      if "traverse (\<lambda>tf. rmap (Pair tf) (aggregate_timeframe ?mine tf)) xs = Inr tfs" "tf \<in> set xs" for xs tfs
      using that by (induction xs arbitrary: tfs) auto
    obtain w where w: "aggregate_timeframe ?mine tf = Inr w" "map_of tfs tf = Some w"
      using one [OF tfs(2) timeframes_all] by blast
    from w(1) have "w = map (\<lambda>a. projr (candle_of_aggregate tf a)) (aggregates_of ?mine tf) \<and>
        (\<forall>a \<in> set (aggregates_of ?mine tf). candle_of_aggregate tf a = Inr (projr (candle_of_aggregate tf a)))"
      unfolding aggregate_timeframe_alt by (rule traverse_projr)
    with w(2) tfs(1) show ?thesis by (simp add: lookup2_def series_of_def)
  qed
  show "symb \<in> m1_symbol ` set cs \<Longrightarrow> lookup2 aggregates symb tf = series_of cs symb tf"
    "symb \<in> m1_symbol ` set cs \<Longrightarrow> \<forall>a \<in> set (aggregates_of (filter (\<lambda>c. m1_symbol c = symb) cs) tf).
      candle_of_aggregate tf a = Inr (projr (candle_of_aggregate tf a))"
    "symb \<in> m1_symbol ` set cs \<Longrightarrow> map_of (the (map_of aggregates symb)) tf \<noteq> None"
    using found [of tf] by blast+
qed

lemma candle_of_aggregate_close: "candle_of_aggregate tf a = Inr c \<Longrightarrow> c_close_time c = ag_close_time a"
  by (auto simp: candle_of_aggregate_def mk_candle_def)

lemma aggregates_close_sorted: "sorted_wrt (<) (map ag_close_time (aggregates_of cs tf))"
proof -
  have "ag_close_time a = ag_open_time a + minutes (timeframe_minutes tf)" if "a \<in> set (aggregates_of cs tf)" for a
    using that interval_aggregate_open(2) by (simp add: aggregates_in)
  then have "map ag_close_time (aggregates_of cs tf) = map (\<lambda>t. t + minutes (timeframe_minutes tf)) (map ag_open_time (aggregates_of cs tf))"
    by simp
  moreover have "sorted_wrt (<) (map (\<lambda>t :: int. t + d) xs)" if "sorted_wrt (<) xs" for d xs
    using that by (simp add: sorted_wrt_map)
  ultimately show ?thesis using aggregates_sorted [of cs tf] by metis
qed

lemma series_closes:
  assumes "\<forall>a \<in> set (aggregates_of (filter (\<lambda>c. m1_symbol c = symb) cs) tf).
      candle_of_aggregate tf a = Inr (projr (candle_of_aggregate tf a))"
  shows "map c_close_time (series_of cs symb tf) = map ag_close_time (aggregates_of (filter (\<lambda>c. m1_symbol c = symb) cs) tf)"
  using assms candle_of_aggregate_close by (auto simp: series_of_def)

lemma visible_series:
  assumes "\<forall>a \<in> set (aggregates_of (filter (\<lambda>c. m1_symbol c = symb) cs) tf).
      candle_of_aggregate tf a = Inr (projr (candle_of_aggregate tf a))"
  shows "visible T (series_of cs symb tf) = map (\<lambda>a. projr (candle_of_aggregate tf a))
     (filter (\<lambda>a. ag_close_time a \<le> T) (aggregates_of (filter (\<lambda>c. m1_symbol c = symb) (filter (\<lambda>c. m1_open_time c < T) cs)) tf))"
proof -
  let ?as = "aggregates_of (filter (\<lambda>c. m1_symbol c = symb) cs) tf"
  have "visible T (series_of cs symb tf) = map (\<lambda>a. projr (candle_of_aggregate tf a)) (filter (\<lambda>a. ag_close_time a \<le> T) ?as)"
  proof -
    have "c_close_time (projr (candle_of_aggregate tf a)) = ag_close_time a" if "a \<in> set ?as" for a
      using assms that candle_of_aggregate_close by blast
    then show ?thesis
      by (auto simp: visible_def series_of_def filter_map comp_def intro!: filter_cong arg_cong [of _ _ "map _"])
  qed
  moreover have "filter (\<lambda>c. m1_symbol c = symb) (filter (\<lambda>c. m1_open_time c < T) cs) =
      filter (\<lambda>c. m1_open_time c < T) (filter (\<lambda>c. m1_symbol c = symb) cs)"
    by (simp add: conj_commute)
  ultimately show ?thesis by (simp only: aggregates_before)
qed

section \<open>What a step reads\<close>

definition minutes_of :: "replay_row list \<Rightarrow> candle_1m list" where
  "minutes_of rows = map rw_candle (ordered_rows rows)"

definition symbols_of :: "replay_row list \<Rightarrow> string set" where
  "symbols_of rows = m1_symbol ` set (minutes_of rows)"

definition symbols_before :: "instant \<Rightarrow> replay_row list \<Rightarrow> string set" where
  "symbols_before T rows = m1_symbol ` set (filter (\<lambda>c. m1_open_time c < T) (minutes_of rows))"

lemma loaded:
  assumes "load_replay_data rows = Inr data"
  shows "build_replay_aggregates (minutes_of rows) = Inr (rd_aggregates data)"
    "rd_closes data = aggregate_close_times (rd_aggregates data)" "rd_rows data = rows_by_symbol rows"
    "rd_row_closes data = map (\<lambda>(symb, rs). (symb, map (\<lambda>r. m1_open_time (rw_candle r) + one_minute) rs)) (rows_by_symbol rows)"
  using assms by (auto simp: load_replay_data_def minutes_of_def)

lemmas loaded_lookup = build_lookup [OF loaded(1), folded symbols_of_def]

lemma lookup_closes:
  assumes "load_replay_data rows = Inr data" "symb \<in> symbols_of rows"
  shows "lookup2 (rd_closes data) symb tf = map c_close_time (lookup2 (rd_aggregates data) symb tf)"
proof -
  obtain m where m: "map_of (rd_aggregates data) symb = Some m"
    using loaded_lookup(1) [OF assms(1), of symb] assms(2) by auto
  then have "map_of m tf \<noteq> None" using loaded_lookup(5) [OF assms, of tf] by simp
  then show ?thesis
    using m by (auto simp: lookup2_def loaded(2) [OF assms(1)] aggregate_close_times_def map_of_map)
qed

lemma closes_sorted:
  assumes "load_replay_data rows = Inr data" "symb \<in> symbols_of rows"
  shows "sorted_wrt (<) (map c_close_time (lookup2 (rd_aggregates data) symb tf))"
  unfolding loaded_lookup(2) [OF assms] series_closes [OF loaded_lookup(3) [OF assms]] by (rule aggregates_close_sorted)

lemma visible_lookup:
  assumes "load_replay_data rows = Inr data" "symb \<in> symbols_of rows"
  shows "visible T (lookup2 (rd_aggregates data) symb tf) = map (\<lambda>a. projr (candle_of_aggregate tf a))
     (filter (\<lambda>a. ag_close_time a \<le> T) (aggregates_of (filter (\<lambda>c. m1_symbol c = symb)
        (filter (\<lambda>c. m1_open_time c < T) (minutes_of rows))) tf))"
  unfolding loaded_lookup(2) [OF assms] by (rule visible_series [OF loaded_lookup(3) [OF assms]])

lemma history_alt:
  assumes "load_replay_data rows = Inr data" "symb \<in> symbols_of rows"
  shows "history_at (lookup2 (rd_aggregates data) symb tf) (lookup2 (rd_closes data) symb tf) clock k =
     (let v = visible clock (lookup2 (rd_aggregates data) symb tf) in drop (length v - nat (history_candles k)) v)"
  unfolding lookup_closes [OF assms]
  by (rule history_at_visible) (use closes_sorted [OF assms, of tf] in \<open>simp add: strict_sorted_iff\<close>)

lemma unseen:
  assumes "load_replay_data rows = Inr data" "symb \<in> symbols_of rows" "symb \<notin> symbols_before T rows"
  shows "visible T (lookup2 (rd_aggregates data) symb tf) = []"
proof -
  have "filter (\<lambda>c. m1_symbol c = symb) (filter (\<lambda>c. m1_open_time c < T) (minutes_of rows)) = []"
    using assms(3) by (auto simp: symbols_before_def filter_empty_conv)
  moreover have "aggregates_of [] tf = []" by (simp add: aggregates_of_def List.map_filter_simps)
  ultimately show ?thesis unfolding visible_lookup [OF assms(1,2)] by simp
qed

lemma unseen_histories:
  assumes "load_replay_data rows = Inr data" "symb \<in> symbols_of rows" "symb \<notin> symbols_before T rows"
    and "clock \<le> T" "1 \<le> minimum_history_candles k"
  shows "histories_at symb clock (rd_aggregates data) (rd_closes data) k = None"
proof -
  have "visible clock (lookup2 (rd_aggregates data) symb tf) = []" for tf
    using visible_twice [OF assms(4)] unseen [OF assms(1-3)] by (metis visible_def filter.simps(1))
  then show ?thesis using assms(5) history_alt [OF assms(1,2)] by (simp add: histories_at_def replay_timeframes_def)
qed

text \<open>The latest row is the last one closed by the clock.\<close>

definition row_close :: "replay_row \<Rightarrow> instant" where
  "row_close r = m1_open_time (rw_candle r) + one_minute"

definition closed_rows :: "string \<Rightarrow> instant \<Rightarrow> replay_row list \<Rightarrow> replay_row list" where
  "closed_rows symb clock rows =
     filter (\<lambda>r. row_close r \<le> clock) (filter (\<lambda>r. m1_symbol (rw_candle r) = symb) (ordered_rows rows))"

lemma latest_row_alt:
  assumes "load_replay_data rows = Inr data" "symb \<in> symbols_of rows"
  shows "latest_market_row (the (map_of (rd_rows data) symb)) (the (map_of (rd_row_closes data) symb)) clock =
     (if closed_rows symb clock rows = [] then None else Some (last (closed_rows symb clock rows)))"
proof -
  define rs where "rs = filter (\<lambda>r. m1_symbol (rw_candle r) = symb) (ordered_rows rows)"
  have "symb \<in> (\<lambda>r. m1_symbol (rw_candle r)) ` set (ordered_rows rows)"
    using assms(2) by (auto simp: symbols_of_def minutes_of_def)
  then have m: "map_of (rows_by_symbol rows) symb = Some rs"
    unfolding rows_by_symbol_def map_of_sort_key [OF group_by_distinct] by (simp add: group_by_lookup rs_def)
  have "sorted (map (\<lambda>r. (m1_open_time (rw_candle r), m1_symbol (rw_candle r))) (ordered_rows rows))"
    by (simp add: ordered_rows_def)
  then have sorted: "sorted (map row_close rs)"
    unfolding rs_def sorted_map by (auto simp: row_close_def intro!: sorted_wrt_filter elim!: sorted_wrt_mono_rel [rotated])
  have t: "take (bisect_right (map row_close rs) clock) rs = closed_rows symb clock rows"
    unfolding bisect_right_ok [OF sorted] closed_rows_def rs_def [symmetric] by (rule take_filter_sorted [OF sorted])
  have n: "bisect_right (map row_close rs) clock = length (closed_rows symb clock rows)"
    unfolding bisect_right_ok [OF sorted] closed_rows_def rs_def [symmetric] by (simp add: filter_map comp_def)
  have "last (closed_rows symb clock rows) = rs ! (length (closed_rows symb clock rows) - 1)"
    if "closed_rows symb clock rows \<noteq> []"
    using that t unfolding n by (metis last_conv_nth length_greater_0_conv diff_less zero_less_one nth_take)
  moreover have "map_of (rd_row_closes data) symb = Some (map row_close rs)"
    unfolding loaded(4) [OF assms(1)] by (simp add: map_of_map m row_close_def [abs_def])
  moreover have "nat (int k - 1) = k - 1" for k by simp
  ultimately show ?thesis
    using n by (auto simp: latest_market_row_def Let_def loaded(3) [OF assms(1)] m Suc_le_eq)
qed

section \<open>The events\<close>

lemma events_set:
  assumes "load_replay_data rows = Inr data"
  shows "(t, symb) \<in> set (replay_events (rd_aggregates data)) \<longleftrightarrow> symb \<in> symbols_of rows \<and>
     t \<in> c_close_time ` set (lookup2 (rd_aggregates data) symb TF_5m)"
proof -
  have "(t, symb) \<in> set (replay_events (rd_aggregates data)) \<longleftrightarrow>
      (\<exists>m. (symb, m) \<in> set (rd_aggregates data) \<and> t \<in> c_close_time ` set (the (map_of m TF_5m)))"
    by (force simp: replay_events_def)
  also have "\<dots> \<longleftrightarrow> (\<exists>m. map_of (rd_aggregates data) symb = Some m \<and> t \<in> c_close_time ` set (the (map_of m TF_5m)))"
    using loaded_lookup(4) [OF assms] by (simp add: map_of_eq_Some_iff)
  also have "\<dots> \<longleftrightarrow> map_of (rd_aggregates data) symb \<noteq> None \<and> t \<in> c_close_time ` set (lookup2 (rd_aggregates data) symb TF_5m)"
    by (auto simp: lookup2_def)
  finally show ?thesis using loaded_lookup(1) [OF assms, of symb] by simp
qed

lemma distinct_events:
  assumes "distinct (map fst d)" "\<And>symb m. (symb, m) \<in> set d \<Longrightarrow> distinct (map c_close_time (the (map_of m TF_5m)))"
  shows "distinct (concat (map (\<lambda>(symb, m). map (\<lambda>c. (c_close_time c, symb)) (the (map_of m TF_5m))) d))"
  using assms
proof (induction d)
  case (Cons p d)
  obtain s m where p: "p = (s, m)" by fastforce
  have "distinct (map c_close_time (the (map_of m TF_5m)))" using Cons.prems(2) [of s m] p by simp
  then have "distinct (map (\<lambda>c. (c_close_time c, s)) (the (map_of m TF_5m)))"
    by (auto simp: distinct_map inj_on_def)
  moreover have "s \<notin> fst ` set d" using Cons.prems(1) p by simp
  moreover have "distinct (concat (map (\<lambda>(symb, m). map (\<lambda>c. (c_close_time c, symb)) (the (map_of m TF_5m))) d))"
    using Cons.prems by (intro Cons.IH) auto
  ultimately show ?case using p by (force simp: image_iff)
qed simp

lemma events_distinct:
  assumes "load_replay_data rows = Inr data"
  shows "distinct (replay_events (rd_aggregates data))"
proof -
  have "distinct (map c_close_time (the (map_of m TF_5m)))" if "(symb, m) \<in> set (rd_aggregates data)" for symb m
  proof -
    have m: "map_of (rd_aggregates data) symb = Some m"
      using that loaded_lookup(4) [OF assms] by (simp add: map_of_eq_Some_iff)
    then have "symb \<in> symbols_of rows" using loaded_lookup(1) [OF assms, of symb] by auto
    from closes_sorted [OF assms this, of TF_5m] show ?thesis by (simp add: lookup2_def m strict_sorted_iff)
  qed
  from distinct_events [OF loaded_lookup(4) [OF assms] this] show ?thesis by (simp add: replay_events_def)
qed

section \<open>Rows that agree up to a moment\<close>

definition rows_before :: "instant \<Rightarrow> replay_row list \<Rightarrow> replay_row list" where
  "rows_before T rows = filter (\<lambda>r. m1_open_time (rw_candle r) < T) rows"

lemma ordered_before: "rows_before T (ordered_rows rows) = ordered_rows (rows_before T rows)"
  unfolding rows_before_def ordered_rows_def by (rule filter_sort)

lemma minutes_before:
  assumes "rows_before T rows = rows_before T rows'"
  shows "filter (\<lambda>c. m1_open_time c < T) (minutes_of rows) = filter (\<lambda>c. m1_open_time c < T) (minutes_of rows')"
proof -
  have "filter (\<lambda>c. m1_open_time c < T) (minutes_of xs) = map rw_candle (ordered_rows (rows_before T xs))" for xs
    unfolding ordered_before [symmetric] by (simp add: minutes_of_def rows_before_def filter_map comp_def)
  then show ?thesis using assms by simp
qed

lemma symbols_before_cong: "rows_before T rows = rows_before T rows' \<Longrightarrow> symbols_before T rows = symbols_before T rows'"
  unfolding symbols_before_def by (simp only: minutes_before [of T rows rows'])

lemma symbols_before_subset: "symbols_before T rows \<subseteq> symbols_of rows"
  by (auto simp: symbols_before_def symbols_of_def)

lemma same_visible:
  assumes "load_replay_data rows = Inr data" "load_replay_data rows' = Inr data'" "rows_before T rows = rows_before T rows'"
    and "symb \<in> symbols_of rows" "symb \<in> symbols_of rows'" "clock \<le> T"
  shows "visible clock (lookup2 (rd_aggregates data) symb tf) = visible clock (lookup2 (rd_aggregates data') symb tf)"
proof -
  have "visible T (lookup2 (rd_aggregates data) symb tf) = visible T (lookup2 (rd_aggregates data') symb tf)"
    unfolding visible_lookup [OF assms(1,4)] visible_lookup [OF assms(2,5)] minutes_before [OF assms(3)] ..
  then show ?thesis using visible_twice [OF assms(6)] by metis
qed

lemma histories_loop_cong:
  assumes "\<And>tf. history_at (lookup2 a symb tf) (lookup2 c symb tf) clock k = history_at (lookup2 a' symb tf) (lookup2 c' symb tf) clock k"
  shows "histories_loop tfs symb clock a c k = histories_loop tfs symb clock a' c' k"
  by (induction tfs) (simp_all only: histories_loop.simps assms)

lemma same_histories:
  assumes "load_replay_data rows = Inr data" "load_replay_data rows' = Inr data'" "rows_before T rows = rows_before T rows'"
    and "symb \<in> symbols_of rows" "symb \<in> symbols_of rows'" "clock \<le> T"
  shows "histories_at symb clock (rd_aggregates data) (rd_closes data) k =
     histories_at symb clock (rd_aggregates data') (rd_closes data') k"
  unfolding histories_at_def
  by (rule histories_loop_cong)
     (simp only: history_alt [OF assms(1,4)] history_alt [OF assms(2,5)] same_visible [OF assms])

lemma same_row:
  assumes "load_replay_data rows = Inr data" "load_replay_data rows' = Inr data'" "rows_before T rows = rows_before T rows'"
    and "symb \<in> symbols_of rows" "symb \<in> symbols_of rows'" "clock \<le> T"
  shows "latest_market_row (the (map_of (rd_rows data) symb)) (the (map_of (rd_row_closes data) symb)) clock =
     latest_market_row (the (map_of (rd_rows data') symb)) (the (map_of (rd_row_closes data') symb)) clock"
proof -
  have "closed_rows symb clock xs = filter (\<lambda>r. row_close r \<le> clock) (filter (\<lambda>r. m1_symbol (rw_candle r) = symb)
      (ordered_rows (rows_before T xs)))" for xs
    using assms(6) unfolding closed_rows_def ordered_before [symmetric]
    by (auto simp: rows_before_def row_close_def minutes_def intro: filter_cong)
  then have "closed_rows symb clock rows = closed_rows symb clock rows'" using assms(3) by simp
  then show ?thesis by (simp only: latest_row_alt [OF assms(1,4)] latest_row_alt [OF assms(2,5)])
qed

lemma btc_none:
  assumes "load_replay_data rows = Inr data" "''BTCUSDT'' \<notin> symbols_before T rows" "clock \<le> T" "1 \<le> minimum_history_candles k"
  shows "btc_state_at clock (rd_aggregates data) (rd_closes data) k s = Inr (None, None)"
proof (cases "''BTCUSDT'' \<in> symbols_of rows")
  case True
  from unseen_histories [OF assms(1) True assms(2-4)] show ?thesis by (simp add: btc_state_at_def)
next
  case False
  then show ?thesis using loaded_lookup(1) [OF assms(1), of "''BTCUSDT''"] by (simp add: btc_state_at_def)
qed

lemma same_btc:
  assumes "load_replay_data rows = Inr data" "load_replay_data rows' = Inr data'" "rows_before T rows = rows_before T rows'"
    and "clock \<le> T" "1 \<le> minimum_history_candles k"
  shows "btc_state_at clock (rd_aggregates data) (rd_closes data) k s = btc_state_at clock (rd_aggregates data') (rd_closes data') k s"
proof (cases "''BTCUSDT'' \<in> symbols_before T rows")
  case False
  then have "''BTCUSDT'' \<notin> symbols_before T rows'" using symbols_before_cong [OF assms(3)] by simp
  with False show ?thesis using btc_none [OF assms(1) _ assms(4,5)] btc_none [OF assms(2) _ assms(4,5)] by simp
next
  case True
  then have m: "''BTCUSDT'' \<in> symbols_of rows" "''BTCUSDT'' \<in> symbols_of rows'"
    using symbols_before_cong [OF assms(3)] symbols_before_subset by blast+
  then have n: "(map_of (rd_aggregates data) ''BTCUSDT'' = None) = False" "(map_of (rd_aggregates data') ''BTCUSDT'' = None) = False"
    using loaded_lookup(1) [OF assms(1), of "''BTCUSDT''"] loaded_lookup(1) [OF assms(2), of "''BTCUSDT''"] by blast+
  show ?thesis unfolding btc_state_at_def n same_histories [OF assms(1-3) m assms(4)] ..
qed

lemma same_event:
  assumes "load_replay_data rows = Inr data" "load_replay_data rows' = Inr data'" "rows_before T rows = rows_before T rows'"
    and "symb \<in> symbols_of rows" "symb \<in> symbols_of rows'" "clock \<le> T" "1 \<le> minimum_history_candles k"
  shows "replay_event data s k st (clock, symb) = replay_event data' s k st (clock, symb)"
  unfolding replay_event_def prod.case same_histories [OF assms(1-6)] same_row [OF assms(1-6)]
    same_btc [OF assms(1-3,6,7)] ..

lemma visible_event:
  assumes "load_replay_data rows = Inr data" "(t, symb) \<in> set (replay_events (rd_aggregates data))" "t \<le> T"
  shows "symb \<in> symbols_of rows" "symb \<in> symbols_before T rows" "t \<in> c_close_time ` set (visible T (lookup2 (rd_aggregates data) symb TF_5m))"
proof -
  show s: "symb \<in> symbols_of rows" using events_set [OF assms(1)] assms(2) by blast
  show t: "t \<in> c_close_time ` set (visible T (lookup2 (rd_aggregates data) symb TF_5m))"
    using assms events_set [OF assms(1)] by (auto simp: visible_def)
  show "symb \<in> symbols_before T rows" using unseen [OF assms(1) s, of T] t by fastforce
qed

lemma same_events:
  assumes "load_replay_data rows = Inr data" "load_replay_data rows' = Inr data'" "rows_before T rows = rows_before T rows'"
  shows "filter (\<lambda>e. fst e \<le> T) (replay_events (rd_aggregates data)) = filter (\<lambda>e. fst e \<le> T) (replay_events (rd_aggregates data'))"
    (is "?l = ?r")
proof -
  have sub: "set (filter (\<lambda>e. fst e \<le> T) (replay_events (rd_aggregates d))) \<subseteq> set (filter (\<lambda>e. fst e \<le> T) (replay_events (rd_aggregates d')))"
    if l: "load_replay_data xs = Inr d" "load_replay_data xs' = Inr d'" "rows_before T xs = rows_before T xs'" for xs xs' d d'
  proof
    fix e assume e: "e \<in> set (filter (\<lambda>e. fst e \<le> T) (replay_events (rd_aggregates d)))"
    obtain t symb where ts: "e = (t, symb)" by fastforce
    with e have t: "(t, symb) \<in> set (replay_events (rd_aggregates d))" "t \<le> T" by auto
    note v = visible_event [OF l(1) t]
    have s': "symb \<in> symbols_of xs'" using v(2) symbols_before_cong [OF l(3)] symbols_before_subset by blast
    have "t \<in> c_close_time ` set (visible T (lookup2 (rd_aggregates d') symb TF_5m))"
      using v(3) same_visible [OF l v(1) s' order_refl, of TF_5m] by simp
    then show "e \<in> set (filter (\<lambda>e. fst e \<le> T) (replay_events (rd_aggregates d')))"
      using t(2) s' events_set [OF l(2)] ts by (auto simp: visible_def)
  qed
  have "set ?l = set ?r" using sub [OF assms] sub [OF assms(2,1) assms(3) [symmetric]] by blast
  moreover have "sorted (filter P (replay_events a))" for P a
    unfolding replay_events_def by (intro sorted_wrt_filter sorted_sort)
  ultimately show ?thesis
    using sorted_distinct_set_unique events_distinct [OF assms(1)] events_distinct [OF assms(2)] by (metis distinct_filter)
qed

section \<open>The run of the loop\<close>

lemma replay_event_appends:
  assumes "replay_event data s k st (clock, symb) = Inr st'"
  shows "\<exists>new. rs_candidates st' = rs_candidates st @ new \<and> (\<forall>i \<in> set new. ca_analyzed_at (rn_candidate i) = clock)"
proof -
  have ev: "ca_analyzed_at l = si_analyzed_at inp \<and> ca_analyzed_at r = si_analyzed_at inp"
    if "evaluate_candidates inp (Some s) = Inr (l, r)" for inp l r
    using that by (auto simp: evaluate_candidates_def elim!: evaluate_directionE)
  have "si_analyzed_at (replay_input symb clock hs an row vr ch btc k) = clock" for hs an row vr ch btc
    by (simp add: replay_input_def)
  then show ?thesis
    using assms ev by (fastforce simp: replay_event_def Let_def split: option.splits prod.splits)
qed

lemma replay_fold_appends:
  assumes "foldM (replay_event data s k) st events = Inr st'"
  shows "\<exists>new. rs_candidates st' = rs_candidates st @ new \<and> (\<forall>i \<in> set new. ca_analyzed_at (rn_candidate i) \<in> fst ` set events)"
  using assms
proof (induction events arbitrary: st)
  case (Cons e events)
  obtain clock symb where e: "e = (clock, symb)" by fastforce
  obtain st1 where st1: "replay_event data s k st e = Inr st1" "foldM (replay_event data s k) st1 events = Inr st'"
    using Cons.prems by auto
  obtain new1 where "rs_candidates st1 = rs_candidates st @ new1" "\<forall>i \<in> set new1. ca_analyzed_at (rn_candidate i) = clock"
    using replay_event_appends st1(1) e by blast
  with Cons.IH [OF st1(2)] e show ?case by (auto simp: image_iff)
qed simp

lemma foldM_cong: "(\<And>s x. x \<in> set xs \<Longrightarrow> f s x = g s x) \<Longrightarrow> foldM f s xs = foldM g s xs"
  by (induction xs arbitrary: s) (auto intro: rbind_cong)

lemma sorted_split: "sorted (map f xs) \<Longrightarrow> xs = filter (\<lambda>x. f x \<le> T) xs @ filter (\<lambda>x. \<not> f x \<le> T) xs"
proof (induction xs)
  case (Cons x xs)
  have none: "\<not> f x \<le> T \<Longrightarrow> filter (\<lambda>x. f x \<le> T) xs = []"
    using Cons.prems by (auto simp: filter_empty_conv)
  have "xs = filter (\<lambda>x. f x \<le> T) xs @ filter (\<lambda>x. \<not> f x \<le> T) xs" using Cons by simp
  then show ?case using none by (cases "f x \<le> T") simp_all
qed simp

lemma replay_candidates_split:
  assumes "replay_candidates rows s k = Inr cs"
  obtains data st where "load_replay_data rows = Inr data"
    "foldM (replay_event data s k) \<lparr>rs_candidates = [], rs_sequence = 1, rs_open_interest = [], rs_btc = []\<rparr>
       (filter (\<lambda>e. fst e \<le> T) (replay_events (rd_aggregates data))) = Inr st"
    "filter (\<lambda>i. ca_analyzed_at (rn_candidate i) \<le> T) cs = rs_candidates st"
proof -
  let ?init = "\<lparr>rs_candidates = [], rs_sequence = 1, rs_open_interest = [], rs_btc = []\<rparr>"
  obtain data st' where d: "load_replay_data rows = Inr data"
      "foldM (replay_event data s k) ?init (replay_events (rd_aggregates data)) = Inr st'" "cs = rs_candidates st'"
    using assms by (auto simp: replay_candidates_def)
  let ?ev = "replay_events (rd_aggregates data)"
  have "sorted ?ev" by (simp add: replay_events_def)
  then have "sorted (map fst ?ev)"
    by (auto simp: sorted_map less_eq_prod_def elim!: sorted_wrt_mono_rel [rotated])
  then have split: "?ev = filter (\<lambda>e. fst e \<le> T) ?ev @ filter (\<lambda>e. \<not> fst e \<le> T) ?ev" by (rule sorted_split)
  obtain st where st: "foldM (replay_event data s k) ?init (filter (\<lambda>e. fst e \<le> T) ?ev) = Inr st"
      "foldM (replay_event data s k) st (filter (\<lambda>e. \<not> fst e \<le> T) ?ev) = Inr st'"
    using d(2) by (subst (asm) split) (auto simp: foldM_append)
  obtain old new where "rs_candidates st = old" "\<forall>i \<in> set old. ca_analyzed_at (rn_candidate i) \<le> T"
      "rs_candidates st' = old @ new" "\<forall>i \<in> set new. \<not> ca_analyzed_at (rn_candidate i) \<le> T"
    using replay_fold_appends [OF st(1)] replay_fold_appends [OF st(2)] by fastforce
  then have "filter (\<lambda>i. ca_analyzed_at (rn_candidate i) \<le> T) cs = rs_candidates st"
    by (simp add: d(3) filter_empty_conv filter_id_conv)
  with d(1) st(1) show thesis by (rule that)
qed

lemma no_future:
  assumes "replay_candidates rows s k = Inr cs" "replay_candidates rows' s k = Inr cs'"
    and "rows_before T rows = rows_before T rows'" "1 \<le> minimum_history_candles k"
  shows "filter (\<lambda>i. ca_analyzed_at (rn_candidate i) \<le> T) cs = filter (\<lambda>i. ca_analyzed_at (rn_candidate i) \<le> T) cs'"
proof -
  let ?init = "\<lparr>rs_candidates = [], rs_sequence = 1, rs_open_interest = [], rs_btc = []\<rparr>"
  obtain data st where d: "load_replay_data rows = Inr data"
      "foldM (replay_event data s k) ?init (filter (\<lambda>e. fst e \<le> T) (replay_events (rd_aggregates data))) = Inr st"
      "filter (\<lambda>i. ca_analyzed_at (rn_candidate i) \<le> T) cs = rs_candidates st"
    using replay_candidates_split [OF assms(1)] by blast
  obtain data' st' where d': "load_replay_data rows' = Inr data'"
      "foldM (replay_event data' s k) ?init (filter (\<lambda>e. fst e \<le> T) (replay_events (rd_aggregates data'))) = Inr st'"
      "filter (\<lambda>i. ca_analyzed_at (rn_candidate i) \<le> T) cs' = rs_candidates st'"
    using replay_candidates_split [OF assms(2)] by blast
  have "replay_event data s k a e = replay_event data' s k a e"
    if e: "e \<in> set (filter (\<lambda>e. fst e \<le> T) (replay_events (rd_aggregates data)))" for a e
  proof -
    obtain t symb where ts: "e = (t, symb)" by fastforce
    with e have t: "(t, symb) \<in> set (replay_events (rd_aggregates data))" "t \<le> T" by auto
    note v = visible_event [OF d(1) t]
    have "symb \<in> symbols_of rows'" using v(2) symbols_before_cong [OF assms(3)] symbols_before_subset by blast
    from same_event [OF d(1) d'(1) assms(3) v(1) this t(2) assms(4)] show ?thesis by (simp add: ts)
  qed
  then have "foldM (replay_event data s k) ?init (filter (\<lambda>e. fst e \<le> T) (replay_events (rd_aggregates data))) =
      foldM (replay_event data' s k) ?init (filter (\<lambda>e. fst e \<le> T) (replay_events (rd_aggregates data)))"
    by (rule foldM_cong)
  then have "st = st'" using d(2) d'(2) same_events [OF d(1) d'(1) assms(3)] by simp
  then show ?thesis using d(3) d'(3) by simp
qed

section \<open>Properties\<close>

text \<open>C24: The replay never looks ahead: two files that agree on every minute that opens before a moment give the
  same candidates, with the same numbers, scores, plans and cutoffs, up to that moment. Neither the analyses of the
  four timeframes, nor the price and open interest, nor the state of bitcoin or its cache let a later row through.\<close>

theorem replay_sees_no_future:
  assumes "replay_candidates rows settings config = Inr cs" "replay_candidates rows' settings config = Inr cs'"
    and "mk_replay_config config = Inr config"
    and "filter (\<lambda>r. m1_open_time (rw_candle r) < T) rows = filter (\<lambda>r. m1_open_time (rw_candle r) < T) rows'"
  shows "filter (\<lambda>i. ca_analyzed_at (rn_candidate i) \<le> T) cs = filter (\<lambda>i. ca_analyzed_at (rn_candidate i) \<le> T) cs'"
proof (rule no_future [OF assms(1,2)])
  show "rows_before T rows = rows_before T rows'" using assms(4) by (simp add: rows_before_def)
  show "1 \<le> minimum_history_candles config" using assms(3) by (auto simp: mk_replay_config_def)
qed

text \<open>Files with fewer rows than the required history.\<close>

lemma aggregates_few: "length (aggregates_of cs tf) \<le> length cs"
proof -
  have "length (aggregates_of cs tf) = card (set (map ag_open_time (aggregates_of cs tf)))"
    using aggregates_sorted [of cs tf] distinct_card [of "map ag_open_time (aggregates_of cs tf)"]
    by (simp add: strict_sorted_iff)
  also have "set (map ag_open_time (aggregates_of cs tf)) \<subseteq> interval_of tf ` set cs"
    by (auto simp: aggregates_of_def List.map_filter_def interval_aggregate_open(1))
  then have "card (set (map ag_open_time (aggregates_of cs tf))) \<le> card (interval_of tf ` set cs)"
    by (intro card_mono) simp_all
  also have "\<dots> \<le> length cs" by (metis card_image_le card_length finite_set order_trans)
  finally show ?thesis by simp
qed

lemma load_ok:
  assumes "\<forall>r \<in> set rows. minute_wf (rw_candle r)"
  shows "\<exists>data. load_replay_data rows = Inr data"
proof -
  have some: "\<exists>ys. traverse f xs = Inr ys" if "\<forall>x \<in> set xs. \<exists>y. f x = Inr y" for f :: "'x \<Rightarrow> 'y res" and xs
    using that by (induction xs) auto
  have agg: "\<exists>ys. aggregate_timeframe cs tf = Inr ys" if cs: "\<forall>c \<in> set cs. minute_wf c" for cs tf
    unfolding aggregate_timeframe_alt
  proof (rule some, rule ballI)
    fix a assume "a \<in> set (aggregates_of cs tf)"
    then have "aggregate_candles (filter (\<lambda>c. interval_of tf c = ag_open_time a) cs) tf (Some (ag_open_time a)) = Some a"
      by (simp add: aggregates_in interval_aggregate_def)
    then show "\<exists>y. candle_of_aggregate tf a = Inr y" by (rule candle_of_aggregate_ok) (use cs in simp)
  qed
  have "\<exists>ys. build_replay_aggregates (minutes_of rows) = Inr ys"
    unfolding build_replay_aggregates_def
  proof (rule some, rule ballI)
    fix p assume "p \<in> set (sort_key fst (group_by m1_symbol (minutes_of rows)))"
    then have "(fst p, snd p) \<in> set (group_by m1_symbol (minutes_of rows))" by (simp only: set_sort prod.collapse)
    then obtain s where p: "p = (s, filter (\<lambda>c. m1_symbol c = s) (minutes_of rows))"
      unfolding group_by_in by (metis prod.collapse)
    have "\<forall>c \<in> set (filter (\<lambda>c. m1_symbol c = s) (minutes_of rows)). minute_wf c"
      using assms by (auto simp: minutes_of_def ordered_rows_def)
    then have "\<exists>ys. traverse (\<lambda>tf. rmap (Pair tf) (aggregate_timeframe (filter (\<lambda>c. m1_symbol c = s) (minutes_of rows)) tf)) timeframes = Inr ys"
      by (intro some) (use agg in auto)
    then show "\<exists>y. (case p of (symb, symbol_candles) \<Rightarrow> rmap (Pair symb)
        (traverse (\<lambda>tf. rmap (Pair tf) (aggregate_timeframe symbol_candles tf)) timeframes)) = Inr y"
      by (auto simp: p)
  qed
  then show ?thesis by (auto simp: load_replay_data_def minutes_of_def)
qed

lemma short_replay:
  assumes "\<forall>r \<in> set rows. minute_wf (rw_candle r)" "int (length rows) < minimum_history_candles k"
  shows "replay_candidates rows s k = Inr []"
proof -
  obtain data where d: "load_replay_data rows = Inr data" using load_ok [OF assms(1)] by blast
  have "histories_at symb clock (rd_aggregates data) (rd_closes data) k = None" if symb: "symb \<in> symbols_of rows" for symb clock
  proof -
    have "length (lookup2 (rd_aggregates data) symb tf) \<le> length (filter (\<lambda>c. m1_symbol c = symb) (minutes_of rows))" for tf
      using aggregates_few by (simp add: loaded_lookup(2) [OF d symb] series_of_def)
    moreover have "length (filter (\<lambda>c. m1_symbol c = symb) (minutes_of rows)) \<le> length rows"
      using length_filter_le [of "\<lambda>c. m1_symbol c = symb" "minutes_of rows"] by (simp add: minutes_of_def ordered_rows_def)
    moreover have "length (visible clock (lookup2 (rd_aggregates data) symb tf)) \<le> length (lookup2 (rd_aggregates data) symb tf)" for tf
      by (simp add: visible_def)
    ultimately have "length (visible clock (lookup2 (rd_aggregates data) symb TF_4h)) \<le> length rows" by (meson order_trans)
    then show ?thesis using assms(2) history_alt [OF d symb]
      by (simp add: histories_at_def replay_timeframes_def Let_def)
  qed
  then have "replay_event data s k st e = Inr st" if "e \<in> set (replay_events (rd_aggregates data))" for st e
    using that events_set [OF d] by (cases e) (auto simp: replay_event_def)
  then have "foldM (replay_event data s k) st (replay_events (rd_aggregates data)) =
      foldM (\<lambda>st _. Inr st) st (replay_events (rd_aggregates data))" for st
    by (rule foldM_cong)
  moreover have "foldM (\<lambda>st _. Inr st) st xs = Inr st" for st :: replay_state and xs :: "(instant \<times> string) list"
    by (induction xs) simp_all
  ultimately show ?thesis by (simp add: replay_candidates_def d)
qed

lemma replay_sees_no_future_witness:
  "replay_candidates (winning_rows @ losing_rows) default_strategy_config default_replay_config = Inr [] \<and>
   replay_candidates winning_rows default_strategy_config default_replay_config = Inr [] \<and>
   filter (\<lambda>i. ca_analyzed_at (rn_candidate i) \<le> minutes 1) [] = ([] :: replay_candidate list)"
proof -
  have wf: "\<forall>r \<in> set (winning_rows @ losing_rows). minute_wf (rw_candle r)"
    by (simp add: winning_rows_def losing_rows_def minute_row_def minute_wf_def)
  have r: "replay_candidates (winning_rows @ losing_rows) default_strategy_config default_replay_config = Inr []"
      "replay_candidates winning_rows default_strategy_config default_replay_config = Inr []"
    by (rule short_replay; use wf in \<open>simp add: winning_rows_def losing_rows_def default_replay_config_def\<close>)+
  have k: "mk_replay_config default_replay_config = Inr default_replay_config"
    by (simp add: mk_replay_config_def default_replay_config_def)
  have "filter (\<lambda>r. m1_open_time (rw_candle r) < minutes 1) (winning_rows @ losing_rows) =
      filter (\<lambda>r. m1_open_time (rw_candle r) < minutes 1) winning_rows"
    by (simp add: winning_rows_def losing_rows_def minute_row_def minutes_def)
  from replay_sees_no_future [OF r k this] r show ?thesis by simp
qed

end
