(* ===== verification/Universe.thy ===== *)
theory Universe
  imports Py_Decimal "HOL-Library.List_Lexorder" "HOL-Library.Char_ord"
begin

text \<open>
  \<open>src/src/crypto_smc/universe/policy.py\<close> and the instruments, assets and tickers of \<open>providers/models.py\<close>: which
  perpetual contracts are traded. The assets are decided one by one in the order of their market capitalisation;
  each gets one decision, with the reason when it is excluded.
\<close>

section \<open>providers/models.py\<close>

record instrument =
  iv_symbol :: string
  iv_base_coin :: string
  iv_quote_coin :: string
  iv_settle_coin :: string
  iv_launch_time :: instant
  iv_tick_size :: dec
  iv_min_price :: dec
  iv_max_price :: dec
  iv_quantity_step :: dec
  iv_min_order_quantity :: dec
  iv_max_order_quantity :: dec
  iv_max_market_order_quantity :: dec
  iv_min_notional_value :: dec
  iv_min_leverage :: dec
  iv_max_leverage :: dec
  iv_leverage_step :: dec
  iv_funding_interval_minutes :: int

record market_asset =
  ma_provider_id :: string
  ma_asset_symbol :: string
  ma_name :: string
  ma_market_cap_rank :: int
  ma_market_cap_usd :: dec
  ma_total_volume_usd :: dec
  ma_current_price_usd :: dec
  ma_last_updated :: "instant option"

record market_ticker =
  tk_symbol :: string
  tk_last_price :: dec
  tk_mark_price :: dec
  tk_bid_price :: dec
  tk_ask_price :: dec
  tk_turnover_24h :: dec
  tk_volume_24h :: dec
  tk_open_interest :: dec
  tk_open_interest_value :: dec
  tk_funding_rate :: dec

definition ticker_spread_bps :: "market_ticker \<Rightarrow> dec option" where
  "ticker_spread_bps t =
     (if tk_bid_price t \<le> 0 \<or> tk_ask_price t \<le> 0 then None
      else let midpoint = dhalf (dadd (tk_bid_price t) (tk_ask_price t)) in
           if midpoint \<le> 0 then None
           else Some (dmul (ddivn (dsub (tk_ask_price t) (tk_bid_price t)) midpoint) 10000))"

section \<open>policy.py\<close>

datatype exclusion_reason = Manual_Denylist | Stablecoin | Wrapped_Asset | Tokenized_Stock | Leveraged_Token |
  No_Bybit_Contract | Duplicate_Contract | Missing_Ticker | Insufficient_History | Low_Turnover | Invalid_Spread |
  Spread_Too_Wide | Capacity_Reached

fun exclusion_name :: "exclusion_reason \<Rightarrow> string" where
  "exclusion_name Manual_Denylist = ''manual_denylist''"
| "exclusion_name Stablecoin = ''stablecoin''"
| "exclusion_name Wrapped_Asset = ''wrapped_asset''"
| "exclusion_name Tokenized_Stock = ''tokenized_stock''"
| "exclusion_name Leveraged_Token = ''leveraged_token''"
| "exclusion_name No_Bybit_Contract = ''no_bybit_contract''"
| "exclusion_name Duplicate_Contract = ''duplicate_contract''"
| "exclusion_name Missing_Ticker = ''missing_ticker''"
| "exclusion_name Insufficient_History = ''insufficient_history''"
| "exclusion_name Low_Turnover = ''low_turnover''"
| "exclusion_name Invalid_Spread = ''invalid_spread''"
| "exclusion_name Spread_Too_Wide = ''spread_too_wide''"
| "exclusion_name Capacity_Reached = ''capacity_reached''"

record universe_config =
  uc_size :: int
  uc_min_turnover_24h_usdt :: dec
  uc_max_spread_bps :: dec
  uc_min_trading_history_days :: int
  uc_manual_denylist :: "string list"

text \<open>The detail is the launch time the source prints.\<close>

record universe_decision =
  ud_asset :: market_asset
  ud_instrument_symbol :: "string option"
  ud_exchange_turnover :: "dec option"
  ud_spread_bps :: "dec option"
  ud_is_selected :: bool
  ud_exclusion_reason :: "exclusion_reason option"
  ud_detail :: "instant option"

definition stablecoin_ids :: "string list" where
  "stablecoin_ids = [''binance-usd'', ''dai'', ''ethena-usde'', ''first-digital-usd'', ''frax'', ''gemini-dollar'',
     ''paypal-usd'', ''pax-dollar'', ''stasis-eurs'', ''tether'', ''true-usd'', ''usdb'', ''usd-coin'', ''usdd'', ''usds'']"

definition stablecoin_symbols :: "string list" where
  "stablecoin_symbols = [''BUSD'', ''DAI'', ''EURS'', ''FDUSD'', ''FRAX'', ''GUSD'', ''PYUSD'', ''TUSD'', ''USDC'', ''USDD'',
     ''USDE'', ''USDP'', ''USDS'', ''USDT'']"

definition wrapped_symbols :: "string list" where
  "wrapped_symbols = [''CBBTC'', ''TBTC'', ''WBTC'', ''WETH'', ''WSTETH'']"

definition contract_base_aliases :: "(string \<times> string) list" where
  "contract_base_aliases = [(''BONK'', ''1000BONK''), (''FLOKI'', ''1000FLOKI''), (''LUNC'', ''1000LUNC''), (''PEPE'', ''1000PEPE''),
     (''SATS'', ''1000SATS''), (''SHIB'', ''1000SHIB''), (''XEC'', ''1000XEC'')]"

definition classify :: "universe_config \<Rightarrow> market_asset \<Rightarrow> exclusion_reason option" where
  "classify k asset =
     (let symb = py_upper (ma_asset_symbol asset);
          provider_id = py_lower (ma_provider_id asset);
          name = py_lower (ma_name asset)
      in
      if symb \<in> set (uc_manual_denylist k) \<or> py_upper provider_id \<in> set (uc_manual_denylist k) then Some Manual_Denylist
      else if provider_id \<in> set stablecoin_ids \<or> symb \<in> set stablecoin_symbols \<or> contains_str ''stablecoin'' name
      then Some Stablecoin
      else if starts_with ''wrapped-'' provider_id \<or> starts_with ''wrapped '' name \<or> symb \<in> set wrapped_symbols
      then Some Wrapped_Asset
      else if contains_str ''tokenized stock'' name \<or> contains_str ''stock token'' name then Some Tokenized_Stock
      else if list_ex (\<lambda>suffix. ends_with suffix symb) [''3L'', ''3S'', ''5L'', ''5S'', ''BULL'', ''BEAR'']
      then Some Leveraged_Token
      else None)"

definition index_instruments :: "instrument list \<Rightarrow> (string \<times> instrument list) list" where
  "index_instruments instruments =
     foldl (\<lambda>index i. let base = py_upper (iv_base_coin i) in
        od_put base ((case map_of index base of None \<Rightarrow> [] | Some found \<Rightarrow> found) @ [i]) index) [] instruments"

fun resolve_bases :: "string list \<Rightarrow> (string \<times> instrument list) list \<Rightarrow> instrument option" where
  "resolve_bases [] index = None"
| "resolve_bases (base # bases) index =
     (case map_of index base of
        None \<Rightarrow> resolve_bases bases index
      | Some [] \<Rightarrow> resolve_bases bases index
      | Some (c # cs) \<Rightarrow>
          (case List.find (\<lambda>i. iv_symbol i = base @ ''USDT'') (c # cs) of
             Some i \<Rightarrow> Some i
           | None \<Rightarrow> Some (hd (sort_key iv_symbol (c # cs)))))"

definition possible_bases :: "string \<Rightarrow> string list" where
  "possible_bases asset_symbol =
     (let symb = py_upper asset_symbol in
      symb # (case map_of contract_base_aliases symb of None \<Rightarrow> [] | Some alias \<Rightarrow> [alias]))"

definition resolve_instrument :: "string \<Rightarrow> (string \<times> instrument list) list \<Rightarrow> instrument option" where
  "resolve_instrument asset_symbol index = resolve_bases (possible_bases asset_symbol) index"

definition excluded ::
  "market_asset \<Rightarrow> exclusion_reason \<Rightarrow> string option \<Rightarrow> market_ticker option \<Rightarrow> instant option \<Rightarrow> universe_decision" where
  "excluded asset reason instrument_symbol ticker detail =
     \<lparr>ud_asset = asset, ud_instrument_symbol = instrument_symbol,
      ud_exchange_turnover = map_option tk_turnover_24h ticker,
      ud_spread_bps = Option.bind ticker ticker_spread_bps,
      ud_is_selected = False, ud_exclusion_reason = Some reason, ud_detail = detail\<rparr>"

text \<open>The body of the loop; \<open>selected\<close> are the symbols selected so far.\<close>

definition decide ::
  "universe_config \<Rightarrow> instant \<Rightarrow> (string \<times> instrument list) list \<Rightarrow> (string \<times> market_ticker) list \<Rightarrow> string list \<Rightarrow>
   market_asset \<Rightarrow> universe_decision" where
  "decide k now index tickers selected asset =
     (case classify k asset of
        Some reason \<Rightarrow> excluded asset reason None None None
      | None \<Rightarrow>
     (case resolve_instrument (ma_asset_symbol asset) index of
        None \<Rightarrow> excluded asset No_Bybit_Contract None None None
      | Some i \<Rightarrow>
          let symb = Some (iv_symbol i) in
          if iv_symbol i \<in> set selected then excluded asset Duplicate_Contract symb None None
          else
     (case map_of tickers (iv_symbol i) of
        None \<Rightarrow> excluded asset Missing_Ticker symb None None
      | Some ticker \<Rightarrow>
          if iv_launch_time i > now - days (uc_min_trading_history_days k)
          then excluded asset Insufficient_History symb (Some ticker) (Some (iv_launch_time i))
          else if tk_turnover_24h ticker < uc_min_turnover_24h_usdt k
          then excluded asset Low_Turnover symb (Some ticker) None
          else
     (case ticker_spread_bps ticker of
        None \<Rightarrow> excluded asset Invalid_Spread symb (Some ticker) None
      | Some spread \<Rightarrow>
          if spread < 0 then excluded asset Invalid_Spread symb (Some ticker) None
          else if spread > uc_max_spread_bps k then excluded asset Spread_Too_Wide symb (Some ticker) None
          else if int (length selected) \<ge> uc_size k then excluded asset Capacity_Reached symb (Some ticker) None
          else \<lparr>ud_asset = asset, ud_instrument_symbol = symb, ud_exchange_turnover = Some (tk_turnover_24h ticker),
            ud_spread_bps = Some spread, ud_is_selected = True, ud_exclusion_reason = None, ud_detail = None\<rparr>))))"

fun decide_all ::
  "universe_config \<Rightarrow> instant \<Rightarrow> (string \<times> instrument list) list \<Rightarrow> (string \<times> market_ticker) list \<Rightarrow> string list \<Rightarrow>
   market_asset list \<Rightarrow> universe_decision list" where
  "decide_all k now index tickers selected [] = []"
| "decide_all k now index tickers selected (asset # assets) =
     (let d = decide k now index tickers selected asset in
      d # decide_all k now index tickers
        (if ud_is_selected d then selected @ [the (ud_instrument_symbol d)] else selected) assets)"

definition evaluate_universe ::
  "universe_config \<Rightarrow> market_asset list \<Rightarrow> instrument list \<Rightarrow> (string \<times> market_ticker) list \<Rightarrow> instant \<Rightarrow> universe_decision list" where
  "evaluate_universe k assets instruments tickers now =
     decide_all k now (index_instruments instruments) tickers [] (sort_key ma_market_cap_rank assets)"

section \<open>What the decisions are\<close>

definition selected_symbols :: "universe_decision list \<Rightarrow> string list" where
  "selected_symbols ds = map (\<lambda>d. the (ud_instrument_symbol d)) (filter ud_is_selected ds)"

text \<open>The tests an asset has to pass, apart from those that depend on what is already selected.\<close>

definition eligible ::
  "universe_config \<Rightarrow> instant \<Rightarrow> (string \<times> instrument list) list \<Rightarrow> (string \<times> market_ticker) list \<Rightarrow> market_asset \<Rightarrow> instrument \<Rightarrow> bool" where
  "eligible k now index tickers asset i \<longleftrightarrow> classify k asset = None \<and>
     resolve_instrument (ma_asset_symbol asset) index = Some i \<and> iv_launch_time i \<le> now - days (uc_min_trading_history_days k) \<and>
     (\<exists>ticker spread. map_of tickers (iv_symbol i) = Some ticker \<and> uc_min_turnover_24h_usdt k \<le> tk_turnover_24h ticker \<and>
        ticker_spread_bps ticker = Some spread \<and> 0 \<le> spread \<and> spread \<le> uc_max_spread_bps k)"

lemma decide_asset [simp]: "ud_asset (decide k now index tickers selected asset) = asset"
  by (simp add: decide_def excluded_def Let_def split: option.split)

lemma decide_selected:
  "ud_is_selected (decide k now index tickers selected asset) \<longleftrightarrow>
     (\<exists>i. eligible k now index tickers asset i \<and> iv_symbol i \<notin> set selected \<and> int (length selected) < uc_size k)"
  by (auto simp: decide_def eligible_def excluded_def Let_def not_le not_less split: option.splits)

lemma decide_symbol:
  "ud_is_selected (decide k now index tickers selected asset) \<Longrightarrow> eligible k now index tickers asset i \<Longrightarrow>
     ud_instrument_symbol (decide k now index tickers selected asset) = Some (iv_symbol i)"
  by (auto simp: decide_def eligible_def excluded_def Let_def split: option.splits if_splits)

lemma decide_reason:
  "(ud_exclusion_reason (decide k now index tickers selected asset) = None) = ud_is_selected (decide k now index tickers selected asset)"
  by (simp add: decide_def excluded_def Let_def split: option.split)

lemma decide_capacity:
  "ud_exclusion_reason (decide k now index tickers selected asset) = Some Capacity_Reached \<longleftrightarrow>
     (\<exists>i. eligible k now index tickers asset i \<and> iv_symbol i \<notin> set selected \<and> uc_size k \<le> int (length selected))"
proof -
  have "classify k asset \<noteq> Some Capacity_Reached" by (simp add: classify_def Let_def)
  then show ?thesis
    by (auto simp: decide_def eligible_def excluded_def Let_def not_le not_less split: option.splits)
qed

lemma eligible_unique: "eligible k now index tickers asset i \<Longrightarrow> eligible k now index tickers asset j \<Longrightarrow> i = j"
  by (simp add: eligible_def)

lemma decide_all_assets: "map ud_asset (decide_all k now index tickers selected assets) = assets"
  by (induction assets arbitrary: selected) (simp_all add: Let_def)

lemma decide_all_bounds:
  assumes "distinct selected" "int (length selected) \<le> max 0 (uc_size k)"
  shows "distinct (selected @ selected_symbols (decide_all k now index tickers selected assets)) \<and>
     int (length (selected @ selected_symbols (decide_all k now index tickers selected assets))) \<le> max 0 (uc_size k)"
  using assms
proof (induction assets arbitrary: selected)
  case (Cons asset assets)
  let ?d = "decide k now index tickers selected asset"
  show ?case
  proof (cases "ud_is_selected ?d")
    case True
    then obtain i where i: "eligible k now index tickers asset i" "iv_symbol i \<notin> set selected" "int (length selected) < uc_size k"
      unfolding decide_selected by blast
    have s: "ud_instrument_symbol ?d = Some (iv_symbol i)" using decide_symbol [OF True i(1)] .
    have "distinct (selected @ [iv_symbol i])" "int (length (selected @ [iv_symbol i])) \<le> max 0 (uc_size k)"
      using Cons.prems i(2,3) by auto
    from Cons.IH [OF this] show ?thesis using True s by (simp add: Let_def selected_symbols_def)
  next
    case False
    then show ?thesis using Cons by (simp add: Let_def selected_symbols_def)
  qed
qed (simp add: selected_symbols_def)

text \<open>The decision at each position, from what the earlier decisions selected.\<close>

lemma decide_all_nth:
  assumes "j < length assets"
  shows "decide_all k now index tickers selected assets ! j =
     decide k now index tickers (selected @ selected_symbols (take j (decide_all k now index tickers selected assets))) (assets ! j)"
  using assms
proof (induction assets arbitrary: selected j)
  case (Cons asset assets)
  then show ?case by (cases j) (simp_all add: Let_def selected_symbols_def)
qed simp

lemma decide_all_length [simp]: "length (decide_all k now index tickers selected assets) = length assets"
  using decide_all_assets [of k now index tickers selected assets] by (metis length_map)

text \<open>The contract an asset resolves to is one of the listed contracts on its coin or on the alias of the coin.\<close>

lemma index_lookup:
  "map_of (index_instruments listed) base = (let found = filter (\<lambda>i. py_upper (iv_base_coin i) = base) listed in if found = [] then None else Some found)"
proof (induction listed rule: rev_induct)
  case (snoc i listed)
  then show ?case by (auto simp: index_instruments_def Let_def split: option.splits if_splits)
qed (simp add: index_instruments_def)

lemma resolved:
  assumes "resolve_instrument symb (index_instruments listed) = Some i"
  shows "i \<in> set listed \<and> py_upper (iv_base_coin i) \<in> set (possible_bases symb)"
proof -
  have "i \<in> set listed \<and> py_upper (iv_base_coin i) \<in> set bases"
    if "resolve_bases bases (index_instruments listed) = Some i" for bases
    using that
  proof (induction bases)
    case (Cons base bases)
    show ?case
    proof (cases "map_of (index_instruments listed) base")
      case None
      then show ?thesis using Cons by auto
    next
      case (Some found)
      then have f: "found = filter (\<lambda>i. py_upper (iv_base_coin i) = base) listed" "found \<noteq> []"
        by (auto simp: index_lookup Let_def split: if_splits)
      obtain c cs where c: "found = c # cs" using f(2) by (cases found) simp_all
      have "hd (sort_key iv_symbol found) \<in> set found" using f(2) by (metis hd_in_set set_sort sort_key_simps(1) length_0_conv length_sort)
      moreover have "(case List.find (\<lambda>i. iv_symbol i = base @ ''USDT'') found of Some i \<Rightarrow> Some i
          | None \<Rightarrow> Some (hd (sort_key iv_symbol found))) = Some i"
        using Cons.prems Some unfolding c by simp
      then have "List.find (\<lambda>i. iv_symbol i = base @ ''USDT'') found = Some i \<or> i = hd (sort_key iv_symbol found)"
        by (auto split: option.splits)
      ultimately have "i \<in> set found" by (auto simp: find_Some_iff)
      then show ?thesis using f(1) by auto
    qed
  qed simp
  then show ?thesis using assms by (simp add: resolve_instrument_def)
qed

lemma evaluate_nth:
  assumes "j < length assets"
  shows "evaluate_universe k assets instruments tickers now ! j =
     decide k now (index_instruments instruments) tickers
       (selected_symbols (take j (evaluate_universe k assets instruments tickers now))) (sort_key ma_market_cap_rank assets ! j)"
  using decide_all_nth [of j "sort_key ma_market_cap_rank assets" k now _ tickers "[]"] assms by (simp add: evaluate_universe_def)

lemma evaluate_assets: "map ud_asset (evaluate_universe k assets instruments tickers now) = sort_key ma_market_cap_rank assets"
  by (simp add: evaluate_universe_def decide_all_assets)

lemma evaluate_length [simp]: "length (evaluate_universe k assets instruments tickers now) = length assets"
  by (simp add: evaluate_universe_def)

lemma selected_is_listed:
  assumes d: "d \<in> set (evaluate_universe k assets instruments tickers now)" "ud_is_selected d"
  shows "\<exists>i \<in> set instruments. ud_instrument_symbol d = Some (iv_symbol i)"
proof -
  obtain j where j: "j < length assets" "d = evaluate_universe k assets instruments tickers now ! j"
    using d(1) by (auto simp: in_set_conv_nth)
  obtain i where i: "eligible k now (index_instruments instruments) tickers (sort_key ma_market_cap_rank assets ! j) i"
    using d(2) unfolding j(2) evaluate_nth [OF j(1)] decide_selected by blast
  have "ud_instrument_symbol d = Some (iv_symbol i)"
    using decide_symbol [OF _ i] d(2) unfolding j(2) evaluate_nth [OF j(1)] by simp
  then show ?thesis using i resolved by (auto simp: eligible_def)
qed

section \<open>Properties\<close>

text \<open>C26: The universe is a sound greedy selection. Every asset gets exactly one decision, in the order of its rank,
  and a reason exactly when it is not selected; the selected contracts are distinct, listed, and no more than the
  size; and the asset at a position is selected exactly when it passes the classification, history, turnover and
  spread tests, its contract was not selected before, and there was room left.\<close>

theorem universe_is_a_greedy_selection:
  "let ds = evaluate_universe k assets instruments tickers now;
       index = index_instruments instruments;
       ranked = sort_key ma_market_cap_rank assets in
     map ud_asset ds = ranked \<and>
     distinct (selected_symbols ds) \<and> int (length (selected_symbols ds)) \<le> max 0 (uc_size k) \<and>
     set (selected_symbols ds) \<subseteq> iv_symbol ` set instruments \<and>
     (\<forall>d \<in> set ds. (ud_exclusion_reason d = None) = ud_is_selected d) \<and>
     (\<forall>j < length ranked. ud_is_selected (ds ! j) \<longleftrightarrow> (\<exists>i. eligible k now index tickers (ranked ! j) i \<and>
        iv_symbol i \<notin> set (selected_symbols (take j ds)) \<and> int (length (selected_symbols (take j ds))) < uc_size k))"
proof -
  define ds where "ds = evaluate_universe k assets instruments tickers now"
  define index where "index = index_instruments instruments"
  define ranked where "ranked = sort_key ma_market_cap_rank assets"
  have len: "length ds = length assets" "length ranked = length assets" by (simp_all add: ds_def ranked_def)
  have nth: "ds ! j = decide k now index tickers (selected_symbols (take j ds)) (ranked ! j)" if "j < length ranked" for j
    using evaluate_nth [of j assets k instruments tickers now] that len by (simp add: ds_def index_def ranked_def)
  have bounds: "distinct (selected_symbols ds)" "int (length (selected_symbols ds)) \<le> max 0 (uc_size k)"
    using decide_all_bounds [of "[]" k now index tickers ranked] by (simp_all add: ds_def evaluate_universe_def index_def ranked_def)
  have reasons: "(ud_exclusion_reason d = None) = ud_is_selected d" if d: "d \<in> set ds" for d
  proof -
    obtain j where "j < length ranked" "d = ds ! j" using d len by (auto simp: in_set_conv_nth)
    then show ?thesis using nth decide_reason by metis
  qed
  have listed: "set (selected_symbols ds) \<subseteq> iv_symbol ` set instruments"
    using selected_is_listed [of _ k assets instruments tickers now] by (fastforce simp: selected_symbols_def ds_def)
  have "ud_is_selected (ds ! j) \<longleftrightarrow> (\<exists>i. eligible k now index tickers (ranked ! j) i \<and>
        iv_symbol i \<notin> set (selected_symbols (take j ds)) \<and> int (length (selected_symbols (take j ds))) < uc_size k)"
    if "j < length ranked" for j
    unfolding nth [OF that] decide_selected ..
  then show ?thesis
    using bounds reasons listed evaluate_assets [of k assets instruments tickers now]
    unfolding Let_def ds_def [symmetric] index_def [symmetric] ranked_def [symmetric] by (auto simp: len)
qed

definition sample_universe_config :: universe_config where
  "sample_universe_config = \<lparr>uc_size = 1, uc_min_turnover_24h_usdt = 100, uc_max_spread_bps = 20,
     uc_min_trading_history_days = 30, uc_manual_denylist = []\<rparr>"

definition sample_asset :: "string \<Rightarrow> int \<Rightarrow> market_asset" where
  "sample_asset symb rank = \<lparr>ma_provider_id = symb, ma_asset_symbol = symb, ma_name = symb, ma_market_cap_rank = rank,
     ma_market_cap_usd = 1000, ma_total_volume_usd = 1000, ma_current_price_usd = 1, ma_last_updated = None\<rparr>"

definition sample_instrument :: "string \<Rightarrow> instrument" where
  "sample_instrument base = \<lparr>iv_symbol = base @ ''USDT'', iv_base_coin = base, iv_quote_coin = ''USDT'', iv_settle_coin = ''USDT'',
     iv_launch_time = 0, iv_tick_size = 1, iv_min_price = 1, iv_max_price = 1000, iv_quantity_step = 1,
     iv_min_order_quantity = 1, iv_max_order_quantity = 1000, iv_max_market_order_quantity = 1000, iv_min_notional_value = 5,
     iv_min_leverage = 1, iv_max_leverage = 100, iv_leverage_step = 1, iv_funding_interval_minutes = 480\<rparr>"

definition sample_ticker :: "string \<Rightarrow> market_ticker" where
  "sample_ticker symb = \<lparr>tk_symbol = symb, tk_last_price = 1000, tk_mark_price = 1000, tk_bid_price = 999, tk_ask_price = 1000,
     tk_turnover_24h = 500, tk_volume_24h = 1, tk_open_interest = 1, tk_open_interest_value = 1000, tk_funding_rate = 0\<rparr>"

definition sample_decisions :: "universe_decision list" where
  "sample_decisions = evaluate_universe sample_universe_config [sample_asset ''eth'' 2, sample_asset ''btc'' 1, sample_asset ''usdt'' 3]
     [sample_instrument ''ETH'', sample_instrument ''BTC''] [(''ETHUSDT'', sample_ticker ''ETHUSDT''), (''BTCUSDT'', sample_ticker ''BTCUSDT'')]
     (days 40)"

lemma sample_decisions_values:
  "map (\<lambda>d. (ma_asset_symbol (ud_asset d), ud_exclusion_reason d)) sample_decisions =
     [(''btc'', None), (''eth'', Some Capacity_Reached), (''usdt'', Some Stablecoin)]"
  by code_simp

lemma sample_selection: "selected_symbols sample_decisions = [''BTCUSDT'']"
  by code_simp

lemma universe_is_a_greedy_selection_witness:
  "selected_symbols sample_decisions = [''BTCUSDT''] \<and> distinct (selected_symbols sample_decisions) \<and>
     int (length (selected_symbols sample_decisions)) \<le> 1"
proof -
  note sample_selection
  moreover have "distinct (selected_symbols sample_decisions)"
      "int (length (selected_symbols sample_decisions)) \<le> max 0 (uc_size sample_universe_config)"
    using universe_is_a_greedy_selection [of sample_universe_config
        "[sample_asset ''eth'' 2, sample_asset ''btc'' 1, sample_asset ''usdt'' 3]"
        "[sample_instrument ''ETH'', sample_instrument ''BTC'']"
        "[(''ETHUSDT'', sample_ticker ''ETHUSDT''), (''BTCUSDT'', sample_ticker ''BTCUSDT'')]" "days 40"]
    unfolding Let_def sample_decisions_def [symmetric] by blast+
  moreover have "uc_size sample_universe_config = 1" by (simp add: sample_universe_config_def)
  ultimately show ?thesis by simp
qed

end
