(* ===== verification/Universe_Refresh.thy ===== *)
theory Universe_Refresh
  imports Universe Market_Stream
begin

text \<open>
  \<open>src/src/crypto_smc/services/universe_refresh.py\<close> and \<open>instrument_sync.py\<close> with \<open>db/repositories/universe.py\<close> and
  \<open>instruments.py\<close>: the refresh asks the three providers, replaces the set of active instruments and stores the
  decisions as the new active snapshot. The advisory lock is an argument. \<open>market_view\<close> is what the ingestion of
  \<open>Market_Data\<close> reads of these tables.
\<close>

section \<open>The tables\<close>

record instrument_record =
  ir_instrument :: instrument
  ir_is_active :: bool
  ir_updated_at :: instant

record universe_settings =
  us_size :: int
  us_ranking_fetch_limit :: int
  us_min_turnover :: dec
  us_max_spread_bps :: dec
  us_min_history_days :: int
  us_denylist :: "string list"

record snapshot_record =
  ss_id :: int
  ss_source :: string
  ss_status :: string
  ss_is_active :: bool
  ss_source_asset_count :: int
  ss_selected_count :: int
  ss_configuration :: universe_settings
  ss_source_updated_at :: "instant option"
  ss_activated_at :: "instant option"

record member_record =
  mr_snapshot_id :: int
  mr_provider_id :: string
  mr_asset_symbol :: string
  mr_asset_name :: string
  mr_market_cap_rank :: int
  mr_market_cap_usd :: dec
  mr_provider_volume_24h_usd :: dec
  mr_instrument_symbol :: "string option"
  mr_exchange_turnover :: "dec option"
  mr_spread_bps :: "dec option"
  mr_is_selected :: bool
  mr_exclusion_reason :: "string option"
  mr_decision_detail :: "instant option"

record universe_db =
  ub_instruments :: "instrument_record list"
  ub_snapshots :: "snapshot_record list"
  ub_members :: "member_record list"
  ub_next_snapshot :: int

definition instrument_key :: "instrument_record \<Rightarrow> string" where
  "instrument_key r = iv_symbol (ir_instrument r)"

section \<open>db/repositories/instruments.py\<close>

definition put_instrument :: "instant \<Rightarrow> instrument_record list \<Rightarrow> instrument \<Rightarrow> instrument_record list" where
  "put_instrument now rows i =
     (let row = \<lparr>ir_instrument = i, ir_is_active = True, ir_updated_at = now\<rparr>
      in upsert instrument_key (\<lambda>_. row) row rows)"

definition replace_active_set :: "instant \<Rightarrow> instrument list \<Rightarrow> universe_db \<Rightarrow> universe_db" where
  "replace_active_set now instruments db =
     (let symbols = map iv_symbol instruments;
          rows = map (\<lambda>r. if instrument_key r \<notin> set symbols then r\<lparr>ir_is_active := False, ir_updated_at := now\<rparr> else r)
            (ub_instruments db)
      in db\<lparr>ub_instruments := foldl (put_instrument now) rows instruments\<rparr>)"

section \<open>db/repositories/universe.py\<close>

definition member_of :: "int \<Rightarrow> universe_decision \<Rightarrow> member_record" where
  "member_of snapshot_id d =
     \<lparr>mr_snapshot_id = snapshot_id, mr_provider_id = ma_provider_id (ud_asset d), mr_asset_symbol = ma_asset_symbol (ud_asset d),
      mr_asset_name = ma_name (ud_asset d), mr_market_cap_rank = ma_market_cap_rank (ud_asset d),
      mr_market_cap_usd = ma_market_cap_usd (ud_asset d), mr_provider_volume_24h_usd = ma_total_volume_usd (ud_asset d),
      mr_instrument_symbol = ud_instrument_symbol d, mr_exchange_turnover = ud_exchange_turnover d,
      mr_spread_bps = ud_spread_bps d, mr_is_selected = ud_is_selected d,
      mr_exclusion_reason = map_option exclusion_name (ud_exclusion_reason d), mr_decision_detail = ud_detail d\<rparr>"

definition save_snapshot ::
  "instant \<Rightarrow> universe_decision list \<Rightarrow> string \<Rightarrow> universe_settings \<Rightarrow> instant option \<Rightarrow> universe_db \<Rightarrow> (int \<times> universe_db) res" where
  "save_snapshot now decisions source configuration source_updated_at db =
     (let snapshot = \<lparr>ss_id = ub_next_snapshot db, ss_source = source, ss_status = ''active'', ss_is_active = True,
            ss_source_asset_count = int (length decisions), ss_selected_count = int (length (filter ud_is_selected decisions)),
            ss_configuration = configuration, ss_source_updated_at = source_updated_at, ss_activated_at = Some now\<rparr>;
          superseded = map (\<lambda>s. if ss_is_active s then s\<lparr>ss_is_active := False, ss_status := ''superseded''\<rparr> else s) (ub_snapshots db)
      in rbind (raise_if (\<not> distinct (map (\<lambda>d. ma_provider_id (ud_asset d)) decisions)) (RuntimeError ''IntegrityError'')) (\<lambda>_.
         Inr (ss_id snapshot, db\<lparr>ub_snapshots := superseded @ [snapshot],
           ub_members := ub_members db @ map (member_of (ss_id snapshot)) decisions,
           ub_next_snapshot := ub_next_snapshot db + 1\<rparr>)))"

definition get_current :: "universe_db \<Rightarrow> (snapshot_record \<times> member_record list) option" where
  "get_current db =
     (case sort_key (\<lambda>s. - ss_id s) (filter ss_is_active (ub_snapshots db)) of
        [] \<Rightarrow> None
      | s # _ \<Rightarrow> Some (s, sort_key mr_market_cap_rank (filter (\<lambda>m. mr_snapshot_id m = ss_id s) (ub_members db))))"

section \<open>services/universe_refresh.py and instrument_sync.py\<close>

record refresh_env =
  rf_lock_acquired :: bool
  rf_instruments :: "instrument list res"
  rf_tickers :: "(string \<times> market_ticker) list res"
  rf_assets :: "market_asset list res"

definition configuration_snapshot :: "universe_config \<Rightarrow> int \<Rightarrow> universe_settings" where
  "configuration_snapshot k fetch_limit =
     \<lparr>us_size = uc_size k, us_ranking_fetch_limit = fetch_limit, us_min_turnover = uc_min_turnover_24h_usdt k,
      us_max_spread_bps = uc_max_spread_bps k, us_min_history_days = uc_min_trading_history_days k,
      us_denylist = sort (dedup (uc_manual_denylist k))\<rparr>"

definition latest_source_update :: "market_asset list \<Rightarrow> instant option" where
  "latest_source_update assets =
     (case List.map_filter ma_last_updated assets of [] \<Rightarrow> None | t # ts \<Rightarrow> Some (foldl max t ts))"

definition refresh_universe ::
  "refresh_env \<Rightarrow> universe_config \<Rightarrow> int \<Rightarrow> instant \<Rightarrow> universe_db \<Rightarrow> int option res \<times> universe_db" where
  "refresh_universe env k fetch_limit now db =
     (if \<not> rf_lock_acquired env then (Inr None, db)
      else case (rf_instruments env, rf_tickers env, rf_assets env) of
        (Inr instruments, Inr tickers, Inr assets) \<Rightarrow>
          let db = replace_active_set now instruments db;
              decisions = evaluate_universe k assets instruments tickers now
          in (case save_snapshot now decisions ''coingecko'' (configuration_snapshot k fetch_limit) (latest_source_update assets) db of
                Inl e \<Rightarrow> (Inl e, db)
              | Inr (snapshot_id, db) \<Rightarrow> (Inr (Some snapshot_id), db))
      | _ \<Rightarrow> (Inr None, db))"

definition sync_instruments :: "instrument list res \<Rightarrow> instant \<Rightarrow> universe_db \<Rightarrow> (int \<times> universe_db) res" where
  "sync_instruments provider now db =
     rbind provider (\<lambda>instruments. Inr (int (length instruments), replace_active_set now instruments db))"

section \<open>What the ingestion reads\<close>

definition view_snapshot :: "snapshot_record \<Rightarrow> snapshot_row" where
  "view_snapshot s = \<lparr>sn_id = ss_id s, sn_is_active = ss_is_active s\<rparr>"

definition view_member :: "member_record \<Rightarrow> member_row" where
  "view_member m = \<lparr>um_snapshot_id = mr_snapshot_id m, um_instrument_symbol = mr_instrument_symbol m,
     um_market_cap_rank = mr_market_cap_rank m, um_is_selected = mr_is_selected m\<rparr>"

definition view_instrument :: "instrument_record \<Rightarrow> instrument_row" where
  "view_instrument r = \<lparr>in_symbol = instrument_key r, in_launch_time = iv_launch_time (ir_instrument r)\<rparr>"

definition market_view :: "universe_db \<Rightarrow> market_db \<Rightarrow> market_db" where
  "market_view u db = db\<lparr>md_snapshots := map view_snapshot (ub_snapshots u), md_members := map view_member (ub_members u),
     md_instruments := map view_instrument (ub_instruments u)\<rparr>"

definition universe_ok :: "universe_db \<Rightarrow> bool" where
  "universe_ok u \<longleftrightarrow> distinct (map instrument_key (ub_instruments u)) \<and> distinct (map ss_id (ub_snapshots u)) \<and>
     (\<forall>s \<in> set (ub_snapshots u). ss_id s < ub_next_snapshot u) \<and> (\<forall>m \<in> set (ub_members u). mr_snapshot_id m < ub_next_snapshot u)"

lemma view_simps [simp]:
  "sn_id (view_snapshot s) = ss_id s" "sn_is_active (view_snapshot s) = ss_is_active s"
  "um_snapshot_id (view_member m) = mr_snapshot_id m" "um_instrument_symbol (view_member m) = mr_instrument_symbol m"
  "um_market_cap_rank (view_member m) = mr_market_cap_rank m" "um_is_selected (view_member m) = mr_is_selected m"
  "in_symbol (view_instrument r) = instrument_key r" "in_launch_time (view_instrument r) = iv_launch_time (ir_instrument r)"
  by (simp_all add: view_snapshot_def view_member_def view_instrument_def)

lemma put_instrument_ok:
  "distinct (map instrument_key rows) \<Longrightarrow> distinct (map instrument_key (foldl (put_instrument now) rows is'))"
  "instrument_key ` set (foldl (put_instrument now) rows is') = instrument_key ` set rows \<union> iv_symbol ` set is'"
proof (induction is' arbitrary: rows)
  case (Cons i is')
  define row where "row = \<lparr>ir_instrument = i, ir_is_active = True, ir_updated_at = now\<rparr>"
  have p: "put_instrument now rows i = upsert instrument_key (\<lambda>_. row) row rows" for rows
    by (simp add: put_instrument_def row_def Let_def)
  have k: "instrument_key row = iv_symbol i" by (simp add: row_def instrument_key_def)
  {
    case 1
    then have "distinct (map instrument_key (put_instrument now rows i))" unfolding p by (intro upsert_distinct) simp_all
    then show ?case using Cons.IH(1) by simp
  next
    case 2
    have "instrument_key ` set (put_instrument now rows i) = insert (iv_symbol i) (instrument_key ` set rows)"
      unfolding p by (subst upsert_keys) (simp_all add: k)
    then show ?case using Cons.IH(2) by simp
  }
qed simp_all

lemma replace_active_set_ok:
  assumes "universe_ok u"
  shows "universe_ok (replace_active_set now is' u)"
    and "iv_symbol ` set is' \<subseteq> instrument_key ` set (ub_instruments (replace_active_set now is' u))"
    and "ub_next_snapshot (replace_active_set now is' u) = ub_next_snapshot u"
proof -
  define rows where "rows = map (\<lambda>r. if instrument_key r \<notin> set (map iv_symbol is') then r\<lparr>ir_is_active := False, ir_updated_at := now\<rparr> else r) (ub_instruments u)"
  have e: "replace_active_set now is' u = u\<lparr>ub_instruments := foldl (put_instrument now) rows is'\<rparr>"
    by (simp add: replace_active_set_def rows_def)
  have "map instrument_key rows = map instrument_key (ub_instruments u)" by (simp add: rows_def instrument_key_def)
  then have "distinct (map instrument_key rows)" using assms by (simp only: universe_ok_def)
  from put_instrument_ok(1) [OF this] show "universe_ok (replace_active_set now is' u)"
    using assms by (simp add: e universe_ok_def)
  show "iv_symbol ` set is' \<subseteq> instrument_key ` set (ub_instruments (replace_active_set now is' u))"
    using put_instrument_ok(2) by (simp add: e)
  show "ub_next_snapshot (replace_active_set now is' u) = ub_next_snapshot u" by (simp add: e)
qed

lemma save_snapshot_ok:
  assumes "save_snapshot now ds source c t u = Inr (n, u')" "universe_ok u"
  shows "universe_ok u'" "n = ub_next_snapshot u" "ub_instruments u' = ub_instruments u"
    "ub_members u' = ub_members u @ map (member_of n) ds"
    "filter ss_is_active (ub_snapshots u') = [last (ub_snapshots u')]" "ub_snapshots u' \<noteq> []" "ss_id (last (ub_snapshots u')) = n"
    "\<forall>s \<in> set (butlast (ub_snapshots u')). ss_id s < n"
proof -
  define f where "f = (\<lambda>s :: snapshot_record. if ss_is_active s then s\<lparr>ss_is_active := False, ss_status := ''superseded''\<rparr> else s)"
  define snap where "snap = \<lparr>ss_id = ub_next_snapshot u, ss_source = source, ss_status = ''active'', ss_is_active = True,
            ss_source_asset_count = int (length ds), ss_selected_count = int (length (filter ud_is_selected ds)),
            ss_configuration = c, ss_source_updated_at = t, ss_activated_at = Some now\<rparr>"
  have e: "n = ub_next_snapshot u" "u' = u\<lparr>ub_snapshots := map f (ub_snapshots u) @ [snap], ub_members := ub_members u @ map (member_of n) ds,
      ub_next_snapshot := ub_next_snapshot u + 1\<rparr>"
    using assms(1) by (auto simp: save_snapshot_def Let_def f_def snap_def)
  have f: "ss_id (f s) = ss_id s" "\<not> ss_is_active (f s)" for s by (simp_all add: f_def)
  have snap: "ss_id snap = n" "ss_is_active snap" by (simp_all add: snap_def e(1))
  show "n = ub_next_snapshot u" "ub_instruments u' = ub_instruments u" "ub_members u' = ub_members u @ map (member_of n) ds"
    by (simp_all add: e)
  show "filter ss_is_active (ub_snapshots u') = [last (ub_snapshots u')]" "ub_snapshots u' \<noteq> []" "ss_id (last (ub_snapshots u')) = n"
    using f snap by (simp_all add: e(2) filter_empty_conv)
  show "\<forall>s \<in> set (butlast (ub_snapshots u')). ss_id s < n"
    using assms(2) f by (auto simp: e universe_ok_def)
  have "map ss_id (map f (ub_snapshots u)) = map ss_id (ub_snapshots u)" using f by simp
  then have "distinct (map ss_id (map f (ub_snapshots u)))" using assms(2) by (simp only: universe_ok_def)
  then show "universe_ok u'"
    using assms(2) f snap by (auto simp: e universe_ok_def member_of_def comp_def)
qed

lemma concat_single:
  assumes "distinct xs" "x \<in> set xs" "\<And>y. y \<in> set xs \<Longrightarrow> y \<noteq> x \<Longrightarrow> h y = []"
  shows "concat (map h xs) = h x"
  using assms
proof (induction xs)
  case (Cons y ys)
  show ?case
  proof (cases "y = x")
    case True
    then have "concat (map h ys) = []" using Cons.prems by auto
    with True show ?thesis by simp
  next
    case False
    then show ?thesis using Cons by simp
  qed
qed simp

lemma member_targets:
  assumes "distinct (map ss_id ss)" "s \<in> set ss" "ss_id s = mr_snapshot_id m" "ss_is_active s" "mr_is_selected m"
    and "distinct (map instrument_key is')" "r \<in> set is'" "mr_instrument_symbol m = Some (instrument_key r)"
  shows "[\<lparr>tg_symbol = in_symbol i, tg_market_cap_rank = um_market_cap_rank (view_member m), tg_launch_time = in_launch_time i\<rparr>.
         s \<leftarrow> map view_snapshot ss, i \<leftarrow> map view_instrument is',
         sn_id s = um_snapshot_id (view_member m), um_instrument_symbol (view_member m) = Some (in_symbol i), sn_is_active s,
         um_is_selected (view_member m)] =
     [\<lparr>tg_symbol = instrument_key r, tg_market_cap_rank = mr_market_cap_rank m, tg_launch_time = iv_launch_time (ir_instrument r)\<rparr>]"
proof -
  define g where "g = (\<lambda>i :: instrument_row. \<lparr>tg_symbol = in_symbol i, tg_market_cap_rank = mr_market_cap_rank m, tg_launch_time = in_launch_time i\<rparr>)"
  define inner where "inner = (\<lambda>s :: snapshot_record. concat (map (\<lambda>r. if ss_id s = mr_snapshot_id m then
      if mr_instrument_symbol m = Some (instrument_key r) then if ss_is_active s then if mr_is_selected m then [g (view_instrument r)] else [] else [] else [] else []) is'))"
  have "distinct ss" using assms(1) by (simp add: distinct_map)
  have "inner y = []" if "y \<in> set ss" "y \<noteq> s" for y
  proof -
    have "ss_id y \<noteq> mr_snapshot_id m" using assms(1-3) that unfolding distinct_map by (metis inj_onD)
    then show ?thesis by (simp add: inner_def)
  qed
  from concat_single [OF \<open>distinct ss\<close> assms(2) this] have "concat (map inner ss) = inner s" .
  moreover have "inner s = concat (map (\<lambda>q. if instrument_key q = instrument_key r then [g (view_instrument q)] else []) is')"
    using assms(3-5,8) by (auto simp: inner_def intro!: arg_cong [of _ _ concat])
  moreover have "\<dots> = [g (view_instrument r)]"
  proof -
    have "distinct is'" using assms(6) by (simp add: distinct_map)
    have "(if instrument_key q = instrument_key r then [g (view_instrument q)] else []) = []" if "q \<in> set is'" "q \<noteq> r" for q
      using assms(6,7) that by (auto simp: distinct_map dest: inj_onD)
    from concat_single [OF \<open>distinct is'\<close> assms(7), of "\<lambda>q. if instrument_key q = instrument_key r then [g (view_instrument q)] else []", OF this]
    show ?thesis by simp
  qed
  ultimately have "concat (map inner ss) = [g (view_instrument r)]" by simp
  then show ?thesis
    unfolding inner_def g_def map_map comp_def view_simps .
qed

lemma no_targets:
  assumes "\<And>s. s \<in> set ss \<Longrightarrow> ss_id s = mr_snapshot_id m \<Longrightarrow> ss_is_active s \<Longrightarrow> \<not> mr_is_selected m"
  shows "[\<lparr>tg_symbol = in_symbol i, tg_market_cap_rank = um_market_cap_rank (view_member m), tg_launch_time = in_launch_time i\<rparr>.
         s \<leftarrow> map view_snapshot ss, i \<leftarrow> map view_instrument is',
         sn_id s = um_snapshot_id (view_member m), um_instrument_symbol (view_member m) = Some (in_symbol i), sn_is_active s,
         um_is_selected (view_member m)] = []"
  using assms by auto

lemma snapshot_targets:
  assumes "universe_ok u" "n = ub_next_snapshot u"
    and u': "universe_ok u'" "ub_instruments u' = ub_instruments u" "ub_members u' = ub_members u @ map (member_of n) ds"
      "filter ss_is_active (ub_snapshots u') = [last (ub_snapshots u')]" "ub_snapshots u' \<noteq> []" "ss_id (last (ub_snapshots u')) = n"
    and ds: "\<And>d. d \<in> set ds \<Longrightarrow> ud_is_selected d \<Longrightarrow>
        \<exists>r \<in> set (ub_instruments u). ud_instrument_symbol d = Some (instrument_key r)"
      "sorted (map (\<lambda>d. ma_market_cap_rank (ud_asset d)) ds)"
  shows "list_active_symbols (market_view u' db) = selected_symbols ds"
proof -
  let ?ss = "ub_snapshots u'" and ?is = "ub_instruments u'"
  define found where "found = (\<lambda>m. [\<lparr>tg_symbol = in_symbol i, tg_market_cap_rank = um_market_cap_rank (view_member m), tg_launch_time = in_launch_time i\<rparr>.
         s \<leftarrow> map view_snapshot ?ss, i \<leftarrow> map view_instrument ?is,
         sn_id s = um_snapshot_id (view_member m), um_instrument_symbol (view_member m) = Some (in_symbol i), sn_is_active s,
         um_is_selected (view_member m)])"
  have targets: "list_active_targets (market_view u' db) = sort_key tg_market_cap_rank (concat (map found (ub_members u')))"
    by (simp add: list_active_targets_def market_view_def found_def comp_def)
  have active: "s = last ?ss" if "s \<in> set ?ss" "ss_is_active s" for s
  proof -
    have "s \<in> set (filter ss_is_active ?ss)" using that by simp
    then show ?thesis unfolding u'(4) by simp
  qed
  have old: "found m = []" if "m \<in> set (ub_members u)" for m
    unfolding found_def
  proof (rule no_targets)
    fix s assume "s \<in> set ?ss" "ss_id s = mr_snapshot_id m" "ss_is_active s"
    then have "mr_snapshot_id m = n" using active u'(6) by metis
    moreover have "mr_snapshot_id m < n" using that assms(1,2) by (auto simp: universe_ok_def)
    ultimately show "\<not> mr_is_selected m" by simp
  qed
  have new: "map tg_symbol (found (member_of n d)) = (if ud_is_selected d then [the (ud_instrument_symbol d)] else []) \<and>
      (\<forall>t \<in> set (found (member_of n d)). tg_market_cap_rank t = ma_market_cap_rank (ud_asset d))"
    if d: "d \<in> set ds" for d
  proof (cases "ud_is_selected d")
    case True
    obtain r where r: "r \<in> set ?is" "ud_instrument_symbol d = Some (instrument_key r)" using ds(1) [OF d True] u'(2) by auto
    have "last ?ss \<in> set ?ss" "ss_is_active (last ?ss)" using u'(4,5) by (auto simp: filter_eq_Cons_iff)
    then have "found (member_of n d) = [\<lparr>tg_symbol = instrument_key r, tg_market_cap_rank = mr_market_cap_rank (member_of n d),
        tg_launch_time = iv_launch_time (ir_instrument r)\<rparr>]"
      unfolding found_def using u'(1,6) r True
      by (intro member_targets [of _ "last ?ss"]) (auto simp: universe_ok_def member_of_def)
    with True r show ?thesis by (simp add: member_of_def)
  next
    case False
    have "found (member_of n d) = []" unfolding found_def by (rule no_targets) (use False in \<open>simp add: member_of_def\<close>)
    with False show ?thesis by simp
  qed
  have part: "map tg_symbol (concat (map (\<lambda>d. found (member_of n d)) xs)) = selected_symbols xs \<and>
      sorted (map tg_market_cap_rank (concat (map (\<lambda>d. found (member_of n d)) xs))) \<and>
      set (map tg_market_cap_rank (concat (map (\<lambda>d. found (member_of n d)) xs))) \<subseteq> set (map (\<lambda>d. ma_market_cap_rank (ud_asset d)) xs)"
    if "set xs \<subseteq> set ds" "sorted (map (\<lambda>d. ma_market_cap_rank (ud_asset d)) xs)" for xs
    using that
  proof (induction xs)
    case (Cons d xs)
    then have ih: "map tg_symbol (concat (map (\<lambda>d. found (member_of n d)) xs)) = selected_symbols xs"
        "sorted (map tg_market_cap_rank (concat (map (\<lambda>d. found (member_of n d)) xs)))"
        "set (map tg_market_cap_rank (concat (map (\<lambda>d. found (member_of n d)) xs))) \<subseteq> set (map (\<lambda>d. ma_market_cap_rank (ud_asset d)) xs)"
      by auto
    note nd = new [of d]
    have d: "d \<in> set ds" using Cons.prems by simp
    have le: "\<forall>x \<in> set (map (\<lambda>d. ma_market_cap_rank (ud_asset d)) xs). ma_market_cap_rank (ud_asset d) \<le> x"
      using Cons.prems(2) by simp
    have rank: "\<forall>t \<in> set (found (member_of n d)). tg_market_cap_rank t = ma_market_cap_rank (ud_asset d)" using nd d by blast
    have "sorted (map tg_market_cap_rank (found (member_of n d)))"
    proof -
      have "sorted (map f xs)" if "\<forall>x \<in> set xs. f x = (c :: int)" for f :: "market_target \<Rightarrow> int" and c xs
        using that by (induction xs) auto
      from this [OF rank] show ?thesis .
    qed
    then have "sorted (map tg_market_cap_rank (concat (map (\<lambda>d. found (member_of n d)) (d # xs))))"
    proof -
      have "x \<le> y" if "x \<in> set (map tg_market_cap_rank (found (member_of n d)))"
          "y \<in> set (map tg_market_cap_rank (concat (map (\<lambda>d. found (member_of n d)) xs)))" for x y
        using that rank le ih(3) by (metis (no_types, lifting) imageE list.set_map subsetD)
      with ih(2) \<open>sorted (map tg_market_cap_rank (found (member_of n d)))\<close> show ?thesis
        by (simp only: list.map concat.simps map_append sorted_append) blast
    qed
    moreover have "map tg_symbol (concat (map (\<lambda>d. found (member_of n d)) (d # xs))) = selected_symbols (d # xs)"
      using ih(1) nd d by (simp add: selected_symbols_def)
    moreover have "set (map tg_market_cap_rank (concat (map (\<lambda>d. found (member_of n d)) (d # xs)))) \<subseteq>
        set (map (\<lambda>d. ma_market_cap_rank (ud_asset d)) (d # xs))"
    proof -
      have "tg_market_cap_rank ` set (found (member_of n d)) \<subseteq> {ma_market_cap_rank (ud_asset d)}" using rank by blast
      with ih(3) show ?thesis by (auto simp del: set_concat simp add: set_map)
    qed
    ultimately show ?case by blast
  qed (simp add: selected_symbols_def)
  have all: "concat (map found (ub_members u')) = concat (map (\<lambda>d. found (member_of n d)) ds)"
    using old by (simp add: u'(3) comp_def)
  have "sort_key tg_market_cap_rank (concat (map found (ub_members u'))) = concat (map (\<lambda>d. found (member_of n d)) ds)"
    unfolding all by (rule sort_key_id_if_sorted) (use part [of ds] ds(2) in simp)
  then show ?thesis using part [of ds] ds(2) by (simp add: list_active_symbols_def targets)
qed

section \<open>Properties\<close>

lemma replaced_rows_listed:
  assumes "universe_ok u" "d \<in> set (evaluate_universe k assets is' tickers now)" "ud_is_selected d"
  shows "\<exists>r \<in> set (ub_instruments (replace_active_set stamp is' u)). ud_instrument_symbol d = Some (instrument_key r)"
proof -
  obtain i where "i \<in> set is'" "ud_instrument_symbol d = Some (iv_symbol i)" using selected_is_listed [OF assms(2,3)] by blast
  moreover from this have "iv_symbol i \<in> instrument_key ` set (ub_instruments (replace_active_set stamp is' u))"
    using replace_active_set_ok(2) [OF assms(1)] by blast
  ultimately show ?thesis by force
qed

text \<open>C27: A refresh keeps the keys of its tables unique and either installs a new universe or leaves the old one. When it
  returns a snapshot, that snapshot is the only active one and the symbols the ingestion reads are exactly the
  contracts the policy selected, in the order of their rank. When it returns nothing (lock taken, or a provider
  failed) the tables are unchanged, and when the snapshot cannot be stored the snapshots and members are.\<close>

theorem refresh_feeds_ingestion:
  assumes "universe_ok u" "refresh_universe env k fetch_limit now u = (r, u')"
  shows "universe_ok u' \<and>
    (case r of
       Inl e \<Rightarrow> ub_snapshots u' = ub_snapshots u \<and> ub_members u' = ub_members u
     | Inr None \<Rightarrow> u' = u
     | Inr (Some n) \<Rightarrow> (\<exists>listed tickers assets s.
         rf_instruments env = Inr listed \<and> rf_tickers env = Inr tickers \<and> rf_assets env = Inr assets \<and>
         filter ss_is_active (ub_snapshots u') = [s] \<and> ss_id s = n \<and>
         list_active_symbols (market_view u' db) = selected_symbols (evaluate_universe k assets listed tickers now)))"
proof (cases "rf_lock_acquired env \<and> (\<exists>x. rf_instruments env = Inr x) \<and> (\<exists>x. rf_tickers env = Inr x) \<and> (\<exists>x. rf_assets env = Inr x)")
  case False
  then have "r = Inr None \<and> u' = u"
    using assms(2) by (auto simp: refresh_universe_def split: if_splits sum.splits)
  with assms(1) show ?thesis by simp
next
  case True
  then obtain listed tickers assets where env: "rf_lock_acquired env" "rf_instruments env = Inr listed" "rf_tickers env = Inr tickers"
      "rf_assets env = Inr assets" by blast
  define u1 where "u1 = replace_active_set now listed u"
  define ds where "ds = evaluate_universe k assets listed tickers now"
  have u1: "universe_ok u1" using replace_active_set_ok(1) [OF assms(1)] by (simp add: u1_def)
  have same: "ub_snapshots u1 = ub_snapshots u" "ub_members u1 = ub_members u" by (simp_all add: u1_def replace_active_set_def Let_def)
  let ?save = "save_snapshot now ds ''coingecko'' (configuration_snapshot k fetch_limit) (latest_source_update assets) u1"
  have run: "refresh_universe env k fetch_limit now u = (case ?save of Inl e \<Rightarrow> (Inl e, u1) | Inr (n, db) \<Rightarrow> (Inr (Some n), db))"
    unfolding refresh_universe_def env u1_def ds_def Let_def using env(1) by simp
  show ?thesis
  proof (cases ?save)
    case (Inl e)
    then have "r = Inl e" "u' = u1" using assms(2) run by simp_all
    with u1 same show ?thesis by simp
  next
    case (Inr p)
    obtain n where p: "p = (n, u')" "r = Inr (Some n)" using assms(2) run Inr by (cases p) simp
    note saved = save_snapshot_ok [OF Inr [unfolded p(1)] u1]
    have "sorted (map (\<lambda>d. ma_market_cap_rank (ud_asset d)) ds)"
    proof -
      have "map (\<lambda>d. ma_market_cap_rank (ud_asset d)) ds = map ma_market_cap_rank (map ud_asset ds)" by simp
      also have "\<dots> = map ma_market_cap_rank (sort_key ma_market_cap_rank assets)" by (simp only: ds_def evaluate_assets)
      finally show ?thesis by simp
    qed
    with saved u1 have "list_active_symbols (market_view u' db) = selected_symbols ds"
      by (intro snapshot_targets) (use replaced_rows_listed [OF assms(1)] in \<open>simp_all add: u1_def ds_def\<close>)
    with env p(2) saved(1,5,7) show ?thesis by (simp add: ds_def)
  qed
qed

definition sample_refresh :: refresh_env where
  "sample_refresh = \<lparr>rf_lock_acquired = True, rf_instruments = Inr [sample_instrument ''ETH'', sample_instrument ''BTC''],
     rf_tickers = Inr [(''ETHUSDT'', sample_ticker ''ETHUSDT''), (''BTCUSDT'', sample_ticker ''BTCUSDT'')],
     rf_assets = Inr [sample_asset ''eth'' 2, sample_asset ''btc'' 1, sample_asset ''usdt'' 3]\<rparr>"

definition empty_universe :: universe_db where
  "empty_universe = \<lparr>ub_instruments = [], ub_snapshots = [], ub_members = [], ub_next_snapshot = 1\<rparr>"

lemma refresh_feeds_ingestion_witness:
  "fst (refresh_universe sample_refresh sample_universe_config 100 (days 40) empty_universe) = Inr (Some 1) \<and>
   (\<forall>db. list_active_symbols (market_view (snd (refresh_universe sample_refresh sample_universe_config 100 (days 40) empty_universe)) db) =
     [''BTCUSDT''])"
proof -
  let ?run = "refresh_universe sample_refresh sample_universe_config 100 (days 40) empty_universe"
  have "map (\<lambda>d. ma_provider_id (ud_asset d)) sample_decisions = map ma_provider_id (map ud_asset sample_decisions)" by simp
  also have "\<dots> = map ma_provider_id (sort_key ma_market_cap_rank [sample_asset ''eth'' 2, sample_asset ''btc'' 1, sample_asset ''usdt'' 3])"
    by (simp only: sample_decisions_def evaluate_assets)
  also have "\<dots> = [''btc'', ''eth'', ''usdt'']" by (simp add: sample_asset_def)
  finally have ids: "map (\<lambda>d. ma_provider_id (ud_asset d)) sample_decisions = [''btc'', ''eth'', ''usdt'']" .
  have keys: "distinct (map (\<lambda>d. ma_provider_id (ud_asset d)) sample_decisions)" unfolding ids by simp
  have saved: "\<exists>u'. save_snapshot now sample_decisions source c t u = Inr (ub_next_snapshot u, u')" for now source c t u
    using keys by (simp add: save_snapshot_def Let_def raise_if_def)
  have next1: "ub_next_snapshot (replace_active_set (days 40) is' empty_universe) = 1" for is'
    by (simp add: replace_active_set_def empty_universe_def)
  let ?listed = "[sample_instrument ''ETH'', sample_instrument ''BTC'']"
  let ?assets = "[sample_asset ''eth'' 2, sample_asset ''btc'' 1, sample_asset ''usdt'' 3]"
  obtain u2 where u2: "save_snapshot (days 40) sample_decisions ''coingecko'' (configuration_snapshot sample_universe_config 100)
      (latest_source_update ?assets) (replace_active_set (days 40) ?listed empty_universe) = Inr (1, u2)"
    using saved [of "days 40" "''coingecko''" "configuration_snapshot sample_universe_config 100" "latest_source_update ?assets"
        "replace_active_set (days 40) ?listed empty_universe"] unfolding next1 by blast
  have f: "fst ?run = Inr (Some 1)"
    unfolding refresh_universe_def sample_refresh_def refresh_env.simps Let_def sum.case prod.case
      sample_decisions_def [symmetric] u2 by simp
  have ok: "universe_ok empty_universe" by (simp add: universe_ok_def empty_universe_def)
  have out: "?run = (Inr (Some 1), snd ?run)" using f by (metis prod.collapse)
  have "list_active_symbols (market_view (snd ?run) db) = [''BTCUSDT'']" for db
  proof -
    obtain listed tickers assets where env: "rf_instruments sample_refresh = Inr listed" "rf_tickers sample_refresh = Inr tickers"
        "rf_assets sample_refresh = Inr assets"
      and run: "list_active_symbols (market_view (snd ?run) db) =
        selected_symbols (evaluate_universe sample_universe_config assets listed tickers (days 40))"
      using refresh_feeds_ingestion [OF ok out, of db] by (simp only: sum.case option.case) blast
    have "evaluate_universe sample_universe_config assets listed tickers (days 40) = sample_decisions"
      using env by (simp only: sample_refresh_def refresh_env.simps sample_decisions_def sum.inject)
    with run show ?thesis using sample_selection by (simp only: simp_thms)
  qed
  with f show ?thesis by blast
qed

end
