(* ===== verification/Py_Text.thy ===== *)
theory Py_Text
  imports Py_Decimal
begin

text \<open>
  What the standard library does with the texts of users: \<open>str.strip\<close>, \<open>str.split\<close>, \<open>str.isdigit\<close>, \<open>int\<close>, \<open>Decimal\<close>,
  \<open>time.fromisoformat\<close> and the keys of \<open>ZoneInfo\<close>, as documented for Python 3.12, with the round trips between printing and
  reading. A character is a code point below 256.
\<close>

section \<open>Words\<close>

definition is_space :: "char \<Rightarrow> bool" where
  "is_space c \<longleftrightarrow> (let n = of_char c :: nat in (9 \<le> n \<and> n \<le> 13) \<or> (28 \<le> n \<and> n \<le> 32) \<or> n = 133 \<or> n = 160)"

definition py_strip :: "string \<Rightarrow> string" where
  "py_strip s = rev (dropWhile is_space (rev (dropWhile is_space s)))"

fun split_words :: "string \<Rightarrow> string \<Rightarrow> string list" where
  "split_words word [] = (if word = [] then [] else [word])"
| "split_words word (c # s) =
     (if is_space c then (if word = [] then split_words [] s else word # split_words [] s) else split_words (word @ [c]) s)"

definition py_split :: "string \<Rightarrow> string list" where
  "py_split s = split_words [] s"

definition before_char :: "char \<Rightarrow> string \<Rightarrow> string" where
  "before_char c s = takeWhile (\<lambda>x. x \<noteq> c) s"

fun split_on :: "char \<Rightarrow> string \<Rightarrow> string list" where
  "split_on c [] = [[]]"
| "split_on c (x # s) =
     (if x = c then [] # split_on c s else case split_on c s of [] \<Rightarrow> [[x]] | w # ws \<Rightarrow> (x # w) # ws)"

definition no_space :: "string \<Rightarrow> bool" where
  "no_space s \<longleftrightarrow> s \<noteq> [] \<and> (\<forall>c \<in> set s. \<not> is_space c)"

lemma split_words_word:
  "(\<forall>c \<in> set s. \<not> is_space c) \<Longrightarrow> split_words word s = (if word @ s = [] then [] else [word @ s])"
  by (induction s arbitrary: word) auto

lemma split_words_append:
  "(\<forall>c \<in> set s. \<not> is_space c) \<Longrightarrow> is_space c \<Longrightarrow> split_words word (s @ c # t) = (if word @ s = [] then split_words [] t else (word @ s) # split_words [] t)"
  by (induction s arbitrary: word) auto

lemma is_space_blank [simp]: "is_space CHR '' ''"
  by (simp add: is_space_def)

lemma split_first_word: "no_space w \<Longrightarrow> py_split (w @ CHR '' '' # t) = w # py_split t"
  by (simp add: no_space_def py_split_def split_words_append)

lemma split_single: "no_space w \<Longrightarrow> py_split w = [w]"
  by (simp add: no_space_def py_split_def split_words_word)

section \<open>Integers\<close>

definition digit_of :: "char \<Rightarrow> nat option" where
  "digit_of c = (let n = of_char c :: nat in if 48 \<le> n \<and> n \<le> 57 then Some (n - 48) else None)"

text \<open>Digits, with single underscores between them.\<close>

fun digits_value :: "nat \<Rightarrow> bool \<Rightarrow> string \<Rightarrow> nat option" where
  "digits_value acc prev [] = (if prev then Some acc else None)"
| "digits_value acc prev (c # s) =
     (if c = CHR ''_'' then (if prev then digits_value acc False s else None)
      else case digit_of c of None \<Rightarrow> None | Some d \<Rightarrow> digits_value (10 * acc + d) True s)"

definition read_nat :: "string \<Rightarrow> nat option" where
  "read_nat s = digits_value 0 False s"

definition unsign :: "string \<Rightarrow> bool \<times> string" where
  "unsign s = (case s of c # r \<Rightarrow> if c = CHR ''-'' then (True, r) else if c = CHR ''+'' then (False, r) else (False, s) | [] \<Rightarrow> (False, []))"

definition read_int :: "string \<Rightarrow> int option" where
  "read_int s = (let (negative, r) = unsign (py_strip s) in map_option (\<lambda>n. if negative then - int n else int n) (read_nat r))"

definition py_int :: "string \<Rightarrow> int res" where
  "py_int s = (case read_int s of None \<Rightarrow> Inl (ValueError ''invalid literal for int() with base 10'') | Some n \<Rightarrow> Inr n)"

text \<open>\<open>str.isdigit\<close> also holds of the superscripts two, three and one, which \<open>int\<close> does not read.\<close>

definition digit_char :: "char \<Rightarrow> bool" where
  "digit_char c \<longleftrightarrow> digit_of c \<noteq> None \<or> (of_char c :: nat) \<in> {178, 179, 185}"

definition py_isdigit :: "string \<Rightarrow> bool" where
  "py_isdigit s \<longleftrightarrow> s \<noteq> [] \<and> list_all digit_char s"

lemma digit_of_char [simp]: "d < 10 \<Longrightarrow> digit_of (char_of (48 + d :: nat)) = Some d"
  by (simp add: digit_of_def)

lemma digit_not_underscore: "d < 10 \<Longrightarrow> char_of (48 + d :: nat) \<noteq> CHR ''_''"
proof
  assume "d < 10" "char_of (48 + d :: nat) = CHR ''_''"
  then have "digit_of CHR ''_'' = Some d" by (metis digit_of_char)
  then show False by (simp add: digit_of_def)
qed

lemma digits_value_append:
  "digits_value acc prev s = Some n \<Longrightarrow> d < 10 \<Longrightarrow> digits_value acc prev (s @ [char_of (48 + d :: nat)]) = Some (10 * n + d)"
  using digit_not_underscore by (induction acc prev s rule: digits_value.induct) (auto split: if_splits option.splits)

lemma read_nat_show: "read_nat (show_nat n) = Some n"
proof (induction n rule: show_nat.induct)
  case (1 n)
  show ?case
  proof (cases "n < 10")
    case True
    then show ?thesis using digit_not_underscore by (subst show_nat.simps) (simp add: read_nat_def)
  next
    case False
    then have "read_nat (show_nat (n div 10)) = Some (n div 10)" using 1 by simp
    then have "read_nat (show_nat (n div 10) @ [char_of (48 + n mod 10)]) = Some (10 * (n div 10) + n mod 10)"
      unfolding read_nat_def by (rule digits_value_append) simp
    with False show ?thesis by (subst show_nat.simps) simp
  qed
qed

lemma show_nat_nonempty [simp]: "show_nat n \<noteq> []"
  by (subst show_nat.simps) simp

lemma digits_no_space: "c \<in> set (show_nat n) \<Longrightarrow> \<not> is_space c"
  using show_nat_digits [of c n] by (auto simp: is_space_def Let_def)

lemma show_nat_no_space: "no_space (show_nat n)"
  using digits_no_space by (simp add: no_space_def)

lemma strip_id:
  assumes "\<forall>c \<in> set s. \<not> is_space c"
  shows "py_strip s = s"
proof -
  have d: "dropWhile is_space t = t" if "\<forall>c \<in> set t. \<not> is_space c" for t
    using that by (cases t) simp_all
  have "dropWhile is_space (rev s) = rev s" by (rule d) (use assms in simp)
  then show ?thesis using d [OF assms] by (simp add: py_strip_def)
qed

lemma unsign_show: "unsign (show_nat n) = (False, show_nat n)"
proof -
  have "c \<noteq> CHR ''-''" "c \<noteq> CHR ''+''" if "c \<in> set (show_nat n)" for c using show_nat_digits [OF that] by auto
  then show ?thesis by (cases "show_nat n") (auto simp: unsign_def)
qed

lemma read_int_show: "read_int (show_int i) = Some i"
proof (cases "i < 0")
  case True
  have "py_strip (CHR ''-'' # show_nat (nat (- i))) = CHR ''-'' # show_nat (nat (- i))"
    using digits_no_space by (intro strip_id) (auto simp: is_space_def)
  with True show ?thesis by (simp add: read_int_def show_int_def unsign_def read_nat_show)
next
  case False
  then show ?thesis using strip_id [of "show_nat (nat i)"] digits_no_space
    by (simp add: read_int_def show_int_def unsign_show read_nat_show)
qed

lemma isdigit_show: "py_isdigit (show_nat n)"
  using show_nat_digits by (auto simp: py_isdigit_def list_all_iff digit_char_def digit_of_def Let_def)

section \<open>Decimals\<close>

datatype decimal_value = Finite dec | Infinite bool | Not_A_Number

definition take_digits :: "string \<Rightarrow> string \<times> string" where
  "take_digits s = (takeWhile (\<lambda>c. digit_of c \<noteq> None) s, dropWhile (\<lambda>c. digit_of c \<noteq> None) s)"

definition read_exponent :: "string \<Rightarrow> int option" where
  "read_exponent s =
     (case s of
        [] \<Rightarrow> Some 0
      | c # r \<Rightarrow>
          if lower_char c = CHR ''e'' then
            (let (negative, ds) = unsign r in
             if ds \<noteq> [] \<and> snd (take_digits ds) = [] then map_option (\<lambda>n. if negative then - int n else int n) (read_nat ds) else None)
          else None)"

definition read_finite :: "string \<Rightarrow> dec option" where
  "read_finite s =
     (let (whole, r) = take_digits s;
          (fraction, r) = (case r of c # r' \<Rightarrow> if c = CHR ''.'' then take_digits r' else ([], r) | [] \<Rightarrow> ([], []))
      in case (read_nat (whole @ fraction), read_exponent r) of
           (Some n, Some e) \<Rightarrow> Some (of_nat n * (10::rat) powi (e - int (length fraction)))
         | _ \<Rightarrow> None)"

definition read_decimal :: "string \<Rightarrow> decimal_value option" where
  "read_decimal s =
     (let (negative, r) = unsign (filter (\<lambda>c. c \<noteq> CHR ''_'') (py_strip s)); word = py_lower r in
      if word = ''inf'' \<or> word = ''infinity'' then Some (Infinite negative)
      else if starts_with ''nan'' word \<and> snd (take_digits (drop 3 word)) = [] then Some Not_A_Number
      else if starts_with ''snan'' word \<and> snd (take_digits (drop 4 word)) = [] then Some Not_A_Number
      else map_option (\<lambda>q. Finite (if negative then - q else q)) (read_finite r))"

section \<open>Times of the day\<close>

text \<open>A time of the day is its microseconds since midnight. The offset of an aware time is checked and dropped, as the
  columns of times have no zone.\<close>

definition two_digits :: "string \<Rightarrow> (nat \<times> string) option" where
  "two_digits s =
     (case s of a # b # r \<Rightarrow> (case (digit_of a, digit_of b) of (Some x, Some y) \<Rightarrow> Some (10 * x + y, r) | _ \<Rightarrow> None) | _ \<Rightarrow> None)"

definition second_fraction :: "string \<Rightarrow> nat option" where
  "second_fraction s =
     (if s \<noteq> [] \<and> list_all (\<lambda>c. digit_of c \<noteq> None) s then read_nat (take 6 (s @ ''000000'')) else None)"

definition read_seconds :: "string \<Rightarrow> (nat \<times> nat) option" where
  "read_seconds s =
     (case two_digits s of
        None \<Rightarrow> None
      | Some (n, []) \<Rightarrow> Some (n, 0)
      | Some (n, c # r) \<Rightarrow> if c = CHR ''.'' \<or> c = CHR '','' then map_option (Pair n) (second_fraction r) else None)"

definition read_parts :: "string \<Rightarrow> (nat \<times> nat \<times> nat \<times> nat) option" where
  "read_parts s =
     (case two_digits s of
        None \<Rightarrow> None
      | Some (h, []) \<Rightarrow> Some (h, 0, 0, 0)
      | Some (h, c # r) \<Rightarrow>
          (let colon = (c = CHR '':'') in
           case two_digits (if colon then r else c # r) of
             None \<Rightarrow> None
           | Some (m, []) \<Rightarrow> Some (h, m, 0, 0)
           | Some (m, c # r) \<Rightarrow>
               if colon \<and> c \<noteq> CHR '':'' then None
               else map_option (\<lambda>(sec, us). (h, m, sec, us)) (read_seconds (if colon then r else c # r))))"

definition day_micros :: "nat \<times> nat \<times> nat \<times> nat \<Rightarrow> int" where
  "day_micros = (\<lambda>(h, m, sec, us). hours (int h) + minutes (int m) + seconds (int sec) + int us)"

definition offset_ok :: "string \<Rightarrow> bool" where
  "offset_ok s \<longleftrightarrow>
     s = [] \<or> s = ''Z'' \<or>
     (hd s \<noteq> CHR ''Z'' \<and> (case read_parts (tl s) of None \<Rightarrow> False | Some p \<Rightarrow> day_micros p < days 1))"

definition read_clock :: "string \<Rightarrow> int option" where
  "read_clock s =
     (let s = (if starts_with ''T'' s then tl s else s); plain = (\<lambda>c. c \<notin> set ''+-Z'') in
      case read_parts (takeWhile plain s) of
        None \<Rightarrow> None
      | Some (h, m, sec, us) \<Rightarrow>
          if offset_ok (dropWhile plain s) \<and> h < 24 \<and> m < 60 \<and> sec < 60 then Some (day_micros (h, m, sec, us)) else None)"

definition show_two :: "nat \<Rightarrow> string" where
  "show_two n = [char_of (48 + n div 10), char_of (48 + n mod 10)]"

text \<open>The format \<open>%H:%M\<close>.\<close>

definition show_clock :: "int \<Rightarrow> string" where
  "show_clock t = show_two (nat (t div hours 1)) @ '':'' @ show_two (nat (t div minutes 1 mod 60))"

lemma two_digits_show: "n < 100 \<Longrightarrow> two_digits (show_two n @ r) = Some (n, r)"
proof -
  assume "n < 100"
  then have "n div 10 < 10" "n mod 10 < 10" "10 * (n div 10) + n mod 10 = n" by auto
  then show ?thesis unfolding two_digits_def show_two_def by (simp add: digit_of_char)
qed

lemma show_two_plain: "n < 100 \<Longrightarrow> c \<in> set (show_two n) \<Longrightarrow> 48 \<le> (of_char c :: nat) \<and> (of_char c :: nat) \<le> 57"
  by (auto simp: show_two_def)

lemma clock_parts:
  assumes "0 \<le> t" "t < days 1" "minutes 1 dvd t"
  obtains h m where "h < 24" "m < 60" "t = hours (int h) + minutes (int m)" "show_clock t = show_two h @ '':'' @ show_two m"
proof -
  define k where "k = t div minutes 1"
  have t: "t = k * 60000000" using assms(3) by (auto simp: k_def minutes_def)
  have k: "0 \<le> k" "k < 1440" using assms(1,2) by (simp_all add: t days_def)
  have div: "t div hours 1 = k div 60" by (simp add: t hours_def)
  show thesis
  proof (rule that [of "nat (k div 60)" "nat (k mod 60)"])
    show "nat (k div 60) < 24" "nat (k mod 60) < 60" using k by auto
    have "k = 60 * (k div 60) + k mod 60" "0 \<le> k div 60" "0 \<le> k mod 60" using k by (simp_all add: pos_imp_zdiv_nonneg_iff)
    then show "t = hours (int (nat (k div 60))) + minutes (int (nat (k mod 60)))"
      unfolding t hours_def minutes_def by linarith
    show "show_clock t = show_two (nat (k div 60)) @ '':'' @ show_two (nat (k mod 60))"
      by (simp add: show_clock_def div k_def)
  qed
qed

lemma read_clock_show:
  assumes "0 \<le> t" "t < days 1" "minutes 1 dvd t"
  shows "read_clock (show_clock t) = Some t"
proof -
  obtain h m where hm: "h < 24" "m < 60" "t = hours (int h) + minutes (int m)" and s: "show_clock t = show_two h @ '':'' @ show_two m"
    using clock_parts [OF assms] .
  have c: "48 \<le> (of_char c :: nat) \<and> (of_char c :: nat) \<le> 58" if "c \<in> set (show_clock t)" for c
    using that hm(1,2) show_two_plain [of h c] show_two_plain [of m c] unfolding s by auto
  have plain: "c \<notin> set ''+-Z''" if "c \<in> set (show_clock t)" for c using c [OF that] by auto
  have tw: "takeWhile (\<lambda>c. c \<notin> set ''+-Z'') (show_clock t) = show_clock t" using plain by (simp only: takeWhile_eq_all_conv) blast
  have dw: "dropWhile (\<lambda>c. c \<notin> set ''+-Z'') (show_clock t) = []" using plain by (simp only: dropWhile_eq_Nil_conv) blast
  have nt: "\<not> starts_with ''T'' (show_clock t)"
  proof
    assume "starts_with ''T'' (show_clock t)"
    then have "CHR ''T'' \<in> set (show_clock t)" by (cases "show_clock t") (simp_all add: starts_with_def)
    from c [OF this] show False by simp
  qed
  have rp: "read_parts (show_clock t) = Some (h, m, 0, 0)"
    using two_digits_show [of h "'':'' @ show_two m"] two_digits_show [of m "[]"] hm(1,2)
    unfolding read_parts_def s by simp
  show ?thesis unfolding read_clock_def Let_def if_not_P [OF nt] tw dw rp using hm by (simp add: offset_ok_def day_micros_def seconds_def)
qed

lemma show_clock_no_space:
  assumes "0 \<le> t" "t < days 1" "minutes 1 dvd t"
  shows "no_space (show_clock t)"
proof -
  obtain h m where hm: "h < 24" "m < 60" and s: "show_clock t = show_two h @ '':'' @ show_two m"
    using clock_parts [OF assms] .
  have "\<not> is_space c" if "c \<in> set (show_clock t)" for c
    using that hm show_two_plain [of h c] show_two_plain [of m c] by (auto simp: s is_space_def Let_def)
  then show ?thesis by (simp add: no_space_def s)
qed

section \<open>Time zones\<close>

text \<open>The database of zones is data outside the program: a zone gives the local time of the day at an instant. A key
  has to be a relative normalised path.\<close>

type_synonym zone = "instant \<Rightarrow> int"

definition zone_key_ok :: "string \<Rightarrow> bool" where
  "zone_key_ok key \<longleftrightarrow> key = ''.'' \<or> (\<forall>part \<in> set (split_on CHR ''/'' key). part \<notin> {[], ''.'', ''..''})"

definition zone_info :: "(string \<Rightarrow> zone option) \<Rightarrow> string \<Rightarrow> zone res" where
  "zone_info zones key =
     (if \<not> zone_key_ok key then Inl (ValueError key)
      else case zones key of None \<Rightarrow> Inl (KeyError key) | Some z \<Rightarrow> Inr z)"

end
