(* ===== verification/Notifications.thy ===== *)
theory Notifications
  imports Py_Text
begin

text \<open>
  \<open>src/src/crypto_smc/db/repositories/notifications.py\<close> and \<open>telegram/outbox.py\<close>: the outbox of events, the deliveries of
  each event to each user, and the worker that claims and sends them. The sender is an argument; the relation
  \<open>outbox_reachable\<close> interleaves the workers, their crashes and the changes of the settings. The text of a message is a
  function of the event, the payload and the language that a claimed delivery carries.
\<close>

section \<open>db/models/notifications.py\<close>

text \<open>The values of a payload; a moment stands for its ISO text.\<close>

datatype json = JString string | JInt int | JBool bool | JNull | JTime instant

type_synonym payload = "(string \<times> json) list"

record user_settings =
  tu_user_id :: int
  tu_language :: string
  tu_minimum_score :: int
  tu_timezone :: string
  tu_start :: int
  tu_end :: int
  tu_risk_percent :: dec
  tu_reference_balance :: dec
  tu_paused :: bool

record outbox_record =
  nx_id :: int
  nx_key :: string
  nx_event_type :: string
  nx_payload :: payload
  nx_status :: string
  nx_available_at :: instant
  nx_processed_at :: "instant option"

datatype delivery_status = Dl_Pending | Dl_Skipped | Dl_Sending | Dl_Sent | Dl_Failed | Dl_Unknown

record delivery_record =
  nd_id :: int
  nd_outbox_id :: int
  nd_user_id :: int
  nd_status :: delivery_status
  nd_attempts :: int
  nd_next_attempt_at :: instant
  nd_message_id :: "int option"
  nd_last_error :: "string option"
  nd_sent_at :: "instant option"
  nd_updated_at :: instant

record notification_db =
  nb_outbox :: "outbox_record list"
  nb_next_outbox :: int
  nb_deliveries :: "delivery_record list"
  nb_next_delivery :: int
  nb_users :: "user_settings list"

section \<open>Events and users\<close>

definition enqueue_operational_event ::
  "string \<Rightarrow> string \<Rightarrow> payload \<Rightarrow> instant \<Rightarrow> notification_db \<Rightarrow> bool \<times> notification_db" where
  "enqueue_operational_event key event_type pl available_at db =
     (let row = \<lparr>nx_id = nb_next_outbox db, nx_key = key, nx_event_type = event_type, nx_payload = pl, nx_status = ''pending'',
            nx_available_at = available_at, nx_processed_at = None\<rparr>;
          db' = db\<lparr>nb_next_outbox := nb_next_outbox db + 1\<rparr>
      in if key \<in> nx_key ` set (nb_outbox db) then (False, db') else (True, db'\<lparr>nb_outbox := nb_outbox db @ [row]\<rparr>))"

definition new_user :: "string \<Rightarrow> string \<Rightarrow> int \<Rightarrow> int \<Rightarrow> int \<Rightarrow> user_settings" where
  "new_user language timezone start_time end_time user_id =
     \<lparr>tu_user_id = user_id, tu_language = language, tu_minimum_score = 70, tu_timezone = timezone, tu_start = start_time,
      tu_end = end_time, tu_risk_percent = 1, tu_reference_balance = 10000, tu_paused = False\<rparr>"

definition ensure_users :: "int list \<Rightarrow> string \<Rightarrow> string \<Rightarrow> int \<Rightarrow> int \<Rightarrow> notification_db \<Rightarrow> notification_db" where
  "ensure_users user_ids language timezone start_time end_time db =
     db\<lparr>nb_users := foldl (\<lambda>users i. if i \<in> tu_user_id ` set users then users
          else users @ [new_user language timezone start_time end_time i]) (nb_users db) user_ids\<rparr>"

definition get_user :: "notification_db \<Rightarrow> int \<Rightarrow> user_settings option" where
  "get_user db user_id = List.find (\<lambda>u. tu_user_id u = user_id) (nb_users db)"

datatype setting =
    Set_Language string
  | Set_Minimum_Score int
  | Set_Timezone string
  | Set_Start int
  | Set_End int
  | Set_Risk_Percent decimal_value
  | Set_Reference_Balance decimal_value
  | Set_Paused bool
  | Set_Other string

text \<open>A value that a column \<open>Numeric(precision, scale)\<close> takes: rounded to the scale, half away from zero, and refused when
  it does not fit. A NaN is refused too: the only caller never passes one.\<close>

definition numeric_column :: "nat \<Rightarrow> nat \<Rightarrow> decimal_value \<Rightarrow> dec res" where
  "numeric_column precision scale v =
     (case v of
        Finite q \<Rightarrow>
          (let r = (if q < 0 then - 1 else 1) * of_int \<lfloor>\<bar>q\<bar> * 10 ^ scale + 1 / 2\<rfloor> / 10 ^ scale in
           if \<bar>r\<bar> < 10 ^ (precision - scale) then Inr r else Inl (RuntimeError ''DataError''))
      | _ \<Rightarrow> Inl (RuntimeError ''DataError''))"

definition unrounded :: "nat \<Rightarrow> nat \<Rightarrow> decimal_value \<Rightarrow> dec res" where
  "unrounded precision scale v = (case v of Finite q \<Rightarrow> Inr q | _ \<Rightarrow> Inl (RuntimeError ''DataError''))"

fun apply_setting :: "(nat \<Rightarrow> nat \<Rightarrow> decimal_value \<Rightarrow> dec res) \<Rightarrow> setting \<Rightarrow> user_settings \<Rightarrow> user_settings res" where
  "apply_setting column (Set_Language l) u = Inr (u\<lparr>tu_language := l\<rparr>)"
| "apply_setting column (Set_Minimum_Score n) u = Inr (u\<lparr>tu_minimum_score := n\<rparr>)"
| "apply_setting column (Set_Timezone z) u = Inr (u\<lparr>tu_timezone := z\<rparr>)"
| "apply_setting column (Set_Start t) u = Inr (u\<lparr>tu_start := t\<rparr>)"
| "apply_setting column (Set_End t) u = Inr (u\<lparr>tu_end := t\<rparr>)"
| "apply_setting column (Set_Risk_Percent v) u = rmap (\<lambda>q. u\<lparr>tu_risk_percent := q\<rparr>) (column 10 4 v)"
| "apply_setting column (Set_Reference_Balance v) u = rmap (\<lambda>q. u\<lparr>tu_reference_balance := q\<rparr>) (column 20 4 v)"
| "apply_setting column (Set_Paused b) u = Inr (u\<lparr>tu_paused := b\<rparr>)"
| "apply_setting column (Set_Other name) u = Inl (ValueError ''Invalid Telegram user settings update'')"

text \<open>The method returns the row before the columns round.\<close>

definition update_user :: "int \<Rightarrow> setting list \<Rightarrow> notification_db \<Rightarrow> (user_settings \<times> notification_db) res" where
  "update_user user_id values db =
     rbind (raise_if (values = [] \<or> (\<exists>v \<in> set values. case v of Set_Other _ \<Rightarrow> True | _ \<Rightarrow> False))
       (ValueError ''Invalid Telegram user settings update'')) (\<lambda>_.
     case get_user db user_id of
       None \<Rightarrow> Inl (ValueError (''Telegram user '' @ show_int user_id @ '' is not configured''))
     | Some u \<Rightarrow>
         rbind (foldM (\<lambda>u v. apply_setting numeric_column v u) u values) (\<lambda>stored.
         rmap (\<lambda>view. (view, db\<lparr>nb_users := map (\<lambda>r. if tu_user_id r = user_id then stored else r) (nb_users db)\<rparr>))
           (foldM (\<lambda>u v. apply_setting unrounded v u) u values)))"

section \<open>The policy of a delivery\<close>

definition json_int :: "json \<Rightarrow> int res" where
  "json_int j = (case j of JInt n \<Rightarrow> Inr n | JBool b \<Rightarrow> Inr (if b then 1 else 0) | JString s \<Rightarrow> py_int s
     | JTime _ \<Rightarrow> Inl (ValueError ''invalid literal for int() with base 10'')
     | JNull \<Rightarrow> Inl (TypeError ''int() argument must be a string, a bytes-like object or a real number''))"

definition notification_window_is_open :: "(string \<Rightarrow> zone option) \<Rightarrow> instant \<Rightarrow> string \<Rightarrow> int \<Rightarrow> int \<Rightarrow> bool res" where
  "notification_window_is_open zones now timezone start_time end_time =
     (case zone_info zones timezone of
        Inl (KeyError _) \<Rightarrow> Inr False
      | Inl e \<Rightarrow> Inl e
      | Inr zone \<Rightarrow>
          let local_time = zone now in
          Inr (if start_time = end_time then True
            else if start_time < end_time then start_time \<le> local_time \<and> local_time < end_time
            else local_time \<ge> start_time \<or> local_time < end_time))"

definition delivery_policy ::
  "(string \<Rightarrow> zone option) \<Rightarrow> instant \<Rightarrow> outbox_record \<Rightarrow> user_settings \<Rightarrow> (delivery_status \<times> string option) res" where
  "delivery_policy zones now x u =
     (if tu_paused u then Inr (Dl_Skipped, Some ''notifications_paused'')
      else if nx_event_type x \<noteq> ''new_signal'' then Inr (Dl_Pending, None)
      else rbind (case map_of (nx_payload x) ''score'' of None \<Rightarrow> Inr 0 | Some j \<Rightarrow> json_int j) (\<lambda>score.
        if score < tu_minimum_score u then Inr (Dl_Skipped, Some ''below_score_threshold'')
        else rbind (notification_window_is_open zones now (tu_timezone u) (tu_start u) (tu_end u)) (\<lambda>window.
          if \<not> window then Inr (Dl_Skipped, Some ''outside_notification_schedule'') else Inr (Dl_Pending, None))))"

section \<open>Deliveries\<close>

definition insert_delivery :: "instant \<Rightarrow> int \<Rightarrow> int \<Rightarrow> delivery_status \<Rightarrow> string option \<Rightarrow> notification_db \<Rightarrow> notification_db" where
  "insert_delivery now outbox_id user_id status reason db =
     (let row = \<lparr>nd_id = nb_next_delivery db, nd_outbox_id = outbox_id, nd_user_id = user_id, nd_status = status, nd_attempts = 0,
            nd_next_attempt_at = now, nd_message_id = None, nd_last_error = reason, nd_sent_at = None, nd_updated_at = now\<rparr>;
          db' = db\<lparr>nb_next_delivery := nb_next_delivery db + 1\<rparr>
      in if (outbox_id, user_id) \<in> (\<lambda>r. (nd_outbox_id r, nd_user_id r)) ` set (nb_deliveries db) then db'
         else db'\<lparr>nb_deliveries := nb_deliveries db @ [row]\<rparr>)"

definition expand_for ::
  "(string \<Rightarrow> zone option) \<Rightarrow> instant \<Rightarrow> outbox_record \<Rightarrow> notification_db \<Rightarrow> user_settings \<Rightarrow> notification_db res" where
  "expand_for zones now x db u =
     rmap (\<lambda>(status, reason). insert_delivery now (nx_id x) (tu_user_id u) status reason db) (delivery_policy zones now x u)"

definition expand_event ::
  "(string \<Rightarrow> zone option) \<Rightarrow> instant \<Rightarrow> user_settings list \<Rightarrow> notification_db \<Rightarrow> outbox_record \<Rightarrow> notification_db res" where
  "expand_event zones now users db x =
     rmap (\<lambda>db. db\<lparr>nb_outbox := map (\<lambda>r. if nx_id r = nx_id x then r\<lparr>nx_status := ''expanded'', nx_processed_at := Some now\<rparr> else r)
         (nb_outbox db)\<rparr>)
       (foldM (expand_for zones now x) db users)"

definition materialize_pending ::
  "(string \<Rightarrow> zone option) \<Rightarrow> instant \<Rightarrow> int list \<Rightarrow> int \<Rightarrow> notification_db \<Rightarrow> (int \<times> notification_db) res" where
  "materialize_pending zones now user_ids batch_size db =
     (if user_ids = [] then Inr (0, db)
      else
        let records = take (nat batch_size) (sort_key nx_id
              (filter (\<lambda>x. nx_status x = ''pending'' \<and> nx_available_at x \<le> now) (nb_outbox db)));
            users = filter (\<lambda>u. tu_user_id u \<in> set user_ids) (nb_users db)
        in rmap (\<lambda>db. (int (length records), db)) (foldM (expand_event zones now users) db records))"

definition recover_stale_sending :: "instant \<Rightarrow> int \<Rightarrow> notification_db \<Rightarrow> int \<times> notification_db" where
  "recover_stale_sending now stale_after db =
     (let stale = (\<lambda>r. nd_status r = Dl_Sending \<and> nd_updated_at r < now - stale_after) in
      (int (length (filter stale (nb_deliveries db))),
       db\<lparr>nb_deliveries := map (\<lambda>r. if stale r then r\<lparr>nd_status := Dl_Unknown,
           nd_last_error := Some ''stale_sending_state_not_retried'', nd_updated_at := now\<rparr> else r) (nb_deliveries db)\<rparr>))"

record pending_delivery =
  pl_delivery_id :: int
  pl_outbox_id :: int
  pl_user_id :: int
  pl_event_type :: string
  pl_payload :: payload
  pl_language :: string
  pl_attempts :: int

definition user_paused :: "notification_db \<Rightarrow> int \<Rightarrow> bool" where
  "user_paused db i \<longleftrightarrow> (\<exists>u \<in> set (nb_users db). tu_user_id u = i \<and> tu_paused u)"

definition skip_paused :: "instant \<Rightarrow> notification_db \<Rightarrow> notification_db" where
  "skip_paused now db =
     db\<lparr>nb_deliveries := map (\<lambda>r. if nd_status r = Dl_Pending \<and> user_paused db (nd_user_id r)
       then r\<lparr>nd_status := Dl_Skipped, nd_last_error := Some ''notifications_paused'', nd_updated_at := now\<rparr> else r) (nb_deliveries db)\<rparr>"

definition fail_exhausted :: "instant \<Rightarrow> int \<Rightarrow> notification_db \<Rightarrow> notification_db" where
  "fail_exhausted now max_attempts db =
     db\<lparr>nb_deliveries := map (\<lambda>r. if nd_status r = Dl_Pending \<and> nd_attempts r \<ge> max_attempts
       then r\<lparr>nd_status := Dl_Failed, nd_last_error := Some ''max_attempts_exhausted'', nd_updated_at := now\<rparr> else r) (nb_deliveries db)\<rparr>"

definition claimable :: "instant \<Rightarrow> int \<Rightarrow> notification_db \<Rightarrow> (delivery_record \<times> outbox_record \<times> user_settings) list" where
  "claimable now max_attempts db =
     [(r, x, u). r \<leftarrow> sort_key nd_id (nb_deliveries db), x \<leftarrow> nb_outbox db, u \<leftarrow> nb_users db,
        nx_id x = nd_outbox_id r, tu_user_id u = nd_user_id r, nd_status r = Dl_Pending, nd_next_attempt_at r \<le> now,
        nd_attempts r < max_attempts]"

definition start_sending :: "instant \<Rightarrow> delivery_record \<Rightarrow> delivery_record" where
  "start_sending now r = r\<lparr>nd_status := Dl_Sending, nd_attempts := nd_attempts r + 1, nd_updated_at := now\<rparr>"

definition claim_delivery :: "instant \<Rightarrow> int \<Rightarrow> notification_db \<Rightarrow> pending_delivery option \<times> notification_db" where
  "claim_delivery now max_attempts db =
     (let db = fail_exhausted now max_attempts (skip_paused now db) in
      case claimable now max_attempts db of
        [] \<Rightarrow> (None, db)
      | (r, x, u) # _ \<Rightarrow>
          (Some \<lparr>pl_delivery_id = nd_id r, pl_outbox_id = nx_id x, pl_user_id = nd_user_id r, pl_event_type = nx_event_type x,
             pl_payload = nx_payload x, pl_language = tu_language u, pl_attempts = nd_attempts r + 1\<rparr>,
           db\<lparr>nb_deliveries := map (\<lambda>q. if nd_id q = nd_id r then start_sending now q else q) (nb_deliveries db)\<rparr>))"

definition finish_delivery ::
  "instant \<Rightarrow> int \<Rightarrow> delivery_status \<Rightarrow> int option \<Rightarrow> string option \<Rightarrow> notification_db \<Rightarrow> notification_db" where
  "finish_delivery now delivery_id status message_id err db =
     db\<lparr>nb_deliveries := map (\<lambda>r. if nd_id r = delivery_id \<and> nd_status r = Dl_Sending
       then r\<lparr>nd_status := status, nd_message_id := message_id,
         nd_last_error := (case err of None \<Rightarrow> None | Some [] \<Rightarrow> None | Some e \<Rightarrow> Some (take 2000 e)),
         nd_sent_at := (if status = Dl_Sent then Some now else None), nd_updated_at := now\<rparr> else r) (nb_deliveries db)\<rparr>"

definition mark_sent :: "instant \<Rightarrow> int \<Rightarrow> int \<Rightarrow> notification_db \<Rightarrow> notification_db" where
  "mark_sent now delivery_id message_id db = finish_delivery now delivery_id Dl_Sent (Some message_id) None db"

definition mark_retry :: "instant \<Rightarrow> int \<Rightarrow> string \<Rightarrow> int \<Rightarrow> notification_db \<Rightarrow> notification_db" where
  "mark_retry now delivery_id err retry_after db =
     db\<lparr>nb_deliveries := map (\<lambda>r. if nd_id r = delivery_id \<and> nd_status r = Dl_Sending
       then r\<lparr>nd_status := Dl_Pending, nd_last_error := Some (take 2000 err), nd_next_attempt_at := now + retry_after,
         nd_updated_at := now\<rparr> else r) (nb_deliveries db)\<rparr>"

definition mark_failed :: "instant \<Rightarrow> int \<Rightarrow> string \<Rightarrow> bool \<Rightarrow> notification_db \<Rightarrow> notification_db" where
  "mark_failed now delivery_id err outcome_unknown db =
     finish_delivery now delivery_id (if outcome_unknown then Dl_Unknown else Dl_Failed) None (Some err) db"

record outbox_summary =
  os_pending :: int
  os_sent :: int
  os_failed :: int
  os_delivery_unknown :: int

definition delivery_count :: "notification_db \<Rightarrow> delivery_status \<Rightarrow> int" where
  "delivery_count db s = int (length (filter (\<lambda>r. nd_status r = s) (nb_deliveries db)))"

definition outbox_summary_of :: "notification_db \<Rightarrow> outbox_summary" where
  "outbox_summary_of db =
     \<lparr>os_pending = delivery_count db Dl_Pending + delivery_count db Dl_Sending, os_sent = delivery_count db Dl_Sent,
      os_failed = delivery_count db Dl_Failed, os_delivery_unknown = delivery_count db Dl_Unknown\<rparr>"

section \<open>telegram/outbox.py\<close>

text \<open>What \<open>send\<close> does: it returns the identifier of the message or raises one of the three errors. A delay is in seconds.\<close>

datatype send_outcome = Sent int | Retryable string rat | Permanent string | Unknown_Outcome string

definition retry_delay :: "rat \<Rightarrow> rat \<Rightarrow> int \<Rightarrow> int" where
  "retry_delay retry_base retry_after attempts =
     half_even (max retry_after (retry_base * 2 ^ nat (max 0 (attempts - 1))) * 1000000)"

definition settle_delivery :: "instant \<Rightarrow> rat \<Rightarrow> int \<Rightarrow> int \<Rightarrow> send_outcome \<Rightarrow> notification_db \<Rightarrow> notification_db" where
  "settle_delivery now retry_base delivery_id attempts outcome db =
     (case outcome of
        Sent message_id \<Rightarrow> mark_sent now delivery_id message_id db
      | Retryable err retry_after \<Rightarrow> mark_retry now delivery_id err (retry_delay retry_base retry_after attempts) db
      | Permanent err \<Rightarrow> mark_failed now delivery_id err False db
      | Unknown_Outcome err \<Rightarrow> mark_failed now delivery_id err True db)"

definition run_once ::
  "(string \<Rightarrow> zone option) \<Rightarrow> (pending_delivery \<Rightarrow> send_outcome) \<Rightarrow> instant \<Rightarrow> int list \<Rightarrow> int \<Rightarrow> int \<Rightarrow> rat \<Rightarrow> notification_db \<Rightarrow>
   (bool \<times> notification_db) res" where
  "run_once zones send now user_ids batch_size max_attempts retry_base db =
     rbind (materialize_pending zones now user_ids batch_size db) (\<lambda>(expanded, db).
     case claim_delivery now max_attempts db of
       (None, db) \<Rightarrow> Inr (expanded > 0, db)
     | (Some d, db) \<Rightarrow> Inr (True, settle_delivery now retry_base (pl_delivery_id d) (pl_attempts d) (send d) db))"

section \<open>The runs of the workers\<close>

text \<open>The tables with the deliveries that are being sent, and the log of the sends that have ended; a send that ended with
  the crash of its worker has no outcome.\<close>

record outbox_state =
  ox_db :: notification_db
  ox_flight :: "int list"
  ox_log :: "(int \<times> send_outcome option) list"

definition fresh_outbox :: outbox_state where
  "fresh_outbox = \<lparr>ox_db = \<lparr>nb_outbox = [], nb_next_outbox = 1, nb_deliveries = [], nb_next_delivery = 1, nb_users = []\<rparr>,
     ox_flight = [], ox_log = []\<rparr>"

inductive outbox_reachable :: "(string \<Rightarrow> zone option) \<Rightarrow> int \<Rightarrow> outbox_state \<Rightarrow> bool" for zones max_attempts where
  fresh: "outbox_reachable zones max_attempts fresh_outbox"
| enqueue: "outbox_reachable zones max_attempts s \<Longrightarrow> enqueue_operational_event key event_type pl t (ox_db s) = (created, db) \<Longrightarrow>
     outbox_reachable zones max_attempts (s\<lparr>ox_db := db\<rparr>)"
| register: "outbox_reachable zones max_attempts s \<Longrightarrow>
     outbox_reachable zones max_attempts (s\<lparr>ox_db := ensure_users user_ids language timezone t0 t1 (ox_db s)\<rparr>)"
| configure: "outbox_reachable zones max_attempts s \<Longrightarrow> update_user user_id values (ox_db s) = Inr (view, db) \<Longrightarrow>
     outbox_reachable zones max_attempts (s\<lparr>ox_db := db\<rparr>)"
| materialize: "outbox_reachable zones max_attempts s \<Longrightarrow> materialize_pending zones now user_ids batch (ox_db s) = Inr (n, db) \<Longrightarrow>
     outbox_reachable zones max_attempts (s\<lparr>ox_db := db\<rparr>)"
| recover: "outbox_reachable zones max_attempts s \<Longrightarrow>
     outbox_reachable zones max_attempts (s\<lparr>ox_db := snd (recover_stale_sending now stale_after (ox_db s))\<rparr>)"
| idle: "outbox_reachable zones max_attempts s \<Longrightarrow> claim_delivery now max_attempts (ox_db s) = (None, db) \<Longrightarrow>
     outbox_reachable zones max_attempts (s\<lparr>ox_db := db\<rparr>)"
| claim: "outbox_reachable zones max_attempts s \<Longrightarrow> claim_delivery now max_attempts (ox_db s) = (Some d, db) \<Longrightarrow>
     outbox_reachable zones max_attempts (s\<lparr>ox_db := db, ox_flight := ox_flight s @ [pl_delivery_id d]\<rparr>)"
| settle: "outbox_reachable zones max_attempts s \<Longrightarrow> d \<in> set (ox_flight s) \<Longrightarrow>
     outbox_reachable zones max_attempts (s\<lparr>ox_db := settle_delivery now retry_base d attempts outcome (ox_db s),
       ox_flight := remove1 d (ox_flight s), ox_log := ox_log s @ [(d, Some outcome)]\<rparr>)"
| crash: "outbox_reachable zones max_attempts s \<Longrightarrow> d \<in> set (ox_flight s) \<Longrightarrow>
     outbox_reachable zones max_attempts (s\<lparr>ox_flight := remove1 d (ox_flight s), ox_log := ox_log s @ [(d, None)]\<rparr>)"

text \<open>What has become of the sends of a delivery, in their order.\<close>

definition outcomes_of :: "(int \<times> send_outcome option) list \<Rightarrow> int \<Rightarrow> send_outcome option list" where
  "outcomes_of ended d = map snd (filter (\<lambda>e. fst e = d) ended)"

definition retryable :: "send_outcome option \<Rightarrow> bool" where
  "retryable x \<longleftrightarrow> (case x of Some (Retryable _ _) \<Rightarrow> True | _ \<Rightarrow> False)"

lemma outcomes_of_snoc [simp]: "outcomes_of (ended @ [(d, x)]) e = (if d = e then outcomes_of ended e @ [x] else outcomes_of ended e)"
  by (simp add: outcomes_of_def)

section \<open>The invariant\<close>

definition delivery_ok :: "int \<Rightarrow> int list \<Rightarrow> (int \<times> send_outcome option) list \<Rightarrow> delivery_record \<Rightarrow> bool" where
  "delivery_ok max_attempts flight ended r \<longleftrightarrow>
     (let outs = outcomes_of ended (nd_id r); flying = nd_id r \<in> set flight in
      int (length outs) + (if flying then 1 else 0) = nd_attempts r \<and> nd_attempts r \<le> max 0 max_attempts \<and>
      (flying \<longrightarrow> nd_status r = Dl_Sending \<or> nd_status r = Dl_Unknown) \<and>
      (nd_status r = Dl_Pending \<or> flying \<longrightarrow> list_all retryable outs) \<and> list_all retryable (butlast outs))"

definition delivery_key :: "delivery_record \<Rightarrow> int \<times> int" where
  "delivery_key r = (nd_outbox_id r, nd_user_id r)"

definition tables_keyed :: "notification_db \<Rightarrow> bool" where
  "tables_keyed db \<longleftrightarrow> distinct (map nx_key (nb_outbox db)) \<and> distinct (map nx_id (nb_outbox db)) \<and>
     (\<forall>x \<in> set (nb_outbox db). nx_id x < nb_next_outbox db) \<and>
     distinct (map nd_id (nb_deliveries db)) \<and> distinct (map delivery_key (nb_deliveries db)) \<and>
     (\<forall>r \<in> set (nb_deliveries db). nd_id r < nb_next_delivery db) \<and> distinct (map tu_user_id (nb_users db))"

definition outbox_ok :: "int \<Rightarrow> outbox_state \<Rightarrow> bool" where
  "outbox_ok max_attempts s \<longleftrightarrow> tables_keyed (ox_db s) \<and> distinct (ox_flight s) \<and>
     set (ox_flight s) \<union> fst ` set (ox_log s) \<subseteq> nd_id ` set (nb_deliveries (ox_db s)) \<and>
     (\<forall>r \<in> set (nb_deliveries (ox_db s)). delivery_ok max_attempts (ox_flight s) (ox_log s) r)"

text \<open>Most steps rewrite the rows of deliveries one by one.\<close>

lemma keyed_rewrite:
  assumes "tables_keyed db" "\<And>r. nd_id (f r) = nd_id r" "\<And>r. delivery_key (f r) = delivery_key r"
  shows "tables_keyed (db\<lparr>nb_deliveries := map f (nb_deliveries db)\<rparr>)"
proof -
  have "map nd_id (map f (nb_deliveries db)) = map nd_id (nb_deliveries db)"
    "map delivery_key (map f (nb_deliveries db)) = map delivery_key (nb_deliveries db)"
    using assms(2,3) by simp_all
  then have "distinct (map nd_id (map f (nb_deliveries db)))" "distinct (map delivery_key (map f (nb_deliveries db)))"
    using assms(1) by (simp_all only: tables_keyed_def)
  then show ?thesis using assms by (simp add: tables_keyed_def)
qed

lemma ok_rewrite:
  assumes "outbox_ok max_attempts s" "\<And>r. nd_id (f r) = nd_id r" "\<And>r. delivery_key (f r) = delivery_key r"
    and "distinct flight" "set flight \<union> fst ` set ended \<subseteq> set (ox_flight s) \<union> fst ` set (ox_log s) \<union> nd_id ` set (nb_deliveries (ox_db s))"
    and "\<And>r. r \<in> set (nb_deliveries (ox_db s)) \<Longrightarrow> delivery_ok max_attempts (ox_flight s) (ox_log s) r \<Longrightarrow> delivery_ok max_attempts flight ended (f r)"
  shows "outbox_ok max_attempts (s\<lparr>ox_db := (ox_db s)\<lparr>nb_deliveries := map f (nb_deliveries (ox_db s))\<rparr>, ox_flight := flight, ox_log := ended\<rparr>)"
proof -
  have "nd_id ` f ` set (nb_deliveries (ox_db s)) = nd_id ` set (nb_deliveries (ox_db s))"
    using assms(2) by (simp add: image_image)
  moreover have "set flight \<union> fst ` set ended \<subseteq> nd_id ` set (nb_deliveries (ox_db s))"
    using assms(1,5) unfolding outbox_ok_def by blast
  moreover have "tables_keyed ((ox_db s)\<lparr>nb_deliveries := map f (nb_deliveries (ox_db s))\<rparr>)"
    using assms(1) by (intro keyed_rewrite assms(2,3)) (simp add: outbox_ok_def)
  ultimately show ?thesis using assms(1,4,6) by (simp add: outbox_ok_def)
qed

lemma ok_rewrite_rows:
  assumes "outbox_ok max_attempts s" "\<And>r. nd_id (f r) = nd_id r" "\<And>r. delivery_key (f r) = delivery_key r"
    and "\<And>r. r \<in> set (nb_deliveries (ox_db s)) \<Longrightarrow> delivery_ok max_attempts (ox_flight s) (ox_log s) r \<Longrightarrow>
        delivery_ok max_attempts (ox_flight s) (ox_log s) (f r)"
  shows "outbox_ok max_attempts (s\<lparr>ox_db := (ox_db s)\<lparr>nb_deliveries := map f (nb_deliveries (ox_db s))\<rparr>\<rparr>)"
  using ok_rewrite [of max_attempts s f "ox_flight s" "ox_log s"] assms by (simp add: outbox_ok_def)

text \<open>A row that leaves the pending state without being sent.\<close>

lemma leave_pending:
  assumes "delivery_ok max_attempts flight ended r" "nd_status r = Dl_Pending"
    "nd_id q = nd_id r" "nd_attempts q = nd_attempts r"
  shows "delivery_ok max_attempts flight ended q"
  using assms by (auto simp: delivery_ok_def Let_def)

lemma skip_paused_ok: "outbox_ok max_attempts s \<Longrightarrow> outbox_ok max_attempts (s\<lparr>ox_db := skip_paused now (ox_db s)\<rparr>)"
  unfolding skip_paused_def by (rule ok_rewrite_rows) (auto simp: delivery_key_def intro: leave_pending)

lemma fail_exhausted_ok: "outbox_ok max_attempts s \<Longrightarrow> outbox_ok max_attempts (s\<lparr>ox_db := fail_exhausted now n (ox_db s)\<rparr>)"
  unfolding fail_exhausted_def by (rule ok_rewrite_rows) (auto simp: delivery_key_def intro: leave_pending)

lemma recover_stale_ok:
  "outbox_ok max_attempts s \<Longrightarrow> outbox_ok max_attempts (s\<lparr>ox_db := snd (recover_stale_sending now stale_after (ox_db s))\<rparr>)"
  unfolding recover_stale_sending_def Let_def snd_conv
  by (rule ok_rewrite_rows) (auto simp: delivery_key_def delivery_ok_def Let_def)

lemma same_id_same_delivery: "tables_keyed db \<Longrightarrow> r \<in> set (nb_deliveries db) \<Longrightarrow> q \<in> set (nb_deliveries db) \<Longrightarrow> nd_id r = nd_id q \<Longrightarrow> r = q"
  unfolding tables_keyed_def distinct_map by (metis inj_onD)

lemma claimableD:
  assumes "claimable now n db = (r, x, u) # rest"
  shows "r \<in> set (nb_deliveries db)" "nd_status r = Dl_Pending" "nd_attempts r < n" "nd_next_attempt_at r \<le> now"
    "x \<in> set (nb_outbox db)" "u \<in> set (nb_users db)" "nx_id x = nd_outbox_id r" "tu_user_id u = nd_user_id r"
proof -
  have "(r, x, u) \<in> set (claimable now n db)" by (simp add: assms)
  then show "r \<in> set (nb_deliveries db)" "nd_status r = Dl_Pending" "nd_attempts r < n" "nd_next_attempt_at r \<le> now"
    "x \<in> set (nb_outbox db)" "u \<in> set (nb_users db)" "nx_id x = nd_outbox_id r" "tu_user_id u = nd_user_id r"
    by (auto simp: claimable_def split: if_splits)
qed

lemma claim_ok:
  assumes "outbox_ok n s" "claim_delivery now n (ox_db s) = (p, db)"
  shows "case p of None \<Rightarrow> outbox_ok n (s\<lparr>ox_db := db\<rparr>)
    | Some d \<Rightarrow> outbox_ok n (s\<lparr>ox_db := db, ox_flight := ox_flight s @ [pl_delivery_id d]\<rparr>)"
proof -
  define s1 where "s1 = s\<lparr>ox_db := fail_exhausted now n (skip_paused now (ox_db s))\<rparr>"
  have ok: "outbox_ok n s1"
    using fail_exhausted_ok [OF skip_paused_ok [OF assms(1)]] by (simp add: s1_def)
  have s1: "ox_db s1 = fail_exhausted now n (skip_paused now (ox_db s))" "ox_flight s1 = ox_flight s" "ox_log s1 = ox_log s"
    by (simp_all add: s1_def)
  show ?thesis
  proof (cases "claimable now n (ox_db s1)")
    case Nil
    then have "p = None" "db = ox_db s1" using assms(2) by (simp_all add: claim_delivery_def s1(1) [symmetric])
    with ok show ?thesis by (simp add: s1_def)
  next
    case (Cons c rest)
    obtain r x u where c: "c = (r, x, u)" by (cases c)
    note found = claimableD [OF Cons [unfolded c]]
    define f where "f = (\<lambda>q. if nd_id q = nd_id r then start_sending now q else q)"
    have p: "p = Some \<lparr>pl_delivery_id = nd_id r, pl_outbox_id = nx_id x, pl_user_id = nd_user_id r, pl_event_type = nx_event_type x,
             pl_payload = nx_payload x, pl_language = tu_language u, pl_attempts = nd_attempts r + 1\<rparr>"
      and db: "db = (ox_db s1)\<lparr>nb_deliveries := map f (nb_deliveries (ox_db s1))\<rparr>"
      using assms(2) Cons by (simp_all add: claim_delivery_def s1(1) [symmetric] c f_def Let_def)
    have r: "delivery_ok n (ox_flight s1) (ox_log s1) r" using ok found(1) by (simp add: outbox_ok_def)
    then have grounded: "nd_id r \<notin> set (ox_flight s1)" using found(2) by (auto simp: delivery_ok_def Let_def)
    have "outbox_ok n (s1\<lparr>ox_db := (ox_db s1)\<lparr>nb_deliveries := map f (nb_deliveries (ox_db s1))\<rparr>,
        ox_flight := ox_flight s1 @ [nd_id r], ox_log := ox_log s1\<rparr>)"
    proof (rule ok_rewrite [OF ok])
      fix q assume q: "q \<in> set (nb_deliveries (ox_db s1))" "delivery_ok n (ox_flight s1) (ox_log s1) q"
      show "delivery_ok n (ox_flight s1 @ [nd_id r]) (ox_log s1) (f q)"
      proof (cases "nd_id q = nd_id r")
        case True
        have "tables_keyed (ox_db s1)" using ok by (simp add: outbox_ok_def)
        then have "q = r" using same_id_same_delivery q(1) found(1) True by blast
        then show ?thesis using r grounded found(2,3) by (auto simp: f_def start_sending_def delivery_ok_def Let_def)
      next
        case False
        then show ?thesis using q(2) by (simp add: f_def delivery_ok_def Let_def)
      qed
    qed (use ok grounded found(1) in \<open>auto simp: f_def start_sending_def delivery_key_def outbox_ok_def\<close>)
    then show ?thesis by (simp add: p db s1_def)
  qed
qed

text \<open>A send ends: a delivery that is still marked as being sent gets the outcome, any other row stays.\<close>

definition outcome_status :: "send_outcome \<Rightarrow> delivery_status" where
  "outcome_status x = (case x of Sent _ \<Rightarrow> Dl_Sent | Retryable _ _ \<Rightarrow> Dl_Pending | Permanent _ \<Rightarrow> Dl_Failed | Unknown_Outcome _ \<Rightarrow> Dl_Unknown)"

lemma settle_rewrites:
  obtains f where "settle_delivery now base d attempts outcome db = db\<lparr>nb_deliveries := map f (nb_deliveries db)\<rparr>"
    "\<And>r. nd_id (f r) = nd_id r" "\<And>r. delivery_key (f r) = delivery_key r" "\<And>r. nd_attempts (f r) = nd_attempts r"
    "\<And>r. nd_status (f r) = (if nd_id r = d \<and> nd_status r = Dl_Sending then outcome_status outcome else nd_status r)"
  by (cases outcome) (auto simp: settle_delivery_def mark_sent_def mark_retry_def mark_failed_def finish_delivery_def
      outcome_status_def delivery_key_def intro!: that split: if_splits)

lemma list_all_butlast: "list_all P xs \<Longrightarrow> list_all P (butlast xs)"
  by (auto simp: list_all_iff dest: in_set_butlastD)

lemma ended_row:
  assumes "delivery_ok n flight ended r" "d \<in> set flight" "distinct flight"
    and "nd_id q = nd_id r" "nd_attempts q = nd_attempts r"
    and "nd_id r \<noteq> d \<Longrightarrow> nd_status q = nd_status r"
    and "nd_id r = d \<Longrightarrow> nd_status q = Dl_Pending \<Longrightarrow> retryable x"
  shows "delivery_ok n (remove1 d flight) (ended @ [(d, x)]) q"
proof (cases "nd_id r = d")
  case True
  then have "list_all retryable (outcomes_of ended d)" "int (length (outcomes_of ended d)) + 1 = nd_attempts r" "nd_attempts r \<le> max 0 n"
    using assms(1,2) by (auto simp: delivery_ok_def Let_def)
  then show ?thesis using True assms by (simp add: delivery_ok_def Let_def)
next
  case False
  then have s: "nd_status q = nd_status r" using assms(6) by simp
  have "nd_id q \<in> set (remove1 d flight) \<longleftrightarrow> nd_id r \<in> set flight" using False assms(3,4) by simp
  then show ?thesis using False assms(1,4,5) by (simp add: delivery_ok_def Let_def s)
qed

lemma settle_ok:
  assumes "outbox_ok n s" "d \<in> set (ox_flight s)"
  shows "outbox_ok n (s\<lparr>ox_db := settle_delivery now base d attempts outcome (ox_db s),
       ox_flight := remove1 d (ox_flight s), ox_log := ox_log s @ [(d, Some outcome)]\<rparr>)"
proof -
  obtain f where f: "settle_delivery now base d attempts outcome (ox_db s) = (ox_db s)\<lparr>nb_deliveries := map f (nb_deliveries (ox_db s))\<rparr>"
    "\<And>r. nd_id (f r) = nd_id r" "\<And>r. delivery_key (f r) = delivery_key r" "\<And>r. nd_attempts (f r) = nd_attempts r"
    "\<And>r. nd_status (f r) = (if nd_id r = d \<and> nd_status r = Dl_Sending then outcome_status outcome else nd_status r)"
    using settle_rewrites [of now base d attempts outcome "ox_db s"] by metis
  have flight: "distinct (ox_flight s)" using assms(1) by (simp add: outbox_ok_def)
  show ?thesis unfolding f(1)
  proof (rule ok_rewrite [OF assms(1) f(2,3)])
    fix r assume "r \<in> set (nb_deliveries (ox_db s))" and r: "delivery_ok n (ox_flight s) (ox_log s) r"
    show "delivery_ok n (remove1 d (ox_flight s)) (ox_log s @ [(d, Some outcome)]) (f r)"
    proof (rule ended_row [OF r assms(2) flight])
      assume "nd_id r = d" "nd_status (f r) = Dl_Pending"
      moreover from this have "nd_status r \<noteq> Dl_Pending" using r assms(2) by (auto simp: delivery_ok_def Let_def)
      ultimately show "retryable (Some outcome)"
        by (auto simp: f(5) outcome_status_def retryable_def split: if_splits send_outcome.splits)
    qed (simp_all add: f)
  qed (use assms flight in \<open>auto simp: outbox_ok_def dest: notin_set_remove1\<close>)
qed

lemma crash_ok:
  assumes "outbox_ok n s" "d \<in> set (ox_flight s)"
  shows "outbox_ok n (s\<lparr>ox_flight := remove1 d (ox_flight s), ox_log := ox_log s @ [(d, None)]\<rparr>)"
proof -
  have flight: "distinct (ox_flight s)" using assms(1) by (simp add: outbox_ok_def)
  have "outbox_ok n (s\<lparr>ox_db := (ox_db s)\<lparr>nb_deliveries := map (\<lambda>r. r) (nb_deliveries (ox_db s))\<rparr>,
      ox_flight := remove1 d (ox_flight s), ox_log := ox_log s @ [(d, None)]\<rparr>)"
  proof (rule ok_rewrite [OF assms(1)])
    fix r assume "r \<in> set (nb_deliveries (ox_db s))" and r: "delivery_ok n (ox_flight s) (ox_log s) r"
    show "delivery_ok n (remove1 d (ox_flight s)) (ox_log s @ [(d, None)]) r"
      by (rule ended_row [OF r assms(2) flight]) (use r assms(2) in \<open>auto simp: delivery_ok_def Let_def\<close>)
  qed (use assms flight in \<open>auto simp: outbox_ok_def dest: notin_set_remove1\<close>)
  then show ?thesis by simp
qed

text \<open>The other steps do not touch the deliveries, or add new ones.\<close>

lemma ok_other_tables:
  assumes "outbox_ok n s" "nb_deliveries db = nb_deliveries (ox_db s)" "tables_keyed db"
  shows "outbox_ok n (s\<lparr>ox_db := db\<rparr>)"
  using assms by (simp add: outbox_ok_def)

lemma enqueue_ok:
  assumes "outbox_ok n s" "enqueue_operational_event key event_type pl t (ox_db s) = (created, db)"
  shows "outbox_ok n (s\<lparr>ox_db := db\<rparr>)"
  by (rule ok_other_tables [OF assms(1)]) (use assms in \<open>fastforce simp: enqueue_operational_event_def Let_def outbox_ok_def tables_keyed_def split: if_splits\<close>)+

lemma ensure_users_ok: "outbox_ok n s \<Longrightarrow> outbox_ok n (s\<lparr>ox_db := ensure_users ids language timezone t0 t1 (ox_db s)\<rparr>)"
proof (rule ok_other_tables)
  have "distinct (map tu_user_id (foldl (\<lambda>users i. if i \<in> tu_user_id ` set users then users
          else users @ [new_user language timezone t0 t1 i]) us ids))" if "distinct (map tu_user_id us)" for us
    using that by (induction ids arbitrary: us) (simp_all add: new_user_def)
  then show "outbox_ok n s \<Longrightarrow> tables_keyed (ensure_users ids language timezone t0 t1 (ox_db s))"
    by (simp add: outbox_ok_def tables_keyed_def ensure_users_def)
qed (simp_all add: ensure_users_def)

lemma apply_setting_id: "apply_setting column v u = Inr u' \<Longrightarrow> tu_user_id u' = tu_user_id u"
  by (cases v) auto

lemma apply_settings_id: "foldM (\<lambda>u v. apply_setting column v u) u values = Inr u' \<Longrightarrow> tu_user_id u' = tu_user_id u"
  by (rule foldM_invariant [where P = "\<lambda>x. tu_user_id x = tu_user_id u"]) (auto dest: apply_setting_id)

lemma update_user_rows:
  assumes "update_user i values db = Inr (view, db')"
  obtains u stored where "get_user db i = Some u" "foldM (\<lambda>u v. apply_setting numeric_column v u) u values = Inr stored"
    "foldM (\<lambda>u v. apply_setting unrounded v u) u values = Inr view" "tu_user_id stored = i"
    "db' = db\<lparr>nb_users := map (\<lambda>r. if tu_user_id r = i then stored else r) (nb_users db)\<rparr>"
proof -
  obtain u where u: "get_user db i = Some u" using assms by (auto simp: update_user_def split: option.splits)
  then have "tu_user_id u = i" by (auto simp: get_user_def find_Some_iff)
  with u assms that show thesis by (auto simp: update_user_def dest: apply_settings_id)
qed

lemma update_user_ok:
  assumes "outbox_ok n s" "update_user i values (ox_db s) = Inr (view, db)"
  shows "outbox_ok n (s\<lparr>ox_db := db\<rparr>)"
proof -
  obtain u stored where "get_user (ox_db s) i = Some u" "foldM (\<lambda>u v. apply_setting numeric_column v u) u values = Inr stored"
    "foldM (\<lambda>u v. apply_setting unrounded v u) u values = Inr view" and id: "tu_user_id stored = i"
    and db: "db = (ox_db s)\<lparr>nb_users := map (\<lambda>r. if tu_user_id r = i then stored else r) (nb_users (ox_db s))\<rparr>"
    using update_user_rows [OF assms(2)] .
  from id have "map tu_user_id (map (\<lambda>r. if tu_user_id r = i then stored else r) (nb_users (ox_db s))) = map tu_user_id (nb_users (ox_db s))"
    by simp
  moreover have "distinct (map tu_user_id (nb_users (ox_db s)))" using assms(1) by (simp add: outbox_ok_def tables_keyed_def)
  ultimately have "distinct (map tu_user_id (map (\<lambda>r. if tu_user_id r = i then stored else r) (nb_users (ox_db s))))" by (simp only:)
  then show ?thesis using assms(1) by (intro ok_other_tables) (simp_all add: db outbox_ok_def tables_keyed_def)
qed

lemma delivery_policy_status: "delivery_policy zones now x u = Inr (st, reason) \<Longrightarrow> st = Dl_Pending \<or> st = Dl_Skipped"
  by (auto simp: delivery_policy_def split: if_splits)

lemma insert_delivery_ok:
  assumes "outbox_ok n s"
  shows "outbox_ok n (s\<lparr>ox_db := insert_delivery now outbox_id user_id st reason (ox_db s)\<rparr>)"
proof -
  define row where "row = \<lparr>nd_id = nb_next_delivery (ox_db s), nd_outbox_id = outbox_id, nd_user_id = user_id, nd_status = st, nd_attempts = 0,
            nd_next_attempt_at = now, nd_message_id = None, nd_last_error = reason, nd_sent_at = None, nd_updated_at = now\<rparr>"
  have new: "nd_id row \<notin> nd_id ` set (nb_deliveries (ox_db s))" using assms by (force simp: row_def outbox_ok_def tables_keyed_def)
  then have "nd_id row \<notin> set (ox_flight s)" "nd_id row \<notin> fst ` set (ox_log s)" using assms by (auto simp: outbox_ok_def)
  then have "outcomes_of (ox_log s) (nd_id row) = []" by (force simp: outcomes_of_def filter_empty_conv)
  with \<open>nd_id row \<notin> set (ox_flight s)\<close> have row: "delivery_ok n (ox_flight s) (ox_log s) row" by (simp add: delivery_ok_def row_def)
  have "nd_id row = nb_next_delivery (ox_db s)" "delivery_key row = (outbox_id, user_id)" by (simp_all add: row_def delivery_key_def)
  with assms row new show ?thesis
    by (auto simp: insert_delivery_def Let_def row_def [symmetric] outbox_ok_def tables_keyed_def delivery_key_def [symmetric] less_Suc_eq
        intro: less_trans)
qed

lemma expand_for_ok:
  assumes "outbox_ok n (s\<lparr>ox_db := db\<rparr>)" "foldM (expand_for zones now x) db users = Inr db'"
  shows "outbox_ok n (s\<lparr>ox_db := db'\<rparr>)"
proof (rule foldM_invariant [where P = "\<lambda>db. outbox_ok n (s\<lparr>ox_db := db\<rparr>)", OF assms(2,1)])
  fix d u d' assume "outbox_ok n (s\<lparr>ox_db := d\<rparr>)" "expand_for zones now x d u = Inr d'"
  then show "outbox_ok n (s\<lparr>ox_db := d'\<rparr>)"
    using insert_delivery_ok [of n "s\<lparr>ox_db := d\<rparr>"] by (auto simp: expand_for_def)
qed

lemma expand_event_ok:
  assumes "outbox_ok n (s\<lparr>ox_db := db\<rparr>)" "expand_event zones now users db x = Inr db'"
  shows "outbox_ok n (s\<lparr>ox_db := db'\<rparr>)"
proof -
  define f where "f = (\<lambda>r :: outbox_record. if nx_id r = nx_id x then r\<lparr>nx_status := ''expanded'', nx_processed_at := Some now\<rparr> else r)"
  obtain d where d: "foldM (expand_for zones now x) db users = Inr d" "db' = d\<lparr>nb_outbox := map f (nb_outbox d)\<rparr>"
    using assms(2) by (auto simp: expand_event_def f_def)
  have ok: "outbox_ok n (s\<lparr>ox_db := d\<rparr>)" by (rule expand_for_ok [OF assms(1) d(1)])
  have "map nx_key (map f (nb_outbox d)) = map nx_key (nb_outbox d)" "map nx_id (map f (nb_outbox d)) = map nx_id (nb_outbox d)"
    by (simp_all add: f_def)
  moreover have "distinct (map nx_key (nb_outbox d))" "distinct (map nx_id (nb_outbox d))"
    using ok by (simp_all add: outbox_ok_def tables_keyed_def)
  ultimately have "distinct (map nx_key (map f (nb_outbox d)))" "distinct (map nx_id (map f (nb_outbox d)))" by (simp_all only:)
  moreover have "nx_id (f r) = nx_id r" for r by (simp add: f_def)
  ultimately show ?thesis using ok by (auto simp: d(2) outbox_ok_def tables_keyed_def)
qed

lemma materialize_ok:
  assumes "outbox_ok n s" "materialize_pending zones now ids batch (ox_db s) = Inr (k, db)"
  shows "outbox_ok n (s\<lparr>ox_db := db\<rparr>)"
proof (cases "ids = []")
  case True
  with assms(2) have "db = ox_db s" by (simp add: materialize_pending_def)
  with assms(1) show ?thesis by simp
next
  case False
  then obtain users records where "foldM (expand_event zones now users) (ox_db s) records = Inr db"
    using assms(2) by (auto simp: materialize_pending_def Let_def)
  then show ?thesis
    by (rule foldM_invariant [where P = "\<lambda>db. outbox_ok n (s\<lparr>ox_db := db\<rparr>)"]) (use assms(1) expand_event_ok in auto)
qed

lemma outbox_reachable_ok: "outbox_reachable zones n s \<Longrightarrow> outbox_ok n s"
proof (induction rule: outbox_reachable.induct)
  case fresh
  then show ?case by (simp add: outbox_ok_def fresh_outbox_def tables_keyed_def)
next
  case (idle s now db)
  then show ?case using claim_ok [of n s now None db] by simp
next
  case (claim s now d db)
  then show ?case using claim_ok [of n s now "Some d" db] by simp
qed (blast intro: enqueue_ok ensure_users_ok update_user_ok materialize_ok recover_stale_ok settle_ok crash_ok)+

section \<open>Properties\<close>

text \<open>C28: No message is delivered twice. In every state the workers can reach, an event has one row per idempotency key
  and each of its users one delivery; a delivery is sent at most as often as the attempts allow, by one worker at a
  time, and a send is repeated only after an error that is known to have delivered nothing: a send that succeeded,
  was refused, had an unknown outcome or died with its worker is the last one.\<close>

theorem no_message_is_sent_twice:
  assumes "outbox_reachable zones max_attempts s" "r \<in> set (nb_deliveries (ox_db s))"
  shows "distinct (map nx_key (nb_outbox (ox_db s))) \<and> distinct (map delivery_key (nb_deliveries (ox_db s))) \<and> distinct (ox_flight s) \<and>
    (let sends = outcomes_of (ox_log s) (nd_id r) in
     int (length sends) + (if nd_id r \<in> set (ox_flight s) then 1 else 0) \<le> max 0 max_attempts \<and>
     list_all retryable (if nd_id r \<in> set (ox_flight s) then sends else butlast sends))"
proof -
  have ok: "outbox_ok max_attempts s" using outbox_reachable_ok [OF assms(1)] .
  then have "delivery_ok max_attempts (ox_flight s) (ox_log s) r" using assms(2) by (simp add: outbox_ok_def)
  then show ?thesis using ok by (auto simp: delivery_ok_def outbox_ok_def tables_keyed_def Let_def)
qed

definition sample_event :: outbox_record where
  "sample_event = \<lparr>nx_id = 1, nx_key = ''service:market-data-unready:0'', nx_event_type = ''service_warning'', nx_payload = [],
     nx_status = ''pending'', nx_available_at = 0, nx_processed_at = None\<rparr>"

text \<open>One warning for one user: the first send fails with a known error, the second succeeds.\<close>

definition sample_delivery :: delivery_record where
  "sample_delivery = \<lparr>nd_id = 1, nd_outbox_id = 1, nd_user_id = 7, nd_status = Dl_Pending, nd_attempts = 0, nd_next_attempt_at = 0,
     nd_message_id = None, nd_last_error = None, nd_sent_at = None, nd_updated_at = 0\<rparr>"

definition sample_tables :: "delivery_record \<Rightarrow> notification_db" where
  "sample_tables r = \<lparr>nb_outbox = [sample_event\<lparr>nx_status := ''expanded'', nx_processed_at := Some 0\<rparr>], nb_next_outbox = 2,
     nb_deliveries = [r], nb_next_delivery = 2, nb_users = [new_user ''en'' ''UTC'' 0 0 7]\<rparr>"

definition sample_claim :: "int \<Rightarrow> pending_delivery" where
  "sample_claim k = \<lparr>pl_delivery_id = 1, pl_outbox_id = 1, pl_user_id = 7, pl_event_type = ''service_warning'', pl_payload = [],
     pl_language = ''en'', pl_attempts = k\<rparr>"

lemmas outbox_eval = ensure_users_def new_user_def enqueue_operational_event_def materialize_pending_def sample_event_def sample_delivery_def
  expand_event_def expand_for_def delivery_policy_def insert_delivery_def claim_delivery_def skip_paused_def fail_exhausted_def
  user_paused_def claimable_def start_sending_def settle_delivery_def mark_retry_def mark_sent_def finish_delivery_def
  sample_tables_def sample_claim_def Let_def

lemma sample_expanded:
  "outbox_reachable zones 3 \<lparr>ox_db = sample_tables sample_delivery, ox_flight = [], ox_log = []\<rparr>"
proof -
  define s0 where "s0 = fresh_outbox\<lparr>ox_db := ensure_users [7] ''en'' ''UTC'' 0 0 (ox_db fresh_outbox)\<rparr>"
  define s1 where "s1 = s0\<lparr>ox_db := snd (enqueue_operational_event ''service:market-data-unready:0'' ''service_warning'' [] 0 (ox_db s0))\<rparr>"
  have "outbox_reachable zones 3 s0" unfolding s0_def by (rule outbox_reachable.register [OF outbox_reachable.fresh])
  from outbox_reachable.enqueue [OF this, of "''service:market-data-unready:0''" "''service_warning''" "[]" 0]
  have s1: "outbox_reachable zones 3 s1" unfolding s1_def by (metis prod.collapse)
  have "materialize_pending zones 0 [7] 10 (ox_db s1) = Inr (1, sample_tables sample_delivery)"
    by (simp add: s1_def s0_def fresh_outbox_def outbox_eval)
  from outbox_reachable.materialize [OF s1 this] show ?thesis by (simp add: s1_def s0_def fresh_outbox_def)
qed

lemma sample_sent:
  "\<exists>r s. outbox_reachable (\<lambda>_. None) 3 s \<and> nb_deliveries (ox_db s) = [r] \<and> nd_status r = Dl_Sent \<and>
     ox_log s = [(1, Some (Retryable ''flood'' 5)), (1, Some (Sent 99))]"
proof -
  let ?reach = "outbox_reachable (\<lambda>_. None) 3"
  let ?r1 = "start_sending 0 sample_delivery"
  define r2 where "r2 = ?r1\<lparr>nd_status := Dl_Pending, nd_last_error := Some ''flood'', nd_next_attempt_at := retry_delay 1 5 1\<rparr>"
  define t where "t = retry_delay 1 5 1"
  have t: "nd_next_attempt_at r2 = t" by (simp add: r2_def t_def)
  have c1: "claim_delivery 0 3 (sample_tables sample_delivery) = (Some (sample_claim 1), sample_tables ?r1)" by (simp add: outbox_eval)
  have e1: "settle_delivery 0 1 1 1 (Retryable ''flood'' 5) (sample_tables ?r1) = sample_tables r2"
    by (simp add: r2_def outbox_eval)
  have c2: "claim_delivery t 3 (sample_tables r2) = (Some (sample_claim 2), sample_tables (start_sending t r2))"
    using t by (simp add: r2_def outbox_eval)
  have a: "?reach \<lparr>ox_db = sample_tables ?r1, ox_flight = [1], ox_log = []\<rparr>"
    using outbox_reachable.claim [OF sample_expanded, unfolded outbox_state.simps, OF c1] by (simp add: sample_claim_def)
  have b: "?reach \<lparr>ox_db = sample_tables r2, ox_flight = [], ox_log = [(1, Some (Retryable ''flood'' 5))]\<rparr>"
    using outbox_reachable.settle [OF a, where d = 1 and now = 0 and retry_base = 1 and attempts = 1 and outcome = "Retryable ''flood'' 5"] by (simp add: e1)
  have c: "?reach \<lparr>ox_db = sample_tables (start_sending t r2), ox_flight = [1], ox_log = [(1, Some (Retryable ''flood'' 5))]\<rparr>"
    using outbox_reachable.claim [OF b, unfolded outbox_state.simps, OF c2] by (simp add: sample_claim_def)
  have "?reach \<lparr>ox_db = settle_delivery t 1 1 2 (Sent 99) (sample_tables (start_sending t r2)), ox_flight = [],
      ox_log = [(1, Some (Retryable ''flood'' 5)), (1, Some (Sent 99))]\<rparr>"
    using outbox_reachable.settle [OF c, where d = 1 and now = t and retry_base = 1 and attempts = 2 and outcome = "Sent 99"] by simp
  moreover have "\<exists>r. nb_deliveries (settle_delivery t 1 1 2 (Sent 99) (sample_tables (start_sending t r2))) = [r] \<and> nd_status r = Dl_Sent"
    by (simp add: r2_def outbox_eval)
  ultimately show ?thesis by force
qed

lemma no_message_is_sent_twice_witness:
  "\<exists>r s. outbox_reachable (\<lambda>_. None) 3 s \<and> nb_deliveries (ox_db s) = [r] \<and> nd_status r = Dl_Sent \<and>
     ox_log s = [(1, Some (Retryable ''flood'' 5)), (1, Some (Sent 99))] \<and> distinct (ox_flight s)"
proof -
  obtain r s where s: "outbox_reachable (\<lambda>_. None) 3 s" "nb_deliveries (ox_db s) = [r]" "nd_status r = Dl_Sent"
    "ox_log s = [(1, Some (Retryable ''flood'' 5)), (1, Some (Sent 99))]" using sample_sent by blast
  then show ?thesis using no_message_is_sent_twice [OF s(1), of r] by auto
qed

text \<open>Quiet hours and thresholds. A delivery of a new signal starts out pending exactly when the user is not paused,
  the score reaches the threshold of the user, and the local time lies in the window of the user, counted around the
  clock from its start; any other event starts out pending unless the user is paused.\<close>

theorem quiet_hours_hold_back_new_signals_only:
  assumes "zone_info zones (tu_timezone u) = Inr zone" "map_of (nx_payload x) ''score'' = Some (JInt score)"
    and "\<And>t. 0 \<le> zone t \<and> zone t < days 1" "0 \<le> tu_start u" "tu_start u < days 1" "0 \<le> tu_end u" "tu_end u < days 1"
  shows "delivery_policy zones now x u = Inr (Dl_Pending, None) \<longleftrightarrow> \<not> tu_paused u \<and>
    (nx_event_type x = ''new_signal'' \<longrightarrow> tu_minimum_score u \<le> score \<and>
      (tu_start u = tu_end u \<or> (zone now - tu_start u) mod days 1 < (tu_end u - tu_start u) mod days 1))"
proof -
  have wrap: "(a - b) mod days 1 = (if b \<le> a then a - b else a - b + days 1)"
    if "0 \<le> a" "a < days 1" "0 \<le> b" "b < days 1" for a b :: int
  proof (cases "b \<le> a")
    case False
    have "(a - b) mod days 1 = (a - b + days 1) mod days 1" by simp
    also have "\<dots> = a - b + days 1" using False that by (intro mod_pos_pos_trivial) auto
    finally show ?thesis using False by simp
  qed (use that in \<open>simp add: mod_pos_pos_trivial\<close>)
  show ?thesis
    using assms(1,2) assms(3) [of now] assms(4-7)
    by (auto simp: delivery_policy_def notification_window_is_open_def json_int_def Let_def wrap split: if_splits)
qed

lemma quiet_hours_hold_back_new_signals_only_witness:
  "delivery_policy (\<lambda>_. Some (\<lambda>t. hours 21)) 0 (sample_event\<lparr>nx_event_type := ''new_signal'', nx_payload := [(''score'', JInt 80)]\<rparr>)
     (new_user ''en'' ''UTC'' (hours 20) (hours 7) 7) = Inr (Dl_Pending, None)"
  by (subst quiet_hours_hold_back_new_signals_only [where zone = "\<lambda>t. hours 21" and score = 80])
    (simp_all add: new_user_def sample_event_def zone_info_def zone_key_ok_def hours_def days_def)

end
