(* ===== verification/Strategy_Repository.thy ===== *)
theory Strategy_Repository
  imports Universe_Refresh Signal_Repository
begin

text \<open>
  \<open>src/src/crypto_smc/db/repositories/strategy.py\<close> with the tables of \<open>db/models/strategy.py\<close>: the profiles of the selected
  contracts, the candles of a timeframe, and the analyses with their candidates, which are published in the same
  transaction. Digests of JSON are taken by the function \<open>digest\<close> of what they are digests of.
\<close>

section \<open>The tables\<close>

text \<open>What is hashed: the parameters of a strategy, or the symbol, version and cutoffs of an input.\<close>

datatype hashed = Parameters strategy_config | Input_Of string string "(string \<times> instant) list"

record version_row =
  vr_id :: int
  vr_version :: string
  vr_checksum :: string
  vr_parameters :: strategy_config
  vr_is_active :: bool

record analysis_row =
  aw_id :: int
  aw_symbol :: string
  aw_version_id :: int
  aw_signature :: string
  aw_analyzed_at :: instant
  aw_input_cutoffs :: "(string \<times> instant) list"
  aw_market :: market_context
  aw_analyses :: "(string \<times> smc_analysis) list"

text \<open>The columns of the trade plan are set together or not at all.\<close>

record stored_candidate =
  kd_id :: int
  kd_snapshot_id :: int
  kd_version_id :: int
  kd_symbol :: string
  kd_direction :: trade_direction
  kd_status :: candidate_status
  kd_score :: int
  kd_strength :: strength
  kd_plan :: "trade_plan option"
  kd_components :: "score_component list"
  kd_evidence :: "evidence_line list"
  kd_warnings :: "string list"
  kd_suppression_reasons :: "string list"
  kd_analyzed_at :: instant
  kd_expires_at :: instant
  kd_created_at :: instant

record strategy_db =
  yd_versions :: "version_row list"
  yd_next_version :: int
  yd_analyses :: "analysis_row list"
  yd_next_analysis :: int
  yd_candidates :: "stored_candidate list"
  yd_next_candidate :: int
  yd_signals :: signal_db

section \<open>Profiles and candles\<close>

record symbol_profile =
  sp_symbol :: string
  sp_turnover_24h :: "dec option"
  sp_spread_bps :: "dec option"
  sp_max_leverage :: dec
  sp_quantity_step :: dec
  sp_min_notional :: dec

definition list_active_profiles :: "universe_db \<Rightarrow> symbol_profile list" where
  "list_active_profiles u =
     map snd (sort_key fst
       [(mr_market_cap_rank m, \<lparr>sp_symbol = instrument_key i, sp_turnover_24h = mr_exchange_turnover m,
           sp_spread_bps = mr_spread_bps m, sp_max_leverage = iv_max_leverage (ir_instrument i),
           sp_quantity_step = iv_quantity_step (ir_instrument i), sp_min_notional = iv_min_notional_value (ir_instrument i)\<rparr>).
         m \<leftarrow> ub_members u, s \<leftarrow> ub_snapshots u, i \<leftarrow> ub_instruments u,
         ss_id s = mr_snapshot_id m, mr_instrument_symbol m = Some (instrument_key i), ss_is_active s, mr_is_selected m])"

definition load_candles :: "market_db \<Rightarrow> string \<Rightarrow> timeframe \<Rightarrow> int \<Rightarrow> candle list res" where
  "load_candles db symb tf limit =
     (let records = take (nat limit) (sort_key (\<lambda>a. - ag_open_time a)
            (filter (\<lambda>a. ag_symbol a = symb \<and> ag_timeframe a = tf) (map ar_candle (md_aggregates db))))
      in traverse (candle_of_aggregate tf) (rev records))"

section \<open>Saving an analysis\<close>

definition get_or_create_version :: "(hashed \<Rightarrow> string) \<Rightarrow> strategy_config \<Rightarrow> strategy_db \<Rightarrow> (version_row \<times> strategy_db) res" where
  "get_or_create_version digest config db =
     (case List.find (\<lambda>v. vr_version v = sc_version config) (yd_versions db) of
        Some existing \<Rightarrow>
          if vr_checksum existing \<noteq> digest (Parameters config)
          then Inl (ValueError (''Strategy version '' @ sc_version config @ '' already has different parameters''))
          else Inr (existing, db)
      | None \<Rightarrow>
          let row = \<lparr>vr_id = yd_next_version db, vr_version = sc_version config, vr_checksum = digest (Parameters config),
                vr_parameters = config, vr_is_active = True\<rparr>
          in Inr (row, db\<lparr>yd_versions := map (\<lambda>v. v\<lparr>vr_is_active := False\<rparr>) (yd_versions db) @ [row],
               yd_next_version := yd_next_version db + 1\<rparr>))"

definition input_signature :: "(hashed \<Rightarrow> string) \<Rightarrow> strategy_input \<Rightarrow> string \<Rightarrow> string" where
  "input_signature digest inp version = digest (Input_Of (si_symbol inp) version (si_input_cutoffs inp))"

definition candidate_record :: "int \<Rightarrow> int \<Rightarrow> int \<Rightarrow> instant \<Rightarrow> signal_candidate \<Rightarrow> stored_candidate" where
  "candidate_record i snapshot_id version_id now c =
     \<lparr>kd_id = i, kd_snapshot_id = snapshot_id, kd_version_id = version_id, kd_symbol = ca_symbol c, kd_direction = ca_direction c,
      kd_status = ca_status c, kd_score = ca_score c, kd_strength = ca_strength c, kd_plan = ca_trade_plan c,
      kd_components = ca_components c, kd_evidence = ca_evidence c, kd_warnings = ca_warnings c,
      kd_suppression_reasons = ca_suppression_reasons c, kd_analyzed_at = ca_analyzed_at c, kd_expires_at = ca_expires_at c,
      kd_created_at = now\<rparr>"

text \<open>The columns the publication reads of a stored candidate.\<close>

definition published_view :: "stored_candidate \<Rightarrow> candidate_row" where
  "published_view r = (let plan = (\<lambda>f. map_option f (kd_plan r)) in
     \<lparr>cr_id = kd_id r, cr_snapshot_id = kd_snapshot_id r, cr_symbol = kd_symbol r, cr_direction = kd_direction r,
      cr_score = kd_score r, cr_strength = kd_strength r, cr_entry_lower = plan tp_entry_lower, cr_entry_upper = plan tp_entry_upper,
      cr_planned_entry = plan tp_planned_entry, cr_stop_loss = plan tp_stop_loss, cr_take_profit_1 = plan tp_take_profit_1,
      cr_take_profit_2 = plan tp_take_profit_2, cr_risk_amount = plan tp_risk_amount, cr_quantity = plan tp_quantity,
      cr_notional = plan tp_notional, cr_estimated_entry_fee = plan tp_estimated_entry_fee, cr_expires_at = kd_expires_at r\<rparr>)"

fun candidate_records :: "int \<Rightarrow> int \<Rightarrow> int \<Rightarrow> instant \<Rightarrow> signal_candidate list \<Rightarrow> stored_candidate list" where
  "candidate_records i snapshot_id version_id now [] = []"
| "candidate_records i snapshot_id version_id now (c # cs) =
     candidate_record i snapshot_id version_id now c # candidate_records (i + 1) snapshot_id version_id now cs"

definition analysis_record :: "(hashed \<Rightarrow> string) \<Rightarrow> int \<Rightarrow> version_row \<Rightarrow> strategy_input \<Rightarrow> analysis_row" where
  "analysis_record digest i version inp =
     \<lparr>aw_id = i, aw_symbol = si_symbol inp, aw_version_id = vr_id version,
      aw_signature = input_signature digest inp (vr_version version), aw_analyzed_at = si_analyzed_at inp,
      aw_input_cutoffs = si_input_cutoffs inp, aw_market = si_market inp,
      aw_analyses = [(''4h'', si_analysis_4h inp), (''1h'', si_analysis_1h inp), (''15m'', si_analysis_15m inp), (''5m'', si_analysis_5m inp)]\<rparr>"

definition analysis_key :: "analysis_row \<Rightarrow> string \<times> int \<times> string" where
  "analysis_key a = (aw_symbol a, aw_version_id a, aw_signature a)"

definition save_analysis ::
  "(hashed \<Rightarrow> string) \<Rightarrow> policy_config \<Rightarrow> instant \<Rightarrow> strategy_input \<Rightarrow> signal_candidate list \<Rightarrow> strategy_config \<Rightarrow> strategy_db \<Rightarrow>
   ((int \<times> bool) \<times> strategy_db) res" where
  "save_analysis digest k now inp candidates config db =
     rbind (get_or_create_version digest config db) (\<lambda>(version, db).
     let row = analysis_record digest (yd_next_analysis db) version inp in
     case List.find (\<lambda>a. analysis_key a = analysis_key row) (yd_analyses db) of
       Some existing \<Rightarrow> Inr ((aw_id existing, False), db)
     | None \<Rightarrow>
         let records = candidate_records (yd_next_candidate db) (aw_id row) (vr_id version) now candidates;
             signals = yd_signals db;
             signals = signals\<lparr>db_candidates := db_candidates signals @ map published_view records,
               db_snapshot_funding := (aw_id row, mc_funding_rate (si_market inp)) # db_snapshot_funding signals\<rparr>
         in rbind (raise_if (\<not> distinct (map kd_direction records)) (RuntimeError ''IntegrityError'')) (\<lambda>_.
            rbind (publish_candidates (zip (map published_view records) candidates) k now signals) (\<lambda>(_, signals).
            Inr ((aw_id row, True), db\<lparr>yd_analyses := yd_analyses db @ [row], yd_next_analysis := yd_next_analysis db + 1,
              yd_candidates := yd_candidates db @ records, yd_next_candidate := yd_next_candidate db + int (length records),
              yd_signals := signals\<rparr>))))"

section \<open>Queries\<close>

record candidate_filters =
  cf_symbol :: "string option"
  cf_direction :: "trade_direction option"
  cf_status :: "candidate_status option"
  cf_minimum_score :: "int option"
  cf_strategy_version :: "string option"
  cf_created_from :: "instant option"
  cf_created_to :: "instant option"
  cf_limit :: int

definition admits :: "'a option \<Rightarrow> ('a \<Rightarrow> bool) \<Rightarrow> bool" where
  "admits x p \<longleftrightarrow> (case x of None \<Rightarrow> True | Some y \<Rightarrow> p y)"

text \<open>A view is the stored candidate with the name of its version.\<close>

definition list_candidates :: "candidate_filters \<Rightarrow> strategy_db \<Rightarrow> (stored_candidate \<times> string) list" where
  "list_candidates f db =
     take (nat (cf_limit f)) (sort_key (\<lambda>(r, _). (- kd_created_at r, - kd_id r))
       [(r, vr_version v). r \<leftarrow> yd_candidates db, v \<leftarrow> yd_versions db, vr_id v = kd_version_id r,
          admits (cf_symbol f) (\<lambda>s. kd_symbol r = py_upper s), admits (cf_direction f) (\<lambda>d. kd_direction r = d),
          admits (cf_status f) (\<lambda>s. kd_status r = s), admits (cf_minimum_score f) (\<lambda>n. n \<le> kd_score r),
          admits (cf_strategy_version f) (\<lambda>n. vr_version v = n), admits (cf_created_from f) (\<lambda>t. t \<le> kd_created_at r),
          admits (cf_created_to f) (\<lambda>t. kd_created_at r \<le> t)])"

text \<open>\<open>SignalRepository.list_signals\<close>.\<close>

record signal_filters =
  sf_symbol :: "string option"
  sf_status :: "signal_status option"
  sf_limit :: int

record signal_view =
  sv_signal :: signal_row
  sv_trade :: "trade_row option"

definition list_signals :: "signal_filters \<Rightarrow> signal_db \<Rightarrow> signal_view list" where
  "list_signals f db =
     map (\<lambda>s. \<lparr>sv_signal = s, sv_trade = find_trade db (sr_id s)\<rparr>)
       (take (nat (sf_limit f)) (sort_key (\<lambda>s. (- sr_created_at s, - sr_id s))
         (filter (\<lambda>s. admits (sf_symbol f) (\<lambda>x. sr_symbol s = py_upper x) \<and> admits (sf_status f) (\<lambda>x. sr_status s = x)) (db_signals db))))"

section \<open>What an analysis leaves\<close>

definition strategy_ok :: "strategy_db \<Rightarrow> bool" where
  "strategy_ok db \<longleftrightarrow>
     distinct (map vr_version (yd_versions db)) \<and> distinct (map vr_id (yd_versions db)) \<and> (\<forall>v \<in> set (yd_versions db). vr_id v < yd_next_version db) \<and>
     length (filter vr_is_active (yd_versions db)) \<le> 1 \<and>
     distinct (map analysis_key (yd_analyses db)) \<and> distinct (map aw_id (yd_analyses db)) \<and>
     (\<forall>a \<in> set (yd_analyses db). aw_id a < yd_next_analysis db) \<and>
     distinct (map kd_id (yd_candidates db)) \<and> (\<forall>r \<in> set (yd_candidates db). kd_id r < yd_next_candidate db \<and> kd_snapshot_id r < yd_next_analysis db) \<and>
     distinct (map (\<lambda>r. (kd_snapshot_id r, kd_direction r)) (yd_candidates db)) \<and>
     (\<forall>s \<in> set (db_signals (yd_signals db)). \<exists>r \<in> set (yd_candidates db). kd_id r = sr_candidate_id s \<and> kd_symbol r = sr_symbol s \<and>
        kd_status r = Accepted \<and> kd_plan r \<noteq> None) \<and>
     db_ok (yd_signals db)"

lemma publish_one_step:
  assumes "publish_one k now ps (record, c) = Inr ps'" "db_ok (ps_db ps)"
  shows "db_ok (ps_db ps')" "\<exists>s. db_signals (ps_db ps') = db_signals (ps_db ps) @ [s] \<and> sr_candidate_id s = cr_id record \<and> sr_symbol s = cr_symbol record"
proof -
  show "db_ok (ps_db ps')"
  proof (rule publish_oneE [OF assms(1)])
    fix signal trade event
    assume h: "ps_db ps' = (ps_db ps)\<lparr>db_signals := db_signals (ps_db ps) @ [signal],
       db_trades := db_trades (ps_db ps) @ trade, db_events := db_events (ps_db ps) @ [event],
       db_next_signal_id := db_next_signal_id (ps_db ps) + 1\<rparr>"
    "sr_id signal = db_next_signal_id (ps_db ps)" "sr_symbol signal = cr_symbol record"
    "sr_status signal = (if pd_allowed (evaluate_publication c (ps_observations ps) now k)
       then Sg_Preparing else Sg_Suppressed)"
    "sr_created_at signal = now" "sr_version signal = 1" "sr_closed_at signal = None"
    "\<not> violates_unique signal (ev_key event) (ps_db ps)"
    "if pd_allowed (evaluate_publication c (ps_observations ps) now k)
     then \<exists>t. trade = [t] \<and> vt_signal_id t = sr_id signal \<and> vt_status t = Vt_Waiting_Entry \<and>
       vt_resolved_at t = None \<and> vt_current_stop t = sr_stop_loss signal else trade = []"
    "ev_signal_id event = sr_id signal" "ev_status_from event = None" "ev_status_to event = sr_status signal"
    show ?thesis by (rule publish_one_tables [OF assms(2) h(1,2,4,6,7,8,9,10,11,12)])
  qed
  show "\<exists>s. db_signals (ps_db ps') = db_signals (ps_db ps) @ [s] \<and> sr_candidate_id s = cr_id record \<and> sr_symbol s = cr_symbol record"
    using assms(1) unfolding publish_one_def Let_def prod.case rbind_eq_Inr raise_if_eq_Inr sum.inject
    by (force simp: signal_record_def)
qed

text \<open>The signals a publication adds come from accepted candidates with a plan.\<close>

lemma publish_adds:
  assumes "publish_candidates cs k now db = Inr (counts, db')" "db_ok db"
  shows "db_ok db' \<and> (\<forall>s \<in> set (db_signals db'). s \<in> set (db_signals db) \<or>
     (\<exists>(record, c) \<in> set cs. ca_status c = Accepted \<and> ca_trade_plan c \<noteq> None \<and> sr_candidate_id s = cr_id record \<and> sr_symbol s = cr_symbol record))"
proof (cases "filter (\<lambda>(_, c). ca_status c = Accepted \<and> ca_trade_plan c \<noteq> None) cs = []")
  case True
  with assms show ?thesis unfolding publish_candidates_def Let_def by (simp only: if_True) simp
next
  case False
  let ?acc = "filter (\<lambda>(_, c). ca_status c = Accepted \<and> ca_trade_plan c \<noteq> None) cs"
  define P where "P = (\<lambda>ps :: publication_state. db_ok (ps_db ps) \<and> (\<forall>s \<in> set (db_signals (ps_db ps)). s \<in> set (db_signals db) \<or>
     (\<exists>(record, c) \<in> set cs. ca_status c = Accepted \<and> ca_trade_plan c \<noteq> None \<and> sr_candidate_id s = cr_id record \<and> sr_symbol s = cr_symbol record)))"
  from False assms(1) obtain ps where run: "foldM (publish_one k now)
      \<lparr>ps_db = db, ps_observations = map observation_of (observed_rows db k now),
         ps_prepared = 0, ps_suppressed = 0\<rparr> ?acc = Inr ps" and db': "db' = ps_db ps"
    unfolding publish_candidates_def Let_def by (auto simp only: if_False rbind_eq_Inr sum.inject prod.inject)
  have "P ps"
  proof (rule foldM_invariant [OF run, where P = P])
    show "P \<lparr>ps_db = db, ps_observations = map observation_of (observed_rows db k now), ps_prepared = 0, ps_suppressed = 0\<rparr>"
      using assms(2) by (simp add: P_def)
  next
    fix s x s' assume x: "x \<in> set ?acc" and s: "P s" "publish_one k now s x = Inr s'"
    obtain row c where rc: "x = (row, c)" by (cases x)
    obtain r where "db_ok (ps_db s')" "db_signals (ps_db s') = db_signals (ps_db s) @ [r]" "sr_candidate_id r = cr_id row"
        "sr_symbol r = cr_symbol row"
      using publish_one_step [OF s(2) [unfolded rc]] s(1) by (auto simp: P_def)
    then show "P s'" using s(1) x by (auto simp: P_def rc)
  qed
  then show ?thesis by (simp add: P_def db')
qed

lemma candidate_records_facts:
  "length (candidate_records i sid vid now cs) = length cs"
  "map kd_id (candidate_records i sid vid now cs) = map (\<lambda>j. i + int j) [0..<length cs]"
  "r \<in> set (candidate_records i sid vid now cs) \<Longrightarrow> kd_snapshot_id r = sid \<and> i \<le> kd_id r \<and> kd_id r < i + int (length cs)"
proof (induction cs arbitrary: i)
  case (Cons c cs)
  {
    case 1
    show ?case using Cons by simp
  next
    case 2
    have "map (\<lambda>j. i + int j) [0..<Suc (length cs)] = i # map (\<lambda>j. (i + 1) + int j) [0..<length cs]"
      by (simp add: upt_conv_Cons map_Suc_upt [symmetric] del: upt_Suc map_Suc_upt)
    then show ?case using Cons by (simp add: candidate_record_def)
  next
    case 3
    then show ?case using Cons.IH(3) [of "i + 1"] by (force simp: candidate_record_def)
  }
qed simp_all

lemma zip_records:
  "(v, c) \<in> set (zip (map published_view (candidate_records i sid vid now cs)) cs) \<Longrightarrow>
     \<exists>r \<in> set (candidate_records i sid vid now cs). v = published_view r \<and> kd_status r = ca_status c \<and> kd_plan r = ca_trade_plan c \<and>
       kd_symbol r = ca_symbol c"
  by (induction cs arbitrary: i) (auto simp: candidate_record_def)

lemma versions_ok:
  assumes "strategy_ok db" "get_or_create_version digest config db = Inr (v, db')"
  shows "strategy_ok db'" "v \<in> set (yd_versions db')" "vr_version v = sc_version config" "vr_checksum v = digest (Parameters config)"
    "yd_analyses db' = yd_analyses db" "yd_next_analysis db' = yd_next_analysis db"
proof -
  have "strategy_ok db' \<and> v \<in> set (yd_versions db') \<and> vr_version v = sc_version config \<and> vr_checksum v = digest (Parameters config) \<and>
      yd_analyses db' = yd_analyses db \<and> yd_next_analysis db' = yd_next_analysis db"
  proof (cases "List.find (\<lambda>v. vr_version v = sc_version config) (yd_versions db)")
    case (Some w)
    then have "w \<in> set (yd_versions db)" "vr_version w = sc_version config" by (auto simp: find_Some_iff)
    moreover have "v = w" "db' = db" "vr_checksum w = digest (Parameters config)"
      using assms(2) Some by (simp_all add: get_or_create_version_def split: if_splits)
    ultimately show ?thesis using assms(1) by simp
  next
    case None
    then have new: "sc_version config \<notin> vr_version ` set (yd_versions db)" by (auto simp: find_None_iff)
    define f where "f = (\<lambda>v :: version_row. v\<lparr>vr_is_active := False\<rparr>)"
    have f: "vr_version (f x) = vr_version x" "vr_id (f x) = vr_id x" "\<not> vr_is_active (f x)" for x by (simp_all add: f_def)
    have v: "v = \<lparr>vr_id = yd_next_version db, vr_version = sc_version config, vr_checksum = digest (Parameters config),
          vr_parameters = config, vr_is_active = True\<rparr>"
      and db': "db' = db\<lparr>yd_versions := map f (yd_versions db) @ [v], yd_next_version := yd_next_version db + 1\<rparr>"
      using assms(2) None by (auto simp: get_or_create_version_def Let_def f_def)
    have k: "map vr_version (map f (yd_versions db)) = map vr_version (yd_versions db)" "map vr_id (map f (yd_versions db)) = map vr_id (yd_versions db)"
      using f by simp_all
    then have "distinct (map vr_version (map f (yd_versions db)))" "distinct (map vr_id (map f (yd_versions db)))"
      using assms(1) by (simp_all only: strategy_ok_def)
    then show ?thesis using assms(1) new f by (auto simp: strategy_ok_def db' v image_iff less_Suc_eq filter_map comp_def)
  qed
  then show "strategy_ok db'" "v \<in> set (yd_versions db')" "vr_version v = sc_version config" "vr_checksum v = digest (Parameters config)"
    "yd_analyses db' = yd_analyses db" "yd_next_analysis db' = yd_next_analysis db" by blast+
qed

text \<open>An input is analysed when the analysis of its cutoffs is stored under the version of the strategy.\<close>

definition analysed :: "(hashed \<Rightarrow> string) \<Rightarrow> strategy_config \<Rightarrow> strategy_input \<Rightarrow> strategy_db \<Rightarrow> bool" where
  "analysed digest config inp db \<longleftrightarrow>
     (\<exists>v \<in> set (yd_versions db). vr_version v = sc_version config \<and> vr_checksum v = digest (Parameters config) \<and>
        (si_symbol inp, vr_id v, input_signature digest inp (sc_version config)) \<in> analysis_key ` set (yd_analyses db))"

lemma record_key:
  "vr_version v = sc_version config \<Longrightarrow>
     analysis_key (analysis_record digest i v inp) = (si_symbol inp, vr_id v, input_signature digest inp (sc_version config))"
  by (simp add: analysis_key_def analysis_record_def)

lemma version_found:
  assumes "strategy_ok db" "v \<in> set (yd_versions db)" "vr_version v = sc_version config" "vr_checksum v = digest (Parameters config)"
  shows "get_or_create_version digest config db = Inr (v, db)"
proof -
  have "distinct (map vr_version (yd_versions db))" using assms(1) by (simp add: strategy_ok_def)
  then have "List.find (\<lambda>v. vr_version v = sc_version config) (yd_versions db) = Some v" using find_unique assms(2,3) by metis
  then show ?thesis using assms(4) by (simp add: get_or_create_version_def)
qed

text \<open>Saving an analysis that is stored already changes nothing and reports a duplicate.\<close>

lemma save_analysed_again:
  assumes "strategy_ok db" "analysed digest config inp db"
  shows "\<exists>i. save_analysis digest k now inp cs config db = Inr ((i, False), db)"
proof -
  obtain v where v: "v \<in> set (yd_versions db)" "vr_version v = sc_version config" "vr_checksum v = digest (Parameters config)"
    and stored: "(si_symbol inp, vr_id v, input_signature digest inp (sc_version config)) \<in> analysis_key ` set (yd_analyses db)"
    using assms(2) by (auto simp: analysed_def)
  then have "List.find (\<lambda>a. analysis_key a = analysis_key (analysis_record digest (yd_next_analysis db) v inp)) (yd_analyses db) \<noteq> None"
    unfolding record_key [OF v(2)] by (auto simp: find_None_iff)
  then show ?thesis using version_found [where digest = digest and config = config, OF assms(1) v] by (auto simp: save_analysis_def Let_def)
qed

lemma save_analysis_cases:
  assumes "strategy_ok db" "save_analysis digest k now inp cs config db = Inr ((i, created), db')"
  obtains (duplicate) v where "get_or_create_version digest config db = Inr (v, db')" "\<not> created"
      "analysis_key (analysis_record digest i v inp) \<in> analysis_key ` set (yd_analyses db')"
  | (fresh) v db1 signals n where "get_or_create_version digest config db = Inr (v, db1)" "created" "i = yd_next_analysis db1"
      "analysis_key (analysis_record digest i v inp) \<notin> analysis_key ` set (yd_analyses db1)"
      "distinct (map kd_direction (candidate_records (yd_next_candidate db1) i (vr_id v) now cs))"
      "publish_candidates (zip (map published_view (candidate_records (yd_next_candidate db1) i (vr_id v) now cs)) cs) k now
        ((yd_signals db1)\<lparr>db_candidates := db_candidates (yd_signals db1) @ map published_view (candidate_records (yd_next_candidate db1) i (vr_id v) now cs),
           db_snapshot_funding := (i, mc_funding_rate (si_market inp)) # db_snapshot_funding (yd_signals db1)\<rparr>) = Inr (n, signals)"
      "db' = db1\<lparr>yd_analyses := yd_analyses db1 @ [analysis_record digest i v inp], yd_next_analysis := yd_next_analysis db1 + 1,
         yd_candidates := yd_candidates db1 @ candidate_records (yd_next_candidate db1) i (vr_id v) now cs,
         yd_next_candidate := yd_next_candidate db1 + int (length cs), yd_signals := signals\<rparr>"
proof -
  obtain v db1 where v: "get_or_create_version digest config db = Inr (v, db1)"
    using assms(2) by (auto simp: save_analysis_def)
  let ?row = "analysis_record digest (yd_next_analysis db1) v inp"
  have id: "aw_id ?row = yd_next_analysis db1" by (simp add: analysis_record_def)
  show thesis
  proof (cases "List.find (\<lambda>a. analysis_key a = analysis_key ?row) (yd_analyses db1)")
    case (Some a)
    then have "\<not> created" "db' = db1" using assms(2) v by (simp_all add: save_analysis_def Let_def)
    moreover have "a \<in> set (yd_analyses db1)" "analysis_key a = analysis_key ?row" using Some by (auto simp: find_Some_iff)
    then have "analysis_key ?row \<in> analysis_key ` set (yd_analyses db1)" by (metis image_eqI)
    moreover have "analysis_key (analysis_record digest i v inp) = analysis_key ?row" by (simp add: analysis_record_def analysis_key_def)
    ultimately show thesis using duplicate v by metis
  next
    case None
    then have new: "analysis_key ?row \<notin> analysis_key ` set (yd_analyses db1)" by (auto simp: find_None_iff)
    show thesis using assms(2) v None new
      by (auto simp: save_analysis_def Let_def id candidate_records_facts(1) intro!: fresh)
  qed
qed

lemma save_analysis_ok:
  assumes ok: "strategy_ok db" and saved: "save_analysis digest k now inp cs config db = Inr ((i, created), db')"
  shows "strategy_ok db' \<and> analysed digest config inp db'"
proof (cases rule: save_analysis_cases [OF ok saved, case_names duplicate fresh])
  case (duplicate v)
  note v = versions_ok [OF ok duplicate(1)]
  have "(si_symbol inp, vr_id v, input_signature digest inp (sc_version config)) \<in> analysis_key ` set (yd_analyses db')"
    using duplicate(3) unfolding record_key [OF v(3)] .
  then show ?thesis using v(1-4) by (auto simp: analysed_def)
next
  case (fresh v db1 signals n)
  note v = versions_ok [OF ok fresh(1)]
  let ?row = "analysis_record digest i v inp" and ?records = "candidate_records (yd_next_candidate db1) i (vr_id v) now cs"
  have ids: "distinct (map kd_id ?records)" by (simp add: candidate_records_facts(2) distinct_map inj_on_def)
  have rec: "kd_snapshot_id r = i \<and> yd_next_candidate db1 \<le> kd_id r \<and> kd_id r < yd_next_candidate db1 + int (length cs)"
    if "r \<in> set ?records" for r using candidate_records_facts(3) [OF that] .
  have row: "aw_id ?row = i" by (simp add: analysis_record_def)
  have db1: "strategy_ok db1" by fact
  have old: "kd_id r < yd_next_candidate db1" "kd_snapshot_id r < i" if "r \<in> set (yd_candidates db1)" for r
    using db1 that by (auto simp: strategy_ok_def fresh(3))
  have dirs: "distinct (map (\<lambda>r. (kd_snapshot_id r, kd_direction r)) ?records)"
    using fresh(5) by (auto simp: distinct_map inj_on_def)
  have candidates: "distinct (map kd_id (yd_candidates db1 @ ?records))"
      "distinct (map (\<lambda>r. (kd_snapshot_id r, kd_direction r)) (yd_candidates db1 @ ?records))"
    using db1 ids dirs rec old by (fastforce simp: strategy_ok_def)+
  have pub: "db_ok signals \<and> (\<forall>s \<in> set (db_signals signals). s \<in> set (db_signals (yd_signals db1)) \<or>
     (\<exists>(rc, c) \<in> set (zip (map published_view ?records) cs). ca_status c = Accepted \<and> ca_trade_plan c \<noteq> None \<and>
        sr_candidate_id s = cr_id rc \<and> sr_symbol s = cr_symbol rc))"
  proof -
    have "db_ok ((yd_signals db1)\<lparr>db_candidates := db_candidates (yd_signals db1) @ map published_view ?records,
           db_snapshot_funding := (i, mc_funding_rate (si_market inp)) # db_snapshot_funding (yd_signals db1)\<rparr>)"
      using db1 by (simp add: strategy_ok_def db_ok_def keys_ok_def one_active_row_per_symbol_def signal_history_ok_def signal_trade_ok_def
          history_def find_trade_def)
    from publish_adds [OF fresh(6) this] show ?thesis by simp
  qed
  have signals: "\<exists>r \<in> set (yd_candidates db1 @ ?records). kd_id r = sr_candidate_id s \<and> kd_symbol r = sr_symbol s \<and> kd_status r = Accepted \<and> kd_plan r \<noteq> None"
    if s: "s \<in> set (db_signals signals)" for s
  proof (cases "s \<in> set (db_signals (yd_signals db1))")
    case True
    have "\<forall>s \<in> set (db_signals (yd_signals db1)). \<exists>r \<in> set (yd_candidates db1). kd_id r = sr_candidate_id s \<and> kd_symbol r = sr_symbol s \<and>
        kd_status r = Accepted \<and> kd_plan r \<noteq> None" using db1 unfolding strategy_ok_def by (elim conjE)
    from bspec [OF this True] show ?thesis by auto
  next
    case False
    then obtain rc c where rc: "(rc, c) \<in> set (zip (map published_view ?records) cs)" "ca_status c = Accepted" "ca_trade_plan c \<noteq> None"
      "sr_candidate_id s = cr_id rc" "sr_symbol s = cr_symbol rc" using pub s by blast
    from zip_records [OF rc(1)] rc(2-5) show ?thesis by (auto simp: published_view_def)
  qed
  have "strategy_ok db'"
    using db1 candidates signals pub fresh(4) rec old row
    by (fastforce simp: strategy_ok_def fresh(3,7))
  moreover have "analysis_key ?row \<in> analysis_key ` set (yd_analyses db')" by (simp add: fresh(7))
  then have "analysed digest config inp db'" using v(2-4) unfolding record_key [OF v(3)] by (auto simp: analysed_def fresh(7))
  ultimately show ?thesis by blast
qed

text \<open>What is stored stays.\<close>

lemma analysed_kept:
  assumes ok: "strategy_ok db" and saved: "save_analysis digest k now inp cs config db = Inr ((i, created), db')"
    and "analysed digest config inp' db"
  shows "analysed digest config inp' db'"
proof -
  obtain v where v: "v \<in> set (yd_versions db)" "vr_version v = sc_version config" "vr_checksum v = digest (Parameters config)"
    "(si_symbol inp', vr_id v, input_signature digest inp' (sc_version config)) \<in> analysis_key ` set (yd_analyses db)"
    using assms(3) by (auto simp: analysed_def)
  note found = version_found [where digest = digest and config = config, OF ok v(1-3)]
  show ?thesis
  proof (cases rule: save_analysis_cases [OF ok saved, case_names duplicate fresh])
    case (duplicate w)
    then show ?thesis using found assms(3) by simp
  next
    case (fresh w db1 signals n)
    then have "db1 = db" using found by simp
    then show ?thesis using v by (auto simp: analysed_def fresh(7))
  qed
qed

section \<open>The analysed contracts\<close>

lemma insort_key_map: "insort_key k (h x) (map h xs) = map h (insort_key (\<lambda>x. k (h x)) x xs)"
  by (induction xs) auto

lemma sort_key_map: "sort_key k (map h xs) = map h (sort_key (\<lambda>x. k (h x)) xs)"
  by (induction xs) (simp_all add: insort_key_map)

definition joined_rows :: "universe_db \<Rightarrow> (member_record \<times> instrument_record) list" where
  "joined_rows u = [(m, i). m \<leftarrow> ub_members u, s \<leftarrow> ub_snapshots u, i \<leftarrow> ub_instruments u,
     ss_id s = mr_snapshot_id m, mr_instrument_symbol m = Some (instrument_key i), ss_is_active s, mr_is_selected m]"

lemma targets_joined:
  "list_active_targets (market_view u db) = sort_key tg_market_cap_rank (map (\<lambda>(m, i). \<lparr>tg_symbol = instrument_key i,
     tg_market_cap_rank = mr_market_cap_rank m, tg_launch_time = iv_launch_time (ir_instrument i)\<rparr>) (joined_rows u))"
  unfolding list_active_targets_def joined_rows_def market_view_def
  by (simp add: map_concat comp_def if_distrib [of "map _"] cong: if_cong)

lemma profiles_joined:
  "list_active_profiles u = map snd (sort_key fst (map (\<lambda>(m, i). (mr_market_cap_rank m, \<lparr>sp_symbol = instrument_key i,
     sp_turnover_24h = mr_exchange_turnover m, sp_spread_bps = mr_spread_bps m, sp_max_leverage = iv_max_leverage (ir_instrument i),
     sp_quantity_step = iv_quantity_step (ir_instrument i), sp_min_notional = iv_min_notional_value (ir_instrument i)\<rparr>)) (joined_rows u)))"
  unfolding list_active_profiles_def joined_rows_def
  by (simp add: map_concat comp_def if_distrib [of "map _"] cong: if_cong)

text \<open>The strategy analyses exactly the contracts the market data keeps: both read the same symbols, in the same order,
  of the current universe.\<close>

theorem analysed_symbols_are_ingested:
  "map sp_symbol (list_active_profiles u) = list_active_symbols (market_view u db)"
  unfolding list_active_symbols_def targets_joined profiles_joined sort_key_map map_map
  by (simp add: comp_def case_prod_beta)

end
