(* ===== verification/Telegram_Commands.thy ===== *)
theory Telegram_Commands
  imports Notifications Strategy_Repository
begin

text \<open>
  \<open>src/src/crypto_smc/telegram/commands.py\<close> with \<open>localization.py\<close>, the settings of \<open>rendering.py\<close> and the filter of
  \<open>transport.py\<close>: what the bot answers to a message, and what a message changes. A reply is a value: which text in which
  language, with the values that are printed in it.
\<close>

section \<open>Replies\<close>

record active_signal =
  ac_symbol :: string
  ac_direction :: trade_direction
  ac_status :: signal_status
  ac_score :: int
  ac_entry_lower :: dec
  ac_entry_upper :: dec
  ac_stop_loss :: dec
  ac_take_profit_1 :: dec
  ac_take_profit_2 :: dec

record coin_analysis =
  co_symbol :: string
  co_direction :: trade_direction
  co_status :: candidate_status
  co_score :: int
  co_strength :: strength
  co_evidence_lines :: "evidence_line list"
  co_suppression_reasons :: "string list"

record performance_stats =
  pf_completed :: int
  pf_wins :: int
  pf_ambiguous :: int
  pf_pnl :: dec
  pf_average_r :: dec

record service_status =
  sx_market_ready :: int
  sx_market_degraded :: int
  sx_notification_pending :: int
  sx_notification_failed :: int
  sx_delivery_unknown :: int

datatype reply =
    Silence
  | Phrase string string "(string \<times> string) list"
  | Active_Signals string "active_signal list"
  | Coin string coin_analysis
  | Settings_View string user_settings
  | Status_View string service_status
  | Stats_View string performance_stats

definition text_keys :: "string list" where
  "text_keys = [''unauthorized'', ''help'', ''no_signals'', ''coin_missing'', ''coin_not_found'', ''invalid_value'', ''updated'',
     ''paused'', ''resumed'']"

text \<open>\<open>text\<close>: an unknown language falls back to English, an unknown key is its own text.\<close>

definition localized :: "string \<Rightarrow> string \<Rightarrow> (string \<times> string) list \<Rightarrow> reply" where
  "localized language key values =
     Phrase (if key \<in> set text_keys then (if language = ''ru'' then ''ru'' else ''en'') else []) key values"

section \<open>Queries\<close>

definition telegram_active_statuses :: "signal_status set" where
  "telegram_active_statuses = {Sg_Preparing, Sg_Active, Sg_Entered, Sg_Tp1_Reached}"

definition active_signals :: "strategy_db \<Rightarrow> active_signal list" where
  "active_signals db =
     map (\<lambda>(s, score). \<lparr>ac_symbol = sr_symbol s, ac_direction = sr_direction s, ac_status = sr_status s, ac_score = score,
         ac_entry_lower = sr_entry_lower s, ac_entry_upper = sr_entry_upper s, ac_stop_loss = sr_stop_loss s,
         ac_take_profit_1 = sr_take_profit_1 s, ac_take_profit_2 = sr_take_profit_2 s\<rparr>)
       (sort_key (\<lambda>(s, _). - sr_created_at s)
         [(s, kd_score c). s \<leftarrow> db_signals (yd_signals db), c \<leftarrow> yd_candidates db, kd_id c = sr_candidate_id s,
            sr_status s \<in> telegram_active_statuses])"

definition latest_coin :: "string \<Rightarrow> strategy_db \<Rightarrow> coin_analysis option" where
  "latest_coin symb db =
     (case sort_key (\<lambda>c. (- kd_analyzed_at c, - kd_id c)) (filter (\<lambda>c. kd_symbol c = py_upper symb) (yd_candidates db)) of
        [] \<Rightarrow> None
      | c # _ \<Rightarrow> Some \<lparr>co_symbol = kd_symbol c, co_direction = kd_direction c, co_status = kd_status c, co_score = kd_score c,
          co_strength = kd_strength c, co_evidence_lines = kd_evidence c, co_suppression_reasons = kd_suppression_reasons c\<rparr>)"

definition terminal_statuses_reported :: "trade_status set" where
  "terminal_statuses_reported = {Vt_Stopped, Vt_Stopped_At_Breakeven, Vt_Tp2_Completed, Vt_Ambiguous}"

definition performance :: "strategy_db \<Rightarrow> performance_stats" where
  "performance db =
     (let trades = filter (\<lambda>t. vt_status t \<in> terminal_statuses_reported) (db_trades (yd_signals db)) in
      \<lparr>pf_completed = int (length trades), pf_wins = int (length (filter (\<lambda>t. vt_realized_pnl t > 0) trades)),
       pf_ambiguous = int (length (filter vt_ambiguous trades)), pf_pnl = sum_list (map vt_realized_pnl trades),
       pf_average_r = (if trades = [] then 0 else sum_list (map vt_r_multiple trades) / of_nat (length trades))\<rparr>)"

definition service_status_of :: "market_db \<Rightarrow> notification_db \<Rightarrow> service_status" where
  "service_status_of mdb ndb =
     (let rows = filter (\<lambda>c. ck_stream c = ''kline_1m'') (md_checkpoints mdb); counts = outbox_summary_of ndb in
      \<lparr>sx_market_ready = int (length (filter (\<lambda>c. ck_state c = ''ready'') rows)),
       sx_market_degraded = int (length (filter (\<lambda>c. ck_state c \<noteq> ''ready'') rows)),
       sx_notification_pending = os_pending counts, sx_notification_failed = os_failed counts,
       sx_delivery_unknown = os_delivery_unknown counts\<rparr>)"

section \<open>Parsing\<close>

definition parse_schedule :: "(string \<Rightarrow> zone option) \<Rightarrow> string list \<Rightarrow> string \<Rightarrow> (int \<times> int \<times> string) option res" where
  "parse_schedule zones args default_timezone =
     (if length args \<notin> {2, 3} then Inr None
      else case (read_clock (args ! 0), read_clock (args ! 1)) of
        (Some start_time, Some end_time) \<Rightarrow>
          let timezone = (if length args = 3 then args ! 2 else default_timezone) in
          (case zone_info zones timezone of
             Inr _ \<Rightarrow> Inr (Some (start_time, end_time, timezone))
           | Inl (KeyError _) \<Rightarrow> Inr None
           | Inl e \<Rightarrow> Inl e)
      | _ \<Rightarrow> Inr None)"

text \<open>Comparing a NaN by an order raises \<open>InvalidOperation\<close>, here outside the \<open>try\<close>.\<close>

definition decimal_gt :: "decimal_value \<Rightarrow> dec \<Rightarrow> bool res" where
  "decimal_gt v q = (case v of Finite x \<Rightarrow> Inr (x > q) | Infinite negative \<Rightarrow> Inr (\<not> negative) | Not_A_Number \<Rightarrow> Inl InvalidOperation)"

definition parse_risk :: "string list \<Rightarrow> (decimal_value \<times> decimal_value) option res" where
  "parse_risk args =
     (if length args \<noteq> 2 then Inr None
      else case (read_decimal (args ! 0), read_decimal (args ! 1)) of
        (Some risk, Some balance) \<Rightarrow>
          rbind (decimal_gt risk 0) (\<lambda>positive.
          if \<not> positive then Inr None
          else rbind (decimal_gt risk 10) (\<lambda>large.
          if large then Inr None
          else rbind (decimal_gt balance 0) (\<lambda>funded. Inr (if funded then Some (risk, balance) else None))))
      | _ \<Rightarrow> Inr None)"

definition normalize_symbol :: "string \<Rightarrow> string" where
  "normalize_symbol v = (let symb = py_upper (py_strip v) in if ends_with ''USDT'' symb then symb else symb @ ''USDT'')"

section \<open>The commands\<close>

record bot_db =
  bt_notifications :: notification_db
  bt_strategy :: strategy_db
  bt_market :: market_db

definition change_settings :: "int \<Rightarrow> setting list \<Rightarrow> (user_settings \<Rightarrow> reply) \<Rightarrow> bot_db \<Rightarrow> reply res \<times> bot_db" where
  "change_settings user_id values answer db =
     (case update_user user_id values (bt_notifications db) of
        Inl e \<Rightarrow> (Inl e, db)
      | Inr (updated, ndb) \<Rightarrow> (Inr (answer updated), db\<lparr>bt_notifications := ndb\<rparr>))"

definition threshold_command :: "user_settings \<Rightarrow> string list \<Rightarrow> bot_db \<Rightarrow> reply res \<times> bot_db" where
  "threshold_command u args db =
     (let language = tu_language u in
      if length args \<noteq> 1 \<or> \<not> py_isdigit (hd args) then (Inr (localized language ''invalid_value'' []), db)
      else case py_int (hd args) of
        Inl e \<Rightarrow> (Inl e, db)
      | Inr threshold \<Rightarrow>
          if \<not> (0 \<le> threshold \<and> threshold \<le> 100) then (Inr (localized language ''invalid_value'' []), db)
          else change_settings (tu_user_id u) [Set_Minimum_Score threshold] (Settings_View language) db)"

definition schedule_command :: "(string \<Rightarrow> zone option) \<Rightarrow> user_settings \<Rightarrow> string list \<Rightarrow> bot_db \<Rightarrow> reply res \<times> bot_db" where
  "schedule_command zones u args db =
     (case parse_schedule zones args (tu_timezone u) of
        Inl e \<Rightarrow> (Inl e, db)
      | Inr None \<Rightarrow> (Inr (localized (tu_language u) ''invalid_value'' []), db)
      | Inr (Some (start_time, end_time, timezone)) \<Rightarrow>
          change_settings (tu_user_id u) [Set_Start start_time, Set_End end_time, Set_Timezone timezone] (Settings_View (tu_language u)) db)"

definition risk_command :: "user_settings \<Rightarrow> string list \<Rightarrow> bot_db \<Rightarrow> reply res \<times> bot_db" where
  "risk_command u args db =
     (case parse_risk args of
        Inl e \<Rightarrow> (Inl e, db)
      | Inr None \<Rightarrow> (Inr (localized (tu_language u) ''invalid_value'' []), db)
      | Inr (Some (risk, balance)) \<Rightarrow>
          change_settings (tu_user_id u) [Set_Risk_Percent risk, Set_Reference_Balance balance] (Settings_View (tu_language u)) db)"

definition language_command :: "user_settings \<Rightarrow> string list \<Rightarrow> bot_db \<Rightarrow> reply res \<times> bot_db" where
  "language_command u args db =
     (if length args \<noteq> 1 \<or> py_lower (hd args) \<notin> {''ru'', ''en''} then (Inr (localized (tu_language u) ''invalid_value'' []), db)
      else change_settings (tu_user_id u) [Set_Language (py_lower (hd args))] (\<lambda>v. Settings_View (tu_language v) v) db)"

definition coin_command :: "user_settings \<Rightarrow> string list \<Rightarrow> bot_db \<Rightarrow> reply" where
  "coin_command u args db =
     (if args = [] then localized (tu_language u) ''coin_missing'' []
      else let symb = normalize_symbol (hd args) in
        case latest_coin symb (bt_strategy db) of
          None \<Rightarrow> localized (tu_language u) ''coin_not_found'' [(''symbol'', symb)]
        | Some analysis \<Rightarrow> Coin (tu_language u) analysis)"

definition signals_command :: "user_settings \<Rightarrow> bot_db \<Rightarrow> reply" where
  "signals_command u db =
     (let found = active_signals (bt_strategy db) in
      if found = [] then localized (tu_language u) ''no_signals'' [] else Active_Signals (tu_language u) found)"

definition command_words :: "string \<Rightarrow> string \<times> string list" where
  "command_words command_text =
     (case py_split (py_strip command_text) of [] \<Rightarrow> ([], []) | w # ws \<Rightarrow> (py_lower (before_char CHR ''@'' w), ws))"

definition handle_command :: "(string \<Rightarrow> zone option) \<Rightarrow> int \<Rightarrow> string \<Rightarrow> bot_db \<Rightarrow> reply res \<times> bot_db" where
  "handle_command zones user_id command_text db =
     (case get_user (bt_notifications db) user_id of
        None \<Rightarrow> (Inr Silence, db)
      | Some u \<Rightarrow>
          let (command, args) = command_words command_text; language = tu_language u in
          if command = ''/start'' \<or> command = ''/help'' then (Inr (localized language ''help'' []), db)
          else if command = ''/signals'' then (Inr (signals_command u db), db)
          else if command = ''/coin'' then (Inr (coin_command u args db), db)
          else if command = ''/settings'' then (Inr (Settings_View language u), db)
          else if command = ''/status'' then (Inr (Status_View language (service_status_of (bt_market db) (bt_notifications db))), db)
          else if command = ''/stats'' then (Inr (Stats_View language (performance (bt_strategy db))), db)
          else if command = ''/language'' then language_command u args db
          else if command = ''/threshold'' then threshold_command u args db
          else if command = ''/schedule'' then schedule_command zones u args db
          else if command = ''/risk'' then risk_command u args db
          else if command = ''/pause'' \<or> command = ''/resume'' then
            let paused = (command = ''/pause'') in
            change_settings user_id [Set_Paused paused] (\<lambda>_. localized language (if paused then ''paused'' else ''resumed'') []) db
          else (Inr (localized language ''help'' []), db))"

text \<open>The handler of the router: messages that start with a slash, of users on the list.\<close>

definition route_message ::
  "(string \<Rightarrow> zone option) \<Rightarrow> int set \<Rightarrow> int option \<Rightarrow> string \<Rightarrow> bot_db \<Rightarrow> reply res \<times> bot_db" where
  "route_message zones allowed from_user message db =
     (if \<not> starts_with ''/'' message then (Inr Silence, db)
      else case from_user of
        None \<Rightarrow> (Inr Silence, db)
      | Some user_id \<Rightarrow> if user_id \<notin> allowed then (Inr Silence, db) else handle_command zones user_id message db)"

section \<open>Well-formed settings\<close>

definition settings_ok :: "(string \<Rightarrow> zone option) \<Rightarrow> user_settings \<Rightarrow> bool" where
  "settings_ok zones u \<longleftrightarrow> tu_language u \<in> {''ru'', ''en''} \<and> 0 \<le> tu_minimum_score u \<and> tu_minimum_score u \<le> 100 \<and>
     0 \<le> tu_start u \<and> tu_start u < days 1 \<and> 0 \<le> tu_end u \<and> tu_end u < days 1 \<and> returns (zone_info zones (tu_timezone u)) \<and>
     0 \<le> tu_risk_percent u \<and> tu_risk_percent u \<le> 10 \<and> 0 \<le> tu_reference_balance u"

definition all_settings_ok :: "(string \<Rightarrow> zone option) \<Rightarrow> bot_db \<Rightarrow> bool" where
  "all_settings_ok zones db \<longleftrightarrow> list_all (settings_ok zones) (nb_users (bt_notifications db))"

text \<open>At most the settings of one user differ.\<close>

definition changes_only :: "int \<Rightarrow> bot_db \<Rightarrow> bot_db \<Rightarrow> bool" where
  "changes_only i db db' \<longleftrightarrow>
     (\<exists>f. (\<forall>u. tu_user_id (f u) = tu_user_id u) \<and> (\<forall>u. tu_user_id u \<noteq> i \<longrightarrow> f u = u) \<and>
        db' = db\<lparr>bt_notifications := (bt_notifications db)\<lparr>nb_users := map f (nb_users (bt_notifications db))\<rparr>\<rparr>)"

definition safe_change :: "(string \<Rightarrow> zone option) \<Rightarrow> int \<Rightarrow> bot_db \<Rightarrow> bot_db \<Rightarrow> bool" where
  "safe_change zones i db db' \<longleftrightarrow> changes_only i db db' \<and> (all_settings_ok zones db \<longrightarrow> all_settings_ok zones db')"

lemma unchanged [simp]: "changes_only i db db"
  unfolding changes_only_def by (rule exI [of _ "\<lambda>u. u"]) simp

lemma safe_refl [simp]: "safe_change zones i db db"
  by (simp add: safe_change_def)

lemma change_settings_safe:
  assumes "change_settings i values answer db = (r, db')"
    and "\<And>u stored. settings_ok zones u \<Longrightarrow> foldM (\<lambda>u v. apply_setting numeric_column v u) u values = Inr stored \<Longrightarrow> settings_ok zones stored"
  shows "safe_change zones i db db'"
proof (cases "update_user i values (bt_notifications db)")
  case (Inl e)
  then show ?thesis using assms(1) by (simp add: change_settings_def)
next
  case (Inr x)
  obtain view ndb where x: "x = (view, ndb)" by (cases x)
  obtain u stored where u: "get_user (bt_notifications db) i = Some u" "foldM (\<lambda>u v. apply_setting numeric_column v u) u values = Inr stored"
    "foldM (\<lambda>u v. apply_setting unrounded v u) u values = Inr view" and id: "tu_user_id stored = i"
    and ndb: "ndb = (bt_notifications db)\<lparr>nb_users := map (\<lambda>r. if tu_user_id r = i then stored else r) (nb_users (bt_notifications db))\<rparr>"
    using update_user_rows [OF Inr [unfolded x]] .
  have db': "db' = db\<lparr>bt_notifications := ndb\<rparr>" using assms(1) Inr x by (simp add: change_settings_def)
  have "changes_only i db db'" unfolding changes_only_def
    by (rule exI [of _ "\<lambda>r. if tu_user_id r = i then stored else r"]) (simp add: id db' ndb)
  moreover have "all_settings_ok zones db'" if ok: "all_settings_ok zones db"
  proof -
    have "u \<in> set (nb_users (bt_notifications db))" using u(1) by (auto simp: get_user_def find_Some_iff)
    then have "settings_ok zones u" using ok by (simp add: all_settings_ok_def list_all_iff)
    then have "settings_ok zones stored" using assms(2) u(2) by blast
    then show ?thesis using ok by (auto simp: all_settings_ok_def list_all_iff db' ndb)
  qed
  ultimately show ?thesis by (simp add: safe_change_def)
qed

lemma numeric_column_bounds:
  assumes "numeric_column p 4 (Finite q) = Inr r" "0 \<le> q"
  shows "0 \<le> r" "q \<le> 10 \<Longrightarrow> r \<le> 10"
proof -
  have r: "r = of_int \<lfloor>q * 10000 + 1 / 2\<rfloor> / 10000"
    using assms by (auto simp: numeric_column_def Let_def split: if_splits)
  show "0 \<le> r" using assms(2) by (simp add: r)
  assume "q \<le> 10"
  then have "\<lfloor>q * 10000 + 1 / 2\<rfloor> \<le> 100000" by (simp add: floor_le_iff)
  then have "(of_int \<lfloor>q * 10000 + 1 / 2\<rfloor> :: rat) \<le> of_int 100000" by (subst of_int_le_iff)
  then show "r \<le> 10" by (simp add: r)
qed

lemma digits_value_bound: "digits_value acc prev s = Some n \<Longrightarrow> n < (acc + 1) * 10 ^ length s"
proof (induction acc prev s rule: digits_value.induct)
  case (2 acc prev c s)
  show ?case
  proof (cases "c = CHR ''_''")
    case True
    then have "n < (acc + 1) * 10 ^ length s" using 2 by (simp split: if_splits)
    then show ?thesis by simp
  next
    case False
    then obtain d where d: "digit_of c = Some d" "digits_value (10 * acc + d) True s = Some n" using 2(3) by (auto split: option.splits)
    then have "n < (10 * acc + d + 1) * 10 ^ length s" using 2(2) False by simp
    also have "\<dots> \<le> (10 * acc + 10) * 10 ^ length s" using d(1) by (intro mult_right_mono) (auto simp: digit_of_def Let_def split: if_splits)
    finally show ?thesis by (simp add: algebra_simps)
  qed
qed (simp split: if_splits)

lemma read_clock_bounds:
  assumes "read_clock s = Some t"
  shows "0 \<le> t \<and> t < days 1"
proof -
  obtain x h m sec us where parts: "read_parts x = Some (h, m, sec, us)" "h < 24" "m < 60" "sec < 60" "t = day_micros (h, m, sec, us)"
    using assms unfolding read_clock_def Let_def by (auto split: option.splits prod.splits if_splits)
  have sec: "us < 1000000" if "read_seconds y = Some (sec, us)" for y
  proof -
    have "us = 0 \<or> (\<exists>z. second_fraction z = Some us)" using that
      by (auto simp: read_seconds_def split: option.splits prod.splits list.splits if_splits)
    moreover have "us < 1000000" if z: "second_fraction z = Some us" for z
    proof -
      have "us < (0 + 1) * 10 ^ length (take 6 (z @ ''000000''))"
        using z by (intro digits_value_bound) (simp add: second_fraction_def read_nat_def split: if_splits)
      also have "length (take 6 (z @ ''000000'')) = 6" by simp
      finally show ?thesis by simp
    qed
    ultimately show ?thesis by auto
  qed
  have "us < 1000000"
    using parts(1) sec by (auto simp: read_parts_def Let_def split: option.splits prod.splits list.splits if_splits)
  then show ?thesis using parts(2-5) by (auto simp: day_micros_def hours_def minutes_def seconds_def days_def)
qed

section \<open>Each command is safe\<close>

lemma threshold_safe: "threshold_command u args db = (r, db') \<Longrightarrow> safe_change zones (tu_user_id u) db db'"
  by (auto simp: threshold_command_def Let_def split: if_splits sum.splits intro!: change_settings_safe)
    (auto simp: settings_ok_def)

lemma language_safe: "language_command u args db = (r, db') \<Longrightarrow> safe_change zones (tu_user_id u) db db'"
  by (auto simp: language_command_def split: if_splits intro!: change_settings_safe) (auto simp: settings_ok_def)

lemma schedule_safe:
  assumes "schedule_command zones u args db = (r, db')"
  shows "safe_change zones (tu_user_id u) db db'"
proof (cases "parse_schedule zones args (tu_timezone u)")
  case (Inr x)
  show ?thesis
  proof (cases x)
    case (Some y)
    obtain t0 t1 tz where y: "y = (t0, t1, tz)" by (cases y)
    have "read_clock (args ! 0) = Some t0" "read_clock (args ! 1) = Some t1" "returns (zone_info zones tz)"
      using Inr unfolding Some y parse_schedule_def Let_def
      by (auto split: if_splits option.splits sum.splits py_exn.splits)
    then have "0 \<le> t0 \<and> t0 < days 1" "0 \<le> t1 \<and> t1 < days 1" "returns (zone_info zones tz)" using read_clock_bounds by blast+
    then show ?thesis using assms unfolding schedule_command_def Inr Some y
      by (auto intro!: change_settings_safe simp: settings_ok_def)
  qed (use assms Inr in \<open>simp add: schedule_command_def\<close>)
qed (use assms in \<open>simp add: schedule_command_def\<close>)

lemma parse_risk_values:
  assumes "parse_risk args = Inr (Some (risk, balance))"
  shows "\<exists>q. risk = Finite q \<and> 0 < q \<and> q \<le> 10" "(\<exists>q. balance = Finite q \<and> 0 < q) \<or> balance = Infinite False"
  using assms by (auto simp: parse_risk_def decimal_gt_def split: if_splits option.splits decimal_value.splits)

lemma risk_safe:
  assumes "risk_command u args db = (r, db')"
  shows "safe_change zones (tu_user_id u) db db'"
proof (cases "parse_risk args")
  case (Inr x)
  show ?thesis
  proof (cases x)
    case (Some y)
    obtain risk balance where y: "y = (risk, balance)" by (cases y)
    note v = parse_risk_values [OF Inr [unfolded Some y]]
    have "settings_ok zones stored" if ok: "settings_ok zones s"
      and run: "foldM (\<lambda>u v. apply_setting numeric_column v u) s [Set_Risk_Percent risk, Set_Reference_Balance balance] = Inr stored" for s stored
    proof -
      obtain q b q' b' where q: "risk = Finite q" "0 < q" "q \<le> 10" "balance = Finite b" "0 < b"
        "numeric_column 10 4 (Finite q) = Inr q'" "numeric_column 20 4 (Finite b) = Inr b'"
        "stored = s\<lparr>tu_risk_percent := q', tu_reference_balance := b'\<rparr>"
        using run v by (auto simp: numeric_column_def [of _ _ "Infinite _"])
      then show ?thesis using ok numeric_column_bounds [OF q(6)] numeric_column_bounds [OF q(7)] by (simp add: settings_ok_def)
    qed
    then show ?thesis using assms unfolding risk_command_def Inr Some y by (auto intro!: change_settings_safe)
  qed (use assms Inr in \<open>simp add: risk_command_def\<close>)
qed (use assms in \<open>simp add: risk_command_def\<close>)

lemma pause_safe:
  "change_settings i [Set_Paused b] answer db = (r, db') \<Longrightarrow> safe_change zones i db db'"
  by (auto intro!: change_settings_safe simp: settings_ok_def)

lemma handle_command_safe:
  assumes "handle_command zones user_id message db = (r, db')"
  shows "safe_change zones user_id db db'"
proof (cases "get_user (bt_notifications db) user_id")
  case None
  then show ?thesis using assms by (simp add: handle_command_def)
next
  case (Some u)
  then have u: "tu_user_id u = user_id" by (auto simp: get_user_def find_Some_iff)
  show ?thesis
    using assms threshold_safe [of u _ db r db'] language_safe [of u _ db r db'] schedule_safe [of zones u _ db r db'] risk_safe [of u _ db r db']
      pause_safe [of user_id _ _ db r db']
    unfolding handle_command_def Some option.case Let_def u
    by (auto simp: prod.case_eq_if split: if_splits)
qed

section \<open>Properties\<close>

text \<open>C30: What a message can change. Any message of anyone keeps all settings well-formed: the language, the threshold between 0
  and 100, times within the day, a time zone that exists, a risk of at most 10 percent and no negative balance. A message
  changes at most the settings of its own sender, and nothing else in the tables; someone who is not on the list or has
  no settings gets no answer and changes nothing.\<close>

theorem messages_keep_settings_well_formed:
  assumes "route_message zones allowed sender message db = (r, db')" "all_settings_ok zones db"
  shows "all_settings_ok zones db' \<and>
    (case sender of
       None \<Rightarrow> r = Inr Silence \<and> db' = db
     | Some i \<Rightarrow> changes_only i db db' \<and>
         (i \<notin> allowed \<or> get_user (bt_notifications db) i = None \<longrightarrow> r = Inr Silence \<and> db' = db))"
proof (cases "\<not> starts_with ''/'' message \<or> sender = None \<or> the sender \<notin> allowed")
  case True
  then have "r = Inr Silence" "db' = db" using assms(1) by (auto simp: route_message_def split: if_splits option.splits)
  then show ?thesis using assms(2) by (simp split: option.split)
next
  case False
  then obtain i where i: "sender = Some i" "i \<in> allowed" by auto
  have run: "handle_command zones i message db = (r, db')" using assms(1) False i by (simp add: route_message_def)
  have "r = Inr Silence \<and> db' = db" if "get_user (bt_notifications db) i = None" using run that by (simp add: handle_command_def)
  then show ?thesis using handle_command_safe [OF run] assms(2) i by (simp add: safe_change_def)
qed

definition sample_user :: user_settings where
  "sample_user = new_user ''en'' ''UTC'' (hours 7) (hours 20) 7"

definition sample_bot :: bot_db where
  "sample_bot = \<lparr>bt_notifications = \<lparr>nb_outbox = [], nb_next_outbox = 1, nb_deliveries = [], nb_next_delivery = 1, nb_users = [sample_user]\<rparr>,
     bt_strategy = \<lparr>yd_versions = [], yd_next_version = 1, yd_analyses = [], yd_next_analysis = 1, yd_candidates = [], yd_next_candidate = 1,
       yd_signals = \<lparr>db_signals = [], db_trades = [], db_events = [], db_outbox = [], db_candidates = [], db_snapshot_funding = [],
         db_instrument_funding_minutes = [], db_next_signal_id = 1\<rparr>\<rparr>,
     bt_market = \<lparr>md_candles = [], md_checkpoints = [], md_gaps = [], md_next_gap = 1, md_jobs = [], md_next_job = 1, md_aggregates = [],
       md_cursors = [], md_snapshots = [], md_members = [], md_instruments = []\<rparr>\<rparr>"

lemma sample_settings: "all_settings_ok (\<lambda>_. Some (\<lambda>t. 0)) sample_bot"
  by (simp add: all_settings_ok_def sample_bot_def sample_user_def new_user_def settings_ok_def zone_info_def zone_key_ok_def hours_def days_def)

lemma messages_keep_settings_well_formed_witness:
  "\<exists>r db'. route_message (\<lambda>_. Some (\<lambda>t. 0)) {7} (Some 7) ''/threshold 85'' sample_bot = (r, db') \<and>
     map tu_minimum_score (nb_users (bt_notifications db')) = [85] \<and> all_settings_ok (\<lambda>_. Some (\<lambda>t. 0)) db'"
proof -
  obtain r db' where run: "route_message (\<lambda>_. Some (\<lambda>t. 0)) {7} (Some 7) ''/threshold 85'' sample_bot = (r, db')" by (metis prod.collapse)
  have "map tu_minimum_score (nb_users (bt_notifications (snd (route_message (\<lambda>_. Some (\<lambda>t. 0)) {7} (Some 7) ''/threshold 85'' sample_bot)))) = [85]"
    by code_simp
  with run messages_keep_settings_well_formed [OF run sample_settings] show ?thesis by auto
qed

lemma strip_ends: "s \<noteq> [] \<Longrightarrow> \<not> is_space (hd s) \<Longrightarrow> \<not> is_space (last s) \<Longrightarrow> py_strip s = s"
proof -
  assume s: "s \<noteq> []" "\<not> is_space (hd s)" "\<not> is_space (last s)"
  then have "dropWhile is_space s = s" by (cases s) simp_all
  moreover have "dropWhile is_space (rev s) = rev s" using s by (cases s rule: rev_cases) simp_all
  ultimately show ?thesis by (simp add: py_strip_def)
qed

lemma no_space_last: "no_space w \<Longrightarrow> \<not> is_space (last (s @ w))" "no_space w \<Longrightarrow> w \<noteq> []"
  by (auto simp: no_space_def)

text \<open>The tables with the settings of one user replaced, and the update that does it.\<close>

definition with_user :: "int \<Rightarrow> user_settings \<Rightarrow> bot_db \<Rightarrow> bot_db" where
  "with_user i u db = db\<lparr>bt_notifications := (bt_notifications db)
     \<lparr>nb_users := map (\<lambda>r. if tu_user_id r = i then u else r) (nb_users (bt_notifications db))\<rparr>\<rparr>"

lemma change_settings_stores:
  assumes "get_user (bt_notifications db) i = Some u" "vs \<noteq> []"
    and run: "\<And>column. foldM (\<lambda>u v. apply_setting column v u) u vs = Inr u'"
  shows "change_settings i vs answer db = (Inr (answer u'), with_user i u' db)"
proof -
  have "foldM (\<lambda>u v. apply_setting column v u) w vs = Inr u' \<Longrightarrow> v \<in> set vs \<Longrightarrow> v \<noteq> Set_Other name" for column w v name
    by (induction vs arbitrary: w) auto
  from this [OF run] have "\<not> (\<exists>v \<in> set vs. case v of Set_Other _ \<Rightarrow> True | _ \<Rightarrow> False)"
    by (auto split: setting.splits)
  then show ?thesis using assms(1,2) run by (simp add: change_settings_def update_user_def with_user_def)
qed

lemma threshold_words: "command_words (''/threshold '' @ show_nat n) = (''/threshold'', [show_nat n])"
proof -
  have "py_split (''/threshold '' @ show_nat n) = [''/threshold'', show_nat n]"
    using split_first_word [of "''/threshold''" "show_nat n"] split_single [OF show_nat_no_space, of n]
    by (simp add: no_space_def is_space_def)
  then show ?thesis
    using strip_ends [of "''/threshold '' @ show_nat n"] no_space_last(1) [OF show_nat_no_space, of "''/threshold ''" n]
    by (simp add: command_words_def before_char_def is_space_def py_lower_def lower_char_def)
qed

lemma schedule_words:
  assumes "no_space a" "no_space b" "no_space tz"
  shows "command_words (''/schedule '' @ a @ '' '' @ b @ '' '' @ tz) = (''/schedule'', [a, b, tz])"
proof -
  let ?rest = "a @ '' '' @ b @ '' '' @ tz"
  have "py_split (''/schedule '' @ ?rest) = [''/schedule'', a, b, tz]"
    using split_first_word [of "''/schedule''" ?rest] split_first_word [OF assms(1), of "b @ '' '' @ tz"]
      split_first_word [OF assms(2), of tz] split_single [OF assms(3)] by (simp add: no_space_def is_space_def)
  then show ?thesis
    using strip_ends [of "''/schedule '' @ ?rest"] no_space_last [OF assms(3)]
    by (simp add: command_words_def before_char_def is_space_def py_lower_def lower_char_def)
qed

text \<open>C31: What a user types is what is stored. A threshold of at most 100, typed as a number, and a schedule, typed as two
  clock times and a time zone that exists, are stored in the row of the user and shown in the answer, whatever the settings
  were; no other row and no other table changes. A larger threshold is answered as invalid and stores nothing.\<close>

theorem typed_settings_are_stored:
  assumes "get_user (bt_notifications db) i = Some u"
    and "0 \<le> a" "a < days 1" "minutes 1 dvd a" "0 \<le> b" "b < days 1" "minutes 1 dvd b"
    and "returns (zone_info zones tz)" "no_space tz"
  shows "handle_command zones i (''/threshold '' @ show_nat n) db =
      (if n \<le> 100 then (Inr (Settings_View (tu_language u) (u\<lparr>tu_minimum_score := int n\<rparr>)),
         with_user i (u\<lparr>tu_minimum_score := int n\<rparr>) db)
       else (Inr (localized (tu_language u) ''invalid_value'' []), db)) \<and>
    handle_command zones i (''/schedule '' @ show_clock a @ '' '' @ show_clock b @ '' '' @ tz) db =
      (Inr (Settings_View (tu_language u) (u\<lparr>tu_start := a, tu_end := b, tu_timezone := tz\<rparr>)),
       with_user i (u\<lparr>tu_start := a, tu_end := b, tu_timezone := tz\<rparr>) db)"
proof
  have id: "tu_user_id u = i" using assms(1) by (auto simp: get_user_def find_Some_iff)
  have "change_settings i [Set_Minimum_Score (int n)] (Settings_View (tu_language u)) db =
      (Inr (Settings_View (tu_language u) (u\<lparr>tu_minimum_score := int n\<rparr>)), with_user i (u\<lparr>tu_minimum_score := int n\<rparr>) db)"
    by (rule change_settings_stores [OF assms(1)]) simp_all
  moreover have "py_int (show_nat n) = Inr (int n)" using read_int_show [of "int n"] by (simp add: py_int_def show_int_def)
  ultimately show "handle_command zones i (''/threshold '' @ show_nat n) db =
      (if n \<le> 100 then (Inr (Settings_View (tu_language u) (u\<lparr>tu_minimum_score := int n\<rparr>)),
         with_user i (u\<lparr>tu_minimum_score := int n\<rparr>) db)
       else (Inr (localized (tu_language u) ''invalid_value'' []), db))"
    using assms(1) threshold_words [of n] by (simp add: handle_command_def threshold_command_def isdigit_show id)
  let ?u = "u\<lparr>tu_start := a, tu_end := b, tu_timezone := tz\<rparr>"
  have clock: "read_clock (show_clock a) = Some a" "read_clock (show_clock b) = Some b"
      "no_space (show_clock a)" "no_space (show_clock b)"
    using assms(2-7) read_clock_show show_clock_no_space by simp_all
  obtain z where "zone_info zones tz = Inr z" using assms(8) by (auto simp: returns_iff)
  moreover have "change_settings i [Set_Start a, Set_End b, Set_Timezone tz] (Settings_View (tu_language u)) db =
      (Inr (Settings_View (tu_language u) ?u), with_user i ?u db)"
    by (rule change_settings_stores [OF assms(1)]) simp_all
  ultimately show "handle_command zones i (''/schedule '' @ show_clock a @ '' '' @ show_clock b @ '' '' @ tz) db =
      (Inr (Settings_View (tu_language u) ?u), with_user i ?u db)"
    using schedule_words [OF clock(3,4) assms(9)] assms(1) clock(1,2)
    by (simp add: handle_command_def schedule_command_def parse_schedule_def id)
qed

lemma typed_settings_are_stored_witness:
  "handle_command (\<lambda>_. Some (\<lambda>t. 0)) 7 (''/schedule '' @ show_clock (hours 9) @ '' '' @ show_clock (hours 21) @ '' '' @ ''Europe/Riga'') sample_bot =
     (Inr (Settings_View ''en'' (sample_user\<lparr>tu_start := hours 9, tu_end := hours 21, tu_timezone := ''Europe/Riga''\<rparr>)),
      with_user 7 (sample_user\<lparr>tu_start := hours 9, tu_end := hours 21, tu_timezone := ''Europe/Riga''\<rparr>) sample_bot) \<and>
   handle_command (\<lambda>_. Some (\<lambda>t. 0)) 7 (''/threshold '' @ show_nat 85) sample_bot =
     (Inr (Settings_View ''en'' (sample_user\<lparr>tu_minimum_score := 85\<rparr>)), with_user 7 (sample_user\<lparr>tu_minimum_score := 85\<rparr>) sample_bot)"
proof -
  have h: "get_user (bt_notifications sample_bot) 7 = Some sample_user" "(0::int) \<le> hours 9" "hours 9 < days 1" "minutes 1 dvd hours 9"
      "(0::int) \<le> hours 21" "hours 21 < days 1" "minutes 1 dvd hours 21" "no_space ''Europe/Riga''"
    by (simp_all add: sample_bot_def get_user_def sample_user_def new_user_def hours_def days_def minutes_def no_space_def is_space_def)
  have z: "returns (zone_info (\<lambda>_. Some (\<lambda>t. 0)) ''Europe/Riga'')" by code_simp
  have "tu_language sample_user = ''en''" by (simp add: sample_user_def new_user_def)
  then show ?thesis using typed_settings_are_stored [OF h(1-7) z h(8), of 85] by simp
qed

text \<open>Three inputs that are not answered. A threshold of the superscript two passes \<open>isdigit\<close> and is then refused by \<open>int\<close>, a
  risk of NaN fails in its first comparison, and a time zone that is an absolute path raises an error other than the one
  that is caught: each of these messages raises instead of answering that the value is invalid.\<close>

theorem unusual_values_raise:
  "fst (handle_command (\<lambda>_. None) 7 (''/threshold '' @ [CHR 0xB2]) sample_bot) = Inl (ValueError ''invalid literal for int() with base 10'') \<and>
   fst (handle_command (\<lambda>_. None) 7 ''/risk nan 100'' sample_bot) = Inl InvalidOperation \<and>
   fst (handle_command (\<lambda>_. None) 7 ''/schedule 07:00 20:00 /etc/localtime'' sample_bot) = Inl (ValueError ''/etc/localtime'')"
  by (intro conjI) code_simp+

end
