(* ===== verification/Strategy_Service.thy ===== *)
theory Strategy_Service
  imports Strategy_Repository
begin

text \<open>
  \<open>src/src/crypto_smc/analysis/strategy_service.py\<close> and \<open>process_pool.py\<close>: one cycle of the live analysis. It loads the
  candles of the four timeframes of every contract of the universe, analyses them, evaluates the candidates and
  stores them. The tickers of the exchange are an argument; the pool of processes computes \<open>analyze\<close> of each request.
\<close>

definition service_timeframes :: "timeframe list" where
  "service_timeframes = [TF_4h, TF_1h, TF_15m, TF_5m]"

record prepared_symbol =
  pp_profile :: symbol_profile
  pp_candles :: "(timeframe \<times> candle list) list"

definition analyze_batch :: "(candle list \<times> smc_config) list \<Rightarrow> smc_analysis list res" where
  "analyze_batch requests = traverse (\<lambda>(cs, config). analyze cs (Some config)) requests"

definition prepare_symbols :: "int \<Rightarrow> int \<Rightarrow> market_db \<Rightarrow> symbol_profile list \<Rightarrow> prepared_symbol list res" where
  "prepare_symbols limit minimum db profiles =
     rmap concat (traverse (\<lambda>profile.
       rbind (traverse (\<lambda>tf. load_candles db (sp_symbol profile) tf limit) service_timeframes) (\<lambda>candles.
       Inr (if \<exists>cs \<in> set candles. int (length cs) < minimum then []
            else [\<lparr>pp_profile = profile, pp_candles = zip service_timeframes candles\<rparr>]))) profiles)"

text \<open>\<open>grouped\<close>: the analyses of a symbol are four consecutive results of the batch; a later symbol of the same name wins.\<close>

definition group_analyses :: "prepared_symbol list \<Rightarrow> smc_analysis list \<Rightarrow> (string \<times> smc_analysis list) list" where
  "group_analyses prepared analyses =
     foldl (\<lambda>d (i, p). od_put (sp_symbol (pp_profile p)) (take 4 (drop (i * 4) analyses)) d) [] (enumerate0 prepared)"

definition ratio_if_positive :: "dec \<Rightarrow> dec \<Rightarrow> dec option res" where
  "ratio_if_positive x y = (if y > 0 then rmap Some (ddiv x y) else Inr None)"

definition volume_ratio :: "candle list \<Rightarrow> dec option res" where
  "volume_ratio cs =
     (if length cs \<le> 20 then Inr None
      else rbind (ddiv (dsum (map c_volume (butlast (drop (length cs - 21) cs)))) 20) (\<lambda>baseline.
        ratio_if_positive (c_volume (last cs)) baseline))"

definition last_of :: "'a list \<Rightarrow> 'a res" where
  "last_of xs = (if xs = [] then Inl IndexError else Inr (last xs))"

definition btc_state :: "prepared_symbol list \<Rightarrow> (string \<times> smc_analysis list) list \<Rightarrow> (dec option \<times> dec option) res" where
  "btc_state prepared grouped =
     (case (List.find (\<lambda>p. sp_symbol (pp_profile p) = ''BTCUSDT'') prepared, map_of grouped ''BTCUSDT'') of
        (Some btc, Some analyses) \<Rightarrow>
          rbind (last_of (the (map_of (pp_candles btc) TF_5m))) (\<lambda>c.
          rbind (ratio_if_positive (dsub (c_close c) (c_open c)) (c_open c)) (\<lambda>return_value.
          rbind (py_nth analyses 3) (\<lambda>analysis_5m.
          rbind (case latest_atr analysis_5m of None \<Rightarrow> Inr None | Some atr \<Rightarrow> ratio_if_positive (range_size c) atr) (\<lambda>range_ratio.
          Inr (return_value, range_ratio)))))
      | _ \<Rightarrow> Inr (None, None))"

definition input_cutoffs :: "prepared_symbol \<Rightarrow> (string \<times> instant) list res" where
  "input_cutoffs p = traverse (\<lambda>(tf, cs). rmap (\<lambda>c. (timeframe_name tf, c_close_time c)) (last_of cs)) (pp_candles p)"

definition strategy_input_of ::
  "(string \<times> dec) list \<Rightarrow> prepared_symbol \<Rightarrow> smc_analysis list \<Rightarrow> market_ticker \<Rightarrow> dec option \<times> dec option \<Rightarrow> strategy_input res" where
  "strategy_input_of previous p analyses ticker btc =
     rbind (case map_of previous (sp_symbol (pp_profile p)) of
         None \<Rightarrow> Inr None
       | Some oi \<Rightarrow> ratio_if_positive (dsub (tk_open_interest ticker) oi) oi) (\<lambda>oi_change.
     rbind (input_cutoffs p) (\<lambda>cutoffs.
     rbind (volume_ratio (the (map_of (pp_candles p) TF_15m))) (\<lambda>ratio.
     Inr \<lparr>si_symbol = sp_symbol (pp_profile p), si_analyzed_at = Max (set (map snd cutoffs)),
       si_analysis_4h = analyses ! 0, si_analysis_1h = analyses ! 1, si_analysis_15m = analyses ! 2, si_analysis_5m = analyses ! 3,
       si_market = \<lparr>mc_current_price = tk_last_price ticker, mc_volume_ratio = ratio, mc_open_interest_change_ratio = oi_change,
         mc_funding_rate = Some (tk_funding_rate ticker), mc_spread_bps = sp_spread_bps (pp_profile p),
         mc_turnover_24h_usdt = sp_turnover_24h (pp_profile p), mc_btc_5m_return = fst btc, mc_btc_true_range_atr_ratio = snd btc,
         mc_taker_fee_rate = 55 / 100000, mc_instrument_max_leverage = sp_max_leverage (pp_profile p),
         mc_instrument_quantity_step = sp_quantity_step (pp_profile p), mc_instrument_min_notional = sp_min_notional (pp_profile p)\<rparr>,
       si_input_cutoffs = cutoffs\<rparr>)))"

section \<open>A cycle\<close>

record cycle_env =
  ce_digest :: "hashed \<Rightarrow> string"
  ce_policy :: policy_config
  ce_config :: strategy_config
  ce_history :: int
  ce_minimum_history :: int

record cycle_results =
  cy_created :: int
  cy_duplicate :: int
  cy_skipped :: int
  cy_failed :: int

text \<open>The body of the loop over the prepared symbols; an exception counts as a failure and leaves the tables.\<close>

definition analyse_symbol ::
  "cycle_env \<Rightarrow> instant \<Rightarrow> (string \<times> dec) list \<Rightarrow> (string \<times> market_ticker) list \<Rightarrow> (string \<times> smc_analysis list) list \<Rightarrow>
   dec option \<times> dec option \<Rightarrow> cycle_results \<times> strategy_db \<Rightarrow> prepared_symbol \<Rightarrow> cycle_results \<times> strategy_db" where
  "analyse_symbol env now previous tickers grouped btc st p =
     (let (results, db) = st; symb = sp_symbol (pp_profile p); analyses = the (map_of grouped symb) in
      case map_of tickers symb of
        None \<Rightarrow> (results\<lparr>cy_skipped := cy_skipped results + 1\<rparr>, db)
      | Some ticker \<Rightarrow>
          if length analyses \<noteq> 4 then (results\<lparr>cy_skipped := cy_skipped results + 1\<rparr>, db)
          else case rbind (strategy_input_of previous p analyses ticker btc) (\<lambda>inp.
                    rbind (evaluate_candidates inp (Some (ce_config env))) (\<lambda>(l, s).
                    save_analysis (ce_digest env) (ce_policy env) now inp [l, s] (ce_config env) db)) of
              Inl _ \<Rightarrow> (results\<lparr>cy_failed := cy_failed results + 1\<rparr>, db)
            | Inr ((_, created), db') \<Rightarrow>
                ((if created then results\<lparr>cy_created := cy_created results + 1\<rparr>
                  else results\<lparr>cy_duplicate := cy_duplicate results + 1\<rparr>), db'))"

definition no_results :: cycle_results where
  "no_results = \<lparr>cy_created = 0, cy_duplicate = 0, cy_skipped = 0, cy_failed = 0\<rparr>"

definition analyze_once ::
  "cycle_env \<Rightarrow> (string \<times> market_ticker) list res \<Rightarrow> instant \<Rightarrow> universe_db \<Rightarrow> market_db \<Rightarrow> (string \<times> dec) list \<Rightarrow> strategy_db \<Rightarrow>
   (cycle_results \<times> (string \<times> dec) list \<times> strategy_db) res" where
  "analyze_once env provider now u mdb previous db =
     rbind provider (\<lambda>tickers.
     rbind (prepare_symbols (ce_history env) (ce_minimum_history env) mdb (list_active_profiles u)) (\<lambda>prepared.
     rbind (analyze_batch (concat (map (\<lambda>p. map (\<lambda>(_, cs). (cs, sc_smc (ce_config env))) (pp_candles p)) prepared))) (\<lambda>analyses.
     let grouped = group_analyses prepared analyses in
     rbind (btc_state prepared grouped) (\<lambda>btc.
     let (results, db) = foldl (analyse_symbol env now previous tickers grouped btc) (no_results, db) prepared in
     Inr (results, map (\<lambda>(symb, ticker). (symb, tk_open_interest ticker)) tickers, db)))))"

section \<open>What a cycle does to the tables\<close>

lemma input_of_facts:
  assumes "strategy_input_of previous p analyses ticker btc = Inr inp"
  shows "si_symbol inp = sp_symbol (pp_profile p)" "input_cutoffs p = Inr (si_input_cutoffs inp)"
  using assms by (auto simp: strategy_input_of_def)

text \<open>The symbol of a prepared contract is analysed: any input built from it has been stored.\<close>

definition done_for :: "cycle_env \<Rightarrow> prepared_symbol \<Rightarrow> strategy_db \<Rightarrow> bool" where
  "done_for env p db \<longleftrightarrow>
     (\<forall>inp. si_symbol inp = sp_symbol (pp_profile p) \<longrightarrow> input_cutoffs p = Inr (si_input_cutoffs inp) \<longrightarrow>
        analysed (ce_digest env) (ce_config env) inp db)"

lemma analysed_same_cutoffs:
  "si_symbol inp = si_symbol inp' \<Longrightarrow> si_input_cutoffs inp = si_input_cutoffs inp' \<Longrightarrow> analysed d k inp db = analysed d k inp' db"
  by (simp add: analysed_def input_signature_def)

definition attempts_made :: "cycle_results \<Rightarrow> int" where
  "attempts_made r = cy_created r + cy_duplicate r + cy_skipped r + cy_failed r"

lemma analyse_symbol_step:
  assumes "strategy_ok db" "analyse_symbol env now previous tickers grouped btc (results, db) p = (results', db')"
  shows "strategy_ok db'"
    and "done_for env q db \<Longrightarrow> done_for env q db'"
    and "cy_skipped results' + cy_failed results' = cy_skipped results + cy_failed results \<Longrightarrow> done_for env p db'"
    and "done_for env p db \<Longrightarrow> db' = db \<and> cy_created results' = cy_created results"
    and "cy_skipped results \<le> cy_skipped results'" "cy_failed results \<le> cy_failed results'"
    and "attempts_made results' = attempts_made results + 1"
proof -
  let ?symb = "sp_symbol (pp_profile p)" and ?an = "the (map_of grouped (sp_symbol (pp_profile p)))"
  let ?run = "\<lambda>ticker. rbind (strategy_input_of previous p ?an ticker btc) (\<lambda>inp.
                    rbind (evaluate_candidates inp (Some (ce_config env))) (\<lambda>(l, s).
                    save_analysis (ce_digest env) (ce_policy env) now inp [l, s] (ce_config env) db))"
  consider (skipped) "results' = results\<lparr>cy_skipped := cy_skipped results + 1\<rparr>" "db' = db"
    | (failed) "results' = results\<lparr>cy_failed := cy_failed results + 1\<rparr>" "db' = db"
    | (saved) ticker i created where "?run ticker = Inr ((i, created), db')"
        "results' = (if created then results\<lparr>cy_created := cy_created results + 1\<rparr> else results\<lparr>cy_duplicate := cy_duplicate results + 1\<rparr>)"
  proof (cases "map_of tickers ?symb = None \<or> length ?an \<noteq> 4")
    case True
    then have "(results', db') = (results\<lparr>cy_skipped := cy_skipped results + 1\<rparr>, db)"
      using assms(2) by (auto simp: analyse_symbol_def Let_def split: option.splits)
    then show thesis using skipped by simp
  next
    case False
    then obtain ticker where t: "map_of tickers ?symb = Some ticker" "length ?an = 4" by auto
    have run: "(results', db') = (case ?run ticker of Inl _ \<Rightarrow> (results\<lparr>cy_failed := cy_failed results + 1\<rparr>, db)
      | Inr ((_, created), db') \<Rightarrow> ((if created then results\<lparr>cy_created := cy_created results + 1\<rparr>
          else results\<lparr>cy_duplicate := cy_duplicate results + 1\<rparr>), db'))"
      using assms(2) t(2) unfolding analyse_symbol_def Let_def prod.case t(1) option.case by simp
    show thesis
    proof (cases "?run ticker")
      case (Inl e)
      then show thesis using run failed by simp
    next
      case (Inr x)
      obtain i created d where x: "x = ((i, created), d)" by (metis prod.collapse)
      have "d = db'" "results' = (if created then results\<lparr>cy_created := cy_created results + 1\<rparr> else results\<lparr>cy_duplicate := cy_duplicate results + 1\<rparr>)"
        using run unfolding Inr x by (simp_all split: if_splits)
      then show thesis using saved [of ticker i created] Inr x by blast
    qed
  qed
  then have "strategy_ok db' \<and> (done_for env q db \<longrightarrow> done_for env q db') \<and>
      (cy_skipped results' + cy_failed results' = cy_skipped results + cy_failed results \<longrightarrow> done_for env p db') \<and>
      (done_for env p db \<longrightarrow> db' = db \<and> cy_created results' = cy_created results) \<and>
      cy_skipped results \<le> cy_skipped results' \<and> cy_failed results \<le> cy_failed results' \<and> attempts_made results' = attempts_made results + 1"
  proof cases
    case (saved ticker i created)
    obtain inp l s where inp: "strategy_input_of previous p ?an ticker btc = Inr inp"
      and save: "save_analysis (ce_digest env) (ce_policy env) now inp [l, s] (ce_config env) db = Inr ((i, created), db')"
      using saved(1) by (auto simp: prod.case_eq_if)
    note f = input_of_facts [OF inp]
    have ok: "strategy_ok db'" "analysed (ce_digest env) (ce_config env) inp db'" using save_analysis_ok [OF assms(1) save] by simp_all
    have "done_for env p db'" unfolding done_for_def
    proof (intro allI impI)
      fix inp' :: strategy_input assume "si_symbol inp' = sp_symbol (pp_profile p)" "input_cutoffs p = Inr (si_input_cutoffs inp')"
      then have "si_symbol inp = si_symbol inp'" "si_input_cutoffs inp = si_input_cutoffs inp'" using f by simp_all
      then show "analysed (ce_digest env) (ce_config env) inp' db'" using ok(2) analysed_same_cutoffs by blast
    qed
    moreover have "db' = db \<and> \<not> created" if "done_for env p db"
    proof -
      have "analysed (ce_digest env) (ce_config env) inp db" using that f by (simp add: done_for_def)
      from save_analysed_again [OF assms(1) this, of "ce_policy env" now "[l, s]"] show ?thesis using save by auto
    qed
    ultimately show ?thesis using ok(1) analysed_kept [OF assms(1) save] saved(2) by (auto simp: done_for_def attempts_made_def)
  qed (use assms(1) in \<open>simp_all add: attempts_made_def\<close>)
  then show "strategy_ok db'" "done_for env q db \<Longrightarrow> done_for env q db'"
    "cy_skipped results' + cy_failed results' = cy_skipped results + cy_failed results \<Longrightarrow> done_for env p db'"
    "done_for env p db \<Longrightarrow> db' = db \<and> cy_created results' = cy_created results"
    "cy_skipped results \<le> cy_skipped results'" "cy_failed results \<le> cy_failed results'" "attempts_made results' = attempts_made results + 1"
    by blast+
qed

lemma cycle_loop:
  assumes "strategy_ok db" "foldl (analyse_symbol env now previous tickers grouped btc) (results, db) ps = (results', db')"
  shows "strategy_ok db' \<and> (\<forall>q. done_for env q db \<longrightarrow> done_for env q db') \<and>
    cy_skipped results \<le> cy_skipped results' \<and> cy_failed results \<le> cy_failed results' \<and>
    (cy_skipped results' + cy_failed results' = cy_skipped results + cy_failed results \<longrightarrow> (\<forall>p \<in> set ps. done_for env p db')) \<and>
    ((\<forall>p \<in> set ps. done_for env p db) \<longrightarrow> db' = db \<and> cy_created results' = cy_created results) \<and>
    attempts_made results' = attempts_made results + int (length ps)"
  using assms
proof (induction ps arbitrary: results db)
  case (Cons p ps)
  obtain r1 db1 where one: "analyse_symbol env now previous tickers grouped btc (results, db) p = (r1, db1)" by (metis prod.collapse)
  note step = analyse_symbol_step [OF Cons.prems(1) one]
  have "foldl (analyse_symbol env now previous tickers grouped btc) (r1, db1) ps = (results', db')" using Cons.prems(2) one by simp
  note rest = Cons.IH [OF step(1) this]
  have "done_for env p db'" if "cy_skipped results' + cy_failed results' = cy_skipped results + cy_failed results"
    using step(3,5,6) rest that by auto
  then show ?case using step rest by auto
qed simp_all

text \<open>A cycle that returns, taken apart.\<close>

lemma analyze_onceE:
  assumes "analyze_once env provider now u mdb previous db = Inr (results, interests, db')"
  obtains tickers prepared grouped btc where "provider = Inr tickers"
    "prepare_symbols (ce_history env) (ce_minimum_history env) mdb (list_active_profiles u) = Inr prepared"
    "foldl (analyse_symbol env now previous tickers grouped btc) (no_results, db) prepared = (results, db')"
    "interests = map (\<lambda>(symb, ticker). (symb, tk_open_interest ticker)) tickers"
  using assms unfolding analyze_once_def rbind_eq_Inr Let_def by (auto simp: prod.case_eq_if)

section \<open>Properties\<close>

text \<open>C29: The live analysis is sound and idempotent. A cycle keeps the tables consistent: one active version, each input
  analysed once, one candidate per direction, and every signal on an accepted candidate with a plan. When it stored
  every contract, running it again before new candles arrive, at any time, with any tickers and open interests, creates
  no analysis, no candidate and no signal.\<close>

theorem live_analysis_is_idempotent:
  assumes "strategy_ok db" "analyze_once env provider now u mdb previous db = Inr (results, interests, db1)"
  shows "strategy_ok db1 \<and>
    (cy_skipped results = 0 \<and> cy_failed results = 0 \<longrightarrow>
      (\<forall>provider' now' previous' results' interests' db2.
        analyze_once env provider' now' u mdb previous' db1 = Inr (results', interests', db2) \<longrightarrow> db2 = db1 \<and> cy_created results' = 0))"
proof -
  obtain tickers prepared grouped btc where prep: "prepare_symbols (ce_history env) (ce_minimum_history env) mdb (list_active_profiles u) = Inr prepared"
    and run: "foldl (analyse_symbol env now previous tickers grouped btc) (no_results, db) prepared = (results, db1)"
    using analyze_onceE [OF assms(2)] by metis
  note first = cycle_loop [OF assms(1) run]
  have "db2 = db1 \<and> cy_created results' = 0"
    if ok: "cy_skipped results = 0" "cy_failed results = 0"
      and again: "analyze_once env provider' now' u mdb previous' db1 = Inr (results', interests', db2)"
    for provider' now' previous' results' interests' db2
  proof -
    have done_all: "\<forall>p \<in> set prepared. done_for env p db1" using first ok by (simp add: no_results_def)
    obtain tickers' prepared' grouped' btc' where "prepare_symbols (ce_history env) (ce_minimum_history env) mdb (list_active_profiles u) = Inr prepared'"
      and run': "foldl (analyse_symbol env now' previous' tickers' grouped' btc') (no_results, db1) prepared' = (results', db2)"
      using analyze_onceE [OF again] by metis
    then have "prepared' = prepared" using prep by simp
    have "strategy_ok db1" using first by blast
    from cycle_loop [OF this run'] done_all show ?thesis by (simp add: \<open>prepared' = prepared\<close> no_results_def)
  qed
  then show ?thesis using first by blast
qed

definition sample_universe_tables :: universe_db where
  "sample_universe_tables =
     \<lparr>ub_instruments = [\<lparr>ir_instrument = sample_instrument ''BTC'', ir_is_active = True, ir_updated_at = 0\<rparr>],
      ub_snapshots = [\<lparr>ss_id = 1, ss_source = ''coingecko'', ss_status = ''active'', ss_is_active = True, ss_source_asset_count = 1,
        ss_selected_count = 1, ss_configuration = configuration_snapshot sample_universe_config 100, ss_source_updated_at = None,
        ss_activated_at = Some 0\<rparr>],
      ub_members = [\<lparr>mr_snapshot_id = 1, mr_provider_id = ''btc'', mr_asset_symbol = ''btc'', mr_asset_name = ''btc'',
        mr_market_cap_rank = 1, mr_market_cap_usd = 1000, mr_provider_volume_24h_usd = 1000, mr_instrument_symbol = Some ''BTCUSDT'',
        mr_exchange_turnover = Some 500, mr_spread_bps = Some 1, mr_is_selected = True, mr_exclusion_reason = None,
        mr_decision_detail = None\<rparr>],
      ub_next_snapshot = 2\<rparr>"

definition sample_close :: "timeframe \<Rightarrow> aggregated_candle" where
  "sample_close tf = \<lparr>ag_symbol = ''BTCUSDT'', ag_timeframe = tf, ag_open_time = 0, ag_close_time = hours 4,
     ag_open = 100, ag_high = 101, ag_low = 99, ag_close = 100, ag_volume = 10, ag_turnover = 1000, ag_source_count = 1\<rparr>"

definition sample_market_tables :: market_db where
  "sample_market_tables = \<lparr>md_candles = [], md_checkpoints = [], md_gaps = [], md_next_gap = 1, md_jobs = [], md_next_job = 1,
     md_aggregates = map (\<lambda>tf. \<lparr>ar_candle = sample_close tf, ar_updated_at = 0\<rparr>) service_timeframes,
     md_cursors = [], md_snapshots = [], md_members = [], md_instruments = []\<rparr>"

definition sample_cycle :: cycle_env where
  "sample_cycle = \<lparr>ce_digest = (\<lambda>h. case h of Parameters k \<Rightarrow> sc_version k | Input_Of symb version cutoffs \<Rightarrow> symb),
     ce_policy = default_policy_config, ce_config = default_strategy_config, ce_history = 300, ce_minimum_history = 1\<rparr>"

definition empty_strategy_tables :: strategy_db where
  "empty_strategy_tables = \<lparr>yd_versions = [], yd_next_version = 1, yd_analyses = [], yd_next_analysis = 1, yd_candidates = [],
     yd_next_candidate = 1, yd_signals = \<lparr>db_signals = [], db_trades = [], db_events = [], db_outbox = [], db_candidates = [],
       db_snapshot_funding = [], db_instrument_funding_minutes = [], db_next_signal_id = 1\<rparr>\<rparr>"

definition sample_tickers :: "(string \<times> market_ticker) list" where
  "sample_tickers = [(''BTCUSDT'', sample_ticker ''BTCUSDT'')]"

definition sample_cycle_run :: "(cycle_results \<times> (string \<times> dec) list \<times> strategy_db) res" where
  "sample_cycle_run = analyze_once sample_cycle (Inr sample_tickers) 0 sample_universe_tables sample_market_tables [] empty_strategy_tables"

lemma sample_cycle_stored:
  "case sample_cycle_run of Inr (results, interests, db) \<Rightarrow> cy_created results = 1 \<and> cy_skipped results = 0 \<and> cy_failed results = 0
     | Inl _ \<Rightarrow> False"
  by code_simp

lemma live_analysis_is_idempotent_witness:
  "\<exists>results interests db. sample_cycle_run = Inr (results, interests, db) \<and> cy_created results = 1 \<and> strategy_ok db \<and>
     (\<nexists>results' interests' db2. analyze_once sample_cycle (Inr sample_tickers) (minutes 1) sample_universe_tables sample_market_tables
        interests db = Inr (results', interests', db2) \<and> db2 \<noteq> db)"
proof -
  obtain results interests db where run: "sample_cycle_run = Inr (results, interests, db)"
    and counts: "cy_created results = 1" "cy_skipped results = 0" "cy_failed results = 0"
    using sample_cycle_stored by (auto split: sum.splits)
  have "strategy_ok empty_strategy_tables"
    by (simp add: strategy_ok_def empty_strategy_tables_def db_ok_def keys_ok_def one_active_row_per_symbol_def)
  from live_analysis_is_idempotent [OF this run [unfolded sample_cycle_run_def]] run counts show ?thesis by metis
qed

end
