(* ===== verification/Operations.thy ===== *)
theory Operations
  imports Notifications Market_Data
begin

text \<open>
  The operation of the worker: \<open>observability/runtime.py\<close> (readiness and the lag of the event loop),
  \<open>services/operational_warnings.py\<close> (warnings of an outage in the outbox of the bot), \<open>db/repositories/maintenance.py\<close>
  with \<open>services/maintenance.py\<close> (the retention of candles) and \<open>observability/worker_health.py\<close> (the health endpoint). An
  exception of the database is an input of the operation that meets it; metrics and logging are not modelled.
\<close>

section \<open>The state of the runtime\<close>

record runtime_state =
  rs_market_data_ready :: bool
  rs_quiescing :: bool

definition begin_quiescence :: "runtime_state \<Rightarrow> runtime_state" where
  "begin_quiescence rs = rs\<lparr>rs_quiescing := True, rs_market_data_ready := False\<rparr>"

definition ready_metric :: "runtime_state \<Rightarrow> int" where
  "ready_metric rs = (if rs_market_data_ready rs \<and> \<not> rs_quiescing rs then 1 else 0)"

text \<open>One round of \<open>EventLoopMonitor.run\<close>: the expected time and whether a warning is active; what is logged.\<close>

datatype lag_notice = Lag_Exceeded rat | Lag_Recovered rat

definition monitor_round :: "rat \<Rightarrow> rat \<Rightarrow> rat \<Rightarrow> rat \<times> bool \<Rightarrow> lag_notice option \<times> rat \<times> bool" where
  "monitor_round interval warning now s =
     (case s of (expected, active) \<Rightarrow>
        let lag = max 0 (now - expected) in
        if lag \<ge> warning \<and> \<not> active then (Some (Lag_Exceeded lag), now + interval, True)
        else if lag < warning \<and> active then (Some (Lag_Recovered lag), now + interval, False)
        else (None, now + interval, active))"

section \<open>Warnings of an outage\<close>

record warning_config =
  wg_warning_delay :: rat
  wg_cooldown :: int

record warning_service =
  ow_unready_since :: "rat option"
  ow_warning_emitted :: bool

definition fresh_warnings :: warning_service where
  "fresh_warnings = \<lparr>ow_unready_since = None, ow_warning_emitted = False\<rparr>"

text \<open>What a check reads: the runtime, the monotonic clock, the time, and the exception of the database if it raises.\<close>

record check_input =
  cx_runtime :: runtime_state
  cx_monotonic :: rat
  cx_now :: instant
  cx_failure :: "py_exn option"

definition enqueue_notice ::
  "check_input \<Rightarrow> string \<Rightarrow> string \<Rightarrow> payload \<Rightarrow> notification_db \<Rightarrow> bool res \<times> notification_db" where
  "enqueue_notice c key event_type pl db =
     (case cx_failure c of
        Some e \<Rightarrow> (Inl e, db)
      | None \<Rightarrow> let (created, db') = enqueue_operational_event key event_type pl (cx_now c) db in (Inr created, db'))"

definition unready_key :: "int \<Rightarrow> string" where
  "unready_key bucket = ''service:market-data-unready:'' @ show_int bucket"

definition recovered_key :: "int \<Rightarrow> string" where
  "recovered_key s = ''service:market-data-recovered:'' @ show_int s"

definition warning_payload :: "instant \<Rightarrow> payload" where
  "warning_payload t = [(''service'', JString ''market_data''), (''status'', JString ''degraded''),
     (''reason'', JString ''market_data_not_ready''), (''event_time'', JTime t)]"

definition recovery_payload :: "instant \<Rightarrow> payload" where
  "recovery_payload t = [(''service'', JString ''market_data''), (''status'', JString ''ready''),
     (''reason'', JString ''market_data_recovered''), (''event_time'', JTime t)]"

definition handle_recovery ::
  "check_input \<Rightarrow> warning_service \<Rightarrow> notification_db \<Rightarrow> bool res \<times> warning_service \<times> notification_db" where
  "handle_recovery c s db =
     (let s = s\<lparr>ow_unready_since := None\<rparr> in
      if \<not> ow_warning_emitted s then (Inr False, s, db)
      else let (r, db') = enqueue_notice c (recovered_key (epoch_seconds (cx_now c))) ''service_recovered'' (recovery_payload (cx_now c)) db
        in (r, s\<lparr>ow_warning_emitted := False\<rparr>, db'))"

definition check_once ::
  "warning_config \<Rightarrow> check_input \<Rightarrow> warning_service \<Rightarrow> notification_db \<Rightarrow> bool res \<times> warning_service \<times> notification_db" where
  "check_once cfg c s db =
     (if rs_quiescing (cx_runtime c) then (Inr False, s, db)
      else if rs_market_data_ready (cx_runtime c) then handle_recovery c s db
      else case ow_unready_since s of
        None \<Rightarrow> (Inr False, s\<lparr>ow_unready_since := Some (cx_monotonic c)\<rparr>, db)
      | Some since \<Rightarrow>
          if cx_monotonic c - since < wg_warning_delay cfg then (Inr False, s, db)
          else if wg_cooldown cfg = 0 then (Inl DivisionByZero, s, db)
          else case enqueue_notice c (unready_key (epoch_seconds (cx_now c) div wg_cooldown cfg)) ''service_warning''
                 (warning_payload (cx_now c)) db of
            (Inl e, db') \<Rightarrow> (Inl e, s, db')
          | (Inr created, db') \<Rightarrow> (Inr created, s\<lparr>ow_warning_emitted := ow_warning_emitted s \<or> created\<rparr>, db'))"

section \<open>Retention\<close>

record retention_config =
  rt_candle_1m_days :: int
  rt_candle_agg_days :: int
  rt_batch_size :: nat

definition oldest_expired :: "('r \<Rightarrow> instant) \<Rightarrow> instant \<Rightarrow> nat \<Rightarrow> 'r list \<Rightarrow> 'r list" where
  "oldest_expired opened cutoff batch_size rows = take batch_size (sort_key opened (filter (\<lambda>r. opened r < cutoff) rows))"

definition delete_1m_batch :: "instant \<Rightarrow> nat \<Rightarrow> market_db \<Rightarrow> int \<times> market_db" where
  "delete_1m_batch cutoff batch_size db =
     (let keys = map candle_key (oldest_expired (\<lambda>r. m1_open_time (cr_candle r)) cutoff batch_size (md_candles db)) in
      if keys = [] then (0, db)
      else (int (length (filter (\<lambda>r. candle_key r \<in> set keys) (md_candles db))),
        db\<lparr>md_candles := filter (\<lambda>r. candle_key r \<notin> set keys) (md_candles db)\<rparr>))"

definition aggregate_key :: "aggregate_row \<Rightarrow> string \<times> timeframe \<times> instant" where
  "aggregate_key r = (ag_symbol (ar_candle r), ag_timeframe (ar_candle r), ag_open_time (ar_candle r))"

definition delete_agg_batch :: "instant \<Rightarrow> nat \<Rightarrow> market_db \<Rightarrow> int \<times> market_db" where
  "delete_agg_batch cutoff batch_size db =
     (let keys = map aggregate_key (oldest_expired (\<lambda>r. ag_open_time (ar_candle r)) cutoff batch_size (md_aggregates db)) in
      if keys = [] then (0, db)
      else (int (length (filter (\<lambda>r. aggregate_key r \<in> set keys) (md_aggregates db))),
        db\<lparr>md_aggregates := filter (\<lambda>r. aggregate_key r \<notin> set keys) (md_aggregates db)\<rparr>))"

definition delete_expired_candles :: "retention_config \<Rightarrow> instant \<Rightarrow> market_db \<Rightarrow> (int \<times> int) \<times> market_db" where
  "delete_expired_candles cfg now db =
     (let (deleted_1m, db) = delete_1m_batch (now - days (rt_candle_1m_days cfg)) (rt_batch_size cfg) db;
          (deleted_agg, db) = delete_agg_batch (now - days (rt_candle_agg_days cfg)) (rt_batch_size cfg) db
      in ((deleted_1m, deleted_agg), db))"

section \<open>The health endpoint\<close>

text \<open>\<open>_request_path\<close> of the bytes of a line: a byte that is not ASCII raises \<open>UnicodeDecodeError\<close>, a \<open>ValueError\<close>.\<close>

definition request_path :: "string \<Rightarrow> string res" where
  "request_path line =
     (if list_ex (\<lambda>c. (of_char c :: nat) \<ge> 128) line then Inl (ValueError ''ordinal not in range(128)'')
      else let parts = py_split (py_strip line) in
        if length parts \<noteq> 3 \<or> parts ! 0 \<noteq> ''GET'' then Inl (ValueError ''Unsupported request'')
        else Inr (before_char CHR ''?'' (parts ! 1)))"

datatype health_body = Alive | Not_Found | Invalid_Request | Metrics | Readiness bool "(string \<times> bool) list"

type_synonym health_response = "int \<times> health_body"

text \<open>The outcome of a dependency check: its answer, or nothing when it raised or took too long.\<close>

definition bounded_check :: "bool option \<Rightarrow> bool" where
  "bounded_check answer = (case answer of Some b \<Rightarrow> b | None \<Rightarrow> False)"

definition readiness :: "runtime_state \<Rightarrow> bool option \<Rightarrow> bool option \<Rightarrow> health_response" where
  "readiness rs database schema =
     (let database_ready = bounded_check database; schema_ready = bounded_check schema;
          ready = database_ready \<and> schema_ready \<and> rs_market_data_ready rs \<and> \<not> rs_quiescing rs
      in (if ready then 200 else 503, Readiness ready [(''database'', database_ready), (''schema'', schema_ready),
            (''market_data'', rs_market_data_ready rs), (''quiescing'', rs_quiescing rs)]))"

text \<open>The line that is read: nothing when the client took too long, a \<open>ValueError\<close> for a line that is too long.\<close>

definition handle_connection :: "runtime_state \<Rightarrow> bool option \<Rightarrow> bool option \<Rightarrow> string res option \<Rightarrow> health_response res" where
  "handle_connection rs database schema request_line =
     (case request_line of
        None \<Rightarrow> Inr (400, Invalid_Request)
      | Some line \<Rightarrow>
          (case rbind line request_path of
             Inl (ValueError _) \<Rightarrow> Inr (400, Invalid_Request)
           | Inl e \<Rightarrow> Inl e
           | Inr path \<Rightarrow>
               Inr (if path = ''/health/live'' then (200, Alive)
                 else if path = ''/health/ready'' then readiness rs database schema
                 else if path = ''/metrics'' then (200, Metrics)
                 else (404, Not_Found))))"

section \<open>Runs of the monitor\<close>

text \<open>What the monitor has done: its checks with their results, and restarts of the worker. Between the checks other
  services work on the outbox; the keys of the service events are written by the monitor only.\<close>

datatype monitor_entry = Checked check_input "bool res" | Restarted

definition service_keys :: "notification_db \<Rightarrow> string list" where
  "service_keys db = filter (starts_with ''service:'') (map nx_key (nb_outbox db))"

inductive monitored :: "warning_config \<Rightarrow> monitor_entry list \<Rightarrow> warning_service \<Rightarrow> notification_db \<Rightarrow> bool" for cfg where
  start: "service_keys db = [] \<Longrightarrow> monitored cfg [] fresh_warnings db"
| check: "monitored cfg h s db \<Longrightarrow> check_once cfg c s db = (r, s', db') \<Longrightarrow> monitored cfg (h @ [Checked c r]) s' db'"
| restart: "monitored cfg h s db \<Longrightarrow> monitored cfg (h @ [Restarted]) fresh_warnings db"
| others: "monitored cfg h s db \<Longrightarrow> service_keys db' = service_keys db \<Longrightarrow> monitored cfg h s db'"

definition waiting :: "monitor_entry \<Rightarrow> bool" where
  "waiting x = (case x of Checked c _ \<Rightarrow> rs_quiescing (cx_runtime c) \<or> \<not> rs_market_data_ready (cx_runtime c) | Restarted \<Rightarrow> False)"

definition warned :: "monitor_entry \<Rightarrow> bool" where
  "warned x = (case x of Checked c (Inr True) \<Rightarrow> \<not> rs_market_data_ready (cx_runtime c) | _ \<Rightarrow> False)"

definition recovered :: "monitor_entry \<Rightarrow> bool" where
  "recovered x = (case x of Checked c (Inr True) \<Rightarrow> rs_market_data_ready (cx_runtime c) | _ \<Rightarrow> False)"

definition notice_key :: "warning_config \<Rightarrow> monitor_entry \<Rightarrow> string" where
  "notice_key cfg x = (case x of
     Checked c _ \<Rightarrow> if rs_market_data_ready (cx_runtime c) then recovered_key (epoch_seconds (cx_now c))
       else unready_key (epoch_seconds (cx_now c) div wg_cooldown cfg)
   | Restarted \<Rightarrow> [])"

text \<open>What came before an entry that queued an event.\<close>

definition unready_since :: "rat \<Rightarrow> monitor_entry list \<Rightarrow> bool" where
  "unready_since t h \<longleftrightarrow> (\<exists>h1 c r h2. h = h1 @ Checked c r # h2 \<and> cx_monotonic c = t \<and> list_all waiting (Checked c r # h2))"

definition warning_open :: "monitor_entry list \<Rightarrow> bool" where
  "warning_open h \<longleftrightarrow> (\<exists>h1 x h2. h = h1 @ x # h2 \<and> warned x \<and> list_all waiting h2)"

definition entry_ok :: "warning_config \<Rightarrow> monitor_entry list \<Rightarrow> monitor_entry \<Rightarrow> bool" where
  "entry_ok cfg h x \<longleftrightarrow> (recovered x \<longrightarrow> warning_open h) \<and>
     (\<forall>c r. x = Checked c r \<longrightarrow> warned x \<longrightarrow> (\<exists>t. unready_since t h \<and> wg_warning_delay cfg \<le> cx_monotonic c - t))"

definition entries_ok :: "warning_config \<Rightarrow> monitor_entry list \<Rightarrow> bool" where
  "entries_ok cfg h \<longleftrightarrow> (\<forall>h1 x h2. h = h1 @ x # h2 \<longrightarrow> entry_ok cfg h1 x)"

definition monitor_ok :: "warning_config \<Rightarrow> monitor_entry list \<Rightarrow> warning_service \<Rightarrow> notification_db \<Rightarrow> bool" where
  "monitor_ok cfg h s db \<longleftrightarrow>
     service_keys db = map (notice_key cfg) (filter (\<lambda>x. warned x \<or> recovered x) h) \<and> distinct (service_keys db) \<and>
     entries_ok cfg h \<and>
     (\<forall>t. ow_unready_since s = Some t \<longrightarrow> unready_since t h) \<and>
     (ow_warning_emitted s \<longrightarrow> warning_open h)"

lemma service_keys_enqueue:
  assumes "enqueue_operational_event k ty pl t db = (created, db')" "starts_with ''service:'' k"
  shows "service_keys db' = (if created then service_keys db @ [k] else service_keys db)" "created \<Longrightarrow> k \<notin> set (service_keys db)"
  using assms by (auto simp: enqueue_operational_event_def service_keys_def Let_def split: if_splits)

lemma service_prefix [simp]: "starts_with ''service:'' (unready_key n)" "starts_with ''service:'' (recovered_key n)"
  by (simp_all add: unready_key_def recovered_key_def starts_with_def)

lemma entries_snoc: "entries_ok cfg (h @ [y]) \<longleftrightarrow> entries_ok cfg h \<and> entry_ok cfg h y"
proof
  assume all: "entries_ok cfg (h @ [y])"
  have "entry_ok cfg h1 x" if "h = h1 @ x # h2" for h1 x h2
    using all that unfolding entries_ok_def by (metis append.assoc append_Cons)
  then show "entries_ok cfg h \<and> entry_ok cfg h y" using all unfolding entries_ok_def by blast
next
  assume ok: "entries_ok cfg h \<and> entry_ok cfg h y"
  show "entries_ok cfg (h @ [y])" unfolding entries_ok_def
  proof (intro allI impI)
    fix h1 x h2 assume "h @ [y] = h1 @ x # h2"
    then show "entry_ok cfg h1 x" using ok by (cases h2 rule: rev_cases) (auto simp: entries_ok_def)
  qed
qed

lemma warning_open_snoc: "warning_open (h @ [x]) \<longleftrightarrow> warned x \<or> waiting x \<and> warning_open h"
proof
  assume "warning_open (h @ [x])"
  then obtain h1 y h2 where "h @ [x] = h1 @ y # h2" "warned y" "list_all waiting h2" by (auto simp: warning_open_def)
  then show "warned x \<or> waiting x \<and> warning_open h"
    by (cases h2 rule: rev_cases) (auto simp: warning_open_def)
next
  assume "warned x \<or> waiting x \<and> warning_open h"
  then show "warning_open (h @ [x])"
  proof
    assume "warned x" then show ?thesis unfolding warning_open_def by (intro exI [of _ h] exI [of _ x] exI [of _ "[]"]) simp
  next
    assume w: "waiting x \<and> warning_open h"
    then obtain h1 y h2 where "h = h1 @ y # h2" "warned y" "list_all waiting h2" by (auto simp: warning_open_def)
    with w show ?thesis unfolding warning_open_def by (intro exI [of _ h1] exI [of _ y] exI [of _ "h2 @ [x]"]) simp
  qed
qed

lemma unready_since_snoc: "unready_since t h \<Longrightarrow> waiting x \<Longrightarrow> unready_since t (h @ [x])"
  unfolding unready_since_def by (metis append.assoc append_Cons list_all_append list.pred_inject)

lemma unready_since_new: "waiting (Checked c r) \<Longrightarrow> unready_since (cx_monotonic c) (h @ [Checked c r])"
  unfolding unready_since_def by (intro exI [of _ h] exI [of _ c] exI [of _ r] exI [of _ "[]"]) simp

lemma monitor_ok_quiet:
  assumes "monitor_ok cfg h s db" "\<not> warned x" "\<not> recovered x" "service_keys db' = service_keys db"
    and "\<And>t. ow_unready_since s' = Some t \<Longrightarrow> unready_since t (h @ [x])" "ow_warning_emitted s' \<Longrightarrow> ow_warning_emitted s \<and> waiting x"
  shows "monitor_ok cfg (h @ [x]) s' db'"
proof -
  have "entry_ok cfg h x" using assms(2,3) by (auto simp: entry_ok_def)
  then show ?thesis using assms unfolding monitor_ok_def by (simp only: entries_snoc) (auto simp: warning_open_snoc)
qed

lemma monitor_ok_notice:
  assumes "monitor_ok cfg h s db" "warned x \<or> recovered x" "entry_ok cfg h x" "notice_key cfg x \<notin> set (service_keys db)"
    and "service_keys db' = service_keys db @ [notice_key cfg x]"
    and "\<And>t. ow_unready_since s' = Some t \<Longrightarrow> unready_since t (h @ [x])" "ow_warning_emitted s' \<Longrightarrow> warned x"
  shows "monitor_ok cfg (h @ [x]) s' db'"
  using assms unfolding monitor_ok_def by (simp only: entries_snoc) (auto simp: warning_open_snoc)

lemma enqueue_notice_cases:
  assumes "enqueue_notice c k ty pl db = (r, db')" "starts_with ''service:'' k"
  obtains (quiet) "r \<noteq> Inr True" "service_keys db' = service_keys db"
  | (queued) "r = Inr True" "service_keys db' = service_keys db @ [k]" "k \<notin> set (service_keys db)"
proof (cases "cx_failure c")
  case None
  obtain created db1 where "enqueue_operational_event k ty pl (cx_now c) db = (created, db1)" by fastforce
  then show thesis using that assms(1) None service_keys_enqueue [OF _ assms(2)]
    by (cases created) (fastforce simp: enqueue_notice_def)+
next
  case (Some e)
  then show thesis using that(1) assms(1) by (auto simp: enqueue_notice_def)
qed

lemma check_once_ok:
  assumes "monitor_ok cfg h s db" "check_once cfg c s db = (r, s', db')"
  shows "monitor_ok cfg (h @ [Checked c r]) s' db'"
proof -
  let ?x = "Checked c r"
  have since: "unready_since t h" if "ow_unready_since s = Some t" for t using assms(1) that by (simp add: monitor_ok_def)
  consider (quiescing) "rs_quiescing (cx_runtime c)"
    | (ready) "\<not> rs_quiescing (cx_runtime c)" "rs_market_data_ready (cx_runtime c)"
    | (unready) "\<not> rs_quiescing (cx_runtime c)" "\<not> rs_market_data_ready (cx_runtime c)" by blast
  then show ?thesis
  proof cases
    case quiescing
    then have "r = Inr False" "s' = s" "db' = db" using assms(2) by (simp_all add: check_once_def)
    then show ?thesis using quiescing since
      by (intro monitor_ok_quiet [OF assms(1)]) (auto simp: warned_def recovered_def waiting_def intro!: unready_since_snoc)
  next
    case ready
    then have run: "handle_recovery c s db = (r, s', db')" using assms(2) by (simp add: check_once_def)
    show ?thesis
    proof (cases "ow_warning_emitted s")
      case False
      then have "r = Inr False" "s' = s\<lparr>ow_unready_since := None\<rparr>" "db' = db" using run by (simp_all add: handle_recovery_def)
      then show ?thesis using False by (intro monitor_ok_quiet [OF assms(1)]) (auto simp: warned_def recovered_def)
    next
      case True
      then have s': "ow_unready_since s' = None" "\<not> ow_warning_emitted s'"
        and enq: "enqueue_notice c (recovered_key (epoch_seconds (cx_now c))) ''service_recovered'' (recovery_payload (cx_now c)) db = (r, db')"
        using run by (auto simp: handle_recovery_def Let_def split: prod.splits)
      consider (quiet) "r \<noteq> Inr True" "service_keys db' = service_keys db"
        | (queued) "r = Inr True" "service_keys db' = service_keys db @ [recovered_key (epoch_seconds (cx_now c))]"
            "recovered_key (epoch_seconds (cx_now c)) \<notin> set (service_keys db)"
        by (rule enqueue_notice_cases [OF enq service_prefix(2)]) auto
      then show ?thesis
      proof cases
          case quiet
          then show ?thesis using ready s' by (intro monitor_ok_quiet [OF assms(1)]) (auto simp: warned_def recovered_def split: sum.splits bool.splits)
        next
          case queued
          have "warning_open h" using assms(1) True by (simp add: monitor_ok_def)
          then show ?thesis using ready s' queued by (intro monitor_ok_notice [OF assms(1)]) (auto simp: warned_def recovered_def entry_ok_def notice_key_def)
      qed
    qed
  next
    case unready
    show ?thesis
    proof (cases "ow_unready_since s")
      case None
      then have "r = Inr False" "s' = s\<lparr>ow_unready_since := Some (cx_monotonic c)\<rparr>" "db' = db" using assms(2) unready
        by (simp_all add: check_once_def)
      then show ?thesis using unready
        by (intro monitor_ok_quiet [OF assms(1)]) (auto simp: warned_def recovered_def waiting_def intro!: unready_since_new)
    next
      case (Some t)
      then have t: "unready_since t h" "unready_since t (h @ [?x])" using since unready by (auto simp: waiting_def intro!: unready_since_snoc)
      let ?enq = "enqueue_notice c (unready_key (epoch_seconds (cx_now c) div wg_cooldown cfg)) ''service_warning'' (warning_payload (cx_now c)) db"
      show ?thesis
      proof (cases "cx_monotonic c - t < wg_warning_delay cfg \<or> wg_cooldown cfg = 0")
        case True
        then have "r \<noteq> Inr True" "s' = s" "db' = db" using assms(2) unready Some by (auto simp: check_once_def split: if_splits)
        then show ?thesis using unready t Some
          by (intro monitor_ok_quiet [OF assms(1)]) (auto simp: warned_def recovered_def waiting_def split: sum.splits bool.splits)
      next
        case False
        then have enq: "?enq = (r, db')" and s': "s' = s\<lparr>ow_warning_emitted := ow_warning_emitted s \<or> r = Inr True\<rparr>"
          using assms(2) unready Some by (auto simp: check_once_def split: prod.splits sum.splits)
        consider (quiet) "r \<noteq> Inr True" "service_keys db' = service_keys db"
        | (queued) "r = Inr True" "service_keys db' = service_keys db @ [unready_key (epoch_seconds (cx_now c) div wg_cooldown cfg)]"
            "unready_key (epoch_seconds (cx_now c) div wg_cooldown cfg) \<notin> set (service_keys db)"
        by (rule enqueue_notice_cases [OF enq service_prefix(1)]) auto
      then show ?thesis
      proof cases
            case quiet
            then show ?thesis using unready s' t Some
              by (intro monitor_ok_quiet [OF assms(1)]) (auto simp: warned_def recovered_def waiting_def split: sum.splits bool.splits)
          next
            case queued
            then show ?thesis using unready s' t Some False
              by (intro monitor_ok_notice [OF assms(1)]) (auto simp: warned_def recovered_def entry_ok_def notice_key_def not_less)
        qed
      qed
    qed
  qed
qed

lemma monitored_ok: "monitored cfg h s db \<Longrightarrow> monitor_ok cfg h s db"
proof (induction rule: monitored.induct)
  case (start db)
  then show ?case by (simp add: monitor_ok_def fresh_warnings_def entries_ok_def)
next
  case (check h s db c r s' db')
  then show ?case by (blast intro: check_once_ok)
next
  case (restart h s db)
  then show ?case by (intro monitor_ok_quiet) (auto simp: warned_def recovered_def fresh_warnings_def)
next
  case (others h s db db')
  then show ?case unfolding monitor_ok_def others.hyps(2) by blast
qed

text \<open>Materializing the deliveries is work of others.\<close>

lemma foldM_same:
  assumes "foldM f db xs = Inr db'" "\<And>db x db'. f db x = Inr db' \<Longrightarrow> g db' = g db"
  shows "g db' = g db"
  using assms by (induction xs arbitrary: db) auto

lemma materialize_keeps_service_keys:
  assumes "materialize_pending zones now ids batch db = Inr (n, db')"
  shows "service_keys db' = service_keys db"
proof -
  have users: "nb_outbox b = nb_outbox a" if "foldM (expand_for zones now x) a us = Inr b" for x a b us
    by (rule foldM_same [OF that]) (auto simp: expand_for_def insert_delivery_def Let_def split: if_splits prod.splits)
  have "map nx_key (nb_outbox b) = map nx_key (nb_outbox a)" if "expand_event zones now us a x = Inr b" for x a b us
    using that users by (auto simp: expand_event_def Let_def)
  then have "map nx_key (nb_outbox db') = map nx_key (nb_outbox db)"
    using assms by (auto simp: materialize_pending_def Let_def split: if_splits dest!: foldM_same [where g = "\<lambda>d. map nx_key (nb_outbox d)"])
  then show ?thesis by (simp add: service_keys_def)
qed

section \<open>Retention: what a run deletes\<close>

lemma prune:
  fixes opened :: "'r \<Rightarrow> instant" and key :: "'r \<Rightarrow> 'k" and cutoff n
  assumes "distinct (map key rows)"
  defines "gone \<equiv> oldest_expired opened cutoff n rows" and "expired \<equiv> filter (\<lambda>r. opened r < cutoff) rows"
  shows "filter (\<lambda>r. key r \<in> key ` set gone) rows = filter (\<lambda>r. r \<in> set gone) rows"
    and "length (filter (\<lambda>r. key r \<in> key ` set gone) rows) = min n (length expired)"
    and "r \<in> set gone \<Longrightarrow> opened r < cutoff"
    and "\<lbrakk>r \<in> set gone; r' \<in> set rows; r' \<notin> set gone\<rbrakk> \<Longrightarrow> opened r \<le> opened r'"
proof -
  have sub: "set gone \<subseteq> set rows" "set gone \<subseteq> set expired"
    by (auto simp: gone_def oldest_expired_def expired_def dest: in_set_takeD)
  show eq: "filter (\<lambda>r. key r \<in> key ` set gone) rows = filter (\<lambda>r. r \<in> set gone) rows"
    using assms(1) sub(1) by (intro filter_cong) (auto simp: distinct_map dest: inj_onD)
  have d: "distinct rows" using assms(1) by (simp add: distinct_map)
  have dg: "distinct gone" using d by (simp add: gone_def oldest_expired_def)
  have "length (filter (\<lambda>r. r \<in> set gone) rows) = card (set gone)"
    using d sub(1) by (metis distinct_card distinct_filter set_filter Int_absorb1 Int_def Collect_mem_eq)
  also have "\<dots> = min n (length expired)"
    using distinct_card [OF dg] by (simp add: gone_def oldest_expired_def expired_def)
  finally show "length (filter (\<lambda>r. key r \<in> key ` set gone) rows) = min n (length expired)" by (simp add: eq)
  show "r \<in> set gone \<Longrightarrow> opened r < cutoff" using sub(2) by (auto simp: expired_def)
  assume r: "r \<in> set gone" and r': "r' \<in> set rows" "r' \<notin> set gone"
  let ?ys = "sort_key opened expired"
  have gone: "gone = take n ?ys" by (simp add: gone_def oldest_expired_def expired_def)
  show "opened r \<le> opened r'"
  proof (cases "opened r' < cutoff")
    case True
    then have "r' \<in> set ?ys" using r'(1) by (simp add: expired_def)
    then have "r' \<in> set (drop n ?ys)" using r'(2) by (metis gone UnE append_take_drop_id set_append)
    moreover have "sorted (map opened (take n ?ys @ drop n ?ys))" by simp
    ultimately show ?thesis using r unfolding gone map_append sorted_append by auto
  next
    case False
    then show ?thesis using r sub(2) by (auto simp: expired_def)
  qed
qed

lemma delete_1m_batch_eq:
  "delete_1m_batch cutoff n db =
     (let gone = oldest_expired (\<lambda>r. m1_open_time (cr_candle r)) cutoff n (md_candles db) in
      (int (length (filter (\<lambda>r. candle_key r \<in> candle_key ` set gone) (md_candles db))),
       db\<lparr>md_candles := filter (\<lambda>r. candle_key r \<notin> candle_key ` set gone) (md_candles db)\<rparr>))"
  by (simp add: delete_1m_batch_def Let_def)

lemma delete_agg_batch_eq:
  "delete_agg_batch cutoff n db =
     (let gone = oldest_expired (\<lambda>r. ag_open_time (ar_candle r)) cutoff n (md_aggregates db) in
      (int (length (filter (\<lambda>r. aggregate_key r \<in> aggregate_key ` set gone) (md_aggregates db))),
       db\<lparr>md_aggregates := filter (\<lambda>r. aggregate_key r \<notin> aggregate_key ` set gone) (md_aggregates db)\<rparr>))"
  by (simp add: delete_agg_batch_def Let_def)

text \<open>What the deletion of a batch promises of a table.\<close>

definition batch_deleted :: "('r \<Rightarrow> instant) \<Rightarrow> instant \<Rightarrow> nat \<Rightarrow> 'r list \<Rightarrow> int \<Rightarrow> 'r list \<Rightarrow> bool" where
  "batch_deleted opened cutoff n rows deleted kept \<longleftrightarrow>
     (\<exists>keep. kept = filter keep rows) \<and>
     length rows = length kept + nat deleted \<and> deleted = int (min n (length (filter (\<lambda>r. opened r < cutoff) rows))) \<and>
     (\<forall>r \<in> set rows - set kept. opened r < cutoff \<and> (\<forall>r' \<in> set kept. opened r \<le> opened r'))"

lemma batch_deleted_filter:
  fixes opened :: "'r \<Rightarrow> instant" and key :: "'r \<Rightarrow> 'k" and cutoff n
  assumes "distinct (map key rows)"
  defines "gone \<equiv> oldest_expired opened cutoff n rows"
  shows "batch_deleted opened cutoff n rows (int (length (filter (\<lambda>r. key r \<in> key ` set gone) rows)))
    (filter (\<lambda>r. key r \<notin> key ` set gone) rows)"
proof -
  note p = prune [OF assms(1), where opened = opened and cutoff = cutoff and n = n, folded gone_def]
  let ?kept = "filter (\<lambda>r. key r \<notin> key ` set gone) rows"
  have kept: "?kept = filter (\<lambda>r. r \<notin> set gone) rows"
    using arg_cong [OF p(1), of set] by (intro filter_cong) (auto simp: set_eq_iff)
  have "length (filter (\<lambda>r. key r \<in> key ` set gone) rows) + length ?kept = length rows"
    using sum_length_filter_compl [of "\<lambda>r. key r \<in> key ` set gone" rows] by simp
  then have len: "length rows = length ?kept + nat (int (length (filter (\<lambda>r. key r \<in> key ` set gone) rows)))" by simp
  have mem: "x \<in> set ?kept \<longleftrightarrow> x \<in> set rows \<and> x \<notin> set gone" for x unfolding kept by simp
  show ?thesis unfolding batch_deleted_def
  proof (intro conjI ballI)
    show "\<exists>keep. ?kept = filter keep rows" by blast
    fix r assume r: "r \<in> set rows - set ?kept"
    then have gone: "r \<in> set gone" using mem by blast
    then show "opened r < cutoff" using p(3) by blast
    fix r' assume "r' \<in> set ?kept"
    then have "r' \<in> set rows" "r' \<notin> set gone" using mem by blast+
    then show "opened r \<le> opened r'" using p(4) [OF gone] by blast
  qed (use len p(2) in simp_all)
qed

section \<open>Properties\<close>

text \<open>C32: A warning follows an outage and a recovery follows a warning. In every run of the monitor, restarts, failures of the
  database and other writers of the outbox included: a warning is queued only after the market data has been unready for
  the delay, as seen by checks of the same process without a ready one between; a recovery is queued only after a warning
  of the same process with nothing but unready checks between; and the outbox holds each such event once, at most one
  warning in each period of the cooldown.\<close>

theorem warnings_follow_the_outage:
  assumes "monitored cfg h s db"
  shows "(\<forall>h1 c r h2. h = h1 @ Checked c r # h2 \<and> warned (Checked c r) \<longrightarrow>
       (\<exists>t. unready_since t h1 \<and> wg_warning_delay cfg \<le> cx_monotonic c - t)) \<and>
     (\<forall>h1 x h2. h = h1 @ x # h2 \<and> recovered x \<longrightarrow> warning_open h1) \<and>
     service_keys db = map (notice_key cfg) (filter (\<lambda>x. warned x \<or> recovered x) h) \<and> distinct (service_keys db)"
  using monitored_ok [OF assms] unfolding monitor_ok_def entries_ok_def entry_ok_def by blast

definition sample_warnings :: warning_config where
  "sample_warnings = \<lparr>wg_warning_delay = 300, wg_cooldown = 1800\<rparr>"

definition sample_check :: "bool \<Rightarrow> rat \<Rightarrow> int \<Rightarrow> check_input" where
  "sample_check ready clock t = \<lparr>cx_runtime = \<lparr>rs_market_data_ready = ready, rs_quiescing = False\<rparr>, cx_monotonic = clock,
     cx_now = seconds t, cx_failure = None\<rparr>"

definition sample_outbox :: notification_db where
  "sample_outbox = \<lparr>nb_outbox = [], nb_next_outbox = 1, nb_deliveries = [], nb_next_delivery = 1, nb_users = []\<rparr>"

fun run_checks ::
  "warning_config \<Rightarrow> check_input list \<Rightarrow> warning_service \<Rightarrow> notification_db \<Rightarrow> bool res list \<times> warning_service \<times> notification_db" where
  "run_checks cfg [] s db = ([], s, db)"
| "run_checks cfg (c # cs) s db =
     (let (r, s, db) = check_once cfg c s db; (rs, s, db) = run_checks cfg cs s db in (r # rs, s, db))"

lemma monitored_checks:
  assumes "monitored cfg h s db" "run_checks cfg cs s db = (rs, s', db')"
  shows "monitored cfg (h @ map2 Checked cs rs) s' db'"
  using assms
proof (induction cs arbitrary: h s db rs)
  case (Cons c cs)
  obtain r s1 db1 where 1: "check_once cfg c s db = (r, s1, db1)" by (cases "check_once cfg c s db")
  obtain rs1 where 2: "run_checks cfg cs s1 db1 = (rs1, s', db')" "rs = r # rs1" using Cons.prems(2) 1 by (auto split: prod.splits)
  show ?case using Cons.IH [OF monitored.check [OF Cons.prems(1) 1] 2(1)] 2(2) by simp
qed simp

lemma warnings_follow_the_outage_witness:
  "\<exists>s db. monitored sample_warnings
       [Checked (sample_check False 0 0) (Inr False), Checked (sample_check False 300 300) (Inr True), Checked (sample_check True 400 400) (Inr True)] s db \<and>
     service_keys db = [''service:market-data-unready:0'', ''service:market-data-recovered:400'']"
proof -
  let ?cs = "[sample_check False 0 0, sample_check False 300 300, sample_check True 400 400]"
  obtain rs s db where run: "run_checks sample_warnings ?cs fresh_warnings sample_outbox = (rs, s, db)" by (metis prod_cases3)
  have "fst (run_checks sample_warnings ?cs fresh_warnings sample_outbox) = [Inr False, Inr True, Inr True]" by code_simp
  then have rs: "rs = [Inr False, Inr True, Inr True]" using run by simp
  have "monitored sample_warnings [] fresh_warnings sample_outbox" by (rule monitored.start) (simp add: service_keys_def sample_outbox_def)
  from monitored_checks [OF this run] have m: "monitored sample_warnings (map2 Checked ?cs rs) s db" by simp
  have keys: "map (notice_key sample_warnings) (filter (\<lambda>x. warned x \<or> recovered x) (map2 Checked ?cs [Inr False, Inr True, Inr True])) =
      [''service:market-data-unready:0'', ''service:market-data-recovered:400'']" by code_simp
  from warnings_follow_the_outage [OF m] keys m show ?thesis by (auto simp: rs)
qed

text \<open>A restart loses the recovery. A worker that starts while a warning of the current period is already queued never
  reports the end of that outage: as long as its unready checks fall into periods that have their warning, none of its
  checks queues anything, however often the market data becomes ready again.\<close>

theorem restart_loses_the_recovery:
  assumes "wg_cooldown cfg \<noteq> 0"
    and "\<forall>c \<in> set cs. cx_failure c = None \<and> (\<not> rs_market_data_ready (cx_runtime c) \<longrightarrow>
      unready_key (epoch_seconds (cx_now c) div wg_cooldown cfg) \<in> set (service_keys db))"
  shows "fst (run_checks cfg cs fresh_warnings db) = replicate (length cs) (Inr False) \<and>
    nb_outbox (snd (snd (run_checks cfg cs fresh_warnings db))) = nb_outbox db"
proof -
  have "fst (run_checks cfg cs s d) = replicate (length cs) (Inr False) \<and> nb_outbox (snd (snd (run_checks cfg cs s d))) = nb_outbox db"
    if "\<not> ow_warning_emitted s" "nb_outbox d = nb_outbox db" for s d
    using assms(2) that
  proof (induction cs arbitrary: s d)
    case (Cons c cs)
    obtain r s1 d1 where 1: "check_once cfg c s d = (r, s1, d1)" by (cases "check_once cfg c s d")
    have "r = Inr False \<and> \<not> ow_warning_emitted s1 \<and> nb_outbox d1 = nb_outbox db"
      using Cons.prems assms(1) 1
      by (auto simp: check_once_def handle_recovery_def enqueue_notice_def enqueue_operational_event_def service_keys_def Let_def
          split: option.splits if_splits)
    then have r: "r = Inr False" and rest: "\<not> ow_warning_emitted s1" "nb_outbox d1 = nb_outbox db" by simp_all
    obtain rs s2 d2 where 2: "run_checks cfg cs s1 d1 = (rs, s2, d2)" by (cases "run_checks cfg cs s1 d1")
    have "fst (run_checks cfg cs s1 d1) = replicate (length cs) (Inr False) \<and> nb_outbox (snd (snd (run_checks cfg cs s1 d1))) = nb_outbox db"
      using Cons.prems(1) by (intro Cons.IH rest) simp
    then show ?case by (simp add: 1 2 r)
  qed simp
  then show ?thesis by (simp add: fresh_warnings_def)
qed

lemma restart_loses_the_recovery_witness:
  "\<exists>db. service_keys db = [''service:market-data-unready:0''] \<and>
     fst (run_checks sample_warnings [sample_check False 0 600, sample_check False 300 900, sample_check True 400 1000] fresh_warnings db) =
       [Inr False, Inr False, Inr False]"
proof -
  define db where "db = snd (snd (run_checks sample_warnings [sample_check False 0 0, sample_check False 300 300] fresh_warnings sample_outbox))"
  have keys: "service_keys db = [''service:market-data-unready:0'']" unfolding db_def by code_simp
  have "\<forall>c \<in> set [sample_check False 0 600, sample_check False 300 900, sample_check True 400 1000]. cx_failure c = None \<and>
      (\<not> rs_market_data_ready (cx_runtime c) \<longrightarrow>
        unready_key (epoch_seconds (cx_now c) div wg_cooldown sample_warnings) \<in> set [''service:market-data-unready:0''])"
    by code_simp
  moreover have "wg_cooldown sample_warnings \<noteq> 0" by (simp add: sample_warnings_def)
  ultimately have "fst (run_checks sample_warnings [sample_check False 0 600, sample_check False 300 900, sample_check True 400 1000] fresh_warnings db) =
       replicate (length [sample_check False 0 600, sample_check False 300 900, sample_check True 400 1000]) (Inr False)"
    unfolding keys [symmetric] using restart_loses_the_recovery by blast
  also have "\<dots> = [Inr False, Inr False, Inr False]" by simp
  finally show ?thesis using keys by blast
qed

text \<open>Retention deletes the oldest expired candles and nothing else. Of each table, a run deletes as many rows as it
  reports: all that opened before the cutoff of the table, or a full batch of them with none kept that is older; it keeps
  the order of the rest, and every other table. A minute at or after its cutoff stays stored.\<close>

theorem retention_deletes_the_oldest:
  assumes "distinct (map candle_key (md_candles db))" "distinct (map aggregate_key (md_aggregates db))"
    and "delete_expired_candles cfg now db = ((deleted_1m, deleted_agg), db')"
  shows "batch_deleted (\<lambda>r. m1_open_time (cr_candle r)) (now - days (rt_candle_1m_days cfg)) (rt_batch_size cfg)
       (md_candles db) deleted_1m (md_candles db') \<and>
     batch_deleted (\<lambda>r. ag_open_time (ar_candle r)) (now - days (rt_candle_agg_days cfg)) (rt_batch_size cfg)
       (md_aggregates db) deleted_agg (md_aggregates db') \<and>
     db' = db\<lparr>md_candles := md_candles db', md_aggregates := md_aggregates db'\<rparr> \<and>
     (\<forall>r \<in> set (md_candles db). now - days (rt_candle_1m_days cfg) \<le> m1_open_time (cr_candle r) \<longrightarrow> r \<in> set (md_candles db'))"
proof -
  let ?c1 = "now - days (rt_candle_1m_days cfg)" and ?c2 = "now - days (rt_candle_agg_days cfg)" and ?n = "rt_batch_size cfg"
  obtain db1 where 1: "delete_1m_batch ?c1 ?n db = (deleted_1m, db1)" and 2: "delete_agg_batch ?c2 ?n db1 = (deleted_agg, db')"
    using assms(3) by (auto simp: delete_expired_candles_def split: prod.splits)
  from 1 have db1: "db1 = db\<lparr>md_candles := md_candles db1\<rparr>" and batch1: "batch_deleted (\<lambda>r. m1_open_time (cr_candle r)) ?c1 ?n (md_candles db) deleted_1m (md_candles db1)"
    using batch_deleted_filter [OF assms(1), where opened = "\<lambda>r. m1_open_time (cr_candle r)" and cutoff = ?c1 and n = ?n]
    by (auto simp: delete_1m_batch_eq Let_def)
  have same: "md_aggregates db1 = md_aggregates db" by (subst db1) simp
  from 2 have db': "db' = db1\<lparr>md_aggregates := md_aggregates db'\<rparr>" and batch2: "batch_deleted (\<lambda>r. ag_open_time (ar_candle r)) ?c2 ?n (md_aggregates db1) deleted_agg (md_aggregates db')"
    using batch_deleted_filter [OF assms(2), where opened = "\<lambda>r. ag_open_time (ar_candle r)" and cutoff = ?c2 and n = ?n]
    by (auto simp: delete_agg_batch_eq same Let_def)
  have candles: "md_candles db' = md_candles db1" by (subst db') simp
  have "db' = db\<lparr>md_candles := md_candles db', md_aggregates := md_aggregates db'\<rparr>" by (subst db', subst db1) (simp add: candles)
  moreover have "r \<in> set (md_candles db')" if "r \<in> set (md_candles db)" "?c1 \<le> m1_open_time (cr_candle r)" for r
    using batch1 that by (force simp: batch_deleted_def candles)
  ultimately show ?thesis using batch1 batch2 by (simp add: candles same)
qed

definition sample_candle_row :: "int \<Rightarrow> candle_row" where
  "sample_candle_row n = \<lparr>cr_candle = \<lparr>m1_symbol = ''BTCUSDT'', m1_open_time = minutes n, m1_open = 100, m1_high = 101, m1_low = 99,
     m1_close = 100, m1_volume = 1, m1_turnover = 100\<rparr>, cr_source = ''bybit'', cr_updated_at = 0\<rparr>"

definition sample_retained :: market_db where
  "sample_retained = \<lparr>md_candles = map sample_candle_row [3, 1, 2, 44640], md_checkpoints = [], md_gaps = [], md_next_gap = 1, md_jobs = [],
     md_next_job = 1, md_aggregates = [], md_cursors = [], md_snapshots = [], md_members = [], md_instruments = []\<rparr>"

lemma retention_deletes_the_oldest_witness:
  "\<exists>db'. delete_expired_candles \<lparr>rt_candle_1m_days = 30, rt_candle_agg_days = 30, rt_batch_size = 2\<rparr> (days 31) sample_retained = ((2, 0), db') \<and>
     sample_candle_row 44640 \<in> set (md_candles db')"
proof -
  let ?run = "delete_expired_candles \<lparr>rt_candle_1m_days = 30, rt_candle_agg_days = 30, rt_batch_size = 2\<rparr> (days 31) sample_retained"
  obtain a b db' where run: "?run = ((a, b), db')" by (metis prod.collapse)
  moreover have "fst ?run = (2, 0)" by code_simp
  ultimately have ab: "a = 2" "b = 0" by simp_all
  have d: "distinct (map candle_key (md_candles sample_retained))" "distinct (map aggregate_key (md_aggregates sample_retained))" by code_simp+
  have "sample_candle_row 44640 \<in> set (md_candles sample_retained)" by (simp add: sample_retained_def)
  with retention_deletes_the_oldest [OF d run] have "sample_candle_row 44640 \<in> set (md_candles db')"
    by (simp add: sample_candle_row_def time_defs)
  with run ab show ?thesis by blast
qed

text \<open>The endpoint answers every line: an error of the client is a response, readiness needs every dependency.\<close>

lemma ready_exactly_when:
  "handle_connection rs database schema (Some (Inr ''GET /health/ready HTTP/1.1'')) = Inr (200, body) \<longleftrightarrow>
     database = Some True \<and> schema = Some True \<and> rs_market_data_ready rs \<and> \<not> rs_quiescing rs \<and>
     body = Readiness True [(''database'', True), (''schema'', True), (''market_data'', True), (''quiescing'', False)]"
proof -
  have "request_path ''GET /health/ready HTTP/1.1'' = Inr ''/health/ready''" by code_simp
  then show ?thesis
    by (auto simp: handle_connection_def readiness_def bounded_check_def Let_def split: option.splits)
qed

lemma request_path_errors: "request_path line = Inl e \<Longrightarrow> \<exists>m. e = ValueError m"
  by (auto simp: request_path_def Let_def split: if_splits)

lemma every_line_is_answered: "\<exists>x. handle_connection rs database schema (Some (Inr line)) = Inr x"
  using request_path_errors [of line] by (cases "request_path line") (auto simp: handle_connection_def)

lemma quiescing_is_not_ready: "ready_metric (begin_quiescence rs) = 0"
  by (simp add: ready_metric_def begin_quiescence_def)

end
