(* ===== verification/Rate_Limit.thy ===== *)
theory Rate_Limit
  imports Py_Text
begin

text \<open>
  \<open>src/src/crypto_smc/providers/bybit/rate_limit.py\<close>: \<open>AdaptiveRateLimiter\<close>, which spaces the requests to the exchange and
  holds them back while the exchange has blocked the client. Its state is the time of the next free slot and the end of
  the block, on the monotonic clock. Seconds are exact numbers; a clock, the headers and the random jitter are inputs. The
  semaphore that bounds the requests in flight only delays a request further and is not modelled. A \<open>Retry-After\<close> of
  \<open>inf\<close> or \<open>nan\<close> is not modelled.
\<close>

record limiter_config =
  lk_minimum_interval :: rat
  lk_retry_base_seconds :: rat

record limiter =
  lm_next_request_at :: rat
  lm_blocked_until :: rat

definition mk_limiter :: "rat \<Rightarrow> rat \<Rightarrow> (limiter_config \<times> limiter) res" where
  "mk_limiter requests_per_second retry_base_seconds =
     (if requests_per_second = 0 then Inl DivisionByZero
      else Inr (\<lparr>lk_minimum_interval = 1 / requests_per_second, lk_retry_base_seconds = retry_base_seconds\<rparr>,
        \<lparr>lm_next_request_at = 0, lm_blocked_until = 0\<rparr>))"

text \<open>The headers \<open>X-Bapi-Limit-Status\<close>, \<open>X-Bapi-Limit-Reset-Timestamp\<close> and \<open>Retry-After\<close> of a response.\<close>

record headers =
  hd_limit_status :: "string option"
  hd_limit_reset :: "string option"
  hd_retry_after :: "string option"

definition parse_int :: "string option \<Rightarrow> int option" where
  "parse_int v = (case v of None \<Rightarrow> None | Some s \<Rightarrow> read_int s)"

definition parse_float :: "string option \<Rightarrow> rat option" where
  "parse_float v = (case v of None \<Rightarrow> None | Some s \<Rightarrow> (case read_decimal s of Some (Finite q) \<Rightarrow> Some q | _ \<Rightarrow> None))"

definition block_for :: "rat \<Rightarrow> rat \<Rightarrow> limiter \<Rightarrow> limiter" where
  "block_for monotonic delay_seconds lm =
     (if delay_seconds \<le> 0 then lm else lm\<lparr>lm_blocked_until := max (lm_blocked_until lm) (monotonic + delay_seconds)\<rparr>)"

definition observe_headers :: "rat \<Rightarrow> rat \<Rightarrow> headers \<Rightarrow> limiter \<Rightarrow> limiter" where
  "observe_headers wall monotonic h lm =
     (case (parse_int (hd_limit_status h), parse_int (hd_limit_reset h)) of
        (Some remaining, Some reset_ms) \<Rightarrow>
          if remaining > 0 then lm
          else let delay = max 0 (of_int reset_ms / 1000 - wall) in if delay > 0 then block_for monotonic delay lm else lm
      | _ \<Rightarrow> lm)"

text \<open>\<open>random.uniform(0, exponential * 0.25)\<close> is a fraction \<open>jitter\<close> of its upper bound.\<close>

definition retry_delay :: "limiter_config \<Rightarrow> nat \<Rightarrow> rat \<Rightarrow> rat \<Rightarrow> bool \<Rightarrow> headers \<Rightarrow> rat" where
  "retry_delay k attempt wall jitter ip_ban h =
     (let retry_after = (case parse_float (hd_retry_after h) of Some s \<Rightarrow> s | None \<Rightarrow> 0);
          reset_delay = (case parse_int (hd_limit_reset h) of
            Some reset_ms \<Rightarrow> if reset_ms = 0 then 0 else max 0 (of_int reset_ms / 1000 - wall) | None \<Rightarrow> 0);
          exponential = lk_retry_base_seconds k * 2 ^ attempt;
          official_ip_wait = (if ip_ban then 600 else 0)
      in max (max (max retry_after reset_delay) (exponential + jitter * (exponential / 4))) official_ip_wait)"

definition wait_for_schedule :: "limiter_config \<Rightarrow> rat \<Rightarrow> limiter \<Rightarrow> rat \<times> limiter" where
  "wait_for_schedule k now lm =
     (let scheduled_at = max now (max (lm_next_request_at lm) (lm_blocked_until lm)) in
      (scheduled_at, lm\<lparr>lm_next_request_at := scheduled_at + lk_minimum_interval k\<rparr>))"

lemma retry_delay_at_least:
  assumes "0 \<le> jitter" "0 \<le> lk_retry_base_seconds k"
  shows "lk_retry_base_seconds k * 2 ^ attempt \<le> retry_delay k attempt wall jitter ip_ban h"
    and "ip_ban \<Longrightarrow> 600 \<le> retry_delay k attempt wall jitter ip_ban h"
    and "parse_float (hd_retry_after h) = Some s \<Longrightarrow> s \<le> retry_delay k attempt wall jitter ip_ban h"
    and "parse_int (hd_limit_reset h) = Some ms \<Longrightarrow> ms \<noteq> 0 \<Longrightarrow> of_int ms / 1000 - wall \<le> retry_delay k attempt wall jitter ip_ban h"
proof -
  have "0 \<le> jitter * (lk_retry_base_seconds k * 2 ^ attempt / 4)" using assms by simp
  then have "lk_retry_base_seconds k * 2 ^ attempt \<le> lk_retry_base_seconds k * 2 ^ attempt + jitter * (lk_retry_base_seconds k * 2 ^ attempt / 4)"
    by simp
  then show "lk_retry_base_seconds k * 2 ^ attempt \<le> retry_delay k attempt wall jitter ip_ban h"
    unfolding retry_delay_def Let_def by (simp add: le_max_iff_disj)
qed (simp_all add: retry_delay_def Let_def le_max_iff_disj)

section \<open>Any order of requests and blocks\<close>

text \<open>What reaches the limiter: a request or a block, each with the monotonic time at which it takes the lock.\<close>

datatype limiter_event = Request rat | Block rat rat

fun slots :: "limiter_config \<Rightarrow> limiter_event list \<Rightarrow> limiter \<Rightarrow> rat list" where
  "slots k [] lm = []"
| "slots k (Request now # es) lm = (let (slot, lm') = wait_for_schedule k now lm in slot # slots k es lm')"
| "slots k (Block now delay # es) lm = slots k es (block_for now delay lm)"

text \<open>The limiter after the events.\<close>

fun limited :: "limiter_config \<Rightarrow> limiter_event list \<Rightarrow> limiter \<Rightarrow> limiter" where
  "limited k [] lm = lm"
| "limited k (Request now # es) lm = limited k es (snd (wait_for_schedule k now lm))"
| "limited k (Block now delay # es) lm = limited k es (block_for now delay lm)"

lemma limited_append: "limited k (es @ fs) lm = limited k fs (limited k es lm)"
  by (induction k es lm rule: limited.induct) simp_all

lemma blocked_grows: "lm_blocked_until lm \<le> lm_blocked_until (limited k es lm)"
  by (induction k es lm rule: limited.induct) (auto simp: wait_for_schedule_def block_for_def Let_def split: if_splits)

lemma slots_after: "0 \<le> lk_minimum_interval k \<Longrightarrow> t \<in> set (slots k es lm) \<Longrightarrow> lm_next_request_at lm \<le> t \<and> lm_blocked_until lm \<le> t"
  by (induction k es lm rule: slots.induct) (fastforce simp: wait_for_schedule_def block_for_def Let_def split: if_splits)+

lemma slots_spaced: "0 \<le> lk_minimum_interval k \<Longrightarrow> sorted_wrt (\<lambda>a b. a + lk_minimum_interval k \<le> b) (slots k es lm)"
  by (induction k es lm rule: slots.induct) (auto simp: wait_for_schedule_def Let_def dest: slots_after)

lemma spaced_count:
  fixes d w a :: rat
  assumes "sorted_wrt (\<lambda>a b. a + d \<le> b) ts" "0 < d" "\<forall>t \<in> set ts. a \<le> t \<and> t < a + w" "0 \<le> w"
  shows "of_nat (length ts) \<le> w / d + 1"
proof (cases ts rule: rev_cases)
  case (snoc us l)
  have "a + d * of_nat i \<le> ts ! i" if "i < length ts" for i
    using that
  proof (induction i)
    case 0
    then show ?case using assms(3) by simp
  next
    case (Suc i)
    have "ts ! i + d \<le> ts ! Suc i" using assms(1) Suc.prems by (simp add: sorted_wrt_iff_nth_less)
    with Suc show ?case by (simp add: algebra_simps)
  qed
  from this [of "length us"] have "a + d * of_nat (length us) \<le> l" by (simp add: snoc)
  also have "l < a + w" using assms(3) by (simp add: snoc)
  finally have "d * of_nat (length us) < w" by simp
  then have "of_nat (length us) < w / d" using assms(2) by (simp add: pos_less_divide_eq mult.commute)
  then show ?thesis by (simp add: snoc)
qed (use assms in simp)

text \<open>C33: The request rate is bounded. Whatever the order of requests and blocks, and however the clock reads: the slots the
  limiter grants grow in steps of at least the reciprocal of the rate, so any window of \<open>w\<close> seconds holds at most
  \<open>w\<close> times the rate plus one of them; and a request that follows a block gets a slot after its end.\<close>

theorem request_rate_is_bounded:
  assumes "0 < rate" "mk_limiter rate base = Inr (k, lm)" "0 \<le> w"
  shows "of_nat (length (filter (\<lambda>t. a \<le> t \<and> t < a + w) (slots k es lm))) \<le> w * rate + 1 \<and>
    (\<forall>es1 now delay es2. es = es1 @ Block now delay # es2 \<longrightarrow>
      (\<forall>t \<in> set (slots k es2 (limited k (es1 @ [Block now delay]) lm)). 0 < delay \<longrightarrow> now + delay \<le> t))"
proof
  have k: "lk_minimum_interval k = 1 / rate" using assms(1,2) by (auto simp: mk_limiter_def split: if_splits)
  then have pos: "0 < lk_minimum_interval k" using assms(1) by simp
  have "sorted_wrt (\<lambda>a b. a + lk_minimum_interval k \<le> b) (filter (\<lambda>t. a \<le> t \<and> t < a + w) (slots k es lm))"
    using slots_spaced pos by (intro sorted_wrt_filter) simp
  from spaced_count [OF this pos, of a w] show "of_nat (length (filter (\<lambda>t. a \<le> t \<and> t < a + w) (slots k es lm))) \<le> w * rate + 1"
    using assms(3) by (simp add: k)
  show "\<forall>es1 now delay es2. es = es1 @ Block now delay # es2 \<longrightarrow>
      (\<forall>t \<in> set (slots k es2 (limited k (es1 @ [Block now delay]) lm)). 0 < delay \<longrightarrow> now + delay \<le> t)"
  proof (intro allI impI ballI)
    fix es1 now delay es2 t assume t: "t \<in> set (slots k es2 (limited k (es1 @ [Block now delay]) lm))" and "0 < delay"
    then have "now + delay \<le> lm_blocked_until (limited k (es1 @ [Block now delay]) lm)" by (simp add: limited_append block_for_def)
    with slots_after [OF _ t] pos show "now + delay \<le> t" by (meson less_imp_le order_trans)
  qed
qed

lemma request_rate_is_bounded_witness:
  "\<exists>k lm. mk_limiter 8 (1/2) = Inr (k, lm) \<and> slots k [Request 10, Request 10, Block 10 2, Request 11] lm = [10, 81/8, 12] \<and>
     of_nat (length (filter (\<lambda>t. 10 \<le> t \<and> t < 10 + 1) (slots k [Request 10, Request 10, Block 10 2, Request 11] lm))) \<le> (1 * 8 + 1 :: rat)"
proof -
  obtain k lm where m: "mk_limiter 8 (1/2) = Inr (k, lm)" by (simp add: mk_limiter_def)
  have "slots k [Request 10, Request 10, Block 10 2, Request 11] lm = [10, 81/8, 12]"
    using m by (auto simp: mk_limiter_def wait_for_schedule_def block_for_def Let_def max_def)
  then show ?thesis using request_rate_is_bounded [OF _ m, of 1 10 "[Request 10, Request 10, Block 10 2, Request 11]"] m by simp
qed

end
