(* ===== verification/Bybit_Client.thy ===== *)
theory Bybit_Client
  imports Rate_Limit Universe Coverage Market_Stream
begin

text \<open>
  \<open>src/src/crypto_smc/providers/bybit/client.py\<close> with the responses of \<open>schemas.py\<close>: the requests to the exchange with
  their retries, and the normalisation of instruments, tickers, candles and trades. What the exchange answers is an
  input: the status, the headers and the body of the response to each attempt. The validation of a payload by its
  schema is an input too (nothing when it fails), so a response is the record of the schema. \<open>BybitAPIError\<close> and
  \<open>BybitRateLimitError\<close> are \<open>RuntimeError\<close> with their texts; a model refuses a number that is not finite with a
  \<open>ValidationError\<close>, which is a \<open>ValueError\<close>.
\<close>

section \<open>schemas.py\<close>

record bybit_instrument =
  bi_symbol :: string
  bi_contract_type :: string
  bi_status :: string
  bi_base_coin :: string
  bi_quote_coin :: string
  bi_launch_time :: string
  bi_min_leverage :: string
  bi_max_leverage :: string
  bi_leverage_step :: string
  bi_min_price :: string
  bi_max_price :: string
  bi_tick_size :: string
  bi_min_notional_value :: string
  bi_max_order_qty :: string
  bi_max_mkt_order_qty :: string
  bi_min_order_qty :: string
  bi_qty_step :: string
  bi_settle_coin :: string
  bi_funding_interval :: int

record bybit_ticker =
  bt_symbol :: string
  bt_last_price :: string
  bt_mark_price :: string
  bt_open_interest :: string
  bt_open_interest_value :: string
  bt_turnover_24h :: string
  bt_volume_24h :: string
  bt_funding_rate :: string
  bt_bid1_price :: string
  bt_ask1_price :: string

record bybit_trade =
  by_exec_id :: string
  by_symbol :: string
  by_price :: string
  by_size :: string
  by_side :: side
  by_time :: string
  by_is_block_trade :: bool
  by_is_rpi_trade :: bool
  by_seq :: string

record 'r bybit_response =
  br_ret_code :: int
  br_ret_msg :: string
  br_category :: string
  br_list :: "'r list"

record instrument_response = "bybit_instrument bybit_response" +
  br_next_page_cursor :: string

record kline_response = "string list bybit_response" +
  br_kline_symbol :: string

record time_response =
  tr_ret_code :: "int option"
  tr_ret_msg :: string
  tr_time_nano :: "string option"

section \<open>Requests\<close>

text \<open>A body is not JSON, JSON but not an object, or an object with its \<open>retCode\<close> (where it is an integer) and its content.\<close>

datatype 'c body = is_not_json: Not_Json | is_not_object: Not_Object | Json_Object "int option" 'c

datatype 'c answer = Transport_Error | Answer int headers "'c body"

text \<open>One attempt: the monotonic clock when the request is scheduled and when it is answered, the wall clock, the jitter.\<close>

record 'c exchange =
  hx_clock :: rat
  hx_received :: rat
  hx_wall :: rat
  hx_jitter :: rat
  hx_answer :: "'c answer"

definition ret_code_of :: "'c body \<Rightarrow> int option" where
  "ret_code_of b = (case b of Json_Object code _ \<Rightarrow> code | _ \<Rightarrow> None)"

definition refused :: "int \<Rightarrow> 'c body \<Rightarrow> bool" where
  "refused status b \<longleftrightarrow> status = 403 \<or> status = 429 \<or> ret_code_of b = Some 10006"

definition request_failed :: "string \<Rightarrow> py_exn" where
  "request_failed endpoint = RuntimeError (''Bybit request failed: '' @ endpoint)"

text \<open>The loop of \<open>_get\<close>, from an attempt on: the payload, the slots of the requests, the delays and the limiter.\<close>

function get_from ::
  "limiter_config \<Rightarrow> nat \<Rightarrow> string \<Rightarrow> (nat \<Rightarrow> 'c exchange) \<Rightarrow> nat \<Rightarrow> limiter \<Rightarrow> 'c res \<times> rat list \<times> rat list \<times> limiter" where
  "get_from k max_retries endpoint ex attempt lm =
     (if attempt > max_retries then (Inl (RuntimeError (''Bybit retries exhausted: '' @ endpoint)), [], [], lm)
      else let x = ex attempt; (slot, lm) = wait_for_schedule k (hx_clock x) lm in
        case hx_answer x of
          Transport_Error \<Rightarrow> (Inl (request_failed endpoint), [slot], [], lm)
        | Answer status h b \<Rightarrow>
            let lm = observe_headers (hx_wall x) (hx_received x) h lm; ip_ban = (status = 403) in
            if is_not_json b \<and> \<not> (ip_ban \<or> status = 429) then (Inl (request_failed endpoint), [slot], [], lm)
            else if is_not_object b then (Inl (RuntimeError ''Bybit returned a non-object JSON response''), [slot], [], lm)
            else if refused status b then
              (if attempt \<ge> max_retries
               then (Inl (RuntimeError (''Bybit rate limit retries exhausted: '' @ endpoint)), [slot], [], lm)
               else let delay = retry_delay k attempt (hx_wall x) (hx_jitter x) ip_ban h;
                        (r, later_slots, delays, lm) = get_from k max_retries endpoint ex (attempt + 1) (block_for (hx_received x) delay lm)
                    in (r, slot # later_slots, delay # delays, lm))
            else if \<not> (200 \<le> status \<and> status < 300) then (Inl (request_failed endpoint), [slot], [], lm)
            else case b of Json_Object _ content \<Rightarrow> (Inr content, [slot], [], lm) | _ \<Rightarrow> (Inl (request_failed endpoint), [slot], [], lm))"
  by pat_completeness auto

termination
  by (relation "measure (\<lambda>(k, max_retries, endpoint, ex, attempt, lm). Suc max_retries - attempt)") auto

declare get_from.simps [simp del]

definition get_request ::
  "limiter_config \<Rightarrow> nat \<Rightarrow> string \<Rightarrow> (nat \<Rightarrow> 'c exchange) \<Rightarrow> limiter \<Rightarrow> 'c res \<times> limiter" where
  "get_request k max_retries endpoint ex lm =
     (let (r, _, _, lm) = get_from k max_retries endpoint ex 0 lm in (r, lm))"

text \<open>\<open>model_validate\<close> and the checks that every endpoint makes of its response.\<close>

definition validated :: "'c option \<Rightarrow> 'c res" where
  "validated c = (case c of Some v \<Rightarrow> Inr v | None \<Rightarrow> Inl (ValueError ''ValidationError''))"

definition checked :: "('r, 'm) bybit_response_scheme option \<Rightarrow> ('r, 'm) bybit_response_scheme res" where
  "checked c =
     rbind (validated c) (\<lambda>response.
     rbind (raise_if (br_ret_code response \<noteq> 0)
       (RuntimeError (''Bybit error '' @ show_int (br_ret_code response) @ '': '' @ br_ret_msg response))) (\<lambda>_.
     rbind (raise_if (br_category response \<noteq> ''linear'') (RuntimeError (''Unexpected category: '' @ br_category response))) (\<lambda>_.
     Inr response)))"

section \<open>Normalisation\<close>

definition decimal_of :: "string \<Rightarrow> decimal_value res" where
  "decimal_of s = (case read_decimal s of Some v \<Rightarrow> Inr v | None \<Rightarrow> Inl InvalidOperation)"

definition finite_number :: "decimal_value \<Rightarrow> dec res" where
  "finite_number v = (case v of Finite q \<Rightarrow> Inr q | _ \<Rightarrow> Inl (ValueError ''Input should be a finite number''))"

text \<open>The arguments of a model are converted one after the other; then the model checks them.\<close>

definition decimals :: "string list \<Rightarrow> dec list res" where
  "decimals ss = rbind (traverse decimal_of ss) (traverse finite_number)"

definition decimal_or_zero :: "string \<Rightarrow> string" where
  "decimal_or_zero s = (if s = [] then ''0'' else s)"

definition timestamp_ms_to_datetime :: "string \<Rightarrow> instant res" where
  "timestamp_ms_to_datetime s = rmap (\<lambda>ms. ms * 1000) (py_int s)"

definition is_usdt_perpetual :: "bybit_instrument \<Rightarrow> bool" where
  "is_usdt_perpetual i \<longleftrightarrow> bi_status i = ''Trading'' \<and> bi_contract_type i = ''LinearPerpetual'' \<and> bi_quote_coin i = ''USDT'' \<and>
     bi_settle_coin i = ''USDT''"

definition normalize_instrument :: "bybit_instrument \<Rightarrow> instrument res" where
  "normalize_instrument i =
     rbind (timestamp_ms_to_datetime (bi_launch_time i)) (\<lambda>launch_time.
     rbind (decimals [bi_tick_size i, bi_min_price i, bi_max_price i, bi_qty_step i, bi_min_order_qty i, bi_max_order_qty i,
         bi_max_mkt_order_qty i, bi_min_notional_value i, bi_min_leverage i, bi_max_leverage i, bi_leverage_step i]) (\<lambda>q.
     Inr \<lparr>iv_symbol = bi_symbol i, iv_base_coin = bi_base_coin i, iv_quote_coin = bi_quote_coin i, iv_settle_coin = bi_settle_coin i,
       iv_launch_time = launch_time, iv_tick_size = q ! 0, iv_min_price = q ! 1, iv_max_price = q ! 2, iv_quantity_step = q ! 3,
       iv_min_order_quantity = q ! 4, iv_max_order_quantity = q ! 5, iv_max_market_order_quantity = q ! 6, iv_min_notional_value = q ! 7,
       iv_min_leverage = q ! 8, iv_max_leverage = q ! 9, iv_leverage_step = q ! 10, iv_funding_interval_minutes = bi_funding_interval i\<rparr>))"

definition normalize_ticker :: "bybit_ticker \<Rightarrow> market_ticker res" where
  "normalize_ticker t =
     rbind (decimals (map decimal_or_zero [bt_last_price t, bt_mark_price t, bt_bid1_price t, bt_ask1_price t, bt_turnover_24h t,
         bt_volume_24h t, bt_open_interest t, bt_open_interest_value t, bt_funding_rate t])) (\<lambda>q.
     Inr \<lparr>tk_symbol = bt_symbol t, tk_last_price = q ! 0, tk_mark_price = q ! 1, tk_bid_price = q ! 2, tk_ask_price = q ! 3,
       tk_turnover_24h = q ! 4, tk_volume_24h = q ! 5, tk_open_interest = q ! 6, tk_open_interest_value = q ! 7, tk_funding_rate = q ! 8\<rparr>)"

definition normalize_trade :: "bybit_trade \<Rightarrow> public_trade res" where
  "normalize_trade t =
     rbind (traverse decimal_of [by_price t, by_size t]) (\<lambda>v.
     rbind (py_int (by_time t)) (\<lambda>ms.
     rbind (py_int (by_seq t)) (\<lambda>seq.
     rbind (traverse finite_number v) (\<lambda>q.
     Inr \<lparr>pt_trade_id = by_exec_id t, pt_symbol = py_upper (by_symbol t), pt_price = q ! 0, pt_size = q ! 1, pt_side = by_side t,
       pt_executed_at = ms * 1000, pt_sequence = seq, pt_is_block_trade = by_is_block_trade t, pt_is_rpi_trade = by_is_rpi_trade t\<rparr>))))"

definition normalize_kline :: "string \<Rightarrow> string list \<Rightarrow> candle_1m res" where
  "normalize_kline symb row =
     (if length row < 7 then Inl (RuntimeError ''Bybit kline row has fewer than 7 values'')
      else rbind (py_int (row ! 0)) (\<lambda>ms.
        rbind (decimals (take 6 (drop 1 row))) (\<lambda>q.
        Inr \<lparr>m1_symbol = symb, m1_open_time = ms * 1000, m1_open = q ! 0, m1_high = q ! 1, m1_low = q ! 2, m1_close = q ! 3,
          m1_volume = q ! 4, m1_turnover = q ! 5\<rparr>)))"

definition datetime_to_ms :: "py_time \<Rightarrow> int res" where
  "datetime_to_ms t = (case t of Naive _ \<Rightarrow> Inl (ValueError ''Bybit timestamps must be timezone-aware'') | Aware i \<Rightarrow> Inr (epoch_millis i))"

section \<open>The endpoints\<close>

text \<open>The client: the limits, the number of retries and the state of the limiter.\<close>

record client =
  cl_limits :: limiter_config
  cl_max_retries :: nat
  cl_limiter :: limiter

definition fetch :: "string \<Rightarrow> (nat \<Rightarrow> 'c exchange) \<Rightarrow> client \<Rightarrow> 'c res \<times> client" where
  "fetch endpoint ex cl =
     (let (r, lm) = get_request (cl_limits cl) (cl_max_retries cl) endpoint ex (cl_limiter cl) in (r, cl\<lparr>cl_limiter := lm\<rparr>))"

text \<open>The pages of the instruments, as the exchange answers page after page to the cursors it gave. It may never stop to
  give cursors, so the loop is an option.\<close>

partial_function (option) list_pages ::
  "(nat \<Rightarrow> string \<Rightarrow> nat \<Rightarrow> instrument_response option exchange) \<Rightarrow> nat \<Rightarrow> string \<Rightarrow> instrument list \<Rightarrow> client \<Rightarrow>
     (instrument list res \<times> client) option" where
  "list_pages ex page cursor found cl =
     (case fetch ''/v5/market/instruments-info'' (ex page cursor) cl of
        (r, cl) \<Rightarrow>
          (case rbind r (\<lambda>c. rbind (checked c) (\<lambda>response.
              rmap (Pair (br_next_page_cursor response)) (traverse normalize_instrument (filter is_usdt_perpetual (br_list response))))) of
             Inl e \<Rightarrow> Some (Inl e, cl)
           | Inr (cursor', instruments) \<Rightarrow>
               if cursor' = [] then Some (Inr (found @ instruments), cl)
               else list_pages ex (page + 1) cursor' (found @ instruments) cl))"

declare list_pages.simps [code]

definition list_usdt_perpetual_instruments ::
  "(nat \<Rightarrow> string \<Rightarrow> nat \<Rightarrow> instrument_response option exchange) \<Rightarrow> client \<Rightarrow> (instrument list res \<times> client) option" where
  "list_usdt_perpetual_instruments ex cl =
     map_option (\<lambda>(r, cl). (rmap (sort_key iv_symbol) r, cl)) (list_pages ex 0 [] [] cl)"

definition server_time_ms :: "(nat \<Rightarrow> time_response exchange) \<Rightarrow> client \<Rightarrow> int res \<times> client" where
  "server_time_ms ex cl =
     (let (r, cl) = fetch ''/v5/market/time'' ex cl in
      (rbind r (\<lambda>payload.
       rbind (raise_if (tr_ret_code payload \<noteq> Some 0)
         (RuntimeError (''Bybit error '' @ (case tr_ret_code payload of Some n \<Rightarrow> show_int n | None \<Rightarrow> ''None'') @ '': '' @ tr_ret_msg payload))) (\<lambda>_.
       case tr_time_nano payload of
         None \<Rightarrow> Inl (RuntimeError ''Bybit time response is missing result.timeNano'')
       | Some s \<Rightarrow> rmap (\<lambda>ns. ns div 1000000) (py_int s))), cl))"

definition list_linear_tickers ::
  "(nat \<Rightarrow> bybit_ticker bybit_response option exchange) \<Rightarrow> client \<Rightarrow> (string \<times> market_ticker) list res \<times> client" where
  "list_linear_tickers ex cl =
     (let (r, cl) = fetch ''/v5/market/tickers'' ex cl in
      (rbind r (\<lambda>c. rbind (checked c) (\<lambda>response.
         rmap (foldl (\<lambda>d t. od_put (tk_symbol t) t d) []) (traverse normalize_ticker (br_list response)))), cl))"

definition get_recent_public_trades ::
  "(nat \<Rightarrow> bybit_trade bybit_response option exchange) \<Rightarrow> string \<Rightarrow> int \<Rightarrow> client \<Rightarrow> public_trade list res \<times> client" where
  "get_recent_public_trades ex symb limit cl =
     (if \<not> (1 \<le> limit \<and> limit \<le> 1000) then (Inl (ValueError ''Bybit public trade limit must be between 1 and 1000''), cl)
      else let (r, cl) = fetch ''/v5/market/recent-trade'' ex cl in
        (rbind r (\<lambda>c. rbind (checked c) (\<lambda>response.
           rmap (sort_key trade_key) (traverse normalize_trade (filter (\<lambda>t. py_upper (by_symbol t) = py_upper symb) (br_list response))))), cl))"

definition kline_in_range :: "int \<Rightarrow> int \<Rightarrow> string list \<Rightarrow> bool res" where
  "kline_in_range start_ms end_ms row = rbind (py_nth row 0) (\<lambda>v. rmap (\<lambda>ms. start_ms \<le> ms \<and> ms \<le> end_ms) (py_int v))"

definition collect_klines :: "string \<Rightarrow> int \<Rightarrow> int \<Rightarrow> string list list \<Rightarrow> candle_1m list res" where
  "collect_klines symb start_ms end_ms rows =
     foldM (\<lambda>found row. rbind (kline_in_range start_ms end_ms row) (\<lambda>inside.
       if inside then rmap (\<lambda>c. found @ [c]) (normalize_kline symb row) else Inr found)) [] rows"

definition get_klines ::
  "(nat \<Rightarrow> kline_response option exchange) \<Rightarrow> string \<Rightarrow> py_time \<Rightarrow> py_time \<Rightarrow> int \<Rightarrow> client \<Rightarrow> candle_1m list res \<times> client" where
  "get_klines ex symb start_time end_time limit cl =
     (if \<not> (1 \<le> limit \<and> limit \<le> 1000) then (Inl (ValueError ''Bybit kline limit must be between 1 and 1000''), cl)
      else case rbind (datetime_to_ms start_time) (\<lambda>s. rmap (Pair s) (datetime_to_ms end_time)) of
        Inl e \<Rightarrow> (Inl e, cl)
      | Inr (start_ms, end_ms) \<Rightarrow>
          let (r, cl) = fetch ''/v5/market/kline'' ex cl in
          (rbind r (\<lambda>c. rbind (checked c) (\<lambda>response.
             rbind (raise_if (br_kline_symbol response \<noteq> py_upper symb)
               (RuntimeError (''Unexpected kline symbol: '' @ br_kline_symbol response))) (\<lambda>_.
             rmap (sort_key m1_open_time) (collect_klines (py_upper symb) start_ms end_ms (br_list response))))), cl))"

section \<open>Retries\<close>

text \<open>A successful answer, and what a refused attempt and its delay and the slot of the next attempt satisfy.\<close>

definition succeeds :: "'c answer \<Rightarrow> 'c \<Rightarrow> bool" where
  "succeeds a c \<longleftrightarrow> (\<exists>status h code. a = Answer status h (Json_Object code c) \<and> 200 \<le> status \<and> status < 300 \<and> code \<noteq> Some 10006)"

definition waits_politely :: "limiter_config \<Rightarrow> nat \<Rightarrow> 'c exchange \<Rightarrow> rat \<Rightarrow> rat \<Rightarrow> bool" where
  "waits_politely k attempt x delay next_slot \<longleftrightarrow>
     (\<exists>status h b. hx_answer x = Answer status h b \<and> refused status b \<and> (status = 403 \<longrightarrow> 600 \<le> delay) \<and>
        (\<forall>s. parse_float (hd_retry_after h) = Some s \<longrightarrow> s \<le> delay)) \<and>
     lk_retry_base_seconds k * 2 ^ attempt \<le> delay \<and> hx_received x + delay \<le> next_slot"

lemma wait_slot: "wait_for_schedule k now lm = (slot, lm') \<Longrightarrow> lm_blocked_until lm \<le> slot"
  by (auto simp: wait_for_schedule_def Let_def)

lemma get_from_waits:
  assumes "get_from k n endpoint ex a lm = (r, taken, delays, lm')" "a \<le> n" "\<forall>i. 0 \<le> hx_jitter (ex i)" "0 < lk_retry_base_seconds k"
  shows "length taken = Suc (length delays) \<and> a + length delays \<le> n \<and> lm_blocked_until lm \<le> hd taken \<and>
    (\<forall>i < length delays. waits_politely k (a + i) (ex (a + i)) (delays ! i) (taken ! Suc i)) \<and>
    (\<forall>c. r = Inr c \<longrightarrow> succeeds (hx_answer (ex (a + length delays))) c)"
  using assms
proof (induction k n endpoint ex a lm arbitrary: r taken delays lm' rule: get_from.induct)
  case (1 k n endpoint ex a lm)
  obtain slot lm1 where w: "wait_for_schedule k (hx_clock (ex a)) lm = (slot, lm1)" by fastforce
  have slot: "lm_blocked_until lm \<le> slot" by (rule wait_slot [OF w])
  note run = 1(2) [unfolded get_from.simps [of k n endpoint ex a lm] Let_def w, simplified]
  show ?case
  proof (cases "hx_answer (ex a)")
    case Transport_Error
    then show ?thesis using run 1(3) slot by auto
  next
    case (Answer status h b)
    let ?lm2 = "observe_headers (hx_wall (ex a)) (hx_received (ex a)) h lm1"
    show ?thesis
    proof (cases "(is_not_json b \<and> \<not> (status = 403 \<or> status = 429)) \<or> is_not_object b \<or> \<not> refused status b \<or> a \<ge> n")
      case True
      then show ?thesis using run 1(3) Answer slot
        by (auto simp: succeeds_def refused_def ret_code_of_def split: if_splits body.splits)
    next
      case False
      let ?delay = "retry_delay k a (hx_wall (ex a)) (hx_jitter (ex a)) (status = 403) h"
      obtain r1 taken1 delays1 lm3 where rec: "get_from k n endpoint ex (a + 1) (block_for (hx_received (ex a)) ?delay ?lm2) = (r1, taken1, delays1, lm3)"
        by (metis prod_cases4)
      have res: "r = r1" "taken = slot # taken1" "delays = ?delay # delays1" using run 1(3) Answer False rec by auto
      have ih: "length taken1 = Suc (length delays1) \<and> a + 1 + length delays1 \<le> n \<and>
          lm_blocked_until (block_for (hx_received (ex a)) ?delay ?lm2) \<le> hd taken1 \<and>
          (\<forall>i < length delays1. waits_politely k (a + 1 + i) (ex (a + 1 + i)) (delays1 ! i) (taken1 ! Suc i)) \<and>
          (\<forall>c. r1 = Inr c \<longrightarrow> succeeds (hx_answer (ex (a + 1 + length delays1))) c)"
        using 1(1) [OF _ refl w [symmetric] refl Answer refl refl _ _ _ _ refl rec] False 1(3-5) by auto
      note d = retry_delay_at_least [where jitter = "hx_jitter (ex a)" and k = k and attempt = a and wall = "hx_wall (ex a)" and ip_ban = "status = 403" and h = h]
      have base: "lk_retry_base_seconds k * 2 ^ a \<le> ?delay" using d(1) 1(4,5) by simp
      moreover have "0 < lk_retry_base_seconds k * 2 ^ a" using 1(5) by simp
      ultimately have "hx_received (ex a) + ?delay \<le> hd taken1" using ih by (auto simp: block_for_def split: if_splits)
      moreover have "hd taken1 = taken1 ! 0" using ih by (cases taken1) auto
      ultimately have "waits_politely k a (ex a) ?delay (taken1 ! 0)"
        using base d(2,3) 1(4,5) False Answer by (auto simp: waits_politely_def)
      then show ?thesis using ih slot unfolding res by (auto simp: nth_Cons less_Suc_eq_0_disj split: nat.splits)
    qed
  qed
qed

section \<open>Candles\<close>

lemma collect_klines_from:
  assumes "foldM (\<lambda>found row. rbind (kline_in_range s e row) (\<lambda>inside.
       if inside then rmap (\<lambda>c. found @ [c]) (normalize_kline symb row) else Inr found)) acc rows = Inr cs"
  shows "\<exists>new. cs = acc @ new \<and> map Inr new = map (normalize_kline symb) (filter (\<lambda>row. kline_in_range s e row = Inr True) rows) \<and>
    list_all (\<lambda>row. returns (kline_in_range s e row)) rows"
  using assms
proof (induction rows arbitrary: acc)
  case (Cons row rows)
  then obtain inside where inside: "kline_in_range s e row = Inr inside" by auto
  show ?case
  proof (cases inside)
    case True
    then obtain c where c: "normalize_kline symb row = Inr c" using Cons.prems inside by auto
    with Cons.prems inside True Cons.IH [of "acc @ [c]"] show ?thesis by auto
  next
    case False
    with Cons.prems inside Cons.IH [of acc] show ?thesis by auto
  qed
qed simp

lemma empty_row_raises_index_error: "collect_klines symb s e ([] # rows) = Inl IndexError"
  by (simp add: collect_klines_def kline_in_range_def py_nth_def)

lemma normalize_kline_fields:
  assumes "normalize_kline symb row = Inr c"
  shows "m1_symbol c = symb" "py_nth row 0 = Inr (row ! 0)" "rmap (\<lambda>ms. ms * 1000) (py_int (row ! 0)) = Inr (m1_open_time c)"
  using assms by (auto simp: normalize_kline_def py_nth_def split: if_splits)

lemma kline_of_window:
  assumes "normalize_kline symb row = Inr c" "kline_in_range s e row = Inr True"
  shows "m1_symbol c = symb" "s * 1000 \<le> m1_open_time c" "m1_open_time c \<le> e * 1000"
  using normalize_kline_fields [OF assms(1)] assms(2) by (auto simp: kline_in_range_def)

lemma get_klines_rows:
  assumes "get_klines ex symb (Aware s) (Aware e) limit cl = (Inr cs, cl')"
  obtains response where "fst (fetch ''/v5/market/kline'' ex cl) = Inr (Some response)" "br_ret_code response = 0"
    "br_kline_symbol response = py_upper symb" "1 \<le> limit" "limit \<le> 1000"
    "mset (map Inr cs) = mset (map (normalize_kline (py_upper symb))
       (filter (\<lambda>row. kline_in_range (epoch_millis s) (epoch_millis e) row = Inr True) (br_list response)))"
    "sorted (map m1_open_time cs)"
proof -
  obtain r cl1 where f: "fetch ''/v5/market/kline'' ex cl = (r, cl1)" by fastforce
  obtain response cs0 where r: "r = Inr (Some response)" "br_ret_code response = 0" "br_kline_symbol response = py_upper symb"
      "1 \<le> limit" "limit \<le> 1000" "collect_klines (py_upper symb) (epoch_millis s) (epoch_millis e) (br_list response) = Inr cs0" "cs = sort_key m1_open_time cs0"
    using assms f by (auto simp: get_klines_def datetime_to_ms_def checked_def validated_def split: if_splits option.splits)
  from collect_klines_from [OF r(6) [unfolded collect_klines_def]]
  have "map Inr cs0 = map (normalize_kline (py_upper symb)) (filter (\<lambda>row. kline_in_range (epoch_millis s) (epoch_millis e) row = Inr True) (br_list response))"
    by auto
  then have "mset (map Inr cs) = mset (map (normalize_kline (py_upper symb))
       (filter (\<lambda>row. kline_in_range (epoch_millis s) (epoch_millis e) row = Inr True) (br_list response)))"
    using r(7) by (metis mset_map mset_sort)
  with that [of response] f r show thesis by simp
qed

text \<open>The other direction: rows that are all well formed are returned as the candles of the window.\<close>

definition inside_window :: "instant \<Rightarrow> instant \<Rightarrow> candle_1m \<Rightarrow> bool" where
  "inside_window s e c \<longleftrightarrow> epoch_millis s * 1000 \<le> m1_open_time c \<and> m1_open_time c \<le> epoch_millis e * 1000"

lemma kline_in_range_normalized:
  "normalize_kline symb row = Inr c \<Longrightarrow>
     kline_in_range (epoch_millis s) (epoch_millis e) row = Inr (inside_window s e c)"
  by (auto simp: normalize_kline_def kline_in_range_def inside_window_def py_nth_def rmap_def split: if_splits)

lemma collect_klines_normalized:
  assumes "map (normalize_kline symb) rows = map Inr sent"
  shows "collect_klines symb (epoch_millis s) (epoch_millis e) rows = Inr (filter (inside_window s e) sent)"
proof -
  have "foldM (\<lambda>found row. rbind (kline_in_range (epoch_millis s) (epoch_millis e) row) (\<lambda>inside.
       if inside then rmap (\<lambda>c. found @ [c]) (normalize_kline symb row) else Inr found)) acc rows =
     Inr (acc @ filter (inside_window s e) sent)" for acc
    using assms
  proof (induction rows arbitrary: sent acc)
    case (Cons row rows)
    then obtain c cs where c: "sent = c # cs" "normalize_kline symb row = Inr c" by (cases sent) auto
    with Cons show ?case by (simp add: kline_in_range_normalized [OF c(2)])
  qed simp
  then show ?thesis by (simp add: collect_klines_def)
qed

lemma get_klines_answers:
  assumes "fst (fetch ''/v5/market/kline'' ex cl) = Inr (Some response)" "br_ret_code response = 0"
    "br_category response = ''linear''" "br_kline_symbol response = py_upper symb"
    "map (normalize_kline (py_upper symb)) (br_list response) = map Inr sent" "1 \<le> limit" "limit \<le> 1000"
  shows "fst (get_klines ex symb (Aware s) (Aware e) limit cl) = Inr (sort_key m1_open_time (filter (inside_window s e) sent))"
  using assms collect_klines_normalized [OF assms(5)]
  by (auto simp: get_klines_def datetime_to_ms_def checked_def validated_def split: prod.splits)

lemma grid_in_order: "sorted (minute_grid s n)"
  by (simp add: minute_grid_def sorted_map sorted_wrt_iff_nth_less minutes_def)

lemma sorted_mset_eq: "sorted xs \<Longrightarrow> sorted ys \<Longrightarrow> mset xs = mset ys \<longleftrightarrow> xs = ys"
  by (metis properties_for_sort)

section \<open>Properties\<close>

text \<open>C34: Retries are bounded and wait as long as they must. A request is sent at most once more than the number of retries;
  it is sent again only after the exchange refused it, not before the delay has passed, which doubles with each attempt, is
  at least what the exchange asks for and ten minutes after a ban; and what is returned comes from a successful answer to
  the last attempt.\<close>

theorem retries_are_bounded_and_wait:
  assumes "get_from k n endpoint ex 0 lm = (r, taken, delays, lm')" "\<forall>i. 0 \<le> hx_jitter (ex i)" "0 < lk_retry_base_seconds k"
  shows "length taken = Suc (length delays) \<and> length delays \<le> n \<and>
    (\<forall>i < length delays. waits_politely k i (ex i) (delays ! i) (taken ! Suc i)) \<and>
    (\<forall>c. r = Inr c \<longrightarrow> succeeds (hx_answer (ex (length delays))) c)"
  using get_from_waits [OF assms(1) _ assms(2,3)] by simp

definition no_headers :: headers where
  "no_headers = \<lparr>hd_limit_status = None, hd_limit_reset = None, hd_retry_after = None\<rparr>"

definition sample_exchange :: "'c answer \<Rightarrow> 'c exchange" where
  "sample_exchange a = \<lparr>hx_clock = 10, hx_received = 11, hx_wall = 0, hx_jitter = 0, hx_answer = a\<rparr>"

definition sample_limits :: limiter_config where
  "sample_limits = \<lparr>lk_minimum_interval = 1 / 8, lk_retry_base_seconds = 1 / 2\<rparr>"

definition sample_client :: client where
  "sample_client = \<lparr>cl_limits = sample_limits, cl_max_retries = 5, cl_limiter = \<lparr>lm_next_request_at = 0, lm_blocked_until = 0\<rparr>\<rparr>"

definition sample_refusals :: "nat \<Rightarrow> int exchange" where
  "sample_refusals i = sample_exchange (if i = 0 then Answer 429 no_headers Not_Json else if i = 1 then Answer 200 no_headers (Json_Object (Some 10006) 7)
     else Answer 200 no_headers (Json_Object (Some 0) 42))"

lemma retries_are_bounded_and_wait_witness:
  "\<exists>taken lm'. get_from sample_limits 5 [] sample_refusals 0 (cl_limiter sample_client) = (Inr 42, taken, [1/2, 1], lm') \<and>
     waits_politely sample_limits 1 (sample_refusals 1) 1 (taken ! 2)"
proof -
  obtain r taken delays lm' where run: "get_from sample_limits 5 [] sample_refusals 0 (cl_limiter sample_client) = (r, taken, delays, lm')"
    by (metis prod_cases4)
  have "fst (get_from sample_limits 5 [] sample_refusals 0 (cl_limiter sample_client)) = Inr 42 \<and>
      fst (snd (snd (get_from sample_limits 5 [] sample_refusals 0 (cl_limiter sample_client)))) = [1/2, 1]" by code_simp
  then have "r = Inr 42" "delays = [1/2, 1]" using run by simp_all
  moreover have "\<forall>i. 0 \<le> hx_jitter (sample_refusals i)" by (simp add: sample_refusals_def sample_exchange_def)
  ultimately show ?thesis using retries_are_bounded_and_wait [OF run] run
    by (auto simp: sample_limits_def numeral_2_eq_2 All_less_Suc)
qed

text \<open>C36: A backfill accepts exactly the complete answers. When the exchange answers with well-formed rows for the symbol that
  was asked for, the client returns the candle of every row inside the window, each once and in the order of time; and the
  backfill takes them as contiguous exactly when the exchange sent every minute of the window once, in whatever order.\<close>

theorem backfill_accepts_complete_answers:
  assumes "fst (fetch ''/v5/market/kline'' ex cl) = Inr (Some response)" "br_ret_code response = 0"
    "br_category response = ''linear''" "br_kline_symbol response = py_upper symb"
    "map (normalize_kline (py_upper symb)) (br_list response) = map Inr sent" "1 \<le> limit" "limit \<le> 1000" "s \<le> e"
  shows "\<exists>cs. fst (get_klines ex symb (Aware s) (Aware e) limit cl) = Inr cs \<and>
    mset cs = mset (filter (inside_window s e) sent) \<and> sorted (map m1_open_time cs) \<and>
    list_all (\<lambda>c. m1_symbol c = py_upper symb) cs \<and>
    (validate_contiguous cs s e = Inr () \<longleftrightarrow>
       mset (map m1_open_time (filter (inside_window s e) sent)) = mset (minute_grid s (nat ((e - s) div one_minute + 1))))"
proof -
  define cs where "cs = sort_key m1_open_time (filter (inside_window s e) sent)"
  have "c \<in> set sent \<Longrightarrow> m1_symbol c = py_upper symb" for c
  proof -
    assume "c \<in> set sent"
    then have "Inr c \<in> set (map (normalize_kline (py_upper symb)) (br_list response))" unfolding assms(5) by simp
    then show ?thesis using normalize_kline_fields(1) by fastforce
  qed
  then have "list_all (\<lambda>c. m1_symbol c = py_upper symb) cs" by (simp add: cs_def list_all_iff)
  moreover have sorted: "sorted (map m1_open_time cs)" by (simp add: cs_def)
  moreover have sent: "mset cs = mset (filter (inside_window s e) sent)" by (simp add: cs_def)
  moreover have "validate_contiguous cs s e = Inr () \<longleftrightarrow> mset (map m1_open_time cs) = mset (minute_grid s (nat ((e - s) div one_minute + 1)))"
    using validate_contiguous_ok [OF assms(8)] sorted_mset_eq [OF sorted grid_in_order] by simp
  moreover have "mset (map m1_open_time cs) = mset (map m1_open_time (filter (inside_window s e) sent))"
    unfolding mset_map sent ..
  moreover have "fst (get_klines ex symb (Aware s) (Aware e) limit cl) = Inr cs"
    unfolding cs_def by (rule get_klines_answers [OF assms(1-7)])
  ultimately show ?thesis by auto
qed

definition sample_klines_response :: kline_response where
  "sample_klines_response = \<lparr>br_ret_code = 0, br_ret_msg = ''OK'', br_category = ''linear'',
     br_list = [[''120000'', ''3'', ''3'', ''2'', ''3'', ''1'', ''3''], [''60000'', ''1'', ''2'', ''1'', ''1'', ''1'', ''1''],
       [''0'', ''1'', ''2'', ''1'', ''1'', ''1'', ''1'']], br_kline_symbol = ''BTCUSDT''\<rparr>"

definition sample_kline_answer :: "nat \<Rightarrow> kline_response option exchange" where
  "sample_kline_answer i = sample_exchange (Answer 200 no_headers (Json_Object (Some 0) (Some sample_klines_response)))"

lemma sample_reads:
  "read_decimal ''1'' = Some (Finite 1)" "read_decimal ''2'' = Some (Finite 2)" "read_decimal ''3'' = Some (Finite 3)"
  by code_simp+

lemma sample_minutes: "py_int ''0'' = Inr 0" "py_int ''60000'' = Inr 60000" "py_int ''120000'' = Inr 120000"
proof -
  have digits: "char_of (48 :: nat) = CHR ''0''" "char_of (49 :: nat) = CHR ''1''" "char_of (50 :: nat) = CHR ''2''"
      "char_of (54 :: nat) = CHR ''6''" by code_simp+
  have "show_int 0 = ''0''" "show_int 60000 = ''60000''" "show_int 120000 = ''120000''"
    by (simp_all add: show_int_def show_nat.simps digits)
  then show "py_int ''0'' = Inr 0" "py_int ''60000'' = Inr 60000" "py_int ''120000'' = Inr 120000"
    using read_int_show [of 0] read_int_show [of 60000] read_int_show [of 120000] by (simp_all add: py_int_def)
qed

lemma backfill_accepts_complete_answers_witness:
  "\<exists>cs. fst (get_klines sample_kline_answer ''btcusdt'' (Aware (minutes 1)) (Aware (minutes 2)) 1000 sample_client) = Inr cs \<and>
     mset (map m1_open_time cs) = {#minutes 1, minutes 2#} \<and> validate_contiguous cs (minutes 1) (minutes 2) = Inr ()"
proof -
  have f: "fst (fetch ''/v5/market/kline'' sample_kline_answer sample_client) = Inr (Some sample_klines_response)"
    by (simp add: fetch_def get_request_def sample_kline_answer_def sample_exchange_def sample_client_def get_from.simps
        refused_def ret_code_of_def wait_for_schedule_def split_beta)
  have upper: "py_upper ''btcusdt'' = ''BTCUSDT''" by code_simp
  have "\<exists>c2 c1 c0. map (normalize_kline (py_upper ''btcusdt'')) (br_list sample_klines_response) = map Inr [c2, c1, c0] \<and>
      map m1_open_time [c2, c1, c0] = [120000000, 60000000, 0]"
    by (simp add: upper sample_klines_response_def normalize_kline_def decimals_def decimal_of_def finite_number_def sample_reads sample_minutes)
  then obtain c2 c1 c0 where sent: "map (normalize_kline (py_upper ''btcusdt'')) (br_list sample_klines_response) = map Inr [c2, c1, c0]"
      and times: "map m1_open_time [c2, c1, c0] = [120000000, 60000000, 0]"
    by (elim exE conjE) (rule that)
  then have cs: "m1_open_time c2 = minutes 2" "m1_open_time c1 = minutes 1" "m1_open_time c0 = minutes 0"
    by (simp_all add: minutes_def)
  then have window: "filter (inside_window (minutes 1) (minutes 2)) [c2, c1, c0] = [c2, c1]"
    by (simp add: inside_window_def epoch_millis_def minutes_def)
  have grid: "minute_grid (minutes 1) (nat ((minutes 2 - minutes 1) div one_minute + 1)) = [minutes 1, minutes 2]" by code_simp
  have head: "br_ret_code sample_klines_response = 0" "br_category sample_klines_response = ''linear''"
      "br_kline_symbol sample_klines_response = py_upper ''btcusdt''" "(1::int) \<le> 1000" "(1000::int) \<le> 1000" "minutes 1 \<le> minutes 2"
    by (simp_all add: sample_klines_response_def upper)
  from backfill_accepts_complete_answers [OF f head(1-3) sent head(4-6), unfolded window grid]
  obtain cs where "fst (get_klines sample_kline_answer ''btcusdt'' (Aware (minutes 1)) (Aware (minutes 2)) 1000 sample_client) = Inr cs"
      "mset cs = mset [c2, c1]" "validate_contiguous cs (minutes 1) (minutes 2) = Inr ()"
    using cs by (auto simp: add_mset_commute)
  then show ?thesis using cs by (intro exI [of _ cs]) (simp add: add_mset_commute)
qed

section \<open>Instruments and trades\<close>

lemma traverse_map_Inr: "traverse f xs = Inr ys \<longleftrightarrow> map f xs = map Inr ys"
proof (induction xs arbitrary: ys)
  case (Cons x xs)
  then show ?case by (cases ys) auto
qed auto

text \<open>The pages of an honest exchange: each is answered for the cursor of the one before, the last one gives none.\<close>

definition answers_pages ::
  "(nat \<Rightarrow> string \<Rightarrow> nat \<Rightarrow> instrument_response option exchange) \<Rightarrow> instrument_response list \<Rightarrow> bool" where
  "answers_pages ex ps \<longleftrightarrow> ps \<noteq> [] \<and> br_next_page_cursor (last ps) = [] \<and>
     (\<forall>i < length ps. (i + 1 < length ps \<longrightarrow> br_next_page_cursor (ps ! i) \<noteq> []) \<and>
        br_ret_code (ps ! i) = 0 \<and> br_category (ps ! i) = ''linear'' \<and>
        (\<forall>cl. fst (fetch ''/v5/market/instruments-info'' (ex i (if i = 0 then [] else br_next_page_cursor (ps ! (i - 1)))) cl) =
           Inr (Some (ps ! i))))"

lemma list_pages_from:
  assumes ps: "answers_pages ex ps" and items: "traverse normalize_instrument (filter is_usdt_perpetual (concat (map br_list (drop i ps)))) = Inr items"
    and i: "i < length ps"
  shows "\<exists>cl'. list_pages ex i (if i = 0 then [] else br_next_page_cursor (ps ! (i - 1))) acc cl = Some (Inr (acc @ items), cl')"
  using items i
proof (induction "length ps - i" arbitrary: i items acc cl rule: less_induct)
  case less
  let ?cursor = "if i = 0 then [] else br_next_page_cursor (ps ! (i - 1))" and ?p = "ps ! i"
  have page: "br_ret_code ?p = 0" "br_category ?p = ''linear''" "fst (fetch ''/v5/market/instruments-info'' (ex i ?cursor) cl) = Inr (Some ?p)"
    using ps less.prems(2) by (auto simp: answers_pages_def)
  have split: "drop i ps = ?p # drop (Suc i) ps" using less.prems(2) by (simp add: Cons_nth_drop_Suc)
  obtain here there where h: "map normalize_instrument (filter is_usdt_perpetual (br_list ?p)) = map Inr here"
      "map normalize_instrument (filter is_usdt_perpetual (concat (map br_list (drop (Suc i) ps)))) = map Inr there" "items = here @ there"
    using less.prems(1) by (auto simp: traverse_map_Inr split map_eq_append_conv append_eq_map_conv)
  obtain cl1 where fetched: "fetch ''/v5/market/instruments-info'' (ex i ?cursor) cl = (Inr (Some ?p), cl1)" using page(3) by (metis prod.collapse)
  have step: "list_pages ex i ?cursor acc cl = (if br_next_page_cursor ?p = [] then Some (Inr (acc @ here), cl1)
      else list_pages ex (i + 1) (br_next_page_cursor ?p) (acc @ here) cl1)"
    using h(1) page(1,2) by (subst list_pages.simps) (simp add: fetched checked_def validated_def traverse_map_Inr [symmetric])
  show ?case
  proof (cases "i + 1 < length ps")
    case True
    then have more: "br_next_page_cursor ?p \<noteq> []" using ps by (auto simp: answers_pages_def)
    have "\<exists>cl'. list_pages ex (i + 1) (if i + 1 = 0 then [] else br_next_page_cursor (ps ! (i + 1 - 1))) (acc @ here) cl1 =
        Some (Inr ((acc @ here) @ there), cl')"
      using True h(2) by (intro less.hyps) (auto simp: traverse_map_Inr)
    then show ?thesis using more by (simp add: step h(3))
  next
    case False
    then have "i = length ps - 1" "drop (Suc i) ps = []" "ps \<noteq> []" using less.prems(2) by auto
    then have "?p = last ps" "drop (Suc i) ps = []" by (simp_all add: last_conv_nth)
    then show ?thesis using ps h(2,3) by (simp add: step answers_pages_def)
  qed
qed

text \<open>C35: The instruments are complete. When the exchange ends its pages and every perpetual contract in USDT it lists has
  numbers for its filters, the client returns, and what it returns are the normalised contracts of all pages, each as often
  as it is listed, in the order of their symbols.\<close>

theorem instruments_are_complete:
  assumes "answers_pages ex ps" "\<forall>i \<in> set (filter is_usdt_perpetual (concat (map br_list ps))). returns (normalize_instrument i)"
  shows "\<exists>found cl'. list_usdt_perpetual_instruments ex cl = Some (Inr found, cl') \<and> sorted (map iv_symbol found) \<and>
    mset (map Inr found) = mset (map normalize_instrument (filter is_usdt_perpetual (concat (map br_list ps))))"
proof -
  obtain items where items: "traverse normalize_instrument (filter is_usdt_perpetual (concat (map br_list ps))) = Inr items"
    using traverse_total [of "filter is_usdt_perpetual (concat (map br_list ps))" normalize_instrument] assms(2) by (auto simp: returns_iff)
  have "0 < length ps" using assms(1) by (simp add: answers_pages_def)
  with list_pages_from [OF assms(1), of 0 items "[]" cl] items
  obtain cl' where "list_pages ex 0 [] [] cl = Some (Inr items, cl')" by auto
  moreover have "mset (map Inr (sort_key iv_symbol items)) = mset (map normalize_instrument (filter is_usdt_perpetual (concat (map br_list ps))))"
    using items by (metis mset_map mset_sort traverse_map_Inr)
  ultimately show ?thesis by (auto simp: list_usdt_perpetual_instruments_def)
qed

definition sample_listed :: "string \<Rightarrow> bybit_instrument" where
  "sample_listed s = \<lparr>bi_symbol = s, bi_contract_type = ''LinearPerpetual'', bi_status = ''Trading'', bi_base_coin = s, bi_quote_coin = ''USDT'',
     bi_launch_time = ''60000'', bi_min_leverage = ''1'', bi_max_leverage = ''3'', bi_leverage_step = ''1'', bi_min_price = ''1'', bi_max_price = ''3'',
     bi_tick_size = ''1'', bi_min_notional_value = ''1'', bi_max_order_qty = ''3'', bi_max_mkt_order_qty = ''3'', bi_min_order_qty = ''1'',
     bi_qty_step = ''1'', bi_settle_coin = ''USDT'', bi_funding_interval = 480\<rparr>"

definition sample_page :: "string \<Rightarrow> string list \<Rightarrow> instrument_response" where
  "sample_page cursor symbols = \<lparr>br_ret_code = 0, br_ret_msg = ''OK'', br_category = ''linear'', br_list = map sample_listed symbols,
     br_next_page_cursor = cursor\<rparr>"

definition sample_pages :: "instrument_response list" where
  "sample_pages = [sample_page ''next'' [''SOLUSDT''], sample_page [] [''BTCUSDT'']]"

definition sample_paging :: "nat \<Rightarrow> string \<Rightarrow> nat \<Rightarrow> instrument_response option exchange" where
  "sample_paging page cursor attempt = sample_exchange (Answer 200 no_headers (Json_Object (Some 0) (Some (sample_pages ! page))))"

lemma sample_fetch: "fst (fetch url (\<lambda>i. sample_exchange (Answer 200 no_headers (Json_Object (Some 0) c))) cl) = Inr c"
  by (simp add: fetch_def get_request_def sample_exchange_def get_from.simps refused_def ret_code_of_def split_beta)

lemma instruments_are_complete_witness:
  "\<exists>found cl'. list_usdt_perpetual_instruments sample_paging sample_client = Some (Inr found, cl') \<and> map iv_symbol found = [''BTCUSDT'', ''SOLUSDT'']"
proof -
  have pages: "answers_pages sample_paging sample_pages"
    unfolding answers_pages_def
  proof (intro conjI allI impI)
    show "fst (fetch ''/v5/market/instruments-info'' (sample_paging i (if i = 0 then [] else br_next_page_cursor (sample_pages ! (i - 1)))) cl) =
        Inr (Some (sample_pages ! i))" for i cl
      unfolding sample_paging_def by (rule sample_fetch)
  qed (auto simp: sample_pages_def sample_page_def less_Suc_eq)
  have listed: "\<exists>x. normalize_instrument (sample_listed s) = Inr x \<and> iv_symbol x = s" for s
    by (simp add: normalize_instrument_def sample_listed_def timestamp_ms_to_datetime_def decimals_def decimal_of_def finite_number_def sample_reads sample_minutes)
  have all: "filter is_usdt_perpetual (concat (map br_list sample_pages)) = [sample_listed ''SOLUSDT'', sample_listed ''BTCUSDT'']"
    by (simp add: sample_pages_def sample_page_def is_usdt_perpetual_def sample_listed_def)
  obtain found cl' where f: "list_usdt_perpetual_instruments sample_paging sample_client = Some (Inr found, cl')" "sorted (map iv_symbol found)"
      "mset (map Inr found) = mset (map normalize_instrument [sample_listed ''SOLUSDT'', sample_listed ''BTCUSDT''])"
    using instruments_are_complete [OF pages, of sample_client, unfolded all] listed [of "''SOLUSDT''"] listed [of "''BTCUSDT''"]
    by (metis returns_iff list.set_cases set_ConsD empty_iff list.set(1))
  have "mset (map iv_symbol found) = image_mset (\<lambda>r. iv_symbol (projr r)) (mset (map Inr found :: instrument res list))"
    by (simp add: image_mset.compositionality comp_def)
  also have "\<dots> = {#''SOLUSDT'', ''BTCUSDT''#}" using listed [of "''SOLUSDT''"] listed [of "''BTCUSDT''"] unfolding f(3) by auto
  finally have "mset (map iv_symbol found) = mset [''BTCUSDT'', ''SOLUSDT'']" by simp
  moreover have "sorted [''BTCUSDT'', ''SOLUSDT'']" by code_simp
  ultimately have "map iv_symbol found = [''BTCUSDT'', ''SOLUSDT'']" using f(2) sorted_mset_eq by blast
  with f(1) show ?thesis by auto
qed

text \<open>The trades of the REST history are those of the symbol, in the order the coverage merges them in.\<close>

lemma recent_trades_ordered:
  assumes "get_recent_public_trades ex symb limit cl = (Inr ts, cl')"
  shows "sorted (map trade_key ts)" "\<forall>t \<in> set ts. pt_symbol t = py_upper symb" "1 \<le> limit" "limit \<le> 1000"
proof -
  obtain response :: "bybit_trade bybit_response" and ts0 where t: "traverse normalize_trade (filter (\<lambda>t. py_upper (by_symbol t) = py_upper symb) (br_list response)) = Inr ts0"
      "ts = sort_key trade_key ts0" "1 \<le> limit" "limit \<le> 1000"
    using assms by (auto simp: get_recent_public_trades_def split: if_splits prod.splits)
  show "sorted (map trade_key ts)" "1 \<le> limit" "limit \<le> 1000" using t(2-4) by simp_all
  show "\<forall>t \<in> set ts. pt_symbol t = py_upper symb"
    using traverse_set [OF t(1)] t(2) by (fastforce simp: normalize_trade_def)
qed

end
