(* ===== verification/Bybit_Streams.thy ===== *)
theory Bybit_Streams
  imports Bybit_Client
begin

text \<open>
  \<open>src/src/crypto_smc/providers/bybit/websocket.py\<close> (\<open>BybitKlineWebSocketManager\<close>) and \<open>trade_websocket.py\<close>
  (\<open>BybitPublicTradeWebSocketManager\<close>): what the tasks of the streams put into their queues, connection after connection.
  A connection is an input: it is refused, or it delivers messages until it ends. A message is the JSON the exchange sent,
  with the results of its validation by the schemas; \<open>describe\<close> is the text an exception prints in an event. The queues,
  heartbeats, timeouts of the waiting client and metrics are not modelled; an event carries no time of its reception.
\<close>

section \<open>Messages\<close>

record ws_kline =
  wk_start :: int
  wk_interval :: string
  wk_open :: string
  wk_close :: string
  wk_high :: string
  wk_low :: string
  wk_volume :: string
  wk_turnover :: string
  wk_confirm :: bool

record ws_trade =
  wt_T :: int
  wt_s :: string
  wt_S :: side
  wt_v :: string
  wt_p :: string
  wt_i :: string
  wt_BT :: bool
  wt_RPI :: bool
  wt_seq :: int

record 'd ws_message =
  wm_topic :: string
  wm_data :: "'d list"

text \<open>An object: \<open>op\<close>, whether \<open>success\<close> is \<open>True\<close>, \<open>ret_msg\<close> and \<open>topic\<close> where they are texts, and what the schemas make of it.\<close>

record ws_payload =
  wp_op :: "string option"
  wp_success :: bool
  wp_ret_msg :: string
  wp_topic :: "string option"
  wp_klines :: "ws_kline ws_message option"
  wp_trades :: "ws_trade ws_message option"

datatype ws_raw = Invalid_Json | Not_An_Object | Message ws_payload

datatype connection = Refused py_exn | Opened "ws_raw list" "py_exn option"

text \<open>\<open>_decode\<close> and \<open>BybitWebSocketError\<close>.\<close>

definition decode :: "string \<Rightarrow> ws_raw \<Rightarrow> ws_payload res" where
  "decode source raw = (case raw of
     Invalid_Json \<Rightarrow> Inl (RuntimeError ''Bybit returned invalid WebSocket JSON'')
   | Not_An_Object \<Rightarrow> Inl (RuntimeError (source @ '' payload is not an object''))
   | Message p \<Rightarrow> Inr p)"

definition subscription_rejected :: "string \<Rightarrow> ws_payload \<Rightarrow> py_exn" where
  "subscription_rejected source p = RuntimeError (source @ '' subscription rejected: '' @ wp_ret_msg p)"

text \<open>How the loop over the messages ends: a connection that is closed in order is an error of the manager.\<close>

definition ending_of :: "string \<Rightarrow> py_exn option \<Rightarrow> py_exn" where
  "ending_of msg e = (case e of None \<Rightarrow> RuntimeError msg | Some x \<Rightarrow> x)"

text \<open>\<open>_reconnect_delay\<close>: \<open>2 ** attempt\<close> is converted to a float, which raises \<open>OverflowError\<close> from \<open>2 ** 1024\<close> on.\<close>

record reconnect_config =
  rk_base_seconds :: rat
  rk_max_seconds :: rat

definition reconnect_delay :: "reconnect_config \<Rightarrow> nat \<Rightarrow> rat \<Rightarrow> rat option" where
  "reconnect_delay k attempt jitter =
     (if attempt \<ge> 1024 then None
      else let exponential = min (rk_max_seconds k) (rk_base_seconds k * 2 ^ attempt) in Some (exponential + jitter * (exponential / 4)))"

section \<open>websocket.py\<close>

fun chunks :: "nat \<Rightarrow> 'a list \<Rightarrow> 'a list list" where
  "chunks n [] = []"
| "chunks 0 (x # xs) = []"
| "chunks (Suc n) (x # xs) = (x # take n xs) # chunks (Suc n) (drop n xs)"

definition shard_symbols :: "string list \<Rightarrow> int \<Rightarrow> string list list res" where
  "shard_symbols symbols shard_size =
     (if shard_size = 0 then Inl (ValueError ''range() arg 3 must not be zero'')
      else Inr (chunks (nat shard_size) (sort (remdups (map py_upper symbols)))))"

definition parse_kline :: "string \<Rightarrow> ws_kline \<Rightarrow> candle_1m res" where
  "parse_kline symb w =
     rbind (decimals [wk_open w, wk_high w, wk_low w, wk_close w, wk_volume w, wk_turnover w]) (\<lambda>q.
     Inr \<lparr>m1_symbol = symb, m1_open_time = wk_start w * 1000, m1_open = q ! 0, m1_high = q ! 1, m1_low = q ! 2, m1_close = q ! 3,
       m1_volume = q ! 4, m1_turnover = q ! 5\<rparr>)"

definition has_topic :: "string \<Rightarrow> ws_payload \<Rightarrow> bool" where
  "has_topic start p \<longleftrightarrow> (case wp_topic p of None \<Rightarrow> False | Some topic \<Rightarrow> starts_with start topic)"

definition parse_closed_1m_candles :: "ws_payload \<Rightarrow> candle_1m list res" where
  "parse_closed_1m_candles p =
     (if \<not> has_topic ''kline.1.'' p then Inr []
      else case wp_klines p of
        None \<Rightarrow> Inl (RuntimeError ''Invalid Bybit kline WebSocket payload'')
      | Some m \<Rightarrow> traverse (parse_kline (py_upper (drop (length ''kline.1.'') (wm_topic m))))
          (filter (\<lambda>w. wk_confirm w \<and> wk_interval w = ''1'') (wm_data m)))"

definition handle_kline_payload :: "ws_payload \<Rightarrow> market_event list res" where
  "handle_kline_payload p =
     (case parse_closed_1m_candles p of
        Inl (RuntimeError _) \<Rightarrow> Inr []
      | Inl e \<Rightarrow> Inl e
      | Inr cs \<Rightarrow> Inr (map Closed_Candle cs))"

text \<open>\<open>_subscribe\<close>: the events until the confirmation, and the messages after it or the exception.\<close>

fun kline_subscribe :: "ws_raw list \<Rightarrow> py_exn option \<Rightarrow> market_event list \<times> ws_raw list res" where
  "kline_subscribe [] ending = ([], Inl (ending_of ''ConnectionClosed'' ending))"
| "kline_subscribe (raw # later) ending =
     (case decode ''Bybit WebSocket'' raw of
        Inl e \<Rightarrow> ([], Inl e)
      | Inr p \<Rightarrow>
          if wp_op p = Some ''subscribe'' then ([], if wp_success p then Inr later else Inl (subscription_rejected ''Bybit'' p))
          else (case handle_kline_payload p of
            Inl e \<Rightarrow> ([], Inl e)
          | Inr es \<Rightarrow> let (fs, r) = kline_subscribe later ending in (es @ fs, r)))"

fun kline_receive :: "ws_raw list \<Rightarrow> py_exn option \<Rightarrow> market_event list \<times> py_exn" where
  "kline_receive [] ending = ([], ending_of ''Bybit WebSocket connection closed'' ending)"
| "kline_receive (raw # later) ending =
     (case rbind (decode ''Bybit WebSocket'' raw) handle_kline_payload of
        Inl e \<Rightarrow> ([], e)
      | Inr es \<Rightarrow> let (fs, e) = kline_receive later ending in (es @ fs, e))"

text \<open>The state of \<open>_run_shard\<close> with its readiness event, the delays it slept, and whether the task has ended.\<close>

record shard =
  sh_connected_once :: bool
  sh_disconnect_notified :: bool
  sh_attempt :: nat
  sh_ready :: bool
  sh_delays :: "rat list"
  sh_ended :: bool

definition fresh_shard :: shard where
  "fresh_shard = \<lparr>sh_connected_once = False, sh_disconnect_notified = False, sh_attempt = 0, sh_ready = False, sh_delays = [], sh_ended = False\<rparr>"

record stream_env =
  se_reconnect :: reconnect_config
  se_jitter :: "nat \<Rightarrow> rat"
  se_describe :: "py_exn \<Rightarrow> string"

text \<open>\<open>except Exception\<close>: an exception of \<open>_reconnect_delay\<close> ends the task.\<close>

definition shard_failure :: "stream_env \<Rightarrow> string list \<Rightarrow> py_exn \<Rightarrow> shard \<Rightarrow> market_event list \<times> shard" where
  "shard_failure env symbols e s =
     (let notify = (sh_connected_once s \<and> \<not> sh_disconnect_notified s);
          s = (if notify then s\<lparr>sh_disconnect_notified := True\<rparr> else s)
      in (if notify then [Shard_Disconnected symbols (se_describe env e)] else [],
          case reconnect_delay (se_reconnect env) (sh_attempt s) (se_jitter env (sh_attempt s)) of
            None \<Rightarrow> s\<lparr>sh_ended := True\<rparr>
          | Some delay \<Rightarrow> s\<lparr>sh_attempt := sh_attempt s + 1, sh_delays := sh_delays s @ [delay]\<rparr>))"

definition shard_connection :: "stream_env \<Rightarrow> string list \<Rightarrow> connection \<Rightarrow> shard \<Rightarrow> market_event list \<times> shard" where
  "shard_connection env symbols c s =
     (if sh_ended s then ([], s)
      else case c of
        Refused e \<Rightarrow> shard_failure env symbols e s
      | Opened messages ending \<Rightarrow>
          (case kline_subscribe messages ending of
             (es, Inl e) \<Rightarrow> let (fs, s) = shard_failure env symbols e s in (es @ fs, s)
           | (es, Inr later) \<Rightarrow>
               let again = (if sh_connected_once s then [Shard_Reconnected symbols] else []);
                   s = s\<lparr>sh_connected_once := True, sh_ready := True, sh_disconnect_notified := False, sh_attempt := 0\<rparr>;
                   (fs, e) = kline_receive later ending;
                   (gs, s) = shard_failure env symbols e s
               in (es @ again @ fs @ gs, s)))"

fun run_shard :: "stream_env \<Rightarrow> string list \<Rightarrow> connection list \<Rightarrow> shard \<Rightarrow> market_event list \<times> shard" where
  "run_shard env symbols [] s = ([], s)"
| "run_shard env symbols (c # cs) s =
     (let (es, s) = shard_connection env symbols c s; (fs, s) = run_shard env symbols cs s in (es @ fs, s))"

section \<open>trade_websocket.py\<close>

datatype trade_stream_event =
    Public_Trade public_trade
  | Stream_Ready string bool
  | Stream_Disconnected string string

definition parse_trade :: "ws_trade \<Rightarrow> public_trade res" where
  "parse_trade w =
     rbind (decimals [wt_p w, wt_v w]) (\<lambda>q.
     Inr \<lparr>pt_trade_id = wt_i w, pt_symbol = py_upper (wt_s w), pt_price = q ! 0, pt_size = q ! 1, pt_side = wt_S w,
       pt_executed_at = wt_T w * 1000, pt_sequence = wt_seq w, pt_is_block_trade = wt_BT w, pt_is_rpi_trade = wt_RPI w\<rparr>)"

definition parse_public_trades :: "ws_payload \<Rightarrow> public_trade list res" where
  "parse_public_trades p =
     (if \<not> has_topic ''publicTrade.'' p then Inr []
      else case wp_trades p of
        None \<Rightarrow> Inl (RuntimeError ''Invalid Bybit public trade payload'')
      | Some m \<Rightarrow> rmap (sort_key trade_key) (traverse parse_trade
          (filter (\<lambda>w. py_upper (wt_s w) = py_upper (drop (length ''publicTrade.'') (wm_topic m))) (wm_data m))))"

definition handle_trade_payload :: "ws_payload \<Rightarrow> public_trade list res" where
  "handle_trade_payload p = (case parse_public_trades p of Inl (RuntimeError _) \<Rightarrow> Inr [] | r \<Rightarrow> r)"

text \<open>A \<open>deque\<close> of a maximal length.\<close>

definition push_all :: "nat \<Rightarrow> 'a list \<Rightarrow> 'a list \<Rightarrow> 'a list" where
  "push_all limit buffer new = foldl (\<lambda>b t. drop (length b + 1 - limit) (b @ [t])) buffer new"

text \<open>\<open>_subscribe\<close>: the trades until the confirmation, and whether there were any and the messages after it, or the exception.\<close>

fun trade_subscribe :: "ws_raw list \<Rightarrow> py_exn option \<Rightarrow> public_trade list \<times> (bool \<times> ws_raw list) res" where
  "trade_subscribe [] ending = ([], Inl (ending_of ''ConnectionClosed'' ending))"
| "trade_subscribe (raw # later) ending =
     (case decode ''Bybit public trade'' raw of
        Inl e \<Rightarrow> ([], Inl e)
      | Inr p \<Rightarrow>
          if wp_op p = Some ''subscribe'' then ([], if wp_success p then Inr (False, later) else Inl (subscription_rejected ''Bybit public trade'' p))
          else (case handle_trade_payload p of
            Inl e \<Rightarrow> ([], Inl e)
          | Inr ts \<Rightarrow> let (us, r) = trade_subscribe later ending in (ts @ us, rmap (\<lambda>(first, rest). (ts \<noteq> [] \<or> first, rest)) r)))"

text \<open>\<open>_receive\<close>: the events, with the readiness after the first trades, and the exception it ends with.\<close>

fun trade_receive :: "string \<Rightarrow> bool \<Rightarrow> bool \<Rightarrow> ws_raw list \<Rightarrow> py_exn option \<Rightarrow> trade_stream_event list \<times> py_exn" where
  "trade_receive symb reconnected ready_emitted [] ending = ([], ending_of ''Bybit public trade stream closed'' ending)"
| "trade_receive symb reconnected ready_emitted (raw # later) ending =
     (case rbind (decode ''Bybit public trade'' raw) handle_trade_payload of
        Inl e \<Rightarrow> ([], e)
      | Inr ts \<Rightarrow>
          let now_ready = (ts \<noteq> [] \<and> \<not> ready_emitted);
              (fs, e) = trade_receive symb reconnected (ready_emitted \<or> now_ready) later ending
          in (map Public_Trade ts @ (if now_ready then [Stream_Ready symb reconnected] else []) @ fs, e))"

record trade_stream =
  st_buffer :: "public_trade list"
  st_ready :: bool
  st_connected_once :: bool
  st_attempt :: nat
  st_ended :: bool

definition fresh_stream :: trade_stream where
  "fresh_stream = \<lparr>st_buffer = [], st_ready = False, st_connected_once = False, st_attempt = 0, st_ended = False\<rparr>"

definition trades_of :: "trade_stream_event list \<Rightarrow> public_trade list" where
  "trades_of es = List.map_filter (\<lambda>e. case e of Public_Trade t \<Rightarrow> Some t | _ \<Rightarrow> None) es"

definition stream_failure :: "stream_env \<Rightarrow> string \<Rightarrow> py_exn \<Rightarrow> trade_stream \<Rightarrow> trade_stream_event list \<times> trade_stream" where
  "stream_failure env symb e s =
     ([Stream_Disconnected symb (se_describe env e)],
      case reconnect_delay (se_reconnect env) (st_attempt s) (se_jitter env (st_attempt s)) of
        None \<Rightarrow> s\<lparr>st_ready := False, st_ended := True\<rparr>
      | Some delay \<Rightarrow> s\<lparr>st_ready := False, st_attempt := st_attempt s + 1\<rparr>)"

text \<open>One round of \<open>_run_symbol\<close>; every trade goes to the buffer before its event.\<close>

definition trade_connection :: "stream_env \<Rightarrow> nat \<Rightarrow> string \<Rightarrow> connection \<Rightarrow> trade_stream \<Rightarrow> trade_stream_event list \<times> trade_stream" where
  "trade_connection env buffer_size symb c s =
     (if st_ended s then ([], s)
      else case c of
        Refused e \<Rightarrow> stream_failure env symb e s
      | Opened messages ending \<Rightarrow>
          (case trade_subscribe messages ending of
             (ts, Inl e) \<Rightarrow>
               let (fs, s) = stream_failure env symb e (s\<lparr>st_buffer := push_all buffer_size (st_buffer s) ts\<rparr>) in (map Public_Trade ts @ fs, s)
           | (ts, Inr (first_trade_buffered, later)) \<Rightarrow>
               let (es, e) = trade_receive symb (st_connected_once s) first_trade_buffered later ending;
                   s' = s\<lparr>st_buffer := push_all buffer_size (push_all buffer_size (st_buffer s) ts) (trades_of es),
                     st_connected_once := True, st_attempt := 0\<rparr>;
                   (gs, s') = stream_failure env symb e s'
               in (map Public_Trade ts @ (if first_trade_buffered then [Stream_Ready symb (st_connected_once s)] else []) @ es @ gs, s')))"

definition buffered_trades :: "trade_stream \<Rightarrow> instant \<Rightarrow> public_trade list" where
  "buffered_trades s since = filter (\<lambda>t. pt_executed_at t \<ge> since) (st_buffer s)"

text \<open>A connection up to a moment: what it has delivered when the client looks at the buffer.\<close>

definition stream_so_far :: "nat \<Rightarrow> string \<Rightarrow> ws_raw list \<Rightarrow> trade_stream \<Rightarrow> trade_stream_event list \<times> trade_stream" where
  "stream_so_far buffer_size symb messages s =
     (case trade_subscribe messages None of
        (ts, Inl _) \<Rightarrow> (map Public_Trade ts, s\<lparr>st_buffer := push_all buffer_size (st_buffer s) ts\<rparr>)
      | (ts, Inr (first, later)) \<Rightarrow>
          let (es, _) = trade_receive symb (st_connected_once s) first later None;
              fs = (if first then [Stream_Ready symb (st_connected_once s)] else []) @ es
          in (map Public_Trade ts @ fs, s\<lparr>st_buffer := push_all buffer_size (push_all buffer_size (st_buffer s) ts) (trades_of es),
               st_ready := (\<exists>e \<in> set fs. case e of Stream_Ready _ _ \<Rightarrow> True | _ \<Rightarrow> False), st_connected_once := True, st_attempt := 0\<rparr>))"

fun run_symbol :: "stream_env \<Rightarrow> nat \<Rightarrow> string \<Rightarrow> connection list \<Rightarrow> trade_stream \<Rightarrow> trade_stream_event list \<times> trade_stream" where
  "run_symbol env buffer_size symb [] s = ([], s)"
| "run_symbol env buffer_size symb (c # cs) s =
     (let (es, s) = trade_connection env buffer_size symb c s; (fs, s) = run_symbol env buffer_size symb cs s in (es @ fs, s))"

section \<open>Shards\<close>

lemma concat_chunks: "0 < n \<Longrightarrow> concat (chunks n xs) = xs"
  by (induction n xs rule: chunks.induct) simp_all

lemma chunk_sizes: "0 < n \<Longrightarrow> c \<in> set (chunks n xs) \<Longrightarrow> c \<noteq> [] \<and> length c \<le> n"
  by (induction n xs rule: chunks.induct) auto

text \<open>The notices of a shard, without the candles: a reconnection or a disconnection.\<close>

datatype notice_kind = Down | Up

fun notice_of :: "market_event \<Rightarrow> notice_kind option" where
  "notice_of (Closed_Candle _) = None"
| "notice_of (Shard_Disconnected _ _) = Some Down"
| "notice_of (Shard_Reconnected _) = Some Up"

definition notices :: "market_event list \<Rightarrow> notice_kind list" where
  "notices es = List.map_filter notice_of es"

lemma notices_simps [simp]:
  "notices [] = []" "notices (es @ fs) = notices es @ notices fs" "notices [Shard_Reconnected ss] = [Up]"
  "notices [Shard_Disconnected ss r] = [Down]" "notices (map Closed_Candle cs) = []"
  by (simp_all add: notices_def List.map_filter_def filter_empty_conv)

definition subscribed :: "connection \<Rightarrow> bool" where
  "subscribed c = (case c of Refused _ \<Rightarrow> False | Opened messages ending \<Rightarrow> returns (snd (kline_subscribe messages ending)))"

lemma handle_kline_quiet: "handle_kline_payload p = Inr es \<Longrightarrow> notices es = []"
  by (auto simp: handle_kline_payload_def split: sum.splits py_exn.splits)

lemma kline_subscribe_quiet: "notices (fst (kline_subscribe messages ending)) = []"
  by (induction messages ending rule: kline_subscribe.induct)
    (auto split: sum.splits prod.splits dest: handle_kline_quiet)

lemma kline_receive_quiet: "notices (fst (kline_receive messages ending)) = []"
  by (induction messages ending rule: kline_receive.induct)
    (auto split: sum.splits prod.splits dest: handle_kline_quiet)

lemma shard_failure_notices:
  assumes "shard_failure env symbols e s = (es, s')"
  shows "notices es = (if sh_connected_once s \<and> \<not> sh_disconnect_notified s then [Down] else [])"
    "sh_connected_once s' = sh_connected_once s" "sh_connected_once s \<Longrightarrow> sh_disconnect_notified s'"
  using assms by (auto simp: shard_failure_def Let_def split: option.splits if_splits)

lemma shard_connection_notices:
  assumes "shard_connection env symbols c s = (es, s')" "\<not> sh_ended s" "sh_connected_once s \<longrightarrow> sh_disconnect_notified s"
  shows "notices es = (if subscribed c then (if sh_connected_once s then [Up, Down] else [Down]) else [])"
    "sh_connected_once s' = (sh_connected_once s \<or> subscribed c)" "sh_connected_once s' \<longrightarrow> sh_disconnect_notified s'"
proof -
  have "notices es = (if subscribed c then (if sh_connected_once s then [Up, Down] else [Down]) else []) \<and>
      sh_connected_once s' = (sh_connected_once s \<or> subscribed c) \<and> (sh_connected_once s' \<longrightarrow> sh_disconnect_notified s')"
  proof (cases c)
    case (Refused e)
    then have "shard_failure env symbols e s = (es, s')" using assms(1,2) by (simp add: shard_connection_def)
    from shard_failure_notices [OF this] show ?thesis using assms(3) Refused by (auto simp: subscribed_def)
  next
    case (Opened messages ending)
    obtain es1 r where sub: "kline_subscribe messages ending = (es1, r)" by fastforce
    have quiet: "notices es1 = []" using kline_subscribe_quiet [of messages ending] sub by simp
    show ?thesis
    proof (cases r)
      case (Inl e)
      obtain fs where f: "shard_failure env symbols e s = (fs, s')" "es = es1 @ fs"
        using assms(1,2) Opened sub Inl by (auto simp: shard_connection_def split: prod.splits)
      from shard_failure_notices [OF f(1)] show ?thesis using assms(3) Opened sub Inl quiet by (auto simp: subscribed_def f(2))
    next
      case (Inr later)
      let ?s = "s\<lparr>sh_connected_once := True, sh_ready := True, sh_disconnect_notified := False, sh_attempt := 0\<rparr>"
      obtain fs e gs where f: "kline_receive later ending = (fs, e)" "shard_failure env symbols e ?s = (gs, s')"
          "es = es1 @ (if sh_connected_once s then [Shard_Reconnected symbols] else []) @ fs @ gs"
        using assms(1,2) Opened sub Inr by (auto simp: shard_connection_def Let_def split: prod.splits)
      have "notices fs = []" using kline_receive_quiet [of later ending] f(1) by simp
      with shard_failure_notices [OF f(2)] show ?thesis using Opened sub Inr quiet by (auto simp: subscribed_def f(3))
    qed
  qed
  then show "notices es = (if subscribed c then (if sh_connected_once s then [Up, Down] else [Down]) else [])"
    "sh_connected_once s' = (sh_connected_once s \<or> subscribed c)" "sh_connected_once s' \<longrightarrow> sh_disconnect_notified s'" by simp_all
qed

lemma ended_shard: "sh_ended s \<Longrightarrow> run_shard env symbols cs s = ([], s)"
  by (induction cs) (simp_all add: shard_connection_def)

lemma run_shard_notices:
  assumes "run_shard env symbols cs s = (es, s')" "\<not> sh_ended s'" "sh_connected_once s \<longrightarrow> sh_disconnect_notified s"
  shows "notices es = (if sh_connected_once s then concat (replicate (length (filter subscribed cs)) [Up, Down])
    else tl (concat (replicate (length (filter subscribed cs)) [Up, Down])))"
  using assms
proof (induction cs arbitrary: s es)
  case (Cons c cs)
  obtain es1 s1 where c: "shard_connection env symbols c s = (es1, s1)" by fastforce
  obtain es2 where cs: "run_shard env symbols cs s1 = (es2, s')" "es = es1 @ es2" using Cons.prems(1) c by (auto split: prod.splits)
  have alive: "\<not> sh_ended s" using Cons.prems(1,2) ended_shard [of s env symbols "c # cs"] by auto
  note n = shard_connection_notices [OF c alive Cons.prems(3)]
  from Cons.IH [OF cs(1) Cons.prems(2) n(3)] show ?case using n(1,2) by (auto simp: cs(2))
qed simp

lemma run_shard_append:
  "run_shard env symbols (cs @ ds) s =
     (let (es, s1) = run_shard env symbols cs s; (fs, s2) = run_shard env symbols ds s1 in (es @ fs, s2))"
  by (induction cs arbitrary: s) (simp_all add: split_beta Let_def)

lemma run_symbol_append:
  "run_symbol env n symb (cs @ ds) s =
     (let (es, s1) = run_symbol env n symb cs s; (fs, s2) = run_symbol env n symb ds s1 in (es @ fs, s2))"
  by (induction cs arbitrary: s) (simp_all add: split_beta Let_def)

lemma ended_symbol: "st_ended s \<Longrightarrow> run_symbol env n symb cs s = ([], s)"
  by (induction cs) (simp_all add: trade_connection_def)

lemma refused_shard:
  "sh_ended s \<or> 1024 < sh_attempt s + k \<and> 0 < k \<Longrightarrow> sh_ended (snd (run_shard env symbols (replicate k (Refused e)) s))"
proof (induction k arbitrary: s)
  case (Suc k)
  obtain es s1 where c: "shard_connection env symbols (Refused e) s = (es, s1)" by fastforce
  then have "sh_ended s1 \<or> 1024 < sh_attempt s1 + k \<and> 0 < k"
    using Suc.prems by (auto simp: shard_connection_def shard_failure_def reconnect_delay_def Let_def split: if_splits)
  then show ?case using Suc.IH c by (simp add: split_beta)
qed simp

lemma refused_symbol:
  "st_ended s \<or> 1024 < st_attempt s + k \<and> 0 < k \<Longrightarrow> st_ended (snd (run_symbol env n symb (replicate k (Refused e)) s))"
proof (induction k arbitrary: s)
  case (Suc k)
  obtain es s1 where c: "trade_connection env n symb (Refused e) s = (es, s1)" by fastforce
  then have "st_ended s1 \<or> 1024 < st_attempt s1 + k \<and> 0 < k"
    using Suc.prems by (auto simp: trade_connection_def stream_failure_def reconnect_delay_def Let_def split: if_splits)
  then show ?case using Suc.IH c by (simp add: split_beta)
qed simp

section \<open>Buffers\<close>

lemma push_all_append: "push_all n b (ts @ us) = push_all n (push_all n b ts) us"
  by (simp add: push_all_def)

lemma drop_then_push: "drop (length (drop (length xs - n) xs) + 1 - n) (drop (length xs - n) xs @ [t]) = drop (length xs + 1 - n) (xs @ [t])"
proof -
  have "drop (length xs - n) xs @ [t] = drop (length xs - n) (xs @ [t])" by simp
  then show ?thesis unfolding drop_drop by (cases "length xs < n") (simp_all add: drop_drop Suc_diff_le)
qed

lemma push_all_latest: "length b \<le> n \<Longrightarrow> push_all n b ts = drop (length b + length ts - n) (b @ ts)"
proof (induction ts rule: rev_induct)
  case (snoc t ts)
  then have "push_all n b ts = drop (length (b @ ts) - n) (b @ ts)" by simp
  then have "push_all n b (ts @ [t]) = drop (length (b @ ts) + 1 - n) ((b @ ts) @ [t])"
    unfolding push_all_append using drop_then_push [of "b @ ts" n t] by (simp only: push_all_def foldl.simps)
  then show ?case by simp
qed (simp add: push_all_def)

lemma trades_of_simps [simp]:
  "trades_of [] = []" "trades_of (es @ fs) = trades_of es @ trades_of fs" "trades_of (map Public_Trade ts) = ts"
  "trades_of (Public_Trade t # es) = t # trades_of es" "trades_of (Stream_Ready a b # es) = trades_of es"
  "trades_of (Stream_Disconnected a c # es) = trades_of es"
  by (simp_all add: trades_of_def List.map_filter_def comp_def)

text \<open>What a task receives: trades, and the readiness after the first of them.\<close>

lemma trade_receive_shape:
  assumes "trade_receive symb reconnected ready_emitted messages ending = (es, e)"
  shows "\<exists>ts us ready. es = map Public_Trade ts @ ready @ map Public_Trade us \<and>
    (if ready_emitted then ready = [] else ready = [] \<and> ts @ us = [] \<or> ready = [Stream_Ready symb reconnected] \<and> ts \<noteq> [])"
  using assms
proof (induction symb reconnected ready_emitted messages ending arbitrary: es rule: trade_receive.induct)
  case (2 symb reconnected ready_emitted raw later ending)
  show ?case
  proof (cases "rbind (decode ''Bybit public trade'' raw) handle_trade_payload")
    case (Inl x)
    then show ?thesis using 2(2) by auto
  next
    case (Inr new)
    let ?now = "new \<noteq> [] \<and> \<not> ready_emitted"
    obtain fs where f: "trade_receive symb reconnected (ready_emitted \<or> ?now) later ending = (fs, e)"
        "es = map Public_Trade new @ (if ?now then [Stream_Ready symb reconnected] else []) @ fs"
      using 2(2) Inr by (auto simp: Let_def split: prod.splits)
    obtain ts us ready where ih: "fs = map Public_Trade ts @ ready @ map Public_Trade us"
        "if ready_emitted \<or> ?now then ready = [] else ready = [] \<and> ts @ us = [] \<or> ready = [Stream_Ready symb reconnected] \<and> ts \<noteq> []"
      using 2(1) [OF Inr refl f(1)] by blast
    consider (quiet) "ready_emitted" | (first) "?now" | (waiting) "new = []" "\<not> ready_emitted" by blast
    then show ?thesis
    proof cases
      case quiet
      then have "es = map Public_Trade (new @ ts @ us) @ [] @ map Public_Trade []" using ih f(2) by simp
      then show ?thesis using quiet by (intro exI [of _ "new @ ts @ us"] exI [of _ "[]"]) simp
    next
      case first
      then have "es = map Public_Trade new @ [Stream_Ready symb reconnected] @ map Public_Trade (ts @ us)" using ih f(2) by simp
      then show ?thesis using first by (intro exI [of _ new] exI [of _ "ts @ us"] exI [of _ "[Stream_Ready symb reconnected]"]) simp
    next
      case waiting
      then show ?thesis using ih f(2) by auto
    qed
  qed
qed auto

lemma trade_subscribe_first: "snd (trade_subscribe messages ending) = Inr (first, later) \<Longrightarrow> first \<longleftrightarrow> fst (trade_subscribe messages ending) \<noteq> []"
  by (induction messages ending arbitrary: first rule: trade_subscribe.induct)
    (auto simp: Let_def split: sum.splits if_splits prod.splits)

lemma trade_connection_shape:
  assumes "trade_connection env n symb c s = (es, s')" "\<not> st_ended s"
  shows "\<exists>ts ready us msg. es = map Public_Trade ts @ ready @ map Public_Trade us @ [Stream_Disconnected symb msg] \<and>
    (ready = [] \<or> ready = [Stream_Ready symb (st_connected_once s)] \<and> ts \<noteq> [] \<and> st_connected_once s') \<and>
    st_buffer s' = push_all n (st_buffer s) (ts @ us) \<and> \<not> st_ready s'"
proof (cases c)
  case (Refused e)
  then have "es = [Stream_Disconnected symb (se_describe env e)]" "st_buffer s' = st_buffer s" "\<not> st_ready s'"
    using assms by (auto simp: trade_connection_def stream_failure_def split: option.splits)
  then show ?thesis
    by (simp add: push_all_def)
next
  case (Opened messages ending)
  obtain ts r where sub: "trade_subscribe messages ending = (ts, r)" by fastforce
  show ?thesis
  proof (cases r)
    case (Inl e)
    then have "es = map Public_Trade ts @ [Stream_Disconnected symb (se_describe env e)]" "st_buffer s' = push_all n (st_buffer s) ts" "\<not> st_ready s'"
      using assms Opened sub by (auto simp: trade_connection_def stream_failure_def split: option.splits)
    then show ?thesis
      by (intro exI [of _ ts], intro exI [of _ "[] :: trade_stream_event list"], intro exI [of _ "[] :: public_trade list"],
        intro exI [of _ "se_describe env e"]) simp
  next
    case (Inr fr)
    obtain first later where fr: "fr = (first, later)" by (cases fr)
    obtain fs e where rec: "trade_receive symb (st_connected_once s) first later ending = (fs, e)" by fastforce
    have res: "es = map Public_Trade ts @ (if first then [Stream_Ready symb (st_connected_once s)] else []) @ fs @
        [Stream_Disconnected symb (se_describe env e)]"
      "st_buffer s' = push_all n (st_buffer s) (ts @ trades_of fs)" "\<not> st_ready s'" "st_connected_once s'"
      using assms Opened sub Inr fr rec
      by (auto simp: trade_connection_def stream_failure_def push_all_append Let_def split: option.splits)
    have first: "first \<longleftrightarrow> ts \<noteq> []" using sub Inr fr trade_subscribe_first [of messages ending] by simp
    obtain vs us ready where shape: "fs = map Public_Trade vs @ ready @ map Public_Trade us"
        "if first then ready = [] else ready = [] \<and> vs @ us = [] \<or> ready = [Stream_Ready symb (st_connected_once s)] \<and> vs \<noteq> []"
      using trade_receive_shape [OF rec] by blast
    show ?thesis
    proof (cases first)
      case True
      then have "fs = map Public_Trade (vs @ us)" using shape by simp
      then show ?thesis using res first True
        by (intro exI [of _ ts] exI [of _ "[Stream_Ready symb (st_connected_once s)]"] exI [of _ "vs @ us"] exI [of _ "se_describe env e"]) simp
    next
      case False
      then have "ready = [] \<or> ready = [Stream_Ready symb (st_connected_once s)] \<and> vs \<noteq> []" "trades_of ready = []" "ts = []"
        using shape(2) first by auto
      then show ?thesis using res shape(1) False
        by (intro exI [of _ vs] exI [of _ ready] exI [of _ us] exI [of _ "se_describe env e"]) auto
    qed
  qed
qed

section \<open>Properties\<close>

text \<open>The shards are a partition of the symbols. For a positive size, the shards together are the upper-case symbols, each once and
  in order, so every symbol is subscribed by exactly one shard; no shard is empty or larger than the size.\<close>

theorem shards_partition_the_symbols:
  assumes "0 < shard_size"
  shows "\<exists>shards. shard_symbols symbols shard_size = Inr shards \<and> concat shards = sort (remdups (map py_upper symbols)) \<and>
    (\<forall>shard \<in> set shards. shard \<noteq> [] \<and> int (length shard) \<le> shard_size)"
proof -
  have pos: "0 < nat shard_size" using assms by simp
  have "shard \<noteq> [] \<and> int (length shard) \<le> shard_size"
    if "shard \<in> set (chunks (nat shard_size) (sort (remdups (map py_upper symbols))))" for shard
    using chunk_sizes [OF pos that] assms by auto
  then show ?thesis using assms by (auto simp: shard_symbols_def concat_chunks [OF pos])
qed

lemma shards_partition_the_symbols_witness:
  "\<exists>shards. shard_symbols [''ethusdt'', ''BTCUSDT'', ''ETHUSDT''] 1 = Inr shards \<and> concat shards = [''BTCUSDT'', ''ETHUSDT'']"
proof -
  have "sort (remdups (map py_upper [''ethusdt'', ''BTCUSDT'', ''ETHUSDT''])) = [''BTCUSDT'', ''ETHUSDT'']" by code_simp
  then show ?thesis using shards_partition_the_symbols [of 1 "[''ethusdt'', ''BTCUSDT'', ''ETHUSDT'']"] by force
qed

text \<open>C37: Every break of a shard is noticed once. Along any connections of a task that has not ended, the notices between the
  candles are exactly: a disconnection after the first connection that subscribed, and for every later one a reconnection
  and a disconnection; refused connections in between add nothing.\<close>

theorem shard_notices_alternate:
  assumes "run_shard env symbols cs fresh_shard = (es, s)" "\<not> sh_ended s"
  shows "notices es = tl (concat (replicate (length (filter subscribed cs)) [Up, Down]))"
  using run_shard_notices [OF assms] by (simp add: fresh_shard_def)

definition sample_env :: stream_env where
  "sample_env = \<lparr>se_reconnect = \<lparr>rk_base_seconds = 1, rk_max_seconds = 30\<rparr>, se_jitter = (\<lambda>_. 0), se_describe = (\<lambda>_. [])\<rparr>"

definition sample_confirmation :: ws_raw where
  "sample_confirmation = Message \<lparr>wp_op = Some ''subscribe'', wp_success = True, wp_ret_msg = [], wp_topic = None, wp_klines = None, wp_trades = None\<rparr>"

lemma shard_notices_alternate_witness:
  "\<exists>es s. run_shard sample_env [''BTCUSDT''] [Refused DivisionByZero, Opened [sample_confirmation] None, Refused DivisionByZero, Opened [sample_confirmation] None]
     fresh_shard = (es, s) \<and> notices es = [Down, Up, Down]"
proof -
  let ?cs = "[Refused DivisionByZero, Opened [sample_confirmation] None, Refused DivisionByZero, Opened [sample_confirmation] None]"
  obtain es s where run: "run_shard sample_env [''BTCUSDT''] ?cs fresh_shard = (es, s)" by fastforce
  have alive: "\<not> sh_ended (snd (run_shard sample_env [''BTCUSDT''] ?cs fresh_shard))"
    by (simp add: shard_connection_def shard_failure_def reconnect_delay_def sample_env_def fresh_shard_def sample_confirmation_def decode_def)
  have n: "length (filter subscribed ?cs) = 2" by (simp add: subscribed_def sample_confirmation_def decode_def)
  have "notices es = [Down, Up, Down]" using shard_notices_alternate [OF run] alive run unfolding n by (simp add: numeral_2_eq_2)
  with run show ?thesis by blast
qed

text \<open>C40: A long outage ends the streams for good. After 1025 refused connections in a row the task of a shard has ended, and so has
  the task of a trade stream: whatever connections would come later, nothing is received or announced any more.\<close>

theorem long_outage_ends_the_streams:
  "fst (run_shard env symbols (replicate 1025 (Refused e) @ cs) s) = fst (run_shard env symbols (replicate 1025 (Refused e)) s) \<and>
   fst (run_symbol env n symb (replicate 1025 (Refused e) @ cs) t) = fst (run_symbol env n symb (replicate 1025 (Refused e)) t)"
proof
  have "sh_ended (snd (run_shard env symbols (replicate 1025 (Refused e)) s))" by (rule refused_shard) simp
  then show "fst (run_shard env symbols (replicate 1025 (Refused e) @ cs) s) = fst (run_shard env symbols (replicate 1025 (Refused e)) s)"
    unfolding run_shard_append by (simp add: split_beta ended_shard)
  have "st_ended (snd (run_symbol env n symb (replicate 1025 (Refused e)) t))" by (rule refused_symbol) simp
  then show "fst (run_symbol env n symb (replicate 1025 (Refused e) @ cs) t) = fst (run_symbol env n symb (replicate 1025 (Refused e)) t)"
    unfolding run_symbol_append by (simp add: split_beta ended_symbol)
qed

text \<open>C38: A trade stream is ready only after a trade. What a connection of a running task announces are its trades, a readiness at most
  once and only after a trade of this connection, which tells a reconnection from the first connection, and the
  disconnection at the end; every trade is in the buffer, which keeps the latest ones, also those of earlier connections.\<close>

theorem ready_follows_a_trade:
  assumes "trade_connection env n symb c s = (es, s')" "\<not> st_ended s" "length (st_buffer s) \<le> n"
  shows "\<exists>ts ready us msg. es = map Public_Trade ts @ ready @ map Public_Trade us @ [Stream_Disconnected symb msg] \<and>
    (ready = [] \<or> ready = [Stream_Ready symb (st_connected_once s)] \<and> ts \<noteq> [] \<and> st_connected_once s') \<and>
    st_buffer s' = drop (length (st_buffer s) + length (ts @ us) - n) (st_buffer s @ ts @ us) \<and> \<not> st_ready s'"
  using trade_connection_shape [OF assms(1,2)] unfolding push_all_latest [OF assms(3)] .

definition sample_ws_trade :: "string \<Rightarrow> int \<Rightarrow> ws_trade" where
  "sample_ws_trade i ms = \<lparr>wt_T = ms, wt_s = ''BTCUSDT'', wt_S = Buy, wt_v = ''1'', wt_p = ''3'', wt_i = i, wt_BT = False, wt_RPI = False, wt_seq = ms\<rparr>"

definition sample_trade_message :: "string \<Rightarrow> int \<Rightarrow> ws_raw" where
  "sample_trade_message i ms = Message \<lparr>wp_op = None, wp_success = False, wp_ret_msg = [], wp_topic = Some ''publicTrade.BTCUSDT'', wp_klines = None,
     wp_trades = Some \<lparr>wm_topic = ''publicTrade.BTCUSDT'', wm_data = [sample_ws_trade i ms]\<rparr>\<rparr>"

definition sample_public :: "string \<Rightarrow> int \<Rightarrow> public_trade" where
  "sample_public i ms = \<lparr>pt_trade_id = i, pt_symbol = ''BTCUSDT'', pt_price = 3, pt_size = 1, pt_side = Buy, pt_executed_at = ms * 1000,
     pt_sequence = ms, pt_is_block_trade = False, pt_is_rpi_trade = False\<rparr>"

lemma sample_handled: "rbind (decode source (sample_trade_message i ms)) handle_trade_payload = Inr [sample_public i ms]"
proof -
  have "py_upper ''BTCUSDT'' = ''BTCUSDT''" "drop 12 ''publicTrade.BTCUSDT'' = ''BTCUSDT''" "starts_with ''publicTrade.'' ''publicTrade.BTCUSDT''"
    by code_simp+
  then show ?thesis
    by (simp add: sample_trade_message_def decode_def handle_trade_payload_def parse_public_trades_def has_topic_def sample_ws_trade_def parse_trade_def
        decimals_def decimal_of_def finite_number_def sample_reads sample_public_def)
qed

lemma ready_follows_a_trade_witness:
  "\<exists>es s'. trade_connection sample_env 5 ''BTCUSDT'' (Opened [sample_confirmation, sample_trade_message ''a'' 1] None) fresh_stream = (es, s') \<and>
     es = [Public_Trade (sample_public ''a'' 1), Stream_Ready ''BTCUSDT'' False, Stream_Disconnected ''BTCUSDT'' []] \<and>
     st_buffer s' = [sample_public ''a'' 1]"
proof -
  obtain es s' where run: "trade_connection sample_env 5 ''BTCUSDT'' (Opened [sample_confirmation, sample_trade_message ''a'' 1] None) fresh_stream = (es, s')"
    by fastforce
  have es: "es = [Public_Trade (sample_public ''a'' 1), Stream_Ready ''BTCUSDT'' False, Stream_Disconnected ''BTCUSDT'' []]"
    using run sample_handled [of _ "''a''" 1]
    by (auto simp: trade_connection_def fresh_stream_def sample_confirmation_def decode_def [of _ "Message _"] stream_failure_def sample_env_def Let_def split: prod.splits)
  have "\<not> st_ended fresh_stream" "length (st_buffer fresh_stream) \<le> 5" by (simp_all add: fresh_stream_def)
  from ready_follows_a_trade [OF run this] es have "st_buffer s' = [sample_public ''a'' 1]"
    by (auto simp: fresh_stream_def Cons_eq_append_conv append_eq_Cons_conv map_eq_append_conv)
  with run es show ?thesis by blast
qed

text \<open>C39: A stale buffer proves the coverage. A reconnection keeps the buffer of the earlier connections. So as soon as the REST history
  starts early enough and shares one trade with what was buffered before the break, the coverage is proven, even when the
  history and the new connection have no trade in common: the same proof from the trades of the new connection fails, and
  the trades between the end of the history and the first new one may be missing.\<close>

theorem stale_buffer_proves_coverage:
  assumes "stream_so_far n symb messages s = (es, s')" "length (st_buffer s @ trades_of es) \<le> n"
    and "t \<in> set rest" "t \<in> set (st_buffer s)" "anchor \<le> pt_executed_at t" "pt_executed_at (hd rest) \<le> anchor"
    and "\<forall>u \<in> set (rest @ st_buffer s @ trades_of es). pt_symbol u = symb"
    and "pt_trade_id ` set rest \<inter> pt_trade_id ` set (trades_of es) = {}"
  shows "cov_proven (merge_trade_coverage rest (buffered_trades s' anchor) anchor) \<and>
    \<not> cov_proven (merge_trade_coverage rest (filter (\<lambda>u. anchor \<le> pt_executed_at u) (trades_of es)) anchor)"
proof
  have "st_buffer s' = push_all n (st_buffer s) (trades_of es)"
    using assms(1) by (auto simp: stream_so_far_def push_all_append [symmetric] Let_def split: prod.splits sum.splits if_splits)
  then have buffer: "st_buffer s' = st_buffer s @ trades_of es" using assms(2) by (simp add: push_all_latest)
  let ?ws = "buffered_trades s' anchor"
  have t: "t \<in> set ?ws" using assms(4,5) by (simp add: buffered_trades_def buffer)
  have "pt_symbol ` set (rest @ ?ws) = {symb}" using assms(3,7) by (force simp: buffered_trades_def buffer)
  then have symbols: "(card (pt_symbol ` set (rest @ ?ws)) \<noteq> 1) = False" by simp
  have "pt_trade_id t \<in> pt_trade_id ` set rest \<inter> pt_trade_id ` set ?ws" using t assms(3) by blast
  then have shared: "(pt_trade_id ` set rest \<inter> pt_trade_id ` set ?ws = {}) = False" by blast
  have sources: "(rest = []) = False" "(?ws = []) = False" "(anchor < pt_executed_at (hd rest)) = False" using t assms(3,6) by auto
  show "cov_proven (merge_trade_coverage rest ?ws anchor)"
    unfolding merge_trade_coverage_def sources symbols shared if_False by simp
  have "pt_trade_id ` set rest \<inter> pt_trade_id ` set (filter (\<lambda>u. anchor \<le> pt_executed_at u) (trades_of es)) = {}"
    using assms(8) by auto
  then show "\<not> cov_proven (merge_trade_coverage rest (filter (\<lambda>u. anchor \<le> pt_executed_at u) (trades_of es)) anchor)"
    by (simp add: merge_trade_coverage_def uncovered_def)
qed

lemma stale_buffer_proves_coverage_witness:
  "\<exists>s'. snd (stream_so_far 5 ''BTCUSDT'' [sample_confirmation, sample_trade_message ''c'' 3]
       (fresh_stream\<lparr>st_buffer := [sample_public ''a'' 1], st_connected_once := True\<rparr>)) = s' \<and>
     cov_proven (merge_trade_coverage [sample_public ''a'' 1] (buffered_trades s' 1000) 1000)"
proof -
  let ?s = "fresh_stream\<lparr>st_buffer := [sample_public ''a'' 1], st_connected_once := True\<rparr>"
  obtain es s' where run: "stream_so_far 5 ''BTCUSDT'' [sample_confirmation, sample_trade_message ''c'' 3] ?s = (es, s')" by fastforce
  have es: "trades_of es = [sample_public ''c'' 3]"
    using run sample_handled [of _ "''c''" 3] by (auto simp: stream_so_far_def sample_confirmation_def decode_def [of _ "Message _"] Let_def split: prod.splits)
  have "cov_proven (merge_trade_coverage [sample_public ''a'' 1] (buffered_trades s' 1000) 1000)"
    using stale_buffer_proves_coverage [OF run, of "sample_public ''a'' 1" "[sample_public ''a'' 1]" 1000]
    by (simp add: es sample_public_def)
  with run show ?thesis by auto
qed

end
