(* ===== verification/Spec2Isabelle.thy ===== *)
theory Spec2Isabelle
  imports Service_Safety Aggregation_Queue Replay Universe_Refresh Telegram_Commands Strategy_Service Operations Bybit_Streams
begin

text \<open>
  A verification library for StructurePulse, a service that analyses the perpetual contracts of an
  exchange with smart-money concepts, publishes signals and follows each published signal as a virtual
  trade. All definitions are translated from the Python sources under \<open>src/src\<close>.

  \<^bold>\<open>The parts of the program and how they work together.\<close>
  \<^item> \<open>crypto_smc/market_data\<close> ingests one-minute candles: live from the stream and by backfill from the
    REST history. It stores them with a checkpoint per stream and queues the intervals they touch for
    aggregation.
  \<^item> \<open>crypto_smc/aggregation\<close> builds the candles of the timeframes 5m, 15m, 1h and 4h from complete
    intervals of minutes.
  \<^item> \<open>smc_core\<close> analyses a series of candles: swings, structure breaks, liquidity sweeps, displacements,
    fair value gaps, order blocks, equal levels and the dealing range.
  \<^item> \<open>crypto_smc/strategy\<close> turns the analyses of the four timeframes into a scored candidate with a
    trade plan, or a suppressed one with the reasons.
  \<^item> \<open>crypto_smc/replay\<close> runs the same analysis and evaluation over a file of historical minutes and reports
    what the accepted candidates would have earned.
  \<^item> \<open>crypto_smc/signals\<close> publishes accepted candidates within limits, and drives the state machine of
    each signal and its virtual trade by public trades, by candles where trades are missing, and by
    time. \<open>db/repositories/signals.py\<close> keeps the tables behind it.
  \<^item> \<open>crypto_smc/universe\<close> and \<open>services/universe_refresh.py\<close> choose the contracts that are traded; the ingestion
    reads their symbols from the tables of the current universe.
  \<^item> \<open>crypto_smc/telegram\<close> delivers the events of the outbox to the users, each according to the settings of the user,
    and answers their commands.

  \<^bold>\<open>Theories, in the order of their imports.\<close>
  \<^item> \<open>Prelude\<close>: exceptions as values (\<open>'a res\<close>), loops that may raise, insertion-ordered dictionaries,
    strings, time. \<open>Py_Decimal\<close>: \<open>decimal.Decimal\<close> at 28 digits with rounding half to even (\<open>rnd\<close>), stated
    as the interpretation of a locale of rounding operators; error bounds of chains of operations (\<open>near\<close>).
  \<^item> \<open>Candles\<close> (\<open>smc_core/models.py\<close>, \<open>config.py\<close>, \<open>validation.py\<close>, \<open>statistics.py\<close>), \<open>Scan\<close> (loops over a
    series, with the locale of incremental detectors), \<open>Swings\<close> (\<open>swings.py\<close>, \<open>ranges.py\<close>), \<open>Structure\<close>
    (\<open>structure.py\<close>, the sweeps of \<open>liquidity.py\<close>), \<open>Zones\<close> (\<open>displacement.py\<close>, \<open>imbalances.py\<close>,
    \<open>order_blocks.py\<close>, the equal levels), \<open>Analysis\<close> (\<open>analysis.py\<close>): the detectors are sound, and the
    analysis of a prefix is the part of the analysis known by then, each zone with the tests, fillings and
    invalidations that candles of the prefix showed.
  \<^item> \<open>Trade_Plan\<close> (\<open>strategy/config.py\<close>, \<open>models.py\<close>, \<open>risk.py\<close>): bounds of the loss, the leverage and the
    prices of a plan. \<open>Evaluator\<close> (\<open>strategy/evaluator.py\<close>): the gates of a candidate and its score.
  \<^item> \<open>Signal_States\<close> (\<open>signals/state_machine.py\<close>), \<open>Lifecycle\<close> (\<open>signals/lifecycle.py\<close>, \<open>funding.py\<close>),
    \<open>Fallback\<close> (\<open>fallback.py\<close>), \<open>Coverage\<close> (\<open>coverage.py\<close>), \<open>Policy\<close> (\<open>policy.py\<close>, \<open>models.py\<close>): the pure parts
    of the life of a signal, the two state machines and the refinement between them.
  \<^item> \<open>Signal_Repository\<close> (\<open>db/repositories/signals.py\<close>): the tables, publication, transitions and their
    invariant. \<open>Signal_Service\<close> (\<open>signals/service.py\<close>): reconciliation, events, coverage and recovery.
    \<open>Service_Safety\<close>: the relation \<open>reachable\<close> of the runs of the service and its safety.
  \<^item> \<open>Aggregation\<close> (\<open>aggregation/domain.py\<close>, \<open>replay/aggregation.py\<close>): intervals and aggregates, and that
    the timeframes nest. \<open>Market_Data\<close> (\<open>db/repositories/market_data.py\<close>): the tables of the minutes.
    \<open>Market_Stream\<close> (\<open>market_data/backfill.py\<close>, \<open>live.py\<close>): backfill and live ingestion; the relation
    \<open>market_reachable\<close> of their runs, which records what the exchange answered to each move and the tables it found, and
    that a checkpoint never passes over a missing minute, from the start that the first move computed. A move that
    raises keeps what its transactions had committed.
    \<open>Aggregation_Queue\<close> (\<open>db/repositories/aggregation.py\<close>, \<open>aggregation/service.py\<close>, \<open>reconciliation.py\<close>): the
    queue of intervals; the relation \<open>worker_reachable\<close>, and that an empty queue means current aggregates.
  \<^item> \<open>Replay_Outcomes\<close> (\<open>replay/models.py\<close>, \<open>lifecycle.py\<close>, \<open>reporting.py\<close>): how a candidate of a replay is resolved
    and how outcomes add up. \<open>Replay\<close> (\<open>replay/runner.py\<close>): the loop of the replay, and that it never looks ahead.
  \<^item> \<open>Universe\<close> (\<open>universe/policy.py\<close>, the data of \<open>providers/models.py\<close>): the decisions of the policy are a greedy
    selection. \<open>Universe_Refresh\<close> (\<open>services/universe_refresh.py\<close>, \<open>instrument_sync.py\<close>, the repositories of the
    universe and the instruments): a refresh installs one snapshot or leaves the old one.
  \<^item> \<open>Py_Text\<close>: what the standard library reads and prints (\<open>int\<close>, \<open>Decimal\<close>, times, keys of zones), with round trips.
    \<open>Notifications\<close> (\<open>db/repositories/notifications.py\<close>, \<open>telegram/outbox.py\<close>): events, deliveries and the worker that
    sends them; the relation \<open>outbox_reachable\<close> of its runs with crashes, and that nothing is sent twice.
  \<^item> \<open>Strategy_Repository\<close> (\<open>db/repositories/strategy.py\<close>, the query \<open>list_signals\<close>) and \<open>Strategy_Service\<close>
    (\<open>analysis/strategy_service.py\<close>): the cycle of the live analysis, from the candles of the universe to stored
    candidates and published signals, and that it is idempotent.
  \<^item> \<open>Telegram_Commands\<close> (\<open>telegram/commands.py\<close>, \<open>localization.py\<close>, the filter of \<open>transport.py\<close>): what the bot
    answers and what a message changes, that the settings of the users stay well-formed, and that what
    is typed is what is stored.
  \<^item> \<open>Operations\<close> (\<open>observability/runtime.py\<close>, \<open>worker_health.py\<close>, \<open>services/operational_warnings.py\<close>,
    \<open>db/repositories/maintenance.py\<close>): readiness, the warnings of an outage and what the retention deletes.
  \<^item> \<open>Rate_Limit\<close>, \<open>Bybit_Client\<close> (\<open>providers/bybit/rate_limit.py\<close>, \<open>client.py\<close>, \<open>schemas.py\<close>): the slots of the
    requests, the retries and what the client makes of the answers of the exchange. \<open>Bybit_Streams\<close> (\<open>websocket.py\<close>,
    \<open>trade_websocket.py\<close>): what the tasks of the streams announce and buffer, connection after connection.

  \<^bold>\<open>Conventions.\<close>
  \<^item> A \<open>Decimal\<close> is a rational; every arithmetic operation rounds its result by \<open>rnd\<close>, comparisons are exact.
    Infinities, NaN, limits of the exponent and trailing zeros are not modelled.
  \<^item> A timezone-aware \<open>datetime\<close> is a number of microseconds since the epoch. \<open>timestamp()\<close> and
    \<open>total_seconds()\<close> are taken as exact; an operation reads one moment of the clock.
  \<^item> A frozen dataclass or model is a record; its \<open>__post_init__\<close> is a function \<open>mk_\<dots>\<close>. Exceptions are values
    of \<open>py_exn\<close>; texts that are formatted with values are constructors that carry the values.
  \<^item> A database table is the list of its rows and a method is one transaction: when it raises, the tables are
    unchanged. The rounding of numeric columns and columns the database fills are not modelled.
  \<^item> A loop over a sequence is recursion over the list. The loops that may not end are
    \<open>partial_function (option)\<close>: over the batches of a backfill, which \<open>synchronisation_ends\<close> shows to end for
    every batch size the settings allow, and over the pages of the instruments, which end when the exchange
    stops to give cursors (\<open>instruments_are_complete\<close>). No definition uses fuel.

  \<^bold>\<open>Not modelled.\<close> Sockets and HTTP transport (what they deliver is an input), the CoinGecko client, the HTTP API,
  the rendering of texts and report files, process wiring, settings, metrics and logging, schema migrations: they
  hold little logic beyond calls of libraries. Concurrency inside the process is the interleaving of whole
  operations. The manifest lists every part with its status.
\<close>

end
